(* ===== verification/Kernel_Prelude.thy ===== *)
theory Kernel_Prelude
  imports Main "HOL-Library.Word" "HOL-Library.Monad_Syntax"
begin

unbundle bit_operations_syntax

text \<open>
  Shared vocabulary of the development: the integer types and error codes of
  \<^verbatim>\<open>rt-thread/include/rtdef.h\<close>, the failure convention for kernel code, the generic facts on
  words, lists and options that the component theories use, and the collections of simplification
  rules the components add to.

  Kernel code either runs to its end or the system stops: a failed \<^verbatim>\<open>RT_ASSERT\<close> spins forever in
  \<^verbatim>\<open>rt_assert_handler\<close>, a stack overflow spins in the scheduler, and a null pointer has no meaning.
  All of these are the value \<open>None\<close>; a run that ends is \<open>Some\<close>.
\<close>

named_theorems kdefs \<open>definitions of kernel operations, unfolded to evaluate concrete runs\<close>
named_theorems frame_simps \<open>which fields of the kernel state an operation leaves alone\<close>
named_theorems stat_simps \<open>bit arithmetic on the thread status byte\<close>

type_synonym u8 = "8 word"
type_synonym u16 = "16 word"
type_synonym u32 = "32 word"
type_synonym rt_err_t = int

section \<open>Error codes and constants of rtdef.h\<close>

definition RT_EOK :: rt_err_t where "RT_EOK = 0"
definition RT_ERROR :: rt_err_t where "RT_ERROR = 1"
definition RT_ETIMEOUT :: rt_err_t where "RT_ETIMEOUT = 2"
definition RT_EFULL :: rt_err_t where "RT_EFULL = 3"
definition RT_ENOSYS :: rt_err_t where "RT_ENOSYS = 6"
definition RT_EBUSY :: rt_err_t where "RT_EBUSY = 7"
definition RT_EINTR :: rt_err_t where "RT_EINTR = 9"
definition RT_EINVAL :: rt_err_t where "RT_EINVAL = 10"

lemmas rt_err_defs = RT_EOK_def RT_ERROR_def RT_ETIMEOUT_def RT_EFULL_def RT_ENOSYS_def
  RT_EBUSY_def RT_EINTR_def RT_EINVAL_def

definition RT_TICK_MAX :: u32 where "RT_TICK_MAX = 0xffffffff"
definition RT_THREAD_PRIORITY_MAX :: nat where "RT_THREAD_PRIORITY_MAX = 32"

lemma RT_TICK_MAX_half: "RT_TICK_MAX div 2 = 0x7fffffff"
  by (simp add: RT_TICK_MAX_def)

text \<open>\<^verbatim>\<open>RT_ASSERT(EX)\<close>: continue when the condition holds, hang otherwise.\<close>

definition RT_ASSERT :: "bool \<Rightarrow> unit option" where
  "RT_ASSERT b = (if b then Some () else None)"

lemma RT_ASSERT_simps [simp]:
  "RT_ASSERT True = Some ()" "RT_ASSERT False = None"
  "(RT_ASSERT b = Some u) = b" "(RT_ASSERT b = None) = (\<not> b)"
  by (auto simp: RT_ASSERT_def)

lemma RT_ASSERT_bind [simp]: "Option.bind (RT_ASSERT b) f = (if b then f () else None)"
  by (simp add: RT_ASSERT_def)

text \<open>An array access: going past the end has no meaning.\<close>

abbreviation in_bounds :: "bool \<Rightarrow> unit option" where
  "in_bounds b \<equiv> RT_ASSERT b"

section \<open>Options\<close>

lemmas bind_Some = Option.bind_eq_Some_conv

lemma bind_SomeE [elim!]:
  assumes "Option.bind m f = Some y"
  obtains x where "m = Some x" "f x = Some y"
  using assms by (cases m) auto

section \<open>Lists\<close>

lemma removeAll_notin [simp]: "x \<notin> set xs \<Longrightarrow> removeAll x xs = xs"
  by (simp add: removeAll_id)

lemma distinct_removeAll_hd: "distinct (x # xs) \<Longrightarrow> removeAll x (x # xs) = xs"
  by simp

lemma hd_in_set' [intro]: "xs \<noteq> [] \<Longrightarrow> hd xs \<in> set xs"
  by simp

lemma find_eq_Some: "List.find (\<lambda>x. x = a) xs = Some b \<longleftrightarrow> b = a \<and> a \<in> set xs"
  by (induction xs) auto

section \<open>Words\<close>

lemma bit_two_power [simp]: "bit (2 ^ n :: 'a::len word) m \<longleftrightarrow> m = n \<and> m < LENGTH('a)"
  by (auto simp: bit_exp_iff)

lemma word_and_two_power: "(w AND 2 ^ n = (0 :: 'a::len word)) \<longleftrightarrow> \<not> bit w n"
  by (rule and_exp_eq_0_iff_not_bit)

text \<open>
  \<^verbatim>\<open>__rt_ffs\<close>: the number of the lowest set bit, counted from 1, and 0 for 0. The board builds with
  \<^verbatim>\<open>RT_USING_CPU_FFS\<close>, where the function is the compiler's \<^verbatim>\<open>__builtin_ffs\<close>
  (\<^verbatim>\<open>libcpu/arm/cortex-m4/cpuport.c\<close>).
\<close>

fun ffs_from :: "nat \<Rightarrow> nat \<Rightarrow> u32 \<Rightarrow> nat" where
  "ffs_from 0 i w = 0"
| "ffs_from (Suc k) i w = (if bit w i then Suc i else ffs_from k (Suc i) w)"

definition rt_ffs :: "u32 \<Rightarrow> nat" where
  "rt_ffs w = ffs_from 32 0 w"

lemma ffs_from_spec:
  "(ffs_from k i w = 0 \<longrightarrow> (\<forall>j. i \<le> j \<and> j < i + k \<longrightarrow> \<not> bit w j)) \<and>
   (\<forall>n. ffs_from k i w = Suc n \<longrightarrow>
      i \<le> n \<and> n < i + k \<and> bit w n \<and> (\<forall>j. i \<le> j \<and> j < n \<longrightarrow> \<not> bit w j))"
proof (induction k arbitrary: i)
  case 0
  then show ?case by auto
next
  case (Suc k)
  show ?case
  proof (cases "bit w i")
    case True
    then show ?thesis by auto
  next
    case False
    have *: "i \<le> j \<longleftrightarrow> j = i \<or> Suc i \<le> j" for j by auto
    show ?thesis using False Suc.IH [of "Suc i"] by (auto simp: *)
  qed
qed

lemma rt_ffs_eq_0_iff: "rt_ffs w = 0 \<longleftrightarrow> w = 0"
proof
  assume "rt_ffs w = 0"
  then have "\<forall>j < 32. \<not> bit w j"
    using ffs_from_spec [of 32 0 w] by (auto simp: rt_ffs_def)
  then show "w = 0" by (intro bit_word_eqI) auto
next
  assume "w = 0"
  then show "rt_ffs w = 0"
    using ffs_from_spec [of 32 0 w] by (cases "rt_ffs w") (auto simp: rt_ffs_def)
qed

lemma rt_ffs_SucD:
  assumes "rt_ffs w = Suc n"
  shows "n < 32" "bit w n" "j < n \<Longrightarrow> \<not> bit w j"
  using ffs_from_spec [of 32 0 w] assms by (auto simp: rt_ffs_def)

lemma rt_ffs_minus_1:
  assumes "w \<noteq> 0"
  shows "rt_ffs w - 1 < 32" "bit w (rt_ffs w - 1)" "j < rt_ffs w - 1 \<Longrightarrow> \<not> bit w j"
proof -
  obtain n where n: "rt_ffs w = Suc n"
    using assms rt_ffs_eq_0_iff by (metis not0_implies_Suc)
  show "rt_ffs w - 1 < 32" "bit w (rt_ffs w - 1)" "j < rt_ffs w - 1 \<Longrightarrow> \<not> bit w j"
    using rt_ffs_SucD [OF n] n by auto
qed

text \<open>\<^verbatim>\<open>RT_ALIGN(size, RT_ALIGN_SIZE)\<close>: up to the next multiple of four, in 32 bits.\<close>

definition align4 :: "u32 \<Rightarrow> u32" where
  "align4 sz = (sz + 4 - 1) AND NOT (4 - 1)"

text \<open>Rounding down and up to a multiple of 4.\<close>

lemma unat_two_power:
  assumes "k < LENGTH('a)"
  shows "unat (2 ^ k :: 'a::len word) = 2 ^ k"
proof -
  have "(2 ^ k :: 'a word) = of_nat (2 ^ k)" by simp
  then show ?thesis using assms by (simp only: unsigned_of_nat) (simp add: take_bit_nat_eq_self)
qed

lemma unat_and_mask:
  fixes x :: "'a::len word"
  assumes "k < LENGTH('a)"
  shows "unat (x AND mask k) = unat x mod 2 ^ k" "unat (x AND NOT (mask k)) = unat x div 2 ^ k * 2 ^ k"
proof -
  have "unat (take_bit k x) = take_bit k (unat x)" by (rule unsigned_take_bit_eq)
  then show "unat (x AND mask k) = unat x mod 2 ^ k" by (simp add: take_bit_eq_mask [symmetric] take_bit_eq_mod [of k "unat x"])
  have "x AND NOT (mask k) = push_bit k (drop_bit k x)"
    by (rule bit_word_eqI) (auto simp: bit_simps)
  also have "\<dots> = drop_bit k x * 2 ^ k" by (simp add: push_bit_eq_mult)
  finally have e: "x AND NOT (mask k) = drop_bit k x * 2 ^ k" .
  have d: "unat (drop_bit k x) = unat x div 2 ^ k" using assms by (simp add: drop_bit_eq_div unat_div_distrib unat_two_power)
  have "unat x < 2 ^ LENGTH('a)" by (rule unsigned_less)
  then have "unat x div 2 ^ k * 2 ^ k < 2 ^ LENGTH('a)" using div_times_less_eq_dividend [of "unat x" "2 ^ k"] by linarith
  then show "unat (x AND NOT (mask k)) = unat x div 2 ^ k * 2 ^ k" unfolding e using d assms by (simp add: unat_word_ariths unat_two_power)
qed

lemma and_not_3: "unat (x AND NOT 3 :: u32) = 4 * (unat x div 4)"
  using unat_and_mask(2) [of 2 x] by (simp add: mask_eq_exp_minus_1)

lemma align4_unat:
  assumes "unat sz + 3 < 2 ^ 32"
  shows "unat (align4 sz) = 4 * ((unat sz + 3) div 4)"
proof -
  have "sz + 4 - 1 = sz + (3 :: u32)" "(4 :: u32) - 1 = 3" by simp_all
  moreover have "unat (sz + 3) = unat sz + 3" using assms by (simp add: unat_word_ariths)
  ultimately show ?thesis unfolding align4_def by (simp only: and_not_3)
qed

lemma align4_idem: "align4 (align4 sz) = align4 sz"
proof -
  define x where "x = sz + 3"
  have al: "align4 y = (y + 3) AND NOT 3" for y by (simp add: align4_def add_diff_eq [symmetric] del: add_diff_eq)
  have u: "unat (align4 sz) = 4 * (unat x div 4)" by (simp only: al and_not_3 x_def)
  have "unat x < 2 ^ 32" using unsigned_less [of x, where ?'a = nat] by simp
  then have "unat x div 4 < 2 ^ 30" by (simp add: less_mult_imp_div_less)
  then have "4 * (unat x div 4) + 3 < 2 ^ 32" by simp
  then have "unat (align4 (align4 sz)) = unat (align4 sz)" using align4_unat [of "align4 sz"] u by simp
  then show ?thesis by (simp add: word_unat_eq_iff)
qed

lemma align4_dvd: "4 dvd unat (align4 sz)"
proof -
  have "align4 sz = (sz + 3) AND NOT 3" by (simp add: align4_def add_diff_eq [symmetric] del: add_diff_eq)
  then show ?thesis by (simp only: and_not_3) simp
qed

end
