(* ===== verification/Kernel_State.thy ===== *)
theory Kernel_State
  imports Kernel_Prelude
begin

text \<open>
  The memory of the RT-Thread kernel, as the structures of \<^verbatim>\<open>rt-thread/include/rtdef.h\<close> lay it out
  for this board: uniprocessor (no \<^verbatim>\<open>RT_USING_SMP\<close>), 32 priorities, signals, events and mailboxes
  enabled. A kernel object is named by a number that stands for the address of its static
  structure; the timer embedded in a thread is named by its thread.

  Every intrusive list that threads are linked into through their \<^verbatim>\<open>tlist\<close> node (the ready queue of a
  priority, the waiting list of an IPC object, the defunct list) is one entry of \<open>klists\<close>. A node
  is in at most one list, so \<^verbatim>\<open>rt_list_remove(&thread->tlist)\<close> removes the thread from whichever
  list holds it; theory Klist relates this view to the pointers.
  The pool of signal information nodes is the number of its free nodes, \<open>siginfo_free\<close>.
  Interrupt masking has no effect of its own here: every definition is one uninterrupted run.
\<close>

datatype objref = Kobj nat | Thread_timer nat

text \<open>The list heads threads are linked into: \<^verbatim>\<open>rt_thread_priority_table[p]\<close>, the
  \<^verbatim>\<open>suspend_thread\<close> and \<^verbatim>\<open>suspend_sender_thread\<close> lists of an IPC object or memory pool, and
  \<^verbatim>\<open>_rt_thread_defunct\<close>.\<close>

datatype lhead = Prio nat | Susp nat | SendSusp nat | Defunct

text \<open>The functions a timer can be armed with, with their parameter.\<close>

datatype timer_fn =
    Rt_thread_timeout nat
  | Timeout_obstacle_control
  | Timeout_movement_control
  | Timeout_check_resources
  | Timeout_acoustic_signals
  | Timeout_brushes_speed
  | Timeout_null

text \<open>The signal handlers a thread can install.\<close>

datatype sighandler =
    Signal_default_handler
  | Movement_control_obstacle_handler
  | TurnOffSystem

record rt_object =
  o_name :: string
  o_type :: u8
  o_flag :: u8

record rt_timer =
  timeout_func :: timer_fn
  timer_init_tick :: u32
  timeout_tick :: u32

record rt_thread =
  t_sp :: u32
  t_entry :: nat
  stack_addr :: u32
  stack_size :: u32
  stack_guard :: u8
  t_error :: rt_err_t
  t_stat :: u8
  current_priority :: u8
  init_priority :: u8
  number_mask :: u32
  event_set :: u32
  event_info :: u8
  sig_pending :: u32
  sig_mask :: u32
  sig_ret :: u32
  sig_vectors :: "(nat \<Rightarrow> sighandler option) option"
  si_list :: "nat list"
  init_tick :: u32
  remaining_tick :: u32
  end_flag :: u8
  tick_count :: u16
  preemptableFlag :: u8

record kstate =
  objects :: "objref \<Rightarrow> rt_object"
  containers :: "u8 \<Rightarrow> objref list"
  threads :: "nat \<Rightarrow> rt_thread"
  klists :: "lhead \<Rightarrow> nat list"
  ready_group :: u32
  current_thread :: "nat option"
  rt_current_priority :: u8
  scheduler_lock_nest :: u16
  interrupt_nest :: u8
  rt_tick :: u32
  timers :: "objref \<Rightarrow> rt_timer"
  timer_list :: "objref list"
  timer_fired :: "objref list"
  random_nr :: u32
  siginfo_free :: nat

section \<open>Field updates of one thread, object or timer\<close>

definition upd_thread :: "nat \<Rightarrow> (rt_thread \<Rightarrow> rt_thread) \<Rightarrow> 'a kstate_scheme \<Rightarrow> 'a kstate_scheme" where
  "upd_thread t f s = s\<lparr>threads := (threads s)(t := f (threads s t))\<rparr>"

definition upd_object :: "objref \<Rightarrow> (rt_object \<Rightarrow> rt_object) \<Rightarrow> 'a kstate_scheme \<Rightarrow> 'a kstate_scheme" where
  "upd_object r f s = s\<lparr>objects := (objects s)(r := f (objects s r))\<rparr>"

definition upd_timer :: "objref \<Rightarrow> (rt_timer \<Rightarrow> rt_timer) \<Rightarrow> 'a kstate_scheme \<Rightarrow> 'a kstate_scheme" where
  "upd_timer r f s = s\<lparr>timers := (timers s)(r := f (timers s r))\<rparr>"

lemmas upd_defs = upd_thread_def upd_object_def upd_timer_def

lemma upd_thread_sel [simp]:
  "threads (upd_thread t f s) = (threads s)(t := f (threads s t))"
  "klists (upd_thread t f s) = klists s"
  "objects (upd_thread t f s) = objects s"
  "containers (upd_thread t f s) = containers s"
  "ready_group (upd_thread t f s) = ready_group s"
  "current_thread (upd_thread t f s) = current_thread s"
  "rt_current_priority (upd_thread t f s) = rt_current_priority s"
  "scheduler_lock_nest (upd_thread t f s) = scheduler_lock_nest s"
  "interrupt_nest (upd_thread t f s) = interrupt_nest s"
  "rt_tick (upd_thread t f s) = rt_tick s"
  "timers (upd_thread t f s) = timers s"
  "timer_list (upd_thread t f s) = timer_list s"
  "timer_fired (upd_thread t f s) = timer_fired s"
  "random_nr (upd_thread t f s) = random_nr s"
  "siginfo_free (upd_thread t f s) = siginfo_free s"
  "kstate.more (upd_thread t f s) = kstate.more s"
  by (simp_all add: upd_thread_def)

lemma upd_object_sel [simp]:
  "objects (upd_object r g s) = (objects s)(r := g (objects s r))"
  "threads (upd_object r g s) = threads s"
  "klists (upd_object r g s) = klists s"
  "containers (upd_object r g s) = containers s"
  "ready_group (upd_object r g s) = ready_group s"
  "current_thread (upd_object r g s) = current_thread s"
  "rt_current_priority (upd_object r g s) = rt_current_priority s"
  "scheduler_lock_nest (upd_object r g s) = scheduler_lock_nest s"
  "interrupt_nest (upd_object r g s) = interrupt_nest s"
  "rt_tick (upd_object r g s) = rt_tick s"
  "timers (upd_object r g s) = timers s"
  "timer_list (upd_object r g s) = timer_list s"
  "timer_fired (upd_object r g s) = timer_fired s"
  "random_nr (upd_object r g s) = random_nr s"
  "siginfo_free (upd_object r g s) = siginfo_free s"
  "kstate.more (upd_object r g s) = kstate.more s"
  by (simp_all add: upd_object_def)

lemma upd_timer_sel [simp]:
  "timers (upd_timer r h s) = (timers s)(r := h (timers s r))"
  "threads (upd_timer r h s) = threads s"
  "klists (upd_timer r h s) = klists s"
  "objects (upd_timer r h s) = objects s"
  "containers (upd_timer r h s) = containers s"
  "ready_group (upd_timer r h s) = ready_group s"
  "current_thread (upd_timer r h s) = current_thread s"
  "rt_current_priority (upd_timer r h s) = rt_current_priority s"
  "scheduler_lock_nest (upd_timer r h s) = scheduler_lock_nest s"
  "interrupt_nest (upd_timer r h s) = interrupt_nest s"
  "rt_tick (upd_timer r h s) = rt_tick s"
  "timer_list (upd_timer r h s) = timer_list s"
  "timer_fired (upd_timer r h s) = timer_fired s"
  "random_nr (upd_timer r h s) = random_nr s"
  "siginfo_free (upd_timer r h s) = siginfo_free s"
  "kstate.more (upd_timer r h s) = kstate.more s"
  by (simp_all add: upd_timer_def)

section \<open>Lists of threads\<close>

definition tlist_insert_before :: "lhead \<Rightarrow> nat \<Rightarrow> 'a kstate_scheme \<Rightarrow> 'a kstate_scheme" where
  "tlist_insert_before h t s = s\<lparr>klists := (klists s)(h := klists s h @ [t])\<rparr>"

definition tlist_insert_after :: "lhead \<Rightarrow> nat \<Rightarrow> 'a kstate_scheme \<Rightarrow> 'a kstate_scheme" where
  "tlist_insert_after h t s = s\<lparr>klists := (klists s)(h := t # klists s h)\<rparr>"

definition tlist_remove :: "nat \<Rightarrow> 'a kstate_scheme \<Rightarrow> 'a kstate_scheme" where
  "tlist_remove t s = s\<lparr>klists := (\<lambda>h. removeAll t (klists s h))\<rparr>"

lemmas tlist_defs = tlist_insert_before_def tlist_insert_after_def tlist_remove_def

lemma tlist_remove_idle: "(\<And>h. t \<notin> set (klists s h)) \<Longrightarrow> tlist_remove t s = s"
  by (simp add: tlist_remove_def)

section \<open>The thread status byte\<close>

definition RT_THREAD_INIT :: u8 where "RT_THREAD_INIT = 0x00"
definition RT_THREAD_READY :: u8 where "RT_THREAD_READY = 0x01"
definition RT_THREAD_SUSPEND :: u8 where "RT_THREAD_SUSPEND = 0x02"
definition RT_THREAD_RUNNING :: u8 where "RT_THREAD_RUNNING = 0x03"
definition RT_THREAD_CLOSE :: u8 where "RT_THREAD_CLOSE = 0x04"
definition RT_THREAD_STAT_MASK :: u8 where "RT_THREAD_STAT_MASK = 0x07"
definition RT_THREAD_STAT_YIELD :: u8 where "RT_THREAD_STAT_YIELD = 0x08"
definition RT_THREAD_STAT_SIGNAL :: u8 where "RT_THREAD_STAT_SIGNAL = 0x10"
definition RT_THREAD_STAT_SIGNAL_WAIT :: u8 where "RT_THREAD_STAT_SIGNAL_WAIT = 0x20"
definition RT_THREAD_STAT_SIGNAL_PENDING :: u8 where "RT_THREAD_STAT_SIGNAL_PENDING = 0x40"
definition RT_THREAD_STAT_SIGNAL_MASK :: u8 where "RT_THREAD_STAT_SIGNAL_MASK = 0xf0"

lemmas stat_defs = RT_THREAD_INIT_def RT_THREAD_READY_def RT_THREAD_SUSPEND_def
  RT_THREAD_RUNNING_def RT_THREAD_CLOSE_def RT_THREAD_STAT_MASK_def RT_THREAD_STAT_YIELD_def
  RT_THREAD_STAT_SIGNAL_def RT_THREAD_STAT_SIGNAL_WAIT_def RT_THREAD_STAT_SIGNAL_PENDING_def
  RT_THREAD_STAT_SIGNAL_MASK_def

text \<open>\<^verbatim>\<open>stat & RT_THREAD_STAT_MASK\<close>, and the idiom
  \<^verbatim>\<open>stat = X | (stat & ~RT_THREAD_STAT_MASK)\<close> that replaces it.\<close>

definition stat_base :: "rt_thread \<Rightarrow> u8" where
  "stat_base th = t_stat th AND RT_THREAD_STAT_MASK"

definition set_stat :: "u8 \<Rightarrow> rt_thread \<Rightarrow> rt_thread" where
  "set_stat b th = th\<lparr>t_stat := b OR (t_stat th AND NOT RT_THREAD_STAT_MASK)\<rparr>"

lemma stat_distinct [simp]:
  "RT_THREAD_INIT \<noteq> RT_THREAD_READY" "RT_THREAD_READY \<noteq> RT_THREAD_INIT"
  "RT_THREAD_INIT \<noteq> RT_THREAD_SUSPEND" "RT_THREAD_SUSPEND \<noteq> RT_THREAD_INIT"
  "RT_THREAD_INIT \<noteq> RT_THREAD_RUNNING" "RT_THREAD_RUNNING \<noteq> RT_THREAD_INIT"
  "RT_THREAD_INIT \<noteq> RT_THREAD_CLOSE" "RT_THREAD_CLOSE \<noteq> RT_THREAD_INIT"
  "RT_THREAD_READY \<noteq> RT_THREAD_SUSPEND" "RT_THREAD_SUSPEND \<noteq> RT_THREAD_READY"
  "RT_THREAD_READY \<noteq> RT_THREAD_RUNNING" "RT_THREAD_RUNNING \<noteq> RT_THREAD_READY"
  "RT_THREAD_READY \<noteq> RT_THREAD_CLOSE" "RT_THREAD_CLOSE \<noteq> RT_THREAD_READY"
  "RT_THREAD_SUSPEND \<noteq> RT_THREAD_RUNNING" "RT_THREAD_RUNNING \<noteq> RT_THREAD_SUSPEND"
  "RT_THREAD_SUSPEND \<noteq> RT_THREAD_CLOSE" "RT_THREAD_CLOSE \<noteq> RT_THREAD_SUSPEND"
  "RT_THREAD_RUNNING \<noteq> RT_THREAD_CLOSE" "RT_THREAD_CLOSE \<noteq> RT_THREAD_RUNNING"
  by (simp_all add: stat_defs)

lemma stat_base_set_stat [simp]: "stat_base (set_stat b th) = b AND RT_THREAD_STAT_MASK"
  by (simp add: stat_base_def set_stat_def bit.conj_disj_distrib2 and.assoc)

lemma stat_and_mask [simp]:
  "RT_THREAD_INIT AND RT_THREAD_STAT_MASK = RT_THREAD_INIT"
  "RT_THREAD_READY AND RT_THREAD_STAT_MASK = RT_THREAD_READY"
  "RT_THREAD_SUSPEND AND RT_THREAD_STAT_MASK = RT_THREAD_SUSPEND"
  "RT_THREAD_RUNNING AND RT_THREAD_STAT_MASK = RT_THREAD_RUNNING"
  "RT_THREAD_CLOSE AND RT_THREAD_STAT_MASK = RT_THREAD_CLOSE"
  by (simp_all add: stat_defs)

lemma set_stat_sel [simp]:
  "current_priority (set_stat b th) = current_priority th"
  "init_priority (set_stat b th) = init_priority th"
  "number_mask (set_stat b th) = number_mask th"
  "preemptableFlag (set_stat b th) = preemptableFlag th"
  "t_error (set_stat b th) = t_error th"
  "t_sp (set_stat b th) = t_sp th" "stack_addr (set_stat b th) = stack_addr th"
  "stack_size (set_stat b th) = stack_size th" "stack_guard (set_stat b th) = stack_guard th"
  "event_set (set_stat b th) = event_set th" "event_info (set_stat b th) = event_info th"
  "tick_count (set_stat b th) = tick_count th" "end_flag (set_stat b th) = end_flag th"
  "sig_pending (set_stat b th) = sig_pending th" "sig_mask (set_stat b th) = sig_mask th"
  "sig_vectors (set_stat b th) = sig_vectors th" "si_list (set_stat b th) = si_list th"
  "init_tick (set_stat b th) = init_tick th" "remaining_tick (set_stat b th) = remaining_tick th"
  by (simp_all add: set_stat_def)

lemma stat_base_other [simp]:
  "stat_base (th\<lparr>t_sp := v_t_sp\<rparr>) = stat_base th"
  "stat_base (th\<lparr>t_entry := v_t_entry\<rparr>) = stat_base th"
  "stat_base (th\<lparr>stack_addr := v_stack_addr\<rparr>) = stat_base th"
  "stat_base (th\<lparr>stack_size := v_stack_size\<rparr>) = stat_base th"
  "stat_base (th\<lparr>stack_guard := v_stack_guard\<rparr>) = stat_base th"
  "stat_base (th\<lparr>t_error := v_t_error\<rparr>) = stat_base th"
  "stat_base (th\<lparr>current_priority := v_current_priority\<rparr>) = stat_base th"
  "stat_base (th\<lparr>init_priority := v_init_priority\<rparr>) = stat_base th"
  "stat_base (th\<lparr>number_mask := v_number_mask\<rparr>) = stat_base th"
  "stat_base (th\<lparr>event_set := v_event_set\<rparr>) = stat_base th"
  "stat_base (th\<lparr>event_info := v_event_info\<rparr>) = stat_base th"
  "stat_base (th\<lparr>sig_pending := v_sig_pending\<rparr>) = stat_base th"
  "stat_base (th\<lparr>sig_mask := v_sig_mask\<rparr>) = stat_base th"
  "stat_base (th\<lparr>sig_ret := v_sig_ret\<rparr>) = stat_base th"
  "stat_base (th\<lparr>sig_vectors := v_sig_vectors\<rparr>) = stat_base th"
  "stat_base (th\<lparr>si_list := v_si_list\<rparr>) = stat_base th"
  "stat_base (th\<lparr>init_tick := v_init_tick\<rparr>) = stat_base th"
  "stat_base (th\<lparr>remaining_tick := v_remaining_tick\<rparr>) = stat_base th"
  "stat_base (th\<lparr>end_flag := v_end_flag\<rparr>) = stat_base th"
  "stat_base (th\<lparr>tick_count := v_tick_count\<rparr>) = stat_base th"
  "stat_base (th\<lparr>preemptableFlag := v_preemptableFlag\<rparr>) = stat_base th"
  by (simp_all add: stat_base_def)

end
