(* ===== verification/Scheduler.thy ===== *)
theory Scheduler
  imports Kernel_State
begin

text \<open>
  The uniprocessor scheduler of \<^verbatim>\<open>rt-thread/src/scheduler.c\<close> as changed for the robot: a thread whose
  \<^verbatim>\<open>preemptableFlag\<close> is 1 is never switched away from. The definitions follow the file; the lemmas
  show that the bitmap, the ready lists and the thread states stay consistent, and that a
  rescheduling leaves the processor to a thread of the highest ready priority.

  A context switch is the change of \<open>current_thread\<close>: the code after \<^verbatim>\<open>rt_hw_context_switch\<close> belongs to
  the moment the switched-out thread runs again (theory Signal has it).
  An index past the 32 entries of \<^verbatim>\<open>rt_thread_priority_table\<close> is \<open>None\<close>.
\<close>

definition rt_scheduler_stack_check :: "nat \<Rightarrow> 'a kstate_scheme \<Rightarrow> unit option" where
  "rt_scheduler_stack_check t s =
     (let th = threads s t in
      if stack_guard th \<noteq> 0x23 \<or> t_sp th \<le> stack_addr th \<or> t_sp th > stack_addr th + stack_size th
      then None else Some ())"

definition scheduler_get_highest_priority_thread :: "'a kstate_scheme \<Rightarrow> (nat \<times> nat) option" where
  "scheduler_get_highest_priority_thread s =
     (if ready_group s = 0 then None
      else let highest_ready_priority = rt_ffs (ready_group s) - 1
        in case klists s (Prio highest_ready_priority) of
             [] \<Rightarrow> None
           | t # _ \<Rightarrow> Some (t, highest_ready_priority))"

definition rt_system_scheduler_init :: "'a kstate_scheme \<Rightarrow> 'a kstate_scheme" where
  "rt_system_scheduler_init s = s\<lparr>scheduler_lock_nest := 0,
     klists := (\<lambda>h. case h of Prio p \<Rightarrow> if p < RT_THREAD_PRIORITY_MAX then [] else klists s h
                   | _ \<Rightarrow> klists s h),
     ready_group := 0\<rparr>"

definition rt_schedule_insert_thread :: "nat \<Rightarrow> 'a kstate_scheme \<Rightarrow> 'a kstate_scheme option" where
  "rt_schedule_insert_thread t s =
     (if current_thread s = Some t then Some (upd_thread t (set_stat RT_THREAD_RUNNING) s)
      else do {
        let s1 = upd_thread t (set_stat RT_THREAD_READY) s;
        let p = unat (current_priority (threads s1 t));
        _ \<leftarrow> in_bounds (p < RT_THREAD_PRIORITY_MAX);
        let s2 = tlist_insert_before (Prio p) t s1;
        Some (s2\<lparr>ready_group := ready_group s2 OR number_mask (threads s2 t)\<rparr>)
      })"

definition rt_schedule_remove_thread :: "nat \<Rightarrow> 'a kstate_scheme \<Rightarrow> 'a kstate_scheme option" where
  "rt_schedule_remove_thread t s = do {
     let s1 = tlist_remove t s;
     let p = unat (current_priority (threads s1 t));
     _ \<leftarrow> in_bounds (p < RT_THREAD_PRIORITY_MAX);
     Some (if klists s1 (Prio p) = []
           then s1\<lparr>ready_group := ready_group s1 AND NOT (number_mask (threads s1 t))\<rparr>
           else s1)
   }"

definition rt_system_scheduler_start :: "'a kstate_scheme \<Rightarrow> 'a kstate_scheme option" where
  "rt_system_scheduler_start s = do {
     (to_thread, _) \<leftarrow> scheduler_get_highest_priority_thread s;
     let s1 = s\<lparr>current_thread := Some to_thread\<rparr>;
     s2 \<leftarrow> rt_schedule_remove_thread to_thread s1;
     Some (upd_thread to_thread (\<lambda>th. th\<lparr>t_stat := RT_THREAD_RUNNING\<rparr>) s2)
   }"

text \<open>The three parts of \<^verbatim>\<open>rt_schedule\<close>: deciding whether the running thread keeps the processor
  (clearing its yield mark), the switch to another thread, and staying with the current one.\<close>

definition schedule_keeps_current :: "rt_thread \<Rightarrow> nat \<Rightarrow> bool" where
  "schedule_keeps_current th highest_ready_priority \<longleftrightarrow>
     stat_base th = RT_THREAD_RUNNING \<and>
     (unat (current_priority th) < highest_ready_priority \<or>
      unat (current_priority th) = highest_ready_priority \<and>
      t_stat th AND RT_THREAD_STAT_YIELD = 0)"

definition schedule_clear_yield :: "nat \<Rightarrow> 'a kstate_scheme \<Rightarrow> 'a kstate_scheme" where
  "schedule_clear_yield cur s =
     (if stat_base (threads s cur) = RT_THREAD_RUNNING
      then upd_thread cur (\<lambda>th. th\<lparr>t_stat := t_stat th AND NOT RT_THREAD_STAT_YIELD\<rparr>) s else s)"

definition schedule_switch :: "nat \<Rightarrow> nat \<Rightarrow> nat \<Rightarrow> 'a kstate_scheme \<Rightarrow> 'a kstate_scheme option" where
  "schedule_switch from_thread to_thread highest_ready_priority s = do {
     let need_insert_from_thread = (stat_base (threads s from_thread) = RT_THREAD_RUNNING);
     let s2 = s\<lparr>rt_current_priority := of_nat highest_ready_priority,
                 current_thread := Some to_thread\<rparr>;
     s3 \<leftarrow> (if need_insert_from_thread then rt_schedule_insert_thread from_thread s2 else Some s2);
     s4 \<leftarrow> rt_schedule_remove_thread to_thread s3;
     let s5 = upd_thread to_thread (set_stat RT_THREAD_RUNNING) s4;
     _ \<leftarrow> rt_scheduler_stack_check to_thread s5;
     Some s5
   }"

definition schedule_stay :: "nat \<Rightarrow> 'a kstate_scheme \<Rightarrow> 'a kstate_scheme option" where
  "schedule_stay cur s = do {
     s2 \<leftarrow> rt_schedule_remove_thread cur s;
     Some (upd_thread cur (set_stat RT_THREAD_RUNNING) s2)
   }"

definition rt_schedule :: "'a kstate_scheme \<Rightarrow> 'a kstate_scheme option" where
  "rt_schedule s =
     (if scheduler_lock_nest s = 0 \<and> ready_group s \<noteq> 0 then do {
        cur \<leftarrow> current_thread s;
        if preemptableFlag (threads s cur) \<noteq> 1 then do {
          (highest, highest_ready_priority) \<leftarrow> scheduler_get_highest_priority_thread s;
          let to_thread = (if schedule_keeps_current (threads s cur) highest_ready_priority
                           then cur else highest);
          let s1 = schedule_clear_yield cur s;
          if to_thread \<noteq> cur then schedule_switch cur to_thread highest_ready_priority s1
          else schedule_stay cur s1
        } else Some s
      } else Some s)"

definition rt_enter_critical :: "'a kstate_scheme \<Rightarrow> 'a kstate_scheme" where
  "rt_enter_critical s = s\<lparr>scheduler_lock_nest := scheduler_lock_nest s + 1\<rparr>"

definition rt_exit_critical :: "'a kstate_scheme \<Rightarrow> 'a kstate_scheme option" where
  "rt_exit_critical s =
     (let n = scheduler_lock_nest s - 1 in
      if sint n \<le> 0
      then let s1 = s\<lparr>scheduler_lock_nest := 0\<rparr>
           in if current_thread s1 \<noteq> None then rt_schedule s1 else Some s1
      else Some (s\<lparr>scheduler_lock_nest := n\<rparr>))"

definition rt_critical_level :: "'a kstate_scheme \<Rightarrow> u16" where
  "rt_critical_level s = scheduler_lock_nest s"

lemmas scheduler_defs [kdefs] = rt_scheduler_stack_check_def
  scheduler_get_highest_priority_thread_def rt_system_scheduler_init_def
  rt_schedule_insert_thread_def rt_schedule_remove_thread_def rt_system_scheduler_start_def
  schedule_keeps_current_def schedule_clear_yield_def schedule_switch_def schedule_stay_def
  rt_schedule_def rt_enter_critical_def rt_exit_critical_def rt_critical_level_def

section \<open>Consistency of the ready queue\<close>

text \<open>
  A live thread can be scheduled: its priority is an index of the table, its mask is the bit of that
  priority and its stack is intact. \<open>queue_inv X s\<close> says that the bitmap shows exactly the non-empty
  lists and the lists hold exactly the ready threads, each once and in the list of its priority,
  except for the threads of \<open>X\<close>, which are between two states and in no list.
\<close>

definition stack_ok :: "rt_thread \<Rightarrow> bool" where
  "stack_ok th \<longleftrightarrow> stack_guard th = 0x23 \<and> stack_addr th < t_sp th \<and>
     t_sp th \<le> stack_addr th + stack_size th"

definition thread_wf :: "rt_thread \<Rightarrow> bool" where
  "thread_wf th \<longleftrightarrow> unat (current_priority th) < RT_THREAD_PRIORITY_MAX \<and>
     number_mask th = 2 ^ unat (current_priority th) \<and> stack_ok th"

definition live :: "rt_thread \<Rightarrow> bool" where
  "live th \<longleftrightarrow> stat_base th \<in> {RT_THREAD_READY, RT_THREAD_SUSPEND, RT_THREAD_RUNNING}"

abbreviation prio_of :: "'a kstate_scheme \<Rightarrow> nat \<Rightarrow> nat" where
  "prio_of s t \<equiv> unat (current_priority (threads s t))"

abbreviation ready :: "'a kstate_scheme \<Rightarrow> nat \<Rightarrow> bool" where
  "ready s t \<equiv> stat_base (threads s t) = RT_THREAD_READY"

definition bitmap_ok :: "'a kstate_scheme \<Rightarrow> bool" where
  "bitmap_ok s \<longleftrightarrow> (\<forall>p. (p < 32 \<and> bit (ready_group s) p) \<longleftrightarrow> klists s (Prio p) \<noteq> [])"

definition linked_once :: "'a kstate_scheme \<Rightarrow> bool" where
  "linked_once s \<longleftrightarrow> (\<forall>h. distinct (klists s h)) \<and>
     (\<forall>h h' t. t \<in> set (klists s h) \<longrightarrow> t \<in> set (klists s h') \<longrightarrow> h = h')"

definition ready_ok :: "nat set \<Rightarrow> 'a kstate_scheme \<Rightarrow> bool" where
  "ready_ok X s \<longleftrightarrow>
     (\<forall>p t. t \<in> set (klists s (Prio p)) \<longleftrightarrow> t \<notin> X \<and> ready s t \<and> prio_of s t = p)"

definition wait_ok :: "nat set \<Rightarrow> 'a kstate_scheme \<Rightarrow> bool" where
  "wait_ok X s \<longleftrightarrow> (\<forall>n t. t \<in> set (klists s (Susp n)) \<union> set (klists s (SendSusp n)) \<longrightarrow>
     t \<notin> X \<and> stat_base (threads s t) = RT_THREAD_SUSPEND) \<and>
     (\<forall>t \<in> set (klists s Defunct). t \<notin> X \<and> stat_base (threads s t) = RT_THREAD_CLOSE)"

definition queue_inv :: "nat set \<Rightarrow> 'a kstate_scheme \<Rightarrow> bool" where
  "queue_inv X s \<longleftrightarrow> bitmap_ok s \<and> linked_once s \<and> ready_ok X s \<and> wait_ok X s \<and>
     (\<forall>t. t \<in> X \<or> live (threads s t) \<longrightarrow> thread_wf (threads s t))"

text \<open>The current thread: at most one thread is running, and it is the current one.\<close>

definition current_ok :: "'a kstate_scheme \<Rightarrow> bool" where
  "current_ok s \<longleftrightarrow>
     (\<forall>t. stat_base (threads s t) = RT_THREAD_RUNNING \<longrightarrow> current_thread s = Some t) \<and>
     (\<forall>c. current_thread s = Some c \<longrightarrow> \<not> ready s c)"

definition sched_inv :: "'a kstate_scheme \<Rightarrow> bool" where
  "sched_inv s \<longleftrightarrow> queue_inv {} s \<and> current_ok s"

lemmas queue_inv_defs = queue_inv_def bitmap_ok_def linked_once_def ready_ok_def wait_ok_def

lemma queue_inv_unlinked: "queue_inv X s \<Longrightarrow> t \<in> X \<Longrightarrow> t \<notin> set (klists s h)"
  by (cases h) (auto simp: queue_inv_defs)

text \<open>The invariant reads the lists, the bitmap and these parts of a thread.\<close>

definition same_sched :: "rt_thread \<Rightarrow> rt_thread \<Rightarrow> bool" where
  "same_sched th th' \<longleftrightarrow> stat_base th = stat_base th' \<and>
     current_priority th = current_priority th' \<and> number_mask th = number_mask th' \<and>
     stack_ok th = stack_ok th'"

lemma same_sched_refl [simp]: "same_sched th th"
  by (simp add: same_sched_def)

lemma queue_inv_cong:
  assumes "klists s' = klists s" "ready_group s' = ready_group s"
    and "\<And>t. same_sched (threads s' t) (threads s t)"
  shows "queue_inv X s' = queue_inv X s"
proof -
  have "stat_base (threads s' t) = stat_base (threads s t)"
    "current_priority (threads s' t) = current_priority (threads s t)"
    "number_mask (threads s' t) = number_mask (threads s t)"
    "stack_ok (threads s' t) = stack_ok (threads s t)" for t
    using assms(3) [of t] by (simp_all add: same_sched_def)
  then show ?thesis
    by (simp add: queue_inv_defs assms(1,2) thread_wf_def live_def)
qed

lemma queue_inv_upd_same:
  "(\<And>th. same_sched (f th) th) \<Longrightarrow> queue_inv X (upd_thread t f s) = queue_inv X s"
  by (rule queue_inv_cong) auto

lemma remove_thread_inv:
  assumes inv: "queue_inv X s" and wf: "thread_wf (threads s t)"
  shows "\<exists>s'. rt_schedule_remove_thread t s = Some s' \<and> queue_inv (insert t X) s'"
proof -
  let ?p = "prio_of s t"
  let ?s1 = "tlist_remove t s"
  let ?s' = "if klists ?s1 (Prio ?p) = []
       then ?s1\<lparr>ready_group := ready_group s AND NOT (number_mask (threads s t))\<rparr> else ?s1"
  have p: "?p < 32" and mask: "number_mask (threads s t) = 2 ^ ?p"
    using wf by (auto simp: thread_wf_def RT_THREAD_PRIORITY_MAX_def)
  have run: "rt_schedule_remove_thread t s = Some ?s'"
    using p by (simp add: rt_schedule_remove_thread_def tlist_remove_def Let_def RT_THREAD_PRIORITY_MAX_def)
  have kl: "klists ?s' = (\<lambda>h. removeAll t (klists s h))" and th: "threads ?s' = threads s"
    by (simp_all add: tlist_remove_def)
  have other: "p \<noteq> ?p \<Longrightarrow> t \<notin> set (klists s (Prio p))" for p
    using inv by (auto simp: queue_inv_def ready_ok_def)
  have "bitmap_ok ?s'"
    unfolding bitmap_ok_def
  proof
    fix p
    have "(p < 32 \<and> bit (ready_group s) p) = (klists s (Prio p) \<noteq> [])"
      using inv by (auto simp: queue_inv_def bitmap_ok_def)
    then show "(p < 32 \<and> bit (ready_group ?s') p) = (klists ?s' (Prio p) \<noteq> [])"
      using other [of p] p mask
      by (cases "p = ?p") (auto simp: tlist_remove_def bit_and_iff bit_not_iff)
  qed
  moreover have "linked_once ?s'"
    using inv unfolding queue_inv_def linked_once_def kl by (fastforce simp: distinct_removeAll)
  moreover have "ready_ok (insert t X) ?s'" "wait_ok (insert t X) ?s'"
    using inv unfolding queue_inv_def ready_ok_def wait_ok_def kl th by auto
  moreover have "\<forall>u. u \<in> insert t X \<or> live (threads ?s' u) \<longrightarrow> thread_wf (threads ?s' u)"
    using inv wf unfolding queue_inv_def th by auto
  ultimately show ?thesis using run by (auto simp: queue_inv_def)
qed

lemma insert_thread_inv:
  assumes inv: "queue_inv X s" and t: "t \<in> X" and nc: "current_thread s \<noteq> Some t"
  shows "\<exists>s'. rt_schedule_insert_thread t s = Some s' \<and> queue_inv (X - {t}) s'"
proof -
  let ?p = "prio_of s t"
  let ?th = "(threads s)(t := set_stat RT_THREAD_READY (threads s t))"
  let ?s' = "s\<lparr>threads := ?th, klists := (klists s)(Prio ?p := klists s (Prio ?p) @ [t]),
     ready_group := ready_group s OR number_mask (threads s t)\<rparr>"
  have wf: "thread_wf (threads s t)" using inv t by (auto simp: queue_inv_def)
  then have p: "?p < 32" and mask: "number_mask (threads s t) = 2 ^ ?p"
    by (auto simp: thread_wf_def RT_THREAD_PRIORITY_MAX_def)
  have run: "rt_schedule_insert_thread t s = Some ?s'"
    using p nc by (simp add: rt_schedule_insert_thread_def upd_thread_def tlist_insert_before_def
        Let_def RT_THREAD_PRIORITY_MAX_def)
  have un: "t \<notin> set (klists s h)" for h by (rule queue_inv_unlinked [OF inv t])
  have "bitmap_ok ?s'"
    using inv p mask by (auto simp: queue_inv_def bitmap_ok_def bit_or_iff)
  moreover have "linked_once ?s'"
    using inv un by (auto simp: queue_inv_def linked_once_def split: if_splits)
  moreover have "ready_ok (X - {t}) ?s'" "wait_ok (X - {t}) ?s'"
    using inv un t by (auto simp: queue_inv_def ready_ok_def wait_ok_def)
  moreover have "\<forall>u. u \<in> X - {t} \<or> live (?th u) \<longrightarrow> thread_wf (?th u)"
    using inv wf by (auto simp: queue_inv_def thread_wf_def stack_ok_def)
  ultimately show ?thesis using run by (auto simp: queue_inv_def)
qed

lemma upd_unlinked_inv:
  assumes inv: "queue_inv X s" and t: "t \<in> X"
    and st: "stat_base (f (threads s t)) \<noteq> RT_THREAD_READY"
    and wf: "live (f (threads s t)) \<Longrightarrow> thread_wf (f (threads s t))"
  shows "queue_inv (X - {t}) (upd_thread t f s)"
proof -
  have un: "t \<notin> set (klists s h)" for h by (rule queue_inv_unlinked [OF inv t])
  show ?thesis
    using inv un st wf t
    unfolding queue_inv_def bitmap_ok_def linked_once_def ready_ok_def wait_ok_def
    by auto
qed

lemma unlinked_exempt:
  assumes inv: "queue_inv X s" and un: "\<And>h. t \<notin> set (klists s h)"
    and wf: "thread_wf (threads s t)"
  shows "queue_inv (insert t X) s"
proof -
  have "ready s t \<Longrightarrow> t \<in> X" using inv un unfolding queue_inv_def ready_ok_def by blast
  then show ?thesis using inv un wf unfolding queue_inv_def ready_ok_def wait_ok_def by auto
qed

section \<open>Frame conditions\<close>

text \<open>Scheduling writes the lists, the bitmap, the status bytes, the current thread and its
  priority, and nothing else.\<close>

definition sched_frame :: "'a kstate_scheme \<Rightarrow> 'a kstate_scheme \<Rightarrow> bool" where
  "sched_frame s s' \<longleftrightarrow> objects s' = objects s \<and> containers s' = containers s \<and>
     scheduler_lock_nest s' = scheduler_lock_nest s \<and> interrupt_nest s' = interrupt_nest s \<and>
     rt_tick s' = rt_tick s \<and> timers s' = timers s \<and> timer_list s' = timer_list s \<and>
     timer_fired s' = timer_fired s \<and> random_nr s' = random_nr s \<and>
     siginfo_free s' = siginfo_free s \<and> kstate.more s' = kstate.more s \<and>
     (\<forall>t. threads s' t = (threads s t)\<lparr>t_stat := t_stat (threads s' t)\<rparr>)"

lemma sched_frame_refl [simp]: "sched_frame s s"
  by (simp add: sched_frame_def)

lemma sched_frame_trans: "sched_frame s1 s2 \<Longrightarrow> sched_frame s2 s3 \<Longrightarrow> sched_frame s1 s3"
  unfolding sched_frame_def by simp (metis rt_thread.surjective rt_thread.update_convs(7))

lemma sched_frame_prio: "sched_frame s s' \<Longrightarrow> prio_of s' t = prio_of s t"
  unfolding sched_frame_def by (metis rt_thread.select_convs(8) rt_thread.surjective rt_thread.update_convs(7))

lemma set_stat_frame: "set_stat b th = th\<lparr>t_stat := t_stat (set_stat b th)\<rparr>"
  by (simp add: set_stat_def)

lemma sched_frame_set_stat [simp]: "sched_frame s (upd_thread t (set_stat b) s)"
  by (auto simp: sched_frame_def set_stat_def)

lemma remove_thread_frame:
  assumes "rt_schedule_remove_thread t s = Some s'"
  shows "sched_frame s s'" "threads s' = threads s" "current_thread s' = current_thread s"
  using assms by (auto simp: rt_schedule_remove_thread_def Let_def tlist_remove_def sched_frame_def
      split: if_splits)

lemma insert_thread_frame:
  assumes "rt_schedule_insert_thread t s = Some s'"
  shows "sched_frame s s'" "current_thread s' = current_thread s"
    "current_thread s \<noteq> Some t \<Longrightarrow>
     threads s' = (threads s)(t := set_stat RT_THREAD_READY (threads s t))"
  using assms by (auto simp: rt_schedule_insert_thread_def Let_def tlist_insert_before_def
      sched_frame_def set_stat_def split: if_splits)

section \<open>Rescheduling\<close>

lemma stat_base_clear_yield [simp]:
  "stat_base (th\<lparr>t_stat := t_stat th AND NOT RT_THREAD_STAT_YIELD\<rparr>) = stat_base th"
  by (simp add: stat_base_def stat_defs and.assoc)

lemma highest_spec:
  assumes inv: "queue_inv {} s" and ne: "ready_group s \<noteq> 0"
  obtains t p where "scheduler_get_highest_priority_thread s = Some (t, p)"
    "ready s t" "prio_of s t = p" "\<And>u. ready s u \<Longrightarrow> p \<le> prio_of s u"
proof -
  let ?p = "rt_ffs (ready_group s) - 1"
  note ffs = rt_ffs_minus_1 [OF ne]
  have "klists s (Prio ?p) \<noteq> []"
    using inv ffs(1,2) unfolding queue_inv_def bitmap_ok_def by blast
  then obtain t ts where l: "klists s (Prio ?p) = t # ts" by (cases "klists s (Prio ?p)") auto
  have t: "ready s t" "prio_of s t = ?p"
    using inv l by (auto simp: queue_inv_def ready_ok_def)
      (metis list.set_intros(1))+
  have "?p \<le> prio_of s u" if "ready s u" for u
  proof -
    have "u \<in> set (klists s (Prio (prio_of s u)))"
      using inv that by (auto simp: queue_inv_def ready_ok_def)
    then have "bit (ready_group s) (prio_of s u)"
      using inv unfolding queue_inv_def bitmap_ok_def by (metis empty_iff empty_set)
    then show ?thesis using ffs(3) not_le_imp_less by blast
  qed
  with t l ne that show thesis
    by (simp add: scheduler_get_highest_priority_thread_def Let_def)
qed

lemma no_ready_when_group_0:
  assumes "queue_inv {} s" "ready_group s = 0"
  shows "\<not> ready s t"
  using assms unfolding queue_inv_def bitmap_ok_def ready_ok_def by (metis bit_0_eq bot_apply bot_bool_def empty_iff empty_set)

lemma running_unlinked:
  assumes "queue_inv {} s" "stat_base (threads s t) = RT_THREAD_RUNNING"
  shows "t \<notin> set (klists s h)"
  using assms by (cases h) (auto simp: queue_inv_def ready_ok_def wait_ok_def)

lemma stack_check_ok: "stack_ok (threads s t) \<Longrightarrow> rt_scheduler_stack_check t s = Some ()"
  by (auto simp: stack_ok_def rt_scheduler_stack_check_def Let_def)

text \<open>Taking a thread out of its list and marking it running: the last steps of every switch.\<close>

lemma remove_set_running:
  assumes inv: "queue_inv {} s" and lv: "live (threads s t)"
  shows "\<exists>s4. rt_schedule_remove_thread t s = Some s4 \<and>
    queue_inv {} (upd_thread t (set_stat RT_THREAD_RUNNING) s4) \<and>
    threads s4 = threads s \<and> current_thread s4 = current_thread s \<and> sched_frame s s4 \<and>
    rt_scheduler_stack_check t (upd_thread t (set_stat RT_THREAD_RUNNING) s4) = Some ()"
proof -
  have wf: "thread_wf (threads s t)" using inv lv by (auto simp: queue_inv_def)
  from remove_thread_inv [OF inv wf] obtain s4
    where s4: "rt_schedule_remove_thread t s = Some s4" "queue_inv {t} s4" by auto
  note fr = remove_thread_frame [OF s4(1)]
  have "queue_inv ({t} - {t}) (upd_thread t (set_stat RT_THREAD_RUNNING) s4)"
    by (rule upd_unlinked_inv [OF s4(2)])
       (use wf fr(2) in \<open>auto simp: thread_wf_def stack_ok_def\<close>)
  moreover have "rt_scheduler_stack_check t (upd_thread t (set_stat RT_THREAD_RUNNING) s4) = Some ()"
    by (rule stack_check_ok) (use wf fr(2) in \<open>simp add: thread_wf_def stack_ok_def\<close>)
  ultimately show ?thesis using s4(1) fr by auto
qed

lemma clear_yield_same: "same_sched (threads (schedule_clear_yield c s) t) (threads s t)"
  by (auto simp: schedule_clear_yield_def same_sched_def stack_ok_def)

lemma clear_yield_simps [simp]:
  "stat_base (threads (schedule_clear_yield c s) t) = stat_base (threads s t)"
  "klists (schedule_clear_yield c s) = klists s"
  "ready_group (schedule_clear_yield c s) = ready_group s"
  "current_thread (schedule_clear_yield c s) = current_thread s"
  "sched_frame s (schedule_clear_yield c s)"
  by (auto simp: schedule_clear_yield_def sched_frame_def)

lemma clear_yield_inv [simp]: "queue_inv X (schedule_clear_yield c s) = queue_inv X s"
  by (rule queue_inv_cong) (simp_all add: clear_yield_same)

lemma schedule_stay_spec:
  assumes "queue_inv {} s" "stat_base (threads s c) = RT_THREAD_RUNNING"
  shows "\<exists>s'. schedule_stay c s = Some s' \<and> queue_inv {} s' \<and> sched_frame s s' \<and>
     current_thread s' = current_thread s \<and>
     (\<forall>t. stat_base (threads s' t) = stat_base (threads s t))"
proof -
  have "live (threads s c)" using assms(2) by (simp add: live_def)
  from remove_set_running [OF assms(1) this] assms(2) show ?thesis
    by (auto simp: schedule_stay_def intro: sched_frame_trans [OF _ sched_frame_set_stat])
qed

lemma switch_insert_from:
  assumes q: "queue_inv {} s" and cur: "current_thread s \<noteq> Some c"
    and r: "stat_base (threads s c) = RT_THREAD_RUNNING"
  shows "\<exists>s'. rt_schedule_insert_thread c s = Some s' \<and> queue_inv {} s' \<and> sched_frame s s' \<and>
    current_thread s' = current_thread s \<and>
    threads s' = (threads s)(c := set_stat RT_THREAD_READY (threads s c))"
proof -
  have "queue_inv {c} s"
    using q running_unlinked [OF q r] r by (intro unlinked_exempt) (auto simp: queue_inv_def live_def)
  then have "\<exists>s'. rt_schedule_insert_thread c s = Some s' \<and> queue_inv ({c} - {c}) s'"
    using cur by (intro insert_thread_inv) auto
  then show ?thesis using insert_thread_frame cur by fastforce
qed

lemma schedule_switch_spec:
  assumes q: "queue_inv {} s" and hi: "ready s hi" "hi \<noteq> c"
  shows "\<exists>s'. schedule_switch c hi p s = Some s' \<and> queue_inv {} s' \<and> sched_frame s s' \<and>
    current_thread s' = Some hi \<and>
    (\<forall>t. stat_base (threads s' t) = (if t = hi then RT_THREAD_RUNNING
        else if t = c \<and> stat_base (threads s c) = RT_THREAD_RUNNING then RT_THREAD_READY
        else stat_base (threads s t)))"
proof -
  let ?run = "stat_base (threads s c) = RT_THREAD_RUNNING"
  let ?s2 = "s\<lparr>rt_current_priority := of_nat p, current_thread := Some hi\<rparr>"
  have q2: "queue_inv {} ?s2" by (subst queue_inv_cong [where s = s]) (use q in auto)
  have "\<exists>s3. (if ?run then rt_schedule_insert_thread c ?s2 else Some ?s2) = Some s3 \<and>
      queue_inv {} s3 \<and> sched_frame ?s2 s3 \<and> current_thread s3 = Some hi \<and>
      threads s3 = (if ?run then (threads s)(c := set_stat RT_THREAD_READY (threads s c))
                    else threads s)"
    using switch_insert_from [OF q2, of c] hi(2) q2 by (cases ?run) auto
  then obtain s3 where s3: "(if ?run then rt_schedule_insert_thread c ?s2 else Some ?s2) = Some s3"
    "queue_inv {} s3" "sched_frame ?s2 s3" "current_thread s3 = Some hi"
    "threads s3 = (if ?run then (threads s)(c := set_stat RT_THREAD_READY (threads s c))
       else threads s)" by blast
  have lv: "live (threads s3 hi)" using hi s3(5) by (auto simp: live_def)
  obtain s4 where s4: "rt_schedule_remove_thread hi s3 = Some s4"
    "queue_inv {} (upd_thread hi (set_stat RT_THREAD_RUNNING) s4)"
    "threads s4 = threads s3" "current_thread s4 = current_thread s3" "sched_frame s3 s4"
    "rt_scheduler_stack_check hi (upd_thread hi (set_stat RT_THREAD_RUNNING) s4) = Some ()"
    using remove_set_running [OF s3(2) lv] by blast
  have "sched_frame s ?s2" by (simp add: sched_frame_def)
  with s3(3) s4(5) have "sched_frame s (upd_thread hi (set_stat RT_THREAD_RUNNING) s4)"
    by (meson sched_frame_set_stat sched_frame_trans)
  moreover have "schedule_switch c hi p s = Some (upd_thread hi (set_stat RT_THREAD_RUNNING) s4)"
    using s3(1) s4(1,6) by (simp add: schedule_switch_def Let_def)
  ultimately show ?thesis using s4(2,3,4) s3(4,5) by auto
qed

lemma rt_schedule_spec:
  assumes inv: "sched_inv s" and cur: "current_thread s = Some c"
    and unlocked: "scheduler_lock_nest s = 0" and pre: "preemptableFlag (threads s c) \<noteq> 1"
  shows "\<exists>s' c'. rt_schedule s = Some s' \<and> sched_inv s' \<and> sched_frame s s' \<and>
    current_thread s' = Some c' \<and>
    (\<forall>t. ready s' t \<longrightarrow> prio_of s' c' \<le> prio_of s' t) \<and>
    (ready_group s \<noteq> 0 \<longrightarrow> stat_base (threads s' c') = RT_THREAD_RUNNING)"
proof (cases "ready_group s = 0")
  case True
  then show ?thesis
    using inv cur no_ready_when_group_0 [of s] by (auto simp: rt_schedule_def sched_inv_def)
next
  case False
  have q: "queue_inv {} s" and cok: "current_ok s" using inv by (auto simp: sched_inv_def)
  from highest_spec [OF q False] obtain hi p where hi:
    "scheduler_get_highest_priority_thread s = Some (hi, p)" "ready s hi" "prio_of s hi = p"
    and hmin: "\<And>u. ready s u \<Longrightarrow> p \<le> prio_of s u" by metis
  have hc: "hi \<noteq> c" using cok cur hi(2) by (auto simp: current_ok_def)
  let ?keep = "schedule_keeps_current (threads s c) p"
  let ?s1 = "schedule_clear_yield c s"
  have run: "rt_schedule s = (if ?keep then schedule_stay c ?s1 else schedule_switch c hi p ?s1)"
    using False unlocked pre cur hi(1) hc by (simp add: rt_schedule_def Let_def)
  show ?thesis
  proof (cases ?keep)
    case True
    then have r: "stat_base (threads s c) = RT_THREAD_RUNNING" and le: "prio_of s c \<le> p"
      by (auto simp: schedule_keeps_current_def)
    from schedule_stay_spec [of ?s1 c] q r obtain s' where s':
      "schedule_stay c ?s1 = Some s'" "queue_inv {} s'" "sched_frame ?s1 s'"
      "current_thread s' = Some c" and st: "\<And>t. stat_base (threads s' t) = stat_base (threads s t)"
      using cur by auto
    have fr: "sched_frame s s'" using s'(3) clear_yield_simps(5) sched_frame_trans by blast
    have "current_ok s'" using cok cur s'(4) by (auto simp: current_ok_def st)
    then show ?thesis
      using run True s' fr r le hmin
      by (auto simp: sched_inv_def st sched_frame_prio [OF fr] intro: order_trans)
  next
    case nk: False
    from schedule_switch_spec [of ?s1 hi c p] q hi(2) hc obtain s' where s':
      "schedule_switch c hi p ?s1 = Some s'" "queue_inv {} s'" "sched_frame ?s1 s'"
      "current_thread s' = Some hi"
      and st: "\<And>t. stat_base (threads s' t) = (if t = hi then RT_THREAD_RUNNING
        else if t = c \<and> stat_base (threads s c) = RT_THREAD_RUNNING then RT_THREAD_READY
        else stat_base (threads s t))"
      by auto
    have fr: "sched_frame s s'" using s'(3) clear_yield_simps(5) sched_frame_trans by blast
    have "current_ok s'" using cok cur s'(4) by (auto simp: current_ok_def st)
    moreover have "prio_of s' hi \<le> prio_of s' t" if "ready s' t" for t
      using that nk hmin [of t] hi(3)
      by (auto simp: st sched_frame_prio [OF fr] schedule_keeps_current_def split: if_splits)
    ultimately show ?thesis using run nk s' fr by (auto simp: sched_inv_def st)
  qed
qed

text \<open>Any call of \<^verbatim>\<open>rt_schedule\<close> keeps the queue consistent: a locked scheduler, a thread that must
  not be preempted and an empty ready queue leave the state as it is.\<close>

lemma rt_schedule_idle:
  assumes "scheduler_lock_nest s \<noteq> 0 \<or> ready_group s = 0 \<or>
    (\<exists>c. current_thread s = Some c \<and> preemptableFlag (threads s c) = 1)"
  shows "rt_schedule s = Some s"
  using assms by (auto simp: rt_schedule_def)

lemma rt_schedule_inv:
  assumes "sched_inv s" "current_thread s = Some c"
  shows "\<exists>s' c'. rt_schedule s = Some s' \<and> sched_inv s' \<and> sched_frame s s' \<and>
    current_thread s' = Some c'"
proof (cases "scheduler_lock_nest s = 0 \<and> preemptableFlag (threads s c) \<noteq> 1")
  case True
  then show ?thesis using rt_schedule_spec [OF assms] by blast
next
  case False
  then have "rt_schedule s = Some s" using assms(2) by (intro rt_schedule_idle) auto
  then show ?thesis using assms by auto
qed

text \<open>Rescheduling only exchanges running and ready: a thread in another state keeps it.\<close>

definition runnable :: "rt_thread \<Rightarrow> bool" where
  "runnable th \<longleftrightarrow> stat_base th = RT_THREAD_READY \<or> stat_base th = RT_THREAD_RUNNING"

definition keeps_blocked :: "'a kstate_scheme \<Rightarrow> 'a kstate_scheme \<Rightarrow> bool" where
  "keeps_blocked s s' \<longleftrightarrow> (\<forall>t. (runnable (threads s' t) \<longleftrightarrow> runnable (threads s t)) \<and>
     (\<not> runnable (threads s t) \<longrightarrow> stat_base (threads s' t) = stat_base (threads s t)))"

lemma keeps_blocked_suspend:
  "keeps_blocked s s' \<Longrightarrow> stat_base (threads s' t) = RT_THREAD_SUSPEND \<longleftrightarrow>
     stat_base (threads s t) = RT_THREAD_SUSPEND"
  unfolding keeps_blocked_def runnable_def by (metis stat_distinct(9,10,15,16))

lemma keeps_blocked_live: "keeps_blocked s s' \<Longrightarrow> live (threads s' t) = live (threads s t)"
  using keeps_blocked_suspend [of s s' t]
  by (auto simp: keeps_blocked_def runnable_def live_def)

lemma rt_schedule_keeps_blocked:
  assumes inv: "sched_inv s" and run: "rt_schedule s = Some s'"
  shows "keeps_blocked s s'"
proof (cases "scheduler_lock_nest s \<noteq> 0 \<or> ready_group s = 0 \<or>
    (\<exists>c. current_thread s = Some c \<and> preemptableFlag (threads s c) = 1)")
  case True
  with rt_schedule_idle [OF True] run show ?thesis by (simp add: keeps_blocked_def)
next
  case False
  then obtain c where c: "current_thread s = Some c" "preemptableFlag (threads s c) \<noteq> 1"
    using run by (auto simp: rt_schedule_def split: if_splits)
  have q: "queue_inv {} s" and cok: "current_ok s" using inv by (auto simp: sched_inv_def)
  obtain hi p where hi: "scheduler_get_highest_priority_thread s = Some (hi, p)" "ready s hi"
    using highest_spec [OF q] False by metis
  have hc: "hi \<noteq> c" using cok c(1) hi(2) by (auto simp: current_ok_def)
  let ?s1 = "schedule_clear_yield c s"
  show ?thesis
  proof (cases "schedule_keeps_current (threads s c) p")
    case True
    then have r: "stat_base (threads ?s1 c) = RT_THREAD_RUNNING" by (simp add: schedule_keeps_current_def)
    from schedule_stay_spec [OF _ r] q have "\<exists>s'. schedule_stay c ?s1 = Some s' \<and>
      (\<forall>t. stat_base (threads s' t) = stat_base (threads s t))" by auto
    then show ?thesis
      using True False run c hi by (auto simp: rt_schedule_def keeps_blocked_def runnable_def)
  next
    case nk: False
    from schedule_switch_spec [of ?s1 hi c p] q hi(2) hc have "\<exists>s'. schedule_switch c hi p ?s1 = Some s' \<and>
      (\<forall>t. stat_base (threads s' t) = (if t = hi then RT_THREAD_RUNNING
        else if t = c \<and> stat_base (threads s c) = RT_THREAD_RUNNING then RT_THREAD_READY
        else stat_base (threads s t)))" by auto
    then show ?thesis
      using nk False run c hi hc by (auto simp: rt_schedule_def keeps_blocked_def runnable_def)
  qed
qed

text \<open>Nor does it touch a list other than the ready lists.\<close>

definition wait_head :: "lhead \<Rightarrow> bool" where
  "wait_head h \<longleftrightarrow> (\<forall>p. h \<noteq> Prio p)"

lemma wait_head_simps [simp]:
  "wait_head (Susp n)" "wait_head (SendSusp n)" "wait_head Defunct" "\<not> wait_head (Prio p)"
  by (auto simp: wait_head_def)

lemma remove_thread_klists:
  "rt_schedule_remove_thread t s = Some s' \<Longrightarrow> klists s' h = removeAll t (klists s h)"
  by (auto simp: rt_schedule_remove_thread_def Let_def tlist_remove_def split: if_splits)

lemma insert_thread_klists:
  "rt_schedule_insert_thread t s = Some s' \<Longrightarrow> wait_head h \<Longrightarrow> klists s' h = klists s h"
  by (auto simp: rt_schedule_insert_thread_def Let_def tlist_insert_before_def wait_head_def split: if_splits)

lemma rt_schedule_wait:
  assumes inv: "sched_inv s" and run: "rt_schedule s = Some s'" and h: "wait_head h"
  shows "klists s' h = klists s h"
proof (cases "scheduler_lock_nest s \<noteq> 0 \<or> ready_group s = 0 \<or>
    (\<exists>c. current_thread s = Some c \<and> preemptableFlag (threads s c) = 1)")
  case True
  with rt_schedule_idle [OF True] run show ?thesis by simp
next
  case False
  then obtain c where c: "current_thread s = Some c" "preemptableFlag (threads s c) \<noteq> 1"
    using run by (auto simp: rt_schedule_def split: if_splits)
  have q: "queue_inv {} s" using inv by (simp add: sched_inv_def)
  obtain hi p where hi: "scheduler_get_highest_priority_thread s = Some (hi, p)" "ready s hi"
    using highest_spec [OF q] False by metis
  have nhi: "hi \<notin> set (klists s h)"
    using q hi(2) h by (cases h) (auto simp: queue_inv_def wait_ok_def)
  have nc: "stat_base (threads s c) = RT_THREAD_RUNNING \<Longrightarrow> c \<notin> set (klists s h)"
    by (rule running_unlinked [OF q])
  have run': "(if schedule_keeps_current (threads s c) p then schedule_stay c (schedule_clear_yield c s)
     else if hi = c then schedule_stay c (schedule_clear_yield c s)
     else schedule_switch c hi p (schedule_clear_yield c s)) = Some s'"
    using run False c hi(1) by (auto simp: rt_schedule_def Let_def split: if_splits)
  have "klists s' h = removeAll (if schedule_keeps_current (threads s c) p then c else hi) (klists s h)"
    using run'
    by (auto simp: schedule_stay_def schedule_switch_def Let_def split: if_splits
        dest!: remove_thread_klists [where h = h] insert_thread_klists [OF _ h])
  then show ?thesis using nhi nc by (auto simp: schedule_keeps_current_def split: if_splits)
qed

lemma sched_inv_cong:
  assumes "klists s' = klists s" "ready_group s' = ready_group s" "threads s' = threads s"
    "current_thread s' = current_thread s"
  shows "sched_inv s' = sched_inv s"
proof -
  have "queue_inv {} s' = queue_inv {} s" by (rule queue_inv_cong) (simp_all add: assms)
  then show ?thesis by (simp add: sched_inv_def current_ok_def assms)
qed

lemma sched_inv_lock_nest [simp]: "sched_inv (s\<lparr>scheduler_lock_nest := n\<rparr>) = sched_inv s"
  by (rule sched_inv_cong) auto

lemma critical_section_inv:
  assumes "sched_inv s" "current_thread s = Some c"
  shows "\<exists>s' c'. rt_exit_critical (rt_enter_critical s) = Some s' \<and> sched_inv s' \<and>
    current_thread s' = Some c'"
  using rt_schedule_inv [of "s\<lparr>scheduler_lock_nest := 0\<rparr>" c] assms
  by (auto simp: rt_exit_critical_def rt_enter_critical_def Let_def)

section \<open>The ready queue as an interface\<close>

text \<open>
  What the thread and IPC code relies on: taking a thread out of its queue exempts it from the
  invariant, and putting an exempt thread back makes it ready, or running when it is the current
  one. The lemmas of the locale are the ways the code moves a thread between states.
\<close>

lemma unlink_suspended_inv:
  assumes inv: "queue_inv {} s" and st: "stat_base (threads s t) = RT_THREAD_SUSPEND"
  shows "queue_inv {t} (tlist_remove t s)"
proof -
  have wf: "thread_wf (threads s t)" using inv st by (auto simp: queue_inv_def live_def)
  have un: "t \<notin> set (klists s (Prio p))" for p
    using inv st by (auto simp: queue_inv_def ready_ok_def)
  have "bitmap_ok (tlist_remove t s)"
    using inv un by (simp add: queue_inv_def bitmap_ok_def tlist_remove_def)
  moreover have "linked_once (tlist_remove t s)"
    using inv unfolding queue_inv_def linked_once_def tlist_remove_def
    by (fastforce simp: distinct_removeAll)
  moreover have "ready_ok {t} (tlist_remove t s)" "wait_ok {t} (tlist_remove t s)"
    using inv st unfolding queue_inv_def ready_ok_def wait_ok_def tlist_remove_def by auto
  ultimately show ?thesis using inv wf by (auto simp: queue_inv_def tlist_remove_def)
qed

lemma sched_frame_sel:
  assumes "sched_frame s s'"
  shows "objects s' = objects s" "containers s' = containers s" "rt_tick s' = rt_tick s"
    "timers s' = timers s" "timer_list s' = timer_list s" "timer_fired s' = timer_fired s"
    "kstate.more s' = kstate.more s" "scheduler_lock_nest s' = scheduler_lock_nest s"
    "interrupt_nest s' = interrupt_nest s" "siginfo_free s' = siginfo_free s"
  using assms by (auto simp: sched_frame_def)

locale ready_queue =
  fixes insert_t remove_t :: "nat \<Rightarrow> 'a kstate_scheme \<Rightarrow> 'a kstate_scheme option"
  assumes remove_ok: "queue_inv X s \<Longrightarrow> thread_wf (threads s t) \<Longrightarrow>
      \<exists>s'. remove_t t s = Some s' \<and> queue_inv (insert t X) s' \<and> threads s' = threads s \<and>
           current_thread s' = current_thread s \<and> sched_frame s s' \<and>
           (\<forall>h. klists s' h = removeAll t (klists s h))"
    and insert_ok: "queue_inv X s \<Longrightarrow> t \<in> X \<Longrightarrow> current_thread s \<noteq> Some t \<Longrightarrow>
      \<exists>s'. insert_t t s = Some s' \<and> queue_inv (X - {t}) s' \<and> sched_frame s s' \<and>
           threads s' = (threads s)(t := set_stat RT_THREAD_READY (threads s t)) \<and>
           current_thread s' = current_thread s \<and>
           (\<forall>h. wait_head h \<longrightarrow> klists s' h = klists s h)"
    and insert_current: "current_thread s = Some t \<Longrightarrow>
      insert_t t s = Some (upd_thread t (set_stat RT_THREAD_RUNNING) s)"
begin

text \<open>A thread between two states is made runnable.\<close>

lemma enqueue:
  assumes q: "queue_inv {t} s" and c: "current_ok s" and nr: "\<not> runnable (threads s t)"
  shows "\<exists>s' b. insert_t t s = Some s' \<and> sched_inv s' \<and> sched_frame s s' \<and>
    current_thread s' = current_thread s \<and> b \<in> {RT_THREAD_READY, RT_THREAD_RUNNING} \<and>
    threads s' = (threads s)(t := set_stat b (threads s t)) \<and>
    (\<forall>h. wait_head h \<longrightarrow> klists s' h = klists s h)"
proof (cases "current_thread s = Some t")
  case True
  have "thread_wf (threads s t)" using q by (auto simp: queue_inv_def)
  then have "queue_inv ({t} - {t}) (upd_thread t (set_stat RT_THREAD_RUNNING) s)"
    by (intro upd_unlinked_inv [OF q]) (auto simp: thread_wf_def stack_ok_def)
  moreover have "current_ok (upd_thread t (set_stat RT_THREAD_RUNNING) s)"
    using c True by (auto simp: current_ok_def)
  ultimately show ?thesis using insert_current [OF True] True by (auto simp: sched_inv_def)
next
  case False
  from insert_ok [OF q _ False] obtain s' where s': "insert_t t s = Some s'" "queue_inv {} s'"
    "sched_frame s s'" "threads s' = (threads s)(t := set_stat RT_THREAD_READY (threads s t))"
    "current_thread s' = current_thread s" "\<forall>h. wait_head h \<longrightarrow> klists s' h = klists s h" by auto
  moreover have "current_ok s'" using c False s'(4,5) by (auto simp: current_ok_def)
  ultimately show ?thesis by (auto simp: sched_inv_def)
qed

text \<open>A live thread leaves the queues and gets a state in which it is not ready.\<close>

lemma dequeue:
  assumes inv: "sched_inv s" and lv: "live (threads s t)"
  shows "\<exists>s1. remove_t t s = Some s1 \<and> queue_inv {t} s1 \<and> threads s1 = threads s \<and>
    current_thread s1 = current_thread s \<and> sched_frame s s1 \<and> (\<forall>h. t \<notin> set (klists s1 h)) \<and>
    (\<forall>h. klists s1 h = removeAll t (klists s h))"
proof -
  have "queue_inv {} s" "thread_wf (threads s t)" using inv lv by (auto simp: sched_inv_def queue_inv_def)
  from remove_ok [OF this] show ?thesis using queue_inv_unlinked by blast
qed

lemma retire:
  assumes inv: "queue_inv {t} s" and c: "current_ok s"
    and st: "\<not> runnable (f (threads s t))"
    and wf: "live (f (threads s t)) \<Longrightarrow> thread_wf (f (threads s t))"
  shows "sched_inv (upd_thread t f s)"
proof -
  have "queue_inv ({t} - {t}) (upd_thread t f s)"
    by (rule upd_unlinked_inv [OF inv]) (use st wf in \<open>auto simp: runnable_def\<close>)
  moreover have "current_ok (upd_thread t f s)"
    using c st by (auto simp: current_ok_def runnable_def)
  ultimately show ?thesis by (simp add: sched_inv_def)
qed

text \<open>A ready thread changes its priority: out of the queue, new priority and mask, back in.\<close>

lemma requeue:
  assumes inv: "sched_inv s" and st: "ready s t" and p: "unat p < RT_THREAD_PRIORITY_MAX"
  defines "f \<equiv> \<lambda>th. th\<lparr>current_priority := p, number_mask := 2 ^ unat p\<rparr>"
  shows "\<exists>s1 s'. remove_t t s = Some s1 \<and> insert_t t (upd_thread t f s1) = Some s' \<and>
    sched_inv s' \<and> current_thread s' = current_thread s \<and> sched_frame (upd_thread t f s) s' \<and>
    (\<forall>u. stat_base (threads s' u) = stat_base (threads s u))"
proof -
  have lv: "live (threads s t)" using st by (simp add: live_def)
  have wf: "thread_wf (threads s t)" using inv lv by (auto simp: sched_inv_def queue_inv_def)
  obtain s1 where s1: "remove_t t s = Some s1" "queue_inv {t} s1" "threads s1 = threads s"
    "current_thread s1 = current_thread s" "sched_frame s s1" "\<forall>h. t \<notin> set (klists s1 h)"
    using dequeue [OF inv lv] by blast
  have nc: "current_thread s \<noteq> Some t" using inv st by (auto simp: sched_inv_def current_ok_def)
  have "queue_inv {t} (upd_thread t f s1)"
    using s1(2,6) wf p unfolding s1(3)
    by (auto simp: queue_inv_defs f_def s1(3) thread_wf_def stack_ok_def)
  from insert_ok [OF this, of t] nc s1(4) obtain s' where s':
    "insert_t t (upd_thread t f s1) = Some s'" "queue_inv {} s'" "sched_frame (upd_thread t f s1) s'"
    "threads s' = (threads s)(t := set_stat RT_THREAD_READY (f (threads s t)))"
    "current_thread s' = current_thread s" using s1(3) by auto
  have sb: "stat_base (threads s' u) = stat_base (threads s u)" for u
    using st by (auto simp: s'(4))
  have "current_ok s'" using inv by (auto simp: sched_inv_def current_ok_def sb s'(5))
  moreover have "sched_frame (upd_thread t f s) s'"
    using s'(3,4) s1(5) by (auto simp: sched_frame_def set_stat_def)
  ultimately show ?thesis using s1(1) s'(1,2,5) sb by (auto simp: sched_inv_def)
qed

end

interpretation rq: ready_queue rt_schedule_insert_thread rt_schedule_remove_thread
proof unfold_locales
  fix X and s :: "'a kstate_scheme" and t
  assume "queue_inv X s" "thread_wf (threads s t)"
  from remove_thread_inv [OF this] remove_thread_frame
  show "\<exists>s'. rt_schedule_remove_thread t s = Some s' \<and> queue_inv (insert t X) s' \<and>
      threads s' = threads s \<and> current_thread s' = current_thread s \<and> sched_frame s s' \<and>
      (\<forall>h. klists s' h = removeAll t (klists s h))"
    using remove_thread_klists by fastforce
next
  fix X and s :: "'a kstate_scheme" and t
  assume "queue_inv X s" "t \<in> X" "current_thread s \<noteq> Some t"
  from insert_thread_inv [OF this] insert_thread_frame [of t s] this(3)
  show "\<exists>s'. rt_schedule_insert_thread t s = Some s' \<and> queue_inv (X - {t}) s' \<and> sched_frame s s' \<and>
      threads s' = (threads s)(t := set_stat RT_THREAD_READY (threads s t)) \<and>
      current_thread s' = current_thread s \<and> (\<forall>h. wait_head h \<longrightarrow> klists s' h = klists s h)"
    using insert_thread_klists by fastforce
next
  fix s :: "'a kstate_scheme" and t
  assume "current_thread s = Some t"
  then show "rt_schedule_insert_thread t s = Some (upd_thread t (set_stat RT_THREAD_RUNNING) s)"
    by (simp add: rt_schedule_insert_thread_def)
qed

section \<open>Waiting lists\<close>

text \<open>A suspended thread that is in no list may be linked anywhere into a waiting list.\<close>

lemma wait_link_inv:
  assumes inv: "sched_inv s" and st: "stat_base (threads s t) = RT_THREAD_SUSPEND"
    and un: "\<And>h. t \<notin> set (klists s h)" and h: "h = Susp n \<or> h = SendSusp n"
    and l: "set l = insert t (set (klists s h))" "distinct l"
  shows "sched_inv (s\<lparr>klists := (klists s)(h := l)\<rparr>)"
proof -
  let ?s = "s\<lparr>klists := (klists s)(h := l)\<rparr>"
  have q: "queue_inv {} s" using inv by (simp add: sched_inv_def)
  have "bitmap_ok ?s" "ready_ok {} ?s"
    using q h by (auto simp: queue_inv_def bitmap_ok_def ready_ok_def)
  moreover have "linked_once ?s"
    using q un l unfolding queue_inv_def linked_once_def by auto
  moreover have "wait_ok {} ?s"
    using q st h l unfolding queue_inv_def wait_ok_def by auto
  ultimately have "queue_inv {} ?s" using q by (auto simp: queue_inv_def)
  then show ?thesis using inv by (simp add: sched_inv_def current_ok_def)
qed

end
