(* ===== verification/Kobject.thy ===== *)
theory Kobject
  imports Scheduler
begin

text \<open>
  Kernel objects (\<^verbatim>\<open>rt-thread/src/object.c\<close>): the containers, one list of objects per class, and the
  operations that register, find and detach an object. The name field holds \<^verbatim>\<open>RT_NAME_MAX\<close> = 8
  characters: \<^verbatim>\<open>rt_strncpy\<close> cuts a longer name and \<^verbatim>\<open>rt_strncmp\<close> compares 8 characters at most.
  Hooks are null in this program. A dynamic allocation takes the address that \<^verbatim>\<open>rt_malloc\<close> returned as
  an argument, \<open>None\<close> for a failed one.
\<close>

definition RT_NAME_MAX :: nat where "RT_NAME_MAX = 8"

definition RT_Object_Class_Null :: u8 where "RT_Object_Class_Null = 0x00"
definition RT_Object_Class_Thread :: u8 where "RT_Object_Class_Thread = 0x01"
definition RT_Object_Class_Semaphore :: u8 where "RT_Object_Class_Semaphore = 0x02"
definition RT_Object_Class_Mutex :: u8 where "RT_Object_Class_Mutex = 0x03"
definition RT_Object_Class_Event :: u8 where "RT_Object_Class_Event = 0x04"
definition RT_Object_Class_MailBox :: u8 where "RT_Object_Class_MailBox = 0x05"
definition RT_Object_Class_MessageQueue :: u8 where "RT_Object_Class_MessageQueue = 0x06"
definition RT_Object_Class_MemHeap :: u8 where "RT_Object_Class_MemHeap = 0x07"
definition RT_Object_Class_MemPool :: u8 where "RT_Object_Class_MemPool = 0x08"
definition RT_Object_Class_Device :: u8 where "RT_Object_Class_Device = 0x09"
definition RT_Object_Class_Timer :: u8 where "RT_Object_Class_Timer = 0x0a"
definition RT_Object_Class_Static :: u8 where "RT_Object_Class_Static = 0x80"

lemmas class_defs = RT_Object_Class_Null_def RT_Object_Class_Thread_def
  RT_Object_Class_Semaphore_def RT_Object_Class_Mutex_def RT_Object_Class_Event_def
  RT_Object_Class_MailBox_def RT_Object_Class_MessageQueue_def RT_Object_Class_MemHeap_def
  RT_Object_Class_MemPool_def RT_Object_Class_Device_def RT_Object_Class_Timer_def
  RT_Object_Class_Static_def

text \<open>\<^verbatim>\<open>_object_container\<close> has one entry per class enabled on this board.\<close>

definition object_container :: "u8 list" where
  "object_container = [RT_Object_Class_Thread, RT_Object_Class_Semaphore, RT_Object_Class_Mutex,
     RT_Object_Class_Event, RT_Object_Class_MailBox, RT_Object_Class_MessageQueue,
     RT_Object_Class_MemHeap, RT_Object_Class_MemPool, RT_Object_Class_Device,
     RT_Object_Class_Timer]"

definition rt_object_get_information :: "u8 \<Rightarrow> u8 option" where
  "rt_object_get_information type = List.find (\<lambda>c. c = type) object_container"

definition rt_object_get_length :: "u8 \<Rightarrow> 'a kstate_scheme \<Rightarrow> nat" where
  "rt_object_get_length type s =
     (case rt_object_get_information type of None \<Rightarrow> 0 | Some c \<Rightarrow> length (containers s c))"

definition rt_object_get_pointers :: "u8 \<Rightarrow> int \<Rightarrow> 'a kstate_scheme \<Rightarrow> objref list" where
  "rt_object_get_pointers type maxlen s =
     (if maxlen \<le> 0 then []
      else case rt_object_get_information type of None \<Rightarrow> []
           | Some c \<Rightarrow> take (nat maxlen) (containers s c))"

definition object_link :: "u8 \<Rightarrow> objref \<Rightarrow> 'a kstate_scheme \<Rightarrow> 'a kstate_scheme" where
  "object_link c r s = s\<lparr>containers := (containers s)(c := r # containers s c)\<rparr>"

definition object_unlink :: "objref \<Rightarrow> 'a kstate_scheme \<Rightarrow> 'a kstate_scheme" where
  "object_unlink r s = s\<lparr>containers := (\<lambda>c. removeAll r (containers s c))\<rparr>"

definition rt_object_init :: "objref \<Rightarrow> u8 \<Rightarrow> string \<Rightarrow> 'a kstate_scheme \<Rightarrow> 'a kstate_scheme option" where
  "rt_object_init r type name s = do {
     information \<leftarrow> rt_object_get_information type;
     let s1 = rt_enter_critical s;
     _ \<leftarrow> RT_ASSERT (r \<notin> set (containers s1 information));
     s2 \<leftarrow> rt_exit_critical s1;
     let s3 = upd_object r (\<lambda>ob. ob\<lparr>o_type := type OR RT_Object_Class_Static,
                                   o_name := take RT_NAME_MAX name\<rparr>) s2;
     Some (object_link information r s3)
   }"

definition rt_object_detach :: "objref \<Rightarrow> 'a kstate_scheme \<Rightarrow> 'a kstate_scheme" where
  "rt_object_detach r s = object_unlink r (upd_object r (\<lambda>ob. ob\<lparr>o_type := 0\<rparr>) s)"

definition rt_object_allocate ::
  "objref option \<Rightarrow> u8 \<Rightarrow> string \<Rightarrow> 'a kstate_scheme \<Rightarrow> (objref option \<times> 'a kstate_scheme) option" where
  "rt_object_allocate ptr type name s = do {
     _ \<leftarrow> RT_ASSERT (interrupt_nest s = 0);
     information \<leftarrow> rt_object_get_information type;
     (case ptr of None \<Rightarrow> Some (None, s)
      | Some r \<Rightarrow>
          (let s1 = upd_object r (\<lambda>ob. ob\<lparr>o_type := type, o_flag := 0, o_name := take RT_NAME_MAX name\<rparr>) s
           in Some (Some r, object_link information r s1)))
   }"

definition rt_object_delete :: "objref \<Rightarrow> 'a kstate_scheme \<Rightarrow> 'a kstate_scheme option" where
  "rt_object_delete r s = do {
     _ \<leftarrow> RT_ASSERT (o_type (objects s r) AND RT_Object_Class_Static = 0);
     Some (object_unlink r (upd_object r (\<lambda>ob. ob\<lparr>o_type := RT_Object_Class_Null\<rparr>) s))
   }"

definition rt_object_is_systemobject :: "objref \<Rightarrow> 'a kstate_scheme \<Rightarrow> bool" where
  "rt_object_is_systemobject r s \<longleftrightarrow> o_type (objects s r) AND RT_Object_Class_Static \<noteq> 0"

definition rt_object_get_type :: "objref \<Rightarrow> 'a kstate_scheme \<Rightarrow> u8" where
  "rt_object_get_type r s = o_type (objects s r) AND NOT RT_Object_Class_Static"

text \<open>The search walks the container from its head, so the object registered last wins.\<close>

definition rt_object_find ::
  "string \<Rightarrow> u8 \<Rightarrow> 'a kstate_scheme \<Rightarrow> (objref option \<times> 'a kstate_scheme) option" where
  "rt_object_find name type s =
     (case rt_object_get_information type of
        None \<Rightarrow> Some (None, s)
      | Some information \<Rightarrow> do {
          _ \<leftarrow> RT_ASSERT (interrupt_nest s = 0);
          let s1 = rt_enter_critical s;
          let found = List.find (\<lambda>r. take RT_NAME_MAX (o_name (objects s1 r)) = take RT_NAME_MAX name)
                        (containers s1 information);
          s2 \<leftarrow> rt_exit_critical s1;
          Some (found, s2)
        })"

lemmas object_defs [kdefs] = object_container_def rt_object_get_information_def
  rt_object_get_length_def rt_object_get_pointers_def object_link_def object_unlink_def
  rt_object_init_def rt_object_detach_def rt_object_allocate_def rt_object_delete_def
  rt_object_is_systemobject_def rt_object_get_type_def rt_object_find_def

section \<open>The containers describe the objects\<close>

text \<open>Every object in the container of a class carries that class, and is there once.\<close>

definition object_inv :: "'a kstate_scheme \<Rightarrow> bool" where
  "object_inv s \<longleftrightarrow> (\<forall>c. distinct (containers s c)) \<and>
     (\<forall>c r. r \<in> set (containers s c) \<longrightarrow> c \<in> set object_container \<and> rt_object_get_type r s = c)"

lemma get_information_iff: "rt_object_get_information c = Some d \<longleftrightarrow> d = c \<and> c \<in> set object_container"
  by (simp add: rt_object_get_information_def find_eq_Some)

lemma class_and_not_static:
  assumes "c \<in> set object_container"
  shows "(c OR RT_Object_Class_Static) AND NOT RT_Object_Class_Static = c"
    "c AND NOT RT_Object_Class_Static = c"
  using assms by (auto simp: object_container_def class_defs)

lemma static_or: "(c OR RT_Object_Class_Static) AND RT_Object_Class_Static \<noteq> 0"
  by (simp add: RT_Object_Class_Static_def bit_eq_iff bit_simps) (auto intro!: exI [of _ 7] simp: bit_numeral_rec)

lemma object_inv_cong:
  "containers s' = containers s \<Longrightarrow> objects s' = objects s \<Longrightarrow> object_inv s' = object_inv s"
  by (simp add: object_inv_def rt_object_get_type_def)

lemma exit_enter_frame:
  assumes "rt_exit_critical (rt_enter_critical s) = Some s'" "sched_inv s" "current_thread s = Some c"
  shows "containers s' = containers s" "objects s' = objects s"
    and exit_enter_nest: "interrupt_nest s' = interrupt_nest s"
proof -
  have fr: "sched_frame u u'" if "rt_schedule u = Some u'" "sched_inv u" "current_thread u = Some c"
    for u u' :: "'a kstate_scheme"
    using rt_schedule_inv [OF that(2,3)] that(1) by auto
  from assms show "containers s' = containers s" "objects s' = objects s"
    "interrupt_nest s' = interrupt_nest s"
    by (auto simp: rt_exit_critical_def rt_enter_critical_def Let_def sched_frame_def
        split: if_splits dest!: fr)
qed

lemma object_sched_inv [simp]:
  "sched_inv (upd_object r f s) = sched_inv s" "sched_inv (object_link c r s) = sched_inv s"
  "sched_inv (object_unlink r s) = sched_inv s"
  by (rule sched_inv_cong; simp add: object_link_def object_unlink_def)+

lemma object_state_simps [simp]:
  "current_thread (object_link c r s) = current_thread s"
  "current_thread (object_unlink r s) = current_thread s"
  "objects (object_link c r s) = objects s" "objects (object_unlink r s) = objects s"
  "containers (object_link c r s) = (containers s)(c := r # containers s c)"
  "containers (object_unlink r s) = (\<lambda>c. removeAll r (containers s c))"
  "threads (object_link c r s) = threads s" "threads (object_unlink r s) = threads s"
  "klists (object_link c r s) = klists s" "klists (object_unlink r s) = klists s"
  "timers (object_link c r s) = timers s" "timers (object_unlink r s) = timers s"
  "timer_list (object_link c r s) = timer_list s" "timer_list (object_unlink r s) = timer_list s"
  "timer_fired (object_link c r s) = timer_fired s"
  "timer_fired (object_unlink r s) = timer_fired s"
  "rt_tick (object_link c r s) = rt_tick s" "rt_tick (object_unlink r s) = rt_tick s"
  "ready_group (object_link c r s) = ready_group s" "ready_group (object_unlink r s) = ready_group s"
  "interrupt_nest (object_link c r s) = interrupt_nest s"
  "interrupt_nest (object_unlink r s) = interrupt_nest s"
  by (simp_all add: object_link_def object_unlink_def)

lemma rt_object_init_spec:
  assumes "sched_inv s" "current_thread s = Some cur" "c \<in> set object_container"
    and fresh: "\<And>d. r \<notin> set (containers s d)"
  shows "\<exists>s1 s'. rt_exit_critical (rt_enter_critical s) = Some s1 \<and> sched_inv s1 \<and>
    rt_object_init r c name s = Some s' \<and> sched_inv s' \<and>
    s' = object_link c r (upd_object r (\<lambda>ob. ob\<lparr>o_type := c OR RT_Object_Class_Static,
                                               o_name := take RT_NAME_MAX name\<rparr>) s1)"
proof -
  obtain s1 where s1: "rt_exit_critical (rt_enter_critical s) = Some s1" "sched_inv s1"
    using critical_section_inv [OF assms(1,2)] by auto
  have "containers (rt_enter_critical s) = containers s" by (simp add: rt_enter_critical_def)
  then show ?thesis
    using s1 assms(3) fresh by (simp add: rt_object_init_def get_information_iff [THEN iffD2] Let_def)
qed

lemma object_inv_init:
  assumes inv: "object_inv s" and c: "c \<in> set object_container" and fresh: "\<And>d. r \<notin> set (containers s d)"
  shows "object_inv (object_link c r (upd_object r (\<lambda>ob. ob\<lparr>o_type := c OR RT_Object_Class_Static,
                                                       o_name := nm\<rparr>) s))"
  using inv c fresh class_and_not_static [OF c]
  by (auto simp: object_inv_def rt_object_get_type_def)

lemma object_inv_detach: "object_inv s \<Longrightarrow> object_inv (rt_object_detach r s)"
  by (auto simp: object_inv_def rt_object_detach_def rt_object_get_type_def distinct_removeAll)

lemma rt_object_detach_sel [simp]:
  "sched_inv (rt_object_detach r s) = sched_inv s"
  "threads (rt_object_detach r s) = threads s" "klists (rt_object_detach r s) = klists s"
  "current_thread (rt_object_detach r s) = current_thread s"
  "timers (rt_object_detach r s) = timers s" "timer_list (rt_object_detach r s) = timer_list s"
  "timer_fired (rt_object_detach r s) = timer_fired s"
  "ready_group (rt_object_detach r s) = ready_group s" "rt_tick (rt_object_detach r s) = rt_tick s"
  "interrupt_nest (rt_object_detach r s) = interrupt_nest s"
  "objects (rt_object_detach r s) = (objects s)(r := (objects s r)\<lparr>o_type := 0\<rparr>)"
  by (auto simp: rt_object_detach_def)

end
