(* ===== verification/Timer.thy ===== *)
theory Timer
  imports Kobject
begin

text \<open>
  Kernel timers (\<^verbatim>\<open>rt-thread/src/timer.c\<close>) as configured here: hard timers only (no
  \<^verbatim>\<open>RT_USING_TIMER_SOFT\<close>) and \<^verbatim>\<open>RT_TIMER_SKIP_LIST_LEVEL\<close> = 1, so that the skip list is one list,
  \<open>timer_list\<close>. The temporary list of \<^verbatim>\<open>rt_timer_check\<close>, which holds the timer whose function runs, is
  \<open>timer_fired\<close>; a timer is in at most one of the two.
  The lemmas show that the list stays ordered by expiry across the wrap-around of the tick counter,
  that timers with the same expiry run in the order they were started, and that the check ends and
  leaves no timer due.
\<close>

definition RT_TIMER_FLAG_ACTIVATED :: u8 where "RT_TIMER_FLAG_ACTIVATED = 0x1"
definition RT_TIMER_FLAG_DEACTIVATED :: u8 where "RT_TIMER_FLAG_DEACTIVATED = 0x0"
definition RT_TIMER_FLAG_ONE_SHOT :: u8 where "RT_TIMER_FLAG_ONE_SHOT = 0x0"
definition RT_TIMER_FLAG_PERIODIC :: u8 where "RT_TIMER_FLAG_PERIODIC = 0x2"

lemmas timer_flag_defs = RT_TIMER_FLAG_ACTIVATED_def RT_TIMER_FLAG_DEACTIVATED_def
  RT_TIMER_FLAG_ONE_SHOT_def RT_TIMER_FLAG_PERIODIC_def

definition set_activated :: "objref \<Rightarrow> 'a kstate_scheme \<Rightarrow> 'a kstate_scheme" where
  "set_activated r s = upd_object r (\<lambda>ob. ob\<lparr>o_flag := o_flag ob OR RT_TIMER_FLAG_ACTIVATED\<rparr>) s"

definition clear_activated :: "objref \<Rightarrow> 'a kstate_scheme \<Rightarrow> 'a kstate_scheme" where
  "clear_activated r s = upd_object r (\<lambda>ob. ob\<lparr>o_flag := o_flag ob AND NOT RT_TIMER_FLAG_ACTIVATED\<rparr>) s"

definition is_activated :: "objref \<Rightarrow> 'a kstate_scheme \<Rightarrow> bool" where
  "is_activated r s \<longleftrightarrow> o_flag (objects s r) AND RT_TIMER_FLAG_ACTIVATED \<noteq> 0"

definition is_periodic :: "objref \<Rightarrow> 'a kstate_scheme \<Rightarrow> bool" where
  "is_periodic r s \<longleftrightarrow> o_flag (objects s r) AND RT_TIMER_FLAG_PERIODIC \<noteq> 0"

definition timer_init :: "objref \<Rightarrow> timer_fn \<Rightarrow> u32 \<Rightarrow> u8 \<Rightarrow> 'a kstate_scheme \<Rightarrow> 'a kstate_scheme" where
  "timer_init r fn time flag s =
     upd_timer r (\<lambda>_. \<lparr>timeout_func = fn, timer_init_tick = time, timeout_tick = 0\<rparr>)
       (clear_activated r (upd_object r (\<lambda>ob. ob\<lparr>o_flag := flag\<rparr>) s))"

definition timer_list_next_timeout :: "'a kstate_scheme \<Rightarrow> u32" where
  "timer_list_next_timeout s =
     (case timer_list s of [] \<Rightarrow> RT_TICK_MAX | r # _ \<Rightarrow> timeout_tick (timers s r))"

definition timer_remove :: "objref \<Rightarrow> 'a kstate_scheme \<Rightarrow> 'a kstate_scheme" where
  "timer_remove r s = s\<lparr>timer_list := removeAll r (timer_list s),
                         timer_fired := removeAll r (timer_fired s)\<rparr>"

definition rt_timer_init ::
  "objref \<Rightarrow> string \<Rightarrow> timer_fn \<Rightarrow> u32 \<Rightarrow> u8 \<Rightarrow> 'a kstate_scheme \<Rightarrow> 'a kstate_scheme option" where
  "rt_timer_init r name fn time flag s = do {
     s1 \<leftarrow> rt_object_init r RT_Object_Class_Timer name s;
     Some (timer_init r fn time flag s1)
   }"

definition rt_timer_detach :: "objref \<Rightarrow> 'a kstate_scheme \<Rightarrow> (rt_err_t \<times> 'a kstate_scheme) option" where
  "rt_timer_detach r s = do {
     _ \<leftarrow> RT_ASSERT (rt_object_get_type r s = RT_Object_Class_Timer);
     _ \<leftarrow> RT_ASSERT (rt_object_is_systemobject r s);
     Some (RT_EOK, rt_object_detach r (clear_activated r (timer_remove r s)))
   }"

definition rt_timer_create ::
  "objref option \<Rightarrow> string \<Rightarrow> timer_fn \<Rightarrow> u32 \<Rightarrow> u8 \<Rightarrow> 'a kstate_scheme \<Rightarrow> (objref option \<times> 'a kstate_scheme) option" where
  "rt_timer_create ptr name fn time flag s = do {
     (timer, s1) \<leftarrow> rt_object_allocate ptr RT_Object_Class_Timer name s;
     Some (case timer of None \<Rightarrow> (None, s1) | Some r \<Rightarrow> (Some r, timer_init r fn time flag s1))
   }"

definition rt_timer_delete :: "objref \<Rightarrow> 'a kstate_scheme \<Rightarrow> (rt_err_t \<times> 'a kstate_scheme) option" where
  "rt_timer_delete r s = do {
     _ \<leftarrow> RT_ASSERT (rt_object_get_type r s = RT_Object_Class_Timer);
     _ \<leftarrow> RT_ASSERT (\<not> rt_object_is_systemobject r s);
     s1 \<leftarrow> rt_object_delete r (clear_activated r (timer_remove r s));
     Some (RT_EOK, s1)
   }"

text \<open>The search loop of \<^verbatim>\<open>rt_timer_start\<close>: skip the timers that expire no later than the new one
  (the difference is 0, or negative as a signed number) and link it in front of the next.\<close>

fun timer_insert :: "(objref \<Rightarrow> u32) \<Rightarrow> objref \<Rightarrow> objref list \<Rightarrow> objref list" where
  "timer_insert tick r [] = [r]"
| "timer_insert tick r (t # ts) =
     (if tick t - tick r = 0 then t # timer_insert tick r ts
      else if tick t - tick r < RT_TICK_MAX div 2 then r # t # ts
      else t # timer_insert tick r ts)"

definition rt_timer_start :: "objref \<Rightarrow> 'a kstate_scheme \<Rightarrow> (rt_err_t \<times> 'a kstate_scheme) option" where
  "rt_timer_start r s = do {
     _ \<leftarrow> RT_ASSERT (rt_object_get_type r s = RT_Object_Class_Timer);
     let s1 = clear_activated r (timer_remove r s);
     _ \<leftarrow> RT_ASSERT (timer_init_tick (timers s1 r) < RT_TICK_MAX div 2);
     let s2 = upd_timer r (\<lambda>tm. tm\<lparr>timeout_tick := rt_tick s1 + timer_init_tick tm\<rparr>) s1;
     let s3 = s2\<lparr>random_nr := random_nr s2 + 1,
                 timer_list := timer_insert (\<lambda>q. timeout_tick (timers s2 q)) r (timer_list s2)\<rparr>;
     Some (RT_EOK, set_activated r s3)
   }"

definition rt_timer_stop :: "objref \<Rightarrow> 'a kstate_scheme \<Rightarrow> (rt_err_t \<times> 'a kstate_scheme) option" where
  "rt_timer_stop r s = do {
     _ \<leftarrow> RT_ASSERT (rt_object_get_type r s = RT_Object_Class_Timer);
     Some (if \<not> is_activated r s then (- RT_ERROR, s)
           else (RT_EOK, clear_activated r (timer_remove r s)))
   }"

text \<open>The commands of \<^verbatim>\<open>rt_timer_control\<close>; \<open>arg\<close> is the value its pointer refers to, returned as the
  call leaves it.\<close>

datatype timer_cmd = TIMER_SET_TIME | TIMER_GET_TIME | TIMER_SET_ONESHOT | TIMER_SET_PERIODIC
  | TIMER_GET_STATE | TIMER_OTHER

definition rt_timer_control ::
  "objref \<Rightarrow> timer_cmd \<Rightarrow> u32 \<Rightarrow> 'a kstate_scheme \<Rightarrow> (rt_err_t \<times> u32 \<times> 'a kstate_scheme) option" where
  "rt_timer_control r cmd arg s = do {
     _ \<leftarrow> RT_ASSERT (rt_object_get_type r s = RT_Object_Class_Timer);
     Some (case cmd of
         TIMER_GET_TIME \<Rightarrow> (RT_EOK, timer_init_tick (timers s r), s)
       | TIMER_SET_TIME \<Rightarrow> (RT_EOK, arg, upd_timer r (\<lambda>tm. tm\<lparr>timer_init_tick := arg\<rparr>) s)
       | TIMER_SET_ONESHOT \<Rightarrow>
           (RT_EOK, arg, upd_object r (\<lambda>ob. ob\<lparr>o_flag := o_flag ob AND NOT RT_TIMER_FLAG_PERIODIC\<rparr>) s)
       | TIMER_SET_PERIODIC \<Rightarrow>
           (RT_EOK, arg, upd_object r (\<lambda>ob. ob\<lparr>o_flag := o_flag ob OR RT_TIMER_FLAG_PERIODIC\<rparr>) s)
       | TIMER_GET_STATE \<Rightarrow>
           (RT_EOK, (if is_activated r s then 1 else 0), s)
       | TIMER_OTHER \<Rightarrow> (RT_EOK, arg, s))
   }"

text \<open>\<^verbatim>\<open>rt_timer_check\<close>: the timeout functions are the parameter \<open>exec\<close>. The loop may run forever (a
  periodic timer with period 0 is due again at once), so it is a partial function.\<close>

definition timer_fire :: "objref \<Rightarrow> 'a kstate_scheme \<Rightarrow> 'a kstate_scheme" where
  "timer_fire t s =
     (let s1 = timer_remove t s;
          s2 = (if is_periodic t s1 then s1 else clear_activated t s1)
      in s2\<lparr>timer_fired := t # timer_fired s2\<rparr>)"

definition timer_rearm :: "objref \<Rightarrow> 'a kstate_scheme \<Rightarrow> 'a kstate_scheme option" where
  "timer_rearm t s =
     (let s5 = timer_remove t s in
      if is_periodic t s5 \<and> is_activated t s5
      then map_option snd (rt_timer_start t (clear_activated t s5)) else Some s5)"

partial_function (option) timer_check_loop ::
  "(timer_fn \<Rightarrow> 'a kstate_scheme \<Rightarrow> 'a kstate_scheme option) \<Rightarrow> u32 \<Rightarrow> 'a kstate_scheme \<Rightarrow> 'a kstate_scheme option"
where
  "timer_check_loop exec now s =
     (case timer_list s of
        [] \<Rightarrow> Some s
      | t # _ \<Rightarrow>
        if now - timeout_tick (timers s t) < RT_TICK_MAX div 2 then do {
          s4 \<leftarrow> exec (timeout_func (timers s t)) (timer_fire t s);
          if timer_fired s4 = [] then timer_check_loop exec (rt_tick s4) s4
          else do {
            s6 \<leftarrow> timer_rearm t s4;
            timer_check_loop exec (rt_tick s4) s6
          }
        } else Some s)"

definition rt_timer_check ::
  "(timer_fn \<Rightarrow> 'a kstate_scheme \<Rightarrow> 'a kstate_scheme option) \<Rightarrow> 'a kstate_scheme \<Rightarrow> 'a kstate_scheme option" where
  "rt_timer_check exec s = timer_check_loop exec (rt_tick s) (s\<lparr>timer_fired := []\<rparr>)"

definition rt_timer_next_timeout_tick :: "'a kstate_scheme \<Rightarrow> u32" where
  "rt_timer_next_timeout_tick s = timer_list_next_timeout s"

definition rt_system_timer_init :: "'a kstate_scheme \<Rightarrow> 'a kstate_scheme" where
  "rt_system_timer_init s = s\<lparr>timer_list := []\<rparr>"

lemmas timer_defs [kdefs] = set_activated_def clear_activated_def is_activated_def is_periodic_def
  timer_init_def timer_list_next_timeout_def timer_remove_def rt_timer_init_def rt_timer_detach_def
  rt_timer_create_def rt_timer_delete_def rt_timer_start_def rt_timer_stop_def rt_timer_control_def
  timer_fire_def timer_rearm_def rt_timer_check_def rt_timer_next_timeout_tick_def rt_system_timer_init_def

section \<open>The order of the timer list\<close>

text \<open>
  Ticks are compared through the difference of two 32-bit words, which is meaningful within half of
  the range. \<open>expiry s t\<close> is the number of ticks from the previous tick (\<open>rt_tick s - 1\<close>) to the
  expiry of \<open>t\<close>: 0 for a timer that should have run before, 1 for one that is due now.
\<close>

definition expiry :: "'a kstate_scheme \<Rightarrow> objref \<Rightarrow> nat" where
  "expiry s t = unat (timeout_tick (timers s t) - (rt_tick s - 1))"

definition timer_sorted :: "'a kstate_scheme \<Rightarrow> bool" where
  "timer_sorted s \<longleftrightarrow> distinct (timer_list s) \<and> sorted (map (expiry s) (timer_list s)) \<and>
     (\<forall>t \<in> set (timer_list s). expiry s t \<le> 0x7fffffff)"

lemma expiry_diff:
  fixes a b c :: u32
  shows "a - b = of_nat (unat (a - c)) - of_nat (unat (b - c))"
  by simp

lemma unat_diff_ge:
  fixes a b c :: u32
  assumes "unat (b - c) \<le> unat (a - c)"
  shows "unat (a - b) = unat (a - c) - unat (b - c)"
proof -
  have "a - b = (a - c) - (b - c)" by simp
  then show ?thesis using assms by (simp only: unat_sub word_le_nat_alt)
qed

lemma unat_uminus_word: "(w :: u32) \<noteq> 0 \<Longrightarrow> unat (- w) = 2 ^ 32 - unat w"
  using unat_sub_if' [of 0 w] by (auto simp: unat_eq_0)

lemma unat_diff_lt:
  fixes a b c :: u32
  assumes "unat (a - c) < unat (b - c)"
  shows "unat (a - b) = 2 ^ 32 - (unat (b - c) - unat (a - c))"
proof -
  have ab: "unat (b - a) = unat (b - c) - unat (a - c)" using assms by (intro unat_diff_ge) simp
  then have "b - a \<noteq> 0" using assms by (metis unat_0 zero_less_diff less_irrefl)
  moreover have "a - b = - (b - a)" by simp
  ultimately show ?thesis using ab unat_uminus_word by metis
qed

text \<open>What the two comparisons of the search loop decide.\<close>

lemma timer_compare:
  fixes a b c :: u32
  assumes "unat (a - c) \<le> 0x7fffffff" "unat (b - c) \<le> 0x7fffffff" "0 < unat (b - c)"
  shows "(a - b \<noteq> 0 \<and> a - b < RT_TICK_MAX div 2) \<longleftrightarrow> unat (b - c) < unat (a - c)"
proof (cases "unat (b - c) \<le> unat (a - c)")
  case True
  have "a - b = 0 \<longleftrightarrow> unat (a - b) = 0" by (simp add: unat_eq_0)
  with unat_diff_ge [OF True] True assms show ?thesis
    by (auto simp: RT_TICK_MAX_half word_less_nat_alt)
next
  case False
  with unat_diff_lt [of a c b] assms show ?thesis
    by (auto simp: RT_TICK_MAX_half word_less_nat_alt)
qed

text \<open>The search loop is insertion into a list sorted by expiry, after the timers that expire at the
  same tick.\<close>

lemma timer_insert_expiry:
  assumes "\<forall>t \<in> set ts. unat (tick t - c) \<le> 0x7fffffff"
    and "unat (tick r - c) \<le> 0x7fffffff" "0 < unat (tick r - c)"
  shows "timer_insert tick r ts =
    takeWhile (\<lambda>t. unat (tick t - c) \<le> unat (tick r - c)) ts @ r #
    dropWhile (\<lambda>t. unat (tick t - c) \<le> unat (tick r - c)) ts"
  using assms(1)
proof (induction ts)
  case (Cons t ts)
  have "unat (tick t - c) \<le> 0x7fffffff" using Cons.prems by simp
  from timer_compare [OF this assms(2,3)] Cons show ?case by (auto simp: not_less)
qed simp

lemma sorted_insert_split:
  assumes "sorted (map f ts)"
  shows "sorted (map f (takeWhile (\<lambda>t. f t \<le> f r) ts @ r # dropWhile (\<lambda>t. f t \<le> f r) ts))"
proof -
  have srt: "sorted (map f (takeWhile (\<lambda>t. f t \<le> f r) ts))"
    "sorted (map f (dropWhile (\<lambda>t. f t \<le> f r) ts))"
    using assms by (metis map_append sorted_append takeWhile_dropWhile_id)+
  have "f r \<le> f t" if "t \<in> set (dropWhile (\<lambda>t. f t \<le> f r) ts)" for t
  proof -
    from that obtain y ys where d: "dropWhile (\<lambda>t. f t \<le> f r) ts = y # ys"
      by (cases "dropWhile (\<lambda>t. f t \<le> f r) ts") auto
    then have "\<not> f y \<le> f r" by (metis hd_dropWhile list.distinct(1) list.sel(1))
    moreover have "f y \<le> f t" using srt(2) that d by auto
    ultimately show ?thesis by simp
  qed
  with srt show ?thesis
    by (auto simp: sorted_append dest: set_takeWhileD) (meson order_trans set_takeWhileD)
qed

lemma set_timer_insert [simp]: "set (timer_insert tick r ts) = insert r (set ts)"
  by (induction ts) auto

lemma timer_state_simps [simp]:
  "timers (set_activated r s) = timers s" "timers (clear_activated r s) = timers s"
  "timer_list (set_activated r s) = timer_list s" "timer_list (clear_activated r s) = timer_list s"
  "timer_fired (set_activated r s) = timer_fired s" "timer_fired (clear_activated r s) = timer_fired s"
  "rt_tick (set_activated r s) = rt_tick s" "rt_tick (clear_activated r s) = rt_tick s"
  "timers (timer_remove r s) = timers s" "rt_tick (timer_remove r s) = rt_tick s"
  "timer_list (timer_remove r s) = removeAll r (timer_list s)"
  "timer_fired (timer_remove r s) = removeAll r (timer_fired s)"
  "objects (timer_remove r s) = objects s"
  by (simp_all add: set_activated_def clear_activated_def timer_remove_def)

lemma activated_type [simp]:
  "rt_object_get_type q (set_activated r s) = rt_object_get_type q s"
  "rt_object_get_type q (clear_activated r s) = rt_object_get_type q s"
  "rt_object_get_type q (timer_remove r s) = rt_object_get_type q s"
  by (simp_all add: set_activated_def clear_activated_def timer_remove_def rt_object_get_type_def)

section \<open>Starting a timer\<close>

text \<open>A timer that can be started: it is a timer object and its period is below half of the range.\<close>

definition startable :: "objref \<Rightarrow> 'a kstate_scheme \<Rightarrow> bool" where
  "startable r s \<longleftrightarrow> rt_object_get_type r s = RT_Object_Class_Timer \<and>
     timer_init_tick (timers s r) < RT_TICK_MAX div 2"

lemma expiry_started:
  assumes "init < RT_TICK_MAX div 2"
  shows "unat (now + init - (now - 1)) = Suc (unat init)" "Suc (unat init) \<le> 0x7fffffff"
proof -
  have b: "unat init < 0x7fffffff"
    using assms by (simp add: RT_TICK_MAX_half word_less_nat_alt)
  then show "Suc (unat init) \<le> 0x7fffffff" by simp
  have "now + init - (now - 1) = init + 1" by simp
  moreover have "unat (init + 1) = unat init + 1" using b by (simp add: unat_word_ariths)
  ultimately show "unat (now + init - (now - 1)) = Suc (unat init)" by simp
qed

lemma rt_timer_start_run:
  assumes "startable r s"
  defines "tick' \<equiv> rt_tick s + timer_init_tick (timers s r)"
  shows "\<exists>s'. rt_timer_start r s = Some (RT_EOK, s') \<and>
    timers s' = (timers s)(r := (timers s r)\<lparr>timeout_tick := tick'\<rparr>) \<and>
    timer_list s' = timer_insert (\<lambda>q. if q = r then tick' else timeout_tick (timers s q)) r
      (removeAll r (timer_list s)) \<and>
    timer_fired s' = removeAll r (timer_fired s) \<and> rt_tick s' = rt_tick s \<and>
    objects s' = (objects s)(r := (objects s r)\<lparr>o_flag := o_flag (objects s r) OR RT_TIMER_FLAG_ACTIVATED\<rparr>)"
  using assms
  by (auto simp: rt_timer_start_def startable_def Let_def set_activated_def clear_activated_def
      if_distrib [of timeout_tick] RT_TIMER_FLAG_ACTIVATED_def fun_eq_iff bit.conj_disj_distrib2
      bit_eq_iff bit_simps cong: if_cong intro!: rt_object.equality)

lemma timer_sorted_removeAll:
  assumes "timer_sorted s"
  shows "distinct (removeAll r (timer_list s))" "sorted (map (expiry s) (removeAll r (timer_list s)))"
    "\<forall>t \<in> set (removeAll r (timer_list s)). expiry s t \<le> 0x7fffffff"
  using assms by (auto simp: timer_sorted_def distinct_removeAll removeAll_filter_not_eq sorted_filter)

lemma expiry_cong:
  "rt_tick s' = rt_tick s \<Longrightarrow> timeout_tick (timers s' t) = timeout_tick (timers s t) \<Longrightarrow>
   expiry s' t = expiry s t"
  by (simp add: expiry_def)

lemma timer_sorted_cong:
  assumes "rt_tick s' = rt_tick s" "\<And>t. timeout_tick (timers s' t) = timeout_tick (timers s t)"
    "timer_list s' = timer_list s"
  shows "timer_sorted s' = timer_sorted s"
proof -
  have "expiry s' = expiry s" using assms by (auto intro: expiry_cong)
  then show ?thesis by (simp add: timer_sorted_def assms(3))
qed

lemma timer_sorted_filter:
  assumes "timer_sorted s" "rt_tick s' = rt_tick s" "timers s' = timers s"
    "timer_list s' = filter P (timer_list s)"
  shows "timer_sorted s'"
proof -
  have "expiry s' = expiry s" using assms(2,3) by (simp add: expiry_def fun_eq_iff)
  then show ?thesis using assms(1,4) by (auto simp: timer_sorted_def sorted_filter)
qed

text \<open>\<^verbatim>\<open>rt_timer_start\<close> arms the timer \<open>timer_init_tick\<close> ticks ahead and links it into the list in
  order of expiry, behind the timers that expire at the same tick.\<close>

lemma rt_timer_start_spec:
  assumes srt: "timer_sorted s" and r: "startable r s"
  shows "\<exists>s'. rt_timer_start r s = Some (RT_EOK, s') \<and> timer_sorted s' \<and>
    expiry s' r = Suc (unat (timer_init_tick (timers s r))) \<and>
    (\<forall>t. t \<noteq> r \<longrightarrow> timers s' t = timers s t) \<and> rt_tick s' = rt_tick s \<and>
    timer_list s' = takeWhile (\<lambda>t. expiry s' t \<le> expiry s' r) (removeAll r (timer_list s)) @ r #
      dropWhile (\<lambda>t. expiry s' t \<le> expiry s' r) (removeAll r (timer_list s)) \<and>
    timer_fired s' = removeAll r (timer_fired s) \<and>
    timer_init_tick (timers s' r) = timer_init_tick (timers s r) \<and>
    timeout_func (timers s' r) = timeout_func (timers s r) \<and>
    objects s' = (objects s)(r := (objects s r)\<lparr>o_flag := o_flag (objects s r) OR RT_TIMER_FLAG_ACTIVATED\<rparr>)"
proof -
  define tick' where "tick' = rt_tick s + timer_init_tick (timers s r)"
  let ?tick = "\<lambda>q. if q = r then tick' else timeout_tick (timers s q)"
  let ?ts = "removeAll r (timer_list s)"
  from rt_timer_start_run [OF r] obtain s' where run: "rt_timer_start r s = Some (RT_EOK, s')"
    and tm: "timers s' = (timers s)(r := (timers s r)\<lparr>timeout_tick := tick'\<rparr>)"
    and l: "timer_list s' = timer_insert ?tick r ?ts" and fd: "timer_fired s' = removeAll r (timer_fired s)"
    and tk: "rt_tick s' = rt_tick s"
    and ob: "objects s' = (objects s)(r := (objects s r)\<lparr>o_flag := o_flag (objects s r) OR RT_TIMER_FLAG_ACTIVATED\<rparr>)"
    unfolding tick'_def by blast
  have ex: "unat (?tick t - (rt_tick s - 1)) = expiry s' t" for t
    by (simp add: expiry_def tm tk)
  have er: "expiry s' r = Suc (unat (timer_init_tick (timers s r)))" "expiry s' r \<le> 0x7fffffff"
    using r expiry_started(1) [of "timer_init_tick (timers s r)" "rt_tick s"]
      expiry_started(2) [of "timer_init_tick (timers s r)"]
    by (simp_all add: expiry_def tm tk tick'_def startable_def)
  have eo: "expiry s' t = expiry s t" if "t \<noteq> r" for t
    using that by (intro expiry_cong) (simp_all add: tk tm)
  note old = timer_sorted_removeAll [OF srt, of r]
  have old_le: "\<forall>t \<in> set ?ts. expiry s' t \<le> 0x7fffffff" using old(3) eo by auto
  have "timer_list s' = takeWhile (\<lambda>t. expiry s' t \<le> expiry s' r) ?ts @ r #
      dropWhile (\<lambda>t. expiry s' t \<le> expiry s' r) ?ts"
    using timer_insert_expiry [of ?ts ?tick "rt_tick s - 1" r] old_le er unfolding l ex by simp
  moreover have "map (expiry s') ?ts = map (expiry s) ?ts" using eo by auto
  then have "sorted (map (expiry s') ?ts)" using old(2) by metis
  then have "sorted (map (expiry s') (timer_list s'))"
    unfolding calculation by (rule sorted_insert_split)
  moreover have "distinct (timer_list s')"
    unfolding calculation(1) using old(1)
    by (auto simp: distinct_dropWhile distinct_takeWhile dest: set_takeWhileD set_dropWhileD)
       (metis distinct_append disjoint_iff takeWhile_dropWhile_id)
  moreover have "\<forall>t \<in> set (timer_list s'). expiry s' t \<le> 0x7fffffff"
    using old_le er(2) unfolding l by auto
  ultimately show ?thesis
    using run er(1) tk fd ob by (auto simp: timer_sorted_def tm)
qed

section \<open>Frame conditions\<close>

text \<open>Timer operations write timers, the flags of timer objects and the timer lists only.\<close>

definition timer_frame :: "'a kstate_scheme \<Rightarrow> 'a kstate_scheme \<Rightarrow> bool" where
  "timer_frame s s' \<longleftrightarrow> threads s' = threads s \<and> klists s' = klists s \<and>
     ready_group s' = ready_group s \<and> current_thread s' = current_thread s \<and>
     rt_current_priority s' = rt_current_priority s \<and>
     scheduler_lock_nest s' = scheduler_lock_nest s \<and> interrupt_nest s' = interrupt_nest s \<and>
     rt_tick s' = rt_tick s \<and> containers s' = containers s \<and>
     siginfo_free s' = siginfo_free s \<and> kstate.more s' = kstate.more s \<and>
     (\<forall>r. o_type (objects s' r) = o_type (objects s r) \<and> o_name (objects s' r) = o_name (objects s r) \<and>
        o_flag (objects s' r) AND NOT RT_TIMER_FLAG_ACTIVATED =
        o_flag (objects s r) AND NOT RT_TIMER_FLAG_ACTIVATED)"

lemma timer_frame_refl [simp]: "timer_frame s s"
  by (simp add: timer_frame_def)

lemma timer_frame_trans: "timer_frame s1 s2 \<Longrightarrow> timer_frame s2 s3 \<Longrightarrow> timer_frame s1 s3"
  by (simp add: timer_frame_def)

lemma timer_frame_steps [simp]:
  "timer_frame s (timer_remove r s)" "timer_frame s (set_activated r s)"
  "timer_frame s (clear_activated r s)" "timer_frame s (timer_fire r s)"
  "timer_frame s (upd_timer r f s)"
  by (auto simp: timer_frame_def timer_remove_def set_activated_def clear_activated_def timer_fire_def
      RT_TIMER_FLAG_ACTIVATED_def bit.conj_disj_distrib2 and.assoc Let_def)

lemma rt_timer_start_frame:
  assumes "rt_timer_start r s = Some (e, s')"
  shows "timer_frame s s'" "e = RT_EOK"
proof -
  let ?s2 = "upd_timer r (\<lambda>tm. tm\<lparr>timeout_tick := rt_tick s + timer_init_tick tm\<rparr>)
    (clear_activated r (timer_remove r s))"
  have "timer_frame s ?s2" by (meson timer_frame_steps timer_frame_trans)
  moreover have "timer_frame ?s2 (set_activated r (?s2\<lparr>random_nr := n, timer_list := l\<rparr>))" for n l
    using timer_frame_steps(2) [of "?s2\<lparr>random_nr := n, timer_list := l\<rparr>" r] by (simp add: timer_frame_def)
  ultimately show "timer_frame s s'" "e = RT_EOK"
    using assms by (auto simp: rt_timer_start_def Let_def split: if_splits intro: timer_frame_trans)
qed

lemma timer_frame_clear_remove [simp]: "timer_frame s (clear_activated r (timer_remove r s))"
  by (meson timer_frame_steps timer_frame_trans)

lemma rt_timer_stop_frame:
  "rt_timer_stop r s = Some (e, s') \<Longrightarrow> timer_frame s s'"
  by (auto simp: rt_timer_stop_def split: if_splits)

lemma timer_rearm_frame: "timer_rearm r s = Some s' \<Longrightarrow> timer_frame s s'"
  by (auto simp: timer_rearm_def Let_def split: if_splits
      dest!: rt_timer_start_frame(1) intro: timer_frame_trans [OF timer_frame_clear_remove])

lemma timer_frame_sched_inv: "timer_frame s s' \<Longrightarrow> sched_inv s' = sched_inv s"
  by (rule sched_inv_cong) (simp_all add: timer_frame_def)

lemma timer_frame_get_type: "timer_frame s s' \<Longrightarrow> rt_object_get_type r s' = rt_object_get_type r s"
  by (simp add: timer_frame_def rt_object_get_type_def)

lemma timer_frame_periodic: "timer_frame s s' \<Longrightarrow> is_periodic r s' = is_periodic r s"
proof -
  assume "timer_frame s s'"
  then have "o_flag (objects s' r) AND NOT RT_TIMER_FLAG_ACTIVATED AND RT_TIMER_FLAG_PERIODIC =
      o_flag (objects s r) AND NOT RT_TIMER_FLAG_ACTIVATED AND RT_TIMER_FLAG_PERIODIC"
    unfolding timer_frame_def and.assoc [symmetric] by metis
  then show ?thesis by (simp add: is_periodic_def timer_flag_defs)
qed

section \<open>The expiry check\<close>

lemma timer_due_iff:
  assumes "expiry s t \<le> 0x7fffffff"
  shows "rt_tick s - timeout_tick (timers s t) < RT_TICK_MAX div 2 \<longleftrightarrow> expiry s t \<le> 1"
proof (cases "expiry s t \<le> 1")
  case True
  then show ?thesis
    using unat_diff_ge [of "timeout_tick (timers s t)" "rt_tick s - 1" "rt_tick s"] assms
    by (simp add: expiry_def RT_TICK_MAX_half word_less_nat_alt)
next
  case False
  then show ?thesis
    using unat_diff_lt [of "rt_tick s" "rt_tick s - 1" "timeout_tick (timers s t)"] assms
    by (simp add: expiry_def RT_TICK_MAX_half word_less_nat_alt)
qed

text \<open>Timers that can be kept running: every linked one can be started again, and a periodic one
  has a period.\<close>

definition timer_ok :: "'a kstate_scheme \<Rightarrow> bool" where
  "timer_ok s \<longleftrightarrow> timer_sorted s \<and> (\<forall>t \<in> set (timer_list s). startable t s \<and>
     (is_periodic t s \<longrightarrow> 0 < timer_init_tick (timers s t)))"

text \<open>A timeout function may stop timers, and nothing else of the timer state.\<close>

definition timer_quiet :: "'a kstate_scheme \<Rightarrow> 'a kstate_scheme \<Rightarrow> bool" where
  "timer_quiet s s' \<longleftrightarrow> rt_tick s' = rt_tick s \<and> timers s' = timers s \<and>
     (\<forall>r. rt_object_get_type r s' = rt_object_get_type r s \<and> is_periodic r s' = is_periodic r s) \<and>
     (\<exists>P. timer_list s' = filter P (timer_list s)) \<and> (\<exists>P. timer_fired s' = filter P (timer_fired s))"

lemma timer_fire_sel [simp]:
  "timers (timer_fire r s) = timers s" "rt_tick (timer_fire r s) = rt_tick s"
  "timer_list (timer_fire r s) = removeAll r (timer_list s)"
  "timer_fired (timer_fire r s) = r # removeAll r (timer_fired s)"
  by (simp_all add: timer_fire_def Let_def)

lemma timer_ok_quiet:
  assumes "timer_ok s" "timer_list s = r # ts" "timer_quiet (timer_fire r s) s'"
  shows "timer_ok s'" "rt_tick s' = rt_tick s" "timers s' = timers s"
    "set (timer_list s') \<subseteq> set ts" "startable r s'" "is_periodic r s' \<longrightarrow> 0 < timer_init_tick (timers s r)"
    "length (filter Q (timer_list s')) \<le> length (filter Q ts)"
proof -
  have fr: "timer_frame s (timer_fire r s)" by simp
  note same = timer_frame_get_type [OF fr] timer_frame_periodic [OF fr]
  have d: "distinct (timer_list s)" using assms(1) by (simp add: timer_ok_def timer_sorted_def)
  obtain P where P: "timer_list s' = filter P ts"
    using assms(2,3) d by (auto simp: timer_quiet_def)
  have eq: "rt_tick s' = rt_tick s" "timers s' = timers s"
    "\<And>q. rt_object_get_type q s' = rt_object_get_type q s" "\<And>q. is_periodic q s' = is_periodic q s"
    using assms(3) same by (auto simp: timer_quiet_def)
  have "timer_list s' = filter (\<lambda>t. t \<noteq> r \<and> P t) (timer_list s)"
    using P d assms(2) by (auto intro!: filter_cong)
  then have "timer_sorted s'"
    using assms(1) eq by (intro timer_sorted_filter [of s s']) (auto simp: timer_ok_def)
  moreover have su: "set (timer_list s') \<subseteq> set ts" using P by auto
  ultimately show "timer_ok s'" using assms(1,2) eq by (auto simp: timer_ok_def startable_def)
  show "startable r s'" "is_periodic r s' \<longrightarrow> 0 < timer_init_tick (timers s r)"
    using assms(1,2) eq by (auto simp: timer_ok_def startable_def)
  have "length (filter Q (filter P ts)) \<le> length (filter Q ts)" by (induction ts) auto
  then show "length (filter Q (timer_list s')) \<le> length (filter Q ts)" unfolding P .
  show "rt_tick s' = rt_tick s" "timers s' = timers s" "set (timer_list s') \<subseteq> set ts" using eq su by auto
qed

text \<open>Arming the timer that ran: a periodic timer that is still active is started again.\<close>

lemma length_filter_insert:
  "\<not> Q r \<Longrightarrow> length (filter Q (takeWhile P xs @ r # dropWhile P xs)) = length (filter Q xs)"
  by (metis filter.simps(2) filter_append length_append takeWhile_dropWhile_id)

lemma timer_rearm_spec:
  assumes ok: "timer_ok s" and r: "startable r s" "is_periodic r s \<longrightarrow> 0 < timer_init_tick (timers s r)"
    and un: "r \<notin> set (timer_list s)"
  shows "\<exists>s'. timer_rearm r s = Some s' \<and> timer_ok s' \<and> rt_tick s' = rt_tick s \<and>
    timer_fired s' = removeAll r (timer_fired s) \<and>
    length (filter (\<lambda>t. expiry s' t \<le> 1) (timer_list s')) =
    length (filter (\<lambda>t. expiry s t \<le> 1) (timer_list s))"
proof (cases "is_periodic r s \<and> is_activated r s")
  case True
  let ?s = "clear_activated r (timer_remove r s)"
  have fr: "timer_frame s ?s" by simp
  have "timer_sorted ?s" "startable r ?s"
    using timer_sorted_cong [of ?s s] ok un r by (auto simp: timer_ok_def startable_def)
  from rt_timer_start_spec [OF this] obtain s' where s':
    "rt_timer_start r ?s = Some (RT_EOK, s')" "timer_sorted s'"
    "expiry s' r = Suc (unat (timer_init_tick (timers s r)))"
    "\<forall>t. t \<noteq> r \<longrightarrow> timers s' t = timers s t" "rt_tick s' = rt_tick s"
    "timer_list s' = takeWhile (\<lambda>t. expiry s' t \<le> expiry s' r) (timer_list s) @ r #
      dropWhile (\<lambda>t. expiry s' t \<le> expiry s' r) (timer_list s)"
    "timer_fired s' = removeAll r (timer_fired s)"
    "timer_init_tick (timers s' r) = timer_init_tick (timers s r)" using un by auto
  have fr': "timer_frame s s'" using rt_timer_start_frame(1) [OF s'(1)] fr timer_frame_trans by blast
  have st: "set (timer_list s') = insert r (set (timer_list s))"
    unfolding s'(6) by (metis (no_types, lifting) list.simps(15) set_append takeWhile_dropWhile_id Un_insert_right)
  have "0 < unat (timer_init_tick (timers s r))" using True r(2) by (simp add: word_less_nat_alt)
  then have late: "\<not> expiry s' r \<le> 1" using s'(3) by simp
  have "filter (\<lambda>t. expiry s' t \<le> 1) (timer_list s) = filter (\<lambda>t. expiry s t \<le> 1) (timer_list s)"
    using un s'(4,5) by (intro filter_cong) (auto simp: expiry_def)
  then have "length (filter (\<lambda>t. expiry s' t \<le> 1) (timer_list s')) =
      length (filter (\<lambda>t. expiry s t \<le> 1) (timer_list s))"
    unfolding s'(6) using late length_filter_insert [of "\<lambda>t. expiry s' t \<le> 1" r] by simp
  moreover have "timer_init_tick (timers s' t) = timer_init_tick (timers s t)" for t
    using s'(4,8) by (cases "t = r") auto
  then have "timer_ok s'"
    using ok r True s'(2) st
    by (auto simp: timer_ok_def startable_def timer_frame_get_type [OF fr'] timer_frame_periodic [OF fr'])
  moreover have "timer_rearm r s = Some s'"
    using True s'(1) by (simp add: timer_rearm_def is_periodic_def is_activated_def)
  ultimately show ?thesis using s'(5,7) by blast
next
  case False
  then have "timer_rearm r s = Some (timer_remove r s)"
    by (auto simp: timer_rearm_def is_periodic_def is_activated_def)
  moreover have "timer_ok (timer_remove r s)"
    using ok un timer_sorted_cong [of "timer_remove r s" s]
    by (auto simp: timer_ok_def startable_def is_periodic_def)
  ultimately show ?thesis using un by (simp add: expiry_def)
qed

text \<open>
  The contract between the check and the functions timers are armed with: run on the state in which
  the expired timer has been taken out, a function keeps the client's invariant and only stops
  timers; re-arming a periodic timer keeps the invariant.
\<close>

locale timer_callbacks =
  fixes exec :: "timer_fn \<Rightarrow> 'a kstate_scheme \<Rightarrow> 'a kstate_scheme option"
    and inv :: "'a kstate_scheme \<Rightarrow> bool"
  assumes exec_runs: "inv s \<Longrightarrow> timer_ok s \<Longrightarrow> timer_list s = r # ts \<Longrightarrow> timer_fired s = [] \<Longrightarrow>
      \<exists>s'. exec (timeout_func (timers s r)) (timer_fire r s) = Some s' \<and> inv s' \<and>
           timer_quiet (timer_fire r s) s'"
    and inv_rearm: "inv s \<Longrightarrow> timer_ok s \<Longrightarrow> timer_list s = r # ts \<Longrightarrow> timer_quiet (timer_fire r s) s1 \<Longrightarrow>
      inv s1 \<Longrightarrow> timer_rearm r s1 = Some s' \<Longrightarrow> inv s'"
begin

lemma check_loop_ends:
  assumes "inv s" "timer_ok s" "timer_fired s = []"
  shows "\<exists>s'. timer_check_loop exec (rt_tick s) s = Some s' \<and> inv s' \<and> timer_ok s' \<and>
    timer_fired s' = [] \<and> rt_tick s' = rt_tick s \<and> (\<forall>t \<in> set (timer_list s'). 2 \<le> expiry s' t)"
  using assms
proof (induction "length (filter (\<lambda>t. expiry s t \<le> 1) (timer_list s))" arbitrary: s rule: less_induct)
  case less
  show ?case
  proof (cases "timer_list s")
    case Nil
    then show ?thesis using less.prems by (simp add: timer_check_loop.simps)
  next
    case (Cons r ts)
    have le: "expiry s r \<le> 0x7fffffff" and srt: "sorted (map (expiry s) (r # ts))"
      using less.prems(2) Cons by (auto simp: timer_ok_def timer_sorted_def)
    show ?thesis
    proof (cases "expiry s r \<le> 1")
      case late: False
      then have "timer_check_loop exec (rt_tick s) s = Some s"
        using Cons timer_due_iff [OF le] by (simp add: timer_check_loop.simps)
      moreover have "\<forall>t \<in> set (timer_list s). 2 \<le> expiry s t" using srt late Cons by auto
      ultimately show ?thesis using less.prems by blast
    next
      case due: True
      from exec_runs [OF less.prems(1,2) Cons less.prems(3)] obtain s4 where s4:
        "exec (timeout_func (timers s r)) (timer_fire r s) = Some s4" "inv s4"
        "timer_quiet (timer_fire r s) s4" by blast
      note q = timer_ok_quiet [OF less.prems(2) Cons s4(3)]
      have ex4: "expiry s4 = expiry s" using q(2,3) by (simp add: expiry_def fun_eq_iff)
      have "r \<notin> set ts" using less.prems(2) Cons by (simp add: timer_ok_def timer_sorted_def)
      then have un: "r \<notin> set (timer_list s4)" using q(4) by blast
      have dec: "length (filter (\<lambda>t. expiry s4 t \<le> 1) (timer_list s4)) <
          length (filter (\<lambda>t. expiry s t \<le> 1) (timer_list s))"
        using q(7) [of "\<lambda>t. expiry s t \<le> 1"] due unfolding ex4 Cons by simp
      obtain s6 where s6: "timer_rearm r s4 = Some s6" "timer_ok s6" "rt_tick s6 = rt_tick s4"
        "timer_fired s6 = removeAll r (timer_fired s4)"
        "length (filter (\<lambda>t. expiry s6 t \<le> 1) (timer_list s6)) =
         length (filter (\<lambda>t. expiry s4 t \<le> 1) (timer_list s4))"
        using timer_rearm_spec [OF q(1,5) _ un] q(3,6) by auto
      have fired: "timer_fired s4 = [] \<or> timer_fired s4 = [r]"
        using s4(3) less.prems(3) by (auto simp: timer_quiet_def)
      have step: "timer_check_loop exec (rt_tick s) s =
          (if timer_fired s4 = [] then timer_check_loop exec (rt_tick s4) s4
           else timer_check_loop exec (rt_tick s6) s6)"
        using Cons due timer_due_iff [OF le] s4(1) s6(1,3) by (subst timer_check_loop.simps) simp
      show ?thesis
      proof (cases "timer_fired s4 = []")
        case True
        with less.hyps [OF dec s4(2) q(1)] step q(2) show ?thesis by simp
      next
        case False
        have "timer_fired s6 = []" using fired False s6(4) by auto
        with less.hyps [of s6] dec s6(2,3,5) inv_rearm [OF less.prems(1,2) Cons s4(3,2) s6(1)] step q(2) False
        show ?thesis by simp
      qed
    qed
  qed
qed

end

end
