(* ===== verification/Clock.thy ===== *)
theory Clock
  imports Timer
begin

text \<open>
  The system tick (\<^verbatim>\<open>rt-thread/src/clock.c\<close>) and the interrupt nesting counter
  (\<^verbatim>\<open>rt-thread/src/irq.c\<close>). The tick interrupt counts down the time slice of the running thread and
  the budget \<^verbatim>\<open>tick_count\<close> the robot's tasks watch, yields when the slice is used up, and runs the
  timers that are due.
\<close>

definition RT_TICK_PER_SECOND :: nat where "RT_TICK_PER_SECOND = 100"
definition RT_WAITING_FOREVER :: int where "RT_WAITING_FOREVER = -1"
definition RT_WAITING_NO :: int where "RT_WAITING_NO = 0"

definition rt_tick_get :: "'a kstate_scheme \<Rightarrow> u32" where
  "rt_tick_get s = rt_tick s"

definition rt_tick_set :: "u32 \<Rightarrow> 'a kstate_scheme \<Rightarrow> 'a kstate_scheme" where
  "rt_tick_set tick s = s\<lparr>rt_tick := tick\<rparr>"

text \<open>The part of \<^verbatim>\<open>rt_tick_increase\<close> before the timers: counting, and the end of the time slice.\<close>

definition tick_slice :: "'a kstate_scheme \<Rightarrow> 'a kstate_scheme option" where
  "tick_slice s = do {
     let s1 = s\<lparr>rt_tick := rt_tick s + 1\<rparr>;
     t \<leftarrow> current_thread s1;
     let s2 = upd_thread t (\<lambda>th. th\<lparr>remaining_tick := remaining_tick th - 1\<rparr>) s1;
     let s3 = (if tick_count (threads s2 t) > 0
               then upd_thread t (\<lambda>th. th\<lparr>tick_count := tick_count th - 1\<rparr>) s2 else s2);
     if remaining_tick (threads s3 t) = 0
     then rt_schedule (upd_thread t (\<lambda>th. th\<lparr>remaining_tick := init_tick th,
                                            t_stat := t_stat th OR RT_THREAD_STAT_YIELD\<rparr>) s3)
     else Some s3
   }"

definition rt_tick_increase ::
  "(timer_fn \<Rightarrow> 'a kstate_scheme \<Rightarrow> 'a kstate_scheme option) \<Rightarrow> 'a kstate_scheme \<Rightarrow> 'a kstate_scheme option" where
  "rt_tick_increase exec s = do {
     s1 \<leftarrow> tick_slice s;
     rt_timer_check exec s1
   }"

text \<open>\<open>ms\<close> is an \<^verbatim>\<open>rt_int32_t\<close>; the C quotient and remainder of a non-negative number are \<open>div\<close> and
  \<open>mod\<close>.\<close>

definition rt_tick_from_millisecond :: "int \<Rightarrow> u32" where
  "rt_tick_from_millisecond ms =
     (if ms < 0 then of_int RT_WAITING_FOREVER
      else of_int (int RT_TICK_PER_SECOND * (ms div 1000)) +
           of_int ((int RT_TICK_PER_SECOND * (ms mod 1000) + 999) div 1000))"

definition rt_tick_get_millisecond :: "'a kstate_scheme \<Rightarrow> u32" where
  "rt_tick_get_millisecond s = rt_tick_get s * of_nat (1000 div RT_TICK_PER_SECOND)"

section \<open>Interrupt nesting\<close>

definition rt_interrupt_enter :: "'a kstate_scheme \<Rightarrow> 'a kstate_scheme" where
  "rt_interrupt_enter s = s\<lparr>interrupt_nest := interrupt_nest s + 1\<rparr>"

definition rt_interrupt_leave :: "'a kstate_scheme \<Rightarrow> 'a kstate_scheme" where
  "rt_interrupt_leave s = s\<lparr>interrupt_nest := interrupt_nest s - 1\<rparr>"

definition rt_interrupt_get_nest :: "'a kstate_scheme \<Rightarrow> u8" where
  "rt_interrupt_get_nest s = interrupt_nest s"

lemmas clock_defs [kdefs] = RT_TICK_PER_SECOND_def RT_WAITING_FOREVER_def RT_WAITING_NO_def
  rt_tick_get_def rt_tick_set_def tick_slice_def rt_tick_increase_def rt_tick_from_millisecond_def
  rt_tick_get_millisecond_def rt_interrupt_enter_def rt_interrupt_leave_def rt_interrupt_get_nest_def

section \<open>Ticks and milliseconds\<close>

text \<open>The number of ticks is the number of milliseconds divided by the length of a tick, rounded up:
  a delay is never shorter than asked.\<close>

lemma ceil_div:
  fixes ms :: int
  assumes "0 \<le> ms"
  shows "100 * (ms div 1000) + (100 * (ms mod 1000) + 999) div 1000 = (ms + 9) div 10"
proof -
  define q r where "q = ms div 1000" and "r = ms mod 1000"
  have ms: "ms = 10 * (100 * q) + r" by (simp add: q_def r_def)
  have "(100 * r + 999) div (100 * 10) = (100 * r + 999) div 100 div 10"
    by (subst zdiv_zmult2_eq) simp_all
  also have "(100 * r + 999) div 100 = r + 9"
    using div_mult_self2 [of 100 99 "r + 9"] by (simp add: algebra_simps)
  finally have "(100 * r + 999) div 1000 = (r + 9) div 10" by simp
  moreover have "(ms + 9) div 10 = 100 * q + (r + 9) div 10"
    unfolding ms using div_mult_self2 [of 10 "r + 9" "100 * q"] by (simp add: algebra_simps)
  ultimately show ?thesis by (simp add: q_def r_def)
qed

lemma rt_tick_from_millisecond_nonneg:
  assumes "0 \<le> ms" "ms < 2 ^ 31"
  shows "uint (rt_tick_from_millisecond ms) = (ms + 9) div 10"
proof -
  have "rt_tick_from_millisecond ms =
      of_int (100 * (ms div 1000) + (100 * (ms mod 1000) + 999) div 1000)"
    using assms(1) by (simp add: rt_tick_from_millisecond_def RT_TICK_PER_SECOND_def)
  also have "\<dots> = (of_int ((ms + 9) div 10) :: u32)" using ceil_div [OF assms(1)] by simp
  finally have "rt_tick_from_millisecond ms = of_int ((ms + 9) div 10)" .
  moreover have "0 \<le> (ms + 9) div 10" "(ms + 9) div 10 < 2 ^ 32" using assms by auto
  ultimately show ?thesis by (simp add: uint_word_of_int take_bit_eq_mod)
qed

section \<open>One tick\<close>

lemma sched_inv_upd_same:
  assumes "\<And>th. same_sched (f th) th" "\<And>th. stat_base (f th) = stat_base th"
  shows "sched_inv (upd_thread t f s) = sched_inv s"
  unfolding sched_inv_def using queue_inv_upd_same [OF assms(1)] assms(2)
  by (auto simp: current_ok_def)

lemma sched_inv_tick [simp]: "sched_inv (s\<lparr>rt_tick := n\<rparr>) = sched_inv s"
  by (rule sched_inv_cong) auto

lemma stat_base_yield [simp]:
  "stat_base (th\<lparr>t_stat := t_stat th OR RT_THREAD_STAT_YIELD\<rparr>) = stat_base th"
  by (simp add: stat_base_def stat_defs bit.conj_disj_distrib2)

lemma same_sched_slice [simp]:
  "same_sched (th\<lparr>remaining_tick := n\<rparr>) th" "same_sched (th\<lparr>tick_count := m\<rparr>) th"
  "same_sched (th\<lparr>remaining_tick := n, t_stat := t_stat th OR RT_THREAD_STAT_YIELD\<rparr>) th"
  by (auto simp: same_sched_def stack_ok_def stat_base_def stat_defs bit.conj_disj_distrib2)

lemma same_sched_base: "same_sched th th' \<Longrightarrow> stat_base th = stat_base th'"
  by (simp add: same_sched_def)


text \<open>The thread count of a tick: the running thread's slice and budget, and the yield mark.\<close>

definition tick_count_down :: "rt_thread \<Rightarrow> rt_thread" where
  "tick_count_down th =
     (let th1 = th\<lparr>remaining_tick := remaining_tick th - 1\<rparr>;
          th2 = (if tick_count th1 > 0 then th1\<lparr>tick_count := tick_count th1 - 1\<rparr> else th1)
      in if remaining_tick th2 = 0
         then th2\<lparr>remaining_tick := init_tick th2, t_stat := t_stat th2 OR RT_THREAD_STAT_YIELD\<rparr>
         else th2)"

lemma tick_count_down_same: "same_sched (tick_count_down th) th"
  by (auto simp: tick_count_down_def Let_def same_sched_def stack_ok_def stat_base_def stat_defs
      bit.conj_disj_distrib2)

lemma tick_count_down_base [simp]: "stat_base (tick_count_down th) = stat_base th"
  by (rule same_sched_base [OF tick_count_down_same])

lemma tick_slice_unfold:
  assumes "current_thread s = Some c"
  shows "tick_slice s =
    (let s1 = upd_thread c tick_count_down (s\<lparr>rt_tick := rt_tick s + 1\<rparr>)
     in if remaining_tick (threads s c) = 1 then rt_schedule s1 else Some s1)"
  using assms by (auto simp: tick_slice_def Let_def upd_thread_def tick_count_down_def)

lemma tick_slice_spec:
  assumes inv: "sched_inv s" and cur: "current_thread s = Some c"
  shows "\<exists>s' c'. tick_slice s = Some s' \<and> sched_inv s' \<and> current_thread s' = Some c' \<and>
    keeps_blocked s s' \<and> sched_frame (upd_thread c tick_count_down (s\<lparr>rt_tick := rt_tick s + 1\<rparr>)) s'"
proof -
  let ?s1 = "upd_thread c tick_count_down (s\<lparr>rt_tick := rt_tick s + 1\<rparr>)"
  have i1: "sched_inv ?s1"
    using inv by (subst sched_inv_upd_same) (simp_all add: tick_count_down_same)
  have k1: "keeps_blocked s ?s1" by (auto simp: keeps_blocked_def runnable_def)
  obtain s2 c2 where s2: "rt_schedule ?s1 = Some s2" "sched_inv s2" "sched_frame ?s1 s2"
    "current_thread s2 = Some c2"
    using rt_schedule_inv [OF i1, of c] cur by auto
  have "keeps_blocked s s2"
    using rt_schedule_keeps_blocked [OF i1 s2(1)] k1 by (simp add: keeps_blocked_def)
  with s2 i1 k1 cur show ?thesis by (auto simp: tick_slice_unfold [OF cur] Let_def)
qed

end
