(* ===== verification/Thread.thy ===== *)
theory Thread
  imports Clock
begin

text \<open>
  Threads (\<^verbatim>\<open>rt-thread/src/thread.c\<close>), with the two functions of other files they call:
  \<^verbatim>\<open>rt_thread_free_sig\<close> (\<^verbatim>\<open>signal.c\<close>) and \<^verbatim>\<open>rt_thread_defunct_enqueue\<close> (\<^verbatim>\<open>idle.c\<close>). The object of thread \<open>t\<close>
  is \<open>Kobj t\<close> and its timer is \<open>Thread_timer t\<close>. No thread of this program has a cleanup function.

  A call that gives up the processor ends with \<^verbatim>\<open>rt_schedule\<close>; what the thread does when it runs again is
  the definition with the suffix \<open>_resumed\<close>.

  The lemmas show the invariant of the kernel, \<open>kernel_inv\<close>: the queues are consistent, the timers are
  ordered, and a thread whose timer runs is suspended; every operation keeps it.
\<close>

section \<open>Creating threads\<close>

text \<open>\<^verbatim>\<open>rt_hw_stack_init\<close> (\<^verbatim>\<open>libcpu/arm/cortex-m4/cpuport.c\<close>): a context frame of 68 bytes (FPU build) below
  the given address, aligned to 8. The contents of the frame are not modelled.\<close>

definition stack_frame_size :: u32 where "stack_frame_size = 68"

definition rt_hw_stack_init :: "u32 \<Rightarrow> u32" where
  "rt_hw_stack_init stk_addr = ((stk_addr + 4) AND NOT 7) - stack_frame_size"

definition rt_thread_free_sig :: "nat \<Rightarrow> 'a kstate_scheme \<Rightarrow> 'a kstate_scheme" where
  "rt_thread_free_sig t s =
     (let si_nodes = si_list (threads s t);
          s1 = upd_thread t (\<lambda>th. th\<lparr>si_list := [], sig_vectors := None\<rparr>) s
      in s1\<lparr>siginfo_free := siginfo_free s1 + length si_nodes\<rparr>)"

definition thread_cleanup_execute :: "nat \<Rightarrow> 'a kstate_scheme \<Rightarrow> 'a kstate_scheme" where
  "thread_cleanup_execute t s = rt_thread_free_sig t s"

definition rt_thread_defunct_enqueue :: "nat \<Rightarrow> 'a kstate_scheme \<Rightarrow> 'a kstate_scheme" where
  "rt_thread_defunct_enqueue t s = tlist_insert_after Defunct t s"

text \<open>The node of a thread that is being initialised is in no list. Filling a stack of at least one
  byte with \<^verbatim>\<open>'#'\<close> sets the guard byte.\<close>

definition thread_init ::
  "nat \<Rightarrow> nat \<Rightarrow> u32 \<Rightarrow> u32 \<Rightarrow> u16 \<Rightarrow> u32 \<Rightarrow> 'a kstate_scheme \<Rightarrow> (rt_err_t \<times> 'a kstate_scheme) option" where
  "thread_init t entry stack_start stksize priority tick s = do {
     _ \<leftarrow> RT_ASSERT (unat priority < RT_THREAD_PRIORITY_MAX);
     let s1 = upd_thread t (\<lambda>th. th\<lparr>t_entry := entry, stack_addr := stack_start, stack_size := stksize,
                  stack_guard := (if stksize = 0 then stack_guard th else 0x23),
                  t_sp := rt_hw_stack_init (stack_start + stksize - 4),
                  init_priority := ucast priority, current_priority := ucast priority,
                  number_mask := 0, init_tick := tick, remaining_tick := tick,
                  t_error := RT_EOK, t_stat := RT_THREAD_INIT\<rparr>) s;
     s2 \<leftarrow> rt_timer_init (Thread_timer t) (o_name (objects s1 (Kobj t))) (Rt_thread_timeout t) 0
             RT_TIMER_FLAG_ONE_SHOT s1;
     Some (RT_EOK, upd_thread t (\<lambda>th. th\<lparr>sig_mask := 0, sig_pending := 0, sig_ret := 0,
                  sig_vectors := None, si_list := [], end_flag := 0, tick_count := 0,
                  preemptableFlag := 0\<rparr>) s2)
   }"

definition rt_thread_init ::
  "nat \<Rightarrow> string \<Rightarrow> nat \<Rightarrow> u32 \<Rightarrow> u32 \<Rightarrow> u16 \<Rightarrow> u32 \<Rightarrow> 'a kstate_scheme \<Rightarrow> (rt_err_t \<times> 'a kstate_scheme) option" where
  "rt_thread_init t name entry stack_start stksize priority tick s = do {
     _ \<leftarrow> RT_ASSERT (stack_start \<noteq> 0);
     s1 \<leftarrow> rt_object_init (Kobj t) RT_Object_Class_Thread name s;
     thread_init t entry stack_start stksize priority tick s1
   }"

text \<open>\<open>ptr\<close> and \<open>stack_ptr\<close> are what the two allocations return.\<close>

definition rt_thread_create ::
  "nat option \<Rightarrow> u32 option \<Rightarrow> string \<Rightarrow> nat \<Rightarrow> u32 \<Rightarrow> u8 \<Rightarrow> u32 \<Rightarrow> 'a kstate_scheme \<Rightarrow>
   (nat option \<times> 'a kstate_scheme) option" where
  "rt_thread_create ptr stack_ptr name entry stksize priority tick s = do {
     (thread, s1) \<leftarrow> rt_object_allocate (map_option Kobj ptr) RT_Object_Class_Thread name s;
     case ptr of None \<Rightarrow> Some (None, s1)
     | Some t \<Rightarrow>
        (case stack_ptr of
           None \<Rightarrow> do { s2 \<leftarrow> rt_object_delete (Kobj t) s1; Some (None, s2) }
         | Some stack_start \<Rightarrow> do {
             (_, s2) \<leftarrow> thread_init t entry stack_start stksize (ucast priority) tick s1;
             Some (Some t, s2) })
   }"

definition rt_thread_self :: "'a kstate_scheme \<Rightarrow> nat option" where
  "rt_thread_self s = current_thread s"

section \<open>Blocking and waking\<close>

definition rt_thread_suspend :: "nat \<Rightarrow> 'a kstate_scheme \<Rightarrow> (rt_err_t \<times> 'a kstate_scheme) option" where
  "rt_thread_suspend t s = do {
     _ \<leftarrow> RT_ASSERT (rt_object_get_type (Kobj t) s = RT_Object_Class_Thread);
     let stat = stat_base (threads s t);
     if stat \<noteq> RT_THREAD_READY \<and> stat \<noteq> RT_THREAD_RUNNING then Some (- RT_ERROR, s)
     else do {
       _ \<leftarrow> RT_ASSERT (stat = RT_THREAD_RUNNING \<longrightarrow> rt_thread_self s = Some t);
       s1 \<leftarrow> rt_schedule_remove_thread t s;
       let s2 = upd_thread t (set_stat RT_THREAD_SUSPEND) s1;
       (_, s3) \<leftarrow> rt_timer_stop (Thread_timer t) s2;
       Some (RT_EOK, s3)
     }
   }"

definition rt_thread_resume :: "nat \<Rightarrow> 'a kstate_scheme \<Rightarrow> (rt_err_t \<times> 'a kstate_scheme) option" where
  "rt_thread_resume t s = do {
     _ \<leftarrow> RT_ASSERT (rt_object_get_type (Kobj t) s = RT_Object_Class_Thread);
     if stat_base (threads s t) \<noteq> RT_THREAD_SUSPEND then Some (- RT_ERROR, s)
     else do {
       let s1 = tlist_remove t s;
       (_, s2) \<leftarrow> rt_timer_stop (Thread_timer t) s1;
       s3 \<leftarrow> rt_schedule_insert_thread t s2;
       Some (RT_EOK, s3)
     }
   }"

definition rt_thread_timeout :: "nat \<Rightarrow> 'a kstate_scheme \<Rightarrow> 'a kstate_scheme option" where
  "rt_thread_timeout t s = do {
     _ \<leftarrow> RT_ASSERT (stat_base (threads s t) = RT_THREAD_SUSPEND);
     _ \<leftarrow> RT_ASSERT (rt_object_get_type (Kobj t) s = RT_Object_Class_Thread);
     let s1 = upd_thread t (\<lambda>th. th\<lparr>t_error := - RT_ETIMEOUT\<rparr>) s;
     s2 \<leftarrow> rt_schedule_insert_thread t (tlist_remove t s1);
     rt_schedule s2
   }"

definition rt_thread_yield :: "'a kstate_scheme \<Rightarrow> (rt_err_t \<times> 'a kstate_scheme) option" where
  "rt_thread_yield s = do {
     t \<leftarrow> rt_thread_self s;
     s1 \<leftarrow> rt_schedule (upd_thread t (\<lambda>th. th\<lparr>remaining_tick := init_tick th,
                          t_stat := t_stat th OR RT_THREAD_STAT_YIELD\<rparr>) s);
     Some (RT_EOK, s1)
   }"

text \<open>Arming the timer of a thread: \<^verbatim>\<open>rt_timer_control(.., RT_TIMER_CTRL_SET_TIME, ..)\<close> and
  \<^verbatim>\<open>rt_timer_start\<close>.\<close>

definition thread_timer_arm :: "nat \<Rightarrow> u32 \<Rightarrow> 'a kstate_scheme \<Rightarrow> 'a kstate_scheme option" where
  "thread_timer_arm t tick s = do {
     (_, _, s1) \<leftarrow> rt_timer_control (Thread_timer t) TIMER_SET_TIME tick s;
     (_, s2) \<leftarrow> rt_timer_start (Thread_timer t) s1;
     Some s2
   }"

definition rt_thread_sleep :: "u32 \<Rightarrow> 'a kstate_scheme \<Rightarrow> 'a kstate_scheme option" where
  "rt_thread_sleep tick s = do {
     t \<leftarrow> rt_thread_self s;
     _ \<leftarrow> RT_ASSERT (rt_object_get_type (Kobj t) s = RT_Object_Class_Thread);
     (_, s1) \<leftarrow> rt_thread_suspend t s;
     s2 \<leftarrow> thread_timer_arm t tick s1;
     rt_schedule s2
   }"

definition thread_sleep_resumed :: "nat \<Rightarrow> 'a kstate_scheme \<Rightarrow> rt_err_t \<times> 'a kstate_scheme" where
  "thread_sleep_resumed t s =
     (RT_EOK, if t_error (threads s t) = - RT_ETIMEOUT
              then upd_thread t (\<lambda>th. th\<lparr>t_error := RT_EOK\<rparr>) s else s)"

definition rt_thread_delay :: "u32 \<Rightarrow> 'a kstate_scheme \<Rightarrow> 'a kstate_scheme option" where
  "rt_thread_delay tick s = rt_thread_sleep tick s"

definition rt_thread_mdelay :: "int \<Rightarrow> 'a kstate_scheme \<Rightarrow> 'a kstate_scheme option" where
  "rt_thread_mdelay ms s = rt_thread_sleep (rt_tick_from_millisecond ms) s"

text \<open>\<^verbatim>\<open>rt_thread_delay_until\<close> returns the new value of \<^verbatim>\<open>*tick\<close>; the flag says whether the thread was put
  to sleep, so that \<open>thread_sleep_resumed\<close> is what follows.\<close>

definition rt_thread_delay_until ::
  "u32 \<Rightarrow> u32 \<Rightarrow> 'a kstate_scheme \<Rightarrow> (bool \<times> u32 \<times> 'a kstate_scheme) option" where
  "rt_thread_delay_until tick inc_tick s = do {
     t \<leftarrow> rt_thread_self s;
     _ \<leftarrow> RT_ASSERT (rt_object_get_type (Kobj t) s = RT_Object_Class_Thread);
     let cur_tick = rt_tick_get s;
     if cur_tick - tick < inc_tick then do {
       let tick' = tick + inc_tick;
       let left_tick = tick' - cur_tick;
       (_, s1) \<leftarrow> rt_thread_suspend t s;
       s2 \<leftarrow> thread_timer_arm t left_tick s1;
       s3 \<leftarrow> rt_schedule s2;
       Some (True, tick', s3)
     } else Some (False, cur_tick, s)
   }"

section \<open>Starting and ending threads\<close>

definition rt_thread_startup :: "nat \<Rightarrow> 'a kstate_scheme \<Rightarrow> (rt_err_t \<times> 'a kstate_scheme) option" where
  "rt_thread_startup t s = do {
     _ \<leftarrow> RT_ASSERT (stat_base (threads s t) = RT_THREAD_INIT);
     _ \<leftarrow> RT_ASSERT (rt_object_get_type (Kobj t) s = RT_Object_Class_Thread);
     let s1 = upd_thread t (\<lambda>th. th\<lparr>current_priority := init_priority th,
                number_mask := push_bit (unat (init_priority th)) 1, t_stat := RT_THREAD_SUSPEND\<rparr>) s;
     (_, s2) \<leftarrow> rt_thread_resume t s1;
     s3 \<leftarrow> (if rt_thread_self s2 \<noteq> None then rt_schedule s2 else Some s2);
     Some (RT_EOK, s3)
   }"

definition thread_exit :: "'a kstate_scheme \<Rightarrow> 'a kstate_scheme option" where
  "thread_exit s = do {
     t \<leftarrow> rt_thread_self s;
     s2 \<leftarrow> rt_schedule_remove_thread t (thread_cleanup_execute t s);
     let s3 = upd_thread t (\<lambda>th. th\<lparr>t_stat := RT_THREAD_CLOSE\<rparr>) s2;
     (_, s4) \<leftarrow> rt_timer_detach (Thread_timer t) s3;
     rt_schedule (if rt_object_is_systemobject (Kobj t) s4 then rt_object_detach (Kobj t) s4
                  else rt_thread_defunct_enqueue t s4)
   }"

text \<open>The part \<^verbatim>\<open>rt_thread_detach\<close> and \<^verbatim>\<open>rt_thread_delete\<close> share: out of the queues, clean up, drop the
  timer, close.\<close>

definition thread_close :: "nat \<Rightarrow> 'a kstate_scheme \<Rightarrow> 'a kstate_scheme option" where
  "thread_close t s = do {
     s1 \<leftarrow> (if stat_base (threads s t) \<noteq> RT_THREAD_INIT then rt_schedule_remove_thread t s else Some s);
     (_, s3) \<leftarrow> rt_timer_detach (Thread_timer t) (thread_cleanup_execute t s1);
     Some (upd_thread t (\<lambda>th. th\<lparr>t_stat := RT_THREAD_CLOSE\<rparr>) s3)
   }"

definition rt_thread_detach :: "nat \<Rightarrow> 'a kstate_scheme \<Rightarrow> (rt_err_t \<times> 'a kstate_scheme) option" where
  "rt_thread_detach t s = do {
     _ \<leftarrow> RT_ASSERT (rt_object_get_type (Kobj t) s = RT_Object_Class_Thread);
     _ \<leftarrow> RT_ASSERT (rt_object_is_systemobject (Kobj t) s);
     if stat_base (threads s t) = RT_THREAD_CLOSE then Some (RT_EOK, s)
     else do {
       s1 \<leftarrow> thread_close t s;
       Some (RT_EOK, if rt_object_is_systemobject (Kobj t) s1 then rt_object_detach (Kobj t) s1
                     else rt_thread_defunct_enqueue t s1)
     }
   }"

definition rt_thread_delete :: "nat \<Rightarrow> 'a kstate_scheme \<Rightarrow> (rt_err_t \<times> 'a kstate_scheme) option" where
  "rt_thread_delete t s = do {
     _ \<leftarrow> RT_ASSERT (rt_object_get_type (Kobj t) s = RT_Object_Class_Thread);
     _ \<leftarrow> RT_ASSERT (\<not> rt_object_is_systemobject (Kobj t) s);
     if stat_base (threads s t) = RT_THREAD_CLOSE then Some (RT_EOK, s)
     else do {
       s1 \<leftarrow> thread_close t s;
       Some (RT_EOK, rt_thread_defunct_enqueue t s1)
     }
   }"

section \<open>Control\<close>

datatype thread_cmd = CTRL_STARTUP | CTRL_CLOSE | CTRL_CHANGE_PRIORITY | CTRL_OTHER

text \<open>\<open>arg\<close> is the bit pattern of the C \<^verbatim>\<open>int\<close>; it is stored into a byte as it is.\<close>

definition set_priority :: "u32 \<Rightarrow> rt_thread \<Rightarrow> rt_thread" where
  "set_priority arg th = th\<lparr>current_priority := ucast arg,
     number_mask := push_bit (unat (ucast arg :: u8)) 1\<rparr>"

definition rt_thread_control ::
  "nat \<Rightarrow> thread_cmd \<Rightarrow> u32 \<Rightarrow> 'a kstate_scheme \<Rightarrow> (rt_err_t \<times> 'a kstate_scheme) option" where
  "rt_thread_control t cmd arg s = do {
     _ \<leftarrow> RT_ASSERT (rt_object_get_type (Kobj t) s = RT_Object_Class_Thread);
     case cmd of
       CTRL_CHANGE_PRIORITY \<Rightarrow>
         if stat_base (threads s t) = RT_THREAD_READY then do {
           s1 \<leftarrow> rt_schedule_remove_thread t s;
           s2 \<leftarrow> rt_schedule_insert_thread t (upd_thread t (set_priority arg) s1);
           Some (RT_EOK, s2)
         } else Some (RT_EOK, upd_thread t (set_priority arg) s)
     | CTRL_STARTUP \<Rightarrow> rt_thread_startup t s
     | CTRL_CLOSE \<Rightarrow> do {
         (rt_err, s1) \<leftarrow> (if rt_object_is_systemobject (Kobj t) s then rt_thread_detach t s
                          else rt_thread_delete t s);
         s2 \<leftarrow> rt_schedule s1;
         Some (rt_err, s2) }
     | CTRL_OTHER \<Rightarrow> Some (RT_EOK, s)
   }"

definition rt_thread_find :: "string \<Rightarrow> 'a kstate_scheme \<Rightarrow> (objref option \<times> 'a kstate_scheme) option" where
  "rt_thread_find name s = rt_object_find name RT_Object_Class_Thread s"

section \<open>Additions for the robot\<close>

definition rt_thread_get_name :: "nat \<Rightarrow> 'a kstate_scheme \<Rightarrow> string" where
  "rt_thread_get_name t s = o_name (objects s (Kobj t))"

definition rt_thread_get_status :: "nat \<Rightarrow> 'a kstate_scheme \<Rightarrow> u8" where
  "rt_thread_get_status t s = t_stat (threads s t)"

definition set_end_flag :: "nat \<Rightarrow> 'a kstate_scheme \<Rightarrow> 'a kstate_scheme" where
  "set_end_flag t s = upd_thread t (\<lambda>th. th\<lparr>end_flag := 1\<rparr>) s"

definition reset_end_flag :: "nat \<Rightarrow> 'a kstate_scheme \<Rightarrow> 'a kstate_scheme" where
  "reset_end_flag t s = upd_thread t (\<lambda>th. th\<lparr>end_flag := 0\<rparr>) s"

definition set_tick_count :: "nat \<Rightarrow> u16 \<Rightarrow> 'a kstate_scheme \<Rightarrow> 'a kstate_scheme" where
  "set_tick_count t cnt s = upd_thread t (\<lambda>th. th\<lparr>tick_count := cnt\<rparr>) s"

definition get_tick_count :: "nat \<Rightarrow> 'a kstate_scheme \<Rightarrow> u16" where
  "get_tick_count t s = tick_count (threads s t)"

definition set_task_started :: "nat \<Rightarrow> u16 \<Rightarrow> 'a kstate_scheme \<Rightarrow> int \<times> 'a kstate_scheme" where
  "set_task_started t duration s =
     (sint (rt_tick_get s), reset_end_flag t (set_tick_count t duration s))"

definition set_task_ended :: "nat \<Rightarrow> 'a kstate_scheme \<Rightarrow> int \<times> 'a kstate_scheme" where
  "set_task_ended t s = (sint (rt_tick_get s), set_end_flag t s)"

definition set_task_as_not_preemptable :: "nat \<Rightarrow> 'a kstate_scheme \<Rightarrow> 'a kstate_scheme option" where
  "set_task_as_not_preemptable t s = do {
     (_, s1) \<leftarrow> rt_thread_control t CTRL_CHANGE_PRIORITY 0 s;
     Some (upd_thread t (\<lambda>th. th\<lparr>preemptableFlag := 1\<rparr>) s1)
   }"

definition set_task_as_preemptable :: "nat \<Rightarrow> u32 \<Rightarrow> 'a kstate_scheme \<Rightarrow> 'a kstate_scheme option" where
  "set_task_as_preemptable t priority s = do {
     (_, s1) \<leftarrow> rt_thread_control t CTRL_CHANGE_PRIORITY priority s;
     Some (upd_thread t (\<lambda>th. th\<lparr>preemptableFlag := 0\<rparr>) s1)
   }"

definition rt_thread_get_priority :: "nat \<Rightarrow> 'a kstate_scheme \<Rightarrow> int" where
  "rt_thread_get_priority t s = uint (current_priority (threads s t))"

lemmas thread_defs [kdefs] = rt_hw_stack_init_def stack_frame_size_def rt_thread_free_sig_def
  thread_cleanup_execute_def rt_thread_defunct_enqueue_def thread_init_def rt_thread_init_def
  rt_thread_create_def rt_thread_self_def rt_thread_suspend_def rt_thread_resume_def
  rt_thread_timeout_def rt_thread_yield_def thread_timer_arm_def rt_thread_sleep_def
  thread_sleep_resumed_def rt_thread_delay_def rt_thread_mdelay_def rt_thread_delay_until_def
  rt_thread_startup_def thread_exit_def thread_close_def rt_thread_detach_def rt_thread_delete_def
  set_priority_def rt_thread_control_def rt_thread_find_def rt_thread_get_name_def
  rt_thread_get_status_def set_end_flag_def reset_end_flag_def set_tick_count_def get_tick_count_def
  set_task_started_def set_task_ended_def set_task_as_not_preemptable_def
  set_task_as_preemptable_def rt_thread_get_priority_def

end
