(* ===== verification/Kernel_Inv.thy ===== *)
theory Kernel_Inv
  imports Thread
begin

text \<open>
  The invariant that ties scheduler, timers and threads together, and how the basic thread operations
  keep it. \<open>kframe\<close> is what all of these operations leave alone.
\<close>

section \<open>Frame\<close>

definition same_tcb :: "rt_thread \<Rightarrow> rt_thread \<Rightarrow> bool" where
  "same_tcb th th' \<longleftrightarrow>
     th' = th\<lparr>t_stat := t_stat th', t_error := t_error th', event_set := event_set th'\<rparr>"

definition kframe :: "'a kstate_scheme \<Rightarrow> 'a kstate_scheme \<Rightarrow> bool" where
  "kframe s s' \<longleftrightarrow> containers s' = containers s \<and> rt_tick s' = rt_tick s \<and>
     scheduler_lock_nest s' = scheduler_lock_nest s \<and> interrupt_nest s' = interrupt_nest s \<and>
     siginfo_free s' = siginfo_free s \<and> kstate.more s' = kstate.more s \<and>
     (\<forall>t. same_tcb (threads s t) (threads s' t)) \<and>
     (\<forall>r. o_type (objects s' r) = o_type (objects s r) \<and> o_name (objects s' r) = o_name (objects s r) \<and>
        o_flag (objects s' r) AND NOT RT_TIMER_FLAG_ACTIVATED =
        o_flag (objects s r) AND NOT RT_TIMER_FLAG_ACTIVATED)"

lemma same_tcb_refl [simp]: "same_tcb th th"
  by (simp add: same_tcb_def)

lemma same_tcb_trans: "same_tcb a b \<Longrightarrow> same_tcb b c \<Longrightarrow> same_tcb a c"
  unfolding same_tcb_def
  by (cases a, cases b, cases c) simp

lemma same_tcb_sel:
  assumes "same_tcb th th'"
  shows "current_priority th' = current_priority th" "number_mask th' = number_mask th"
    "init_priority th' = init_priority th" "preemptableFlag th' = preemptableFlag th"
    "stack_ok th' = stack_ok th" "event_info th' = event_info th"
    "sig_pending th' = sig_pending th" "sig_mask th' = sig_mask th" "sig_vectors th' = sig_vectors th"
    "si_list th' = si_list th" "tick_count th' = tick_count th" "end_flag th' = end_flag th"
  using assms unfolding same_tcb_def stack_ok_def by (cases th, cases th', simp)+

lemma kframe_refl [simp]: "kframe s s"
  by (simp add: kframe_def)

lemma kframe_trans: "kframe s1 s2 \<Longrightarrow> kframe s2 s3 \<Longrightarrow> kframe s1 s3"
  unfolding kframe_def by (auto intro: same_tcb_trans)

lemma sched_frame_kframe: "sched_frame s s' \<Longrightarrow> kframe s s'"
  unfolding sched_frame_def kframe_def same_tcb_def
  by (auto intro: rt_thread.equality)

lemma timer_frame_kframe: "timer_frame s s' \<Longrightarrow> kframe s s'"
  by (simp add: timer_frame_def kframe_def)

lemma kframe_set_stat [simp]: "kframe s (upd_thread t (set_stat b) s)"
  by (rule sched_frame_kframe) simp

lemma kframe_klists [simp]: "kframe s (s\<lparr>klists := l\<rparr>)" "kframe s (tlist_remove t s)"
  "kframe s (tlist_insert_before h t s)" "kframe s (tlist_insert_after h t s)"
  by (simp_all add: kframe_def tlist_defs)

lemma kframe_error [simp]: "kframe s (upd_thread t (\<lambda>th. th\<lparr>t_error := e\<rparr>) s)"
  by (simp add: kframe_def same_tcb_def)

lemma kframe_event_set [simp]: "kframe s (upd_thread t (\<lambda>th. th\<lparr>event_set := e\<rparr>) s)"
  by (simp add: kframe_def same_tcb_def)

lemma kframe_get_type: "kframe s s' \<Longrightarrow> rt_object_get_type r s' = rt_object_get_type r s"
  by (simp add: kframe_def rt_object_get_type_def)

lemma kframe_systemobject:
  "kframe s s' \<Longrightarrow> rt_object_is_systemobject r s' = rt_object_is_systemobject r s"
  by (simp add: kframe_def rt_object_is_systemobject_def)

lemma flag_periodic:
  "a AND NOT RT_TIMER_FLAG_ACTIVATED = b AND NOT RT_TIMER_FLAG_ACTIVATED \<Longrightarrow>
   a AND RT_TIMER_FLAG_PERIODIC = b AND RT_TIMER_FLAG_PERIODIC"
proof -
  have "x AND RT_TIMER_FLAG_PERIODIC = (x AND NOT RT_TIMER_FLAG_ACTIVATED) AND RT_TIMER_FLAG_PERIODIC"
    for x by (simp add: timer_flag_defs and.assoc)
  then show "a AND NOT RT_TIMER_FLAG_ACTIVATED = b AND NOT RT_TIMER_FLAG_ACTIVATED \<Longrightarrow>
    a AND RT_TIMER_FLAG_PERIODIC = b AND RT_TIMER_FLAG_PERIODIC" by metis
qed

lemma kframe_periodic: "kframe s s' \<Longrightarrow> is_periodic r s' = is_periodic r s"
  unfolding kframe_def is_periodic_def using flag_periodic by metis

section \<open>The invariant\<close>

text \<open>The objects of a live thread and of its timer are in order.\<close>

definition thread_objs :: "'a kstate_scheme \<Rightarrow> bool" where
  "thread_objs s \<longleftrightarrow> (\<forall>t. live (threads s t) \<longrightarrow>
     rt_object_get_type (Kobj t) s = RT_Object_Class_Thread \<and>
     rt_object_get_type (Thread_timer t) s = RT_Object_Class_Timer \<and>
     rt_object_is_systemobject (Thread_timer t) s \<and> \<not> is_periodic (Thread_timer t) s \<and>
     timeout_func (timers s (Thread_timer t)) = Rt_thread_timeout t)"

text \<open>A linked timer is marked active, and the timer that ends a thread's wait is linked only while
  the thread is suspended.\<close>

definition timer_links :: "'a kstate_scheme \<Rightarrow> bool" where
  "timer_links s \<longleftrightarrow> (\<forall>r \<in> set (timer_list s). is_activated r s) \<and>
     (\<forall>t. Thread_timer t \<in> set (timer_list s) \<longrightarrow> stat_base (threads s t) = RT_THREAD_SUSPEND) \<and>
     (\<forall>r \<in> set (timer_list s). \<forall>t. timeout_func (timers s r) = Rt_thread_timeout t \<longrightarrow> r = Thread_timer t)"

definition kernel_inv :: "'a kstate_scheme \<Rightarrow> bool" where
  "kernel_inv s \<longleftrightarrow> sched_inv s \<and> timer_ok s \<and> thread_objs s \<and> timer_links s"

lemma kernel_invD:
  assumes "kernel_inv s"
  shows "sched_inv s" "queue_inv {} s" "current_ok s" "timer_ok s" "thread_objs s" "timer_links s"
  using assms by (auto simp: kernel_inv_def sched_inv_def)

lemma thread_objsD:
  assumes "kernel_inv s" "live (threads s t)"
  shows "rt_object_get_type (Kobj t) s = RT_Object_Class_Thread"
    "rt_object_get_type (Thread_timer t) s = RT_Object_Class_Timer"
    "rt_object_is_systemobject (Thread_timer t) s" "\<not> is_periodic (Thread_timer t) s"
  using assms by (auto simp: kernel_inv_def thread_objs_def)

lemma thread_objs_transfer:
  assumes "thread_objs s" "kframe s s'" "\<And>t. live (threads s' t) \<Longrightarrow> live (threads s t)"
    "\<And>r. timeout_func (timers s' r) = timeout_func (timers s r)"
  shows "thread_objs s'"
  using assms unfolding thread_objs_def
  by (simp add: kframe_get_type [OF assms(2)] kframe_systemobject [OF assms(2)] kframe_periodic [OF assms(2)])

lemma timer_ok_transfer:
  assumes "timer_ok s" "kframe s s'" "timers s' = timers s" "timer_list s' = filter P (timer_list s)"
  shows "timer_ok s'"
proof -
  have "timer_sorted s'"
    using assms by (intro timer_sorted_filter [of s s' P]) (auto simp: timer_ok_def kframe_def)
  then show ?thesis
    using assms(1,3,4) kframe_get_type [OF assms(2)] kframe_periodic [OF assms(2)]
    by (auto simp: timer_ok_def startable_def)
qed

text \<open>An operation that moves threads but leaves the timers keeps the invariant if it keeps the
  queues consistent and wakes no thread whose timer runs.\<close>

lemma kernel_inv_transfer:
  assumes inv: "kernel_inv s" and q: "sched_inv s'" and fr: "kframe s s'"
    and tm: "timers s' = timers s" "timer_list s' = timer_list s" "objects s' = objects s"
    and lv: "\<And>t. live (threads s' t) \<Longrightarrow> live (threads s t)"
    and su: "\<And>t. Thread_timer t \<in> set (timer_list s) \<Longrightarrow>
      stat_base (threads s t) = RT_THREAD_SUSPEND \<Longrightarrow> stat_base (threads s' t) = RT_THREAD_SUSPEND"
  shows "kernel_inv s'"
proof -
  have "timer_ok s'" using timer_ok_transfer [OF kernel_invD(4) [OF inv] fr tm(1), of "\<lambda>_. True"] tm(2) by simp
  moreover have "thread_objs s'" using thread_objs_transfer [OF kernel_invD(5) [OF inv] fr lv] tm(1) by simp
  moreover have "timer_links s'"
    using kernel_invD(6) [OF inv] su tm by (auto simp: timer_links_def is_activated_def)
  ultimately show ?thesis using q by (simp add: kernel_inv_def)
qed

lemma kernel_schedule:
  assumes inv: "kernel_inv s" and c: "current_thread s = Some c"
  shows "\<exists>s' c'. rt_schedule s = Some s' \<and> kernel_inv s' \<and> current_thread s' = Some c' \<and>
    sched_frame s s' \<and> keeps_blocked s s' \<and> (\<forall>h. wait_head h \<longrightarrow> klists s' h = klists s h)"
proof -
  obtain s' c' where s': "rt_schedule s = Some s'" "sched_inv s'" "sched_frame s s'" "current_thread s' = Some c'"
    using rt_schedule_inv [OF kernel_invD(1) [OF inv] c] by blast
  have k: "keeps_blocked s s'" using rt_schedule_keeps_blocked [OF kernel_invD(1) [OF inv] s'(1)] .
  note f = sched_frame_sel [OF s'(3)]
  have "kernel_inv s'"
    by (rule kernel_inv_transfer [OF inv s'(2) sched_frame_kframe [OF s'(3)] f(4,5,1)])
       (auto simp: keeps_blocked_live [OF k] keeps_blocked_suspend [OF k])
  with s' k rt_schedule_wait [OF kernel_invD(1) [OF inv] s'(1)] show ?thesis by blast
qed

text \<open>Changing fields that neither the scheduler nor the invariant looks at.\<close>

lemma kernel_inv_upd_same:
  assumes "\<And>th. same_sched (f th) th"
  shows "kernel_inv (upd_thread t f s) = kernel_inv s"
proof -
  have b: "stat_base (f th) = stat_base th" for th using assms same_sched_base by blast
  let ?s' = "upd_thread t f s"
  have base: "stat_base (threads ?s' u) = stat_base (threads s u)" for u by (simp add: b)
  then have lv: "live (threads ?s' u) = live (threads s u)" for u unfolding live_def by metis
  have "sched_inv ?s' = sched_inv s" using assms b by (rule sched_inv_upd_same)
  moreover have "timer_ok ?s' = timer_ok s"
    using timer_sorted_cong [of ?s' s]
    by (simp add: timer_ok_def startable_def rt_object_get_type_def is_periodic_def)
  moreover have "thread_objs ?s' = thread_objs s"
    unfolding thread_objs_def lv
    by (simp add: rt_object_get_type_def is_periodic_def rt_object_is_systemobject_def)
  moreover have "timer_links ?s' = timer_links s"
    unfolding timer_links_def base by (simp add: is_activated_def)
  ultimately show ?thesis by (simp add: kernel_inv_def)
qed

text \<open>Whatever is done to a thread that is not started or over, as long as it stays so.\<close>

lemma kernel_inv_upd_dead:
  assumes inv: "kernel_inv s" and dead: "\<not> live (threads s t)" "\<not> live (f (threads s t))"
    and close: "stat_base (threads s t) = RT_THREAD_CLOSE \<Longrightarrow> stat_base (f (threads s t)) = RT_THREAD_CLOSE"
  shows "kernel_inv (upd_thread t f s)"
proof -
  let ?s' = "upd_thread t f s"
  have lv: "live (threads ?s' u) = live (threads s u)" for u using dead by simp
  have b: "stat_base (threads ?s' u) = b \<longleftrightarrow> stat_base (threads s u) = b"
    if "b \<in> {RT_THREAD_READY, RT_THREAD_SUSPEND, RT_THREAD_RUNNING}" for u b
    using that dead by (auto simp: live_def)
  have q: "queue_inv {} s" and c: "current_ok s" using kernel_invD [OF inv] by blast+
  have "ready_ok {} ?s'" using q dead by (auto simp: queue_inv_def ready_ok_def live_def)
  moreover have "wait_ok {} ?s'" using q dead close by (auto simp: queue_inv_def wait_ok_def live_def)
  ultimately have "queue_inv {} ?s'" using q dead lv by (auto simp: queue_inv_def bitmap_ok_def linked_once_def)
  moreover have "current_ok ?s'" using c unfolding current_ok_def by (simp add: b del: upd_thread_sel(1))
  moreover have "timer_ok ?s'"
    using kernel_invD(4) [OF inv] timer_sorted_cong [of ?s' s]
    by (simp add: timer_ok_def startable_def rt_object_get_type_def is_periodic_def)
  moreover have "thread_objs ?s'"
    using kernel_invD(5) [OF inv] unfolding thread_objs_def lv
    by (simp add: rt_object_get_type_def is_periodic_def rt_object_is_systemobject_def)
  moreover have "timer_links ?s'"
    using kernel_invD(6) [OF inv] unfolding timer_links_def
    by (simp add: b is_activated_def del: upd_thread_sel(1))
  ultimately show ?thesis by (simp add: kernel_inv_def sched_inv_def)
qed

section \<open>Suspending and resuming\<close>

lemma clear_activated_flag:
  "is_activated q (clear_activated r s) \<longleftrightarrow> q \<noteq> r \<and> is_activated q s"
  by (simp add: is_activated_def clear_activated_def RT_TIMER_FLAG_ACTIVATED_def and.assoc)

lemma rt_timer_stop_spec:
  assumes ty: "rt_object_get_type r s = RT_Object_Class_Timer"
    and act: "\<forall>q \<in> set (timer_list s). is_activated q s"
  shows "\<exists>e s'. rt_timer_stop r s = Some (e, s') \<and> timer_frame s s' \<and> timers s' = timers s \<and>
    timer_list s' = removeAll r (timer_list s) \<and> (\<exists>P. timer_fired s' = filter P (timer_fired s)) \<and>
    (\<forall>q \<in> set (timer_list s'). is_activated q s') \<and> \<not> is_activated r s'"
proof (cases "is_activated r s")
  case True
  let ?s' = "clear_activated r (timer_remove r s)"
  have "is_activated q ?s'" if "q \<in> set (timer_list s)" "q \<noteq> r" for q
    using that act clear_activated_flag [of q r "timer_remove r s"]
    by (simp add: is_activated_def timer_remove_def)
  then show ?thesis using True ty clear_activated_flag [of r r "timer_remove r s"]
    by (auto simp: rt_timer_stop_def removeAll_filter_not_eq)
next
  case False
  then have "r \<notin> set (timer_list s)" using act by blast
  then show ?thesis using False ty act by (auto simp: rt_timer_stop_def intro: exI [of _ "\<lambda>_. True"])
qed

lemma timer_frame_queue_inv: "timer_frame s s' \<Longrightarrow> queue_inv X s' = queue_inv X s"
  by (rule queue_inv_cong) (simp_all add: timer_frame_def)

text \<open>Stopping the timer of a suspended thread or of one that is being woken.\<close>

lemma stop_thread_timer:
  assumes act: "\<forall>q \<in> set (timer_list s). is_activated q s" and ok: "timer_ok s" and objs: "thread_objs s"
    and lv: "live (threads s t)"
  shows "\<exists>e s'. rt_timer_stop (Thread_timer t) s = Some (e, s') \<and> timer_frame s s' \<and>
    timer_ok s' \<and> thread_objs s' \<and> timers s' = timers s \<and>
    timer_list s' = removeAll (Thread_timer t) (timer_list s) \<and>
    (\<exists>P. timer_fired s' = filter P (timer_fired s)) \<and> (\<forall>q \<in> set (timer_list s'). is_activated q s')"
proof -
  have "rt_object_get_type (Thread_timer t) s = RT_Object_Class_Timer"
    using objs lv by (auto simp: thread_objs_def)
  from rt_timer_stop_spec [OF this act] obtain e s' where s':
    "rt_timer_stop (Thread_timer t) s = Some (e, s')" "timer_frame s s'" "timers s' = timers s"
    "timer_list s' = removeAll (Thread_timer t) (timer_list s)"
    "\<exists>P. timer_fired s' = filter P (timer_fired s)" "\<forall>q \<in> set (timer_list s'). is_activated q s'"
    by blast
  have "timer_ok s'"
    using timer_ok_transfer [OF ok timer_frame_kframe [OF s'(2)] s'(3)] s'(4)
    by (simp add: removeAll_filter_not_eq)
  moreover have "thread_objs s'"
    using thread_objs_transfer [OF objs timer_frame_kframe [OF s'(2)]] s'(2,3)
    by (simp add: timer_frame_def)
  ultimately show ?thesis using s' by blast
qed

lemma rt_thread_suspend_spec:
  assumes inv: "kernel_inv s" and r: "runnable (threads s t)"
  shows "\<exists>s'. rt_thread_suspend t s = Some (RT_EOK, s') \<and> kernel_inv s' \<and> kframe s s' \<and>
    current_thread s' = current_thread s \<and> (\<forall>h. t \<notin> set (klists s' h)) \<and>
    Thread_timer t \<notin> set (timer_list s') \<and>
    threads s' = (threads s)(t := set_stat RT_THREAD_SUSPEND (threads s t)) \<and>
    (\<forall>h. wait_head h \<longrightarrow> klists s' h = klists s h)"
proof -
  have lv: "live (threads s t)" using r by (auto simp: runnable_def live_def)
  note objs = thread_objsD [OF inv lv] and D = kernel_invD [OF inv]
  have wf: "thread_wf (threads s t)" using D(2) lv by (auto simp: queue_inv_def)
  obtain s1 where s1: "rt_schedule_remove_thread t s = Some s1" "queue_inv {t} s1"
    "threads s1 = threads s" "current_thread s1 = current_thread s" "sched_frame s s1"
    "\<forall>h. t \<notin> set (klists s1 h)" "\<forall>h. klists s1 h = removeAll t (klists s h)"
    using rq.dequeue [OF D(1) lv] by blast
  have nw: "wait_head h \<Longrightarrow> t \<notin> set (klists s h)" for h
    using D(2) r by (cases h) (auto simp: queue_inv_def wait_ok_def runnable_def)
  note f1 = sched_frame_sel [OF s1(5)]
  let ?s2 = "upd_thread t (set_stat RT_THREAD_SUSPEND) s1"
  have q2: "sched_inv ?s2"
    using s1(2,3,4) D(3) wf
    by (intro rq.retire) (auto simp: current_ok_def runnable_def thread_wf_def stack_ok_def)
  have k2: "kframe s ?s2" using s1(5) sched_frame_kframe kframe_set_stat kframe_trans by blast
  have ok2: "timer_ok ?s2"
    using timer_ok_transfer [OF D(4) k2, of "\<lambda>_. True"] f1 by simp
  have lv2: "live (threads ?s2 u) \<longleftrightarrow> live (threads s u)" for u
    using lv s1(3) by (auto simp: live_def)
  have ob2: "thread_objs ?s2" using thread_objs_transfer [OF D(5) k2] lv2 f1 by simp
  have act2: "\<forall>q \<in> set (timer_list ?s2). is_activated q ?s2"
    using D(6) f1 by (simp add: timer_links_def is_activated_def)
  obtain e s3 where s3: "rt_timer_stop (Thread_timer t) ?s2 = Some (e, s3)" "timer_frame ?s2 s3"
    "timer_ok s3" "thread_objs s3" "timers s3 = timers s"
    "timer_list s3 = removeAll (Thread_timer t) (timer_list s)"
    "\<forall>q \<in> set (timer_list s3). is_activated q s3"
    using stop_thread_timer [OF act2 ok2 ob2 lv2 [THEN iffD2, OF lv]] unfolding upd_thread_sel f1 by blast
  have th3: "threads s3 = (threads s)(t := set_stat RT_THREAD_SUSPEND (threads s t))"
    "klists s3 = klists s1" "current_thread s3 = current_thread s"
    using s3(2) s1(3,4) by (auto simp: timer_frame_def)
  have "timer_links s3" using D(6) s3(5,6,7) th3(1) by (auto simp: timer_links_def)
  then have "kernel_inv s3"
    using s3(3,4) q2 timer_frame_sched_inv [OF s3(2)] by (simp add: kernel_inv_def)
  moreover have "kframe s s3" using k2 timer_frame_kframe [OF s3(2)] kframe_trans by blast
  moreover have "rt_thread_suspend t s = Some (RT_EOK, s3)"
    using r objs(1) s1(1) s3(1) D(3)
    by (auto simp: rt_thread_suspend_def runnable_def rt_thread_self_def current_ok_def Let_def)
  ultimately show ?thesis using th3 s1(6,7) s3(6) nw by auto
qed

text \<open>Waking a suspended thread: it becomes ready, or running again when it is the current one.\<close>

lemma rt_thread_resume_spec:
  assumes inv: "kernel_inv s" and st: "stat_base (threads s t) = RT_THREAD_SUSPEND"
  shows "\<exists>s' b. rt_thread_resume t s = Some (RT_EOK, s') \<and> kernel_inv s' \<and> kframe s s' \<and>
    current_thread s' = current_thread s \<and> b \<in> {RT_THREAD_READY, RT_THREAD_RUNNING} \<and>
    threads s' = (threads s)(t := set_stat b (threads s t)) \<and>
    timers s' = timers s \<and> timer_list s' = removeAll (Thread_timer t) (timer_list s) \<and>
    (\<exists>P. timer_fired s' = filter P (timer_fired s)) \<and>
    (\<forall>h. wait_head h \<longrightarrow> klists s' h = removeAll t (klists s h))"
proof -
  have lv: "live (threads s t)" using st by (simp add: live_def)
  note objs = thread_objsD [OF inv lv] and D = kernel_invD [OF inv]
  let ?s1 = "tlist_remove t s"
  have l1: "timers ?s1 = timers s" "timer_list ?s1 = timer_list s" "timer_fired ?s1 = timer_fired s"
    "threads ?s1 = threads s" by (simp_all add: tlist_remove_def)
  have q1: "queue_inv {t} ?s1" by (rule unlink_suspended_inv [OF D(2) st])
  have ok1: "timer_ok ?s1" using timer_ok_transfer [OF D(4), of ?s1 "\<lambda>_. True"] by (simp add: tlist_remove_def)
  have ob1: "thread_objs ?s1" using thread_objs_transfer [OF D(5), of ?s1] by (simp add: tlist_remove_def)
  have act1: "\<forall>q \<in> set (timer_list ?s1). is_activated q ?s1"
    using D(6) by (simp add: timer_links_def is_activated_def tlist_remove_def)
  obtain e s2 where s2: "rt_timer_stop (Thread_timer t) ?s1 = Some (e, s2)" "timer_frame ?s1 s2"
    "timer_ok s2" "thread_objs s2" "timers s2 = timers s"
    "timer_list s2 = removeAll (Thread_timer t) (timer_list s)"
    "\<exists>P. timer_fired s2 = filter P (timer_fired s)" "\<forall>q \<in> set (timer_list s2). is_activated q s2"
    using stop_thread_timer [OF act1 ok1 ob1, of t] lv unfolding l1 by blast
  have th2: "threads s2 = threads s" "current_thread s2 = current_thread s"
    using s2(2) by (auto simp: timer_frame_def tlist_remove_def)
  have "queue_inv {t} s2" "current_ok s2" "\<not> runnable (threads s2 t)"
    using q1 timer_frame_queue_inv [OF s2(2)] D(3) th2 st by (auto simp: current_ok_def runnable_def)
  from rq.enqueue [OF this] obtain s3 b where s3: "rt_schedule_insert_thread t s2 = Some s3"
    "sched_inv s3" "sched_frame s2 s3" "current_thread s3 = current_thread s"
    "b \<in> {RT_THREAD_READY, RT_THREAD_RUNNING}" "threads s3 = (threads s)(t := set_stat b (threads s t))"
    "\<forall>h. wait_head h \<longrightarrow> klists s3 h = klists s2 h"
    unfolding th2 by blast
  have k2: "klists s2 h = removeAll t (klists s h)" for h
    using s2(2) by (simp add: timer_frame_def tlist_remove_def)
  note f3 = sched_frame_sel [OF s3(3)] and k3 = sched_frame_kframe [OF s3(3)]
  have "timer_ok s3" using timer_ok_transfer [OF s2(3) k3 f3(4), of "\<lambda>_. True"] f3(5) by simp
  moreover have "live (threads s3 u) = live (threads s u)" for u
    using lv s3(5,6) by (auto simp: live_def)
  then have "thread_objs s3" using thread_objs_transfer [OF s2(4) k3] th2(1) f3(4) by simp
  moreover have "timer_links s3"
    using D(6) s2(5,6,8) s3(6) f3(1,4,5) by (auto simp: timer_links_def is_activated_def)
  ultimately have "kernel_inv s3" using s3(2) by (simp add: kernel_inv_def)
  moreover have "kframe s s3"
    using kframe_trans [OF kframe_trans [OF kframe_klists(2) timer_frame_kframe [OF s2(2)]] k3] .
  moreover have "rt_thread_resume t s = Some (RT_EOK, s3)"
    using st objs(1) s2(1) s3(1) by (simp add: rt_thread_resume_def Let_def)
  ultimately show ?thesis using s2(5,6,7) s3(4,5,6,7) f3(4,5,6) k2 by metis
qed

section \<open>Timers of threads\<close>

lemma kernel_inv_clear_remove:
  assumes "kernel_inv s"
  shows "kernel_inv (clear_activated r (timer_remove r s))"
proof -
  let ?s = "clear_activated r (timer_remove r s)"
  note D = kernel_invD [OF assms]
  have fr: "timer_frame s ?s" by simp
  note k = timer_frame_kframe [OF fr]
  have "timer_ok ?s"
    using timer_ok_transfer [OF D(4) k, of "\<lambda>x. r \<noteq> x"] by (simp add: removeAll_filter_not_eq)
  moreover have "thread_objs ?s"
    using thread_objs_transfer [OF D(5) k] fr by (simp add: timer_frame_def)
  moreover have "timer_links ?s"
    using D(6) fr clear_activated_flag [of _ r "timer_remove r s"]
    by (auto simp: timer_links_def timer_frame_def is_activated_def)
  ultimately show ?thesis using D(1) timer_frame_sched_inv [OF fr] by (simp add: kernel_inv_def)
qed

lemma kernel_inv_timer_fired [simp]: "kernel_inv (s\<lparr>timer_fired := l\<rparr>) = kernel_inv s"
proof -
  have "sched_inv (s\<lparr>timer_fired := l\<rparr>) = sched_inv s" by (rule sched_inv_cong) simp_all
  moreover have "timer_sorted (s\<lparr>timer_fired := l\<rparr>) = timer_sorted s" by (rule timer_sorted_cong) simp_all
  ultimately show ?thesis
    by (simp add: kernel_inv_def timer_ok_def startable_def thread_objs_def timer_links_def
        rt_object_get_type_def rt_object_is_systemobject_def is_periodic_def is_activated_def)
qed

lemma kernel_inv_remove:
  assumes "kernel_inv s"
  shows "kernel_inv (timer_remove r s)"
proof -
  let ?s = "timer_remove r s"
  note D = kernel_invD [OF assms]
  have fr: "timer_frame s ?s" by simp
  note k = timer_frame_kframe [OF fr]
  have "timer_ok ?s"
    using timer_ok_transfer [OF D(4) k, of "\<lambda>x. r \<noteq> x"] by (simp add: removeAll_filter_not_eq)
  moreover have "thread_objs ?s"
    using thread_objs_transfer [OF D(5) k] fr by (simp add: timer_frame_def)
  moreover have "timer_links ?s"
    using D(6) fr by (auto simp: timer_links_def timer_frame_def is_activated_def)
  ultimately show ?thesis using D(1) timer_frame_sched_inv [OF fr] by (simp add: kernel_inv_def)
qed

lemma kernel_inv_fire: "kernel_inv s \<Longrightarrow> kernel_inv (timer_fire r s)"
  by (simp add: timer_fire_def Let_def kernel_inv_clear_remove kernel_inv_remove)

lemma kernel_inv_start:
  assumes inv: "kernel_inv s" and r: "startable r s" "is_periodic r s \<longrightarrow> 0 < timer_init_tick (timers s r)"
    and su: "\<And>t. r = Thread_timer t \<Longrightarrow> stat_base (threads s t) = RT_THREAD_SUSPEND"
    and fn: "\<And>t. timeout_func (timers s r) = Rt_thread_timeout t \<Longrightarrow> r = Thread_timer t"
  shows "\<exists>s'. rt_timer_start r s = Some (RT_EOK, s') \<and> kernel_inv s' \<and> timer_frame s s' \<and>
    set (timer_list s') = insert r (set (timer_list s)) \<and>
    expiry s' r = Suc (unat (timer_init_tick (timers s r))) \<and>
    (\<forall>q. q \<noteq> r \<longrightarrow> timers s' q = timers s q) \<and>
    (\<forall>q. timer_init_tick (timers s' q) = timer_init_tick (timers s q)) \<and>
    (\<forall>q. timeout_func (timers s' q) = timeout_func (timers s q))"
proof -
  note D = kernel_invD [OF inv]
  have srt: "timer_sorted s" using D(4) by (simp add: timer_ok_def)
  from rt_timer_start_spec [OF srt r(1)] obtain s' where s':
    "rt_timer_start r s = Some (RT_EOK, s')" "timer_sorted s'"
    "expiry s' r = Suc (unat (timer_init_tick (timers s r)))"
    "\<forall>t. t \<noteq> r \<longrightarrow> timers s' t = timers s t"
    "timer_list s' = takeWhile (\<lambda>t. expiry s' t \<le> expiry s' r) (removeAll r (timer_list s)) @ r #
      dropWhile (\<lambda>t. expiry s' t \<le> expiry s' r) (removeAll r (timer_list s))"
    "timer_init_tick (timers s' r) = timer_init_tick (timers s r)"
    "timeout_func (timers s' r) = timeout_func (timers s r)"
    "objects s' = (objects s)(r := (objects s r)\<lparr>o_flag := o_flag (objects s r) OR RT_TIMER_FLAG_ACTIVATED\<rparr>)"
    by blast
  have fr: "timer_frame s s'" by (rule rt_timer_start_frame(1) [OF s'(1)])
  note k = timer_frame_kframe [OF fr]
  have "set (timer_list s') = insert r (set (removeAll r (timer_list s)))"
    unfolding s'(5) by (metis (no_types, lifting) list.simps(15) set_append takeWhile_dropWhile_id Un_insert_right)
  then have st: "set (timer_list s') = insert r (set (timer_list s))" by auto
  have tm: "timer_init_tick (timers s' q) = timer_init_tick (timers s q)"
    "timeout_func (timers s' q) = timeout_func (timers s q)" for q
    using s'(4,6,7) by (metis)+
  have act: "is_activated q s' \<longleftrightarrow> q = r \<or> is_activated q s" for q
    unfolding is_activated_def s'(8) by simp (simp add: RT_TIMER_FLAG_ACTIVATED_def)
  have th: "threads s' = threads s" using fr by (simp add: timer_frame_def)
  have "timer_ok s'"
    using s'(2) D(4) r tm st
    by (auto simp: timer_ok_def startable_def timer_frame_get_type [OF fr] timer_frame_periodic [OF fr])
  moreover have "thread_objs s'"
    using thread_objs_transfer [OF D(5) k] tm(2) th by simp
  moreover have "timer_links s'"
    using D(6) su fn by (auto simp: timer_links_def act st tm th)
  ultimately have "kernel_inv s'" using D(1) timer_frame_sched_inv [OF fr] by (simp add: kernel_inv_def)
  then show ?thesis using s'(1,3,4) fr st tm by blast
qed

lemma kernel_inv_set_time:
  assumes inv: "kernel_inv s" and np: "\<not> is_periodic r s" and tick: "tick < RT_TICK_MAX div 2"
  shows "kernel_inv (upd_timer r (\<lambda>tm. tm\<lparr>timer_init_tick := tick\<rparr>) s)"
proof -
  let ?s = "upd_timer r (\<lambda>tm. tm\<lparr>timer_init_tick := tick\<rparr>) s"
  have "sched_inv ?s = sched_inv s" by (rule sched_inv_cong) simp_all
  moreover have "timer_sorted ?s = timer_sorted s" by (rule timer_sorted_cong) simp_all
  ultimately show ?thesis using inv np tick
    by (auto simp: kernel_inv_def timer_ok_def startable_def thread_objs_def timer_links_def
        rt_object_get_type_def rt_object_is_systemobject_def is_periodic_def is_activated_def)
qed

lemma thread_timer_arm_spec:
  assumes inv: "kernel_inv s" and st: "stat_base (threads s t) = RT_THREAD_SUSPEND"
    and tick: "tick < RT_TICK_MAX div 2"
  shows "\<exists>s'. thread_timer_arm t tick s = Some s' \<and> kernel_inv s' \<and> timer_frame s s' \<and>
    Thread_timer t \<in> set (timer_list s') \<and> expiry s' (Thread_timer t) = Suc (unat tick)"
proof -
  let ?r = "Thread_timer t" let ?s1 = "upd_timer ?r (\<lambda>tm. tm\<lparr>timer_init_tick := tick\<rparr>) s"
  have lv: "live (threads s t)" using st by (simp add: live_def)
  note objs = thread_objsD [OF inv lv]
  have fn: "timeout_func (timers s ?r) = Rt_thread_timeout t"
    using inv lv by (auto simp: kernel_inv_def thread_objs_def)
  have i1: "kernel_inv ?s1" by (rule kernel_inv_set_time [OF inv objs(4) tick])
  have fr: "timer_frame s ?s1" by simp
  have a: "startable ?r ?s1" "is_periodic ?r ?s1 \<longrightarrow> 0 < timer_init_tick (timers ?s1 ?r)"
    using objs tick timer_frame_periodic [OF fr] timer_frame_get_type [OF fr] by (auto simp: startable_def)
  have su: "\<And>u. ?r = Thread_timer u \<Longrightarrow> stat_base (threads ?s1 u) = RT_THREAD_SUSPEND" using st by simp
  have fn1: "\<And>u. timeout_func (timers ?s1 ?r) = Rt_thread_timeout u \<Longrightarrow> ?r = Thread_timer u" using fn by simp
  obtain s' where s': "rt_timer_start ?r ?s1 = Some (RT_EOK, s')" "kernel_inv s'"
    "timer_frame ?s1 s'" "set (timer_list s') = insert ?r (set (timer_list s))"
    "expiry s' ?r = Suc (unat tick)"
    using kernel_inv_start [OF i1 a su fn1] by auto
  moreover have "thread_timer_arm t tick s = Some s'"
    using objs(2) s'(1) by (simp add: thread_timer_arm_def rt_timer_control_def)
  ultimately show ?thesis using timer_frame_trans [OF fr s'(3)] by blast
qed

section \<open>Sleeping and waking by timeout\<close>

lemma keeps_blocked_trans: "keeps_blocked s1 s2 \<Longrightarrow> keeps_blocked s2 s3 \<Longrightarrow> keeps_blocked s1 s3"
  by (simp add: keeps_blocked_def)

lemma timer_frame_sel:
  assumes "timer_frame s s'"
  shows "threads s' = threads s" "klists s' = klists s" "current_thread s' = current_thread s"
    "scheduler_lock_nest s' = scheduler_lock_nest s"
  using assms by (auto simp: timer_frame_def)

text \<open>The common end of every blocking call: the running thread has been suspended, and the
  processor goes to another thread.\<close>

lemma block_and_schedule:
  assumes inv: "kernel_inv s" and c: "current_thread s = Some c"
    and st: "stat_base (threads s c) = RT_THREAD_SUSPEND"
  shows "\<exists>s' c'. rt_schedule s = Some s' \<and> kernel_inv s' \<and> current_thread s' = Some c' \<and>
    sched_frame s s' \<and> keeps_blocked s s' \<and> stat_base (threads s' c) = RT_THREAD_SUSPEND \<and>
    (\<forall>h. wait_head h \<longrightarrow> klists s' h = klists s h)"
proof -
  obtain s' c' where s': "rt_schedule s = Some s'" "kernel_inv s'" "current_thread s' = Some c'"
    "sched_frame s s'" "keeps_blocked s s'" "\<forall>h. wait_head h \<longrightarrow> klists s' h = klists s h" using kernel_schedule [OF inv c] by blast
  with keeps_blocked_suspend [OF s'(5), of c] st show ?thesis by blast
qed

lemma rt_thread_sleep_spec:
  assumes inv: "kernel_inv s" and c: "current_thread s = Some c"
    and r: "stat_base (threads s c) = RT_THREAD_RUNNING" and tick: "tick < RT_TICK_MAX div 2"
  shows "\<exists>s' c'. rt_thread_sleep tick s = Some s' \<and> kernel_inv s' \<and> kframe s s' \<and>
    current_thread s' = Some c' \<and> stat_base (threads s' c) = RT_THREAD_SUSPEND \<and>
    Thread_timer c \<in> set (timer_list s') \<and> expiry s' (Thread_timer c) = Suc (unat tick)"
proof -
  have "runnable (threads s c)" using r by (simp add: runnable_def)
  from rt_thread_suspend_spec [OF inv this] obtain s1 where s1:
    "rt_thread_suspend c s = Some (RT_EOK, s1)" "kernel_inv s1" "kframe s s1" "current_thread s1 = Some c"
    "stat_base (threads s1 c) = RT_THREAD_SUSPEND" using c by auto
  obtain s2 where s2: "thread_timer_arm c tick s1 = Some s2" "kernel_inv s2" "timer_frame s1 s2"
    "Thread_timer c \<in> set (timer_list s2)" "expiry s2 (Thread_timer c) = Suc (unat tick)"
    using thread_timer_arm_spec [OF s1(2,5) tick] by blast
  have "current_thread s2 = Some c" "stat_base (threads s2 c) = RT_THREAD_SUSPEND"
    using timer_frame_sel [OF s2(3)] s1(4,5) by simp_all
  from block_and_schedule [OF s2(2) this] obtain s3 c' where s3: "rt_schedule s2 = Some s3"
    "kernel_inv s3" "current_thread s3 = Some c'" "sched_frame s2 s3"
    "stat_base (threads s3 c) = RT_THREAD_SUSPEND" by blast
  have "live (threads s c)" using r by (simp add: live_def)
  then have "rt_thread_sleep tick s = Some s3"
    using c s1(1) s2(1) s3(1) thread_objsD(1) [OF inv] by (simp add: rt_thread_sleep_def rt_thread_self_def)
  moreover have "kframe s s3"
    using kframe_trans [OF kframe_trans [OF s1(3) timer_frame_kframe [OF s2(3)]] sched_frame_kframe [OF s3(4)]] .
  moreover have "expiry s3 (Thread_timer c) = Suc (unat tick)"
    using s2(5) expiry_cong [of s3 s2] sched_frame_sel [OF s3(4)] by simp
  ultimately show ?thesis using s2(4) s3(2,3,5) sched_frame_sel(5) [OF s3(4)] by auto
qed

lemma kernel_inv_error [simp]: "kernel_inv (upd_thread t (\<lambda>th. th\<lparr>t_error := e\<rparr>) s) = kernel_inv s"
  by (rule kernel_inv_upd_same) (simp add: same_sched_def stack_ok_def stat_base_def)

lemma kernel_inv_event_set [simp]: "kernel_inv (upd_thread t (\<lambda>th. th\<lparr>event_set := e\<rparr>) s) = kernel_inv s"
  by (rule kernel_inv_upd_same) (simp add: same_sched_def stack_ok_def)

lemma kernel_inv_event_info [simp]:
  "kernel_inv (upd_thread t (\<lambda>th. th\<lparr>event_set := e, event_info := i\<rparr>) s) = kernel_inv s"
  by (rule kernel_inv_upd_same) (simp add: same_sched_def stack_ok_def)

text \<open>A thread whose timer has expired is made runnable with the error code of a timeout.\<close>

lemma rt_thread_timeout_spec:
  assumes inv: "kernel_inv s" and c: "current_thread s = Some c"
    and st: "stat_base (threads s t) = RT_THREAD_SUSPEND" and un: "Thread_timer t \<notin> set (timer_list s)"
  shows "\<exists>s' c'. rt_thread_timeout t s = Some s' \<and> kernel_inv s' \<and> kframe s s' \<and>
    current_thread s' = Some c' \<and> timers s' = timers s \<and> timer_list s' = timer_list s \<and>
    timer_fired s' = timer_fired s \<and> objects s' = objects s \<and>
    t_error (threads s' t) = - RT_ETIMEOUT \<and> runnable (threads s' t) \<and>
    (\<forall>h. wait_head h \<longrightarrow> klists s' h = removeAll t (klists s h))"
proof -
  have lv: "live (threads s t)" using st by (simp add: live_def)
  let ?s1 = "upd_thread t (\<lambda>th. th\<lparr>t_error := - RT_ETIMEOUT\<rparr>) s"
  have i1: "kernel_inv ?s1" using inv by simp
  have st1: "stat_base (threads ?s1 t) = RT_THREAD_SUSPEND" using st by (simp add: stat_base_def)
  let ?s2 = "tlist_remove t ?s1"
  have "queue_inv {t} ?s2" "current_ok ?s2" "\<not> runnable (threads ?s2 t)"
    using unlink_suspended_inv [OF kernel_invD(2) [OF i1] st1] kernel_invD(3) [OF i1] st1
    by (auto simp: current_ok_def tlist_remove_def runnable_def)
  from rq.enqueue [OF this] obtain s3 b where s3: "rt_schedule_insert_thread t ?s2 = Some s3"
    "sched_inv s3" "sched_frame ?s2 s3" "current_thread s3 = Some c"
    "b \<in> {RT_THREAD_READY, RT_THREAD_RUNNING}"
    "threads s3 = (threads ?s1)(t := set_stat b (threads ?s1 t))"
    using c by (auto simp: tlist_remove_def)
  note f3 = sched_frame_sel [OF s3(3)]
  have k3: "kframe ?s1 s3" using kframe_trans [OF kframe_klists(2) sched_frame_kframe [OF s3(3)]] .
  have "live (threads s3 u) \<Longrightarrow> live (threads ?s1 u)" for u
    using s3(5,6) lv by (auto simp: live_def stat_base_def split: if_splits)
  moreover have "stat_base (threads s3 u) = RT_THREAD_SUSPEND"
    if "Thread_timer u \<in> set (timer_list ?s1)" "stat_base (threads ?s1 u) = RT_THREAD_SUSPEND" for u
    using that s3(6) un by auto
  ultimately have i3: "kernel_inv s3"
    using f3(1,4,5) by (intro kernel_inv_transfer [OF i1 s3(2) k3]) (auto simp: tlist_remove_def)
  obtain s4 c4 where s4: "rt_schedule s3 = Some s4" "kernel_inv s4" "current_thread s4 = Some c4"
    "sched_frame s3 s4" "keeps_blocked s3 s4" "\<forall>h. wait_head h \<longrightarrow> klists s4 h = klists s3 h"
    using kernel_schedule [OF i3 s3(4)] by blast
  note f4 = sched_frame_sel [OF s4(4)]
  have "\<forall>h. wait_head h \<longrightarrow> klists s4 h = removeAll t (klists s h)"
    using s4(6) insert_thread_klists [OF s3(1)] by (simp add: tlist_remove_def)
  moreover have "runnable (threads s3 t)" using s3(5,6) by (auto simp: runnable_def)
  then have "runnable (threads s4 t)" using s4(5) by (simp add: keeps_blocked_def)
  moreover have "t_error (threads s4 t) = t_error (threads s3 t)"
    using s4(4) unfolding sched_frame_def by (metis rt_thread.ext_inject rt_thread.surjective rt_thread.update_convs(7))
  moreover have "rt_thread_timeout t s = Some s4"
    using st s3(1) s4(1) thread_objsD(1) [OF inv lv] by (simp add: rt_thread_timeout_def Let_def)
  moreover have "kframe s s4"
    using kframe_trans [OF kframe_trans [OF kframe_error k3] sched_frame_kframe [OF s4(4)]] .
  ultimately show ?thesis using s4(2,3) s3(6) f3 f4 by (auto simp: tlist_remove_def)
qed

section \<open>Priorities, starting and closing\<close>

lemma queue_inv_upd_unready:
  assumes "queue_inv X s" "t \<notin> X" "\<not> ready s t" "stat_base (f (threads s t)) = stat_base (threads s t)"
    "live (f (threads s t)) \<Longrightarrow> thread_wf (f (threads s t))"
  shows "queue_inv X (upd_thread t f s)"
  using assms unfolding queue_inv_def bitmap_ok_def linked_once_def ready_ok_def wait_ok_def by auto

lemma queue_inv_upd_unlinked:
  assumes "queue_inv X s" "t \<notin> X" "\<And>h. t \<notin> set (klists s h)" "stat_base (f (threads s t)) \<noteq> RT_THREAD_READY"
    "live (f (threads s t)) \<Longrightarrow> thread_wf (f (threads s t))"
  shows "queue_inv X (upd_thread t f s)"
proof -
  have "\<not> ready s t" using assms(1,2,3) unfolding queue_inv_def ready_ok_def by blast
  then show ?thesis
    using assms unfolding queue_inv_def bitmap_ok_def linked_once_def ready_ok_def wait_ok_def by auto
qed

lemma set_priority_alt:
  "unat (ucast arg :: u8) < RT_THREAD_PRIORITY_MAX \<Longrightarrow>
   set_priority arg = (\<lambda>th. th\<lparr>current_priority := ucast arg, number_mask := 2 ^ unat (ucast arg :: u8)\<rparr>)"
  by (simp add: fun_eq_iff set_priority_def)

text \<open>Changing the priority of any live thread, with a value that fits the table.\<close>

lemma change_priority_spec:
  assumes inv: "kernel_inv s" and lv: "live (threads s t)"
    and p: "unat (ucast arg :: u8) < RT_THREAD_PRIORITY_MAX"
  shows "\<exists>s'. rt_thread_control t CTRL_CHANGE_PRIORITY arg s = Some (RT_EOK, s') \<and> kernel_inv s' \<and>
    current_thread s' = current_thread s \<and> current_priority (threads s' t) = ucast arg \<and>
    sched_frame (upd_thread t (set_priority arg) s) s' \<and>
    (\<forall>u. stat_base (threads s' u) = stat_base (threads s u))"
proof -
  note D = kernel_invD [OF inv] and objs = thread_objsD [OF inv lv]
  let ?s1 = "upd_thread t (set_priority arg) s"
  have wf: "thread_wf (threads s t)" using D(2) lv by (auto simp: queue_inv_def)
  have b: "stat_base (set_priority arg th) = stat_base th" for th by (simp add: set_priority_def stat_base_def)
  have b1: "stat_base (threads ?s1 u) = stat_base (threads s u)" for u by (simp add: b)
  have pr: "current_priority (set_priority arg th) = ucast arg" for th by (simp add: set_priority_def)
  have "\<exists>s'. rt_thread_control t CTRL_CHANGE_PRIORITY arg s = Some (RT_EOK, s') \<and> sched_inv s' \<and>
      current_thread s' = current_thread s \<and> sched_frame ?s1 s' \<and>
      (\<forall>u. stat_base (threads s' u) = stat_base (threads s u))"
  proof (cases "ready s t")
    case True
    from rq.requeue [OF D(1) this p] show ?thesis
      using True objs(1) by (auto simp: rt_thread_control_def set_priority_alt [OF p])
  next
    case False
    have "queue_inv {} ?s1"
      using D(2) False wf p
      by (intro queue_inv_upd_unready) (auto simp: b thread_wf_def stack_ok_def set_priority_def)
    moreover have "current_ok ?s1" using D(3) unfolding current_ok_def b1 by simp
    ultimately show ?thesis using False objs(1) b1 by (auto simp: rt_thread_control_def sched_inv_def)
  qed
  then obtain s' where s': "rt_thread_control t CTRL_CHANGE_PRIORITY arg s = Some (RT_EOK, s')"
    "sched_inv s'" "current_thread s' = current_thread s" "sched_frame ?s1 s'"
    and st: "\<And>u. stat_base (threads s' u) = stat_base (threads s u)" by blast
  note f = sched_frame_sel [OF s'(4)]
  have lv': "live (threads s' u) = live (threads s u)" for u unfolding live_def st ..
  have "timer_sorted s' = timer_sorted s" using f by (intro timer_sorted_cong) simp_all
  then have "timer_ok s'"
    using D(4) f by (simp add: timer_ok_def startable_def rt_object_get_type_def is_periodic_def)
  moreover have "thread_objs s'" "timer_links s'"
    using D(5,6) f unfolding thread_objs_def timer_links_def lv' st
    by (simp_all add: rt_object_get_type_def is_periodic_def rt_object_is_systemobject_def is_activated_def)
  moreover have "current_priority (threads s' t) = ucast arg"
    using same_tcb_sel(1) s'(4) sched_frame_kframe pr unfolding kframe_def by (metis fun_upd_same upd_thread_sel(1))
  ultimately show ?thesis using s' st by (auto simp: kernel_inv_def)
qed

text \<open>Starting a thread that has been initialised.\<close>

lemma startup_suspended:
  assumes inv: "kernel_inv s" and st: "stat_base (threads s t) = RT_THREAD_INIT"
    and p: "unat (init_priority (threads s t)) < RT_THREAD_PRIORITY_MAX" and stk: "stack_ok (threads s t)"
    and objs: "rt_object_get_type (Kobj t) s = RT_Object_Class_Thread"
      "rt_object_get_type (Thread_timer t) s = RT_Object_Class_Timer"
      "rt_object_is_systemobject (Thread_timer t) s" "\<not> is_periodic (Thread_timer t) s"
      "timeout_func (timers s (Thread_timer t)) = Rt_thread_timeout t"
    and f: "f = (\<lambda>th. th\<lparr>current_priority := init_priority th,
      number_mask := push_bit (unat (init_priority th)) 1, t_stat := RT_THREAD_SUSPEND\<rparr>)"
  shows "kernel_inv (upd_thread t f s)" "stat_base (threads (upd_thread t f s) t) = RT_THREAD_SUSPEND"
proof -
  note D = kernel_invD [OF inv]
  let ?s1 = "upd_thread t f s"
  have fb: "stat_base (f th) = RT_THREAD_SUSPEND" for th :: rt_thread by (simp add: f stat_base_def stat_defs)
  have un: "t \<notin> set (klists s h)" for h
    using D(2) st by (cases h) (auto simp: queue_inv_def ready_ok_def wait_ok_def)
  have "queue_inv {} ?s1"
    using D(2) un p stk fb by (intro queue_inv_upd_unlinked) (auto simp: thread_wf_def stack_ok_def f)
  moreover have "current_ok ?s1" using D(3) fb unfolding current_ok_def by simp
  ultimately have q1: "sched_inv ?s1" by (simp add: sched_inv_def)
  have "timer_sorted ?s1 = timer_sorted s" by (rule timer_sorted_cong) simp_all
  then have "timer_ok ?s1"
    using D(4) by (simp add: timer_ok_def startable_def rt_object_get_type_def is_periodic_def)
  moreover have "thread_objs ?s1" "timer_links ?s1"
    using D(5,6) objs fb unfolding thread_objs_def timer_links_def
    by (auto simp: rt_object_get_type_def is_periodic_def rt_object_is_systemobject_def is_activated_def)
  ultimately show "kernel_inv ?s1" using q1 by (simp add: kernel_inv_def)
  show "stat_base (threads ?s1 t) = RT_THREAD_SUSPEND" using fb by simp
qed

lemma rt_thread_startup_spec:
  assumes inv: "kernel_inv s" and c: "current_thread s = Some c"
    and st: "stat_base (threads s t) = RT_THREAD_INIT"
    and p: "unat (init_priority (threads s t)) < RT_THREAD_PRIORITY_MAX" and stk: "stack_ok (threads s t)"
    and objs: "rt_object_get_type (Kobj t) s = RT_Object_Class_Thread"
      "rt_object_get_type (Thread_timer t) s = RT_Object_Class_Timer"
      "rt_object_is_systemobject (Thread_timer t) s" "\<not> is_periodic (Thread_timer t) s"
      "timeout_func (timers s (Thread_timer t)) = Rt_thread_timeout t"
  shows "\<exists>s' c'. rt_thread_startup t s = Some (RT_EOK, s') \<and> kernel_inv s' \<and> current_thread s' = Some c' \<and>
    runnable (threads s' t) \<and> prio_of s' t = unat (init_priority (threads s t))"
proof -
  let ?f = "\<lambda>th. th\<lparr>current_priority := init_priority th,
      number_mask := push_bit (unat (init_priority th)) 1, t_stat := RT_THREAD_SUSPEND\<rparr>"
  let ?s1 = "upd_thread t ?f s"
  from rt_thread_resume_spec [OF startup_suspended [OF inv st p stk objs refl]] obtain s2 b where s2: "rt_thread_resume t ?s1 = Some (RT_EOK, s2)"
    "kernel_inv s2" "current_thread s2 = Some c" "b \<in> {RT_THREAD_READY, RT_THREAD_RUNNING}"
    "threads s2 = (threads ?s1)(t := set_stat b (threads ?s1 t))" using c by auto
  obtain s3 c3 where s3: "rt_schedule s2 = Some s3" "kernel_inv s3" "current_thread s3 = Some c3"
    "sched_frame s2 s3" "keeps_blocked s2 s3" using kernel_schedule [OF s2(2,3)] by blast
  have "runnable (threads s2 t)" using s2(4,5) by (auto simp: runnable_def)
  then have "runnable (threads s3 t)" using s3(5) by (simp add: keeps_blocked_def)
  moreover have "prio_of s3 t = unat (init_priority (threads s t))"
    using sched_frame_prio [OF s3(4), of t] s2(5) by simp
  moreover have "rt_thread_startup t s = Some (RT_EOK, s3)"
    using st objs(1) s2(1,3) s3(1) by (simp add: rt_thread_startup_def rt_thread_self_def Let_def)
  ultimately show ?thesis using s3(2,3) by blast
qed

text \<open>A thread that is gone: out of every list, its timer detached, its objects released.\<close>

lemma kernel_inv_closed:
  assumes inv: "kernel_inv s" and q: "sched_inv s'" and nt: "Kobj t \<notin> set (timer_list s)"
    and tm: "timers s' = timers s" "timer_list s' = removeAll (Thread_timer t) (timer_list s)"
      "rt_tick s' = rt_tick s"
    and ob: "\<And>r. r \<noteq> Thread_timer t \<Longrightarrow> r \<noteq> Kobj t \<Longrightarrow> objects s' r = objects s r"
    and th: "\<And>u. u \<noteq> t \<Longrightarrow> threads s' u = threads s u" "\<not> live (threads s' t)"
  shows "kernel_inv s'"
proof -
  note D = kernel_invD [OF inv]
  have same: "rt_object_get_type r s' = rt_object_get_type r s" "is_periodic r s' = is_periodic r s"
    "is_activated r s' = is_activated r s" if "r \<in> set (timer_list s')" for r
  proof -
    have "objects s' r = objects s r" using that tm(2) nt by (intro ob) auto
    then show "rt_object_get_type r s' = rt_object_get_type r s" "is_periodic r s' = is_periodic r s"
      "is_activated r s' = is_activated r s"
      by (simp_all add: rt_object_get_type_def is_periodic_def is_activated_def)
  qed
  have "timer_sorted s'"
    using D(4) tm timer_sorted_filter [of s s' "\<lambda>x. Thread_timer t \<noteq> x"]
    by (simp add: timer_ok_def removeAll_filter_not_eq)
  then have "timer_ok s'" using D(4) same tm(1,2) by (auto simp: timer_ok_def startable_def)
  moreover have "thread_objs s'"
    using D(5) th ob tm(1) unfolding thread_objs_def
    by (metis objref.inject objref.distinct(1) is_periodic_def rt_object_get_type_def rt_object_is_systemobject_def)
  moreover have "timer_links s'"
    using D(6) th(1) same tm(1,2) unfolding timer_links_def by auto
  ultimately show ?thesis using q by (simp add: kernel_inv_def)
qed

lemma free_sig_same: "same_sched (th\<lparr>si_list := [], sig_vectors := None\<rparr>) th"
  by (simp add: same_sched_def stack_ok_def)

lemma cleanup_sel [simp]:
  "klists (thread_cleanup_execute t s) = klists s" "ready_group (thread_cleanup_execute t s) = ready_group s"
  "current_thread (thread_cleanup_execute t s) = current_thread s"
  "threads (thread_cleanup_execute t s) =
     (threads s)(t := (threads s t)\<lparr>si_list := [], sig_vectors := None\<rparr>)"
  "objects (thread_cleanup_execute t s) = objects s" "containers (thread_cleanup_execute t s) = containers s"
  "timers (thread_cleanup_execute t s) = timers s" "timer_list (thread_cleanup_execute t s) = timer_list s"
  "rt_tick (thread_cleanup_execute t s) = rt_tick s" "kstate.more (thread_cleanup_execute t s) = kstate.more s"
  by (simp_all add: thread_cleanup_execute_def rt_thread_free_sig_def Let_def)

lemma cleanup_inv:
  "queue_inv X (thread_cleanup_execute t s) = queue_inv X s"
  "current_ok (thread_cleanup_execute t s) = current_ok s"
  by (rule queue_inv_cong) (auto simp: free_sig_same current_ok_def)

lemma timer_detach_run:
  assumes "rt_object_get_type r s = RT_Object_Class_Timer" "rt_object_is_systemobject r s"
  shows "\<exists>s'. rt_timer_detach r s = Some (RT_EOK, s') \<and> threads s' = threads s \<and> klists s' = klists s \<and>
    ready_group s' = ready_group s \<and> current_thread s' = current_thread s \<and> timers s' = timers s \<and>
    timer_list s' = removeAll r (timer_list s) \<and> rt_tick s' = rt_tick s \<and> kstate.more s' = kstate.more s \<and>
    (\<forall>q. q \<noteq> r \<longrightarrow> objects s' q = objects s q)"
proof -
  let ?s1 = "clear_activated r (timer_remove r s)"
  have fr: "timer_frame s ?s1" by simp
  have "kstate.more (rt_object_detach r ?s1) = kstate.more s"
    using fr by (simp add: rt_object_detach_def object_unlink_def timer_frame_def)
  moreover have "ready_group ?s1 = ready_group s" using fr by (simp add: timer_frame_def)
  ultimately show ?thesis
    using assms timer_frame_sel [OF fr] by (simp add: rt_timer_detach_def clear_activated_def)
qed

text \<open>The running thread ends: it is closed, its timer and its object are gone, and another thread
  gets the processor.\<close>

lemma thread_exit_spec:
  assumes inv: "kernel_inv s" and c: "current_thread s = Some c" and lv: "live (threads s c)"
    and sys: "rt_object_is_systemobject (Kobj c) s"
  shows "\<exists>s' c'. thread_exit s = Some s' \<and> kernel_inv s' \<and> current_thread s' = Some c' \<and>
    stat_base (threads s' c) = RT_THREAD_CLOSE \<and> rt_object_get_type (Kobj c) s' = 0 \<and>
    Thread_timer c \<notin> set (timer_list s')"
proof -
  note D = kernel_invD [OF inv] and objs = thread_objsD [OF inv lv]
  let ?s1 = "thread_cleanup_execute c s"
  have wf: "thread_wf (threads s c)" using D(2) lv by (auto simp: queue_inv_def)
  have q1: "queue_inv {} ?s1" using D(2) by (simp add: cleanup_inv)
  have "thread_wf (threads ?s1 c)" using wf by (simp add: thread_wf_def stack_ok_def)
  from rq.remove_ok [OF q1 this] obtain s2 where s2: "rt_schedule_remove_thread c ?s1 = Some s2"
    "queue_inv {c} s2" "threads s2 = threads ?s1" "current_thread s2 = current_thread ?s1"
    "sched_frame ?s1 s2" by auto
  note f2 = sched_frame_sel [OF s2(5)]
  let ?s3 = "upd_thread c (\<lambda>th. th\<lparr>t_stat := RT_THREAD_CLOSE\<rparr>) s2"
  have cl: "stat_base ((th :: rt_thread)\<lparr>t_stat := RT_THREAD_CLOSE\<rparr>) = RT_THREAD_CLOSE" for th
    by (simp add: stat_base_def)
  have "current_ok s2" using D(3) cleanup_inv(2) [of c s] s2(3,4) by (simp add: current_ok_def)
  then have q3: "sched_inv ?s3"
    by (intro rq.retire [OF s2(2)]) (simp_all add: cl runnable_def live_def)
  have "rt_object_get_type (Thread_timer c) ?s3 = RT_Object_Class_Timer"
    "rt_object_is_systemobject (Thread_timer c) ?s3"
    using objs f2(1) by (simp_all add: rt_object_get_type_def rt_object_is_systemobject_def)
  from timer_detach_run [OF this] obtain s4 where s4: "rt_timer_detach (Thread_timer c) ?s3 = Some (RT_EOK, s4)"
    "threads s4 = threads ?s3" "klists s4 = klists ?s3" "ready_group s4 = ready_group ?s3"
    "current_thread s4 = current_thread ?s3" "timers s4 = timers ?s3"
    "timer_list s4 = removeAll (Thread_timer c) (timer_list ?s3)" "rt_tick s4 = rt_tick ?s3"
    "\<forall>q. q \<noteq> Thread_timer c \<longrightarrow> objects s4 q = objects ?s3 q" by blast
  let ?s5 = "rt_object_detach (Kobj c) s4"
  have sys4: "rt_object_is_systemobject (Kobj c) s4"
    using sys s4(9) f2(1) by (simp add: rt_object_is_systemobject_def)
  have q5: "sched_inv ?s5" using sched_inv_cong [OF s4(3,4,2,5)] q3 by simp
  have "Kobj c \<notin> set (timer_list s)"
    using D(4) objs(1) by (auto simp: timer_ok_def startable_def class_defs)
  then have i5: "kernel_inv ?s5"
    using s4 s2(3) f2 by (intro kernel_inv_closed [OF inv q5]) (auto simp: cl live_def)
  have c5: "current_thread ?s5 = Some c" using s4(5) s2(4) c by simp
  obtain s6 c6 where s6: "rt_schedule ?s5 = Some s6" "kernel_inv s6" "current_thread s6 = Some c6"
    "sched_frame ?s5 s6" "keeps_blocked ?s5 s6" using kernel_schedule [OF i5 c5] by blast
  note f6 = sched_frame_sel [OF s6(4)]
  have cl5: "stat_base (threads ?s5 c) = RT_THREAD_CLOSE" using s4(2) by (simp add: cl)
  then have "stat_base (threads s6 c) = RT_THREAD_CLOSE"
    using s6(5) by (simp add: keeps_blocked_def runnable_def)
  moreover have "thread_exit s = Some s6"
    using c s2(1) s4(1) sys4 s6(1) by (simp add: thread_exit_def rt_thread_self_def Let_def)
  ultimately show ?thesis
    using s6(2,3) f6(1,5) s4(7) by (simp add: rt_object_get_type_def)
qed

text \<open>Detaching a live thread from outside.\<close>

lemma rt_thread_detach_spec:
  assumes inv: "kernel_inv s" and lv: "live (threads s t)"
    and sys: "rt_object_is_systemobject (Kobj t) s"
  shows "\<exists>s'. rt_thread_detach t s = Some (RT_EOK, s') \<and> kernel_inv s' \<and>
    current_thread s' = current_thread s \<and> stat_base (threads s' t) = RT_THREAD_CLOSE \<and>
    rt_object_get_type (Kobj t) s' = 0 \<and> kstate.more s' = kstate.more s \<and>
    (\<forall>u. u \<noteq> t \<longrightarrow> threads s' u = threads s u \<and> objects s' (Kobj u) = objects s (Kobj u))"
proof -
  note D = kernel_invD [OF inv] and objs = thread_objsD [OF inv lv]
  obtain s1 where s1: "rt_schedule_remove_thread t s = Some s1" "queue_inv {t} s1"
    "threads s1 = threads s" "current_thread s1 = current_thread s" "sched_frame s s1"
    using rq.dequeue [OF D(1) lv] by blast
  note f1 = sched_frame_sel [OF s1(5)]
  let ?s2 = "thread_cleanup_execute t s1"
  have "rt_object_get_type (Thread_timer t) ?s2 = RT_Object_Class_Timer"
    "rt_object_is_systemobject (Thread_timer t) ?s2"
    using objs f1(1) by (simp_all add: rt_object_get_type_def rt_object_is_systemobject_def)
  from timer_detach_run [OF this] obtain s3 where s3: "rt_timer_detach (Thread_timer t) ?s2 = Some (RT_EOK, s3)"
    "threads s3 = threads ?s2" "klists s3 = klists ?s2" "ready_group s3 = ready_group ?s2"
    "current_thread s3 = current_thread ?s2" "timers s3 = timers ?s2"
    "timer_list s3 = removeAll (Thread_timer t) (timer_list ?s2)" "rt_tick s3 = rt_tick ?s2"
    "kstate.more s3 = kstate.more ?s2"
    "\<forall>q. q \<noteq> Thread_timer t \<longrightarrow> objects s3 q = objects ?s2 q" by blast
  have "queue_inv {t} s3 = queue_inv {t} ?s2" by (rule queue_inv_cong) (simp_all add: s3)
  then have q3: "queue_inv {t} s3" using s1(2) by (simp add: cleanup_inv)
  have c3: "current_ok s3"
    using D(3) s1(3,4) cleanup_inv(2) [of t s1] s3(2,5) by (simp add: current_ok_def)
  let ?f = "\<lambda>th. th\<lparr>t_stat := RT_THREAD_CLOSE\<rparr>"
  let ?s4 = "upd_thread t ?f s3"
  have cl: "stat_base (?f th) = RT_THREAD_CLOSE" for th :: rt_thread by (simp add: stat_base_def)
  have q4: "sched_inv ?s4" by (rule rq.retire [OF q3 c3]) (simp_all add: cl runnable_def live_def)
  let ?s5 = "rt_object_detach (Kobj t) ?s4"
  have "Kobj t \<notin> set (timer_list s)"
    using D(4) objs(1) by (auto simp: timer_ok_def startable_def class_defs)
  then have "kernel_inv ?s5"
    using s3 s1(3) f1 q4 by (intro kernel_inv_closed [OF inv, of ?s5 t]) (auto simp: cl live_def)
  moreover have "rt_object_is_systemobject (Kobj t) ?s4"
    using sys s3(10) f1(1) by (simp add: rt_object_is_systemobject_def)
  moreover have "stat_base (threads s t) \<noteq> RT_THREAD_CLOSE" "stat_base (threads s t) \<noteq> RT_THREAD_INIT"
    using lv by (auto simp: live_def)
  ultimately have "rt_thread_detach t s = Some (RT_EOK, ?s5)"
    using objs(1) sys s1(1) s3(1) by (simp add: rt_thread_detach_def thread_close_def)
  moreover have "kstate.more ?s5 = kstate.more s"
    using s3(9) f1(7) by (simp add: rt_object_detach_def object_unlink_def)
  ultimately show ?thesis
    using \<open>kernel_inv ?s5\<close> s3 s1(3,4) f1(1) by (auto simp: cl rt_object_get_type_def)
qed

end
