(* ===== verification/Ipc.thy ===== *)
theory Ipc
  imports Kernel_Inv
begin

text \<open>
  What the IPC objects of \<^verbatim>\<open>rt-thread/src/ipc.c\<close> share: the records of all of them, which extend the kernel
  state, and the waiting list of an object (\<^verbatim>\<open>_ipc_list_suspend\<close>, \<^verbatim>\<open>_ipc_list_resume\<close>,
  \<^verbatim>\<open>_ipc_list_resume_all\<close>). Then the counting semaphore.

  The object number \<open>n\<close> has its kernel object at \<open>Kobj n\<close>, its waiting threads in \<open>Susp n\<close> and, for a
  mailbox or a message queue, its waiting senders in \<open>SendSusp n\<close>.
  A call that may block returns \<open>Return\<close> with its error code, or \<open>Wait\<close> when the caller was suspended and
  the processor given away; the continuation is the definition with the suffix \<open>_resumed\<close>, run when the
  thread is scheduled again. \<open>Wait\<close> carries the tick at which the wait began.
\<close>

record rt_mutex =
  m_value :: u16
  original_priority :: u8
  m_hold :: u8
  m_owner :: "nat option"

record rt_mailbox =
  msg_pool :: "nat \<Rightarrow> u32"
  mb_size :: u16
  mb_entry :: u16
  in_offset :: u16
  out_offset :: u16

text \<open>A message queue: a node is its number in the pool; \<open>mq_next\<close> are the links and \<open>mq_data\<close> the
  contents of the nodes.\<close>

record rt_messagequeue =
  mq_msg_size :: u16
  mq_max_msgs :: u16
  mq_entry :: u16
  mq_head :: "nat option"
  mq_tail :: "nat option"
  mq_free :: "nat option"
  mq_next :: "nat \<Rightarrow> nat option"
  mq_data :: "nat \<Rightarrow> u8 list"

record ipc_state = kstate +
  sems :: "nat \<Rightarrow> u16"
  mutexes :: "nat \<Rightarrow> rt_mutex"
  event_sets :: "nat \<Rightarrow> u32"
  mailboxes :: "nat \<Rightarrow> rt_mailbox"
  mqueues :: "nat \<Rightarrow> rt_messagequeue"

datatype 'v outcome = Return rt_err_t 'v | Wait u32

section \<open>Waiting lists\<close>

definition RT_IPC_FLAG_FIFO :: u8 where "RT_IPC_FLAG_FIFO = 0x00"
definition RT_IPC_FLAG_PRIO :: u8 where "RT_IPC_FLAG_PRIO = 0x01"

datatype ipc_cmd = RT_IPC_CMD_RESET | RT_IPC_CMD_OTHER

lemma ipc_flag_distinct [simp]: "RT_IPC_FLAG_FIFO \<noteq> RT_IPC_FLAG_PRIO" "RT_IPC_FLAG_PRIO \<noteq> RT_IPC_FLAG_FIFO"
  by (simp_all add: RT_IPC_FLAG_FIFO_def RT_IPC_FLAG_PRIO_def)

text \<open>\<^verbatim>\<open>RT_DEBUG_IN_THREAD_CONTEXT\<close> and \<^verbatim>\<open>RT_DEBUG_NOT_IN_INTERRUPT\<close>.\<close>

definition in_thread_context :: "'a kstate_scheme \<Rightarrow> bool" where
  "in_thread_context s \<longleftrightarrow> current_thread s \<noteq> None \<and> interrupt_nest s = 0"

text \<open>\<^verbatim>\<open>_ipc_object_init\<close>: an empty waiting list.\<close>

definition ipc_object_init :: "nat \<Rightarrow> 'a kstate_scheme \<Rightarrow> 'a kstate_scheme" where
  "ipc_object_init n s = s\<lparr>klists := (klists s)(Susp n := [])\<rparr>"

fun prio_insert :: "(nat \<Rightarrow> u8) \<Rightarrow> nat \<Rightarrow> nat list \<Rightarrow> nat list" where
  "prio_insert pr t [] = [t]"
| "prio_insert pr t (u # us) = (if pr t < pr u then t # u # us else u # prio_insert pr t us)"

definition ipc_list_suspend :: "lhead \<Rightarrow> nat \<Rightarrow> u8 \<Rightarrow> 'a kstate_scheme \<Rightarrow> 'a kstate_scheme option" where
  "ipc_list_suspend h t flag s = do {
     (_, s1) \<leftarrow> rt_thread_suspend t s;
     if flag = RT_IPC_FLAG_FIFO then Some (tlist_insert_before h t s1)
     else if flag = RT_IPC_FLAG_PRIO
     then Some (s1\<lparr>klists := (klists s1)(h :=
             prio_insert (\<lambda>u. current_priority (threads s1 u)) t (klists s1 h))\<rparr>)
     else None
   }"

definition ipc_list_resume :: "lhead \<Rightarrow> 'a kstate_scheme \<Rightarrow> 'a kstate_scheme option" where
  "ipc_list_resume h s =
     (case klists s h of [] \<Rightarrow> None
      | t # _ \<Rightarrow> map_option snd (rt_thread_resume t s))"

partial_function (option) ipc_list_resume_all :: "lhead \<Rightarrow> 'a kstate_scheme \<Rightarrow> 'a kstate_scheme option"
where
  "ipc_list_resume_all h s =
     (case klists s h of [] \<Rightarrow> Some s
      | t # _ \<Rightarrow> do {
          (_, s1) \<leftarrow> rt_thread_resume t (upd_thread t (\<lambda>th. th\<lparr>t_error := - RT_ERROR\<rparr>) s);
          ipc_list_resume_all h s1
        })"

text \<open>The waiting part the blocking calls share: link the thread, arm its timer when there is a timeout
  (\<open>time\<close> is an \<^verbatim>\<open>rt_int32_t\<close>), give up the processor.\<close>

definition ipc_block :: "lhead \<Rightarrow> nat \<Rightarrow> u8 \<Rightarrow> int \<Rightarrow> 'a kstate_scheme \<Rightarrow> 'a kstate_scheme option" where
  "ipc_block h t flag time s = do {
     s1 \<leftarrow> ipc_list_suspend h t flag s;
     s2 \<leftarrow> (if time > 0 then thread_timer_arm t (of_int time) s1 else Some s1);
     rt_schedule s2
   }"

text \<open>\<^verbatim>\<open>if (!rt_list_isempty(..)) { _ipc_list_resume(..); rt_schedule(); }\<close>\<close>

definition ipc_wake_one :: "lhead \<Rightarrow> 'a kstate_scheme \<Rightarrow> 'a kstate_scheme option" where
  "ipc_wake_one h s =
     (if klists s h \<noteq> [] then do { s1 \<leftarrow> ipc_list_resume h s; rt_schedule s1 } else Some s)"

section \<open>Semaphores\<close>

definition RT_SEM_VALUE_MAX :: u16 where "RT_SEM_VALUE_MAX = 0xffff"

definition sem_set :: "nat \<Rightarrow> u16 \<Rightarrow> 'a ipc_state_scheme \<Rightarrow> 'a ipc_state_scheme" where
  "sem_set n v s = s\<lparr>sems := (sems s)(n := v)\<rparr>"

definition rt_sem_init ::
  "nat \<Rightarrow> string \<Rightarrow> u32 \<Rightarrow> u8 \<Rightarrow> 'a ipc_state_scheme \<Rightarrow> (rt_err_t \<times> 'a ipc_state_scheme) option" where
  "rt_sem_init n name val flag s = do {
     _ \<leftarrow> RT_ASSERT (val < 0x10000);
     _ \<leftarrow> RT_ASSERT (flag = RT_IPC_FLAG_FIFO \<or> flag = RT_IPC_FLAG_PRIO);
     s1 \<leftarrow> rt_object_init (Kobj n) RT_Object_Class_Semaphore name s;
     let s2 = sem_set n (ucast val) (ipc_object_init n s1);
     Some (RT_EOK, upd_object (Kobj n) (\<lambda>ob. ob\<lparr>o_flag := flag\<rparr>) s2)
   }"

definition rt_sem_detach :: "nat \<Rightarrow> 'a ipc_state_scheme \<Rightarrow> (rt_err_t \<times> 'a ipc_state_scheme) option" where
  "rt_sem_detach n s = do {
     _ \<leftarrow> RT_ASSERT (rt_object_get_type (Kobj n) s = RT_Object_Class_Semaphore);
     _ \<leftarrow> RT_ASSERT (rt_object_is_systemobject (Kobj n) s);
     s1 \<leftarrow> ipc_list_resume_all (Susp n) s;
     Some (RT_EOK, rt_object_detach (Kobj n) s1)
   }"

definition rt_sem_create ::
  "nat option \<Rightarrow> string \<Rightarrow> u32 \<Rightarrow> u8 \<Rightarrow> 'a ipc_state_scheme \<Rightarrow> (nat option \<times> 'a ipc_state_scheme) option" where
  "rt_sem_create ptr name val flag s = do {
     _ \<leftarrow> RT_ASSERT (val < 0x10000);
     _ \<leftarrow> RT_ASSERT (flag = RT_IPC_FLAG_FIFO \<or> flag = RT_IPC_FLAG_PRIO);
     _ \<leftarrow> RT_ASSERT (interrupt_nest s = 0);
     (ob, s1) \<leftarrow> rt_object_allocate (map_option Kobj ptr) RT_Object_Class_Semaphore name s;
     case ptr of None \<Rightarrow> Some (None, s1)
     | Some n \<Rightarrow> Some (Some n, upd_object (Kobj n) (\<lambda>ob. ob\<lparr>o_flag := flag\<rparr>)
                                (sem_set n (ucast val) (ipc_object_init n s1)))
   }"

definition rt_sem_delete :: "nat \<Rightarrow> 'a ipc_state_scheme \<Rightarrow> (rt_err_t \<times> 'a ipc_state_scheme) option" where
  "rt_sem_delete n s = do {
     _ \<leftarrow> RT_ASSERT (rt_object_get_type (Kobj n) s = RT_Object_Class_Semaphore);
     _ \<leftarrow> RT_ASSERT (\<not> rt_object_is_systemobject (Kobj n) s);
     _ \<leftarrow> RT_ASSERT (interrupt_nest s = 0);
     s1 \<leftarrow> ipc_list_resume_all (Susp n) s;
     s2 \<leftarrow> rt_object_delete (Kobj n) s1;
     Some (RT_EOK, s2)
   }"

definition rt_sem_take ::
  "nat \<Rightarrow> int \<Rightarrow> 'a ipc_state_scheme \<Rightarrow> (unit outcome \<times> 'a ipc_state_scheme) option" where
  "rt_sem_take n time s = do {
     _ \<leftarrow> RT_ASSERT (rt_object_get_type (Kobj n) s = RT_Object_Class_Semaphore);
     if sems s n > 0 then Some (Return RT_EOK (), sem_set n (sems s n - 1) s)
     else if time = 0 then Some (Return (- RT_ETIMEOUT) (), s)
     else do {
       _ \<leftarrow> RT_ASSERT (in_thread_context s);
       t \<leftarrow> rt_thread_self s;
       let s1 = upd_thread t (\<lambda>th. th\<lparr>t_error := RT_EOK\<rparr>) s;
       s2 \<leftarrow> ipc_block (Susp n) t (o_flag (objects s1 (Kobj n))) time s1;
       Some (Wait (rt_tick s), s2)
     }
   }"

text \<open>When the thread runs again, its error code tells whether it was woken by a release (0), by the
  timeout, by a signal or by the destruction of the semaphore.\<close>

definition sem_take_resumed :: "nat \<Rightarrow> 'a ipc_state_scheme \<Rightarrow> rt_err_t" where
  "sem_take_resumed t s =
     (if t_error (threads s t) \<noteq> RT_EOK then t_error (threads s t) else RT_EOK)"

definition rt_sem_trytake ::
  "nat \<Rightarrow> 'a ipc_state_scheme \<Rightarrow> (unit outcome \<times> 'a ipc_state_scheme) option" where
  "rt_sem_trytake n s = rt_sem_take n RT_WAITING_NO s"

definition rt_sem_release :: "nat \<Rightarrow> 'a ipc_state_scheme \<Rightarrow> (rt_err_t \<times> 'a ipc_state_scheme) option" where
  "rt_sem_release n s = do {
     _ \<leftarrow> RT_ASSERT (rt_object_get_type (Kobj n) s = RT_Object_Class_Semaphore);
     if klists s (Susp n) \<noteq> [] then do {
       s1 \<leftarrow> ipc_list_resume (Susp n) s;
       s2 \<leftarrow> rt_schedule s1;
       Some (RT_EOK, s2)
     }
     else if sems s n < RT_SEM_VALUE_MAX then Some (RT_EOK, sem_set n (sems s n + 1) s)
     else Some (- RT_EFULL, s)
   }"

definition rt_sem_control ::
  "nat \<Rightarrow> ipc_cmd \<Rightarrow> u32 \<Rightarrow> 'a ipc_state_scheme \<Rightarrow> (rt_err_t \<times> 'a ipc_state_scheme) option" where
  "rt_sem_control n cmd arg s = do {
     _ \<leftarrow> RT_ASSERT (rt_object_get_type (Kobj n) s = RT_Object_Class_Semaphore);
     case cmd of
       RT_IPC_CMD_RESET \<Rightarrow> do {
         s1 \<leftarrow> ipc_list_resume_all (Susp n) s;
         s2 \<leftarrow> rt_schedule (sem_set n (ucast arg) s1);
         Some (RT_EOK, s2) }
     | RT_IPC_CMD_OTHER \<Rightarrow> Some (- RT_ERROR, s)
   }"

lemmas ipc_defs [kdefs] = in_thread_context_def ipc_object_init_def ipc_list_suspend_def
  ipc_list_resume_def ipc_block_def ipc_wake_one_def
lemmas sem_defs [kdefs] = sem_set_def rt_sem_init_def rt_sem_detach_def rt_sem_create_def
  rt_sem_delete_def rt_sem_take_def sem_take_resumed_def rt_sem_trytake_def rt_sem_release_def
  rt_sem_control_def

section \<open>Waiting lists keep the kernel invariant\<close>

lemma kernel_inv_cong:
  assumes "klists s' = klists s" "ready_group s' = ready_group s" "threads s' = threads s"
    "current_thread s' = current_thread s" "timers s' = timers s" "timer_list s' = timer_list s"
    "rt_tick s' = rt_tick s" "objects s' = objects s"
  shows "kernel_inv s' = kernel_inv s"
proof -
  have "sched_inv s' = sched_inv s" using assms by (intro sched_inv_cong)
  moreover have "timer_sorted s' = timer_sorted s" using assms by (intro timer_sorted_cong) simp_all
  ultimately show ?thesis
    by (simp add: kernel_inv_def timer_ok_def startable_def thread_objs_def timer_links_def
        rt_object_get_type_def rt_object_is_systemobject_def is_periodic_def is_activated_def assms)
qed

lemma kernel_inv_ipc [simp]:
  "kernel_inv (s\<lparr>sems := a\<rparr>) = kernel_inv s" "kernel_inv (s\<lparr>mutexes := b\<rparr>) = kernel_inv s"
  "kernel_inv (s\<lparr>event_sets := c\<rparr>) = kernel_inv s" "kernel_inv (s\<lparr>mailboxes := d\<rparr>) = kernel_inv s"
  "kernel_inv (s\<lparr>mqueues := e\<rparr>) = kernel_inv s"
  by (rule kernel_inv_cong; simp)+

lemma ipc_sel_upd [simp]:
  "sems (upd_thread t f s) = sems s"
  "mutexes (upd_thread t f s) = mutexes s"
  "event_sets (upd_thread t f s) = event_sets s"
  "mailboxes (upd_thread t f s) = mailboxes s"
  "mqueues (upd_thread t f s) = mqueues s"
  "sems (upd_object r g s) = sems s"
  "mutexes (upd_object r g s) = mutexes s"
  "event_sets (upd_object r g s) = event_sets s"
  "mailboxes (upd_object r g s) = mailboxes s"
  "mqueues (upd_object r g s) = mqueues s"
  "sems (upd_timer r k s) = sems s"
  "mutexes (upd_timer r k s) = mutexes s"
  "event_sets (upd_timer r k s) = event_sets s"
  "mailboxes (upd_timer r k s) = mailboxes s"
  "mqueues (upd_timer r k s) = mqueues s"
  "sems (tlist_remove t s) = sems s"
  "mutexes (tlist_remove t s) = mutexes s"
  "event_sets (tlist_remove t s) = event_sets s"
  "mailboxes (tlist_remove t s) = mailboxes s"
  "mqueues (tlist_remove t s) = mqueues s"
  "sems (tlist_insert_before h t s) = sems s"
  "mutexes (tlist_insert_before h t s) = mutexes s"
  "event_sets (tlist_insert_before h t s) = event_sets s"
  "mailboxes (tlist_insert_before h t s) = mailboxes s"
  "mqueues (tlist_insert_before h t s) = mqueues s"
  by (simp_all add: upd_defs tlist_defs)

lemma kframe_ipc:
  fixes s s' :: "'a ipc_state_scheme"
  assumes "kframe s s'"
  shows "sems s' = sems s" "mutexes s' = mutexes s" "event_sets s' = event_sets s"
    "mailboxes s' = mailboxes s" "mqueues s' = mqueues s" "ipc_state.more s' = ipc_state.more s"
  using assms unfolding kframe_def by (cases s, cases s', simp)+

lemma kframe_flag:
  assumes "kframe s s'" "o_flag (objects s r) = RT_IPC_FLAG_FIFO \<or> o_flag (objects s r) = RT_IPC_FLAG_PRIO"
    "objects s' r = objects s r"
  shows "o_flag (objects s' r) = o_flag (objects s r)"
  using assms by simp

lemma set_prio_insert [simp]: "set (prio_insert pr t us) = insert t (set us)"
  by (induction us) auto

lemma distinct_prio_insert: "t \<notin> set us \<Longrightarrow> distinct us \<Longrightarrow> distinct (prio_insert pr t us)"
  by (induction us) auto

text \<open>Insertion by priority goes behind the threads of the same or a higher priority.\<close>

lemma prio_insert_split:
  "prio_insert pr t us = takeWhile (\<lambda>u. pr u \<le> pr t) us @ t # dropWhile (\<lambda>u. pr u \<le> pr t) us"
  by (induction us) auto

definition wait_order :: "u8 \<Rightarrow> (nat \<Rightarrow> u8) \<Rightarrow> nat \<Rightarrow> nat list \<Rightarrow> nat list" where
  "wait_order flag pr t us = (if flag = RT_IPC_FLAG_FIFO then us @ [t] else prio_insert pr t us)"

text \<open>Suspending a thread and linking it anywhere into a waiting list.\<close>

lemma suspend_and_link:
  assumes inv: "kernel_inv s" and r: "runnable (threads s t)" and h: "h = Susp n \<or> h = SendSusp n"
    and L: "\<And>xs. t \<notin> set xs \<Longrightarrow> distinct xs \<Longrightarrow> set (L xs) = insert t (set xs) \<and> distinct (L xs)"
  shows "\<exists>s1 s'. rt_thread_suspend t s = Some (RT_EOK, s1) \<and> klists s1 h = klists s h \<and>
    (\<forall>u. current_priority (threads s1 u) = current_priority (threads s u)) \<and>
    s' = s1\<lparr>klists := (klists s1)(h := L (klists s1 h))\<rparr> \<and> kernel_inv s' \<and> kframe s s' \<and>
    current_thread s' = current_thread s \<and>
    threads s' = (threads s)(t := set_stat RT_THREAD_SUSPEND (threads s t)) \<and> klists s' h = L (klists s h) \<and>
    (\<forall>h'. wait_head h' \<and> h' \<noteq> h \<longrightarrow> klists s' h' = klists s h')"
proof -
  obtain s1 where s1: "rt_thread_suspend t s = Some (RT_EOK, s1)" "kernel_inv s1" "kframe s s1"
    "current_thread s1 = current_thread s" "\<forall>h. t \<notin> set (klists s1 h)"
    "threads s1 = (threads s)(t := set_stat RT_THREAD_SUSPEND (threads s t))"
    "\<forall>h. wait_head h \<longrightarrow> klists s1 h = klists s h"
    using rt_thread_suspend_spec [OF inv r] by blast
  have kh: "klists s1 h = klists s h" using s1(7) h by auto
  let ?s' = "s1\<lparr>klists := (klists s1)(h := L (klists s1 h))\<rparr>"
  have "distinct (klists s1 h)" using kernel_invD(2) [OF s1(2)] by (simp add: queue_inv_def linked_once_def)
  then have l: "set (L (klists s1 h)) = insert t (set (klists s1 h))" "distinct (L (klists s1 h))"
    using L s1(5) by blast+
  have q: "sched_inv ?s'"
    using wait_link_inv [OF kernel_invD(1) [OF s1(2)] _ _ h l] s1(5,6) by simp
  have "kernel_inv ?s'"
    by (rule kernel_inv_transfer [OF s1(2) q]) simp_all
  then show ?thesis using s1(1) kframe_trans [OF s1(3) kframe_klists(1)] s1(4,6,7) kh by auto
qed

lemma ipc_list_suspend_spec:
  assumes inv: "kernel_inv s" and r: "runnable (threads s t)"
    and flag: "flag = RT_IPC_FLAG_FIFO \<or> flag = RT_IPC_FLAG_PRIO" and h: "h = Susp n \<or> h = SendSusp n"
  shows "\<exists>s'. ipc_list_suspend h t flag s = Some s' \<and> kernel_inv s' \<and> kframe s s' \<and>
    current_thread s' = current_thread s \<and>
    threads s' = (threads s)(t := set_stat RT_THREAD_SUSPEND (threads s t)) \<and>
    klists s' h = wait_order flag (\<lambda>u. current_priority (threads s u)) t (klists s h) \<and>
    (\<forall>h'. wait_head h' \<and> h' \<noteq> h \<longrightarrow> klists s' h' = klists s h')"
proof -
  let ?L = "wait_order flag (\<lambda>u. current_priority (threads s u)) t"
  have "t \<notin> set xs \<Longrightarrow> distinct xs \<Longrightarrow> set (?L xs) = insert t (set xs) \<and> distinct (?L xs)" for xs
    by (auto simp: wait_order_def distinct_prio_insert)
  from suspend_and_link [OF inv r h, of ?L, OF this] obtain s1 s' where
    s1: "rt_thread_suspend t s = Some (RT_EOK, s1)" "klists s1 h = klists s h"
      "\<forall>u. current_priority (threads s1 u) = current_priority (threads s u)"
      "s' = s1\<lparr>klists := (klists s1)(h := ?L (klists s1 h))\<rparr>" and
    s': "kernel_inv s'" "kframe s s'" "current_thread s' = current_thread s"
      "threads s' = (threads s)(t := set_stat RT_THREAD_SUSPEND (threads s t))" "klists s' h = ?L (klists s h)"
      "\<forall>h'. wait_head h' \<and> h' \<noteq> h \<longrightarrow> klists s' h' = klists s h'" by blast
  have "ipc_list_suspend h t flag s = Some s'"
    using flag s1 by (auto simp: ipc_list_suspend_def wait_order_def tlist_insert_before_def)
  then show ?thesis using s' by blast
qed

lemma unat_of_small_int: "0 < x \<Longrightarrow> x < 0x7fffffff \<Longrightarrow> unat (of_int x :: u32) = nat x"
proof -
  assume x: "0 < x" "x < 0x7fffffff"
  then have "uint (of_int x :: u32) = x" by (simp add: uint_word_of_int take_bit_int_eq_self)
  then show "unat (of_int x :: u32) = nat x" by (metis unat_eq_nat_uint)
qed

text \<open>The end of a blocking call: the thread is suspended and linked; its timer is armed when there is a timeout
  and the processor given away.\<close>

lemma arm_and_schedule:
  assumes inv: "kernel_inv s1" and c: "current_thread s1 = Some c"
    and st1: "stat_base (threads s1 c) = RT_THREAD_SUSPEND" and time: "time < 0x7fffffff"
  shows "\<exists>s2 s3 c'. (if time > 0 then thread_timer_arm c (of_int time) s1 else Some s1) = Some s2 \<and>
    rt_schedule s2 = Some s3 \<and> kernel_inv s3 \<and> kframe s1 s3 \<and> current_thread s3 = Some c' \<and>
    stat_base (threads s3 c) = RT_THREAD_SUSPEND \<and> t_error (threads s3 c) = t_error (threads s1 c) \<and>
    (\<forall>h. wait_head h \<longrightarrow> klists s3 h = klists s1 h) \<and>
    (0 < time \<longrightarrow> Thread_timer c \<in> set (timer_list s3) \<and> expiry s3 (Thread_timer c) = Suc (nat time))"
proof -
  have tick: "0 < time \<Longrightarrow> (of_int time :: u32) < RT_TICK_MAX div 2"
    "0 < time \<Longrightarrow> unat (of_int time :: u32) = nat time"
    using unat_of_small_int [of time] time by (auto simp: RT_TICK_MAX_half word_less_nat_alt)
  have "\<exists>s2. (if time > 0 then thread_timer_arm c (of_int time) s1 else Some s1) = Some s2 \<and>
      kernel_inv s2 \<and> timer_frame s1 s2 \<and>
      (0 < time \<longrightarrow> Thread_timer c \<in> set (timer_list s2) \<and> expiry s2 (Thread_timer c) = Suc (nat time))"
    using thread_timer_arm_spec [OF inv st1 tick(1)] tick(2) inv by (cases "0 < time") auto
  then obtain s2 where s2: "(if time > 0 then thread_timer_arm c (of_int time) s1 else Some s1) = Some s2"
    "kernel_inv s2" "timer_frame s1 s2" "0 < time \<longrightarrow> Thread_timer c \<in> set (timer_list s2) \<and>
      expiry s2 (Thread_timer c) = Suc (nat time)" by blast
  note f2 = timer_frame_sel [OF s2(3)]
  have "current_thread s2 = Some c" "stat_base (threads s2 c) = RT_THREAD_SUSPEND" using f2 c st1 by auto
  from block_and_schedule [OF s2(2) this] obtain s3 c' where s3: "rt_schedule s2 = Some s3" "kernel_inv s3"
    "current_thread s3 = Some c'" "sched_frame s2 s3" "stat_base (threads s3 c) = RT_THREAD_SUSPEND"
    "\<forall>h. wait_head h \<longrightarrow> klists s3 h = klists s2 h" by blast
  note f3 = sched_frame_sel [OF s3(4)]
  have "t_error (threads s3 c) = t_error (threads s2 c)"
    using s3(4) unfolding sched_frame_def by (metis rt_thread.ext_inject rt_thread.surjective rt_thread.update_convs(7))
  then have "t_error (threads s3 c) = t_error (threads s1 c)" using f2(1) by simp
  moreover have "kframe s1 s3" using kframe_trans [OF timer_frame_kframe [OF s2(3)] sched_frame_kframe [OF s3(4)]] .
  moreover have "0 < time \<longrightarrow> Thread_timer c \<in> set (timer_list s3) \<and> expiry s3 (Thread_timer c) = Suc (nat time)"
    using s2(4) f3(3,4,5) by (simp add: expiry_def)
  ultimately show ?thesis using s2(1) s3(1,2,3,5,6) f2(2) by metis
qed

text \<open>What a blocking call leaves behind: the caller is suspended at its place in the waiting list,
  another thread has the processor.\<close>

lemma ipc_block_spec:
  assumes inv: "kernel_inv s" and c: "current_thread s = Some c"
    and r: "stat_base (threads s c) = RT_THREAD_RUNNING"
    and flag: "flag = RT_IPC_FLAG_FIFO \<or> flag = RT_IPC_FLAG_PRIO" and h: "h = Susp n \<or> h = SendSusp n"
    and time: "time < 0x7fffffff"
  shows "\<exists>s' c'. ipc_block h c flag time s = Some s' \<and> kernel_inv s' \<and> kframe s s' \<and>
    current_thread s' = Some c' \<and> stat_base (threads s' c) = RT_THREAD_SUSPEND \<and>
    t_error (threads s' c) = t_error (threads s c) \<and>
    klists s' h = wait_order flag (\<lambda>u. current_priority (threads s u)) c (klists s h) \<and>
    (\<forall>h'. wait_head h' \<and> h' \<noteq> h \<longrightarrow> klists s' h' = klists s h') \<and>
    (0 < time \<longrightarrow> Thread_timer c \<in> set (timer_list s') \<and> expiry s' (Thread_timer c) = Suc (nat time))"
proof -
  have "runnable (threads s c)" using r by (simp add: runnable_def)
  from ipc_list_suspend_spec [OF inv this flag h] obtain s1 where s1:
    "ipc_list_suspend h c flag s = Some s1" "kernel_inv s1" "kframe s s1" "current_thread s1 = Some c"
    "threads s1 = (threads s)(c := set_stat RT_THREAD_SUSPEND (threads s c))"
    "klists s1 h = wait_order flag (\<lambda>u. current_priority (threads s u)) c (klists s h)"
    "\<forall>h'. wait_head h' \<and> h' \<noteq> h \<longrightarrow> klists s1 h' = klists s h'" using c by auto
  have "stat_base (threads s1 c) = RT_THREAD_SUSPEND" by (simp add: s1(5))
  from arm_and_schedule [OF s1(2,4) this time] obtain s2 s3 c' where s3:
    "(if time > 0 then thread_timer_arm c (of_int time) s1 else Some s1) = Some s2" "rt_schedule s2 = Some s3"
    "kernel_inv s3" "kframe s1 s3" "current_thread s3 = Some c'" "stat_base (threads s3 c) = RT_THREAD_SUSPEND"
    "t_error (threads s3 c) = t_error (threads s1 c)" "\<forall>h. wait_head h \<longrightarrow> klists s3 h = klists s1 h"
    "0 < time \<longrightarrow> Thread_timer c \<in> set (timer_list s3) \<and> expiry s3 (Thread_timer c) = Suc (nat time)" by blast
  have "ipc_block h c flag time s = Some s3" using s1(1) s3(1,2) by (simp add: ipc_block_def)
  moreover have "t_error (threads s3 c) = t_error (threads s c)" using s3(7) s1(5) by simp
  moreover have "wait_head h" using h by auto
  ultimately show ?thesis using s3(3,5,6,8,9) s1(6,7) kframe_trans [OF s1(3) s3(4)] by metis
qed

lemma waiting_suspended:
  assumes "kernel_inv s" "t \<in> set (klists s h)" "h = Susp n \<or> h = SendSusp n"
  shows "stat_base (threads s t) = RT_THREAD_SUSPEND"
  using kernel_invD(2) [OF assms(1)] assms(2,3) by (auto simp: queue_inv_def wait_ok_def)

lemma waiting_distinct: "kernel_inv s \<Longrightarrow> distinct (klists s h)"
  by (frule kernel_invD(2)) (simp add: queue_inv_def linked_once_def)

lemma removeAll_tail: "distinct (x # xs) \<Longrightarrow> removeAll x (x # xs) = xs"
  by simp

text \<open>Waking the first waiter of a list.\<close>

lemma ipc_list_resume_spec:
  assumes inv: "kernel_inv s" and l: "klists s h = t # ts" and h: "h = Susp n \<or> h = SendSusp n"
  shows "\<exists>s'. ipc_list_resume h s = Some s' \<and> kernel_inv s' \<and> kframe s s' \<and>
    current_thread s' = current_thread s \<and> klists s' h = ts \<and> runnable (threads s' t) \<and>
    t_error (threads s' t) = t_error (threads s t) \<and> (\<forall>u. u \<noteq> t \<longrightarrow> threads s' u = threads s u) \<and>
    (\<forall>h'. wait_head h' \<and> h' \<noteq> h \<longrightarrow> klists s' h' = klists s h') \<and>
    timers s' = timers s \<and> (\<exists>P. timer_list s' = filter P (timer_list s)) \<and>
    (\<exists>P. timer_fired s' = filter P (timer_fired s))"
proof -
  have st: "stat_base (threads s t) = RT_THREAD_SUSPEND" using waiting_suspended [OF inv _ h, of t] l by simp
  obtain s' b where s': "rt_thread_resume t s = Some (RT_EOK, s')" "kernel_inv s'" "kframe s s'"
    "current_thread s' = current_thread s" "b \<in> {RT_THREAD_READY, RT_THREAD_RUNNING}"
    "threads s' = (threads s)(t := set_stat b (threads s t))" "timers s' = timers s"
    "timer_list s' = removeAll (Thread_timer t) (timer_list s)"
    "\<exists>P. timer_fired s' = filter P (timer_fired s)"
    "\<forall>h. wait_head h \<longrightarrow> klists s' h = removeAll t (klists s h)"
    using rt_thread_resume_spec [OF inv st] by metis
  have "linked_once s" using kernel_invD(2) [OF inv] by (simp add: queue_inv_def)
  then have other: "h' \<noteq> h \<Longrightarrow> t \<notin> set (klists s h')" for h'
    using l unfolding linked_once_def by (metis list.set_intros(1))
  have "wait_head h" using h by auto
  then have "klists s' h = ts" using s'(10) l waiting_distinct [OF inv, of h] by simp
  moreover have "runnable (threads s' t)" using s'(5,6) by (auto simp: runnable_def)
  moreover have "klists s' h' = klists s h'" if "wait_head h'" "h' \<noteq> h" for h'
    using that s'(10) other by simp
  moreover have "\<exists>P. timer_list s' = filter P (timer_list s)"
    using s'(8) by (auto simp: removeAll_filter_not_eq)
  ultimately show ?thesis using l s'(1-7,9) by (auto simp: ipc_list_resume_def)
qed

lemma ipc_list_resume_all_spec:
  assumes "kernel_inv s" "h = Susp n \<or> h = SendSusp n"
  shows "\<exists>s'. ipc_list_resume_all h s = Some s' \<and> kernel_inv s' \<and> kframe s s' \<and>
    current_thread s' = current_thread s \<and> klists s' h = [] \<and>
    (\<forall>t \<in> set (klists s h). runnable (threads s' t) \<and> t_error (threads s' t) = - RT_ERROR) \<and>
    (\<forall>t. t \<notin> set (klists s h) \<longrightarrow> threads s' t = threads s t)"
  using assms
proof (induction "klists s h" arbitrary: s)
  case Nil
  then show ?case by (auto simp: ipc_list_resume_all.simps)
next
  case (Cons t ts)
  let ?s1 = "upd_thread t (\<lambda>th. th\<lparr>t_error := - RT_ERROR\<rparr>) s"
  have i1: "kernel_inv ?s1" and l1: "klists ?s1 h = t # ts" using Cons.prems Cons.hyps(2) by simp_all
  obtain s2 where s2: "ipc_list_resume h ?s1 = Some s2" "kernel_inv s2" "kframe ?s1 s2"
    "current_thread s2 = current_thread s" "klists s2 h = ts" "runnable (threads s2 t)"
    "t_error (threads s2 t) = - RT_ERROR" "\<forall>u. u \<noteq> t \<longrightarrow> threads s2 u = threads s u"
    using ipc_list_resume_spec [OF i1 l1 Cons.prems(2)] by auto
  obtain s3 where s3: "ipc_list_resume_all h s2 = Some s3" "kernel_inv s3" "kframe s2 s3"
    "current_thread s3 = current_thread s2" "klists s3 h = []"
    "\<forall>t \<in> set ts. runnable (threads s3 t) \<and> t_error (threads s3 t) = - RT_ERROR"
    "\<forall>t. t \<notin> set ts \<longrightarrow> threads s3 t = threads s2 t"
    using Cons.hyps(1) [of s2] s2(2,5) Cons.prems(2) by auto
  have "t \<notin> set ts" using waiting_distinct [OF Cons.prems(1), of h] Cons.hyps(2) [symmetric] by simp
  moreover obtain e where "rt_thread_resume t ?s1 = Some (e, s2)"
    using s2(1) l1 by (auto simp: ipc_list_resume_def)
  then have "ipc_list_resume_all h s = Some s3"
    using Cons.hyps(2) [symmetric] s3(1) by (subst ipc_list_resume_all.simps) simp
  moreover have "kframe s s3" using kframe_trans [OF kframe_trans [OF kframe_error s2(3)] s3(3)] .
  ultimately show ?case using s2(4,6,7,8) s3 Cons.hyps(2) [symmetric] by auto
qed

text \<open>Waking the first waiter, if any, and rescheduling.\<close>

lemma ipc_wake_one_spec:
  assumes inv: "kernel_inv s" and c: "current_thread s = Some c" and h: "h = Susp n \<or> h = SendSusp n"
  shows "\<exists>s' c'. ipc_wake_one h s = Some s' \<and> kernel_inv s' \<and> kframe s s' \<and>
    current_thread s' = Some c' \<and> klists s' h = tl (klists s h) \<and>
    (klists s h \<noteq> [] \<longrightarrow> runnable (threads s' (hd (klists s h))) \<and>
       t_error (threads s' (hd (klists s h))) = t_error (threads s (hd (klists s h)))) \<and>
    (\<forall>h'. wait_head h' \<and> h' \<noteq> h \<longrightarrow> klists s' h' = klists s h')"
proof (cases "klists s h")
  case Nil
  then show ?thesis using inv c by (auto simp: ipc_wake_one_def)
next
  case (Cons t ts)
  obtain s1 where s1: "ipc_list_resume h s = Some s1" "kernel_inv s1" "kframe s s1"
    "current_thread s1 = Some c" "klists s1 h = ts" "runnable (threads s1 t)"
    "t_error (threads s1 t) = t_error (threads s t)"
    "\<forall>h'. wait_head h' \<and> h' \<noteq> h \<longrightarrow> klists s1 h' = klists s h'"
    using ipc_list_resume_spec [OF inv Cons h] c by auto
  obtain s2 c2 where s2: "rt_schedule s1 = Some s2" "kernel_inv s2" "current_thread s2 = Some c2"
    "sched_frame s1 s2" "keeps_blocked s1 s2" "\<forall>h. wait_head h \<longrightarrow> klists s2 h = klists s1 h"
    using kernel_schedule [OF s1(2,4)] by blast
  have "t_error (threads s2 t) = t_error (threads s1 t)"
    using s2(4) unfolding sched_frame_def by (metis rt_thread.ext_inject rt_thread.surjective rt_thread.update_convs(7))
  moreover have "runnable (threads s2 t)" using s2(5) s1(6) by (simp add: keeps_blocked_def)
  moreover have "kframe s s2" using kframe_trans [OF s1(3) sched_frame_kframe [OF s2(4)]] .
  moreover have "wait_head h" using h by auto
  ultimately show ?thesis
    using Cons s1 s2 by (auto simp: ipc_wake_one_def)
qed

section \<open>The waiting list as an interface\<close>

text \<open>
  What the IPC objects rely on: blocking links the caller at its place and hands the processor on,
  waking takes the first waiter and leaves its error code alone. A call that blocked on an empty
  list and is then woken returns with the error code it was blocked with, \<^verbatim>\<open>RT_EOK\<close>.
\<close>

locale wait_queue =
  fixes block :: "lhead \<Rightarrow> nat \<Rightarrow> u8 \<Rightarrow> int \<Rightarrow> 'a kstate_scheme \<Rightarrow> 'a kstate_scheme option"
    and wake :: "lhead \<Rightarrow> 'a kstate_scheme \<Rightarrow> 'a kstate_scheme option"
  assumes block_ok: "kernel_inv s \<Longrightarrow> current_thread s = Some c \<Longrightarrow>
      stat_base (threads s c) = RT_THREAD_RUNNING \<Longrightarrow>
      flag = RT_IPC_FLAG_FIFO \<or> flag = RT_IPC_FLAG_PRIO \<Longrightarrow> h = Susp n \<or> h = SendSusp n \<Longrightarrow>
      time < 0x7fffffff \<Longrightarrow>
      \<exists>s' c'. block h c flag time s = Some s' \<and> kernel_inv s' \<and> kframe s s' \<and>
        current_thread s' = Some c' \<and> stat_base (threads s' c) = RT_THREAD_SUSPEND \<and>
        t_error (threads s' c) = t_error (threads s c) \<and>
        klists s' h = wait_order flag (\<lambda>u. current_priority (threads s u)) c (klists s h)"
    and wake_ok: "kernel_inv s \<Longrightarrow> current_thread s = Some c \<Longrightarrow> h = Susp n \<or> h = SendSusp n \<Longrightarrow>
      \<exists>s' c'. wake h s = Some s' \<and> kernel_inv s' \<and> kframe s s' \<and> current_thread s' = Some c' \<and>
        klists s' h = tl (klists s h) \<and>
        (klists s h \<noteq> [] \<longrightarrow> runnable (threads s' (hd (klists s h))) \<and>
           t_error (threads s' (hd (klists s h))) = t_error (threads s (hd (klists s h))))"
begin

lemma block_then_wake:
  assumes "kernel_inv s" "current_thread s = Some c" "stat_base (threads s c) = RT_THREAD_RUNNING"
    "flag = RT_IPC_FLAG_FIFO \<or> flag = RT_IPC_FLAG_PRIO" "h = Susp n \<or> h = SendSusp n"
    "time < 0x7fffffff" "klists s h = []"
  shows "\<exists>s1 s2. block h c flag time s = Some s1 \<and> wake h s1 = Some s2 \<and> kernel_inv s2 \<and>
    klists s2 h = [] \<and> runnable (threads s2 c) \<and> t_error (threads s2 c) = t_error (threads s c)"
proof -
  obtain s1 c1 where s1: "block h c flag time s = Some s1" "kernel_inv s1" "current_thread s1 = Some c1"
    "t_error (threads s1 c) = t_error (threads s c)"
    "klists s1 h = wait_order flag (\<lambda>u. current_priority (threads s u)) c (klists s h)"
    using block_ok [OF assms(1-6)] by blast
  have l: "klists s1 h = [c]" using s1(5) assms(7) by (simp add: wait_order_def)
  from wake_ok [OF s1(2,3) assms(5)] l s1(1,4) show ?thesis by auto
qed

end

interpretation wq: wait_queue ipc_block ipc_wake_one
proof unfold_locales
  fix s :: "'a kstate_scheme" and c flag h n and time :: int
  assume "kernel_inv s" "current_thread s = Some c" "stat_base (threads s c) = RT_THREAD_RUNNING"
    "flag = RT_IPC_FLAG_FIFO \<or> flag = RT_IPC_FLAG_PRIO" "h = Susp n \<or> h = SendSusp n" "time < 0x7fffffff"
  from ipc_block_spec [OF this] show "\<exists>s' c'. ipc_block h c flag time s = Some s' \<and> kernel_inv s' \<and>
        kframe s s' \<and> current_thread s' = Some c' \<and> stat_base (threads s' c) = RT_THREAD_SUSPEND \<and>
        t_error (threads s' c) = t_error (threads s c) \<and>
        klists s' h = wait_order flag (\<lambda>u. current_priority (threads s u)) c (klists s h)" by blast
next
  fix s :: "'a kstate_scheme" and c h n
  assume "kernel_inv s" "current_thread s = Some c" "h = Susp n \<or> h = SendSusp n"
  from ipc_wake_one_spec [OF this] show "\<exists>s' c'. ipc_wake_one h s = Some s' \<and> kernel_inv s' \<and>
        kframe s s' \<and> current_thread s' = Some c' \<and> klists s' h = tl (klists s h) \<and>
        (klists s h \<noteq> [] \<longrightarrow> runnable (threads s' (hd (klists s h))) \<and>
           t_error (threads s' (hd (klists s h))) = t_error (threads s (hd (klists s h))))" by blast
qed

section \<open>Semaphores: count and waiters\<close>

text \<open>Nobody waits while the count is positive.\<close>

definition sem_inv :: "nat \<Rightarrow> 'a ipc_state_scheme \<Rightarrow> bool" where
  "sem_inv n s \<longleftrightarrow> rt_object_get_type (Kobj n) s = RT_Object_Class_Semaphore \<and>
     o_flag (objects s (Kobj n)) AND NOT RT_TIMER_FLAG_ACTIVATED = 0 \<and>
     (sems s n > 0 \<longrightarrow> klists s (Susp n) = [])"

lemma ipc_flag_cases:
  assumes "f AND NOT RT_TIMER_FLAG_ACTIVATED = (0 :: u8)"
  shows "f = RT_IPC_FLAG_FIFO \<or> f = RT_IPC_FLAG_PRIO"
proof -
  have "f = f AND 1" using assms
    by (metis RT_TIMER_FLAG_ACTIVATED_def and.right_neutral bit.conj_disj_distrib bit.disj_cancel_right bit.disj_zero_right)
  moreover have "f AND 1 = 0 \<or> f AND 1 = 1" by (simp add: and_one_eq mod2_eq_if)
  ultimately show ?thesis by (auto simp: RT_IPC_FLAG_FIFO_def RT_IPC_FLAG_PRIO_def)
qed

lemma sem_set_sel [simp]:
  "sems (sem_set n v s) = (sems s)(n := v)" "kernel_inv (sem_set n v s) = kernel_inv s"
  "klists (sem_set n v s) = klists s" "objects (sem_set n v s) = objects s"
  "threads (sem_set n v s) = threads s" "current_thread (sem_set n v s) = current_thread s"
  by (simp_all add: sem_set_def)

lemma sem_inv_kframe:
  assumes "sem_inv n s" "kframe s s'" "sems s n > 0 \<longrightarrow> klists s' (Susp n) = []"
  shows "sem_inv n s'"
  using assms kframe_get_type [OF assms(2), of "Kobj n"] kframe_ipc(1) [OF assms(2)]
  by (simp add: sem_inv_def kframe_def)

lemma rt_sem_take_spec:
  assumes inv: "kernel_inv s" "sem_inv n s" and ctx: "current_thread s = Some c" "interrupt_nest s = 0"
    and r: "stat_base (threads s c) = RT_THREAD_RUNNING" and time: "time < 0x7fffffff"
  shows "\<exists>o' s' c'. rt_sem_take n time s = Some (o', s') \<and> kernel_inv s' \<and> sem_inv n s' \<and>
    current_thread s' = Some c' \<and>
    (sems s n > 0 \<longrightarrow> o' = Return RT_EOK () \<and> sems s' n = sems s n - 1 \<and> c' = c) \<and>
    (sems s n = 0 \<and> time = 0 \<longrightarrow> o' = Return (- RT_ETIMEOUT) () \<and> s' = s) \<and>
    (sems s n = 0 \<and> time \<noteq> 0 \<longrightarrow> o' = Wait (rt_tick s) \<and> sems s' n = 0 \<and>
       stat_base (threads s' c) = RT_THREAD_SUSPEND \<and> c \<in> set (klists s' (Susp n)))"
proof -
  have ty: "rt_object_get_type (Kobj n) s = RT_Object_Class_Semaphore" using inv(2) by (simp add: sem_inv_def)
  show ?thesis
  proof (cases "sems s n > 0")
    case True
    then show ?thesis using inv ctx ty
      by (auto simp: rt_sem_take_def sem_inv_def rt_object_get_type_def)
  next
    case zero: False
    show ?thesis
    proof (cases "time = 0")
      case True
      then show ?thesis using inv zero ctx ty by (auto simp: rt_sem_take_def)
    next
      case False
      let ?s1 = "upd_thread c (\<lambda>th. th\<lparr>t_error := RT_EOK\<rparr>) s"
      have flag: "o_flag (objects ?s1 (Kobj n)) = RT_IPC_FLAG_FIFO \<or> o_flag (objects ?s1 (Kobj n)) = RT_IPC_FLAG_PRIO"
        using inv(2) ipc_flag_cases by (simp add: sem_inv_def)
      obtain s2 c2 where s2: "ipc_block (Susp n) c (o_flag (objects ?s1 (Kobj n))) time ?s1 = Some s2"
        "kernel_inv s2" "kframe ?s1 s2" "current_thread s2 = Some c2"
        "stat_base (threads s2 c) = RT_THREAD_SUSPEND"
        "klists s2 (Susp n) = wait_order (o_flag (objects ?s1 (Kobj n)))
           (\<lambda>u. current_priority (threads ?s1 u)) c (klists ?s1 (Susp n))"
        using wq.block_ok [OF _ _ _ flag _ time, of ?s1 c "Susp n" n] inv(1) ctx(1) r by auto
      have "sem_inv n s2"
        using sem_inv_kframe [OF inv(2) kframe_trans [OF kframe_error s2(3)]] zero by simp
      moreover have "c \<in> set (klists s2 (Susp n))" by (simp add: s2(6) wait_order_def)
      moreover have "sems s2 n = 0" using kframe_ipc(1) [OF s2(3)] zero by (simp add: word_gt_0)
      moreover have "rt_sem_take n time s = Some (Wait (rt_tick s), s2)"
        using zero False ty ctx s2(1) by (simp add: rt_sem_take_def in_thread_context_def rt_thread_self_def)
      ultimately show ?thesis using s2(2,4,5) zero False by auto
    qed
  qed
qed

lemma rt_sem_release_spec:
  assumes inv: "kernel_inv s" "sem_inv n s" and c: "current_thread s = Some c"
  shows "\<exists>e s' c'. rt_sem_release n s = Some (e, s') \<and> kernel_inv s' \<and> sem_inv n s' \<and>
    current_thread s' = Some c' \<and>
    (klists s (Susp n) \<noteq> [] \<longrightarrow> e = RT_EOK \<and> sems s' n = sems s n \<and>
       klists s' (Susp n) = tl (klists s (Susp n)) \<and> runnable (threads s' (hd (klists s (Susp n)))) \<and>
       sem_take_resumed (hd (klists s (Susp n))) s' = t_error (threads s (hd (klists s (Susp n))))) \<and>
    (klists s (Susp n) = [] \<and> sems s n < RT_SEM_VALUE_MAX \<longrightarrow>
       e = RT_EOK \<and> s' = sem_set n (sems s n + 1) s) \<and>
    (klists s (Susp n) = [] \<and> sems s n = RT_SEM_VALUE_MAX \<longrightarrow> e = - RT_EFULL \<and> s' = s)"
proof -
  have ty: "rt_object_get_type (Kobj n) s = RT_Object_Class_Semaphore" using inv(2) by (simp add: sem_inv_def)
  show ?thesis
  proof (cases "klists s (Susp n) = []")
    case True
    then show ?thesis using inv c ty
      by (auto simp: rt_sem_release_def sem_inv_def rt_object_get_type_def)
  next
    case False
    obtain s1 c1 where s1: "ipc_wake_one (Susp n) s = Some s1" "kernel_inv s1" "kframe s s1"
      "current_thread s1 = Some c1" "klists s1 (Susp n) = tl (klists s (Susp n))"
      "runnable (threads s1 (hd (klists s (Susp n))))"
      "t_error (threads s1 (hd (klists s (Susp n)))) = t_error (threads s (hd (klists s (Susp n))))"
      using wq.wake_ok [OF inv(1) c, of "Susp n" n] False by auto
    have "sem_inv n s1" using sem_inv_kframe [OF inv(2) s1(3)] inv(2) s1(5) by (auto simp: sem_inv_def)
    moreover have "rt_sem_release n s = Some (RT_EOK, s1)"
      using False ty s1(1) by (auto simp: rt_sem_release_def ipc_wake_one_def)
    ultimately show ?thesis
      using s1 False kframe_ipc(1) [OF s1(3)] by (simp add: sem_take_resumed_def)
  qed
qed

end
