(* ===== verification/Mutex.thy ===== *)
theory Mutex
  imports Ipc
begin

text \<open>
  The recursive mutex of \<^verbatim>\<open>rt-thread/src/ipc.c\<close> with its priority inheritance. Both calls of
  \<^verbatim>\<open>rt_thread_control\<close> in this file pass a pointer where the changed \<^verbatim>\<open>rt_thread_control\<close> takes the
  priority itself, so the value it stores is the low byte of an address. The addresses are the
  parameters \<open>addr_prio t\<close>, of the field \<^verbatim>\<open>current_priority\<close> of thread \<open>t\<close>, and \<open>addr_orig n\<close>, of the field
  \<^verbatim>\<open>original_priority\<close> of mutex \<open>n\<close>.
\<close>

definition RT_MUTEX_HOLD_MAX :: u8 where "RT_MUTEX_HOLD_MAX = 0xff"
definition RT_MUTEX_VALUE_MAX :: u16 where "RT_MUTEX_VALUE_MAX = 0xffff"

definition upd_mutex ::
  "nat \<Rightarrow> (rt_mutex \<Rightarrow> rt_mutex) \<Rightarrow> 'a ipc_state_scheme \<Rightarrow> 'a ipc_state_scheme" where
  "upd_mutex n f s = s\<lparr>mutexes := (mutexes s)(n := f (mutexes s n))\<rparr>"

definition mutex_fresh :: rt_mutex where
  "mutex_fresh = \<lparr>m_value = 1, original_priority = 0xff, m_hold = 0, m_owner = None\<rparr>"

definition rt_mutex_init ::
  "nat \<Rightarrow> string \<Rightarrow> u8 \<Rightarrow> 'a ipc_state_scheme \<Rightarrow> (rt_err_t \<times> 'a ipc_state_scheme) option" where
  "rt_mutex_init n name flag s = do {
     s1 \<leftarrow> rt_object_init (Kobj n) RT_Object_Class_Mutex name s;
     let s2 = upd_mutex n (\<lambda>_. mutex_fresh) (ipc_object_init n s1);
     Some (RT_EOK, upd_object (Kobj n) (\<lambda>ob. ob\<lparr>o_flag := RT_IPC_FLAG_PRIO\<rparr>) s2)
   }"

definition rt_mutex_detach :: "nat \<Rightarrow> 'a ipc_state_scheme \<Rightarrow> (rt_err_t \<times> 'a ipc_state_scheme) option" where
  "rt_mutex_detach n s = do {
     _ \<leftarrow> RT_ASSERT (rt_object_get_type (Kobj n) s = RT_Object_Class_Mutex);
     _ \<leftarrow> RT_ASSERT (rt_object_is_systemobject (Kobj n) s);
     s1 \<leftarrow> ipc_list_resume_all (Susp n) s;
     Some (RT_EOK, rt_object_detach (Kobj n) s1)
   }"

definition rt_mutex_create ::
  "nat option \<Rightarrow> string \<Rightarrow> u8 \<Rightarrow> 'a ipc_state_scheme \<Rightarrow> (nat option \<times> 'a ipc_state_scheme) option" where
  "rt_mutex_create ptr name flag s = do {
     _ \<leftarrow> RT_ASSERT (interrupt_nest s = 0);
     (ob, s1) \<leftarrow> rt_object_allocate (map_option Kobj ptr) RT_Object_Class_Mutex name s;
     case ptr of None \<Rightarrow> Some (None, s1)
     | Some n \<Rightarrow> Some (Some n, upd_object (Kobj n) (\<lambda>ob. ob\<lparr>o_flag := RT_IPC_FLAG_PRIO\<rparr>)
                                (upd_mutex n (\<lambda>_. mutex_fresh) (ipc_object_init n s1)))
   }"

definition rt_mutex_delete :: "nat \<Rightarrow> 'a ipc_state_scheme \<Rightarrow> (rt_err_t \<times> 'a ipc_state_scheme) option" where
  "rt_mutex_delete n s = do {
     _ \<leftarrow> RT_ASSERT (rt_object_get_type (Kobj n) s = RT_Object_Class_Mutex);
     _ \<leftarrow> RT_ASSERT (\<not> rt_object_is_systemobject (Kobj n) s);
     _ \<leftarrow> RT_ASSERT (interrupt_nest s = 0);
     s1 \<leftarrow> ipc_list_resume_all (Susp n) s;
     s2 \<leftarrow> rt_object_delete (Kobj n) s1;
     Some (RT_EOK, s2)
   }"

text \<open>The code from the label \<^verbatim>\<open>__again\<close> to the point where the thread gives up the processor.\<close>

definition mutex_take_again ::
  "(nat \<Rightarrow> u32) \<Rightarrow> nat \<Rightarrow> int \<Rightarrow> nat \<Rightarrow> 'a ipc_state_scheme \<Rightarrow> (unit outcome \<times> 'a ipc_state_scheme) option" where
  "mutex_take_again addr_prio n time t s =
     (if m_value (mutexes s n) > 0 then
        let s1 = upd_mutex n (\<lambda>m. m\<lparr>m_value := m_value m - 1, m_owner := Some t,
                   original_priority := current_priority (threads s t)\<rparr>) s
        in if m_hold (mutexes s1 n) < RT_MUTEX_HOLD_MAX
           then Some (Return RT_EOK (), upd_mutex n (\<lambda>m. m\<lparr>m_hold := m_hold m + 1\<rparr>) s1)
           else Some (Return (- RT_EFULL) (), s1)
      else if time = 0
      then Some (Return (- RT_ETIMEOUT) (), upd_thread t (\<lambda>th. th\<lparr>t_error := - RT_ETIMEOUT\<rparr>) s)
      else do {
        owner \<leftarrow> m_owner (mutexes s n);
        (_, s1) \<leftarrow> (if current_priority (threads s t) < current_priority (threads s owner)
                    then rt_thread_control owner CTRL_CHANGE_PRIORITY (addr_prio t) s
                    else Some (RT_EOK, s));
        s2 \<leftarrow> ipc_block (Susp n) t (o_flag (objects s1 (Kobj n))) time s1;
        Some (Wait (rt_tick s), s2)
      })"

definition rt_mutex_take ::
  "(nat \<Rightarrow> u32) \<Rightarrow> nat \<Rightarrow> int \<Rightarrow> 'a ipc_state_scheme \<Rightarrow> (unit outcome \<times> 'a ipc_state_scheme) option" where
  "rt_mutex_take addr_prio n time s = do {
     _ \<leftarrow> RT_ASSERT (in_thread_context s);
     _ \<leftarrow> RT_ASSERT (rt_object_get_type (Kobj n) s = RT_Object_Class_Mutex);
     t \<leftarrow> rt_thread_self s;
     let s1 = upd_thread t (\<lambda>th. th\<lparr>t_error := RT_EOK\<rparr>) s;
     if m_owner (mutexes s1 n) = Some t
     then (if m_hold (mutexes s1 n) < RT_MUTEX_HOLD_MAX
           then Some (Return RT_EOK (), upd_mutex n (\<lambda>m. m\<lparr>m_hold := m_hold m + 1\<rparr>) s1)
           else Some (Return (- RT_EFULL) (), s1))
     else mutex_take_again addr_prio n time t s1
   }"

text \<open>The thread runs again: interrupted by a signal it tries again, with the same timeout.\<close>

definition mutex_take_resumed ::
  "(nat \<Rightarrow> u32) \<Rightarrow> nat \<Rightarrow> int \<Rightarrow> nat \<Rightarrow> 'a ipc_state_scheme \<Rightarrow> (unit outcome \<times> 'a ipc_state_scheme) option" where
  "mutex_take_resumed addr_prio n time t s =
     (if t_error (threads s t) \<noteq> RT_EOK then
        (if t_error (threads s t) = - RT_EINTR then mutex_take_again addr_prio n time t s
         else Some (Return (t_error (threads s t)) (), s))
      else Some (Return RT_EOK (), s))"

definition rt_mutex_trytake ::
  "(nat \<Rightarrow> u32) \<Rightarrow> nat \<Rightarrow> 'a ipc_state_scheme \<Rightarrow> (unit outcome \<times> 'a ipc_state_scheme) option" where
  "rt_mutex_trytake addr_prio n s = rt_mutex_take addr_prio n RT_WAITING_NO s"

text \<open>Giving the mutex up when the last hold is released: to the first waiter, or free.\<close>

definition mutex_hand_over :: "nat \<Rightarrow> 'a ipc_state_scheme \<Rightarrow> (rt_err_t \<times> 'a ipc_state_scheme) option" where
  "mutex_hand_over n s =
     (case klists s (Susp n) of
        w # _ \<Rightarrow>
          let s1 = upd_mutex n (\<lambda>m. m\<lparr>m_owner := Some w,
                     original_priority := current_priority (threads s w)\<rparr>) s
          in if m_hold (mutexes s1 n) < RT_MUTEX_HOLD_MAX then do {
               s2 \<leftarrow> ipc_list_resume (Susp n) (upd_mutex n (\<lambda>m. m\<lparr>m_hold := m_hold m + 1\<rparr>) s1);
               s3 \<leftarrow> rt_schedule s2;
               Some (RT_EOK, s3)
             } else Some (- RT_EFULL, s1)
      | [] \<Rightarrow>
          if m_value (mutexes s n) < RT_MUTEX_VALUE_MAX
          then Some (RT_EOK, upd_mutex n (\<lambda>m. m\<lparr>m_value := m_value m + 1, m_owner := None,
                 original_priority := 0xff\<rparr>) s)
          else Some (- RT_EFULL, s))"

definition rt_mutex_release ::
  "(nat \<Rightarrow> u32) \<Rightarrow> nat \<Rightarrow> 'a ipc_state_scheme \<Rightarrow> (rt_err_t \<times> 'a ipc_state_scheme) option" where
  "rt_mutex_release addr_orig n s = do {
     _ \<leftarrow> RT_ASSERT (rt_object_get_type (Kobj n) s = RT_Object_Class_Mutex);
     _ \<leftarrow> RT_ASSERT (in_thread_context s);
     t \<leftarrow> rt_thread_self s;
     if m_owner (mutexes s n) \<noteq> Some t
     then Some (- RT_ERROR, upd_thread t (\<lambda>th. th\<lparr>t_error := - RT_ERROR\<rparr>) s)
     else do {
       let s1 = upd_mutex n (\<lambda>m. m\<lparr>m_hold := m_hold m - 1\<rparr>) s;
       if m_hold (mutexes s1 n) = 0 then do {
         (_, s2) \<leftarrow> (if original_priority (mutexes s1 n) \<noteq> current_priority (threads s1 t)
                     then rt_thread_control t CTRL_CHANGE_PRIORITY (addr_orig n) s1
                     else Some (RT_EOK, s1));
         mutex_hand_over n s2
       } else Some (RT_EOK, s1)
     }
   }"

definition rt_mutex_control :: "nat \<Rightarrow> 'a ipc_state_scheme \<Rightarrow> (rt_err_t \<times> 'a ipc_state_scheme) option" where
  "rt_mutex_control n s = do {
     _ \<leftarrow> RT_ASSERT (rt_object_get_type (Kobj n) s = RT_Object_Class_Mutex);
     Some (- RT_ERROR, s)
   }"

lemmas mutex_defs [kdefs] = upd_mutex_def mutex_fresh_def rt_mutex_init_def rt_mutex_detach_def
  rt_mutex_create_def rt_mutex_delete_def mutex_take_again_def rt_mutex_take_def mutex_take_resumed_def
  rt_mutex_trytake_def mutex_hand_over_def rt_mutex_release_def rt_mutex_control_def

section \<open>Ownership\<close>

text \<open>A mutex is free, with nobody waiting, or held a positive number of times by one thread.\<close>

definition mutex_inv :: "nat \<Rightarrow> 'a ipc_state_scheme \<Rightarrow> bool" where
  "mutex_inv n s \<longleftrightarrow> rt_object_get_type (Kobj n) s = RT_Object_Class_Mutex \<and>
     o_flag (objects s (Kobj n)) = RT_IPC_FLAG_PRIO \<and>
     (let m = mutexes s n in
        m_value m = 1 \<and> m_owner m = None \<and> m_hold m = 0 \<and> klists s (Susp n) = [] \<or>
        m_value m = 0 \<and> m_owner m \<noteq> None \<and> m_hold m > 0)"

lemma upd_mutex_sel [simp]:
  "mutexes (upd_mutex n f s) = (mutexes s)(n := f (mutexes s n))"
  "kernel_inv (upd_mutex n f s) = kernel_inv s"
  "klists (upd_mutex n f s) = klists s" "objects (upd_mutex n f s) = objects s"
  "threads (upd_mutex n f s) = threads s" "current_thread (upd_mutex n f s) = current_thread s"
  "interrupt_nest (upd_mutex n f s) = interrupt_nest s" "rt_tick (upd_mutex n f s) = rt_tick s"
  by (simp_all add: upd_mutex_def)

lemma get_type_ipc [simp]:
  "rt_object_get_type r (upd_mutex n f s) = rt_object_get_type r s"
  "rt_object_get_type r (upd_thread t g s) = rt_object_get_type r s"
  by (simp_all add: rt_object_get_type_def)

text \<open>A thread that finds the mutex free owns it afterwards; one that owns it already holds it once
  more; and another that does not wait is refused and changes nothing but its own error code.\<close>

lemma rt_mutex_take_now:
  assumes inv: "mutex_inv n s" and ctx: "current_thread s = Some c" "interrupt_nest s = 0"
  shows "m_owner (mutexes s n) = None \<Longrightarrow>
    \<exists>s'. rt_mutex_take addr n time s = Some (Return RT_EOK (), s') \<and> mutex_inv n s' \<and>
      m_owner (mutexes s' n) = Some c \<and> m_hold (mutexes s' n) = 1 \<and>
      original_priority (mutexes s' n) = current_priority (threads s c)"
    "m_owner (mutexes s n) = Some c \<Longrightarrow> m_hold (mutexes s n) < RT_MUTEX_HOLD_MAX \<Longrightarrow>
    \<exists>s'. rt_mutex_take addr n time s = Some (Return RT_EOK (), s') \<and> mutex_inv n s' \<and>
      mutexes s' n = (mutexes s n)\<lparr>m_hold := m_hold (mutexes s n) + 1\<rparr>"
    "m_owner (mutexes s n) = Some d \<Longrightarrow> d \<noteq> c \<Longrightarrow>
    rt_mutex_take addr n 0 s = Some (Return (- RT_ETIMEOUT) (), upd_thread c (\<lambda>th. th\<lparr>t_error := - RT_ETIMEOUT\<rparr>) s)"
proof -
  have ty: "rt_object_get_type (Kobj n) s = RT_Object_Class_Mutex" using inv by (simp add: mutex_inv_def)
  have plus: "h < 0xff \<Longrightarrow> 0 < h + 1" for h :: u8
    by (simp add: word_less_nat_alt unat_word_ariths)
  show "\<exists>s'. rt_mutex_take addr n time s = Some (Return RT_EOK (), s') \<and> mutex_inv n s' \<and>
      m_owner (mutexes s' n) = Some c \<and> m_hold (mutexes s' n) = 1 \<and>
      original_priority (mutexes s' n) = current_priority (threads s c)"
    if "m_owner (mutexes s n) = None"
    using that inv ctx ty
    by (auto simp: rt_mutex_take_def mutex_take_again_def mutex_inv_def Let_def in_thread_context_def
        rt_thread_self_def RT_MUTEX_HOLD_MAX_def)
  show "\<exists>s'. rt_mutex_take addr n time s = Some (Return RT_EOK (), s') \<and> mutex_inv n s' \<and>
      mutexes s' n = (mutexes s n)\<lparr>m_hold := m_hold (mutexes s n) + 1\<rparr>"
    if "m_owner (mutexes s n) = Some c" "m_hold (mutexes s n) < RT_MUTEX_HOLD_MAX"
    using that inv ctx ty plus
    by (auto simp: rt_mutex_take_def mutex_inv_def Let_def in_thread_context_def rt_thread_self_def
        RT_MUTEX_HOLD_MAX_def)
  show "rt_mutex_take addr n 0 s = Some (Return (- RT_ETIMEOUT) (), upd_thread c (\<lambda>th. th\<lparr>t_error := - RT_ETIMEOUT\<rparr>) s)"
    if "m_owner (mutexes s n) = Some d" "d \<noteq> c"
    using that inv ctx ty
    by (auto simp: rt_mutex_take_def mutex_take_again_def mutex_inv_def Let_def in_thread_context_def
        rt_thread_self_def upd_thread_def)
qed

text \<open>A mutex operation on a state that differs in what the kernel frame leaves open.\<close>

lemma mutex_inv_kframe:
  assumes "mutex_inv n s" "kframe s s'" "objects s' (Kobj n) = objects s (Kobj n)"
    "m_value (mutexes s n) = 1 \<Longrightarrow> klists s' (Susp n) = []"
  shows "mutex_inv n s'"
  using assms(1,3,4) kframe_get_type [OF assms(2), of "Kobj n"] kframe_ipc(2) [OF assms(2)]
  by (auto simp: mutex_inv_def Let_def)

lemma m_hold_gt_1: "1 < h \<Longrightarrow> (0::u8) < h - 1"
  by (simp add: word_less_nat_alt unat_sub_if')

text \<open>Only the owner can release; a mutex held more than once stays with its owner.\<close>

lemma rt_mutex_release_kept:
  assumes inv: "mutex_inv n s" and ctx: "current_thread s = Some c" "interrupt_nest s = 0"
  shows "m_owner (mutexes s n) \<noteq> Some c \<Longrightarrow>
      rt_mutex_release addr n s = Some (- RT_ERROR, upd_thread c (\<lambda>th. th\<lparr>t_error := - RT_ERROR\<rparr>) s)"
    "m_owner (mutexes s n) = Some c \<Longrightarrow> 1 < m_hold (mutexes s n) \<Longrightarrow>
      \<exists>s'. rt_mutex_release addr n s = Some (RT_EOK, s') \<and> mutex_inv n s' \<and>
        s' = upd_mutex n (\<lambda>m. m\<lparr>m_hold := m_hold m - 1\<rparr>) s"
proof -
  have ty: "rt_object_get_type (Kobj n) s = RT_Object_Class_Mutex" using inv by (simp add: mutex_inv_def)
  show "rt_mutex_release addr n s = Some (- RT_ERROR, upd_thread c (\<lambda>th. th\<lparr>t_error := - RT_ERROR\<rparr>) s)"
    if "m_owner (mutexes s n) \<noteq> Some c"
    using that ctx ty by (simp add: rt_mutex_release_def in_thread_context_def rt_thread_self_def)
  show "\<exists>s'. rt_mutex_release addr n s = Some (RT_EOK, s') \<and> mutex_inv n s' \<and>
        s' = upd_mutex n (\<lambda>m. m\<lparr>m_hold := m_hold m - 1\<rparr>) s"
    if "m_owner (mutexes s n) = Some c" "1 < m_hold (mutexes s n)"
    using that ctx ty inv m_hold_gt_1 [OF that(2)]
    by (auto simp: rt_mutex_release_def in_thread_context_def rt_thread_self_def mutex_inv_def Let_def)
qed

text \<open>The last release passes the mutex to the first waiter, which becomes runnable as its owner, or
  frees it.\<close>

lemma rt_mutex_release_last:
  assumes inv: "kernel_inv s" "mutex_inv n s" and ctx: "current_thread s = Some c" "interrupt_nest s = 0"
    and own: "m_owner (mutexes s n) = Some c" "m_hold (mutexes s n) = 1"
    and prio: "original_priority (mutexes s n) = current_priority (threads s c)"
  shows "\<exists>s' c'. rt_mutex_release addr n s = Some (RT_EOK, s') \<and> kernel_inv s' \<and>
    current_thread s' = Some c' \<and>
    (klists s (Susp n) = [] \<longrightarrow> mutexes s' n = mutex_fresh) \<and>
    (\<forall>w ws. klists s (Susp n) = w # ws \<longrightarrow> m_owner (mutexes s' n) = Some w \<and>
       m_hold (mutexes s' n) = 1 \<and> m_value (mutexes s' n) = 0 \<and>
       original_priority (mutexes s' n) = current_priority (threads s w) \<and>
       klists s' (Susp n) = ws \<and> runnable (threads s' w) \<and>
       t_error (threads s' w) = t_error (threads s w))"
proof -
  let ?s1 = "upd_mutex n (\<lambda>m. m\<lparr>m_hold := m_hold m - 1\<rparr>) s"
  have ty: "rt_object_get_type (Kobj n) s = RT_Object_Class_Mutex" and v: "m_value (mutexes s n) = 0"
    using inv(2) own by (auto simp: mutex_inv_def Let_def)
  have run: "rt_mutex_release addr n s = mutex_hand_over n ?s1"
    using ctx ty own prio by (simp add: rt_mutex_release_def in_thread_context_def rt_thread_self_def Let_def)
  show ?thesis
  proof (cases "klists s (Susp n)")
    case Nil
    then show ?thesis using inv(1) ctx own v unfolding run
      by (auto simp: mutex_hand_over_def RT_MUTEX_VALUE_MAX_def mutex_fresh_def intro!: rt_mutex.equality)
  next
    case (Cons w ws)
    let ?s2 = "upd_mutex n (\<lambda>m. m\<lparr>m_hold := m_hold m + 1\<rparr>) (upd_mutex n (\<lambda>m. m\<lparr>m_owner := Some w,
      original_priority := current_priority (threads s w)\<rparr>) ?s1)"
    have i2: "kernel_inv ?s2" and c2: "current_thread ?s2 = Some c" using inv(1) ctx by simp_all
    have ne: "klists ?s2 (Susp n) = w # ws" using Cons by simp
    obtain s3 c3 where s3: "ipc_wake_one (Susp n) ?s2 = Some s3" "kernel_inv s3" "kframe ?s2 s3"
      "current_thread s3 = Some c3" "klists s3 (Susp n) = ws" "runnable (threads s3 w)"
      "t_error (threads s3 w) = t_error (threads s w)"
      using wq.wake_ok [OF i2 c2, of "Susp n" n] ne by auto
    have "mutex_hand_over n ?s1 = Some (RT_EOK, s3)"
      using Cons s3(1) ne own by (auto simp: mutex_hand_over_def ipc_wake_one_def Let_def RT_MUTEX_HOLD_MAX_def)
    moreover have "mutexes s3 n = mutexes ?s2 n" using kframe_ipc(2) [OF s3(3)] by simp
    ultimately show ?thesis using s3(2,4,5,6,7) Cons v own unfolding run by auto
  qed
qed

text \<open>A waiter that does not outrank the owner is queued by priority.\<close>

lemma rt_mutex_take_block:
  assumes inv: "kernel_inv s" "mutex_inv n s" and ctx: "current_thread s = Some c" "interrupt_nest s = 0"
    and r: "stat_base (threads s c) = RT_THREAD_RUNNING" and time: "time \<noteq> 0" "time < 0x7fffffff"
    and own: "m_owner (mutexes s n) = Some d" "d \<noteq> c"
    and prio: "\<not> current_priority (threads s c) < current_priority (threads s d)"
  shows "\<exists>s' c'. rt_mutex_take addr n time s = Some (Wait (rt_tick s), s') \<and> kernel_inv s' \<and>
    current_thread s' = Some c' \<and> mutexes s' = mutexes s \<and>
    stat_base (threads s' c) = RT_THREAD_SUSPEND \<and> t_error (threads s' c) = RT_EOK \<and>
    klists s' (Susp n) = prio_insert (\<lambda>u. current_priority (threads s u)) c (klists s (Susp n))"
proof -
  let ?s1 = "upd_thread c (\<lambda>th. th\<lparr>t_error := RT_EOK\<rparr>) s"
  have ty: "rt_object_get_type (Kobj n) s = RT_Object_Class_Mutex" and v: "m_value (mutexes s n) = 0"
    and fl: "o_flag (objects s (Kobj n)) = RT_IPC_FLAG_PRIO"
    using inv(2) own by (auto simp: mutex_inv_def Let_def)
  obtain s2 c2 where s2: "ipc_block (Susp n) c RT_IPC_FLAG_PRIO time ?s1 = Some s2"
    "kernel_inv s2" "kframe ?s1 s2" "current_thread s2 = Some c2"
    "stat_base (threads s2 c) = RT_THREAD_SUSPEND" "t_error (threads s2 c) = t_error (threads ?s1 c)"
    "klists s2 (Susp n) = wait_order RT_IPC_FLAG_PRIO (\<lambda>u. current_priority (threads ?s1 u)) c (klists ?s1 (Susp n))"
    using wq.block_ok [of ?s1 c RT_IPC_FLAG_PRIO "Susp n" n time] inv(1) ctx(1) r time(2) by auto
  have pr: "(\<lambda>u. current_priority (threads ?s1 u)) = (\<lambda>u. current_priority (threads s u))" by auto
  have "rt_mutex_take addr n time s = Some (Wait (rt_tick s), s2)"
    using ctx ty own v fl prio time(1) s2(1)
    by (simp add: rt_mutex_take_def mutex_take_again_def in_thread_context_def rt_thread_self_def Let_def)
  moreover have "mutexes s2 = mutexes s" using kframe_ipc(2) [OF s2(3)] by simp
  ultimately show ?thesis using s2(2,4-7) pr by (simp add: wait_order_def)
qed

text \<open>A waiter that outranks the owner changes the owner's priority to the low byte of an address, or
  stops the system when the owner is ready and that byte is no priority.\<close>

lemma mutex_inheritance_control:
  assumes ctx: "current_thread s = Some c" "interrupt_nest s = 0" and inv: "mutex_inv n s"
    and own: "m_owner (mutexes s n) = Some d" "d \<noteq> c" and time: "time \<noteq> 0"
    and prio: "current_priority (threads s c) < current_priority (threads s d)"
  shows "rt_mutex_take addr n time s = do {
      (_, s1) \<leftarrow> rt_thread_control d CTRL_CHANGE_PRIORITY (addr c) (upd_thread c (\<lambda>th. th\<lparr>t_error := RT_EOK\<rparr>) s);
      s2 \<leftarrow> ipc_block (Susp n) c (o_flag (objects s1 (Kobj n))) time s1;
      Some (Wait (rt_tick s), s2) }"
  using assms
  by (auto simp: mutex_inv_def rt_mutex_take_def mutex_take_again_def in_thread_context_def
      rt_thread_self_def Let_def)

lemma change_priority_out_of_table:
  assumes "ready s t" "current_thread s \<noteq> Some t"
    "unat (ucast arg :: u8) \<ge> RT_THREAD_PRIORITY_MAX"
  shows "rt_thread_control t CTRL_CHANGE_PRIORITY arg s = None"
proof -
  have n: "rt_schedule_insert_thread t (upd_thread t (set_priority arg) s1) = None"
    if "current_thread s1 = current_thread s" for s1 :: "'a kstate_scheme"
    using that assms(2,3) by (simp add: rt_schedule_insert_thread_def set_priority_def)
  show ?thesis
  proof (cases "rt_schedule_remove_thread t s")
    case (Some s1)
    with assms(1) n [OF remove_thread_frame(3) [OF Some]] show ?thesis
      by (simp add: rt_thread_control_def)
  qed (use assms(1) in \<open>simp add: rt_thread_control_def\<close>)
qed

end
