(* ===== verification/Event.thy ===== *)
theory Event
  imports Mutex
begin

text \<open>
  Event sets (\<^verbatim>\<open>rt-thread/src/ipc.c\<close>): 32 flags that threads wait for, all of a set (AND) or any of it
  (OR), optionally clearing what they receive. The lemmas show that sending to an event computes
  the abstract delivery: the waiters are served in list order, each against what the earlier ones
  left.
\<close>

definition RT_EVENT_FLAG_AND :: u8 where "RT_EVENT_FLAG_AND = 0x01"
definition RT_EVENT_FLAG_OR :: u8 where "RT_EVENT_FLAG_OR = 0x02"
definition RT_EVENT_FLAG_CLEAR :: u8 where "RT_EVENT_FLAG_CLEAR = 0x04"

lemmas event_flag_defs = RT_EVENT_FLAG_AND_def RT_EVENT_FLAG_OR_def RT_EVENT_FLAG_CLEAR_def

definition event_put :: "nat \<Rightarrow> u32 \<Rightarrow> 'a ipc_state_scheme \<Rightarrow> 'a ipc_state_scheme" where
  "event_put e v s = s\<lparr>event_sets := (event_sets s)(e := v)\<rparr>"

definition rt_event_init ::
  "nat \<Rightarrow> string \<Rightarrow> u8 \<Rightarrow> 'a ipc_state_scheme \<Rightarrow> (rt_err_t \<times> 'a ipc_state_scheme) option" where
  "rt_event_init e name flag s = do {
     _ \<leftarrow> RT_ASSERT (flag = RT_IPC_FLAG_FIFO \<or> flag = RT_IPC_FLAG_PRIO);
     s1 \<leftarrow> rt_object_init (Kobj e) RT_Object_Class_Event name s;
     let s2 = upd_object (Kobj e) (\<lambda>ob. ob\<lparr>o_flag := flag\<rparr>) s1;
     Some (RT_EOK, event_put e 0 (ipc_object_init e s2))
   }"

definition rt_event_detach :: "nat \<Rightarrow> 'a ipc_state_scheme \<Rightarrow> (rt_err_t \<times> 'a ipc_state_scheme) option" where
  "rt_event_detach e s = do {
     _ \<leftarrow> RT_ASSERT (rt_object_get_type (Kobj e) s = RT_Object_Class_Event);
     _ \<leftarrow> RT_ASSERT (rt_object_is_systemobject (Kobj e) s);
     s1 \<leftarrow> ipc_list_resume_all (Susp e) s;
     Some (RT_EOK, rt_object_detach (Kobj e) s1)
   }"

definition rt_event_create ::
  "nat option \<Rightarrow> string \<Rightarrow> u8 \<Rightarrow> 'a ipc_state_scheme \<Rightarrow> (nat option \<times> 'a ipc_state_scheme) option" where
  "rt_event_create ptr name flag s = do {
     _ \<leftarrow> RT_ASSERT (flag = RT_IPC_FLAG_FIFO \<or> flag = RT_IPC_FLAG_PRIO);
     _ \<leftarrow> RT_ASSERT (interrupt_nest s = 0);
     (ob, s1) \<leftarrow> rt_object_allocate (map_option Kobj ptr) RT_Object_Class_Event name s;
     case ptr of None \<Rightarrow> Some (None, s1)
     | Some e \<Rightarrow> Some (Some e, event_put e 0 (ipc_object_init e
                                (upd_object (Kobj e) (\<lambda>ob. ob\<lparr>o_flag := flag\<rparr>) s1)))
   }"

definition rt_event_delete :: "nat \<Rightarrow> 'a ipc_state_scheme \<Rightarrow> (rt_err_t \<times> 'a ipc_state_scheme) option" where
  "rt_event_delete e s = do {
     _ \<leftarrow> RT_ASSERT (rt_object_get_type (Kobj e) s = RT_Object_Class_Event);
     _ \<leftarrow> RT_ASSERT (\<not> rt_object_is_systemobject (Kobj e) s);
     _ \<leftarrow> RT_ASSERT (interrupt_nest s = 0);
     s1 \<leftarrow> ipc_list_resume_all (Susp e) s;
     s2 \<leftarrow> rt_object_delete (Kobj e) s1;
     Some (RT_EOK, s2)
   }"

text \<open>What a waiter receives from a set: \<open>None\<close> when its options are invalid, \<open>Some None\<close> when its
  condition does not hold.\<close>

definition event_match :: "u8 \<Rightarrow> u32 \<Rightarrow> u32 \<Rightarrow> u32 option option" where
  "event_match info wanted evset =
     (if info AND RT_EVENT_FLAG_AND \<noteq> 0
      then Some (if wanted AND evset = wanted then Some wanted else None)
      else if info AND RT_EVENT_FLAG_OR \<noteq> 0
      then Some (if wanted AND evset \<noteq> 0 then Some (wanted AND evset) else None)
      else None)"

text \<open>The loop of \<^verbatim>\<open>rt_event_send\<close> over the waiting threads. It reads the next node before a thread is
  resumed, so it visits the list as it was at the start.\<close>

fun event_wake ::
  "nat \<Rightarrow> nat list \<Rightarrow> bool \<Rightarrow> 'a ipc_state_scheme \<Rightarrow> (rt_err_t option \<times> bool \<times> 'a ipc_state_scheme) option" where
  "event_wake e [] need s = Some (None, need, s)"
| "event_wake e (t # ts) need s =
     (let th = threads s t in
      case event_match (event_info th) (event_set th) (event_sets s e) of
        None \<Rightarrow> Some (Some (- RT_EINVAL), need, s)
      | Some None \<Rightarrow> event_wake e ts need s
      | Some (Some recv) \<Rightarrow> do {
          let s1 = upd_thread t (\<lambda>th. th\<lparr>event_set := recv\<rparr>) s;
          let s2 = (if event_info th AND RT_EVENT_FLAG_CLEAR \<noteq> 0
                    then event_put e (event_sets s1 e AND NOT recv) s1 else s1);
          (_, s3) \<leftarrow> rt_thread_resume t s2;
          event_wake e ts True s3
        })"

definition rt_event_send ::
  "nat \<Rightarrow> u32 \<Rightarrow> 'a ipc_state_scheme \<Rightarrow> (rt_err_t \<times> 'a ipc_state_scheme) option" where
  "rt_event_send e evset s = do {
     _ \<leftarrow> RT_ASSERT (rt_object_get_type (Kobj e) s = RT_Object_Class_Event);
     if evset = 0 then Some (- RT_ERROR, s)
     else do {
       let s1 = event_put e (event_sets s e OR evset) s;
       (err, need_schedule, s2) \<leftarrow> event_wake e (klists s1 (Susp e)) False s1;
       case err of Some x \<Rightarrow> Some (x, s2)
       | None \<Rightarrow> do {
           s3 \<leftarrow> (if need_schedule then rt_schedule s2 else Some s2);
           Some (RT_EOK, s3) }
     }
   }"

text \<open>\<^verbatim>\<open>rt_event_recv\<close>: the value of the outcome is what is stored through \<^verbatim>\<open>recved\<close>, if anything.\<close>

definition rt_event_recv ::
  "nat \<Rightarrow> u32 \<Rightarrow> u8 \<Rightarrow> int \<Rightarrow> 'a ipc_state_scheme \<Rightarrow> (u32 option outcome \<times> 'a ipc_state_scheme) option" where
  "rt_event_recv e evset option timeout s = do {
     _ \<leftarrow> RT_ASSERT (in_thread_context s);
     _ \<leftarrow> RT_ASSERT (rt_object_get_type (Kobj e) s = RT_Object_Class_Event);
     if evset = 0 then Some (Return (- RT_ERROR) None, s)
     else do {
       t \<leftarrow> rt_thread_self s;
       let s1 = upd_thread t (\<lambda>th. th\<lparr>t_error := RT_EOK\<rparr>) s;
       m \<leftarrow> event_match option evset (event_sets s1 e);
       if m \<noteq> None then
         let recv = event_sets s1 e AND evset;
             s2 = upd_thread t (\<lambda>th. th\<lparr>event_set := recv, event_info := option\<rparr>) s1;
             s3 = (if option AND RT_EVENT_FLAG_CLEAR \<noteq> 0
                   then event_put e (event_sets s2 e AND NOT evset) s2 else s2)
         in Some (Return (t_error (threads s3 t)) (Some recv), s3)
       else if timeout = 0
       then Some (Return (- RT_ETIMEOUT) None, upd_thread t (\<lambda>th. th\<lparr>t_error := - RT_ETIMEOUT\<rparr>) s1)
       else do {
         let s2 = upd_thread t (\<lambda>th. th\<lparr>event_set := evset, event_info := option\<rparr>) s1;
         s3 \<leftarrow> ipc_block (Susp e) t (o_flag (objects s2 (Kobj e))) timeout s2;
         Some (Wait (rt_tick s), s3)
       }
     }
   }"

definition event_recv_resumed :: "nat \<Rightarrow> 'a ipc_state_scheme \<Rightarrow> u32 option outcome" where
  "event_recv_resumed t s =
     (if t_error (threads s t) \<noteq> RT_EOK then Return (t_error (threads s t)) None
      else Return (t_error (threads s t)) (Some (event_set (threads s t))))"

definition rt_event_control ::
  "nat \<Rightarrow> ipc_cmd \<Rightarrow> 'a ipc_state_scheme \<Rightarrow> (rt_err_t \<times> 'a ipc_state_scheme) option" where
  "rt_event_control e cmd s = do {
     _ \<leftarrow> RT_ASSERT (rt_object_get_type (Kobj e) s = RT_Object_Class_Event);
     case cmd of
       RT_IPC_CMD_RESET \<Rightarrow> do {
         s1 \<leftarrow> ipc_list_resume_all (Susp e) s;
         s2 \<leftarrow> rt_schedule (event_put e 0 s1);
         Some (RT_EOK, s2) }
     | RT_IPC_CMD_OTHER \<Rightarrow> Some (- RT_ERROR, s)
   }"

lemmas event_defs [kdefs] = event_put_def rt_event_init_def rt_event_detach_def rt_event_create_def
  rt_event_delete_def event_match_def rt_event_send_def rt_event_recv_def event_recv_resumed_def
  rt_event_control_def

section \<open>Delivery\<close>

text \<open>The abstract delivery: waiters with their options and wanted flags, served in order; the result is
  what remains of the set and who received what.\<close>

fun deliver :: "(nat \<times> u8 \<times> u32) list \<Rightarrow> u32 \<Rightarrow> u32 \<times> (nat \<times> u32) list" where
  "deliver [] S = (S, [])"
| "deliver ((t, info, wanted) # ws) S =
     (case event_match info wanted S of
        Some (Some r) \<Rightarrow>
          let (S', l) = deliver ws (if info AND RT_EVENT_FLAG_CLEAR \<noteq> 0 then S AND NOT r else S)
          in (S', (t, r) # l)
      | _ \<Rightarrow> deliver ws S)"

definition waiters :: "nat list \<Rightarrow> 'a kstate_scheme \<Rightarrow> (nat \<times> u8 \<times> u32) list" where
  "waiters ts s = map (\<lambda>t. (t, event_info (threads s t), event_set (threads s t))) ts"

definition valid_option :: "u8 \<Rightarrow> bool" where
  "valid_option i \<longleftrightarrow> i AND RT_EVENT_FLAG_AND \<noteq> 0 \<or> i AND RT_EVENT_FLAG_OR \<noteq> 0"

lemma event_match_valid: "valid_option i \<Longrightarrow> event_match i w S \<noteq> None"
  by (auto simp: event_match_def valid_option_def)

lemma waiters_simps [simp]:
  "waiters [] s = []"
  "waiters (t # ts) s = (t, event_info (threads s t), event_set (threads s t)) # waiters ts s"
  by (simp_all add: waiters_def)

lemma waiters_cong: "(\<And>t. t \<in> set ts \<Longrightarrow> threads s' t = threads s t) \<Longrightarrow> waiters ts s' = waiters ts s"
  by (simp add: waiters_def)

lemma deliver_woken: "fst ` set (snd (deliver (waiters ts s) S)) \<subseteq> set ts"
  by (induction ts arbitrary: S) (auto split: option.splits prod.splits, (metis (no_types, lifting) image_eqI fst_conv snd_conv subsetD)+)

lemma event_put_sel [simp]:
  "event_sets (event_put e v s) = (event_sets s)(e := v)"
  "kernel_inv (event_put e v s) = kernel_inv s"
  "klists (event_put e v s) = klists s" "objects (event_put e v s) = objects s"
  "threads (event_put e v s) = threads s" "current_thread (event_put e v s) = current_thread s"
  "interrupt_nest (event_put e v s) = interrupt_nest s" "rt_tick (event_put e v s) = rt_tick s"
  "timers (event_put e v s) = timers s" "timer_list (event_put e v s) = timer_list s"
  "timer_fired (event_put e v s) = timer_fired s"
  "event_put e v (event_put e w s) = event_put e v s"
  "event_put e v (upd_thread t f s) = upd_thread t f (event_put e v s)"
  by (simp_all add: event_put_def upd_thread_def)

lemma kframe_event_put: "kframe s s' \<Longrightarrow> kframe (event_put e v s) (event_put e v s')"
  by (cases s, cases s') (simp add: kframe_def event_put_def)

lemma event_wake_spec:
  fixes s :: "'a ipc_state_scheme"
  assumes "kernel_inv s" "distinct ts" "set ts \<subseteq> set (klists s (Susp e))"
    "\<forall>t \<in> set ts. valid_option (event_info (threads s t))"
  defines "woken \<equiv> snd (deliver (waiters ts s) (event_sets s e))"
  shows "\<exists>s'. event_wake e ts need s = Some (None, need \<or> woken \<noteq> [], s') \<and> kernel_inv s' \<and>
    kframe (event_put e (event_sets s' e) s) s' \<and> current_thread s' = current_thread s \<and>
    event_sets s' e = fst (deliver (waiters ts s) (event_sets s e)) \<and>
    (\<forall>(t, r) \<in> set woken. runnable (threads s' t) \<and> event_set (threads s' t) = r \<and>
       t_error (threads s' t) = t_error (threads s t)) \<and>
    (\<forall>t. t \<notin> fst ` set woken \<longrightarrow> threads s' t = threads s t) \<and>
    klists s' (Susp e) = filter (\<lambda>t. t \<notin> fst ` set woken) (klists s (Susp e)) \<and>
    timers s' = timers s \<and> (\<exists>P. timer_list s' = filter P (timer_list s)) \<and>
    (\<exists>P. timer_fired s' = filter P (timer_fired s))"
  using assms(1-4) unfolding woken_def
proof (induction ts arbitrary: s need)
  case Nil
  have "event_put e (event_sets s e) s = s" by (simp add: event_put_def)
  then show ?case using Nil by (auto intro: exI [of _ "\<lambda>_. True"])
next
  case (Cons t ts)
  let ?th = "threads s t" and ?S = "event_sets s e"
  have "valid_option (event_info ?th)" using Cons.prems(4) by simp
  then obtain m where m: "event_match (event_info ?th) (event_set ?th) ?S = Some m"
    using event_match_valid by (metis not_None_eq)
  show ?case
  proof (cases m)
    case None
    from Cons.IH [of s need] Cons.prems m None show ?thesis by (auto simp: Let_def)
  next
    case (Some r)
    let ?S' = "if event_info ?th AND RT_EVENT_FLAG_CLEAR \<noteq> 0 then ?S AND NOT r else ?S"
    let ?s1 = "upd_thread t (\<lambda>th. th\<lparr>event_set := r\<rparr>) s"
    let ?s2 = "if event_info ?th AND RT_EVENT_FLAG_CLEAR \<noteq> 0 then event_put e (?S AND NOT r) ?s1 else ?s1"
    have s2e: "?s2 = event_put e ?S' ?s1" by (simp add: event_put_def)
    have i2: "kernel_inv ?s2" using Cons.prems(1) by (simp add: s2e)
    have tin: "t \<in> set (klists s (Susp e))" using Cons.prems(3) by simp
    then have st: "stat_base (threads ?s2 t) = RT_THREAD_SUSPEND"
      using waiting_suspended [OF Cons.prems(1), of t "Susp e"] by simp
    obtain s3 b where r3: "rt_thread_resume t ?s2 = Some (RT_EOK, s3)" "kernel_inv s3" "kframe ?s2 s3"
      "current_thread s3 = current_thread ?s2" "b \<in> {RT_THREAD_READY, RT_THREAD_RUNNING}"
      "threads s3 = (threads ?s2)(t := set_stat b (threads ?s2 t))" "timers s3 = timers ?s2"
      "timer_list s3 = removeAll (Thread_timer t) (timer_list ?s2)"
      "\<exists>P. timer_fired s3 = filter P (timer_fired ?s2)"
      "\<forall>h. wait_head h \<longrightarrow> klists s3 h = removeAll t (klists ?s2 h)"
      using rt_thread_resume_spec [OF i2 st] by blast
    have s3: "rt_thread_resume t ?s2 = Some (RT_EOK, s3)" "kernel_inv s3" "kframe ?s2 s3"
      "current_thread s3 = current_thread s" "b \<in> {RT_THREAD_READY, RT_THREAD_RUNNING}"
      "threads s3 = (threads s)(t := set_stat b ((threads s t)\<lparr>event_set := r\<rparr>))" "timers s3 = timers s"
      "timer_list s3 = removeAll (Thread_timer t) (timer_list s)"
      "\<exists>P. timer_fired s3 = filter P (timer_fired s)"
      "klists s3 (Susp e) = removeAll t (klists s (Susp e))"
      using r3 unfolding s2e by simp_all
    have S3: "event_sets s3 e = ?S'" using kframe_ipc(3) [OF s3(3)] by (simp add: s2e)
    have w3: "waiters ts s3 = waiters ts s" using Cons.prems(2) s3(6) by (intro waiters_cong) auto
    have p3: "set ts \<subseteq> set (klists s3 (Susp e))" "\<forall>u \<in> set ts. valid_option (event_info (threads s3 u))"
      using Cons.prems(2,3,4) s3(6,10) by auto
    let ?d = "deliver (waiters ts s) ?S'"
    have d1: "distinct ts" using Cons.prems(2) by simp
    from Cons.IH [OF s3(2) d1 p3, of True] obtain s' where s':
      "event_wake e ts True s3 = Some (None, True, s')" "kernel_inv s'"
      "kframe (event_put e (event_sets s' e) s3) s'" "current_thread s' = current_thread s3"
      "event_sets s' e = fst ?d"
      "\<forall>(t, r) \<in> set (snd ?d). runnable (threads s' t) \<and> event_set (threads s' t) = r \<and>
         t_error (threads s' t) = t_error (threads s3 t)"
      "\<forall>t. t \<notin> fst ` set (snd ?d) \<longrightarrow> threads s' t = threads s3 t"
      "klists s' (Susp e) = filter (\<lambda>t. t \<notin> fst ` set (snd ?d)) (klists s3 (Susp e))"
      "timers s' = timers s3" "\<exists>P. timer_list s' = filter P (timer_list s3)"
      "\<exists>P. timer_fired s' = filter P (timer_fired s3)"
      unfolding w3 S3 simp_thms by blast
    have tn: "t \<notin> fst ` set (snd ?d)" using deliver_woken [of ts s ?S'] Cons.prems(2) by (meson distinct.simps(2) subsetD)
    have d: "deliver (waiters (t # ts) s) ?S = (fst ?d, (t, r) # snd ?d)"
      using m Some by (simp add: case_prod_unfold Let_def)
    have run: "event_wake e (t # ts) need s = Some (None, True, s')"
      using m Some s3(1) s'(1)
      by (cases "event_info ?th AND RT_EVENT_FLAG_CLEAR = 0") (simp_all add: Let_def)
    have "kframe (event_put e (event_sets s' e) s) (event_put e (event_sets s' e) ?s2)"
      by (simp add: s2e)
    then have kf: "kframe (event_put e (event_sets s' e) s) s'"
      using kframe_trans kframe_event_put [OF s3(3)] s'(3) by blast
    have "runnable (threads s' t) \<and> event_set (threads s' t) = r \<and> t_error (threads s' t) = t_error (threads s t)"
      using s'(7) tn s3(5,6) by (auto simp: runnable_def)
    moreover have te: "t_error (threads s3 u) = t_error (threads s u)" for u by (simp add: s3(6))
    ultimately have wk: "\<forall>(u, q) \<in> set ((t, r) # snd ?d). runnable (threads s' u) \<and> event_set (threads s' u) = q \<and>
       t_error (threads s' u) = t_error (threads s u)"
      using s'(6) unfolding te by simp
    have oth: "\<forall>u. u \<notin> fst ` set ((t, r) # snd ?d) \<longrightarrow> threads s' u = threads s u" using s'(7) s3(6) by auto
    have kl: "klists s' (Susp e) = filter (\<lambda>u. u \<notin> fst ` set ((t, r) # snd ?d)) (klists s (Susp e))"
      unfolding s'(8) s3(10) removeAll_filter_not_eq filter_filter by (rule filter_cong) auto
    have tl: "\<exists>P. timer_list s' = filter P (timer_list s)" "\<exists>P. timer_fired s' = filter P (timer_fired s)"
      using s'(10,11) s3(8,9) by (auto simp: removeAll_filter_not_eq)
    show ?thesis
      unfolding d fst_conv snd_conv using run s'(2,4,5,9) kf wk oth kl tl s3(4,7) by auto
  qed
qed

section \<open>Sending and receiving\<close>

text \<open>An event object whose waiters all have proper options.\<close>

definition event_inv :: "nat \<Rightarrow> 'a ipc_state_scheme \<Rightarrow> bool" where
  "event_inv e s \<longleftrightarrow> rt_object_get_type (Kobj e) s = RT_Object_Class_Event \<and>
     o_flag (objects s (Kobj e)) AND NOT RT_TIMER_FLAG_ACTIVATED = 0 \<and>
     (\<forall>t \<in> set (klists s (Susp e)). valid_option (event_info (threads s t)))"

lemma event_inv_kframe:
  assumes "event_inv e s" "kframe s s'" "set (klists s' (Susp e)) \<subseteq> set (klists s (Susp e))"
  shows "event_inv e s'"
proof -
  have "event_info (threads s' t) = event_info (threads s t)" for t
    using assms(2) same_tcb_sel(6) unfolding kframe_def by blast
  then show ?thesis
    using assms kframe_get_type [OF assms(2), of "Kobj e"] by (auto simp: event_inv_def kframe_def)
qed

lemma event_inv_put [simp]: "event_inv f (event_put e v s) = event_inv f s"
  by (simp add: event_inv_def rt_object_get_type_def)

lemma rt_event_send_spec:
  fixes s :: "'a ipc_state_scheme"
  assumes inv: "kernel_inv s" "event_inv e s" and c: "current_thread s = Some c" and nz: "evset \<noteq> 0"
  defines "D \<equiv> deliver (waiters (klists s (Susp e)) s) (event_sets s e OR evset)"
  shows "\<exists>s' c'. rt_event_send e evset s = Some (RT_EOK, s') \<and> kernel_inv s' \<and> event_inv e s' \<and>
    current_thread s' = Some c' \<and> kframe (event_put e (fst D) s) s' \<and> event_sets s' e = fst D \<and>
    klists s' (Susp e) = filter (\<lambda>t. t \<notin> fst ` set (snd D)) (klists s (Susp e)) \<and>
    (\<forall>(t, r) \<in> set (snd D). runnable (threads s' t) \<and> event_set (threads s' t) = r \<and>
       t_error (threads s' t) = t_error (threads s t)) \<and>
    timers s' = timers s \<and> (\<exists>P. timer_list s' = filter P (timer_list s)) \<and>
    (\<exists>P. timer_fired s' = filter P (timer_fired s))"
proof -
  let ?s1 = "event_put e (event_sets s e OR evset) s" and ?ts = "klists s (Susp e)"
  have ty: "rt_object_get_type (Kobj e) s = RT_Object_Class_Event" using inv(2) by (simp add: event_inv_def)
  have i1: "kernel_inv ?s1" "distinct ?ts" "set ?ts \<subseteq> set (klists ?s1 (Susp e))"
    "\<forall>t \<in> set ?ts. valid_option (event_info (threads ?s1 t))"
    using inv waiting_distinct [OF inv(1)] by (auto simp: event_inv_def)
  have w1: "waiters ?ts ?s1 = waiters ?ts s" by (rule waiters_cong) simp
  obtain s2 where s2: "event_wake e ?ts False ?s1 = Some (None, False \<or> snd D \<noteq> [], s2)" "kernel_inv s2"
    "kframe (event_put e (event_sets s2 e) ?s1) s2" "current_thread s2 = current_thread ?s1"
    "event_sets s2 e = fst D"
    "\<forall>(t, r) \<in> set (snd D). runnable (threads s2 t) \<and> event_set (threads s2 t) = r \<and>
       t_error (threads s2 t) = t_error (threads ?s1 t)"
    "klists s2 (Susp e) = filter (\<lambda>t. t \<notin> fst ` set (snd D)) (klists ?s1 (Susp e))"
    "timers s2 = timers ?s1" "\<exists>P. timer_list s2 = filter P (timer_list ?s1)"
    "\<exists>P. timer_fired s2 = filter P (timer_fired ?s1)"
    using event_wake_spec [OF i1, of False] unfolding w1 D_def event_put_sel fun_upd_same by blast
  have c2: "current_thread s2 = Some c" using s2(4) c by simp
  obtain s3 c3 where s3: "(if snd D \<noteq> [] then rt_schedule s2 else Some s2) = Some s3" "kernel_inv s3"
    "current_thread s3 = Some c3" "sched_frame s2 s3" "keeps_blocked s2 s3"
    "\<forall>h. wait_head h \<longrightarrow> klists s3 h = klists s2 h"
    using kernel_schedule [OF s2(2) c2] s2(2) c2
    by (cases "snd D = []") (auto simp: keeps_blocked_def)
  note f3 = sched_frame_sel [OF s3(4)]
  have k2: "kframe (event_put e (fst D) s) s2" using s2(3,5) by simp
  have k3: "kframe (event_put e (fst D) s) s3" using kframe_trans [OF k2 sched_frame_kframe [OF s3(4)]] .
  have kl: "klists s3 (Susp e) = filter (\<lambda>t. t \<notin> fst ` set (snd D)) (klists s (Susp e))"
    using s3(6) s2(7) by simp
  have tcb: "event_set (threads s3 t) = event_set (threads s2 t)" "t_error (threads s3 t) = t_error (threads s2 t)" for t
    using s3(4) unfolding sched_frame_def
    by (metis rt_thread.ext_inject rt_thread.surjective rt_thread.update_convs(7))+
  have "runnable (threads s3 t) = runnable (threads s2 t)" for t using s3(5) by (simp add: keeps_blocked_def)
  then have wk: "\<forall>(t, r) \<in> set (snd D). runnable (threads s3 t) \<and> event_set (threads s3 t) = r \<and>
       t_error (threads s3 t) = t_error (threads s t)" using s2(6) tcb by simp
  have "event_inv e s3" using event_inv_kframe [OF _ k3] inv(2) kl by auto
  moreover have "event_sets s3 e = fst D" using kframe_ipc(3) [OF k3] by simp
  moreover have "rt_event_send e evset s = Some (RT_EOK, s3)"
    using ty nz s2(1) s3(1) by (simp add: rt_event_send_def Let_def)
  ultimately show ?thesis using s3(2,3) k3 kl wk s2(8,9,10) f3(4,5,6) by auto
qed

text \<open>Receiving without waiting: the flags are there, or the call says so.\<close>

lemma rt_event_recv_now:
  assumes inv: "event_inv e s" and ctx: "current_thread s = Some c" "interrupt_nest s = 0"
    and nz: "evset \<noteq> 0" and m: "event_match opt evset (event_sets s e) = Some (Some r)"
  shows "\<exists>s'. rt_event_recv e evset opt timeout s = Some (Return RT_EOK (Some (event_sets s e AND evset)), s') \<and>
    event_sets s' e = (if opt AND RT_EVENT_FLAG_CLEAR \<noteq> 0 then event_sets s e AND NOT evset else event_sets s e) \<and>
    klists s' = klists s \<and> current_thread s' = Some c \<and>
    (kernel_inv s \<longrightarrow> kernel_inv s')"
proof -
  have ty: "rt_object_get_type (Kobj e) s = RT_Object_Class_Event" using inv by (simp add: event_inv_def)
  show ?thesis
    using ty ctx nz m
    by (cases "opt AND RT_EVENT_FLAG_CLEAR = 0")
       (simp_all add: rt_event_recv_def in_thread_context_def rt_thread_self_def Let_def)
qed

lemma rt_event_recv_block:
  assumes inv: "kernel_inv s" "event_inv e s" and ctx: "current_thread s = Some c" "interrupt_nest s = 0"
    and r: "stat_base (threads s c) = RT_THREAD_RUNNING"
    and nz: "evset \<noteq> 0" and time: "timeout \<noteq> 0" "timeout < 0x7fffffff"
    and m: "event_match opt evset (event_sets s e) = Some None"
  shows "\<exists>s' c'. rt_event_recv e evset opt timeout s = Some (Wait (rt_tick s), s') \<and>
    kernel_inv s' \<and> event_inv e s' \<and> current_thread s' = Some c' \<and> event_sets s' = event_sets s \<and>
    stat_base (threads s' c) = RT_THREAD_SUSPEND \<and> t_error (threads s' c) = RT_EOK \<and>
    event_info (threads s' c) = opt \<and>
    klists s' (Susp e) = wait_order (o_flag (objects s (Kobj e)))
       (\<lambda>u. current_priority (threads s u)) c (klists s (Susp e))"
proof -
  let ?s1 = "upd_thread c (\<lambda>th. th\<lparr>t_error := RT_EOK\<rparr>) s"
  let ?s2 = "upd_thread c (\<lambda>th. th\<lparr>event_set := evset, event_info := opt\<rparr>) ?s1"
  have ty: "rt_object_get_type (Kobj e) s = RT_Object_Class_Event"
    and fl: "o_flag (objects s (Kobj e)) = RT_IPC_FLAG_FIFO \<or> o_flag (objects s (Kobj e)) = RT_IPC_FLAG_PRIO"
    using inv(2) ipc_flag_cases by (auto simp: event_inv_def)
  have i2: "kernel_inv ?s2" using inv(1) by simp
  obtain s3 c3 where s3: "ipc_block (Susp e) c (o_flag (objects ?s2 (Kobj e))) timeout ?s2 = Some s3"
    "kernel_inv s3" "kframe ?s2 s3" "current_thread s3 = Some c3"
    "stat_base (threads s3 c) = RT_THREAD_SUSPEND" "t_error (threads s3 c) = t_error (threads ?s2 c)"
    "klists s3 (Susp e) = wait_order (o_flag (objects ?s2 (Kobj e)))
       (\<lambda>u. current_priority (threads ?s2 u)) c (klists ?s2 (Susp e))"
    using wq.block_ok [OF i2, of c "o_flag (objects ?s2 (Kobj e))" "Susp e" e timeout] ctx(1) r fl time(2) by auto
  have pr: "(\<lambda>u. current_priority (threads ?s2 u)) = (\<lambda>u. current_priority (threads s u))" by auto
  have info: "event_info (threads s3 t) = event_info (threads ?s2 t)" for t
    using s3(3) same_tcb_sel(6) unfolding kframe_def by blast
  have run: "rt_event_recv e evset opt timeout s = Some (Wait (rt_tick s), s3)"
    using ty ctx nz m time(1) s3(1)
    by (simp add: rt_event_recv_def in_thread_context_def rt_thread_self_def Let_def)
  have "valid_option opt" using m by (auto simp: event_match_def valid_option_def split: if_splits)
  then have "\<forall>t \<in> set (klists s3 (Susp e)). valid_option (event_info (threads s3 t))"
    using inv(2) unfolding s3(7) info by (auto simp: event_inv_def wait_order_def)
  then have "event_inv e s3"
    using inv(2) kframe_get_type [OF s3(3), of "Kobj e"] s3(3) ty
    by (simp add: event_inv_def kframe_def rt_object_get_type_def)
  moreover have "event_sets s3 = event_sets s" using kframe_ipc(3) [OF s3(3)] by simp
  moreover have "t_error (threads s3 c) = RT_EOK" "event_info (threads s3 c) = opt" using s3(6) info by simp_all
  ultimately show ?thesis using run s3(2,4,5,7) pr by simp
qed

end
