(* ===== verification/Mailbox.thy ===== *)
theory Mailbox
  imports Event
begin

text \<open>
  Mailboxes (\<^verbatim>\<open>rt-thread/src/ipc.c\<close>): a ring buffer of words with waiting receivers and waiting senders. The
  ring buffer is shown to be a bounded first-in-first-out queue; the interface of such a queue is
  the locale \<open>bounded_fifo\<close>.
\<close>

definition RT_MB_ENTRY_MAX :: u16 where "RT_MB_ENTRY_MAX = 0xffff"

definition upd_mb ::
  "nat \<Rightarrow> (rt_mailbox \<Rightarrow> rt_mailbox) \<Rightarrow> 'a ipc_state_scheme \<Rightarrow> 'a ipc_state_scheme" where
  "upd_mb n f s = s\<lparr>mailboxes := (mailboxes s)(n := f (mailboxes s n))\<rparr>"

definition mb_clear :: "rt_mailbox \<Rightarrow> rt_mailbox" where
  "mb_clear m = m\<lparr>mb_entry := 0, in_offset := 0, out_offset := 0\<rparr>"

definition mb_senders_init :: "nat \<Rightarrow> 'a kstate_scheme \<Rightarrow> 'a kstate_scheme" where
  "mb_senders_init n s = s\<lparr>klists := (klists s)(SendSusp n := [])\<rparr>"

text \<open>\<open>pool\<close> is the contents of the memory passed as the message pool; \<open>sz\<close> (an \<^verbatim>\<open>rt_size_t\<close>) is stored into
  16 bits.\<close>

definition rt_mb_init ::
  "nat \<Rightarrow> string \<Rightarrow> (nat \<Rightarrow> u32) \<Rightarrow> u32 \<Rightarrow> u8 \<Rightarrow> 'a ipc_state_scheme \<Rightarrow> (rt_err_t \<times> 'a ipc_state_scheme) option" where
  "rt_mb_init n name pool sz flag s = do {
     _ \<leftarrow> RT_ASSERT (flag = RT_IPC_FLAG_FIFO \<or> flag = RT_IPC_FLAG_PRIO);
     s1 \<leftarrow> rt_object_init (Kobj n) RT_Object_Class_MailBox name s;
     let s2 = ipc_object_init n (upd_object (Kobj n) (\<lambda>ob. ob\<lparr>o_flag := flag\<rparr>) s1);
     let s3 = upd_mb n (\<lambda>m. mb_clear (m\<lparr>msg_pool := pool, mb_size := ucast sz\<rparr>)) s2;
     Some (RT_EOK, mb_senders_init n s3)
   }"

definition rt_mb_detach :: "nat \<Rightarrow> 'a ipc_state_scheme \<Rightarrow> (rt_err_t \<times> 'a ipc_state_scheme) option" where
  "rt_mb_detach n s = do {
     _ \<leftarrow> RT_ASSERT (rt_object_get_type (Kobj n) s = RT_Object_Class_MailBox);
     _ \<leftarrow> RT_ASSERT (rt_object_is_systemobject (Kobj n) s);
     s1 \<leftarrow> ipc_list_resume_all (Susp n) s;
     s2 \<leftarrow> ipc_list_resume_all (SendSusp n) s1;
     Some (RT_EOK, rt_object_detach (Kobj n) s2)
   }"

text \<open>\<open>ptr\<close> and \<open>pool\<close> are what the two allocations return.\<close>

definition rt_mb_create ::
  "nat option \<Rightarrow> (nat \<Rightarrow> u32) option \<Rightarrow> string \<Rightarrow> u32 \<Rightarrow> u8 \<Rightarrow> 'a ipc_state_scheme \<Rightarrow>
   (nat option \<times> 'a ipc_state_scheme) option" where
  "rt_mb_create ptr pool name sz flag s = do {
     _ \<leftarrow> RT_ASSERT (flag = RT_IPC_FLAG_FIFO \<or> flag = RT_IPC_FLAG_PRIO);
     _ \<leftarrow> RT_ASSERT (interrupt_nest s = 0);
     (ob, s1) \<leftarrow> rt_object_allocate (map_option Kobj ptr) RT_Object_Class_MailBox name s;
     case ptr of None \<Rightarrow> Some (None, s1)
     | Some n \<Rightarrow> (
         let s2 = ipc_object_init n (upd_object (Kobj n) (\<lambda>ob. ob\<lparr>o_flag := flag\<rparr>) s1);
             s3 = upd_mb n (\<lambda>m. m\<lparr>mb_size := ucast sz\<rparr>) s2
         in case pool of
              None \<Rightarrow> do { s4 \<leftarrow> rt_object_delete (Kobj n) s3; Some (None, s4) }
            | Some p \<Rightarrow> Some (Some n, mb_senders_init n (upd_mb n (\<lambda>m. mb_clear (m\<lparr>msg_pool := p\<rparr>)) s3)))
   }"

definition rt_mb_delete :: "nat \<Rightarrow> 'a ipc_state_scheme \<Rightarrow> (rt_err_t \<times> 'a ipc_state_scheme) option" where
  "rt_mb_delete n s = do {
     _ \<leftarrow> RT_ASSERT (rt_object_get_type (Kobj n) s = RT_Object_Class_MailBox);
     _ \<leftarrow> RT_ASSERT (\<not> rt_object_is_systemobject (Kobj n) s);
     _ \<leftarrow> RT_ASSERT (interrupt_nest s = 0);
     s1 \<leftarrow> ipc_list_resume_all (Susp n) s;
     s2 \<leftarrow> ipc_list_resume_all (SendSusp n) s1;
     s3 \<leftarrow> rt_object_delete (Kobj n) s2;
     Some (RT_EOK, s3)
   }"

section \<open>The ring buffer\<close>

text \<open>\<open>None\<close> is an access past the end of the pool.\<close>

definition mb_put :: "u32 \<Rightarrow> rt_mailbox \<Rightarrow> (rt_err_t \<times> rt_mailbox) option" where
  "mb_put v m = do {
     _ \<leftarrow> in_bounds (in_offset m < mb_size m);
     let m1 = m\<lparr>msg_pool := (msg_pool m)(unat (in_offset m) := v), in_offset := in_offset m + 1\<rparr>;
     let m2 = (if in_offset m1 \<ge> mb_size m1 then m1\<lparr>in_offset := 0\<rparr> else m1);
     Some (if mb_entry m2 < RT_MB_ENTRY_MAX then (RT_EOK, m2\<lparr>mb_entry := mb_entry m2 + 1\<rparr>)
           else (- RT_EFULL, m2))
   }"

definition mb_put_front :: "u32 \<Rightarrow> rt_mailbox \<Rightarrow> rt_mailbox option" where
  "mb_put_front v m = do {
     let m1 = (if out_offset m > 0 then m\<lparr>out_offset := out_offset m - 1\<rparr>
               else m\<lparr>out_offset := mb_size m - 1\<rparr>);
     _ \<leftarrow> in_bounds (out_offset m1 < mb_size m1);
     Some (m1\<lparr>msg_pool := (msg_pool m1)(unat (out_offset m1) := v), mb_entry := mb_entry m1 + 1\<rparr>)
   }"

definition mb_get :: "rt_mailbox \<Rightarrow> (u32 \<times> rt_mailbox) option" where
  "mb_get m = do {
     _ \<leftarrow> in_bounds (out_offset m < mb_size m);
     let v = msg_pool m (unat (out_offset m));
     let m1 = m\<lparr>out_offset := out_offset m + 1\<rparr>;
     let m2 = (if out_offset m1 \<ge> mb_size m1 then m1\<lparr>out_offset := 0\<rparr> else m1);
     Some (v, if mb_entry m2 > 0 then m2\<lparr>mb_entry := mb_entry m2 - 1\<rparr> else m2)
   }"

section \<open>Sending and receiving\<close>

text \<open>The end of \<^verbatim>\<open>rt_mb_send_wait\<close>: the loop was left, there is room.\<close>

definition mb_send_store ::
  "nat \<Rightarrow> u32 \<Rightarrow> 'a ipc_state_scheme \<Rightarrow> (unit outcome \<times> 'a ipc_state_scheme) option" where
  "mb_send_store n v s = do {
     (err, m) \<leftarrow> mb_put v (mailboxes s n);
     let s1 = upd_mb n (\<lambda>_. m) s;
     if err \<noteq> RT_EOK then Some (Return err (), s1)
     else do {
       s2 \<leftarrow> ipc_wake_one (Susp n) s1;
       Some (Return RT_EOK (), s2)
     }
   }"

text \<open>One pass of the loop \<^verbatim>\<open>while (mb->entry == mb->size)\<close>.\<close>

definition mb_send_loop ::
  "nat \<Rightarrow> u32 \<Rightarrow> int \<Rightarrow> nat \<Rightarrow> 'a ipc_state_scheme \<Rightarrow> (unit outcome \<times> 'a ipc_state_scheme) option" where
  "mb_send_loop n v timeout t s =
     (if mb_entry (mailboxes s n) = mb_size (mailboxes s n) then
        let s1 = upd_thread t (\<lambda>th. th\<lparr>t_error := RT_EOK\<rparr>) s
        in if timeout = 0 then Some (Return (- RT_EFULL) (), s1)
           else do {
             _ \<leftarrow> RT_ASSERT (in_thread_context s1);
             s2 \<leftarrow> ipc_block (SendSusp n) t (o_flag (objects s1 (Kobj n))) timeout s1;
             Some (Wait (rt_tick s1), s2)
           }
      else mb_send_store n v s)"

definition rt_mb_send_wait ::
  "nat \<Rightarrow> u32 \<Rightarrow> int \<Rightarrow> 'a ipc_state_scheme \<Rightarrow> (unit outcome \<times> 'a ipc_state_scheme) option" where
  "rt_mb_send_wait n v timeout s = do {
     _ \<leftarrow> RT_ASSERT (rt_object_get_type (Kobj n) s = RT_Object_Class_MailBox);
     if mb_entry (mailboxes s n) = mb_size (mailboxes s n) \<and> timeout = 0
     then Some (Return (- RT_EFULL) (), s)
     else if mb_entry (mailboxes s n) = mb_size (mailboxes s n)
     then do { t \<leftarrow> rt_thread_self s; mb_send_loop n v timeout t s }
     else mb_send_store n v s
   }"

text \<open>The rest of a timeout after a wait that began at tick \<open>start\<close>: \<^verbatim>\<open>timeout -= tick_delta\<close> in 32 bits,
  not below 0.\<close>

definition timeout_left :: "int \<Rightarrow> u32 \<Rightarrow> u32 \<Rightarrow> int" where
  "timeout_left timeout start now =
     (if timeout > 0 then max 0 (sint (of_int timeout - (now - start) :: u32)) else timeout)"

definition mb_send_resumed ::
  "nat \<Rightarrow> u32 \<Rightarrow> int \<Rightarrow> u32 \<Rightarrow> nat \<Rightarrow> 'a ipc_state_scheme \<Rightarrow> (unit outcome \<times> 'a ipc_state_scheme) option" where
  "mb_send_resumed n v timeout start t s =
     (if t_error (threads s t) \<noteq> RT_EOK then Some (Return (t_error (threads s t)) (), s)
      else mb_send_loop n v (timeout_left timeout start (rt_tick_get s)) t s)"

definition rt_mb_send ::
  "nat \<Rightarrow> u32 \<Rightarrow> 'a ipc_state_scheme \<Rightarrow> (unit outcome \<times> 'a ipc_state_scheme) option" where
  "rt_mb_send n v s = rt_mb_send_wait n v 0 s"

definition rt_mb_urgent ::
  "nat \<Rightarrow> u32 \<Rightarrow> 'a ipc_state_scheme \<Rightarrow> (rt_err_t \<times> 'a ipc_state_scheme) option" where
  "rt_mb_urgent n v s = do {
     _ \<leftarrow> RT_ASSERT (rt_object_get_type (Kobj n) s = RT_Object_Class_MailBox);
     if mb_entry (mailboxes s n) = mb_size (mailboxes s n) then Some (- RT_EFULL, s)
     else do {
       m \<leftarrow> mb_put_front v (mailboxes s n);
       s2 \<leftarrow> ipc_wake_one (Susp n) (upd_mb n (\<lambda>_. m) s);
       Some (RT_EOK, s2)
     }
   }"

text \<open>\<^verbatim>\<open>rt_mb_recv\<close>: the value of the outcome is what is stored through \<^verbatim>\<open>value\<close>, if anything.\<close>

definition mb_recv_fetch ::
  "nat \<Rightarrow> 'a ipc_state_scheme \<Rightarrow> (u32 option outcome \<times> 'a ipc_state_scheme) option" where
  "mb_recv_fetch n s = do {
     (v, m) \<leftarrow> mb_get (mailboxes s n);
     s2 \<leftarrow> ipc_wake_one (SendSusp n) (upd_mb n (\<lambda>_. m) s);
     Some (Return RT_EOK (Some v), s2)
   }"

definition mb_recv_loop ::
  "nat \<Rightarrow> int \<Rightarrow> nat \<Rightarrow> 'a ipc_state_scheme \<Rightarrow> (u32 option outcome \<times> 'a ipc_state_scheme) option" where
  "mb_recv_loop n timeout t s =
     (if mb_entry (mailboxes s n) = 0 then
        let s1 = upd_thread t (\<lambda>th. th\<lparr>t_error := RT_EOK\<rparr>) s
        in if timeout = 0
           then Some (Return (- RT_ETIMEOUT) None, upd_thread t (\<lambda>th. th\<lparr>t_error := - RT_ETIMEOUT\<rparr>) s1)
           else do {
             _ \<leftarrow> RT_ASSERT (in_thread_context s1);
             s2 \<leftarrow> ipc_block (Susp n) t (o_flag (objects s1 (Kobj n))) timeout s1;
             Some (Wait (rt_tick s1), s2)
           }
      else mb_recv_fetch n s)"

definition rt_mb_recv ::
  "nat \<Rightarrow> int \<Rightarrow> 'a ipc_state_scheme \<Rightarrow> (u32 option outcome \<times> 'a ipc_state_scheme) option" where
  "rt_mb_recv n timeout s = do {
     _ \<leftarrow> RT_ASSERT (rt_object_get_type (Kobj n) s = RT_Object_Class_MailBox);
     if mb_entry (mailboxes s n) = 0 \<and> timeout = 0 then Some (Return (- RT_ETIMEOUT) None, s)
     else if mb_entry (mailboxes s n) = 0
     then do { t \<leftarrow> rt_thread_self s; mb_recv_loop n timeout t s }
     else mb_recv_fetch n s
   }"

definition mb_recv_resumed ::
  "nat \<Rightarrow> int \<Rightarrow> u32 \<Rightarrow> nat \<Rightarrow> 'a ipc_state_scheme \<Rightarrow> (u32 option outcome \<times> 'a ipc_state_scheme) option" where
  "mb_recv_resumed n timeout start t s =
     (if t_error (threads s t) \<noteq> RT_EOK then Some (Return (t_error (threads s t)) None, s)
      else mb_recv_loop n (timeout_left timeout start (rt_tick_get s)) t s)"

definition rt_mb_control ::
  "nat \<Rightarrow> ipc_cmd \<Rightarrow> 'a ipc_state_scheme \<Rightarrow> (rt_err_t \<times> 'a ipc_state_scheme) option" where
  "rt_mb_control n cmd s = do {
     _ \<leftarrow> RT_ASSERT (rt_object_get_type (Kobj n) s = RT_Object_Class_MailBox);
     case cmd of
       RT_IPC_CMD_RESET \<Rightarrow> do {
         s1 \<leftarrow> ipc_list_resume_all (Susp n) s;
         s2 \<leftarrow> ipc_list_resume_all (SendSusp n) s1;
         s3 \<leftarrow> rt_schedule (upd_mb n mb_clear s2);
         Some (RT_EOK, s3) }
     | RT_IPC_CMD_OTHER \<Rightarrow> Some (- RT_ERROR, s)
   }"

lemmas mailbox_defs [kdefs] = upd_mb_def mb_clear_def mb_senders_init_def rt_mb_init_def rt_mb_detach_def
  rt_mb_create_def rt_mb_delete_def mb_put_def mb_put_front_def mb_get_def mb_send_store_def
  mb_send_loop_def rt_mb_send_wait_def timeout_left_def mb_send_resumed_def rt_mb_send_def
  rt_mb_urgent_def mb_recv_fetch_def mb_recv_loop_def rt_mb_recv_def mb_recv_resumed_def rt_mb_control_def

section \<open>Bounded first-in-first-out queues\<close>

text \<open>The contract of a bounded queue: \<open>abs\<close> reads the queued values, oldest first.\<close>

fun puts :: "('v \<Rightarrow> 'q \<Rightarrow> 'q option) \<Rightarrow> 'v list \<Rightarrow> 'q \<Rightarrow> 'q option" where
  "puts put [] q = Some q"
| "puts put (v # vs) q = do { q1 \<leftarrow> put v q; puts put vs q1 }"

fun gets :: "('q \<Rightarrow> ('v \<times> 'q) option) \<Rightarrow> nat \<Rightarrow> 'q \<Rightarrow> ('v list \<times> 'q) option" where
  "gets get 0 q = Some ([], q)"
| "gets get (Suc k) q = do { (v, q1) \<leftarrow> get q; (vs, q2) \<leftarrow> gets get k q1; Some (v # vs, q2) }"

locale bounded_fifo =
  fixes wf :: "'q \<Rightarrow> bool" and abs :: "'q \<Rightarrow> 'v list" and cap :: "'q \<Rightarrow> nat"
    and put :: "'v \<Rightarrow> 'q \<Rightarrow> 'q option" and get :: "'q \<Rightarrow> ('v \<times> 'q) option" and ok :: "'v \<Rightarrow> bool"
  assumes put_ok: "wf q \<Longrightarrow> ok v \<Longrightarrow> length (abs q) < cap q \<Longrightarrow>
      \<exists>q'. put v q = Some q' \<and> wf q' \<and> abs q' = abs q @ [v] \<and> cap q' = cap q"
    and get_ok: "wf q \<Longrightarrow> abs q = v # vs \<Longrightarrow>
      \<exists>q'. get q = Some (v, q') \<and> wf q' \<and> abs q' = vs \<and> cap q' = cap q"
begin

lemma puts_ok:
  assumes "wf q" "list_all ok vs" "length (abs q) + length vs \<le> cap q"
  shows "\<exists>q'. puts put vs q = Some q' \<and> wf q' \<and> abs q' = abs q @ vs \<and> cap q' = cap q"
  using assms
proof (induction vs arbitrary: q)
  case (Cons v vs)
  obtain q1 where q1: "put v q = Some q1" "wf q1" "abs q1 = abs q @ [v]" "cap q1 = cap q"
    using put_ok [of q v] Cons.prems by auto
  with Cons.IH [of q1] Cons.prems show ?case by auto
qed simp

lemma gets_ok:
  assumes "wf q" "k \<le> length (abs q)"
  shows "\<exists>q'. gets get k q = Some (take k (abs q), q') \<and> wf q' \<and> abs q' = drop k (abs q) \<and> cap q' = cap q"
  using assms
proof (induction k arbitrary: q)
  case (Suc k)
  then obtain v vs where vs: "abs q = v # vs" by (cases "abs q") auto
  obtain q1 where q1: "get q = Some (v, q1)" "wf q1" "abs q1 = vs" "cap q1 = cap q"
    using get_ok [OF Suc.prems(1) vs] by blast
  with Suc.IH [of q1] Suc.prems vs show ?case by auto
qed simp

text \<open>What is put in comes out, all of it, in the same order, behind what was there before.\<close>

lemma puts_then_gets:
  assumes "wf q" "list_all ok vs" "length (abs q) + length vs \<le> cap q"
  shows "\<exists>q1 q2. puts put vs q = Some q1 \<and>
    gets get (length (abs q) + length vs) q1 = Some (abs q @ vs, q2) \<and> wf q2 \<and> abs q2 = []"
proof -
  obtain q1 where q1: "puts put vs q = Some q1" "wf q1" "abs q1 = abs q @ vs"
    using puts_ok [OF assms] by blast
  with gets_ok [OF q1(2), of "length (abs q) + length vs"] show ?thesis by auto
qed

end

section \<open>The ring buffer is a bounded queue\<close>

definition mb_cap :: "rt_mailbox \<Rightarrow> nat" where
  "mb_cap m = unat (mb_size m)"

definition mb_wf :: "rt_mailbox \<Rightarrow> bool" where
  "mb_wf m \<longleftrightarrow> out_offset m < mb_size m \<and> in_offset m < mb_size m \<and> mb_entry m \<le> mb_size m \<and>
     unat (in_offset m) = (unat (out_offset m) + unat (mb_entry m)) mod mb_cap m"

definition mb_abs :: "rt_mailbox \<Rightarrow> u32 list" where
  "mb_abs m = map (\<lambda>i. msg_pool m ((unat (out_offset m) + i) mod mb_cap m)) [0..<unat (mb_entry m)]"

lemma length_mb_abs [simp]: "length (mb_abs m) = unat (mb_entry m)"
  by (simp add: mb_abs_def)

lemma unat_Suc_below:
  fixes i n :: "'w :: len word"
  assumes "i < n"
  shows "unat (i + 1) = Suc (unat i)"
proof -
  have "unat n < 2 ^ LENGTH('w)" by (rule unsigned_less)
  then have "unat i + 1 < 2 ^ LENGTH('w)" using assms unfolding word_less_nat_alt by linarith
  then show ?thesis by (simp add: unat_word_ariths(1) take_bit_nat_eq_self)
qed

lemma wrap_offset:
  fixes i n :: u16
  assumes "i < n"
  shows "unat (if i + 1 \<ge> n then 0 else i + 1) = Suc (unat i) mod unat n"
proof -
  have "Suc (unat i) \<le> unat n" using assms by (simp add: word_less_nat_alt)
  then show ?thesis
    using unat_Suc_below [OF assms] by (cases "Suc (unat i) = unat n") (auto simp: word_le_nat_alt)
qed

lemma offset_differs:
  assumes "i < k" "k < N"
  shows "(a + i) mod N \<noteq> (a + k) mod (N::nat)"
proof
  assume "(a + i) mod N = (a + k) mod N"
  then have "(a + k) mod N = (a + i) mod N" by simp
  then have "N dvd k - i" using assms mod_eq_dvd_iff_nat [of "a + i" "a + k" N] by simp
  then show False using assms by (auto dest: dvd_imp_le)
qed

lemma mb_put_fifo:
  assumes wf: "mb_wf m" and room: "length (mb_abs m) < mb_cap m"
  shows "\<exists>m'. mb_put v m = Some (RT_EOK, m') \<and> mb_wf m' \<and> mb_abs m' = mb_abs m @ [v] \<and> mb_cap m' = mb_cap m"
proof -
  let ?i = "in_offset m" and ?n = "mb_size m"
  let ?m = "m\<lparr>msg_pool := (msg_pool m)(unat ?i := v),
    in_offset := (if ?i + 1 \<ge> ?n then 0 else ?i + 1), mb_entry := mb_entry m + 1\<rparr>"
  have i: "?i < ?n" and ent: "mb_entry m < ?n"
    using wf room by (auto simp: mb_wf_def mb_cap_def word_less_nat_alt)
  have cap: "unat ?n < 2 ^ 16" using unsigned_less [of ?n] by simp
  have emax: "mb_entry m < RT_MB_ENTRY_MAX"
    using ent cap by (simp add: RT_MB_ENTRY_MAX_def word_less_nat_alt)
  have run: "mb_put v m = Some (RT_EOK, ?m)" using i emax by (simp add: mb_put_def Let_def)
  have e1: "unat (mb_entry m + 1) = Suc (unat (mb_entry m))" by (rule unat_Suc_below [OF ent])
  have "unat (in_offset ?m) = (unat (out_offset m) + Suc (unat (mb_entry m))) mod unat ?n"
    using wf wrap_offset [OF i] by (simp add: mb_wf_def mb_cap_def mod_Suc_eq)
  moreover have "in_offset ?m < ?n"
    using wrap_offset [OF i] i by (simp add: word_less_nat_alt)
  ultimately have "mb_wf ?m"
    using wf e1 ent by (auto simp: mb_wf_def mb_cap_def word_le_nat_alt word_less_nat_alt)
  moreover have "mb_abs ?m = mb_abs m @ [v]"
    using wf offset_differs [of _ "unat (mb_entry m)" "unat ?n" "unat (out_offset m)"] room
    by (auto simp: mb_abs_def mb_cap_def mb_wf_def e1)
  ultimately show ?thesis using run by (auto simp: mb_cap_def)
qed

lemma upt_0_Suc: "[0..<Suc k] = 0 # map Suc [0..<k]"
  by (metis map_Suc_upt upt_conv_Cons zero_less_Suc)

lemma mb_get_fifo:
  assumes wf: "mb_wf m" and l: "mb_abs m = v # vs"
  shows "\<exists>m'. mb_get m = Some (v, m') \<and> mb_wf m' \<and> mb_abs m' = vs \<and> mb_cap m' = mb_cap m"
proof -
  let ?o = "out_offset m" and ?n = "mb_size m"
  let ?m = "m\<lparr>out_offset := (if ?o + 1 \<ge> ?n then 0 else ?o + 1), mb_entry := mb_entry m - 1\<rparr>"
  have lo: "?o < ?n" using wf by (simp add: mb_wf_def)
  have len: "unat (mb_entry m) = Suc (length vs)" using l length_mb_abs [of m] by simp
  then have pos: "mb_entry m > 0" by (simp add: word_less_nat_alt)
  have v: "v = msg_pool m (unat ?o)"
    using nth_Cons_0 [of v vs] len lo unfolding l [symmetric]
    by (simp add: mb_abs_def mb_cap_def word_less_nat_alt del: upt_Suc)
  have run: "mb_get m = Some (v, ?m)" using lo pos v by (simp add: mb_get_def Let_def)
  have e1: "unat (mb_entry m - 1) = length vs" using len pos
    by (metis Suc_inject Suc_pred' unat_minus_one word_neq_0_conv unat_gt_0 diff_Suc_1)
  have shift: "(unat (out_offset ?m) + i) mod unat ?n = (unat ?o + Suc i) mod unat ?n" for i
    using wrap_offset [OF lo] by (simp add: mod_add_left_eq)
  have "out_offset ?m < ?n" using wrap_offset [OF lo] lo by (simp add: word_less_nat_alt)
  moreover have "unat (in_offset m) = (unat (out_offset ?m) + length vs) mod unat ?n"
    using wf len shift by (simp add: mb_wf_def mb_cap_def)
  moreover have "mb_entry ?m \<le> ?n"
    using wf len e1 by (simp add: mb_wf_def word_le_nat_alt)
  ultimately have "mb_wf ?m" using wf e1 by (simp add: mb_wf_def mb_cap_def)
  moreover have "mb_abs ?m = vs"
  proof -
    have "mb_abs m = map (\<lambda>i. msg_pool m ((unat ?o + i) mod unat ?n)) (0 # map Suc [0..<length vs])"
      unfolding mb_abs_def mb_cap_def len upt_0_Suc ..
    then have "vs = map (\<lambda>i. msg_pool m ((unat ?o + Suc i) mod unat ?n)) [0..<length vs]"
      using l by (simp add: comp_def)
    then show ?thesis using shift e1 by (simp add: mb_abs_def mb_cap_def)
  qed
  ultimately show ?thesis using run by (auto simp: mb_cap_def)
qed

interpretation mbq: bounded_fifo mb_wf mb_abs mb_cap "\<lambda>v m. map_option snd (mb_put v m)" mb_get "\<lambda>_. True"
proof unfold_locales
  fix m v
  assume "mb_wf m" "length (mb_abs m) < mb_cap m"
  from mb_put_fifo [OF this, of v]
  show "\<exists>m'. map_option snd (mb_put v m) = Some m' \<and> mb_wf m' \<and> mb_abs m' = mb_abs m @ [v] \<and> mb_cap m' = mb_cap m"
    by auto
qed (rule mb_get_fifo)

text \<open>An urgent message goes to the front.\<close>

lemma mb_put_front_lifo:
  assumes wf: "mb_wf m" and room: "length (mb_abs m) < mb_cap m"
  shows "\<exists>m'. mb_put_front v m = Some m' \<and> mb_wf m' \<and> mb_abs m' = v # mb_abs m \<and> mb_cap m' = mb_cap m"
proof -
  let ?o = "out_offset m" and ?n = "mb_size m"
  define p where "p = (if ?o > 0 then ?o - 1 else ?n - 1)"
  let ?m = "m\<lparr>out_offset := p, msg_pool := (msg_pool m)(unat p := v), mb_entry := mb_entry m + 1\<rparr>"
  have lo: "?o < ?n" and ent: "mb_entry m < ?n"
    using wf room by (auto simp: mb_wf_def mb_cap_def word_less_nat_alt)
  have n0: "0 < unat ?n" using lo by (simp add: word_less_nat_alt)
  have p: "unat p = (if 0 < unat ?o then unat ?o - 1 else unat ?n - 1)"
    using n0 by (auto simp: p_def word_less_nat_alt unat_minus_one unat_gt_0)
  have lt: "unat p < unat ?n" using lo n0 p by (auto simp: word_less_nat_alt)
  have run: "mb_put_front v m = Some ?m"
    using lt by (auto simp: mb_put_front_def Let_def word_less_nat_alt p_def)
  have e1: "unat (mb_entry m + 1) = Suc (unat (mb_entry m))" by (rule unat_Suc_below [OF ent])
  have prev: "(unat p + Suc i) mod unat ?n = (unat ?o + i) mod unat ?n" for i
  proof (cases "0 < unat ?o")
    case False
    then have e: "unat p + Suc i = unat ?n + i" using n0 unfolding p by simp
    show ?thesis unfolding e using False by simp
  qed (simp add: p)
  have "mb_wf ?m"
    using wf lt e1 ent prev [of "unat (mb_entry m)"]
    by (simp add: mb_wf_def mb_cap_def word_le_nat_alt word_less_nat_alt)
  moreover have "mb_abs ?m = v # mb_abs m"
  proof -
    let ?f = "(msg_pool m)(unat p := v)"
    have "(unat p + 0) mod unat ?n \<noteq> (unat p + Suc i) mod unat ?n" if "i < unat (mb_entry m)" for i
      using that room by (intro offset_differs) (simp_all add: mb_cap_def)
    then have ne: "(unat ?o + i) mod unat ?n \<noteq> unat p" if "i < unat (mb_entry m)" for i
      using that lt prev by (metis add_0_right mod_less)
    have "mb_abs ?m = map (\<lambda>i. ?f ((unat p + i) mod unat ?n)) [0..<unat (mb_entry m + 1)]"
      by (simp add: mb_abs_def mb_cap_def)
    also have "\<dots> = ?f (unat p mod unat ?n) # map (\<lambda>i. ?f ((unat p + Suc i) mod unat ?n)) [0..<unat (mb_entry m)]"
      unfolding e1 upt_0_Suc by (simp add: comp_def)
    also have "\<dots> = v # mb_abs m"
      using lt ne unfolding prev by (simp add: mb_abs_def mb_cap_def)
    finally show ?thesis .
  qed
  ultimately show ?thesis using run by (auto simp: mb_cap_def)
qed

section \<open>Mailbox operations\<close>

text \<open>A mailbox: a kernel object of that class over a well-formed ring. No receiver waits while there is a
  message, and no sender while there is room.\<close>

definition mb_inv :: "nat \<Rightarrow> 'a ipc_state_scheme \<Rightarrow> bool" where
  "mb_inv n s \<longleftrightarrow> rt_object_get_type (Kobj n) s = RT_Object_Class_MailBox \<and>
     o_flag (objects s (Kobj n)) AND NOT RT_TIMER_FLAG_ACTIVATED = 0 \<and> mb_wf (mailboxes s n)"

lemma upd_mb_sel [simp]:
  "mailboxes (upd_mb n f s) = (mailboxes s)(n := f (mailboxes s n))"
  "kernel_inv (upd_mb n f s) = kernel_inv s"
  "klists (upd_mb n f s) = klists s" "objects (upd_mb n f s) = objects s"
  "threads (upd_mb n f s) = threads s" "current_thread (upd_mb n f s) = current_thread s"
  "interrupt_nest (upd_mb n f s) = interrupt_nest s" "rt_tick (upd_mb n f s) = rt_tick s"
  "rt_object_get_type r (upd_mb n f s) = rt_object_get_type r s"
  by (simp_all add: upd_mb_def rt_object_get_type_def)

lemma mb_inv_kframe:
  assumes "mb_inv n s" "kframe s s'"
  shows "mb_inv n s'"
  using assms kframe_get_type [OF assms(2), of "Kobj n"] kframe_ipc(4) [OF assms(2)]
  by (simp add: mb_inv_def kframe_def)

lemma full_iff: "mb_wf m \<Longrightarrow> mb_entry m = mb_size m \<longleftrightarrow> length (mb_abs m) = mb_cap m"
  by (auto simp: mb_cap_def word_unat_eq_iff)

lemma empty_iff_abs: "mb_entry m = 0 \<longleftrightarrow> mb_abs m = []"
  by (simp add: unat_eq_0 length_0_conv [symmetric] del: length_0_conv)

text \<open>Sending to a mailbox with room appends the message and wakes the first receiver; a full one
  refuses a sender that does not wait.\<close>

lemma rt_mb_send_spec:
  assumes inv: "kernel_inv s" "mb_inv n s" and c: "current_thread s = Some c"
  shows "length (mb_abs (mailboxes s n)) < mb_cap (mailboxes s n) \<Longrightarrow>
    \<exists>s' c'. rt_mb_send n v s = Some (Return RT_EOK (), s') \<and> kernel_inv s' \<and> mb_inv n s' \<and>
      current_thread s' = Some c' \<and> mb_abs (mailboxes s' n) = mb_abs (mailboxes s n) @ [v] \<and>
      klists s' (Susp n) = tl (klists s (Susp n)) \<and>
      (klists s (Susp n) \<noteq> [] \<longrightarrow> runnable (threads s' (hd (klists s (Susp n)))))"
    "length (mb_abs (mailboxes s n)) = mb_cap (mailboxes s n) \<Longrightarrow>
      rt_mb_send n v s = Some (Return (- RT_EFULL) (), s)"
proof -
  have ty: "rt_object_get_type (Kobj n) s = RT_Object_Class_MailBox" and wf: "mb_wf (mailboxes s n)"
    using inv(2) by (auto simp: mb_inv_def)
  show "\<exists>s' c'. rt_mb_send n v s = Some (Return RT_EOK (), s') \<and> kernel_inv s' \<and> mb_inv n s' \<and>
      current_thread s' = Some c' \<and> mb_abs (mailboxes s' n) = mb_abs (mailboxes s n) @ [v] \<and>
      klists s' (Susp n) = tl (klists s (Susp n)) \<and>
      (klists s (Susp n) \<noteq> [] \<longrightarrow> runnable (threads s' (hd (klists s (Susp n)))))"
    if room: "length (mb_abs (mailboxes s n)) < mb_cap (mailboxes s n)"
  proof -
    obtain m where m: "mb_put v (mailboxes s n) = Some (RT_EOK, m)" "mb_wf m"
      "mb_abs m = mb_abs (mailboxes s n) @ [v]" using mb_put_fifo [OF wf room] by blast
    let ?s1 = "upd_mb n (\<lambda>_. m) s"
    have i1: "kernel_inv ?s1" "mb_inv n ?s1" "current_thread ?s1 = Some c"
      using inv m(2) c by (auto simp: mb_inv_def)
    obtain s2 c2 where s2: "ipc_wake_one (Susp n) ?s1 = Some s2" "kernel_inv s2" "kframe ?s1 s2"
      "current_thread s2 = Some c2" "klists s2 (Susp n) = tl (klists s (Susp n))"
      "klists s (Susp n) \<noteq> [] \<longrightarrow> runnable (threads s2 (hd (klists s (Susp n))))"
      using wq.wake_ok [OF i1(1,3), of "Susp n" n] by auto
    have "rt_mb_send n v s = Some (Return RT_EOK (), s2)"
      using ty room full_iff [OF wf] m(1) s2(1)
      by (simp add: rt_mb_send_def rt_mb_send_wait_def mb_send_store_def)
    moreover have "mailboxes s2 n = m" using kframe_ipc(4) [OF s2(3)] by simp
    ultimately show ?thesis using s2 m(3) mb_inv_kframe [OF i1(2) s2(3)] by auto
  qed
  show "rt_mb_send n v s = Some (Return (- RT_EFULL) (), s)"
    if "length (mb_abs (mailboxes s n)) = mb_cap (mailboxes s n)"
    using that ty full_iff [OF wf] by (simp add: rt_mb_send_def rt_mb_send_wait_def)
qed

text \<open>Receiving takes the oldest message and wakes the first waiting sender; an empty mailbox refuses a
  receiver that does not wait.\<close>

lemma rt_mb_recv_spec:
  assumes inv: "kernel_inv s" "mb_inv n s" and c: "current_thread s = Some c"
  shows "mb_abs (mailboxes s n) = v # vs \<Longrightarrow>
    \<exists>s' c'. rt_mb_recv n timeout s = Some (Return RT_EOK (Some v), s') \<and> kernel_inv s' \<and> mb_inv n s' \<and>
      current_thread s' = Some c' \<and> mb_abs (mailboxes s' n) = vs \<and>
      klists s' (SendSusp n) = tl (klists s (SendSusp n))"
    "mb_abs (mailboxes s n) = [] \<Longrightarrow> rt_mb_recv n 0 s = Some (Return (- RT_ETIMEOUT) None, s)"
proof -
  have ty: "rt_object_get_type (Kobj n) s = RT_Object_Class_MailBox" and wf: "mb_wf (mailboxes s n)"
    using inv(2) by (auto simp: mb_inv_def)
  show "\<exists>s' c'. rt_mb_recv n timeout s = Some (Return RT_EOK (Some v), s') \<and> kernel_inv s' \<and> mb_inv n s' \<and>
      current_thread s' = Some c' \<and> mb_abs (mailboxes s' n) = vs \<and>
      klists s' (SendSusp n) = tl (klists s (SendSusp n))"
    if l: "mb_abs (mailboxes s n) = v # vs"
  proof -
    obtain m where m: "mb_get (mailboxes s n) = Some (v, m)" "mb_wf m" "mb_abs m = vs"
      using mb_get_fifo [OF wf l] by blast
    let ?s1 = "upd_mb n (\<lambda>_. m) s"
    have i1: "kernel_inv ?s1" "mb_inv n ?s1" "current_thread ?s1 = Some c"
      using inv m(2) c by (auto simp: mb_inv_def)
    obtain s2 c2 where s2: "ipc_wake_one (SendSusp n) ?s1 = Some s2" "kernel_inv s2" "kframe ?s1 s2"
      "current_thread s2 = Some c2" "klists s2 (SendSusp n) = tl (klists s (SendSusp n))"
      using wq.wake_ok [OF i1(1,3), of "SendSusp n" n] by auto
    have "mb_entry (mailboxes s n) \<noteq> 0" using l empty_iff_abs [of "mailboxes s n"] by simp
    then have "rt_mb_recv n timeout s = Some (Return RT_EOK (Some v), s2)"
      using ty m(1) s2(1) by (simp add: rt_mb_recv_def mb_recv_fetch_def)
    moreover have "mailboxes s2 n = m" using kframe_ipc(4) [OF s2(3)] by simp
    ultimately show ?thesis using s2 m(3) mb_inv_kframe [OF i1(2) s2(3)] by auto
  qed
  show "rt_mb_recv n 0 s = Some (Return (- RT_ETIMEOUT) None, s)" if "mb_abs (mailboxes s n) = []"
    using that ty empty_iff_abs [of "mailboxes s n"] by (simp add: rt_mb_recv_def)
qed

text \<open>The rest of a timeout never exceeds what was left, and shrinks by the ticks that passed.\<close>

lemma timeout_left_bounds:
  assumes "0 < timeout" "timeout < 2 ^ 31" "unat (now - start) \<le> nat timeout"
  shows "timeout_left timeout start now = timeout - int (unat (now - start))"
proof -
  let ?d = "now - start"
  have u: "uint (of_int timeout :: u32) = timeout"
    using assms by (simp add: uint_word_of_int take_bit_int_eq_self)
  have ud: "uint ?d = int (unat ?d)" by (simp only: uint_nat)
  have d: "uint ?d \<le> timeout" unfolding ud using assms(1,3) by linarith
  have "?d \<le> of_int timeout" unfolding word_le_def u by (rule d)
  then have "uint (of_int timeout - ?d) = timeout - uint ?d"
    unfolding uint_minus_simple_alt u .
  moreover have "uint (of_int timeout - ?d) < 2 ^ 31" using assms(2) calculation uint_ge_0 [of ?d] by linarith
  ultimately have "sint (of_int timeout - ?d) = timeout - uint ?d"
    using d unfolding sint_uint by (subst signed_take_bit_int_eq_self) simp_all
  then show ?thesis using assms(1) d unfolding timeout_left_def ud by simp
qed

end
