(* ===== verification/Sample_State.thy ===== *)
theory Sample_State
  imports Mailbox
begin

text \<open>
  A small configuration of the kernel in which the hypotheses of the properties can be met: the idle
  thread 0 is ready at priority 31, thread 1 runs at priority 10, thread 2 (priority 3) waits for flag 4
  of event 20, every other thread is not started. There are a semaphore 21 of value 1, a free mutex 22,
  an empty mailbox 23 of 32 slots, and an empty message queue 24 of two messages of four bytes.
\<close>

definition sample_thread :: "u8 \<Rightarrow> u8 \<Rightarrow> rt_thread" where
  "sample_thread prio st = \<lparr>t_sp = 0x20000100, t_entry = 0, stack_addr = 0x20000000, stack_size = 0x400,
     stack_guard = 0x23, t_error = 0, t_stat = st, current_priority = prio, init_priority = prio,
     number_mask = 2 ^ unat prio, event_set = 4, event_info = 5, sig_pending = 0, sig_mask = 0,
     sig_ret = 0, sig_vectors = None, si_list = [], init_tick = 5, remaining_tick = 5, end_flag = 0,
     tick_count = 0, preemptableFlag = 0\<rparr>"

definition sample_threads :: "nat \<Rightarrow> rt_thread" where
  "sample_threads t =
     (if t = 0 then sample_thread 31 RT_THREAD_READY
      else if t = 1 then sample_thread 10 RT_THREAD_RUNNING
      else if t = 2 then sample_thread 3 RT_THREAD_SUSPEND
      else sample_thread 31 RT_THREAD_INIT)"

definition sample_objects :: "objref \<Rightarrow> rt_object" where
  "sample_objects r =
     (case r of
        Thread_timer n \<Rightarrow> \<lparr>o_name = ''t'', o_type = 0x8a, o_flag = 0\<rparr>
      | Kobj n \<Rightarrow> \<lparr>o_name = ''o'',
          o_type = (if n < 20 then 0x81 else if n = 20 then 0x84 else if n = 21 then 0x82
                    else if n = 22 then 0x83 else if n = 23 then 0x85 else if n = 24 then 0x86 else if n = 25 then 0x87 else 0),
          o_flag = (if n = 22 then 1 else 0)\<rparr>)"

definition sample_mailbox :: rt_mailbox where
  "sample_mailbox = \<lparr>msg_pool = (\<lambda>_. 0), mb_size = 32, mb_entry = 0, in_offset = 0, out_offset = 0\<rparr>"

definition sample_mq :: rt_messagequeue where
  "sample_mq = \<lparr>mq_msg_size = 4, mq_max_msgs = 2, mq_entry = 0, mq_head = None, mq_tail = None,
     mq_free = Some 1, mq_next = (\<lambda>k. if k = 1 then Some 0 else None), mq_data = (\<lambda>_. [0, 0, 0, 0])\<rparr>"

definition sample :: ipc_state where
  "sample = \<lparr>objects = sample_objects, containers = (\<lambda>_. []), threads = sample_threads,
     klists = (\<lambda>h. if h = Prio 31 then [0] else if h = Susp 20 then [2] else []),
     ready_group = 2 ^ 31, current_thread = Some 1, rt_current_priority = 10,
     scheduler_lock_nest = 0, interrupt_nest = 0, rt_tick = 100,
     timers = (\<lambda>r. \<lparr>timeout_func = (case r of Thread_timer n \<Rightarrow> Rt_thread_timeout n | Kobj n \<Rightarrow> Timeout_null),
                    timer_init_tick = 0, timeout_tick = 0\<rparr>),
     timer_list = [], timer_fired = [], random_nr = 0, siginfo_free = 10,
     sems = (\<lambda>_. 1), mutexes = (\<lambda>_. mutex_fresh), event_sets = (\<lambda>_. 0),
     mailboxes = (\<lambda>_. sample_mailbox), mqueues = (\<lambda>_. sample_mq)\<rparr>"

lemma sample_base [simp]:
  "stat_base (sample_threads 0) = RT_THREAD_READY" "stat_base (sample_threads (Suc 0)) = RT_THREAD_RUNNING"
  "stat_base (sample_threads 2) = RT_THREAD_SUSPEND"
  by (simp_all add: sample_threads_def sample_thread_def stat_base_def)

lemma sample_base_iff:
  "stat_base (sample_threads t) = RT_THREAD_READY \<longleftrightarrow> t = 0"
  "stat_base (sample_threads t) = RT_THREAD_RUNNING \<longleftrightarrow> t = 1"
  "stat_base (sample_threads t) = RT_THREAD_SUSPEND \<longleftrightarrow> t = 2"
  "stat_base (sample_threads t) \<noteq> RT_THREAD_CLOSE"
  by (auto simp: sample_threads_def sample_thread_def stat_base_def)

lemma sample_wf: "thread_wf (sample_threads t)"
  by (auto simp: sample_threads_def sample_thread_def thread_wf_def stack_ok_def RT_THREAD_PRIORITY_MAX_def)

lemma sample_queue: "queue_inv {} sample"
proof -
  have "bit (2147483648 :: u32) p = (p = 31)" for p
  proof -
    have "(2147483648 :: u32) = 2 ^ 31" by simp
    then show ?thesis by (simp only: bit_two_power) auto
  qed
  then have "bitmap_ok sample" by (auto simp: bitmap_ok_def sample_def)
  moreover have "linked_once sample" by (auto simp: linked_once_def sample_def)
  moreover have "ready_ok {} sample"
    by (auto simp: ready_ok_def sample_def sample_base_iff) (simp_all add: sample_threads_def sample_thread_def)
  moreover have "wait_ok {} sample" by (auto simp: wait_ok_def sample_def)
  ultimately show ?thesis by (simp add: queue_inv_def sample_wf) (simp add: sample_def sample_wf)
qed

lemma sample_current: "current_ok sample"
  by (auto simp: current_ok_def sample_def sample_base_iff)

lemma sample_objs: "thread_objs sample"
proof -
  have lv: "live (sample_threads t) \<Longrightarrow> t < 20" for t
    using sample_base_iff [of t] by (auto simp: live_def)
  show ?thesis
    by (auto simp: thread_objs_def sample_def sample_objects_def rt_object_get_type_def is_periodic_def
        rt_object_is_systemobject_def class_defs dest: lv)
qed

lemma sample_kernel_inv: "kernel_inv sample"
proof -
  have "timer_ok sample" "timer_links sample"
    by (simp_all add: timer_ok_def timer_sorted_def timer_links_def sample_def)
  then show ?thesis using sample_queue sample_current sample_objs by (simp add: kernel_inv_def sched_inv_def)
qed

lemmas sample_simps = sample_def sample_objects_def sample_threads_def sample_thread_def
  rt_object_get_type_def class_defs

lemma sample_sched [simp]:
  "current_thread sample = Some 1" "interrupt_nest sample = 0" "scheduler_lock_nest sample = 0"
  "rt_tick sample = 100" "threads sample = sample_threads" "timer_list sample = []" "timer_fired sample = []"
  "klists sample (Susp 20) = [2]" "klists sample (Susp 21) = []" "klists sample (Susp 22) = []"
  "klists sample (Susp 23) = []" "klists sample (SendSusp n) = []"
  "containers sample c = []" "ready_group sample = 2 ^ 31" "event_sets sample e = 0"
  "sems sample n = 1" "mutexes sample n = mutex_fresh" "mailboxes sample n = sample_mailbox"
  by (simp_all add: sample_def)

lemma sample_sem: "sem_inv 21 sample"
  by (simp add: sem_inv_def) (simp add: sample_simps)

lemma sample_mutex: "mutex_inv 22 sample"
  by (simp add: mutex_inv_def mutex_fresh_def) (simp add: sample_simps RT_IPC_FLAG_PRIO_def)

lemma sample_event: "event_inv 20 sample"
  by (simp add: event_inv_def valid_option_def) (simp add: sample_simps event_flag_defs)

lemma sample_mb: "mb_inv 23 sample"
  by (simp add: mb_inv_def mb_wf_def sample_mailbox_def mb_cap_def) (simp add: sample_simps)

end
