(* ===== verification/Kernel_Props.thy ===== *)
theory Kernel_Props
  imports Sample_State
begin

text \<open>
  The correctness properties of the kernel: scheduling, objects, timers, threads, and the IPC objects, each
  with a witness on the sample configuration. They rest on the lemmas of the component theories and
  on the interpretations \<open>rq\<close> (ready queue), \<open>wq\<close> (waiting lists) and \<open>mbq\<close> (ring buffer).
\<close>

section \<open>Scheduling\<close>

text \<open>Property C1: whenever the scheduler is free to act, it leaves the processor to a running thread whose
  priority no ready thread exceeds, keeps the kernel invariant, and neither wakes nor suspends anyone.\<close>

theorem schedule_runs_highest:
  assumes "kernel_inv s" "current_thread s = Some c" "scheduler_lock_nest s = 0"
    "preemptableFlag (threads s c) \<noteq> 1" "ready_group s \<noteq> 0"
  shows "\<exists>s' c'. rt_schedule s = Some s' \<and> kernel_inv s' \<and> current_thread s' = Some c' \<and>
    stat_base (threads s' c') = RT_THREAD_RUNNING \<and>
    (\<forall>t. ready s' t \<longrightarrow> prio_of s' c' \<le> prio_of s' t) \<and> keeps_blocked s s'"
proof -
  obtain s' c' where "rt_schedule s = Some s'" "current_thread s' = Some c'"
    "\<forall>t. ready s' t \<longrightarrow> prio_of s' c' \<le> prio_of s' t" "stat_base (threads s' c') = RT_THREAD_RUNNING"
    using rt_schedule_spec [OF kernel_invD(1) [OF assms(1)] assms(2-4)] assms(5) by blast
  with kernel_schedule [OF assms(1,2)] show ?thesis by auto
qed

theorem schedule_runs_highest_witness:
  "\<exists>s' c'. rt_schedule sample = Some s' \<and> kernel_inv s' \<and> current_thread s' = Some c' \<and>
     stat_base (threads s' c') = RT_THREAD_RUNNING"
proof -
  have "preemptableFlag (threads sample 1) \<noteq> 1" by (simp add: sample_threads_def sample_thread_def)
  from schedule_runs_highest [OF sample_kernel_inv _ _ this] show ?thesis by (auto simp: sample_def)
qed

text \<open>A thread marked not preemptable keeps the processor at every call of the scheduler,
  whatever its own state: even when it has been suspended and a thread of a higher priority is ready.\<close>

theorem not_preemptable_keeps_processor:
  assumes "current_thread s = Some c" "preemptableFlag (threads s c) = 1"
  shows "rt_schedule s = Some s"
  using assms by (intro rt_schedule_idle) auto

theorem not_preemptable_keeps_processor_witness:
  "rt_schedule (upd_thread 1 (\<lambda>th. th\<lparr>t_stat := RT_THREAD_SUSPEND, preemptableFlag := 1\<rparr>) sample) =
   Some (upd_thread 1 (\<lambda>th. th\<lparr>t_stat := RT_THREAD_SUSPEND, preemptableFlag := 1\<rparr>) sample)"
  by (rule not_preemptable_keeps_processor [of _ 1]) simp_all

section \<open>Kernel objects\<close>

text \<open>An object that is initialised is found again by its name, also by any name with the
  same first eight characters, the object keeps its class and is marked static, and the containers
  stay consistent.\<close>

theorem object_init_then_find:
  assumes "object_inv s" "sched_inv s" "current_thread s = Some cur" "interrupt_nest s = 0"
    and "c \<in> set object_container" "\<And>d. r \<notin> set (containers s d)"
    and "take RT_NAME_MAX name' = take RT_NAME_MAX name"
  shows "\<exists>s' s''. rt_object_init r c name s = Some s' \<and> object_inv s' \<and> sched_inv s' \<and>
    rt_object_get_type r s' = c \<and> rt_object_is_systemobject r s' \<and>
    rt_object_find name' c s' = Some (Some r, s'')"
proof -
  from rt_object_init_spec [OF assms(2,3,5,6)] obtain s1 s' where s1:
    "rt_exit_critical (rt_enter_critical s) = Some s1" "rt_object_init r c name s = Some s'" "sched_inv s'"
    and s': "s' = object_link c r (upd_object r (\<lambda>ob. ob\<lparr>o_type := c OR RT_Object_Class_Static,
              o_name := take RT_NAME_MAX name\<rparr>) s1)" by blast
  note fr = exit_enter_frame [OF s1(1) assms(2,3)]
  have inv1: "object_inv s1" using object_inv_cong [OF fr(1,2)] assms(1) by simp
  have inv': "object_inv s'"
    unfolding s' by (rule object_inv_init [OF inv1 assms(5)]) (simp add: fr assms(6))
  have nest: "interrupt_nest s' = 0"
    using exit_enter_nest [OF s1(1) assms(2,3)] assms(4) unfolding s' by simp
  obtain c' where "current_thread s1 = Some c'"
    using critical_section_inv [OF assms(2,3)] s1(1) by (metis option.inject)
  then have "current_thread s' = Some c'" unfolding s' by simp
  then obtain s'' where s'': "rt_exit_critical (rt_enter_critical s') = Some s''"
    using critical_section_inv [OF s1(3)] by blast
  have found: "containers s' c = r # containers s1 c" "o_name (objects s' r) = take RT_NAME_MAX name"
    "o_type (objects s' r) = c OR RT_Object_Class_Static" unfolding s' by simp_all
  have "rt_object_find name' c s' = Some (Some r, s'')"
    using s'' nest assms(5,7) found
    by (simp add: rt_object_find_def get_information_iff [THEN iffD2] rt_enter_critical_def Let_def)
  moreover have "rt_object_get_type r s' = c" "rt_object_is_systemobject r s'"
    using class_and_not_static [OF assms(5)] static_or [of c] found(3)
    by (auto simp: rt_object_get_type_def rt_object_is_systemobject_def)
  ultimately show ?thesis using s1(2,3) inv' by blast
qed

theorem object_init_then_find_witness:
  "\<exists>s' s''. rt_object_init (Kobj 40) RT_Object_Class_Timer ''timer_obstacle_control'' sample = Some s' \<and>
     sched_inv s' \<and> rt_object_find ''timer_ob'' RT_Object_Class_Timer s' = Some (Some (Kobj 40), s'')"
proof -
  have "object_inv sample" by (simp add: object_inv_def)
  from object_init_then_find [OF this kernel_invD(1) [OF sample_kernel_inv], where cur = 1 and
      c = RT_Object_Class_Timer and r = "Kobj 40" and name = "''timer_obstacle_control''" and name' = "''timer_ob''"]
  show ?thesis by (auto simp: object_container_def RT_NAME_MAX_def)
qed

section \<open>Timers and time\<close>

text \<open>Property C11: starting a timer arms it \<^verbatim>\<open>init_tick\<close> ticks ahead of now, also across the wrap-around of the
  tick counter, and links it behind exactly the timers that expire no later, so that the list stays ordered
  and timers of one tick keep the order in which they were started.\<close>

theorem timer_start_ordered:
  assumes "timer_sorted s" "startable r s"
  shows "\<exists>s'. rt_timer_start r s = Some (RT_EOK, s') \<and> timer_sorted s' \<and>
    timeout_tick (timers s' r) = rt_tick s + timer_init_tick (timers s r) \<and>
    timer_list s' = takeWhile (\<lambda>t. expiry s' t \<le> expiry s' r) (removeAll r (timer_list s)) @ r #
      dropWhile (\<lambda>t. expiry s' t \<le> expiry s' r) (removeAll r (timer_list s)) \<and> sched_inv s' = sched_inv s"
proof -
  obtain s' where "rt_timer_start r s = Some (RT_EOK, s')" "timer_sorted s'"
    "timer_list s' = takeWhile (\<lambda>t. expiry s' t \<le> expiry s' r) (removeAll r (timer_list s)) @ r #
      dropWhile (\<lambda>t. expiry s' t \<le> expiry s' r) (removeAll r (timer_list s))"
    using rt_timer_start_spec [OF assms] by blast
  with rt_timer_start_run [OF assms(2)] timer_frame_sched_inv [OF rt_timer_start_frame(1)] show ?thesis by auto
qed

theorem timer_start_ordered_witness:
  "\<exists>s'. rt_timer_start (Thread_timer 2) (sample\<lparr>rt_tick := 0xfffffff0\<rparr>) = Some (RT_EOK, s') \<and> timer_sorted s'"
proof -
  have "timer_sorted (sample\<lparr>rt_tick := 0xfffffff0\<rparr>)" by (simp add: timer_sorted_def)
  moreover have "startable (Thread_timer 2) (sample\<lparr>rt_tick := 0xfffffff0\<rparr>)"
    by (simp add: startable_def RT_TICK_MAX_half) (simp add: sample_simps)
  ultimately show ?thesis using timer_start_ordered by blast
qed

text \<open>A number of milliseconds becomes that many 10 ms ticks, rounded up, for every
  non-negative 32-bit argument; a negative one becomes the largest tick count.\<close>

theorem millisecond_ticks:
  assumes "ms < 2 ^ 31"
  shows "(0 \<le> ms \<longrightarrow> uint (rt_tick_from_millisecond ms) = (ms + 9) div 10) \<and>
    (ms < 0 \<longrightarrow> rt_tick_from_millisecond ms = RT_TICK_MAX)"
  using rt_tick_from_millisecond_nonneg [OF _ assms]
  by (auto simp: rt_tick_from_millisecond_def RT_WAITING_FOREVER_def RT_TICK_MAX_def)

theorem millisecond_ticks_witness: "uint (rt_tick_from_millisecond 505) = 51"
  using millisecond_ticks [of 505] by simp

section \<open>Threads\<close>

text \<open>A running thread that sleeps is suspended with its timer armed for the requested number
  of ticks, the kernel invariant holds, and the other fields of every thread are untouched.\<close>

theorem sleep_suspends_until:
  assumes "kernel_inv s" "current_thread s = Some c" "stat_base (threads s c) = RT_THREAD_RUNNING"
    "tick < RT_TICK_MAX div 2"
  shows "\<exists>s' c'. rt_thread_sleep tick s = Some s' \<and> kernel_inv s' \<and> kframe s s' \<and>
    current_thread s' = Some c' \<and> stat_base (threads s' c) = RT_THREAD_SUSPEND \<and>
    Thread_timer c \<in> set (timer_list s') \<and> expiry s' (Thread_timer c) = Suc (unat tick)"
  by (rule rt_thread_sleep_spec [OF assms])

theorem sleep_suspends_until_witness:
  "\<exists>s' c'. rt_thread_sleep 50 sample = Some s' \<and> kernel_inv s' \<and> current_thread s' = Some c' \<and>
     stat_base (threads s' 1) = RT_THREAD_SUSPEND \<and> expiry s' (Thread_timer 1) = 51"
proof -
  have t: "(50 :: u32) < RT_TICK_MAX div 2" by (simp add: RT_TICK_MAX_half)
  have r: "stat_base (threads sample 1) = RT_THREAD_RUNNING" by simp
  from sleep_suspends_until [OF sample_kernel_inv _ r t] show ?thesis by auto
qed

text \<open>Property C10: when the timer of a suspended thread expires, the thread becomes runnable with the error
  code of a timeout, and no timer is lost or added.\<close>

theorem timeout_wakes_thread:
  assumes "kernel_inv s" "current_thread s = Some c" "stat_base (threads s t) = RT_THREAD_SUSPEND"
    "Thread_timer t \<notin> set (timer_list s)"
  shows "\<exists>s' c'. rt_thread_timeout t s = Some s' \<and> kernel_inv s' \<and> current_thread s' = Some c' \<and>
    runnable (threads s' t) \<and> t_error (threads s' t) = - RT_ETIMEOUT \<and>
    timers s' = timers s \<and> timer_list s' = timer_list s"
  using rt_thread_timeout_spec [OF assms] by blast

theorem timeout_wakes_thread_witness:
  "\<exists>s' c'. rt_thread_timeout 2 sample = Some s' \<and> kernel_inv s' \<and> current_thread s' = Some c' \<and>
     runnable (threads s' 2) \<and> t_error (threads s' 2) = - RT_ETIMEOUT"
  using timeout_wakes_thread [OF sample_kernel_inv, of 1 2] by simp blast

text \<open>A thread that has been initialised and is started becomes runnable at its initial
  priority.\<close>

theorem startup_makes_runnable:
  assumes "kernel_inv s" "current_thread s = Some c" "stat_base (threads s t) = RT_THREAD_INIT"
    "unat (init_priority (threads s t)) < RT_THREAD_PRIORITY_MAX" "stack_ok (threads s t)"
    "rt_object_get_type (Kobj t) s = RT_Object_Class_Thread"
    "rt_object_get_type (Thread_timer t) s = RT_Object_Class_Timer"
    "rt_object_is_systemobject (Thread_timer t) s" "\<not> is_periodic (Thread_timer t) s"
    "timeout_func (timers s (Thread_timer t)) = Rt_thread_timeout t"
  shows "\<exists>s' c'. rt_thread_startup t s = Some (RT_EOK, s') \<and> kernel_inv s' \<and> current_thread s' = Some c' \<and>
    runnable (threads s' t) \<and> prio_of s' t = unat (init_priority (threads s t))"
  by (rule rt_thread_startup_spec [OF assms])

theorem startup_makes_runnable_witness:
  "\<exists>s' c'. rt_thread_startup 5 sample = Some (RT_EOK, s') \<and> kernel_inv s' \<and> current_thread s' = Some c' \<and>
     runnable (threads s' 5) \<and> prio_of s' 5 = 31"
proof -
  have "stat_base (threads sample 5) = RT_THREAD_INIT" "unat (init_priority (threads sample 5)) < RT_THREAD_PRIORITY_MAX"
    "stack_ok (threads sample 5)" "rt_object_get_type (Kobj 5) sample = RT_Object_Class_Thread"
    "rt_object_get_type (Thread_timer 5) sample = RT_Object_Class_Timer"
    "rt_object_is_systemobject (Thread_timer 5) sample" "\<not> is_periodic (Thread_timer 5) sample"
    "timeout_func (timers sample (Thread_timer 5)) = Rt_thread_timeout 5"
    by (simp_all add: sample_simps stat_base_def stat_defs RT_THREAD_PRIORITY_MAX_def stack_ok_def
        rt_object_is_systemobject_def is_periodic_def)
  from startup_makes_runnable [OF sample_kernel_inv sample_sched(1) this] show ?thesis
    by (simp add: sample_threads_def sample_thread_def)
qed

text \<open>A running thread that ends is closed, its object and its timer are released, and the
  rest of the kernel goes on with its invariant intact.\<close>

theorem exit_closes_thread:
  assumes "kernel_inv s" "current_thread s = Some c" "live (threads s c)" "rt_object_is_systemobject (Kobj c) s"
  shows "\<exists>s' c'. thread_exit s = Some s' \<and> kernel_inv s' \<and> current_thread s' = Some c' \<and>
    stat_base (threads s' c) = RT_THREAD_CLOSE \<and> rt_object_get_type (Kobj c) s' = 0 \<and>
    Thread_timer c \<notin> set (timer_list s')"
  by (rule thread_exit_spec [OF assms])

theorem exit_closes_thread_witness:
  "\<exists>s' c'. thread_exit sample = Some s' \<and> kernel_inv s' \<and> current_thread s' = Some c' \<and>
     stat_base (threads s' 1) = RT_THREAD_CLOSE \<and> rt_object_get_type (Kobj 1) s' = 0"
proof -
  have "live (threads sample 1)" by (simp add: live_def)
  moreover have "rt_object_is_systemobject (Kobj 1) sample"
    by (simp add: rt_object_is_systemobject_def sample_def sample_objects_def RT_Object_Class_Static_def)
  ultimately show ?thesis using exit_closes_thread [OF sample_kernel_inv, of 1] by simp blast
qed

text \<open>Changing the priority of a live thread to a value of the table stores exactly that
  priority, moves the thread between the ready lists when it is ready, and changes no thread's state.\<close>

theorem change_priority_moves:
  assumes "kernel_inv s" "live (threads s t)" "unat (ucast arg :: u8) < RT_THREAD_PRIORITY_MAX"
  shows "\<exists>s'. rt_thread_control t CTRL_CHANGE_PRIORITY arg s = Some (RT_EOK, s') \<and> kernel_inv s' \<and>
    current_priority (threads s' t) = ucast arg \<and>
    (ready s t \<longrightarrow> t \<in> set (klists s' (Prio (unat (ucast arg :: u8))))) \<and>
    (\<forall>u. stat_base (threads s' u) = stat_base (threads s u))"
proof -
  obtain s' where s': "rt_thread_control t CTRL_CHANGE_PRIORITY arg s = Some (RT_EOK, s')" "kernel_inv s'"
    "current_priority (threads s' t) = ucast arg" "\<forall>u. stat_base (threads s' u) = stat_base (threads s u)"
    using change_priority_spec [OF assms] by blast
  have "ready_ok {} s'" using kernel_invD(2) [OF s'(2)] by (simp add: queue_inv_def)
  with s' show ?thesis by (auto simp: ready_ok_def)
qed

theorem change_priority_moves_witness:
  "\<exists>s'. rt_thread_control 0 CTRL_CHANGE_PRIORITY 7 sample = Some (RT_EOK, s') \<and> kernel_inv s' \<and>
     current_priority (threads s' 0) = 7 \<and> 0 \<in> set (klists s' (Prio 7))"
proof -
  have "live (threads sample 0)" by (simp add: live_def)
  from change_priority_moves [OF sample_kernel_inv this, of 7] show ?thesis
    by (auto simp: RT_THREAD_PRIORITY_MAX_def)
qed

section \<open>Semaphores and mutexes\<close>

text \<open>Releasing a semaphore hands it to the first waiter, which becomes runnable and returns
  from its take with the error code it was suspended with; without a waiter the count goes up by one,
  and at its maximum the release is refused. Nobody waits while the count is positive.\<close>

theorem sem_release_hands_over:
  assumes "kernel_inv s" "sem_inv n s" "current_thread s = Some c"
  shows "\<exists>e s' c'. rt_sem_release n s = Some (e, s') \<and> kernel_inv s' \<and> sem_inv n s' \<and>
    current_thread s' = Some c' \<and>
    (klists s (Susp n) \<noteq> [] \<longrightarrow> e = RT_EOK \<and> sems s' n = sems s n \<and>
       klists s' (Susp n) = tl (klists s (Susp n)) \<and> runnable (threads s' (hd (klists s (Susp n)))) \<and>
       sem_take_resumed (hd (klists s (Susp n))) s' = t_error (threads s (hd (klists s (Susp n))))) \<and>
    (klists s (Susp n) = [] \<and> sems s n < RT_SEM_VALUE_MAX \<longrightarrow>
       e = RT_EOK \<and> s' = sem_set n (sems s n + 1) s) \<and>
    (klists s (Susp n) = [] \<and> sems s n = RT_SEM_VALUE_MAX \<longrightarrow> e = - RT_EFULL \<and> s' = s)"
  by (rule rt_sem_release_spec [OF assms])

theorem sem_release_hands_over_witness:
  "\<exists>s'. rt_sem_release 21 sample = Some (RT_EOK, s') \<and> kernel_inv s' \<and> sems s' 21 = 2"
  using sem_release_hands_over [OF sample_kernel_inv sample_sem sample_sched(1)]
  by (auto simp: RT_SEM_VALUE_MAX_def)

text \<open>Taking a semaphore lowers a positive count; at zero a caller that does not wait is told
  so and changes nothing, and one that waits is suspended in the waiting list.\<close>

theorem sem_take_counts:
  assumes "kernel_inv s" "sem_inv n s" "current_thread s = Some c" "interrupt_nest s = 0"
    "stat_base (threads s c) = RT_THREAD_RUNNING" "time < 0x7fffffff"
  shows "\<exists>o' s' c'. rt_sem_take n time s = Some (o', s') \<and> kernel_inv s' \<and> sem_inv n s' \<and>
    current_thread s' = Some c' \<and>
    (sems s n > 0 \<longrightarrow> o' = Return RT_EOK () \<and> sems s' n = sems s n - 1 \<and> c' = c) \<and>
    (sems s n = 0 \<and> time = 0 \<longrightarrow> o' = Return (- RT_ETIMEOUT) () \<and> s' = s) \<and>
    (sems s n = 0 \<and> time \<noteq> 0 \<longrightarrow> o' = Wait (rt_tick s) \<and> sems s' n = 0 \<and>
       stat_base (threads s' c) = RT_THREAD_SUSPEND \<and> c \<in> set (klists s' (Susp n)))"
  by (rule rt_sem_take_spec [OF assms])

theorem sem_take_counts_witness:
  "\<exists>s'. rt_sem_take 21 5 sample = Some (Return RT_EOK (), s') \<and> kernel_inv s' \<and> sems s' 21 = 0"
  using sem_take_counts [OF sample_kernel_inv sample_sem, of 1 5] by auto

text \<open>Property C32: a mutex that is free goes to the caller; its owner can take it again; another thread
  that does not wait is refused, and the owner and the hold count stay.\<close>

theorem mutex_exclusive:
  assumes "mutex_inv n s" "current_thread s = Some c" "interrupt_nest s = 0"
  shows "(m_owner (mutexes s n) = None \<longrightarrow>
      (\<exists>s'. rt_mutex_take addr n time s = Some (Return RT_EOK (), s') \<and> mutex_inv n s' \<and>
        m_owner (mutexes s' n) = Some c \<and> m_hold (mutexes s' n) = 1)) \<and>
    (m_owner (mutexes s n) = Some c \<and> m_hold (mutexes s n) < RT_MUTEX_HOLD_MAX \<longrightarrow>
      (\<exists>s'. rt_mutex_take addr n time s = Some (Return RT_EOK (), s') \<and> mutex_inv n s' \<and>
        mutexes s' n = (mutexes s n)\<lparr>m_hold := m_hold (mutexes s n) + 1\<rparr>)) \<and>
    (\<forall>d. m_owner (mutexes s n) = Some d \<and> d \<noteq> c \<longrightarrow>
      rt_mutex_take addr n 0 s =
        Some (Return (- RT_ETIMEOUT) (), upd_thread c (\<lambda>th. th\<lparr>t_error := - RT_ETIMEOUT\<rparr>) s))"
  using rt_mutex_take_now [OF assms] by blast

theorem mutex_exclusive_witness:
  "\<exists>s'. rt_mutex_take (\<lambda>_. 0) 22 0 sample = Some (Return RT_EOK (), s') \<and> mutex_inv 22 s' \<and>
     m_owner (mutexes s' 22) = Some 1"
  using mutex_exclusive [OF sample_mutex, of 1 "\<lambda>_. 0" 0] by (auto simp: mutex_fresh_def)

text \<open>Only the owner can release a mutex; with more than one hold it keeps it; the last release
  gives it to the first waiter, which becomes runnable as the new owner, or frees it.\<close>

theorem mutex_release_passes_on:
  assumes "kernel_inv s" "mutex_inv n s" "current_thread s = Some c" "interrupt_nest s = 0"
    "m_owner (mutexes s n) = Some c" "original_priority (mutexes s n) = current_priority (threads s c)"
  shows "\<exists>s' c'. rt_mutex_release addr n s = Some (RT_EOK, s') \<and> kernel_inv s' \<and> current_thread s' = Some c' \<and>
    (1 < m_hold (mutexes s n) \<longrightarrow> s' = upd_mutex n (\<lambda>m. m\<lparr>m_hold := m_hold m - 1\<rparr>) s) \<and>
    (m_hold (mutexes s n) = 1 \<and> klists s (Susp n) = [] \<longrightarrow> mutexes s' n = mutex_fresh) \<and>
    (\<forall>w ws. m_hold (mutexes s n) = 1 \<and> klists s (Susp n) = w # ws \<longrightarrow>
       m_owner (mutexes s' n) = Some w \<and> m_hold (mutexes s' n) = 1 \<and> m_value (mutexes s' n) = 0 \<and>
       klists s' (Susp n) = ws \<and> runnable (threads s' w))"
proof (cases "m_hold (mutexes s n) = 1")
  case True
  from rt_mutex_release_last [OF assms(1-5) this assms(6), of addr] True show ?thesis by auto
next
  case False
  moreover have "0 < m_hold (mutexes s n)" using assms(2,5) by (auto simp: mutex_inv_def Let_def)
  ultimately have "1 < m_hold (mutexes s n)" 
    by (metis One_nat_def Suc_lessI unat_0 unat_1 word_less_nat_alt word_unat_eq_iff)
  from rt_mutex_release_kept(2) [OF assms(2-5) this, of addr] this assms(1,3) show ?thesis by auto
qed

theorem mutex_release_passes_on_witness:
  "\<exists>s'. rt_mutex_release (\<lambda>_. 0) 22 (upd_mutex 22 (\<lambda>m. m\<lparr>m_value := 0, m_owner := Some 1, m_hold := 1,
       original_priority := 10\<rparr>) sample) = Some (RT_EOK, s') \<and> kernel_inv s' \<and> mutexes s' 22 = mutex_fresh"
proof -
  let ?s = "upd_mutex 22 (\<lambda>m. m\<lparr>m_value := 0, m_owner := Some 1, m_hold := 1, original_priority := 10\<rparr>) sample"
  have i: "kernel_inv ?s" "mutex_inv 22 ?s"
    using sample_kernel_inv sample_mutex by (auto simp: mutex_inv_def)
  have "original_priority (mutexes ?s 22) = current_priority (threads ?s 1)"
    by (simp add: sample_threads_def sample_thread_def)
  from mutex_release_passes_on [OF i _ _ _ this] show ?thesis by auto
qed



section \<open>Events\<close>



text \<open>Property C4: no activation is lost. A thread that waits alone for one flag of an event, to be cleared,
  is made runnable by the next send of that flag, its wait returns success, and the flag is consumed;
  and a flag sent while nobody waits is found by the next receive, which returns at once.\<close>

theorem event_activation_not_lost:
  fixes s :: "'a ipc_state_scheme"
  assumes "kernel_inv s" "event_inv e s" "current_thread s = Some c" "f \<noteq> 0"
    "event_sets s e AND f = 0"
  shows "(klists s (Susp e) = [t] \<and> event_info (threads s t) = RT_EVENT_FLAG_AND OR RT_EVENT_FLAG_CLEAR \<and>
      event_set (threads s t) = f \<and> t_error (threads s t) = RT_EOK \<longrightarrow>
      (\<exists>s'. rt_event_send e f s = Some (RT_EOK, s') \<and> kernel_inv s' \<and> runnable (threads s' t) \<and>
        event_recv_resumed t s' = Return RT_EOK (Some f) \<and> event_sets s' e = event_sets s e)) \<and>
    (klists s (Susp e) = [] \<and> interrupt_nest s = 0 \<longrightarrow>
      (\<exists>s' s''. rt_event_send e f s = Some (RT_EOK, s') \<and> event_sets s' e = event_sets s e OR f \<and>
        (\<exists>c'. current_thread s' = Some c') \<and>
        rt_event_recv e f (RT_EVENT_FLAG_AND OR RT_EVENT_FLAG_CLEAR) RT_WAITING_FOREVER s' =
          Some (Return RT_EOK (Some f), s'') \<and> event_sets s'' e = event_sets s e))"
proof -
  have absorb: "(x OR f) AND f = f" "f AND (x OR f) = f" for x :: u32
    by (rule bit_word_eqI; auto simp: bit_simps)+
  have drop: "(event_sets s e OR f) AND NOT f = event_sets s e"
  proof (rule bit_word_eqI)
    fix i
    have "\<not> (bit (event_sets s e) i \<and> bit f i)" using assms(5) by (metis bit_0_eq bit_and_iff bot_apply bot_bool_def)
    then show "bit ((event_sets s e OR f) AND NOT f) i = bit (event_sets s e) i" if "i < LENGTH(32)"
      using that by (auto simp: bit_simps)
  qed
  have opt: "(RT_EVENT_FLAG_AND OR RT_EVENT_FLAG_CLEAR) AND RT_EVENT_FLAG_AND \<noteq> 0"
    "(RT_EVENT_FLAG_AND OR RT_EVENT_FLAG_CLEAR) AND RT_EVENT_FLAG_CLEAR \<noteq> 0" by (simp_all add: event_flag_defs)
  note send = rt_event_send_spec [OF assms(1-4)]
  have "\<exists>s'. rt_event_send e f s = Some (RT_EOK, s') \<and> kernel_inv s' \<and> runnable (threads s' t) \<and>
        event_recv_resumed t s' = Return RT_EOK (Some f) \<and> event_sets s' e = event_sets s e"
    if "klists s (Susp e) = [t]" "event_info (threads s t) = RT_EVENT_FLAG_AND OR RT_EVENT_FLAG_CLEAR"
      "event_set (threads s t) = f" "t_error (threads s t) = RT_EOK"
  proof -
    have "deliver (waiters (klists s (Susp e)) s) (event_sets s e OR f) = (event_sets s e, [(t, f)])"
      using that opt absorb drop by (simp add: event_match_def)
    with send that(4) show ?thesis by (auto simp: event_recv_resumed_def)
  qed
  moreover have "\<exists>s' s''. rt_event_send e f s = Some (RT_EOK, s') \<and> event_sets s' e = event_sets s e OR f \<and>
        (\<exists>c'. current_thread s' = Some c') \<and>
        rt_event_recv e f (RT_EVENT_FLAG_AND OR RT_EVENT_FLAG_CLEAR) RT_WAITING_FOREVER s' =
          Some (Return RT_EOK (Some f), s'') \<and> event_sets s'' e = event_sets s e"
    if emp: "klists s (Susp e) = []" and nest: "interrupt_nest s = 0"
  proof -
    from send emp obtain s' c' where s': "rt_event_send e f s = Some (RT_EOK, s')" "event_inv e s'"
      "current_thread s' = Some c'" "kframe (event_put e (event_sets s e OR f) s) s'"
      "event_sets s' e = event_sets s e OR f" by auto
    have n': "interrupt_nest s' = 0" using s'(4) nest by (simp add: kframe_def)
    have m: "event_match (RT_EVENT_FLAG_AND OR RT_EVENT_FLAG_CLEAR) f (event_sets s' e) = Some (Some f)"
      using opt absorb by (simp add: event_match_def s'(5))
    from rt_event_recv_now [OF s'(2,3) n' assms(4) m, of RT_WAITING_FOREVER] s'(1,3,5) opt absorb drop
    show ?thesis by auto
  qed
  ultimately show ?thesis by blast
qed

theorem event_activation_not_lost_witness:
  "\<exists>s'. rt_event_send 20 4 sample = Some (RT_EOK, s') \<and> kernel_inv s' \<and> runnable (threads s' 2) \<and>
     event_recv_resumed 2 s' = Return RT_EOK (Some 4) \<and> event_sets s' 20 = 0"
  using event_activation_not_lost [OF sample_kernel_inv sample_event, of 1 4 2]
  by (simp add: sample_threads_def sample_thread_def event_flag_defs RT_EOK_def)

section \<open>Mailboxes\<close>

text \<open>Property C12: the ring buffer of a mailbox is a first-in-first-out queue: messages put into it come out
  in the same order behind those it held before, wherever its offsets stand when it wraps around.\<close>

theorem mailbox_fifo:
  assumes "mb_wf m" "length (mb_abs m) + length vs \<le> mb_cap m"
  shows "\<exists>m1 m2. puts (\<lambda>v q. map_option snd (mb_put v q)) vs m = Some m1 \<and>
    gets mb_get (length (mb_abs m) + length vs) m1 = Some (mb_abs m @ vs, m2) \<and> mb_wf m2 \<and> mb_abs m2 = []"
  using mbq.puts_then_gets [OF assms(1) _ assms(2)] by (simp add: list_all_iff)

theorem mailbox_fifo_witness:
  "\<exists>m1 m2. puts (\<lambda>v q. map_option snd (mb_put v q)) [7, 8, 9] sample_mailbox = Some m1 \<and>
     gets mb_get 3 m1 = Some ([7, 8, 9], m2) \<and> mb_abs m2 = []"
proof -
  have "mb_wf sample_mailbox" "mb_abs sample_mailbox = []"
    by (simp_all add: mb_wf_def mb_cap_def sample_mailbox_def mb_abs_def)
  from mailbox_fifo [OF this(1), of "[7, 8, 9]"] this(2) show ?thesis
    by (auto simp: mb_cap_def sample_mailbox_def numeral_3_eq_3)
qed

text \<open>Sending without waiting appends the message when there is room and wakes the first
  receiver, and refuses with \<^verbatim>\<open>-RT_EFULL\<close>, changing nothing, when the mailbox is full.\<close>

theorem mailbox_send:
  assumes "kernel_inv s" "mb_inv n s" "current_thread s = Some c"
  shows "(length (mb_abs (mailboxes s n)) < mb_cap (mailboxes s n) \<longrightarrow>
      (\<exists>s' c'. rt_mb_send n v s = Some (Return RT_EOK (), s') \<and> kernel_inv s' \<and> mb_inv n s' \<and>
        current_thread s' = Some c' \<and> mb_abs (mailboxes s' n) = mb_abs (mailboxes s n) @ [v] \<and>
        (klists s (Susp n) \<noteq> [] \<longrightarrow> runnable (threads s' (hd (klists s (Susp n))))))) \<and>
    (length (mb_abs (mailboxes s n)) = mb_cap (mailboxes s n) \<longrightarrow>
      rt_mb_send n v s = Some (Return (- RT_EFULL) (), s))"
  using rt_mb_send_spec [OF assms] by blast

theorem mailbox_send_witness:
  "\<exists>s'. rt_mb_send 23 77 sample = Some (Return RT_EOK (), s') \<and> kernel_inv s' \<and> mb_abs (mailboxes s' 23) = [77]"
  using mailbox_send [OF sample_kernel_inv sample_mb, of 1 77]
  by (auto simp: mb_abs_def sample_mailbox_def mb_cap_def)

text \<open>Receiving returns the oldest message and wakes the first waiting sender; on an empty
  mailbox a receiver that does not wait gets \<^verbatim>\<open>-RT_ETIMEOUT\<close> and nothing changes.\<close>

theorem mailbox_recv:
  assumes "kernel_inv s" "mb_inv n s" "current_thread s = Some c"
  shows "(\<forall>v vs. mb_abs (mailboxes s n) = v # vs \<longrightarrow>
      (\<exists>s' c'. rt_mb_recv n timeout s = Some (Return RT_EOK (Some v), s') \<and> kernel_inv s' \<and> mb_inv n s' \<and>
        current_thread s' = Some c' \<and> mb_abs (mailboxes s' n) = vs \<and>
        klists s' (SendSusp n) = tl (klists s (SendSusp n)))) \<and>
    (mb_abs (mailboxes s n) = [] \<longrightarrow> rt_mb_recv n 0 s = Some (Return (- RT_ETIMEOUT) None, s))"
  using rt_mb_recv_spec [OF assms] by blast

theorem mailbox_recv_witness: "rt_mb_recv 23 0 sample = Some (Return (- RT_ETIMEOUT) None, sample)"
  using mailbox_recv [OF sample_kernel_inv sample_mb, of 1] by (simp add: mb_abs_def sample_mailbox_def)

text \<open>A timeout that is resumed after a wait is shortened by the ticks that have passed, across
  the wrap-around of the tick counter.\<close>

theorem mailbox_timeout_left:
  assumes "0 < timeout" "timeout < 2 ^ 31" "unat (now - start) \<le> nat timeout"
  shows "timeout_left timeout start now = timeout - int (unat (now - start))"
  by (rule timeout_left_bounds [OF assms])

theorem mailbox_timeout_left_witness: "timeout_left 100 0xfffffff0 10 = 74"
  using mailbox_timeout_left [where timeout = 100 and now = 10 and start = "0xfffffff0"] by simp

end
