(* ===== verification/Signal.thy ===== *)
theory Signal
  imports Ipc
begin

text \<open>
  Signals (\<^verbatim>\<open>rt-thread/src/signal.c\<close>), and the check for pending signals a thread makes when the scheduler
  has switched back to it (the end of \<^verbatim>\<open>rt_schedule\<close>, \<^verbatim>\<open>scheduler.c\<close>).

  The installed handlers are code of the application: they are the parameter \<open>exec\<close>, which runs a handler
  for a signal number on the state. A list of signal information nodes is the list of the numbers in them,
  and the pool the nodes come from is its number of free nodes: it is always asked without waiting, so no
  thread is ever linked into it. The result of \<^verbatim>\<open>malloc\<close> for the table of handlers is an argument.
\<close>

type_synonym 'a handlers = "sighandler \<Rightarrow> nat \<Rightarrow> 'a kstate_scheme \<Rightarrow> 'a kstate_scheme option"

definition RT_SIG_MAX :: nat where "RT_SIG_MAX = 32"

definition RT_SIG_INFO_MAX :: nat where "RT_SIG_INFO_MAX = 32"

text \<open>The macros \<^verbatim>\<open>sig_mask\<close> and \<^verbatim>\<open>sig_valid\<close>.\<close>

definition sig_bit :: "nat \<Rightarrow> u32" where
  "sig_bit sig_no = push_bit sig_no 1"

definition sig_valid :: "int \<Rightarrow> bool" where
  "sig_valid sig_no \<longleftrightarrow> 0 \<le> sig_no \<and> sig_no < int RT_SIG_MAX"

definition sig_wanted :: "rt_thread \<Rightarrow> bool" where
  "sig_wanted th \<longleftrightarrow> sig_pending th AND sig_mask th \<noteq> 0"

section \<open>Running the handlers\<close>

text \<open>The loop of \<^verbatim>\<open>rt_thread_handle_sig\<close>. A thread without a table of handlers makes it read through a null
  pointer.\<close>

partial_function (option) handle_sig_loop :: "'a handlers \<Rightarrow> nat \<Rightarrow> 'a kstate_scheme \<Rightarrow> 'a kstate_scheme option"
where
  "handle_sig_loop exec t s =
     (if sig_wanted (threads s t) then
        (case si_list (threads s t) of [] \<Rightarrow> Some s
         | signo # rest \<Rightarrow> do {
             vectors \<leftarrow> sig_vectors (threads s t);
             let s1 = upd_thread t (\<lambda>th. th\<lparr>si_list := rest, sig_pending := sig_pending th AND NOT (sig_bit signo)\<rparr>) s;
             s2 \<leftarrow> (case vectors signo of None \<Rightarrow> Some s1 | Some handler \<Rightarrow> exec handler signo s1);
             let s3 = s2\<lparr>siginfo_free := siginfo_free s2 + 1\<rparr>;
             handle_sig_loop exec t (upd_thread t (\<lambda>th. th\<lparr>t_error := - RT_EINTR\<rparr>) s3)
           })
      else Some s)"

definition rt_thread_handle_sig :: "'a handlers \<Rightarrow> bool \<Rightarrow> 'a kstate_scheme \<Rightarrow> 'a kstate_scheme option" where
  "rt_thread_handle_sig exec clean_state s = do {
     t \<leftarrow> rt_thread_self s;
     if sig_wanted (threads s t) \<and> t_stat (threads s t) AND RT_THREAD_STAT_SIGNAL_WAIT = 0
     then do {
       s1 \<leftarrow> handle_sig_loop exec t s;
       Some (if clean_state
             then upd_thread t (\<lambda>th. th\<lparr>t_stat := t_stat th AND NOT RT_THREAD_STAT_SIGNAL\<rparr>) s1
             else s1)
     } else Some s
   }"

text \<open>What a thread runs first when a signal found it ready: its saved stack pointer was replaced by a
  frame that enters this function.\<close>

definition signal_entry :: "'a handlers \<Rightarrow> 'a kstate_scheme \<Rightarrow> 'a kstate_scheme option" where
  "signal_entry exec s = do {
     t \<leftarrow> rt_thread_self s;
     s1 \<leftarrow> rt_thread_handle_sig exec False s;
     Some (upd_thread t (\<lambda>th. th\<lparr>t_sp := sig_ret th, sig_ret := 0,
                           t_stat := t_stat th AND NOT RT_THREAD_STAT_SIGNAL\<rparr>) s1)
   }"

text \<open>The end of \<^verbatim>\<open>rt_schedule\<close>, run by the thread that has got the processor back.\<close>

definition schedule_signal_check :: "'a handlers \<Rightarrow> 'a kstate_scheme \<Rightarrow> 'a kstate_scheme option" where
  "schedule_signal_check exec s = do {
     t \<leftarrow> current_thread s;
     if t_stat (threads s t) AND RT_THREAD_STAT_SIGNAL_PENDING \<noteq> 0
     then rt_thread_handle_sig exec True
            (upd_thread t (\<lambda>th. th\<lparr>t_stat := t_stat th AND NOT RT_THREAD_STAT_SIGNAL_PENDING\<rparr>) s)
     else Some s
   }"

section \<open>Delivering a signal\<close>

definition signal_deliver :: "'a handlers \<Rightarrow> nat \<Rightarrow> 'a kstate_scheme \<Rightarrow> 'a kstate_scheme option" where
  "signal_deliver exec t s =
     (if \<not> sig_wanted (threads s t) then Some s
      else if stat_base (threads s t) = RT_THREAD_SUSPEND then do {
        (_, s1) \<leftarrow> rt_thread_resume t s;
        rt_schedule (upd_thread t (\<lambda>th. th\<lparr>t_stat := t_stat th OR
                       (RT_THREAD_STAT_SIGNAL OR RT_THREAD_STAT_SIGNAL_PENDING)\<rparr>) s1)
      }
      else if rt_thread_self s = Some t then
        let s1 = upd_thread t (\<lambda>th. th\<lparr>t_stat := t_stat th OR RT_THREAD_STAT_SIGNAL\<rparr>) s
        in if rt_interrupt_get_nest s1 = 0 then rt_thread_handle_sig exec True s1 else Some s1
      else if (t_stat (threads s t) AND RT_THREAD_STAT_SIGNAL_MASK) AND RT_THREAD_STAT_SIGNAL = 0 then
        rt_schedule (upd_thread t (\<lambda>th. th\<lparr>
            t_stat := (t_stat th OR (RT_THREAD_STAT_SIGNAL OR RT_THREAD_STAT_SIGNAL_PENDING))
                        AND NOT RT_THREAD_STAT_SIGNAL_PENDING,
            sig_ret := t_sp th,
            t_sp := rt_hw_stack_init (t_sp th - 32)\<rparr>) s)
      else Some s)"

definition rt_thread_kill ::
  "'a handlers \<Rightarrow> nat \<Rightarrow> int \<Rightarrow> 'a kstate_scheme \<Rightarrow> (rt_err_t \<times> 'a kstate_scheme) option" where
  "rt_thread_kill exec t sig s =
     (if \<not> sig_valid sig then Some (- RT_EINVAL, s)
      else if sig_pending (threads s t) AND sig_bit (nat sig) \<noteq> 0 \<and> nat sig \<in> set (si_list (threads s t))
      then Some (0, s)
      else do {
        let s1 = (if siginfo_free s > 0
                  then upd_thread t (\<lambda>th. th\<lparr>si_list := si_list th @ [nat sig],
                                             sig_pending := sig_pending th OR sig_bit (nat sig)\<rparr>)
                         (s\<lparr>siginfo_free := siginfo_free s - 1\<rparr>)
                  else s);
        s2 \<leftarrow> signal_deliver exec t s1;
        Some (RT_EOK, s2)
      })"

section \<open>Handlers and masks of the current thread\<close>

datatype sighandler_arg = SIG_DFL | SIG_IGN | Handler sighandler

definition rt_thread_alloc_sig :: "bool \<Rightarrow> nat \<Rightarrow> 'a kstate_scheme \<Rightarrow> 'a kstate_scheme option" where
  "rt_thread_alloc_sig heap_ok t s = do {
     _ \<leftarrow> RT_ASSERT heap_ok;
     Some (upd_thread t (\<lambda>th. th\<lparr>sig_vectors :=
             Some (\<lambda>i. if i < RT_SIG_MAX then Some Signal_default_handler else None)\<rparr>) s)
   }"

text \<open>\<open>Inl ()\<close> is \<^verbatim>\<open>SIG_ERR\<close>; \<open>Inr old\<close> the previous handler, \<open>None\<close> the null pointer.\<close>

definition rt_signal_install ::
  "bool \<Rightarrow> int \<Rightarrow> sighandler_arg \<Rightarrow> 'a kstate_scheme \<Rightarrow>
   ((unit + sighandler option) \<times> 'a kstate_scheme) option" where
  "rt_signal_install heap_ok signo handler s = do {
     t \<leftarrow> rt_thread_self s;
     if \<not> sig_valid signo then Some (Inl (), s)
     else do {
       s1 \<leftarrow> (if sig_vectors (threads s t) = None then rt_thread_alloc_sig heap_ok t s else Some s);
       case sig_vectors (threads s1 t) of
         None \<Rightarrow> Some (Inr None, s1)
       | Some vectors \<Rightarrow>
           Some (Inr (vectors (nat signo)),
             upd_thread t (\<lambda>th. th\<lparr>sig_vectors := Some (vectors(nat signo :=
               (case handler of SIG_IGN \<Rightarrow> None | SIG_DFL \<Rightarrow> Some Signal_default_handler
                | Handler h \<Rightarrow> Some h)))\<rparr>) s1)
     }
   }"

definition rt_signal_mask :: "nat \<Rightarrow> 'a kstate_scheme \<Rightarrow> 'a kstate_scheme option" where
  "rt_signal_mask signo s = do {
     t \<leftarrow> rt_thread_self s;
     Some (upd_thread t (\<lambda>th. th\<lparr>sig_mask := sig_mask th AND NOT (sig_bit signo)\<rparr>) s)
   }"

definition rt_signal_unmask :: "'a handlers \<Rightarrow> nat \<Rightarrow> 'a kstate_scheme \<Rightarrow> 'a kstate_scheme option" where
  "rt_signal_unmask exec signo s = do {
     t \<leftarrow> rt_thread_self s;
     let s1 = upd_thread t (\<lambda>th. th\<lparr>sig_mask := sig_mask th OR sig_bit signo\<rparr>) s;
     if sig_mask (threads s1 t) AND sig_pending (threads s1 t) \<noteq> 0 then signal_deliver exec t s1 else Some s1
   }"

section \<open>Waiting for a signal\<close>

text \<open>The label \<^verbatim>\<open>__done\<close>: the first node whose signal is in the set leaves the list. The value is the number
  of the signal in \<^verbatim>\<open>*si\<close>, \<open>None\<close> when \<^verbatim>\<open>*si\<close> stays zeroed.\<close>

definition signal_take :: "u32 \<Rightarrow> nat \<Rightarrow> 'a kstate_scheme \<Rightarrow> nat option \<times> 'a kstate_scheme" where
  "signal_take sigset t s =
     (case List.extract (\<lambda>signo. sig_bit signo AND sigset \<noteq> 0) (si_list (threads s t)) of
        None \<Rightarrow> (None, s)
      | Some (front, signo, rest) \<Rightarrow>
          (Some signo,
           (let s1 = upd_thread t (\<lambda>th. th\<lparr>si_list := front @ rest,
                                           sig_pending := sig_pending th AND NOT (sig_bit signo)\<rparr>) s
            in s1\<lparr>siginfo_free := siginfo_free s1 + 1\<rparr>)))"

definition rt_signal_wait ::
  "u32 option \<Rightarrow> int \<Rightarrow> 'a kstate_scheme \<Rightarrow> (nat option outcome \<times> 'a kstate_scheme) option" where
  "rt_signal_wait sigset timeout s = do {
     t \<leftarrow> rt_thread_self s;
     _ \<leftarrow> RT_ASSERT (in_thread_context s);
     case sigset of None \<Rightarrow> Some (Return (- RT_EINVAL) None, s)
     | Some st \<Rightarrow>
        if st = 0 then Some (Return (- RT_EINVAL) None, s)
        else if sig_pending (threads s t) AND st \<noteq> 0
        then let (signo, s1) = signal_take st t s in Some (Return RT_EOK signo, s1)
        else if timeout = 0 then Some (Return (- RT_ETIMEOUT) None, s)
        else do {
          (_, s1) \<leftarrow> rt_thread_suspend t s;
          let s2 = upd_thread t (\<lambda>th. th\<lparr>t_stat := t_stat th OR RT_THREAD_STAT_SIGNAL_WAIT\<rparr>) s1;
          s3 \<leftarrow> (if timeout \<noteq> RT_WAITING_FOREVER then thread_timer_arm t (of_int timeout) s2 else Some s2);
          s4 \<leftarrow> rt_schedule s3;
          Some (Wait (rt_tick_get s), s4)
        }
   }"

definition signal_wait_resumed :: "u32 \<Rightarrow> nat \<Rightarrow> 'a kstate_scheme \<Rightarrow> nat option outcome \<times> 'a kstate_scheme" where
  "signal_wait_resumed sigset t s =
     (let s1 = upd_thread t (\<lambda>th. th\<lparr>t_stat := t_stat th AND NOT RT_THREAD_STAT_SIGNAL_WAIT\<rparr>) s
      in if t_error (threads s1 t) = - RT_ETIMEOUT
         then (Return (- RT_ETIMEOUT) None, upd_thread t (\<lambda>th. th\<lparr>t_error := RT_EOK\<rparr>) s1)
         else let (signo, s2) = signal_take sigset t s1 in (Return RT_EOK signo, s2))"

text \<open>\<open>pool_ok\<close>: the pool could be created.\<close>

definition rt_system_signal_init :: "bool \<Rightarrow> 'a kstate_scheme \<Rightarrow> 'a kstate_scheme option" where
  "rt_system_signal_init pool_ok s = do {
     _ \<leftarrow> RT_ASSERT pool_ok;
     Some (s\<lparr>siginfo_free := RT_SIG_INFO_MAX\<rparr>)
   }"

lemmas signal_defs [kdefs] = sig_bit_def sig_valid_def sig_wanted_def rt_thread_handle_sig_def
  signal_entry_def schedule_signal_check_def signal_deliver_def rt_thread_kill_def rt_thread_alloc_sig_def
  rt_signal_install_def rt_signal_mask_def rt_signal_unmask_def signal_take_def rt_signal_wait_def
  signal_wait_resumed_def rt_system_signal_init_def

section \<open>What the scheduler leaves of the status byte\<close>

abbreviation stat_flags :: "rt_thread \<Rightarrow> u8" where
  "stat_flags th \<equiv> t_stat th AND RT_THREAD_STAT_SIGNAL_MASK"

lemma set_stat_flags:
  "b AND RT_THREAD_STAT_SIGNAL_MASK = 0 \<Longrightarrow> stat_flags (set_stat b th) = stat_flags th"
  by (simp add: set_stat_def stat_defs bit.conj_disj_distrib2 and.assoc)

lemma stat_flags_zero [simp]:
  "RT_THREAD_READY AND RT_THREAD_STAT_SIGNAL_MASK = 0" "RT_THREAD_RUNNING AND RT_THREAD_STAT_SIGNAL_MASK = 0"
  "RT_THREAD_SUSPEND AND RT_THREAD_STAT_SIGNAL_MASK = 0"
  by (simp_all add: stat_defs)

lemma rt_schedule_insert_flags:
  "rt_schedule_insert_thread t s = Some s' \<Longrightarrow> stat_flags (threads s' u) = stat_flags (threads s u)"
  by (auto simp: rt_schedule_insert_thread_def tlist_insert_before_def tlist_insert_after_def set_stat_flags Let_def
      split: if_splits bind_splits)

lemma rt_schedule_remove_flags:
  "rt_schedule_remove_thread t s = Some s' \<Longrightarrow> threads s' = threads s"
  by (auto simp: rt_schedule_remove_thread_def tlist_remove_def Let_def split: if_splits bind_splits)

lemma schedule_clear_yield_flags: "stat_flags (threads (schedule_clear_yield c s) u) = stat_flags (threads s u)"
  by (auto simp: schedule_clear_yield_def stat_defs and.assoc)

lemma rt_schedule_flags:
  assumes "rt_schedule s = Some s'"
  shows "stat_flags (threads s' u) = stat_flags (threads s u)"
proof -
  have sw: "stat_flags (threads s2 u) = stat_flags (threads s1 u)"
    if "schedule_switch c t p s1 = Some s2" for c t p and s1 s2 :: "'a kstate_scheme"
    using that
    by (auto simp: schedule_switch_def Let_def set_stat_flags split: if_splits bind_splits
        dest!: rt_schedule_remove_flags dest: rt_schedule_insert_flags [where u = u])
  have st: "stat_flags (threads s2 u) = stat_flags (threads s1 u)"
    if "schedule_stay c s1 = Some s2" for c and s1 s2 :: "'a kstate_scheme"
    using that
    by (auto simp: schedule_stay_def set_stat_flags split: bind_splits dest!: rt_schedule_remove_flags)
  show ?thesis
    using assms
    by (auto simp: rt_schedule_def Let_def schedule_clear_yield_flags split: if_splits bind_splits dest!: sw st)
qed

section \<open>The signals of a thread\<close>

text \<open>The pending bits are the signals in the list, each once, and a thread that lets signals through
  has a table of handlers, all of them of a given set.\<close>

definition sig_ok :: "sighandler set \<Rightarrow> rt_thread \<Rightarrow> bool" where
  "sig_ok hs th \<longleftrightarrow> distinct (si_list th) \<and> (\<forall>n. bit (sig_pending th) n \<longleftrightarrow> n \<in> set (si_list th)) \<and>
     (sig_mask th \<noteq> 0 \<longrightarrow> (\<exists>v. sig_vectors th = Some v \<and> (\<forall>n h. v n = Some h \<longrightarrow> h \<in> hs)))"

lemma bit_sig_bit [simp]: "bit (sig_bit n) m \<longleftrightarrow> m = n \<and> m < 32"
  by (auto simp: sig_bit_def bit_push_bit_iff bit_1_iff)

lemma bit_u32: "bit (w :: u32) n \<Longrightarrow> n < 32"
  using bit_imp_le_length [of w n] by simp

lemma sig_ok_pop:
  assumes "sig_ok hs th" "si_list th = n # ns"
  shows "sig_ok hs (th\<lparr>si_list := ns, sig_pending := sig_pending th AND NOT (sig_bit n)\<rparr>)"
proof -
  have "bit (sig_pending th) m \<longleftrightarrow> m = n \<or> m \<in> set ns" for m using assms by (auto simp: sig_ok_def)
  then show ?thesis using assms by (auto simp: sig_ok_def bit_and_iff bit_not_iff dest: bit_u32)
qed

lemma sig_ok_push:
  assumes "sig_ok hs th" "n \<notin> set (si_list th)" "n < 32"
  shows "sig_ok hs (th\<lparr>si_list := si_list th @ [n], sig_pending := sig_pending th OR sig_bit n\<rparr>)"
  using assms by (auto simp: sig_ok_def bit_or_iff)

lemma sig_wanted_iff: "sig_wanted th \<longleftrightarrow> (\<exists>n. bit (sig_pending th) n \<and> bit (sig_mask th) n)"
  by (auto simp: sig_wanted_def bit_eq_iff bit_and_iff dest: bit_u32)

lemma sig_wanted_nonempty: "sig_ok hs th \<Longrightarrow> sig_wanted th \<Longrightarrow> si_list th \<noteq> [] \<and> sig_mask th \<noteq> 0"
  by (auto simp: sig_wanted_iff sig_ok_def)

lemma same_sched_sig [simp]:
  "same_sched (th\<lparr>si_list := a, sig_pending := b\<rparr>) th" "same_sched (th\<lparr>t_error := e\<rparr>) th"
  "same_sched (th\<lparr>sig_mask := m\<rparr>) th" "same_sched (th\<lparr>sig_vectors := v\<rparr>) th"
  by (simp_all add: same_sched_def stack_ok_def)

text \<open>
  The contract between the loop and the handlers: a handler of the set, run by its thread, returns, keeps the
  client's invariant and the processor, and lets the signals of the thread alone; the bookkeeping of the
  loop does not break the invariant.
\<close>

locale signal_handlers =
  fixes exec :: "'a handlers" and hs :: "sighandler set" and inv :: "'a kstate_scheme \<Rightarrow> bool"
  assumes handler_runs: "h \<in> hs \<Longrightarrow> inv s \<Longrightarrow> current_thread s = Some t \<Longrightarrow>
      \<exists>s'. exec h n s = Some s' \<and> inv s' \<and> current_thread s' = Some t \<and> siginfo_free s' = siginfo_free s \<and>
        si_list (threads s' t) = si_list (threads s t) \<and> sig_pending (threads s' t) = sig_pending (threads s t) \<and>
        sig_vectors (threads s' t) = sig_vectors (threads s t) \<and> (\<forall>m. bit (sig_mask (threads s' t)) m \<longrightarrow>
          bit (sig_mask (threads s t)) m)"
    and inv_sig: "inv s \<Longrightarrow> inv (upd_thread t (\<lambda>th. th\<lparr>si_list := a, sig_pending := b th\<rparr>) s)"
    and inv_error: "inv s \<Longrightarrow> inv (upd_thread t (\<lambda>th. th\<lparr>t_error := e\<rparr>) s)"
    and inv_free: "inv s \<Longrightarrow> inv (s\<lparr>siginfo_free := k\<rparr>)"
begin

lemma handle_sig_loop_ends:
  assumes "inv s" "current_thread s = Some t" "sig_ok hs (threads s t)"
  shows "\<exists>s'. handle_sig_loop exec t s = Some s' \<and> inv s' \<and> current_thread s' = Some t \<and>
    sig_ok hs (threads s' t) \<and> \<not> sig_wanted (threads s' t) \<and>
    siginfo_free s' + length (si_list (threads s' t)) = siginfo_free s + length (si_list (threads s t)) \<and>
    (sig_wanted (threads s t) \<longrightarrow> t_error (threads s' t) = - RT_EINTR)"
  using assms
proof (induction "length (si_list (threads s t))" arbitrary: s rule: less_induct)
  case less
  show ?case
  proof (cases "sig_wanted (threads s t)")
    case False
    then show ?thesis using less.prems by (simp add: handle_sig_loop.simps)
  next
    case True
    obtain n ns where ns: "si_list (threads s t) = n # ns"
      using sig_wanted_nonempty [OF less.prems(3) True] by (cases "si_list (threads s t)") auto
    obtain v where v: "sig_vectors (threads s t) = Some v" "\<forall>m h. v m = Some h \<longrightarrow> h \<in> hs"
      using sig_wanted_nonempty [OF less.prems(3) True] less.prems(3) by (auto simp: sig_ok_def)
    let ?s1 = "upd_thread t (\<lambda>th. th\<lparr>si_list := ns, sig_pending := sig_pending th AND NOT (sig_bit n)\<rparr>) s"
    have ok1: "sig_ok hs (threads ?s1 t)" using sig_ok_pop [OF less.prems(3) ns] by simp
    obtain s2 where s2: "(case v n of None \<Rightarrow> Some ?s1 | Some h \<Rightarrow> exec h n ?s1) = Some s2" "inv s2"
      "current_thread s2 = Some t" "siginfo_free s2 = siginfo_free s" "si_list (threads s2 t) = ns"
      "sig_pending (threads s2 t) = sig_pending (threads ?s1 t)"
      "sig_vectors (threads s2 t) = sig_vectors (threads ?s1 t)"
      "\<forall>m. bit (sig_mask (threads s2 t)) m \<longrightarrow> bit (sig_mask (threads ?s1 t)) m"
      using handler_runs [where s = ?s1 and t = t and n = n] less.prems(2) v(2)
        inv_sig [where t = t and a = ns and b = "\<lambda>th. sig_pending th AND NOT (sig_bit n)", OF less.prems(1)]
      by (cases "v n") auto
    let ?s3 = "upd_thread t (\<lambda>th. th\<lparr>t_error := - RT_EINTR\<rparr>) (s2\<lparr>siginfo_free := siginfo_free s2 + 1\<rparr>)"
    have "sig_mask (threads s2 t) \<noteq> 0 \<Longrightarrow> sig_mask (threads ?s1 t) \<noteq> 0"
      using s2(8) by (auto simp: bit_eq_iff)
    then have ok3: "sig_ok hs (threads ?s3 t)" using ok1 s2(5-7) by (auto simp: sig_ok_def)
    have step: "handle_sig_loop exec t s = handle_sig_loop exec t ?s3"
      using True ns v(1) s2(1) by (subst handle_sig_loop.simps) (simp add: Let_def)
    have "length (si_list (threads ?s3 t)) < length (si_list (threads s t))" using s2(5) ns by simp
    from less.hyps [OF this inv_error [OF inv_free [OF s2(2)]] _ ok3] obtain s' where s':
      "handle_sig_loop exec t ?s3 = Some s'" "inv s'" "current_thread s' = Some t" "sig_ok hs (threads s' t)"
      "\<not> sig_wanted (threads s' t)"
      "siginfo_free s' + length (si_list (threads s' t)) = siginfo_free ?s3 + length (si_list (threads ?s3 t))"
      "sig_wanted (threads ?s3 t) \<longrightarrow> t_error (threads s' t) = - RT_EINTR" using s2(3) by auto
    have "t_error (threads s' t) = - RT_EINTR"
    proof (cases "sig_wanted (threads ?s3 t)")
      case False
      then have "s' = ?s3" using s'(1) by (simp add: handle_sig_loop.simps)
      then show ?thesis by simp
    qed (use s'(7) in simp)
    then show ?thesis using step s' s2(4,5) ns by auto
  qed
qed

end

section \<open>Sending a signal\<close>

lemma stat_base_signal [simp]:
  "stat_base (th\<lparr>t_stat := t_stat th OR (RT_THREAD_STAT_SIGNAL OR RT_THREAD_STAT_SIGNAL_PENDING)\<rparr>) = stat_base th"
  "stat_base (th\<lparr>t_stat := t_stat th OR RT_THREAD_STAT_SIGNAL\<rparr>) = stat_base th"
  "stat_base (th\<lparr>t_stat := t_stat th AND NOT RT_THREAD_STAT_SIGNAL\<rparr>) = stat_base th"
  "stat_base (th\<lparr>t_stat := t_stat th AND NOT RT_THREAD_STAT_SIGNAL_PENDING\<rparr>) = stat_base th"
  by (simp_all add: stat_base_def stat_defs bit.conj_disj_distrib2 and.assoc)

lemma same_sched_signal [simp]:
  "same_sched (th\<lparr>t_stat := t_stat th OR (RT_THREAD_STAT_SIGNAL OR RT_THREAD_STAT_SIGNAL_PENDING)\<rparr>) th"
  "same_sched (th\<lparr>t_stat := t_stat th OR RT_THREAD_STAT_SIGNAL\<rparr>) th"
  "same_sched (th\<lparr>t_stat := t_stat th AND NOT RT_THREAD_STAT_SIGNAL\<rparr>) th"
  "same_sched (th\<lparr>t_stat := t_stat th AND NOT RT_THREAD_STAT_SIGNAL_PENDING\<rparr>) th"
  by (simp_all add: same_sched_def stack_ok_def)

lemma kernel_inv_siginfo [simp]: "kernel_inv (s\<lparr>siginfo_free := k\<rparr>) = kernel_inv s"
  by (rule kernel_inv_cong) simp_all

lemma kill_suspended_spec:
  assumes inv: "kernel_inv s" and c: "current_thread s = Some c"
    and st: "stat_base (threads s t) = RT_THREAD_SUSPEND" and ok: "sig_ok hs (threads s t)"
    and sig: "sig_valid sig" "nat sig \<notin> set (si_list (threads s t))" "bit (sig_mask (threads s t)) (nat sig)"
    and free: "0 < siginfo_free s"
  shows "\<exists>s' c'. rt_thread_kill exec t sig s = Some (RT_EOK, s') \<and> kernel_inv s' \<and> current_thread s' = Some c' \<and>
    runnable (threads s' t) \<and> t_stat (threads s' t) AND RT_THREAD_STAT_SIGNAL_PENDING \<noteq> 0 \<and>
    si_list (threads s' t) = si_list (threads s t) @ [nat sig] \<and> sig_ok hs (threads s' t) \<and>
    sig_wanted (threads s' t) \<and> sig_vectors (threads s' t) = sig_vectors (threads s t) \<and>
    (\<forall>h. wait_head h \<longrightarrow> klists s' h = removeAll t (klists s h)) \<and> kstate.more s' = kstate.more s"
proof -
  let ?th1 = "(threads s t)\<lparr>si_list := si_list (threads s t) @ [nat sig],
                            sig_pending := sig_pending (threads s t) OR sig_bit (nat sig)\<rparr>"
  let ?s1 = "upd_thread t (\<lambda>th. th\<lparr>si_list := si_list th @ [nat sig],
               sig_pending := sig_pending th OR sig_bit (nat sig)\<rparr>) (s\<lparr>siginfo_free := siginfo_free s - 1\<rparr>)"
  have n: "nat sig < 32" using sig(1) by (auto simp: sig_valid_def RT_SIG_MAX_def)
  have ok1: "sig_ok hs ?th1" using sig_ok_push [OF ok sig(2) n] .
  have w1: "sig_wanted ?th1" using sig(3) n by (auto simp: sig_wanted_iff bit_or_iff)
  have i1: "kernel_inv ?s1" using inv by (subst kernel_inv_upd_same) simp_all
  have st1: "stat_base (threads ?s1 t) = RT_THREAD_SUSPEND" using st by simp
  obtain s2 b where s2: "rt_thread_resume t ?s1 = Some (RT_EOK, s2)" "kernel_inv s2" "kframe ?s1 s2"
    "current_thread s2 = current_thread ?s1" "b \<in> {RT_THREAD_READY, RT_THREAD_RUNNING}"
    "threads s2 = (threads ?s1)(t := set_stat b (threads ?s1 t))"
    "\<forall>h. wait_head h \<longrightarrow> klists s2 h = removeAll t (klists ?s1 h)"
    using rt_thread_resume_spec [OF i1 st1] by blast
  let ?s3 = "upd_thread t (\<lambda>th. th\<lparr>t_stat := t_stat th OR
               (RT_THREAD_STAT_SIGNAL OR RT_THREAD_STAT_SIGNAL_PENDING)\<rparr>) s2"
  have i3: "kernel_inv ?s3" using s2(2) by (subst kernel_inv_upd_same) simp_all
  have c3: "current_thread ?s3 = Some c" using s2(4) c by simp
  obtain s4 c4 where s4: "rt_schedule ?s3 = Some s4" "kernel_inv s4" "current_thread s4 = Some c4"
    "sched_frame ?s3 s4" "keeps_blocked ?s3 s4" "\<forall>h. wait_head h \<longrightarrow> klists s4 h = klists ?s3 h"
    using kernel_schedule [OF i3 c3] by blast
  have t4: "threads s4 t = (threads ?s3 t)\<lparr>t_stat := t_stat (threads s4 t)\<rparr>"
    using s4(4) unfolding sched_frame_def by blast
  have f: "si_list (threads s4 t) = si_list ?th1" "sig_pending (threads s4 t) = sig_pending ?th1"
    "sig_mask (threads s4 t) = sig_mask ?th1" "sig_vectors (threads s4 t) = sig_vectors ?th1"
    by (subst t4, simp add: s2(6))+
  have "stat_flags (threads s4 t) = stat_flags (threads ?s3 t)" using rt_schedule_flags [OF s4(1)] .
  moreover have "stat_flags (threads ?s3 t) AND RT_THREAD_STAT_SIGNAL_PENDING = RT_THREAD_STAT_SIGNAL_PENDING"
    by (simp add: stat_defs bit.conj_disj_distrib2 and.assoc)
  moreover have "stat_flags (threads s4 t) AND RT_THREAD_STAT_SIGNAL_PENDING =
      t_stat (threads s4 t) AND RT_THREAD_STAT_SIGNAL_PENDING"
    by (simp add: stat_defs and.assoc)
  ultimately have p: "t_stat (threads s4 t) AND RT_THREAD_STAT_SIGNAL_PENDING \<noteq> 0"
    by (simp add: RT_THREAD_STAT_SIGNAL_PENDING_def)
  have "runnable (threads ?s3 t)" using s2(5,6) by (auto simp: runnable_def)
  then have r: "runnable (threads s4 t)" using s4(5) by (simp add: keeps_blocked_def)
  have "sig_ok hs (threads s4 t)" "sig_wanted (threads s4 t)"
    using ok1 w1 f by (simp_all add: sig_ok_def sig_wanted_def)
  moreover have "rt_thread_kill exec t sig s = Some (RT_EOK, s4)"
    using sig(1,2) free w1 st s2(1) s4(1)
    by (simp add: rt_thread_kill_def signal_deliver_def)
  moreover have "kstate.more s4 = kstate.more s"
    using s4(4) s2(3) by (simp add: sched_frame_def kframe_def)
  ultimately show ?thesis using s4(2,3,6) s2(7) r p f(1,4) by auto
qed

text \<open>A signal that is already pending is not sent a second time.\<close>

lemma kill_pending_again:
  assumes "sig_ok hs (threads s t)" "sig_valid sig" "nat sig \<in> set (si_list (threads s t))"
  shows "rt_thread_kill exec t sig s = Some (0, s)"
proof -
  have n: "nat sig < 32" using assms(2) by (auto simp: sig_valid_def RT_SIG_MAX_def)
  have "bit (sig_pending (threads s t) AND sig_bit (nat sig)) (nat sig)"
    using assms(1,3) n by (simp add: sig_ok_def bit_and_iff)
  then have "sig_pending (threads s t) AND sig_bit (nat sig) \<noteq> 0" by auto
  then show ?thesis using assms by (simp add: rt_thread_kill_def)
qed

end
