(* ===== verification/Device.thy ===== *)
theory Device
  imports Mailbox
begin

text \<open>
  Devices: the generic layer (\<^verbatim>\<open>rt-thread/src/device.c\<close>), the simulated devices of the robot
  (\<^verbatim>\<open>components/drivers/mock_devices/mock_devices.c\<close>) and the pins (\<^verbatim>\<open>components/drivers/misc/pin.c\<close>).

  A device is the number of its kernel object. Its table of operations is named; an operation that is a null
  pointer in the table is absent. What a driver reads from outside are parameters: \<open>rnd\<close> gives the first
  value of \<^verbatim>\<open>rand\<close> after \<^verbatim>\<open>srand\<close> with a seed, and \<open>pin_level\<close> what the board's pin driver answers to a read, as a
  function of the calls made to it before. A buffer to read into is the value that ends up in it (a
  \<^verbatim>\<open>char\<close> or an \<^verbatim>\<open>int\<close>), \<open>None\<close> when nothing is stored; a buffer to write from is a string, \<open>None\<close> the null pointer.
\<close>

datatype dev_ops = Proximity_sensor_ops | Engine_ops | Garbage_bag_ops | Speaker_ops

record rt_device =
  d_type :: nat
  d_flag :: u16
  d_open_flag :: u16
  d_ref_count :: u8
  d_ops :: dev_ops
  rx_indicate :: "nat option"
  tx_complete :: "nat option"

text \<open>The calls made to the board's pin driver, the latest first.\<close>

datatype pin_call = Pin_mode int int | Pin_write int int | Pin_read int

record dev_state = ipc_state +
  devices :: "nat \<Rightarrow> rt_device"
  engine_stopped :: int
  garbage_bag_value :: int
  speaker_out :: "string list"
  pin_calls :: "pin_call list"

definition RT_DEVICE_FLAG_RDWR :: u16 where "RT_DEVICE_FLAG_RDWR = 0x003"
definition RT_DEVICE_FLAG_STANDALONE :: u16 where "RT_DEVICE_FLAG_STANDALONE = 0x008"
definition RT_DEVICE_FLAG_ACTIVATED :: u16 where "RT_DEVICE_FLAG_ACTIVATED = 0x010"
definition RT_DEVICE_OFLAG_OPEN :: u16 where "RT_DEVICE_OFLAG_OPEN = 0x008"
definition RT_DEVICE_OFLAG_MASK :: u16 where "RT_DEVICE_OFLAG_MASK = 0xf0f"
definition RT_DEVICE_OFLAG_CLOSE :: u16 where "RT_DEVICE_OFLAG_CLOSE = 0x000"
definition RT_Device_Class_Mock :: nat where "RT_Device_Class_Mock = 25"

definition upd_device :: "nat \<Rightarrow> (rt_device \<Rightarrow> rt_device) \<Rightarrow> 'a dev_state_scheme \<Rightarrow> 'a dev_state_scheme" where
  "upd_device d f s = s\<lparr>devices := (devices s)(d := f (devices s d))\<rparr>"

section \<open>The drivers\<close>

text \<open>All four \<^verbatim>\<open>init\<close> functions count a reference.\<close>

definition device_init_op :: "nat \<Rightarrow> 'a dev_state_scheme \<Rightarrow> rt_err_t \<times> 'a dev_state_scheme" where
  "device_init_op d s = (RT_EOK, upd_device d (\<lambda>dev. dev\<lparr>d_ref_count := d_ref_count dev + 1\<rparr>) s)"

definition proximity_sensor_read :: "(u32 \<Rightarrow> int) \<Rightarrow> 'a dev_state_scheme \<Rightarrow> rt_err_t \<times> int" where
  "proximity_sensor_read rnd s =
     (let i = rnd (rt_tick_get_millisecond s)
      in (RT_EOK, if i mod 30 = 0 then int (of_char (CHR ''y'')) else int (of_char (CHR ''n''))))"

text \<open>The messages on the console are not modelled.\<close>

definition engine_write :: "string \<Rightarrow> 'a dev_state_scheme \<Rightarrow> rt_err_t \<times> 'a dev_state_scheme" where
  "engine_write msg s =
     (RT_EOK, if msg = ''STOP'' then s\<lparr>engine_stopped := 1\<rparr>
              else if msg = ''START'' then s\<lparr>engine_stopped := 0\<rparr> else s)"

definition garbage_bag_write :: "'a dev_state_scheme \<Rightarrow> rt_err_t \<times> 'a dev_state_scheme" where
  "garbage_bag_write s = (RT_EOK, s\<lparr>garbage_bag_value := garbage_bag_value s + 1\<rparr>)"

definition garbage_bag_read :: "'a dev_state_scheme \<Rightarrow> rt_err_t \<times> int" where
  "garbage_bag_read s = (RT_EOK, garbage_bag_value s)"

definition speaker_write :: "string \<Rightarrow> 'a dev_state_scheme \<Rightarrow> rt_err_t \<times> 'a dev_state_scheme" where
  "speaker_write msg s = (RT_EOK, s\<lparr>speaker_out := msg # speaker_out s\<rparr>)"

text \<open>The \<^verbatim>\<open>read\<close> and \<^verbatim>\<open>write\<close> entries of the tables; \<open>None\<close> is an entry that is null. A driver that gets the
  null pointer reads through it only where it looks at the buffer.\<close>

definition device_read_op :: "(u32 \<Rightarrow> int) \<Rightarrow> nat \<Rightarrow> 'a dev_state_scheme \<Rightarrow> (rt_err_t \<times> int) option" where
  "device_read_op rnd d s =
     (case d_ops (devices s d) of
        Proximity_sensor_ops \<Rightarrow> Some (proximity_sensor_read rnd s)
      | Garbage_bag_ops \<Rightarrow> Some (garbage_bag_read s)
      | Engine_ops \<Rightarrow> None | Speaker_ops \<Rightarrow> None)"

definition has_write_op :: "dev_ops \<Rightarrow> bool" where
  "has_write_op ops \<longleftrightarrow> ops \<noteq> Proximity_sensor_ops"

definition device_write_op ::
  "nat \<Rightarrow> string option \<Rightarrow> 'a dev_state_scheme \<Rightarrow> (rt_err_t \<times> 'a dev_state_scheme) option" where
  "device_write_op d buffer s =
     (case d_ops (devices s d) of
        Engine_ops \<Rightarrow> map_option (\<lambda>msg. engine_write msg s) buffer
      | Garbage_bag_ops \<Rightarrow> Some (garbage_bag_write s)
      | Speaker_ops \<Rightarrow> map_option (\<lambda>msg. speaker_write msg s) buffer
      | Proximity_sensor_ops \<Rightarrow> None)"

section \<open>The device layer\<close>

definition rt_device_find :: "string \<Rightarrow> 'a kstate_scheme \<Rightarrow> (objref option \<times> 'a kstate_scheme) option" where
  "rt_device_find name s = rt_object_find name RT_Object_Class_Device s"

definition rt_device_register ::
  "nat option \<Rightarrow> string \<Rightarrow> u16 \<Rightarrow> 'a dev_state_scheme \<Rightarrow> (rt_err_t \<times> 'a dev_state_scheme) option" where
  "rt_device_register dev name flags s =
     (case dev of None \<Rightarrow> Some (- RT_ERROR, s)
      | Some d \<Rightarrow> do {
          (found, s1) \<leftarrow> rt_device_find name s;
          if found \<noteq> None then Some (- RT_ERROR, s1)
          else do {
            s2 \<leftarrow> rt_object_init (Kobj d) RT_Object_Class_Device name s1;
            Some (RT_EOK, upd_device d (\<lambda>dv. dv\<lparr>d_flag := flags, d_ref_count := 0, d_open_flag := 0\<rparr>) s2)
          }
        })"

definition is_device :: "nat \<Rightarrow> 'a kstate_scheme \<Rightarrow> bool" where
  "is_device d s \<longleftrightarrow> rt_object_get_type (Kobj d) s = RT_Object_Class_Device"

definition rt_device_unregister :: "nat \<Rightarrow> 'a dev_state_scheme \<Rightarrow> (rt_err_t \<times> 'a dev_state_scheme) option" where
  "rt_device_unregister d s = do {
     _ \<leftarrow> RT_ASSERT (is_device d s);
     _ \<leftarrow> RT_ASSERT (rt_object_is_systemobject (Kobj d) s);
     Some (RT_EOK, rt_object_detach (Kobj d) s)
   }"

text \<open>\<open>ptr\<close> is what \<^verbatim>\<open>rt_malloc\<close> returns. The memory is zeroed; the table of operations is set by the caller, and
  is given here.\<close>

definition rt_device_create ::
  "nat option \<Rightarrow> nat \<Rightarrow> dev_ops \<Rightarrow> 'a dev_state_scheme \<Rightarrow> nat option \<times> 'a dev_state_scheme" where
  "rt_device_create ptr type ops s =
     (case ptr of None \<Rightarrow> (None, s)
      | Some d \<Rightarrow> (Some d,
          upd_object (Kobj d) (\<lambda>_. \<lparr>o_name = [], o_type = 0, o_flag = 0\<rparr>)
           (upd_device d (\<lambda>_. \<lparr>d_type = type, d_flag = 0, d_open_flag = 0, d_ref_count = 0, d_ops = ops, rx_indicate = None, tx_complete = None\<rparr>) s)))"

definition rt_device_destroy :: "nat \<Rightarrow> 'a dev_state_scheme \<Rightarrow> 'a dev_state_scheme option" where
  "rt_device_destroy d s = do {
     _ \<leftarrow> RT_ASSERT (is_device d s);
     _ \<leftarrow> RT_ASSERT (\<not> rt_object_is_systemobject (Kobj d) s);
     Some (rt_object_detach (Kobj d) s)
   }"

definition device_activate :: "nat \<Rightarrow> 'a dev_state_scheme \<Rightarrow> 'a dev_state_scheme" where
  "device_activate d s = upd_device d (\<lambda>dev. dev\<lparr>d_flag := d_flag dev OR RT_DEVICE_FLAG_ACTIVATED\<rparr>) s"

definition rt_device_init :: "nat option \<Rightarrow> 'a dev_state_scheme \<Rightarrow> (rt_err_t \<times> 'a dev_state_scheme) option" where
  "rt_device_init dev s =
     (case dev of None \<Rightarrow> None
      | Some d \<Rightarrow>
          if d_flag (devices s d) AND RT_DEVICE_FLAG_ACTIVATED = 0
          then let (err, s1) = device_init_op d s
               in Some (err, if err \<noteq> RT_EOK then s1 else device_activate d s1)
          else Some (RT_EOK, s))"

text \<open>None of the tables has an \<^verbatim>\<open>open\<close>, \<^verbatim>\<open>close\<close> or \<^verbatim>\<open>control\<close> entry.\<close>

definition rt_device_open :: "nat \<Rightarrow> u16 \<Rightarrow> 'a dev_state_scheme \<Rightarrow> (rt_err_t \<times> 'a dev_state_scheme) option" where
  "rt_device_open d oflag s = do {
     _ \<leftarrow> RT_ASSERT (is_device d s);
     let (err, s1) = (if d_flag (devices s d) AND RT_DEVICE_FLAG_ACTIVATED = 0
                      then let (e, s0) = device_init_op d s
                           in if e \<noteq> RT_EOK then (e, s0) else (e, device_activate d s0)
                      else (RT_EOK, s));
     if err \<noteq> RT_EOK then Some (err, s1)
     else if d_flag (devices s1 d) AND RT_DEVICE_FLAG_STANDALONE \<noteq> 0 \<and>
             d_open_flag (devices s1 d) AND RT_DEVICE_OFLAG_OPEN \<noteq> 0
     then Some (- RT_EBUSY, s1)
     else do {
       let s2 = upd_device d (\<lambda>dev. dev\<lparr>d_open_flag := (oflag AND RT_DEVICE_OFLAG_MASK) OR RT_DEVICE_OFLAG_OPEN,
                                         d_ref_count := d_ref_count dev + 1\<rparr>) s1;
       _ \<leftarrow> RT_ASSERT (d_ref_count (devices s2 d) \<noteq> 0);
       Some (RT_EOK, s2)
     }
   }"

definition rt_device_close :: "nat \<Rightarrow> 'a dev_state_scheme \<Rightarrow> (rt_err_t \<times> 'a dev_state_scheme) option" where
  "rt_device_close d s = do {
     _ \<leftarrow> RT_ASSERT (is_device d s);
     if d_ref_count (devices s d) = 0 then Some (- RT_ERROR, s)
     else
       let s1 = upd_device d (\<lambda>dev. dev\<lparr>d_ref_count := d_ref_count dev - 1\<rparr>) s
       in if d_ref_count (devices s1 d) \<noteq> 0 then Some (RT_EOK, s1)
          else Some (RT_EOK, upd_device d (\<lambda>dev. dev\<lparr>d_open_flag := RT_DEVICE_OFLAG_CLOSE\<rparr>) s1)
   }"

text \<open>\<^verbatim>\<open>rt_set_errno\<close> in thread context stores the error of the running thread.\<close>

definition rt_set_errno :: "rt_err_t \<Rightarrow> 'a kstate_scheme \<Rightarrow> 'a kstate_scheme" where
  "rt_set_errno err s =
     (if interrupt_nest s \<noteq> 0 then s
      else case current_thread s of None \<Rightarrow> s
           | Some t \<Rightarrow> upd_thread t (\<lambda>th. th\<lparr>t_error := err\<rparr>) s)"

definition rt_device_read ::
  "(u32 \<Rightarrow> int) \<Rightarrow> nat option \<Rightarrow> 'a dev_state_scheme \<Rightarrow> (int \<times> int option \<times> 'a dev_state_scheme) option" where
  "rt_device_read rnd dev s = do {
     d \<leftarrow> dev;
     _ \<leftarrow> RT_ASSERT (is_device d s);
     if d_ref_count (devices s d) = 0 then Some (0, None, rt_set_errno (- RT_ERROR) s)
     else case device_read_op rnd d s of
            Some (n, v) \<Rightarrow> Some (n, Some v, s)
          | None \<Rightarrow> Some (0, None, rt_set_errno (- RT_ENOSYS) s)
   }"

definition rt_device_write ::
  "nat option \<Rightarrow> string option \<Rightarrow> 'a dev_state_scheme \<Rightarrow> (int \<times> 'a dev_state_scheme) option" where
  "rt_device_write dev buffer s = do {
     d \<leftarrow> dev;
     _ \<leftarrow> RT_ASSERT (is_device d s);
     if d_ref_count (devices s d) = 0 then Some (0, rt_set_errno (- RT_ERROR) s)
     else if has_write_op (d_ops (devices s d)) then device_write_op d buffer s
     else Some (0, rt_set_errno (- RT_ENOSYS) s)
   }"

definition rt_device_control :: "nat \<Rightarrow> 'a dev_state_scheme \<Rightarrow> (rt_err_t \<times> 'a dev_state_scheme) option" where
  "rt_device_control d s = do {
     _ \<leftarrow> RT_ASSERT (is_device d s);
     Some (- RT_ENOSYS, s)
   }"

text \<open>The call-backs of a driver; \<open>None\<close> is the null pointer, else the address of a function.\<close>

definition rt_device_set_rx_indicate :: "nat \<Rightarrow> nat option \<Rightarrow> 'a dev_state_scheme \<Rightarrow> (rt_err_t \<times> 'a dev_state_scheme) option" where
  "rt_device_set_rx_indicate d rx_ind s = do {
     _ \<leftarrow> RT_ASSERT (is_device d s);
     Some (RT_EOK, upd_device d (\<lambda>dev. dev\<lparr>rx_indicate := rx_ind\<rparr>) s)
   }"

definition rt_device_set_tx_complete :: "nat \<Rightarrow> nat option \<Rightarrow> 'a dev_state_scheme \<Rightarrow> (rt_err_t \<times> 'a dev_state_scheme) option" where
  "rt_device_set_tx_complete d tx_done s = do {
     _ \<leftarrow> RT_ASSERT (is_device d s);
     Some (RT_EOK, upd_device d (\<lambda>dev. dev\<lparr>tx_complete := tx_done\<rparr>) s)
   }"

section \<open>Pins\<close>

definition rt_pin_mode :: "int \<Rightarrow> int \<Rightarrow> 'a dev_state_scheme \<Rightarrow> 'a dev_state_scheme" where
  "rt_pin_mode pin mode s = s\<lparr>pin_calls := Pin_mode pin mode # pin_calls s\<rparr>"

definition rt_pin_write :: "int \<Rightarrow> int \<Rightarrow> 'a dev_state_scheme \<Rightarrow> 'a dev_state_scheme" where
  "rt_pin_write pin v s = s\<lparr>pin_calls := Pin_write pin v # pin_calls s\<rparr>"

definition rt_pin_read ::
  "(int \<Rightarrow> pin_call list \<Rightarrow> int) \<Rightarrow> int \<Rightarrow> 'a dev_state_scheme \<Rightarrow> int \<times> 'a dev_state_scheme" where
  "rt_pin_read level pin s = (level pin (pin_calls s), s\<lparr>pin_calls := Pin_read pin # pin_calls s\<rparr>)"

section \<open>The devices of the robot\<close>

text \<open>One device of \<^verbatim>\<open>rt_mock_devices_init\<close>: create, set the operations, register. A failed allocation is
  dereferenced.\<close>

definition mock_device :: "nat option \<Rightarrow> dev_ops \<Rightarrow> string \<Rightarrow> 'a dev_state_scheme \<Rightarrow> 'a dev_state_scheme option" where
  "mock_device ptr ops name s = do {
     let (dev, s1) = rt_device_create ptr RT_Device_Class_Mock ops s;
     d \<leftarrow> dev;
     (_, s2) \<leftarrow> rt_device_register (Some d) name RT_DEVICE_FLAG_RDWR s1;
     Some s2
   }"

definition rt_mock_devices_init ::
  "nat option \<Rightarrow> nat option \<Rightarrow> nat option \<Rightarrow> nat option \<Rightarrow> 'a dev_state_scheme \<Rightarrow> 'a dev_state_scheme option" where
  "rt_mock_devices_init p1 p2 p3 p4 s = do {
     s1 \<leftarrow> mock_device p1 Proximity_sensor_ops ''proximity_sensor'' s;
     s2 \<leftarrow> mock_device p2 Engine_ops ''engine'' s1;
     s3 \<leftarrow> mock_device p3 Garbage_bag_ops ''garbage_bag'' s2;
     mock_device p4 Speaker_ops ''speaker'' s3
   }"

end
