(* ===== verification/Robot.thy ===== *)
theory Robot
  imports Kernel_Prelude
begin

text \<open>
  The map of the room and the movement of the robot on it (\<^verbatim>\<open>applications/tasks.c\<close>): the static variables
  \<^verbatim>\<open>map\<close>, \<^verbatim>\<open>position\<close> and \<^verbatim>\<open>direction\<close>, the search for a new position, the decision movement control takes at
  every activation, and the signal handler that steps back from an obstacle.

  \<open>None\<close> is an access outside the array. A cell is 0 when it has not been visited, 1 for an obstacle, 2 when
  it has been cleaned. \<^verbatim>\<open>print_map\<close> only writes to the console and is not modelled.
\<close>

datatype directions = UP | DOWN | LEFT | RIGHT | RETURN

record robot =
  rmap :: "int list list"
  pos0 :: int
  pos1 :: int
  direction :: directions

definition MAP_SIDE :: int where "MAP_SIDE = 10"

definition on_map :: "int \<Rightarrow> int \<Rightarrow> bool" where
  "on_map i j \<longleftrightarrow> 0 \<le> i \<and> i < MAP_SIDE \<and> 0 \<le> j \<and> j < MAP_SIDE"

definition map_get :: "robot \<Rightarrow> int \<Rightarrow> int \<Rightarrow> int option" where
  "map_get r i j = (if on_map i j then Some (rmap r ! nat i ! nat j) else None)"

definition map_set :: "robot \<Rightarrow> int \<Rightarrow> int \<Rightarrow> int \<Rightarrow> robot option" where
  "map_set r i j v =
     (if on_map i j then Some (r\<lparr>rmap := (rmap r)[nat i := (rmap r ! nat i)[nat j := v]]\<rparr>) else None)"

text \<open>The condition \<^verbatim>\<open>guard && map[i][j]!=1\<close>: the array is read only when the guard holds.\<close>

definition free_at :: "bool \<Rightarrow> robot \<Rightarrow> int \<Rightarrow> int \<Rightarrow> bool option" where
  "free_at guard r i j = (if guard then map_option (\<lambda>v. v \<noteq> 1) (map_get r i j) else Some False)"

section \<open>Movement\<close>

definition find_new_position :: "robot \<Rightarrow> (int \<times> robot) option" where
  "find_new_position r = do {
     up \<leftarrow> free_at (direction r \<noteq> DOWN \<and> pos0 r > 0) r (pos0 r - 1) (pos1 r);
     if up then Some (0, r\<lparr>pos0 := pos0 r - 1, direction := UP\<rparr>)
     else do {
       down \<leftarrow> free_at (direction r \<noteq> UP \<and> pos0 r < MAP_SIDE - 1) r (pos0 r + 1) (pos1 r);
       if down then Some (0, r\<lparr>pos0 := pos0 r + 1, direction := DOWN\<rparr>)
       else do {
         left \<leftarrow> free_at (direction r \<noteq> RIGHT \<and> pos1 r > 0) r (pos0 r) (pos1 r - 1);
         if left then Some (0, r\<lparr>pos1 := pos1 r - 1, direction := LEFT\<rparr>)
         else do {
           right \<leftarrow> free_at (direction r \<noteq> LEFT \<and> pos1 r < MAP_SIDE - 1) r (pos0 r) (pos1 r + 1);
           if right then Some (0, r\<lparr>pos1 := pos1 r + 1, direction := RIGHT\<rparr>)
           else Some (1, r)
         }
       }
     }
   }"

text \<open>The \<^verbatim>\<open>switch (direction)\<close> of \<^verbatim>\<open>movement_control_entry\<close>; \<open>stuck\<close> is the local variable, which only a
  failed step assigns.\<close>

definition next_position :: "int \<Rightarrow> robot \<Rightarrow> (int \<times> robot) option" where
  "next_position stuck r =
     (case direction r of
        UP \<Rightarrow> do {
          ok \<leftarrow> free_at (pos0 r > 0) r (pos0 r - 1) (pos1 r);
          if ok then Some (stuck, r\<lparr>pos0 := pos0 r - 1\<rparr>) else find_new_position r }
      | DOWN \<Rightarrow> do {
          ok \<leftarrow> free_at (pos0 r < MAP_SIDE - 1) r (pos0 r + 1) (pos1 r);
          if ok then Some (stuck, r\<lparr>pos0 := pos0 r + 1\<rparr>) else find_new_position r }
      | LEFT \<Rightarrow> do {
          ok \<leftarrow> free_at (pos1 r > 0) r (pos0 r) (pos1 r - 1);
          if ok then Some (stuck, r\<lparr>pos1 := pos1 r - 1\<rparr>) else find_new_position r }
      | RIGHT \<Rightarrow> do {
          ok \<leftarrow> free_at (pos1 r < MAP_SIDE - 1) r (pos0 r) (pos1 r + 1);
          if ok then Some (stuck, r\<lparr>pos1 := pos1 r + 1\<rparr>) else find_new_position r }
      | RETURN \<Rightarrow>
          Some (stuck, if pos0 r > 0 then r\<lparr>pos0 := pos0 r - 1\<rparr>
                       else if pos1 r > 0 then r\<lparr>pos1 := pos1 r - 1\<rparr> else r))"

text \<open>Marking the tile as cleaned; the flag says whether the garbage bag is written to.\<close>

definition clean_tile :: "robot \<Rightarrow> (bool \<times> robot) option" where
  "clean_tile r = do {
     v \<leftarrow> map_get r (pos0 r) (pos1 r);
     if v = 0 then do { r1 \<leftarrow> map_set r (pos0 r) (pos1 r) 2; Some (True, r1) }
     else Some (False, r)
   }"

text \<open>The initialisation at the start of \<^verbatim>\<open>movement_control_entry\<close>.\<close>

definition robot_init :: "robot \<Rightarrow> robot" where
  "robot_init r = r\<lparr>pos0 := 0, pos1 := 0, direction := DOWN,
     rmap := replicate (nat MAP_SIDE) (replicate (nat MAP_SIDE) 0)\<rparr>"

definition movement_control_obstacle_handler :: "robot \<Rightarrow> robot option" where
  "movement_control_obstacle_handler r = do {
     r1 \<leftarrow> map_set r (pos0 r) (pos1 r) 1;
     Some (case direction r1 of
             UP \<Rightarrow> r1\<lparr>pos0 := pos0 r1 + 1\<rparr>
           | DOWN \<Rightarrow> r1\<lparr>pos0 := pos0 r1 - 1\<rparr>
           | LEFT \<Rightarrow> r1\<lparr>pos1 := pos1 r1 + 1\<rparr>
           | RIGHT \<Rightarrow> r1\<lparr>pos1 := pos1 r1 - 1\<rparr>
           | RETURN \<Rightarrow> r1)
   }"

text \<open>One activation of movement control without a mail, as far as the map is concerned: clean, then move.\<close>

definition robot_activation :: "int \<Rightarrow> robot \<Rightarrow> (bool \<times> int \<times> robot) option" where
  "robot_activation stuck r = do {
     (cleaned, r1) \<leftarrow> clean_tile r;
     (stuck', r2) \<leftarrow> next_position stuck r1;
     Some (cleaned, stuck', r2)
   }"

lemmas robot_defs [kdefs] = on_map_def map_get_def map_set_def free_at_def find_new_position_def
  next_position_def clean_tile_def robot_init_def movement_control_obstacle_handler_def robot_activation_def
  MAP_SIDE_def

section \<open>The map stays a map\<close>

definition map_wf :: "int list list \<Rightarrow> bool" where
  "map_wf m \<longleftrightarrow> length m = nat MAP_SIDE \<and> (\<forall>row \<in> set m. length row = nat MAP_SIDE \<and> set row \<subseteq> {0, 1, 2})"

definition robot_wf :: "robot \<Rightarrow> bool" where
  "robot_wf r \<longleftrightarrow> map_wf (rmap r) \<and> on_map (pos0 r) (pos1 r)"

text \<open>Tiles not visited yet.\<close>

definition unvisited :: "robot \<Rightarrow> nat" where
  "unvisited r = count_list (concat (rmap r)) 0"

lemma map_wf_nth:
  assumes "map_wf m" "on_map i j"
  shows "nat i < length m" "nat j < length (m ! nat i)" "m ! nat i ! nat j \<in> {0, 1, 2}"
proof -
  show i: "nat i < length m" using assms by (auto simp: map_wf_def on_map_def MAP_SIDE_def)
  then have row: "m ! nat i \<in> set m" by simp
  show j: "nat j < length (m ! nat i)" using row assms by (auto simp: map_wf_def on_map_def MAP_SIDE_def)
  then have "m ! nat i ! nat j \<in> set (m ! nat i)" by simp
  then show "m ! nat i ! nat j \<in> {0, 1, 2}" using row assms(1) unfolding map_wf_def by blast
qed

lemma map_wf_update:
  assumes "map_wf m" "on_map i j" "v \<in> {0, 1, 2}"
  shows "map_wf (m[nat i := (m ! nat i)[nat j := v]])"
proof -
  have row: "m ! nat i \<in> set m" using map_wf_nth [OF assms(1,2)] by simp
  have "set ((m ! nat i)[nat j := v]) \<subseteq> insert v (set (m ! nat i))" by (rule set_update_subset_insert)
  moreover have "set (m ! nat i) \<subseteq> {0, 1, 2}" "length (m ! nat i) = nat MAP_SIDE"
    using row assms(1) by (auto simp: map_wf_def)
  ultimately have "set ((m ! nat i)[nat j := v]) \<subseteq> {0, 1, 2}" "length ((m ! nat i)[nat j := v]) = nat MAP_SIDE"
    using assms(3) by auto
  moreover have "set (m[nat i := (m ! nat i)[nat j := v]]) \<subseteq> insert ((m ! nat i)[nat j := v]) (set m)"
    by (rule set_update_subset_insert)
  ultimately show ?thesis using assms(1) unfolding map_wf_def by (smt (verit) insert_iff length_list_update subset_iff)
qed

lemma free_at_on_map:
  assumes "g \<Longrightarrow> on_map i j"
  shows "\<exists>b. free_at g r i j = Some b \<and> (b \<longrightarrow> g)"
  using assms by (cases g) (auto simp: free_at_def map_get_def)

text \<open>Looking for a way never leaves the map, and never enters a tile marked as an obstacle.\<close>

lemma free_at_True:
  "free_at g r i j = Some True \<longleftrightarrow> g \<and> on_map i j \<and> rmap r ! nat i ! nat j \<noteq> 1"
  by (auto simp: free_at_def map_get_def)

lemma free_at_Some:
  assumes "g \<Longrightarrow> on_map i j"
  shows "free_at g r i j = Some (g \<and> rmap r ! nat i ! nat j \<noteq> 1)"
  using assms by (auto simp: free_at_def map_get_def)

text \<open>The tile in a direction, and whether the search considers it: never the way it came from.\<close>

fun ahead :: "directions \<Rightarrow> int \<times> int \<Rightarrow> int \<times> int" where
  "ahead UP (i, j) = (i - 1, j)"
| "ahead DOWN (i, j) = (i + 1, j)"
| "ahead LEFT (i, j) = (i, j - 1)"
| "ahead RIGHT (i, j) = (i, j + 1)"
| "ahead RETURN (i, j) = (i, j)"

fun opposite :: "directions \<Rightarrow> directions" where
  "opposite UP = DOWN" | "opposite DOWN = UP" | "opposite LEFT = RIGHT" | "opposite RIGHT = LEFT"
| "opposite RETURN = RETURN"

definition passable :: "robot \<Rightarrow> directions \<Rightarrow> bool" where
  "passable r d \<longleftrightarrow> (let (i, j) = ahead d (pos0 r, pos1 r) in on_map i j \<and> rmap r ! nat i ! nat j \<noteq> 1)"

definition move :: "directions \<Rightarrow> robot \<Rightarrow> robot" where
  "move d r = (let (i, j) = ahead d (pos0 r, pos1 r) in r\<lparr>pos0 := i, pos1 := j, direction := d\<rparr>)"

text \<open>The search is the first passable direction, in the order up, down, left, right, other than back.\<close>

lemma find_new_position_eq:
  assumes "on_map (pos0 r) (pos1 r)"
  shows "find_new_position r =
    (case List.find (\<lambda>d. d \<noteq> opposite (direction r) \<and> passable r d) [UP, DOWN, LEFT, RIGHT] of
       Some d \<Rightarrow> Some (0, move d r) | None \<Rightarrow> Some (1, r))"
  using assms
  by (cases "direction r")
     (auto simp: find_new_position_def free_at_Some passable_def move_def on_map_def MAP_SIDE_def)

lemma next_position_eq:
  assumes "on_map (pos0 r) (pos1 r)" "direction r \<noteq> RETURN"
  shows "next_position stuck r =
    (if passable r (direction r) then Some (stuck, move (direction r) r) else find_new_position r)"
  using assms
  by (cases "direction r")
     (auto simp: next_position_def free_at_Some passable_def move_def on_map_def MAP_SIDE_def)

section \<open>Moving\<close>

lemma move_sel [simp]:
  "rmap (move d r) = rmap r" "direction (move d r) = d"
  "(pos0 (move d r), pos1 (move d r)) = ahead d (pos0 r, pos1 r)"
  by (simp_all add: move_def Let_def split_beta)

lemma passable_move:
  assumes "passable r d"
  shows "on_map (pos0 (move d r)) (pos1 (move d r))"
    "rmap r ! nat (pos0 (move d r)) ! nat (pos1 (move d r)) \<noteq> 1"
  using assms by (auto simp: passable_def move_def Let_def split_beta)

lemma find_new_position_spec:
  assumes "on_map (pos0 r) (pos1 r)"
  shows "\<exists>st r'. find_new_position r = Some (st, r') \<and> on_map (pos0 r') (pos1 r') \<and> rmap r' = rmap r \<and>
    (st = 1 \<and> r' = r \<and> (\<forall>d. d \<noteq> RETURN \<and> d \<noteq> opposite (direction r) \<longrightarrow> \<not> passable r d) \<or>
     st = 0 \<and> (\<exists>d. d \<noteq> RETURN \<and> d \<noteq> opposite (direction r) \<and> passable r d \<and> r' = move d r))"
proof (cases "List.find (\<lambda>d. d \<noteq> opposite (direction r) \<and> passable r d) [UP, DOWN, LEFT, RIGHT]")
  case None
  then have "\<forall>d \<in> set [UP, DOWN, LEFT, RIGHT]. \<not> (d \<noteq> opposite (direction r) \<and> passable r d)"
    unfolding find_None_iff by blast
  moreover have "d \<noteq> RETURN \<Longrightarrow> d \<in> set [UP, DOWN, LEFT, RIGHT]" for d by (cases d) auto
  ultimately show ?thesis using None assms find_new_position_eq [OF assms] by auto
next
  case (Some d)
  then have "d \<in> set [UP, DOWN, LEFT, RIGHT]" "d \<noteq> opposite (direction r)" "passable r d"
    unfolding find_Some_iff by (metis nth_mem)+
  then show ?thesis using Some assms find_new_position_eq [OF assms] passable_move(1) [of r d] by auto
qed

lemma next_position_spec:
  assumes "on_map (pos0 r) (pos1 r)"
  shows "\<exists>st r'. next_position stuck r = Some (st, r') \<and> on_map (pos0 r') (pos1 r') \<and> rmap r' = rmap r \<and>
    (direction r' = RETURN \<longleftrightarrow> direction r = RETURN) \<and>
    (direction r \<noteq> RETURN \<longrightarrow> st \<noteq> 1 \<longrightarrow> (\<exists>d. d \<noteq> RETURN \<and> passable r d \<and> r' = move d r))"
proof (cases "direction r = RETURN")
  case True
  then show ?thesis using assms by (auto simp: next_position_def on_map_def)
next
  case False
  show ?thesis
  proof (cases "passable r (direction r)")
    case True
    then show ?thesis
      using next_position_eq [OF assms False] passable_move(1) [OF True] False by auto
  next
    case blocked: False
    then show ?thesis
      using next_position_eq [OF assms False] find_new_position_spec [OF assms] False by auto
  qed
qed

section \<open>Cleaning\<close>

lemma count_list_update:
  "i < length xs \<Longrightarrow> count_list (xs[i := v]) x + (if xs ! i = x then 1 else 0) =
     count_list xs x + (if v = x then 1 else 0)"
proof (induction xs arbitrary: i)
  case (Cons a xs)
  show ?case
  proof (cases i)
    case (Suc k)
    then show ?thesis using Cons.IH [of k] Cons.prems by (cases "v = x") simp_all
  qed simp
qed simp

lemma count_list_append [simp]: "count_list (xs @ ys) x = count_list xs x + count_list ys x"
  by (induction xs) auto

lemma count_concat_update:
  "i < length m \<Longrightarrow> count_list (concat (m[i := row])) x + count_list (m ! i) x =
     count_list (concat m) x + count_list row x"
proof (induction m arbitrary: i)
  case (Cons a m)
  then show ?case by (cases i) (auto simp: add.assoc)
qed simp

lemma unvisited_map_set:
  assumes "map_wf (rmap r)" "map_set r i j v = Some r'"
  shows "unvisited r' + (if rmap r ! nat i ! nat j = 0 then 1 else 0) = unvisited r + (if v = 0 then 1 else 0)"
proof -
  have o: "on_map i j" and r': "r' = r\<lparr>rmap := (rmap r)[nat i := (rmap r ! nat i)[nat j := v]]\<rparr>"
    using assms(2) by (auto simp: map_set_def split: if_splits)
  note n = map_wf_nth [OF assms(1) o]
  have "unvisited r' + count_list (rmap r ! nat i) 0 = unvisited r + count_list ((rmap r ! nat i)[nat j := v]) 0"
    unfolding unvisited_def r' using count_concat_update [OF n(1)] by simp
  then show ?thesis using count_list_update [OF n(2), of v 0] by linarith
qed

lemma map_set_spec:
  assumes "robot_wf r" "v \<in> {0, 1, 2}" "on_map i j"
  shows "\<exists>r'. map_set r i j v = Some r' \<and> robot_wf r' \<and> pos0 r' = pos0 r \<and> pos1 r' = pos1 r \<and>
    direction r' = direction r \<and> rmap r' ! nat i ! nat j = v"
  using assms map_wf_update [OF _ assms(3,2)] map_wf_nth [OF _ assms(3)]
  by (auto simp: map_set_def robot_wf_def)

lemma clean_tile_spec:
  assumes "robot_wf r"
  shows "\<exists>c r'. clean_tile r = Some (c, r') \<and> robot_wf r' \<and> pos0 r' = pos0 r \<and> pos1 r' = pos1 r \<and>
    direction r' = direction r \<and> unvisited r' + (if c then 1 else 0) = unvisited r \<and>
    rmap r' ! nat (pos0 r) ! nat (pos1 r) \<noteq> 0"
proof -
  have o: "on_map (pos0 r) (pos1 r)" "map_wf (rmap r)" using assms by (simp_all add: robot_wf_def)
  show ?thesis
  proof (cases "rmap r ! nat (pos0 r) ! nat (pos1 r) = 0")
    case True
    obtain r' where r': "map_set r (pos0 r) (pos1 r) 2 = Some r'" "robot_wf r'" "pos0 r' = pos0 r" "pos1 r' = pos1 r"
      "direction r' = direction r" "rmap r' ! nat (pos0 r) ! nat (pos1 r) = 2"
      using map_set_spec [OF assms, of 2] o by auto
    then show ?thesis
      using True o unvisited_map_set [OF o(2) r'(1)] by (auto simp: clean_tile_def map_get_def)
  next
    case False
    then show ?thesis using assms o by (auto simp: clean_tile_def map_get_def)
  qed
qed

lemma robot_activation_spec:
  assumes "robot_wf r"
  shows "\<exists>c st r'. robot_activation stuck r = Some (c, st, r') \<and> robot_wf r' \<and>
    (direction r' = RETURN \<longleftrightarrow> direction r = RETURN) \<and> unvisited r' + (if c then 1 else 0) = unvisited r \<and>
    \<bar>pos0 r' - pos0 r\<bar> + \<bar>pos1 r' - pos1 r\<bar> \<le> 1"
proof -
  obtain c r1 where c: "clean_tile r = Some (c, r1)" "robot_wf r1" "pos0 r1 = pos0 r" "pos1 r1 = pos1 r"
    "direction r1 = direction r" "unvisited r1 + (if c then 1 else 0) = unvisited r"
    using clean_tile_spec [OF assms] by blast
  have o: "on_map (pos0 r1) (pos1 r1)" using c(2) by (simp add: robot_wf_def)
  obtain st r2 where n: "next_position stuck r1 = Some (st, r2)" "on_map (pos0 r2) (pos1 r2)" "rmap r2 = rmap r1"
    "direction r2 = RETURN \<longleftrightarrow> direction r1 = RETURN" using next_position_spec [OF o] by blast
  have "\<bar>pos0 r2 - pos0 r1\<bar> + \<bar>pos1 r2 - pos1 r1\<bar> \<le> 1"
    using n(1) o
    by (cases "direction r1") (auto simp: next_position_def find_new_position_def split: if_splits bind_splits)
  with c n show ?thesis by (auto simp: robot_activation_def robot_wf_def unvisited_def)
qed

section \<open>Going home\<close>

text \<open>A number of activations in a row; the map and the local variable are threaded through.\<close>

fun activations :: "nat \<Rightarrow> int \<Rightarrow> robot \<Rightarrow> (int \<times> robot) option" where
  "activations 0 stuck r = Some (stuck, r)"
| "activations (Suc n) stuck r = do { (_, st, r') \<leftarrow> robot_activation stuck r; activations n st r' }"

lemma return_activation:
  assumes "robot_wf r" "direction r = RETURN"
  shows "\<exists>c r'. robot_activation stuck r = Some (c, stuck, r') \<and> robot_wf r' \<and> direction r' = RETURN \<and>
    (pos0 r', pos1 r') = (if pos0 r > 0 then (pos0 r - 1, pos1 r)
                          else if pos1 r > 0 then (pos0 r, pos1 r - 1) else (pos0 r, pos1 r))"
proof -
  obtain c r1 where "clean_tile r = Some (c, r1)" "robot_wf r1" "pos0 r1 = pos0 r" "pos1 r1 = pos1 r"
    "direction r1 = direction r" using clean_tile_spec [OF assms(1)] by blast
  then show ?thesis
    using assms(2) by (auto simp: robot_activation_def next_position_def robot_wf_def on_map_def)
qed

lemma return_home:
  assumes "robot_wf r" "direction r = RETURN"
  shows "\<exists>r'. activations n stuck r = Some (stuck, r') \<and> robot_wf r' \<and> direction r' = RETURN \<and>
    pos0 r' + pos1 r' = max 0 (pos0 r + pos1 r - int n)"
  using assms
proof (induction n arbitrary: r)
  case 0
  then show ?case by (auto simp: robot_wf_def on_map_def)
next
  case (Suc n)
  obtain c r1 where r1: "robot_activation stuck r = Some (c, stuck, r1)" "robot_wf r1" "direction r1 = RETURN"
    "(pos0 r1, pos1 r1) = (if pos0 r > 0 then (pos0 r - 1, pos1 r)
                          else if pos1 r > 0 then (pos0 r, pos1 r - 1) else (pos0 r, pos1 r))"
    using return_activation [OF Suc.prems] by blast
  have "pos0 r1 + pos1 r1 = max 0 (pos0 r + pos1 r - 1)"
    using r1(4) Suc.prems(1) by (auto simp: robot_wf_def on_map_def split: if_splits)
  with Suc.IH [OF r1(2,3)] r1(1) show ?case by auto
qed

section \<open>The obstacle handler\<close>

lemma handler_spec:
  assumes "robot_wf r"
  shows "\<exists>r'. movement_control_obstacle_handler r = Some r' \<and> map_wf (rmap r') \<and> direction r' = direction r \<and>
    rmap r' ! nat (pos0 r) ! nat (pos1 r) = 1 \<and> unvisited r' \<le> unvisited r \<and>
    (pos0 r', pos1 r') = ahead (opposite (direction r)) (pos0 r, pos1 r)"
proof -
  have o: "on_map (pos0 r) (pos1 r)" "map_wf (rmap r)" using assms by (simp_all add: robot_wf_def)
  obtain r1 where r1: "map_set r (pos0 r) (pos1 r) 1 = Some r1" "robot_wf r1" "pos0 r1 = pos0 r" "pos1 r1 = pos1 r"
    "direction r1 = direction r" "rmap r1 ! nat (pos0 r) ! nat (pos1 r) = 1"
    using map_set_spec [OF assms, of 1] o by auto
  have "unvisited r1 \<le> unvisited r" using unvisited_map_set [OF o(2) r1(1)] by (simp split: if_splits)
  moreover have "movement_control_obstacle_handler r = Some (case direction r of
             UP \<Rightarrow> r1\<lparr>pos0 := pos0 r + 1\<rparr> | DOWN \<Rightarrow> r1\<lparr>pos0 := pos0 r - 1\<rparr>
           | LEFT \<Rightarrow> r1\<lparr>pos1 := pos1 r + 1\<rparr> | RIGHT \<Rightarrow> r1\<lparr>pos1 := pos1 r - 1\<rparr> | RETURN \<Rightarrow> r1)"
    using r1 by (simp add: movement_control_obstacle_handler_def cong: directions.case_cong)
  ultimately show ?thesis
    using r1 by (cases "direction r") (auto simp: robot_wf_def unvisited_def)
qed

lemma ahead_opposite [simp]: "ahead (opposite d) (ahead d p) = p"
  by (cases d; cases p) auto

text \<open>After a step of the robot, the handler takes back exactly that step.\<close>

lemma handler_after_move:
  assumes "robot_wf r" "passable r d"
  shows "\<exists>r'. movement_control_obstacle_handler (move d r) = Some r' \<and> robot_wf r' \<and>
    pos0 r' = pos0 r \<and> pos1 r' = pos1 r \<and> direction r' = d \<and>
    rmap r' ! nat (pos0 (move d r)) ! nat (pos1 (move d r)) = 1"
proof -
  have wf: "robot_wf (move d r)" using assms passable_move(1) [OF assms(2)] by (simp add: robot_wf_def)
  obtain r' where r': "movement_control_obstacle_handler (move d r) = Some r'" "map_wf (rmap r')"
    "direction r' = d" "rmap r' ! nat (pos0 (move d r)) ! nat (pos1 (move d r)) = 1"
    "(pos0 r', pos1 r') = ahead (opposite d) (pos0 (move d r), pos1 (move d r))"
    using handler_spec [OF wf] by auto
  have "(pos0 r', pos1 r') = (pos0 r, pos1 r)" using r'(5) move_sel(3) [of d r] by simp
  then show ?thesis using r'(1-4) assms(1) by (auto simp: robot_wf_def)
qed

section \<open>The walk in an empty room\<close>

lemma map_set_cell:
  assumes "map_wf (rmap r)" "map_set r i j v = Some r'" "on_map k l"
  shows "rmap r' ! nat k ! nat l = (if k = i \<and> l = j then v else rmap r ! nat k ! nat l)"
proof -
  have o: "on_map i j" and r': "r' = r\<lparr>rmap := (rmap r)[nat i := (rmap r ! nat i)[nat j := v]]\<rparr>"
    using assms(2) by (auto simp: map_set_def split: if_splits)
  note n = map_wf_nth [OF assms(1) o] and m = map_wf_nth [OF assms(1,3)]
  show ?thesis using n m o assms(3) by (auto simp: r' nth_list_update on_map_def nat_eq_iff)
qed

text \<open>The robot goes along the border: down on the left, right at the bottom, up on the right, left at the top.\<close>

definition border_walk :: "robot \<Rightarrow> bool" where
  "border_walk r \<longleftrightarrow> robot_wf r \<and> (\<forall>i j. on_map i j \<longrightarrow> rmap r ! nat i ! nat j \<noteq> 1) \<and>
     (\<forall>i j. 0 < i \<and> i < MAP_SIDE - 1 \<and> 0 < j \<and> j < MAP_SIDE - 1 \<longrightarrow> rmap r ! nat i ! nat j = 0) \<and>
     (pos1 r = 0 \<and> direction r = DOWN \<or> pos0 r = MAP_SIDE - 1 \<and> direction r = RIGHT \<or>
      pos1 r = MAP_SIDE - 1 \<and> direction r = UP \<or> pos0 r = 0 \<and> direction r = LEFT)"

lemma border_walk_init: "border_walk (robot_init r)"
  by (auto simp: border_walk_def robot_init_def robot_wf_def map_wf_def on_map_def MAP_SIDE_def set_replicate_conv_if)

lemma border_walk_clean:
  assumes "border_walk r"
  shows "\<exists>c r'. clean_tile r = Some (c, r') \<and> border_walk r'"
proof -
  have wf: "robot_wf r" "map_wf (rmap r)" "on_map (pos0 r) (pos1 r)"
    using assms by (auto simp: border_walk_def robot_wf_def)
  show ?thesis
  proof (cases "rmap r ! nat (pos0 r) ! nat (pos1 r) = 0")
    case True
    obtain r' where r': "map_set r (pos0 r) (pos1 r) 2 = Some r'" "robot_wf r'" "pos0 r' = pos0 r" "pos1 r' = pos1 r"
      "direction r' = direction r" using map_set_spec [OF wf(1), of 2] wf(3) by auto
    note cell = map_set_cell [OF wf(2) r'(1)]
    have "border_walk r'" unfolding border_walk_def
    proof (intro conjI allI impI)
      show "robot_wf r'" by (fact r'(2))
      show "rmap r' ! nat i ! nat j \<noteq> 1" if "on_map i j" for i j
        using that cell [OF that] assms by (auto simp: border_walk_def)
      show "rmap r' ! nat i ! nat j = 0" if "0 < i \<and> i < MAP_SIDE - 1 \<and> 0 < j \<and> j < MAP_SIDE - 1" for i j
      proof -
        have "on_map i j" using that by (simp add: on_map_def)
        moreover have "\<not> (i = pos0 r \<and> j = pos1 r)" using that assms by (auto simp: border_walk_def)
        ultimately show ?thesis using that cell [of i j] assms by (auto simp: border_walk_def)
      qed
      show "pos1 r' = 0 \<and> direction r' = DOWN \<or> pos0 r' = MAP_SIDE - 1 \<and> direction r' = RIGHT \<or>
        pos1 r' = MAP_SIDE - 1 \<and> direction r' = UP \<or> pos0 r' = 0 \<and> direction r' = LEFT"
        using assms r'(3-5) by (simp add: border_walk_def)
    qed
    then show ?thesis using True wf(3) r'(1) by (auto simp: clean_tile_def map_get_def)
  next
    case False
    then show ?thesis using assms wf(3) by (auto simp: clean_tile_def map_get_def)
  qed
qed

lemma border_walk_next:
  assumes "border_walk r" "stuck \<noteq> 1"
  shows "\<exists>st r'. next_position stuck r = Some (st, r') \<and> st \<noteq> 1 \<and> border_walk r'"
proof -
  have free: "passable r d \<longleftrightarrow> (let (i, j) = ahead d (pos0 r, pos1 r) in on_map i j)" for d
    using assms(1) by (auto simp: passable_def border_walk_def Let_def split_beta)
  have o: "on_map (pos0 r) (pos1 r)" using assms(1) by (simp add: border_walk_def robot_wf_def)
  have nr: "direction r \<noteq> RETURN" using assms(1) by (auto simp: border_walk_def)
  define nxt where "nxt = (case direction r of
      DOWN \<Rightarrow> if pos0 r < 9 then DOWN else RIGHT | RIGHT \<Rightarrow> if pos1 r < 9 then RIGHT else UP
    | UP \<Rightarrow> if 0 < pos0 r then UP else LEFT | LEFT \<Rightarrow> if 0 < pos1 r then LEFT else DOWN | RETURN \<Rightarrow> RETURN)"
  have at: "pos1 r = 0 \<and> direction r = DOWN \<or> pos0 r = 9 \<and> direction r = RIGHT \<or>
      pos1 r = 9 \<and> direction r = UP \<or> pos0 r = 0 \<and> direction r = LEFT"
    using assms(1) by (simp add: border_walk_def MAP_SIDE_def)
  have o': "0 \<le> pos0 r" "pos0 r \<le> 9" "0 \<le> pos1 r" "pos1 r \<le> 9" using o by (simp_all add: on_map_def MAP_SIDE_def)
  have "next_position stuck r = Some (if nxt = direction r then stuck else 0, move nxt r)"
    unfolding next_position_eq [OF o nr] find_new_position_eq [OF o] free using at o'
    by (elim disjE) (auto simp: nxt_def on_map_def MAP_SIDE_def)
  moreover have "border_walk (move nxt r)"
  proof -
    have "on_map (pos0 (move nxt r)) (pos1 (move nxt r))"
      using at o' by (elim disjE) (auto simp: nxt_def move_def on_map_def MAP_SIDE_def)
    moreover have "pos1 (move nxt r) = 0 \<and> nxt = DOWN \<or> pos0 (move nxt r) = 9 \<and> nxt = RIGHT \<or>
      pos1 (move nxt r) = 9 \<and> nxt = UP \<or> pos0 (move nxt r) = 0 \<and> nxt = LEFT"
      using at o' by (elim disjE) (auto simp: nxt_def move_def)
    ultimately show ?thesis
      using assms(1) by (simp add: border_walk_def robot_wf_def MAP_SIDE_def)
  qed
  ultimately show ?thesis using assms(2) by auto
qed

lemma border_walk_activations:
  assumes "border_walk r" "stuck \<noteq> 1"
  shows "\<exists>st r'. activations n stuck r = Some (st, r') \<and> st \<noteq> 1 \<and> border_walk r'"
  using assms
proof (induction n arbitrary: stuck r)
  case (Suc n)
  obtain c r1 where r1: "clean_tile r = Some (c, r1)" "border_walk r1" using border_walk_clean [OF Suc.prems(1)] by blast
  obtain st r2 where r2: "next_position stuck r1 = Some (st, r2)" "st \<noteq> 1" "border_walk r2"
    using border_walk_next [OF r1(2) Suc.prems(2)] by blast
  from Suc.IH [OF r2(3,2)] show ?case by (simp add: robot_activation_def r1(1) r2(1))
qed simp

end
