(* ===== verification/Activation.thy ===== *)
theory Activation
  imports Signal Mutex Event Mailbox Device Robot
begin

text \<open>
  The global structures of the application (\<^verbatim>\<open>applications/structures.h\<close>, \<^verbatim>\<open>system.h\<close>, \<^verbatim>\<open>tasks.h\<close>): the state the
  tasks share, the numbers that name the static kernel objects, and the functions the activation timers are
  armed with (\<^verbatim>\<open>structures.c\<close>), each of which sends one flag of \<^verbatim>\<open>event_tasks_activation\<close>.

  The timer functions are what \<^verbatim>\<open>rt_timer_check\<close> calls: here the contract \<open>timer_callbacks\<close> is interpreted on them,
  so that a tick of the clock runs every timer that is due and ends.
\<close>

text \<open>Where a task is in its entry function: before the call that waits for its activation, waiting in it, or
  at a point of its body; the labels are explained with the tasks.\<close>

datatype pc =
    P_start | P_recv | P_woken | P_body | P_busy | P_exit | P_closed
  | T1_notify
  | T2_mailed | T2_move | T2_home
  | T3_mutex | T3_battery | T3_mail nat | T3_release | T3_bag | T3_bag_mail
  | T5_speed
  | TY_loop | TY_mutex | TY_dec
  | Main_at nat

record rvc_state = dev_state +
  robot_st :: robot
  batteryStatus :: u32
  garbageBagStatus :: u32
  startingTime :: int
  turnOffFlag :: int
  proximity_sensor :: "nat option"
  engine :: "nat option"
  garbage_bag :: "nat option"
  speaker :: "nat option"
  task_pc :: "nat \<Rightarrow> pc"
  obstacle_v :: int
  stuck_v :: int
  mail_v :: u32
  event_v :: u32
  garbage_v :: int
  brushes_speed_v :: "int \<times> int"
  brushes_power_v :: "int \<times> int"

text \<open>The fields of the application are apart from the kernel's.\<close>

lemma rvc_upd_sel [simp]:
  fixes s :: rvc_state
  shows
  "robot_st (upd_thread t f s) = robot_st s" "robot_st (upd_object r g s) = robot_st s"
  "batteryStatus (upd_thread t f s) = batteryStatus s" "batteryStatus (upd_object r g s) = batteryStatus s"
  "garbageBagStatus (upd_thread t f s) = garbageBagStatus s" "garbageBagStatus (upd_object r g s) = garbageBagStatus s"
  "startingTime (upd_thread t f s) = startingTime s" "startingTime (upd_object r g s) = startingTime s"
  "turnOffFlag (upd_thread t f s) = turnOffFlag s" "turnOffFlag (upd_object r g s) = turnOffFlag s"
  "proximity_sensor (upd_thread t f s) = proximity_sensor s" "proximity_sensor (upd_object r g s) = proximity_sensor s"
  "engine (upd_thread t f s) = engine s" "engine (upd_object r g s) = engine s"
  "garbage_bag (upd_thread t f s) = garbage_bag s" "garbage_bag (upd_object r g s) = garbage_bag s"
  "speaker (upd_thread t f s) = speaker s" "speaker (upd_object r g s) = speaker s"
  "task_pc (upd_thread t f s) = task_pc s" "task_pc (upd_object r g s) = task_pc s"
  "obstacle_v (upd_thread t f s) = obstacle_v s" "obstacle_v (upd_object r g s) = obstacle_v s"
  "stuck_v (upd_thread t f s) = stuck_v s" "stuck_v (upd_object r g s) = stuck_v s"
  "mail_v (upd_thread t f s) = mail_v s" "mail_v (upd_object r g s) = mail_v s"
  "event_v (upd_thread t f s) = event_v s" "event_v (upd_object r g s) = event_v s"
  "garbage_v (upd_thread t f s) = garbage_v s" "garbage_v (upd_object r g s) = garbage_v s"
  "brushes_speed_v (upd_thread t f s) = brushes_speed_v s" "brushes_speed_v (upd_object r g s) = brushes_speed_v s"
  "brushes_power_v (upd_thread t f s) = brushes_power_v s" "brushes_power_v (upd_object r g s) = brushes_power_v s"
  "devices (upd_thread t f s) = devices s" "devices (upd_object r g s) = devices s"
  "engine_stopped (upd_thread t f s) = engine_stopped s" "engine_stopped (upd_object r g s) = engine_stopped s"
  "garbage_bag_value (upd_thread t f s) = garbage_bag_value s" "garbage_bag_value (upd_object r g s) = garbage_bag_value s"
  "speaker_out (upd_thread t f s) = speaker_out s" "speaker_out (upd_object r g s) = speaker_out s"
  "pin_calls (upd_thread t f s) = pin_calls s" "pin_calls (upd_object r g s) = pin_calls s"
  by (simp_all add: upd_thread_def upd_object_def)

section \<open>Names of the static objects\<close>

definition idle_thread :: nat where "idle_thread = 0"
definition main_thread :: nat where "main_thread = 1"
definition Tsystem :: nat where "Tsystem = 2"
definition movement_stop :: nat where "movement_stop = 3"
definition obstacle_control :: nat where "obstacle_control = 4"
definition movement_control :: nat where "movement_control = 5"
definition check_resources :: nat where "check_resources = 6"
definition brushes_speed :: nat where "brushes_speed = 7"
definition acoustic_signals :: nat where "acoustic_signals = 8"
definition event_tasks_activation :: nat where "event_tasks_activation = 20"
definition event_obstacle :: nat where "event_obstacle = 21"
definition event_resources :: nat where "event_resources = 22"
definition battMutex :: nat where "battMutex = 23"
definition mb2_3 :: nat where "mb2_3 = 24"
definition mb2_5 :: nat where "mb2_5 = 25"
definition timer_obstacle_control_activation :: objref where "timer_obstacle_control_activation = Kobj 30"
definition timer_movement_control_activation :: objref where "timer_movement_control_activation = Kobj 31"
definition timer_check_resources_activation :: objref where "timer_check_resources_activation = Kobj 32"
definition timer_brushes_speed_activation :: objref where "timer_brushes_speed_activation = Kobj 33"

lemmas object_names = idle_thread_def main_thread_def Tsystem_def movement_stop_def obstacle_control_def
  movement_control_def check_resources_def brushes_speed_def acoustic_signals_def event_tasks_activation_def
  event_obstacle_def event_resources_def battMutex_def mb2_3_def mb2_5_def
  timer_obstacle_control_activation_def timer_movement_control_activation_def
  timer_check_resources_activation_def timer_brushes_speed_activation_def

definition EVENT_OBSTACLE_CONTROL_ACTIVATION :: u32 where "EVENT_OBSTACLE_CONTROL_ACTIVATION = 2"
definition EVENT_MOVEMENT_CONTROL_ACTIVATION :: u32 where "EVENT_MOVEMENT_CONTROL_ACTIVATION = 4"
definition EVENT_CHECK_RESOURCES_ACTIVATION :: u32 where "EVENT_CHECK_RESOURCES_ACTIVATION = 8"
definition EVENT_ACOUSTIC_SIGNALS_ACTIVATION :: u32 where "EVENT_ACOUSTIC_SIGNALS_ACTIVATION = 16"
definition EVENT_BRUSHES_SPEED_ACTIVATION :: u32 where "EVENT_BRUSHES_SPEED_ACTIVATION = 32"
definition EVENT_OBSTACLE_FOUND :: u32 where "EVENT_OBSTACLE_FOUND = 2"
definition EVENT_FLAG1 :: u32 where "EVENT_FLAG1 = 2"
definition EVENT_FLAG2 :: u32 where "EVENT_FLAG2 = 4"

lemmas event_flags = EVENT_OBSTACLE_CONTROL_ACTIVATION_def EVENT_MOVEMENT_CONTROL_ACTIVATION_def
  EVENT_CHECK_RESOURCES_ACTIVATION_def EVENT_ACOUSTIC_SIGNALS_ACTIVATION_def
  EVENT_BRUSHES_SPEED_ACTIVATION_def EVENT_OBSTACLE_FOUND_def EVENT_FLAG1_def EVENT_FLAG2_def

section \<open>The timeout functions\<close>

definition activate_task :: "u32 \<Rightarrow> 'a ipc_state_scheme \<Rightarrow> 'a ipc_state_scheme option" where
  "activate_task flag s = map_option snd (rt_event_send event_tasks_activation flag s)"

definition timeout_obstacle_control :: "'a ipc_state_scheme \<Rightarrow> 'a ipc_state_scheme option" where
  "timeout_obstacle_control s = activate_task EVENT_OBSTACLE_CONTROL_ACTIVATION s"

definition timeout_movement_control :: "'a ipc_state_scheme \<Rightarrow> 'a ipc_state_scheme option" where
  "timeout_movement_control s = activate_task EVENT_MOVEMENT_CONTROL_ACTIVATION s"

definition timeout_check_resources :: "'a ipc_state_scheme \<Rightarrow> 'a ipc_state_scheme option" where
  "timeout_check_resources s = activate_task EVENT_CHECK_RESOURCES_ACTIVATION s"

definition timeout_acoustic_signals :: "'a ipc_state_scheme \<Rightarrow> 'a ipc_state_scheme option" where
  "timeout_acoustic_signals s = activate_task EVENT_ACOUSTIC_SIGNALS_ACTIVATION s"

definition timeout_brushes_speed :: "'a ipc_state_scheme \<Rightarrow> 'a ipc_state_scheme option" where
  "timeout_brushes_speed s = activate_task EVENT_BRUSHES_SPEED_ACTIVATION s"

text \<open>The call through the function pointer of a timer.\<close>

definition timeout_call :: "timer_fn \<Rightarrow> 'a ipc_state_scheme \<Rightarrow> 'a ipc_state_scheme option" where
  "timeout_call fn s =
     (case fn of
        Rt_thread_timeout t \<Rightarrow> rt_thread_timeout t s
      | Timeout_obstacle_control \<Rightarrow> timeout_obstacle_control s
      | Timeout_movement_control \<Rightarrow> timeout_movement_control s
      | Timeout_check_resources \<Rightarrow> timeout_check_resources s
      | Timeout_acoustic_signals \<Rightarrow> timeout_acoustic_signals s
      | Timeout_brushes_speed \<Rightarrow> timeout_brushes_speed s
      | Timeout_null \<Rightarrow> None)"

lemmas timeout_defs = activate_task_def timeout_obstacle_control_def timeout_movement_control_def
  timeout_check_resources_def timeout_acoustic_signals_def timeout_brushes_speed_def

section \<open>A tick ends\<close>

text \<open>What the tick relies on: the kernel is consistent, the activation event is set up, some thread runs, and
  every linked timer has a function.\<close>

definition tick_inv :: "'a ipc_state_scheme \<Rightarrow> bool" where
  "tick_inv s \<longleftrightarrow> kernel_inv s \<and> event_inv event_tasks_activation s \<and> current_thread s \<noteq> None \<and>
     (\<forall>r \<in> set (timer_list s). timeout_func (timers s r) \<noteq> Timeout_null)"

lemma activate_task_spec:
  fixes s :: "'a ipc_state_scheme"
  assumes "tick_inv s" "flag \<noteq> 0"
  shows "\<exists>s'. activate_task flag s = Some s' \<and> tick_inv s' \<and> timer_quiet s s'"
proof -
  obtain c where c: "current_thread s = Some c" using assms(1) by (auto simp: tick_inv_def)
  have i: "kernel_inv s" "event_inv event_tasks_activation s" using assms(1) by (auto simp: tick_inv_def)
  obtain s' D c' P where s': "rt_event_send event_tasks_activation flag s = Some (RT_EOK, s')" "kernel_inv s'"
    "event_inv event_tasks_activation s'" "current_thread s' = Some c'"
    "kframe (event_put event_tasks_activation D s) s'" "timers s' = timers s"
    "timer_list s' = filter P (timer_list s)" "\<exists>P. timer_fired s' = filter P (timer_fired s)"
    using rt_event_send_spec [OF i c assms(2)] by blast
  have same: "rt_object_get_type r s' = rt_object_get_type r s" "is_periodic r s' = is_periodic r s" for r
    using kframe_get_type [OF s'(5), of r] kframe_periodic [OF s'(5), of r]
    by (simp_all add: rt_object_get_type_def is_periodic_def)
  have "tick_inv s'" using s'(2-4,6,7) assms(1) by (auto simp: tick_inv_def)
  moreover have "rt_tick s' = rt_tick s" using s'(5) by (simp add: kframe_def)
  ultimately show ?thesis
    using s'(1,6,7,8) same by (auto simp: activate_task_def timer_quiet_def)
qed

lemma timeout_call_activates:
  fixes s :: "'a ipc_state_scheme"
  assumes "\<nexists>t. fn = Rt_thread_timeout t" "fn \<noteq> Timeout_null"
  shows "\<exists>flag. flag \<noteq> 0 \<and> timeout_call fn s = activate_task flag s"
proof -
  define flag where "flag = (case fn of
      Timeout_obstacle_control \<Rightarrow> EVENT_OBSTACLE_CONTROL_ACTIVATION
    | Timeout_movement_control \<Rightarrow> EVENT_MOVEMENT_CONTROL_ACTIVATION
    | Timeout_check_resources \<Rightarrow> EVENT_CHECK_RESOURCES_ACTIVATION
    | Timeout_acoustic_signals \<Rightarrow> EVENT_ACOUSTIC_SIGNALS_ACTIVATION
    | Timeout_brushes_speed \<Rightarrow> EVENT_BRUSHES_SPEED_ACTIVATION | _ \<Rightarrow> 0)"
  have "flag \<noteq> 0 \<and> timeout_call fn s = activate_task flag s"
    using assms by (cases fn) (auto simp: flag_def timeout_call_def timeout_defs event_flags)
  then show ?thesis by blast
qed

lemma timer_fire_frame: "timer_frame s (timer_fire r s)"
  by simp

lemma tick_inv_frame:
  fixes s :: "'a ipc_state_scheme"
  assumes "tick_inv s" "timer_frame s s'" "kernel_inv s'"
    "\<forall>r \<in> set (timer_list s'). timeout_func (timers s' r) \<noteq> Timeout_null"
  shows "tick_inv s'"
proof -
  have k: "klists s' = klists s" "current_thread s' = current_thread s" using assms(2) by (simp_all add: timer_frame_def)
  have "event_inv event_tasks_activation s'"
    using event_inv_kframe [OF _ timer_frame_kframe [OF assms(2)]] assms(1) k(1) by (simp add: tick_inv_def)
  then show ?thesis using assms k(2) by (simp add: tick_inv_def)
qed

lemma tick_inv_fire: "tick_inv s \<Longrightarrow> tick_inv (timer_fire r s)"
  by (rule tick_inv_frame [OF _ timer_fire_frame])
     (simp_all add: kernel_inv_fire tick_inv_def)

lemma timeout_call_runs:
  fixes s :: "'a ipc_state_scheme"
  assumes inv: "tick_inv s" and r: "timer_list s = r # ts"
  shows "\<exists>s'. timeout_call (timeout_func (timers s r)) (timer_fire r s) = Some s' \<and> tick_inv s' \<and>
    timer_quiet (timer_fire r s) s'"
proof -
  note fired = tick_inv_fire [OF inv, of r]
  have nn: "timeout_func (timers s r) \<noteq> Timeout_null" using inv r by (simp add: tick_inv_def)
  show ?thesis
  proof (cases "\<exists>t. timeout_func (timers s r) = Rt_thread_timeout t")
    case True
    then obtain t where t: "timeout_func (timers s r) = Rt_thread_timeout t" by blast
    have tr: "r = Thread_timer t" "stat_base (threads s t) = RT_THREAD_SUSPEND"
      using inv r t by (auto simp: tick_inv_def kernel_inv_def timer_links_def)
    let ?f = "timer_fire r s"
    have th: "threads ?f = threads s" "current_thread ?f = current_thread s"
      using timer_fire_frame [of s r] by (simp_all add: timer_frame_def)
    obtain c where c: "current_thread ?f = Some c" using inv th(2) by (auto simp: tick_inv_def)
    have i: "kernel_inv ?f" "event_inv event_tasks_activation ?f" using fired by (simp_all add: tick_inv_def)
    have pre: "stat_base (threads ?f t) = RT_THREAD_SUSPEND" "Thread_timer t \<notin> set (timer_list ?f)"
      unfolding th(1) using tr by simp_all
    obtain s' c' where s': "rt_thread_timeout t ?f = Some s'" "kernel_inv s'" "kframe ?f s'"
      "current_thread s' = Some c'" "timers s' = timers ?f" "timer_list s' = timer_list ?f"
      "timer_fired s' = timer_fired ?f" "objects s' = objects ?f"
      "\<forall>h. wait_head h \<longrightarrow> klists s' h = removeAll t (klists ?f h)"
      using rt_thread_timeout_spec [OF i(1) c pre] by blast
    have kl: "set (klists s' (Susp event_tasks_activation)) \<subseteq> set (klists ?f (Susp event_tasks_activation))"
      using s'(9) by auto
    have "tick_inv s'"
      using event_inv_kframe [OF i(2) s'(3) kl] s'(2,4-6) inv by (auto simp: tick_inv_def)
    moreover have "timer_quiet ?f s'"
      using s'(3,5-8) unfolding timer_quiet_def kframe_def
      by (auto simp: rt_object_get_type_def is_periodic_def intro!: exI [of _ "\<lambda>_. True"])
    ultimately show ?thesis using s'(1) t by (simp add: timeout_call_def)
  next
    case False
    then show ?thesis
      using timeout_call_activates [of "timeout_func (timers s r)" "timer_fire r s"] activate_task_spec [OF fired] nn by auto
  qed
qed

lemma tick_inv_rearm:
  fixes s :: "'a ipc_state_scheme"
  assumes inv: "tick_inv s" and ok: "timer_ok s" and r: "timer_list s = r # ts"
    and q: "timer_quiet (timer_fire r s) s1" and i1: "tick_inv s1" and re: "timer_rearm r s1 = Some s'"
  shows "tick_inv s'"
proof -
  note Q = timer_ok_quiet [OF ok r q]
  have k1: "kernel_inv s1" using i1 by (simp add: tick_inv_def)
  have fn1: "\<forall>q \<in> set (timer_list s1). timeout_func (timers s1 q) \<noteq> Timeout_null" using i1 by (simp add: tick_inv_def)
  have fr: "timer_frame s1 s'" by (rule timer_rearm_frame [OF re])
  show ?thesis
  proof (cases "is_periodic r s1 \<and> is_activated r s1")
    case False
    then have "s' = timer_remove r s1"
      using re by (auto simp: timer_rearm_def is_periodic_def is_activated_def split: if_splits)
    then show ?thesis
      using tick_inv_frame [OF i1 fr] kernel_inv_remove [OF k1, of r] fn1 by auto
  next
    case True
    let ?s2 = "clear_activated r (timer_remove r s1)"
    have k2: "kernel_inv ?s2" using kernel_inv_clear_remove [OF k1] by simp
    have fr2: "timer_frame s1 ?s2" by simp
    have per: "is_periodic r s" using True q timer_frame_periodic [OF timer_fire_frame [of s r], of r]
      by (simp add: timer_quiet_def)
    have nt: "r \<noteq> Thread_timer t" for t
      using per inv r by (auto simp: tick_inv_def kernel_inv_def timer_links_def thread_objs_def live_def)
    have fn: "timeout_func (timers ?s2 r) \<noteq> Rt_thread_timeout t" for t
      using inv r nt Q(3) by (auto simp: tick_inv_def kernel_inv_def timer_links_def)
    have st: "startable r ?s2" "is_periodic r ?s2 \<longrightarrow> 0 < timer_init_tick (timers ?s2 r)"
      using Q(3,5,6) True timer_frame_get_type [OF fr2] timer_frame_periodic [OF fr2]
      by (simp_all add: startable_def)
    obtain s3 where s3: "rt_timer_start r ?s2 = Some (RT_EOK, s3)" "kernel_inv s3"
      "set (timer_list s3) = insert r (set (timer_list ?s2))"
      "\<forall>q. timeout_func (timers s3 q) = timeout_func (timers ?s2 q)"
      using kernel_inv_start [OF k2 st] nt fn by blast
    have "s' = s3" using re True s3(1) by (simp add: timer_rearm_def is_periodic_def is_activated_def)
    moreover have "timeout_func (timers s r) \<noteq> Timeout_null" using inv r by (simp add: tick_inv_def)
    ultimately show ?thesis
      using tick_inv_frame [OF i1 fr] s3(2-4) fn1 Q(3) by auto
  qed
qed

interpretation tc: timer_callbacks timeout_call tick_inv
proof (unfold_locales, goal_cases)
  case (1 s r ts)
  then show ?case by (intro timeout_call_runs)
next
  case (2 s r ts s1 s')
  then show ?case by (intro tick_inv_rearm [of s r ts s1 s'])
qed

text \<open>Between two ticks no timer is due.\<close>

definition timers_ahead :: "'a kstate_scheme \<Rightarrow> bool" where
  "timers_ahead s \<longleftrightarrow> timer_fired s = [] \<and> (\<forall>r \<in> set (timer_list s). 2 \<le> expiry s r)"

lemma expiry_tick:
  assumes "1 \<le> expiry s r"
  shows "expiry (s\<lparr>rt_tick := rt_tick s + 1\<rparr>) r = expiry s r - 1"
proof -
  let ?d = "timeout_tick (timers s r) - (rt_tick s - 1)"
  have d: "timeout_tick (timers s r) - (rt_tick s + 1 - 1) = ?d - 1" by simp
  have "1 \<le> ?d" using assms by (simp add: expiry_def word_le_nat_alt)
  then have "unat (?d - 1) = unat ?d - unat (1 :: u32)" by (rule unat_sub)
  moreover have "expiry (s\<lparr>rt_tick := rt_tick s + 1\<rparr>) r = unat (timeout_tick (timers s r) - (rt_tick s + 1 - 1))"
    by (simp add: expiry_def)
  ultimately show ?thesis unfolding d by (simp only: expiry_def unat_1)
qed

lemma kernel_inv_tick:
  assumes inv: "kernel_inv s" and ahead: "\<forall>r \<in> set (timer_list s). 1 \<le> expiry s r"
  shows "kernel_inv (s\<lparr>rt_tick := rt_tick s + 1\<rparr>)"
proof -
  let ?s = "s\<lparr>rt_tick := rt_tick s + 1\<rparr>"
  have ts: "timer_sorted s" using inv by (simp add: kernel_inv_def timer_ok_def)
  have e: "map (expiry ?s) (timer_list s) = map (\<lambda>n. n - 1) (map (expiry s) (timer_list s))"
    using expiry_tick [of s] ahead by simp
  have "sorted (map (\<lambda>n. n - 1) ns)" if "sorted ns" for ns :: "nat list"
    using that by (induction ns) (auto intro: diff_le_mono)
  moreover have "expiry ?s r \<le> 0x7fffffff" if "r \<in> set (timer_list s)" for r
    using that ts ahead expiry_tick [of s r] by (auto simp: timer_sorted_def intro: le_trans [OF diff_le_self])
  ultimately have "timer_sorted ?s" using ts unfolding timer_sorted_def by (simp add: e del: map_map)
  then show ?thesis
    using inv unfolding kernel_inv_def timer_ok_def startable_def thread_objs_def timer_links_def
    by (simp add: rt_object_get_type_def rt_object_is_systemobject_def is_periodic_def is_activated_def)
qed

lemma tick_slice_inv:
  fixes s :: "'a ipc_state_scheme"
  assumes inv: "tick_inv s" and ahead: "\<forall>r \<in> set (timer_list s). 1 \<le> expiry s r"
  shows "\<exists>s'. tick_slice s = Some s' \<and> tick_inv s' \<and> rt_tick s' = rt_tick s + 1 \<and>
    timer_fired s' = timer_fired s \<and> timer_list s' = timer_list s \<and> timers s' = timers s"
proof -
  obtain c where c: "current_thread s = Some c" using inv by (auto simp: tick_inv_def)
  let ?s1 = "upd_thread c tick_count_down (s\<lparr>rt_tick := rt_tick s + 1\<rparr>)"
  have k: "kernel_inv s" "event_inv event_tasks_activation s" using inv by (simp_all add: tick_inv_def)
  have k1: "kernel_inv ?s1"
    using kernel_inv_tick [OF k(1) ahead] kernel_inv_upd_same [OF tick_count_down_same] by blast
  have info: "event_info (tick_count_down th) = event_info th" for th by (simp add: tick_count_down_def Let_def)
  have e1: "event_inv event_tasks_activation ?s1"
    using k(2) by (auto simp: event_inv_def rt_object_get_type_def info)
  have i1: "tick_inv ?s1" using k1 e1 inv c by (auto simp: tick_inv_def)
  obtain s2 c2 where s2: "rt_schedule ?s1 = Some s2" "kernel_inv s2" "current_thread s2 = Some c2"
    "sched_frame ?s1 s2" "\<forall>h. wait_head h \<longrightarrow> klists s2 h = klists ?s1 h"
    using kernel_schedule [OF k1, of c] c by auto
  have "event_inv event_tasks_activation s2"
    using event_inv_kframe [OF e1 sched_frame_kframe [OF s2(4)]] s2(5) by simp
  then have "tick_inv s2"
    using s2(2,3) sched_frame_sel [OF s2(4)] i1 by (simp add: tick_inv_def)
  then show ?thesis
    using tick_slice_unfold [OF c] i1 s2(1) sched_frame_sel [OF s2(4)] by (auto simp: Let_def)
qed

lemma tick_runs:
  fixes s :: "'a ipc_state_scheme"
  assumes inv: "tick_inv s" "timers_ahead s"
  shows "\<exists>s'. rt_tick_increase timeout_call s = Some s' \<and> tick_inv s' \<and> timers_ahead s' \<and>
    rt_tick s' = rt_tick s + 1"
proof -
  have a: "\<forall>r \<in> set (timer_list s). 1 \<le> expiry s r" using inv(2) by (auto simp: timers_ahead_def)
  obtain s1 where s1: "tick_slice s = Some s1" "tick_inv s1" "rt_tick s1 = rt_tick s + 1" "timer_fired s1 = []"
    using tick_slice_inv [OF inv(1) a] inv(2) by (auto simp: timers_ahead_def)
  have "timer_ok s1" using s1(2) by (simp add: tick_inv_def kernel_inv_def)
  from tc.check_loop_ends [OF s1(2) this s1(4)] obtain s2 where
    "timer_check_loop timeout_call (rt_tick s1) s1 = Some s2" "tick_inv s2" "timer_fired s2 = []"
    "rt_tick s2 = rt_tick s1" "\<forall>t \<in> set (timer_list s2). 2 \<le> expiry s2 t" by blast
  moreover have "s1\<lparr>timer_fired := []\<rparr> = s1" using s1(4) by simp
  ultimately show ?thesis
    using s1(1,3) by (simp add: rt_tick_increase_def rt_timer_check_def rt_tick_get_def timers_ahead_def)
qed

end
