(* ===== verification/Tasks.thy ===== *)
theory Tasks
  imports Activation
begin

text \<open>
  The tasks of the robot (\<^verbatim>\<open>applications/tasks.c\<close>), as the code the running thread executes from one kernel call
  that can give the processor away to the next. \<open>task_pc\<close> holds the point where each task will go on:

  \<^item> \<open>P_start\<close>: at the beginning of the entry function;
  \<^item> \<open>P_recv\<close>: about to call \<^verbatim>\<open>rt_event_recv\<close> in the loop; \<open>P_woken\<close>: inside it, after the wait;
  \<^item> \<open>P_body\<close> and the labels of the task: in the body of the loop, after the kernel call they name;
  \<^item> \<open>P_busy\<close>: in the loop \<^verbatim>\<open>while(get_tick_count(..)!=0)\<close>;
  \<^item> \<open>P_exit\<close>: at the end of the entry function; \<open>P_closed\<close>: the thread is over.

  What comes from outside is the argument \<open>env\<close>: the values of \<^verbatim>\<open>rand\<close>, the levels of the pins, whether the heap
  gives memory, and the addresses the linker chose for the static mails, stacks and priority fields.
  The local variables that are only printed in a benchmark build are left out, as is all console output.
\<close>

record env =
  rnd :: "u32 \<Rightarrow> int"
  pin_level :: "int \<Rightarrow> pin_call list \<Rightarrow> int"
  heap_ok :: bool
  addr_prio :: "nat \<Rightarrow> u32"
  addr_orig :: "nat \<Rightarrow> u32"
  mail_addr :: "nat \<Rightarrow> u32"
  stack_of :: "nat \<Rightarrow> u32"
  mb_pool :: "nat \<Rightarrow> nat \<Rightarrow> u32"

definition SIGUSR1 :: nat where "SIGUSR1 = 30"
definition SIGUSR2 :: nat where "SIGUSR2 = 31"
definition TICK_DELAY_T1 :: u16 where "TICK_DELAY_T1 = 5"
definition TICK_DELAY_T2 :: u16 where "TICK_DELAY_T2 = 6"
definition TICK_DELAY_T3 :: u16 where "TICK_DELAY_T3 = 6"
definition TICK_DELAY_T4 :: u16 where "TICK_DELAY_T4 = 2"
definition TICK_DELAY_T5 :: u16 where "TICK_DELAY_T5 = 7"
definition TOTALLY_DISCHARGE :: u32 where "TOTALLY_DISCHARGE = 0"
definition DISCHARGE :: u32 where "DISCHARGE = 10"
definition DISCHARGE_THRESHOLD :: u32 where "DISCHARGE_THRESHOLD = 20"
definition FULL :: int where "FULL = 30"
definition STOP_BRUSHES :: int where "STOP_BRUSHES = 0"
definition LOW :: int where "LOW = 1"
definition MEDIUM :: int where "MEDIUM = 2"
definition HIGH :: int where "HIGH = 3"
definition BRUSHES_SPEED_PIN_NUMBER :: int where "BRUSHES_SPEED_PIN_NUMBER = 36"
definition BRUSHES_POWER_PIN_NUMBER :: int where "BRUSHES_POWER_PIN_NUMBER = 37"
definition PIN_MODE_OUTPUT :: int where "PIN_MODE_OUTPUT = 0"
definition PIN_MODE_INPUT :: int where "PIN_MODE_INPUT = 1"

text \<open>The static strings a mail points to; a mail is the address of one of them.\<close>

definition mb_str :: "nat \<Rightarrow> string" where
  "mb_str i = (if i = 1 then ''Garbage bag full'' else if i = 2 then ''Battery Low''
     else if i = 3 then ''Battery status is critical'' else if i = 4 then ''Come back home''
     else ''Turn on brushes'')"

definition string_at :: "env \<Rightarrow> u32 \<Rightarrow> string option" where
  "string_at e a = map_option mb_str (List.find (\<lambda>i. mail_addr e i = a) [1, 2, 3, 4, 5])"

definition set_pc :: "nat \<Rightarrow> pc \<Rightarrow> rvc_state \<Rightarrow> rvc_state" where
  "set_pc t p s = s\<lparr>task_pc := (task_pc s)(t := p)\<rparr>"

section \<open>Devices, handlers, turning off\<close>

text \<open>\<^verbatim>\<open>rt_device_init(rt_device_find(name))\<close> for the four devices, whose handles become global variables.\<close>

definition device_handle :: "objref option \<Rightarrow> nat option" where
  "device_handle r = (case r of Some (Kobj n) \<Rightarrow> Some n | _ \<Rightarrow> None)"

definition find_and_init :: "string \<Rightarrow> rvc_state \<Rightarrow> (nat option \<times> rvc_state) option" where
  "find_and_init name s = do {
     (r, s1) \<leftarrow> rt_device_find name s;
     (_, s2) \<leftarrow> rt_device_init (device_handle r) s1;
     Some (device_handle r, s2)
   }"

definition mock_devices_init :: "rvc_state \<Rightarrow> rvc_state option" where
  "mock_devices_init s = do {
     (d1, s1) \<leftarrow> find_and_init ''proximity_sensor'' s;
     (d2, s2) \<leftarrow> find_and_init ''engine'' (s1\<lparr>proximity_sensor := d1\<rparr>);
     (d3, s3) \<leftarrow> find_and_init ''garbage_bag'' (s2\<lparr>engine := d2\<rparr>);
     (d4, s4) \<leftarrow> find_and_init ''speaker'' (s3\<lparr>garbage_bag := d3\<rparr>);
     Some (s4\<lparr>speaker := d4\<rparr>)
   }"

definition closeTask :: "nat \<Rightarrow> rvc_state \<Rightarrow> (rt_err_t \<times> rvc_state) option" where
  "closeTask t s =
     (if rt_thread_get_status t s \<noteq> RT_THREAD_CLOSE then rt_thread_detach t s else Some (RT_EOK, s))"

text \<open>The counters of \<^verbatim>\<open>closeAllTasks\<close> are only printed.\<close>

definition closeAllTasks :: "rvc_state \<Rightarrow> (rt_err_t \<times> rvc_state) option" where
  "closeAllTasks s = do {
     (_, s1) \<leftarrow> rt_timer_stop timer_obstacle_control_activation s;
     (_, s2) \<leftarrow> rt_timer_stop timer_movement_control_activation s1;
     (_, s3) \<leftarrow> rt_timer_stop timer_check_resources_activation s2;
     (_, s4) \<leftarrow> rt_timer_stop timer_brushes_speed_activation s3;
     (_, s5) \<leftarrow> closeTask movement_stop s4;
     (_, s6) \<leftarrow> closeTask obstacle_control s5;
     (_, s7) \<leftarrow> closeTask movement_control s6;
     (_, s8) \<leftarrow> closeTask check_resources s7;
     (_, s9) \<leftarrow> closeTask acoustic_signals s8;
     (_, s10) \<leftarrow> closeTask brushes_speed s9;
     (_, s11) \<leftarrow> rt_timer_detach timer_obstacle_control_activation s10;
     (_, s12) \<leftarrow> rt_timer_detach timer_movement_control_activation s11;
     (_, s13) \<leftarrow> rt_timer_detach timer_check_resources_activation s12;
     (_, s14) \<leftarrow> rt_timer_detach timer_brushes_speed_activation s13;
     Some (RT_EOK, s14)
   }"

definition turnOffSystem :: "rvc_state \<Rightarrow> rvc_state option" where
  "turnOffSystem s = do {
     s1 \<leftarrow> rt_signal_mask SIGUSR1 s;
     s2 \<leftarrow> rt_signal_mask SIGUSR2 s1;
     s3 \<leftarrow> set_task_as_not_preemptable Tsystem s2;
     Some (s3\<lparr>turnOffFlag := 1\<rparr>)
   }"

definition rvc_handler :: "sighandler \<Rightarrow> nat \<Rightarrow> rvc_state \<Rightarrow> rvc_state option" where
  "rvc_handler h signo s =
     (case h of
        Signal_default_handler \<Rightarrow> Some s
      | Movement_control_obstacle_handler \<Rightarrow> do {
          r \<leftarrow> movement_control_obstacle_handler (robot_st s);
          Some (s\<lparr>robot_st := r\<rparr>) }
      | TurnOffSystem \<Rightarrow> turnOffSystem s)"

section \<open>Waiting for an activation\<close>

definition event_received :: "nat \<Rightarrow> rt_err_t \<Rightarrow> rvc_state \<Rightarrow> rvc_state" where
  "event_received t err s = set_pc t (if err = RT_EOK then P_body else P_recv) s"

text \<open>\<open>stored\<close> says whether the task passes an address for the received flags.\<close>

definition event_value :: "bool \<Rightarrow> u32 option \<Rightarrow> rvc_state \<Rightarrow> rvc_state" where
  "event_value stored v s = (case v of Some x \<Rightarrow> if stored then s\<lparr>event_v := x\<rparr> else s | None \<Rightarrow> s)"

definition wait_event :: "bool \<Rightarrow> nat \<Rightarrow> u32 \<Rightarrow> u8 \<Rightarrow> nat \<Rightarrow> rvc_state \<Rightarrow> rvc_state option" where
  "wait_event stored ev flags opt t s = do {
     (r, s1) \<leftarrow> rt_event_recv ev flags opt RT_WAITING_FOREVER s;
     case r of
       Wait _ \<Rightarrow> Some (set_pc t P_woken s1)
     | Return err v \<Rightarrow> Some (event_received t err (event_value stored v s1))
   }"

definition wait_event_woken :: "bool \<Rightarrow> nat \<Rightarrow> rvc_state \<Rightarrow> rvc_state option" where
  "wait_event_woken stored t s =
     (case event_recv_resumed t s of
        Return err v \<Rightarrow> Some (event_received t err (event_value stored v s))
      | Wait _ \<Rightarrow> None)"

definition busy_wait :: "nat \<Rightarrow> rvc_state \<Rightarrow> rvc_state option" where
  "busy_wait t s =
     (if get_tick_count t s \<noteq> 0 then Some s else Some (set_pc t P_recv (snd (set_task_ended t s))))"

definition AND_CLEAR :: u8 where "AND_CLEAR = RT_EVENT_FLAG_AND OR RT_EVENT_FLAG_CLEAR"

definition OR_CLEAR :: u8 where "OR_CLEAR = RT_EVENT_FLAG_OR OR RT_EVENT_FLAG_CLEAR"

section \<open>Task 1: obstacle control, and movement stop\<close>

definition obstacle_control_entry :: "env \<Rightarrow> rvc_state \<Rightarrow> rvc_state option" where
  "obstacle_control_entry e s =
     (let t = obstacle_control in
      case task_pc s t of
        P_start \<Rightarrow> Some (set_pc t P_recv s)
      | P_recv \<Rightarrow> wait_event False event_tasks_activation EVENT_OBSTACLE_CONTROL_ACTIVATION AND_CLEAR t s
      | P_woken \<Rightarrow> wait_event_woken False t s
      | P_body \<Rightarrow> do {
          let s1 = snd (set_task_started t TICK_DELAY_T1 s);
          (_, v, s2) \<leftarrow> rt_device_read (rnd e) (proximity_sensor s1) s1;
          let s3 = (case v of Some x \<Rightarrow> s2\<lparr>obstacle_v := x\<rparr> | None \<Rightarrow> s2);
          if obstacle_v s3 = int (of_char (CHR ''y'')) then do {
            (_, s4) \<leftarrow> rt_thread_kill rvc_handler movement_control (int SIGUSR1) s3;
            Some (set_pc t T1_notify s4)
          } else Some (set_pc t P_busy s3) }
      | T1_notify \<Rightarrow> do {
          (_, s1) \<leftarrow> rt_event_send event_obstacle EVENT_OBSTACLE_FOUND s;
          Some (set_pc t P_busy s1) }
      | P_busy \<Rightarrow> busy_wait t s
      | _ \<Rightarrow> None)"

definition movement_stop_entry :: "rvc_state \<Rightarrow> rvc_state option" where
  "movement_stop_entry s =
     (let t = movement_stop in
      case task_pc s t of
        P_start \<Rightarrow> Some (set_pc t P_recv s)
      | P_recv \<Rightarrow> wait_event False event_obstacle EVENT_OBSTACLE_FOUND AND_CLEAR t s
      | P_woken \<Rightarrow> wait_event_woken False t s
      | P_body \<Rightarrow> do {
          (_, s1) \<leftarrow> rt_device_write (engine s) (Some ''STOP'') s;
          Some (set_pc t P_recv s1) }
      | _ \<Rightarrow> None)"

section \<open>Task 2: movement control\<close>

text \<open>\<open>T2_mailed\<close>: a mail has been received; \<open>T2_move\<close>: the mail of this activation is dealt with;
  \<open>T2_home\<close>: the signal to turn off has been sent. \<open>stuck_v\<close> is the local variable \<^verbatim>\<open>stuck\<close>, which the code does
  not initialise: its first value is whatever the state has.\<close>

definition movement_control_move :: "rvc_state \<Rightarrow> rvc_state option" where
  "movement_control_move s = do {
     let t = movement_control;
     (cleaned, r1) \<leftarrow> clean_tile (robot_st s);
     s1 \<leftarrow> (if cleaned then map_option snd (rt_device_write (garbage_bag s) None (s\<lparr>robot_st := r1\<rparr>))
            else Some (s\<lparr>robot_st := r1\<rparr>));
     (stuck, r2) \<leftarrow> next_position (stuck_v s1) r1;
     let s2 = s1\<lparr>robot_st := r2, stuck_v := stuck\<rparr>;
     if stuck = 1 then Some (set_pc t P_exit s2)
     else if direction r2 = RETURN \<and> pos0 r2 = 0 \<and> pos1 r2 = 0 then do {
       (_, s3) \<leftarrow> rt_thread_kill rvc_handler Tsystem (int SIGUSR2) s2;
       Some (set_pc t T2_home s3)
     } else do {
       (_, s3) \<leftarrow> rt_device_write (engine s2) (Some ''START'') s2;
       Some (set_pc t P_busy s3)
     }
   }"

definition movement_control_entry :: "env \<Rightarrow> rvc_state \<Rightarrow> rvc_state option" where
  "movement_control_entry e s =
     (let t = movement_control in
      case task_pc s t of
        P_start \<Rightarrow> do {
          let s1 = s\<lparr>robot_st := robot_init (robot_st s)\<rparr>;
          (_, s2) \<leftarrow> rt_signal_install (heap_ok e) (int SIGUSR1) (Handler Movement_control_obstacle_handler) s1;
          s3 \<leftarrow> rt_signal_unmask rvc_handler SIGUSR1 s2;
          Some (set_pc t P_recv s3) }
      | P_recv \<Rightarrow> wait_event False event_tasks_activation EVENT_MOVEMENT_CONTROL_ACTIVATION AND_CLEAR t s
      | P_woken \<Rightarrow> wait_event_woken False t s
      | P_body \<Rightarrow> do {
          let s1 = snd (set_task_started t TICK_DELAY_T2 s);
          (r, s2) \<leftarrow> rt_mb_recv mb2_3 0 s1;
          case r of
            Wait _ \<Rightarrow> None
          | Return err v \<Rightarrow>
              let s3 = (case v of Some x \<Rightarrow> s2\<lparr>mail_v := x\<rparr> | None \<Rightarrow> s2)
              in Some (set_pc t (if err = RT_EOK then T2_mailed else T2_move) s3) }
      | T2_mailed \<Rightarrow> do {
          let s1 = s\<lparr>robot_st := (robot_st s)\<lparr>direction := RETURN\<rparr>\<rparr>;
          s2 \<leftarrow> rt_signal_mask SIGUSR1 s1;
          (_, s3) \<leftarrow> rt_mb_send mb2_5 (mail_addr e 4) s2;
          Some (set_pc t T2_move s3) }
      | T2_move \<Rightarrow> movement_control_move s
      | T2_home \<Rightarrow> Some (set_pc t P_exit s)
      | P_busy \<Rightarrow> busy_wait t s
      | P_exit \<Rightarrow> do { s1 \<leftarrow> thread_exit s; Some (set_pc t P_closed s1) }
      | _ \<Rightarrow> None)"

section \<open>Task 3: check resources\<close>

text \<open>\<open>T3_battery\<close>: the mutex is taken (or the take failed: the result is not looked at); \<open>T3_mail\<close>: task 4 has been
  notified and task 2 is next; \<open>T3_release\<close>: about to release; \<open>T3_bag\<close>, \<open>T3_bag_mail\<close>: the garbage bag.\<close>

definition mutex_taken :: "unit outcome \<Rightarrow> pc \<Rightarrow> pc \<Rightarrow> pc" where
  "mutex_taken r waiting taken = (case r of Wait _ \<Rightarrow> waiting | Return _ _ \<Rightarrow> taken)"

definition battery_mail :: "u32 \<Rightarrow> nat option" where
  "battery_mail b =
     (if b \<le> DISCHARGE \<and> b > TOTALLY_DISCHARGE then Some 3
      else if b \<le> DISCHARGE_THRESHOLD \<and> b > DISCHARGE then Some 2 else None)"

definition check_resources_entry :: "env \<Rightarrow> rvc_state \<Rightarrow> rvc_state option" where
  "check_resources_entry e s =
     (let t = check_resources in
      case task_pc s t of
        P_start \<Rightarrow> Some (set_pc t P_recv s)
      | P_recv \<Rightarrow> wait_event False event_tasks_activation EVENT_CHECK_RESOURCES_ACTIVATION AND_CLEAR t s
      | P_woken \<Rightarrow> wait_event_woken False t s
      | P_body \<Rightarrow> do {
          let s1 = snd (set_task_started t TICK_DELAY_T3 s);
          (r, s2) \<leftarrow> rt_mutex_take (addr_prio e) battMutex RT_WAITING_FOREVER s1;
          Some (set_pc t (mutex_taken r T3_mutex T3_battery) s2) }
      | T3_mutex \<Rightarrow> do {
          (r, s1) \<leftarrow> mutex_take_resumed (addr_prio e) battMutex RT_WAITING_FOREVER t s;
          Some (set_pc t (mutex_taken r T3_mutex T3_battery) s1) }
      | T3_battery \<Rightarrow>
          if batteryStatus s \<le> TOTALLY_DISCHARGE then do {
            (_, s1) \<leftarrow> rt_thread_kill rvc_handler Tsystem (int SIGUSR2) s;
            Some (set_pc t T3_release s1)
          } else (case battery_mail (batteryStatus s) of
            Some i \<Rightarrow> do {
              (_, s1) \<leftarrow> rt_event_send event_resources EVENT_FLAG1 s;
              Some (set_pc t (T3_mail i) s1) }
          | None \<Rightarrow> Some (set_pc t T3_release s))
      | T3_mail i \<Rightarrow> do {
          (_, s1) \<leftarrow> rt_mb_send mb2_3 (mail_addr e i) s;
          Some (set_pc t T3_release s1) }
      | T3_release \<Rightarrow> do {
          (_, s1) \<leftarrow> rt_mutex_release (addr_orig e) battMutex s;
          Some (set_pc t T3_bag s1) }
      | T3_bag \<Rightarrow> do {
          (_, v, s1) \<leftarrow> rt_device_read (rnd e) (garbage_bag s) s;
          let s2 = (case v of Some x \<Rightarrow> s1\<lparr>garbage_v := x\<rparr> | None \<Rightarrow> s1);
          if garbage_v s2 = FULL then do {
            (_, s3) \<leftarrow> rt_event_send event_resources EVENT_FLAG2 s2;
            Some (set_pc t T3_bag_mail s3)
          } else Some (set_pc t P_busy s2) }
      | T3_bag_mail \<Rightarrow> do {
          (_, s1) \<leftarrow> rt_mb_send mb2_3 (mail_addr e 1) s;
          Some (set_pc t P_busy s1) }
      | P_busy \<Rightarrow> busy_wait t s
      | _ \<Rightarrow> None)"

section \<open>Task 4: acoustic signals\<close>

definition acoustic_signals_entry :: "rvc_state \<Rightarrow> rvc_state option" where
  "acoustic_signals_entry s =
     (let t = acoustic_signals in
      case task_pc s t of
        P_start \<Rightarrow> Some (set_pc t P_recv s)
      | P_recv \<Rightarrow> wait_event True event_resources (EVENT_FLAG1 OR EVENT_FLAG2) OR_CLEAR t s
      | P_woken \<Rightarrow> wait_event_woken True t s
      | P_body \<Rightarrow> do {
          let s1 = snd (set_task_started t TICK_DELAY_T4 s);
          s2 \<leftarrow> (if event_v s1 = 2 then map_option snd (rt_device_write (speaker s1) (Some ''LOW BATTERY ALARM'') s1)
                 else if event_v s1 = 4 then map_option snd (rt_device_write (speaker s1) (Some ''GARBAGE BAG FULL'') s1)
                 else Some s1);
          Some (set_pc t P_busy s2) }
      | P_busy \<Rightarrow> busy_wait t s
      | _ \<Rightarrow> None)"

section \<open>Task 5: brushes speed\<close>

text \<open>Reading the pins and choosing the power. The second element of the speed is overwritten with the level of the
  power pin, as in the source.\<close>

definition brushes_adjust :: "int \<times> int \<Rightarrow> int \<times> int \<Rightarrow> ((int \<times> int) \<times> int) option" where
  "brushes_adjust speed pwr =
     (if speed = (1, 0) then
        (if pwr = (1, 0) then Some ((0, 0), MEDIUM)
         else if pwr = (0, 0) then Some ((0, 1), HIGH) else None)
      else if speed = (0, 1) then
        (if pwr = (0, 1) then Some ((0, 0), MEDIUM)
         else if pwr = (0, 0) then Some ((1, 0), LOW) else None)
      else None)"

definition brushes_control :: "env \<Rightarrow> rvc_state \<Rightarrow> rvc_state" where
  "brushes_control e s =
     (let (v0, s1) = rt_pin_read (pin_level e) BRUSHES_SPEED_PIN_NUMBER s;
          (v1, s2) = rt_pin_read (pin_level e) BRUSHES_SPEED_PIN_NUMBER s1;
          s3 = rt_pin_mode BRUSHES_POWER_PIN_NUMBER PIN_MODE_INPUT s2;
          (p0, s4) = rt_pin_read (pin_level e) BRUSHES_POWER_PIN_NUMBER s3;
          (v1', s5) = rt_pin_read (pin_level e) BRUSHES_POWER_PIN_NUMBER s4;
          s6 = rt_pin_mode BRUSHES_POWER_PIN_NUMBER PIN_MODE_OUTPUT s5;
          pwr = (p0, snd (brushes_power_v s6));
          s7 = s6\<lparr>brushes_speed_v := (v0, v1'), brushes_power_v := pwr\<rparr>
      in case brushes_adjust (v0, v1') pwr of
           None \<Rightarrow> s7
         | Some (pwr', level) \<Rightarrow>
             rt_pin_write BRUSHES_POWER_PIN_NUMBER level (s7\<lparr>brushes_power_v := pwr'\<rparr>))"

definition brushes_speed_entry :: "env \<Rightarrow> rvc_state \<Rightarrow> rvc_state option" where
  "brushes_speed_entry e s =
     (let t = brushes_speed in
      case task_pc s t of
        P_start \<Rightarrow> Some (set_pc t P_recv s)
      | P_recv \<Rightarrow> wait_event False event_tasks_activation EVENT_BRUSHES_SPEED_ACTIVATION AND_CLEAR t s
      | P_woken \<Rightarrow> wait_event_woken False t s
      | P_body \<Rightarrow> do {
          let s1 = snd (set_task_started t TICK_DELAY_T5 s);
          let s2 = rt_pin_mode BRUSHES_SPEED_PIN_NUMBER PIN_MODE_INPUT s1;
          let s3 = rt_pin_mode BRUSHES_POWER_PIN_NUMBER PIN_MODE_OUTPUT s2;
          (r, s4) \<leftarrow> rt_mb_recv mb2_5 RT_WAITING_NO s3;
          case r of
            Wait _ \<Rightarrow> None
          | Return err v \<Rightarrow>
              if err = RT_EOK then do {
                a \<leftarrow> v;
                str \<leftarrow> string_at e a;
                Some (set_pc t T5_speed
                  (if str = mb_str 4
                   then (rt_pin_write BRUSHES_POWER_PIN_NUMBER STOP_BRUSHES s4)\<lparr>brushes_power_v := (1, 1)\<rparr>
                   else s4))
              } else Some (set_pc t T5_speed s4) }
      | T5_speed \<Rightarrow> Some (set_pc t P_busy (brushes_control e s))
      | P_busy \<Rightarrow> busy_wait t s
      | _ \<Rightarrow> None)"

section \<open>The handlers that always return\<close>

text \<open>What \<^verbatim>\<open>turnOffSystem\<close> relies on: the system task has not ended.\<close>

definition tsystem_inv :: "rvc_state \<Rightarrow> bool" where
  "tsystem_inv s \<longleftrightarrow> kernel_inv s \<and> live (threads s Tsystem)"

lemma tsystem_inv_upd:
  assumes "\<And>th. same_sched (f th) th" "tsystem_inv s"
  shows "tsystem_inv (upd_thread t f s)"
proof -
  have "live (f th) = live th" for th using same_sched_base [OF assms(1)] by (simp add: live_def)
  then show ?thesis using assms kernel_inv_upd_same [of f t s] by (simp add: tsystem_inv_def)
qed

lemma same_sched_preemptable [simp]: "same_sched (th\<lparr>preemptableFlag := b\<rparr>) th"
  by (simp add: same_sched_def stack_ok_def)

lemma set_priority_sig [simp]:
  "si_list (set_priority p th) = si_list th" "sig_pending (set_priority p th) = sig_pending th"
  "sig_vectors (set_priority p th) = sig_vectors th" "sig_mask (set_priority p th) = sig_mask th"
  by (simp_all add: set_priority_def)

lemma sched_frame_sig:
  assumes "sched_frame s s'"
  shows "si_list (threads s' t) = si_list (threads s t)" "sig_pending (threads s' t) = sig_pending (threads s t)"
    "sig_vectors (threads s' t) = sig_vectors (threads s t)" "sig_mask (threads s' t) = sig_mask (threads s t)"
proof -
  have t: "threads s' t = (threads s t)\<lparr>t_stat := t_stat (threads s' t)\<rparr>"
    using assms unfolding sched_frame_def by blast
  show "si_list (threads s' t) = si_list (threads s t)" "sig_pending (threads s' t) = sig_pending (threads s t)"
    "sig_vectors (threads s' t) = sig_vectors (threads s t)" "sig_mask (threads s' t) = sig_mask (threads s t)"
    by (subst t, simp)+
qed

lemma turnOffSystem_spec:
  assumes inv: "tsystem_inv s" and c: "current_thread s = Some t"
  shows "\<exists>s'. turnOffSystem s = Some s' \<and> tsystem_inv s' \<and> current_thread s' = Some t \<and>
    siginfo_free s' = siginfo_free s \<and> turnOffFlag s' = 1 \<and> preemptableFlag (threads s' Tsystem) = 1 \<and>
    current_priority (threads s' Tsystem) = 0 \<and>
    si_list (threads s' t) = si_list (threads s t) \<and> sig_pending (threads s' t) = sig_pending (threads s t) \<and>
    sig_vectors (threads s' t) = sig_vectors (threads s t) \<and>
    sig_mask (threads s' t) = (sig_mask (threads s t) AND NOT (sig_bit SIGUSR1)) AND NOT (sig_bit SIGUSR2)"
proof -
  let ?m = "\<lambda>n. upd_thread t (\<lambda>th. th\<lparr>sig_mask := sig_mask th AND NOT (sig_bit n)\<rparr>)"
  let ?s2 = "?m SIGUSR2 (?m SIGUSR1 s)"
  have m: "rt_signal_mask SIGUSR1 s = Some (?m SIGUSR1 s)" "rt_signal_mask SIGUSR2 (?m SIGUSR1 s) = Some ?s2"
    using c by (simp_all add: rt_signal_mask_def rt_thread_self_def)
  have i2: "tsystem_inv ?s2" by (intro tsystem_inv_upd inv) simp_all
  then have k2: "kernel_inv ?s2" "live (threads ?s2 Tsystem)" unfolding tsystem_inv_def by blast+
  have p0: "unat (ucast (0 :: u32) :: u8) < RT_THREAD_PRIORITY_MAX" by (simp add: RT_THREAD_PRIORITY_MAX_def)
  obtain s3 where s3: "rt_thread_control Tsystem CTRL_CHANGE_PRIORITY 0 ?s2 = Some (RT_EOK, s3)" "kernel_inv s3"
    "current_thread s3 = current_thread ?s2" "current_priority (threads s3 Tsystem) = ucast (0 :: u32)"
    "sched_frame (upd_thread Tsystem (set_priority 0) ?s2) s3"
    "\<forall>u. stat_base (threads s3 u) = stat_base (threads ?s2 u)"
    using change_priority_spec [OF k2 p0] by blast
  let ?s4 = "upd_thread Tsystem (\<lambda>th. th\<lparr>preemptableFlag := 1\<rparr>) s3"
  have "tsystem_inv s3" using s3(2,6) k2(2) by (simp add: tsystem_inv_def live_def)
  then have i4: "tsystem_inv ?s4" by (intro tsystem_inv_upd) simp_all
  have run: "turnOffSystem s = Some (?s4\<lparr>turnOffFlag := 1\<rparr>)"
    using m s3(1) by (simp add: turnOffSystem_def set_task_as_not_preemptable_def)
  have i5: "tsystem_inv (?s4\<lparr>turnOffFlag := 1\<rparr>)"
    using i4 kernel_inv_cong [of "?s4\<lparr>turnOffFlag := 1\<rparr>" ?s4] by (simp add: tsystem_inv_def)
  note fr = sched_frame_sig [OF s3(5), of t]
  have "siginfo_free s3 = siginfo_free s" using s3(5) by (simp add: sched_frame_def)
  then show ?thesis
    using run i5 s3(3,4) fr c by (auto simp: fun_upd_def)
qed

interpretation rh: signal_handlers rvc_handler "{Signal_default_handler, TurnOffSystem}" tsystem_inv
proof (unfold_locales, goal_cases)
  case (1 h s t n)
  then show ?case using turnOffSystem_spec [OF 1(2,3)] by (auto simp: rvc_handler_def bit_and_iff)
next
  case (2 s t a b)
  then show ?case by (intro tsystem_inv_upd) simp_all
next
  case (3 s t e)
  then show ?case by (intro tsystem_inv_upd) simp_all
next
  case (4 s k)
  then show ?case by (simp add: tsystem_inv_def)
qed

end
