(* ===== verification/Idle.thy ===== *)
theory Idle
  imports Thread
begin

text \<open>
  The idle thread (\<^verbatim>\<open>rt-thread/src/idle.c\<close>): its table of hooks, and the list of finished threads whose objects it
  gives back; and the measurement of processor load that the application hangs into it
  (\<^verbatim>\<open>applications/cpu_usage.c\<close>).

  How often a counting loop runs in ten ticks is a property of the processor: the numbers of passes are
  arguments. No thread has a cleanup function; giving memory back to the heap has no effect in the model.
\<close>

definition RT_IDLE_HOOK_LIST_SIZE :: nat where "RT_IDLE_HOOK_LIST_SIZE = 4"

section \<open>Hooks\<close>

text \<open>The loop over the table: the first entry that is \<open>old\<close> is replaced.\<close>

fun replace_first :: "'h option \<Rightarrow> 'h option \<Rightarrow> 'h option list \<Rightarrow> 'h option list option" where
  "replace_first old new [] = None"
| "replace_first old new (x # xs) = (if x = old then Some (new # xs) else map_option ((#) x) (replace_first old new xs))"

definition rt_thread_idle_sethook :: "'h \<Rightarrow> 'h option list \<Rightarrow> rt_err_t \<times> 'h option list" where
  "rt_thread_idle_sethook hook hooks =
     (case replace_first None (Some hook) hooks of Some hooks' \<Rightarrow> (RT_EOK, hooks') | None \<Rightarrow> (- RT_EFULL, hooks))"

definition rt_thread_idle_delhook :: "'h \<Rightarrow> 'h option list \<Rightarrow> rt_err_t \<times> 'h option list" where
  "rt_thread_idle_delhook hook hooks =
     (case replace_first (Some hook) None hooks of Some hooks' \<Rightarrow> (RT_EOK, hooks') | None \<Rightarrow> (- RT_ENOSYS, hooks))"

section \<open>Finished threads\<close>

definition rt_thread_defunct_dequeue :: "'a kstate_scheme \<Rightarrow> nat option \<times> 'a kstate_scheme" where
  "rt_thread_defunct_dequeue s =
     (case klists s Defunct of [] \<Rightarrow> (None, s) | t # _ \<Rightarrow> (Some t, tlist_remove t s))"

partial_function (option) rt_defunct_execute :: "'a kstate_scheme \<Rightarrow> 'a kstate_scheme option" where
  "rt_defunct_execute s = do {
     _ \<leftarrow> RT_ASSERT (interrupt_nest s = 0);
     case rt_thread_defunct_dequeue s of
       (None, s1) \<Rightarrow> Some s1
     | (Some t, s1) \<Rightarrow> do {
         let s2 = rt_thread_free_sig t s1;
         s3 \<leftarrow> (if rt_object_is_systemobject (Kobj t) s2 then Some (rt_object_detach (Kobj t) s2)
                else rt_object_delete (Kobj t) s2);
         rt_defunct_execute s3
       }
   }"

text \<open>One pass of the loop of \<^verbatim>\<open>rt_thread_idle_entry\<close>; \<open>run_hook\<close> runs a hook.\<close>

fun run_hooks :: "('h \<Rightarrow> 's \<Rightarrow> 's option) \<Rightarrow> 'h option list \<Rightarrow> 's \<Rightarrow> 's option" where
  "run_hooks run [] s = Some s"
| "run_hooks run (None # hs) s = run_hooks run hs s"
| "run_hooks run (Some h # hs) s = do { s1 \<leftarrow> run h s; run_hooks run hs s1 }"

definition rt_thread_idle_entry ::
  "('h \<Rightarrow> 'a kstate_scheme \<Rightarrow> 'a kstate_scheme option) \<Rightarrow> 'h option list \<Rightarrow> 'a kstate_scheme \<Rightarrow> 'a kstate_scheme option" where
  "rt_thread_idle_entry run hooks s = do {
     s1 \<leftarrow> run_hooks run hooks s;
     rt_defunct_execute s1
   }"

definition rt_thread_idle_init :: "nat \<Rightarrow> u32 \<Rightarrow> nat \<Rightarrow> 'a kstate_scheme \<Rightarrow> 'a kstate_scheme option" where
  "rt_thread_idle_init idle stack entry s = do {
     (_, s1) \<leftarrow> rt_thread_init idle ''tidle0'' entry stack 1024 (of_nat RT_THREAD_PRIORITY_MAX - 1) 32 s;
     (_, s2) \<leftarrow> rt_thread_startup idle s1;
     Some (set_end_flag idle s2)
   }"

definition rt_thread_idle_gethandler :: "nat \<Rightarrow> nat" where
  "rt_thread_idle_gethandler idle = idle"

section \<open>Processor load\<close>

record cpu_usage =
  cpu_usage_major :: u8
  cpu_usage_minor :: u8
  total_count :: u32

text \<open>\<open>n1\<close> passes of the loop that finds the total, \<open>n2\<close> of the one that measures.\<close>

definition cpu_usage_idle_hook :: "nat \<Rightarrow> nat \<Rightarrow> cpu_usage \<Rightarrow> cpu_usage" where
  "cpu_usage_idle_hook n1 n2 c =
     (let c1 = (if total_count c = 0 then c\<lparr>total_count := total_count c + of_nat n1\<rparr> else c);
          count = (of_nat n2 :: u32)
      in if count < total_count c1
         then let cnt = total_count c1 - count
              in c1\<lparr>cpu_usage_major := ucast ((cnt * 100) div total_count c1),
                    cpu_usage_minor := ucast (((cnt * 100) mod total_count c1) * 100 div total_count c1)\<rparr>
         else c1\<lparr>total_count := count, cpu_usage_major := 0, cpu_usage_minor := 0\<rparr>)"

definition cpu_usage_get :: "cpu_usage \<Rightarrow> u8 \<times> u8" where
  "cpu_usage_get c = (cpu_usage_major c, cpu_usage_minor c)"

text \<open>The application installs one hook.\<close>

datatype idle_hook = Cpu_usage_idle_hook

definition cpu_usage_init :: "idle_hook option list \<Rightarrow> idle_hook option list" where
  "cpu_usage_init hooks = snd (rt_thread_idle_sethook Cpu_usage_idle_hook hooks)"

section \<open>The idle thread gives everything back\<close>

lemma replace_first_None: "replace_first old new xs = None \<longleftrightarrow> old \<notin> set xs"
  by (induction xs) auto

lemma replace_first_Some:
  "replace_first old new xs = Some ys \<Longrightarrow> \<exists>as bs. xs = as @ old # bs \<and> ys = as @ new # bs \<and> old \<notin> set as"
proof (induction xs arbitrary: ys)
  case (Cons x xs)
  show ?case
  proof (cases "x = old")
    case True
    then show ?thesis using Cons.prems by (auto intro: exI [of _ "[]"])
  next
    case False
    then obtain zs where zs: "replace_first old new xs = Some zs" "ys = x # zs" using Cons.prems by auto
    then obtain as bs where "xs = as @ old # bs" "zs = as @ new # bs" "old \<notin> set as" using Cons.IH by blast
    then show ?thesis using False zs(2) by (intro exI [of _ "x # as"] exI [of _ bs]) auto
  qed
qed simp

lemma rt_defunct_execute_ends:
  fixes s :: "'a kstate_scheme"
  assumes "interrupt_nest s = 0"
  shows "\<exists>s'. rt_defunct_execute s = Some s' \<and> klists s' Defunct = [] \<and>
    (\<forall>t \<in> set (klists s Defunct). o_type (objects s' (Kobj t)) = 0 \<and> sig_vectors (threads s' t) = None) \<and>
    (\<forall>t. t \<notin> set (klists s Defunct) \<longrightarrow> threads s' t = threads s t \<and> objects s' (Kobj t) = objects s (Kobj t)) \<and>
    current_thread s' = current_thread s \<and> kstate.more s' = kstate.more s"
  using assms
proof (induction "length (klists s Defunct)" arbitrary: s rule: less_induct)
  case less
  show ?case
  proof (cases "klists s Defunct")
    case Nil
    then show ?thesis
      using less.prems by (subst rt_defunct_execute.simps) (simp add: rt_thread_defunct_dequeue_def)
  next
    case (Cons t ts)
    define s2 where "s2 = rt_thread_free_sig t (tlist_remove t s)"
    define s3 where "s3 = object_unlink (Kobj t) (upd_object (Kobj t) (\<lambda>ob. ob\<lparr>o_type := 0\<rparr>) s2)"
    have del: "(if rt_object_is_systemobject (Kobj t) s2 then Some (rt_object_detach (Kobj t) s2)
                else rt_object_delete (Kobj t) s2) = Some s3"
      by (simp add: s3_def rt_object_detach_def rt_object_delete_def rt_object_is_systemobject_def
          RT_Object_Class_Null_def)
    have step: "rt_defunct_execute s = rt_defunct_execute s3"
      using less.prems Cons del
      by (subst rt_defunct_execute.simps)
         (simp add: rt_thread_defunct_dequeue_def Let_def s2_def [symmetric] split: if_splits)
    have d3: "klists s3 Defunct = removeAll t ts"
      using Cons by (simp add: s3_def s2_def object_unlink_def rt_thread_free_sig_def Let_def tlist_remove_def)
    then have "length (klists s3 Defunct) < length (klists s Defunct)"
      using Cons length_removeAll_less_eq [of t ts] by (simp add: le_imp_less_Suc)
    moreover have "interrupt_nest s3 = 0"
      using less.prems by (simp add: s3_def s2_def object_unlink_def rt_thread_free_sig_def Let_def tlist_remove_def)
    ultimately obtain s' where s': "rt_defunct_execute s3 = Some s'" "klists s' Defunct = []"
      "\<forall>u \<in> set (klists s3 Defunct). o_type (objects s' (Kobj u)) = 0 \<and> sig_vectors (threads s' u) = None"
      "\<forall>u. u \<notin> set (klists s3 Defunct) \<longrightarrow> threads s' u = threads s3 u \<and> objects s' (Kobj u) = objects s3 (Kobj u)"
      "current_thread s' = current_thread s3" "kstate.more s' = kstate.more s3"
      using less.hyps [of s3] by blast
    have o3: "threads s3 u = (if u = t then (threads s t)\<lparr>si_list := [], sig_vectors := None\<rparr> else threads s u)"
      "objects s3 (Kobj u) = (if u = t then (objects s (Kobj t))\<lparr>o_type := 0\<rparr> else objects s (Kobj u))"
      "current_thread s3 = current_thread s" "kstate.more s3 = kstate.more s" for u
      by (simp_all add: s3_def s2_def object_unlink_def rt_thread_free_sig_def Let_def tlist_remove_def)
    have "o_type (objects s' (Kobj t)) = 0 \<and> sig_vectors (threads s' t) = None"
      using s'(4) o3(1,2) d3 by auto
    then have gone: "o_type (objects s' (Kobj u)) = 0 \<and> sig_vectors (threads s' u) = None"
      if "u \<in> set (klists s Defunct)" for u
      using that s'(3) d3 Cons by (cases "u = t") auto
    have kept: "threads s' u = threads s u \<and> objects s' (Kobj u) = objects s (Kobj u)"
      if "u \<notin> set (klists s Defunct)" for u
      using that s'(4) o3(1,2) d3 Cons by auto
    show ?thesis using step s'(1,2,5,6) o3(3,4) gone kept by simp
  qed
qed

section \<open>The load is a percentage\<close>

lemma percent_split:
  fixes a n :: nat
  assumes "0 < n"
  shows "a * 10000 div n = a * 100 div n * 100 + (a * 100 mod n) * 100 div n"
proof -
  define q r where "q = a * 100 div n" and "r = a * 100 mod n"
  have "a * 100 = q * n + r" by (simp add: q_def r_def)
  then have "a * 10000 = r * 100 + (q * 100) * n" by (simp add: algebra_simps)
  then have "a * 10000 div n = r * 100 div n + q * 100" using assms by simp
  then show ?thesis by (simp add: q_def r_def)
qed

lemma cpu_usage_value:
  fixes c :: cpu_usage and n1 n2 :: nat
  assumes "total_count c \<noteq> 0" "n2 < unat (total_count c)" "unat (total_count c) * 100 < 2 ^ 32"
  defines "c' \<equiv> cpu_usage_idle_hook n1 n2 c"
  shows "unat (cpu_usage_major c') * 100 + unat (cpu_usage_minor c') =
      ((unat (total_count c) - n2) * 10000) div unat (total_count c)"
    "unat (cpu_usage_major c') \<le> 100" "unat (cpu_usage_minor c') < 100" "total_count c' = total_count c"
proof -
  let ?T = "unat (total_count c)" and ?d = "unat (total_count c) - n2"
  have n2: "unat (of_nat n2 :: u32) = n2"
    using assms(2) unsigned_less [of "total_count c", where 'a = nat]
    by (simp add: unat_of_nat mod_less)
  have lt: "(of_nat n2 :: u32) < total_count c" using assms(2) n2 by (simp add: word_less_nat_alt)
  have d: "unat (total_count c - of_nat n2) = ?d" using n2 assms(2) by (simp add: unat_sub word_le_nat_alt)
  have "?d * 100 < 2 ^ 32" using assms(3) by linarith
  then have m: "unat ((total_count c - of_nat n2) * 100) = ?d * 100"
    unfolding unat_word_ariths(2) d by simp
  have q: "unat (((total_count c - of_nat n2) * 100) div total_count c) = ?d * 100 div ?T"
    unfolding unat_div m ..
  have r: "unat (((total_count c - of_nat n2) * 100) mod total_count c) = ?d * 100 mod ?T"
    unfolding unat_mod m ..
  have rlt: "?d * 100 mod ?T < ?T" using assms(2) by simp
  have r2: "unat (((total_count c - of_nat n2) * 100) mod total_count c * 100) = (?d * 100 mod ?T) * 100"
    unfolding unat_word_ariths(2) r using rlt assms(3) by simp
  have q2: "unat (((total_count c - of_nat n2) * 100) mod total_count c * 100 div total_count c) =
      (?d * 100 mod ?T) * 100 div ?T" unfolding unat_div r2 ..
  have "?d * 100 div ?T \<le> ?T * 100 div ?T" by (intro div_le_mono mult_le_mono1 diff_le_self)
  then have b1: "?d * 100 div ?T \<le> 100" using assms(2) by simp
  have b2: "(?d * 100 mod ?T) * 100 div ?T < 100" using rlt by (simp add: div_less_iff_less_mult mult.commute)
  have maj: "unat (cpu_usage_major c') = ?d * 100 div ?T"
  proof -
    have "cpu_usage_major c' = ucast (((total_count c - of_nat n2) * 100) div total_count c)"
      using lt assms(1) by (simp add: c'_def cpu_usage_idle_hook_def Let_def)
    then show ?thesis using b1 by (simp only: unsigned_ucast_eq q take_bit_eq_mod) simp
  qed
  have mnr: "unat (cpu_usage_minor c') = (?d * 100 mod ?T) * 100 div ?T"
  proof -
    have "cpu_usage_minor c' = ucast (((total_count c - of_nat n2) * 100) mod total_count c * 100 div total_count c)"
      using lt assms(1) by (simp add: c'_def cpu_usage_idle_hook_def Let_def)
    then show ?thesis using b2 by (simp only: unsigned_ucast_eq q2 take_bit_eq_mod) simp
  qed
  show "unat (cpu_usage_major c') \<le> 100" "unat (cpu_usage_minor c') < 100" using maj mnr b1 b2 by simp_all
  show "total_count c' = total_count c"
    using lt assms(1) by (simp add: c'_def cpu_usage_idle_hook_def Let_def)
  have "?d * 10000 div ?T = ?d * 100 div ?T * 100 + (?d * 100 mod ?T) * 100 div ?T"
    using assms(2) by (intro percent_split) simp
  then show "unat (cpu_usage_major c') * 100 + unat (cpu_usage_minor c') = (?d * 10000) div ?T"
    unfolding maj mnr by simp
qed

end
