(* ===== verification/Rvc_System.thy ===== *)
theory Rvc_System
  imports Tasks Idle
begin

text \<open>
  The system task (\<^verbatim>\<open>applications/system.c\<close>), the main function (\<^verbatim>\<open>applications/main.c\<close>), the clock interrupt
  (\<^verbatim>\<open>SysTick_Handler\<close>) and the whole machine: at every moment either the thread that has the processor goes on
  to its next kernel call, or the clock interrupts it. A thread that got the processor back first looks after
  its signals, as the end of \<^verbatim>\<open>rt_schedule\<close> and the frame set up by \<^verbatim>\<open>_signal_deliver\<close> make it do.

  The idle thread only gives finished threads back here; the counting hook of theory \<open>Idle\<close> does not touch the
  state of the machine.
\<close>

definition CHARGE :: u32 where "CHARGE = 100"
definition DEC_VALUE :: u32 where "DEC_VALUE = 2"
definition TSYSTEM_PRIORITY :: u32 where "TSYSTEM_PRIORITY = 10"
definition THREAD_TIMESLICE :: u32 where "THREAD_TIMESLICE = 5"
definition PERIOD_TASK1 :: u32 where "PERIOD_TASK1 = 50"
definition PERIOD_TASK2 :: u32 where "PERIOD_TASK2 = 50"
definition PERIOD_TASK3 :: u32 where "PERIOD_TASK3 = 25"
definition PERIOD_TASK5 :: u32 where "PERIOD_TASK5 = 25"

section \<open>The system task\<close>

definition app_thread_init ::
  "env \<Rightarrow> nat \<Rightarrow> string \<Rightarrow> u16 \<Rightarrow> rvc_state \<Rightarrow> (rt_err_t \<times> rvc_state) option" where
  "app_thread_init e t name priority s =
     rt_thread_init t name t (stack_of e t) 1024 priority THREAD_TIMESLICE s"

text \<open>\<^verbatim>\<open>initSystem\<close> up to the end of \<^verbatim>\<open>rt_thread_startup\<close>, and what follows it.\<close>

definition initSystem :: "env \<Rightarrow> rvc_state \<Rightarrow> (rt_err_t \<times> rvc_state) option" where
  "initSystem e s = do {
     let s1 = s\<lparr>batteryStatus := CHARGE, garbageBagStatus := 0\<rparr>;
     (err, s2) \<leftarrow> app_thread_init e Tsystem ''TSystem'' (ucast TSYSTEM_PRIORITY) s1;
     if err \<noteq> RT_EOK then Some (RT_ERROR, s2)
     else do {
       (err2, s3) \<leftarrow> rt_thread_startup Tsystem s2;
       if err2 \<noteq> RT_EOK then Some (RT_ERROR, s3) else Some (RT_EOK, s3)
     }
   }"

definition initSystem_resumed :: "rvc_state \<Rightarrow> rt_err_t \<times> rvc_state" where
  "initSystem_resumed s = (RT_EOK, reset_end_flag Tsystem s)"

text \<open>\<open>TY_loop\<close>: at the top of the loop; \<open>TY_mutex\<close>: waiting for the mutex; \<open>TY_dec\<close>: about to lower the battery.\<close>

definition Tsystem_task_entry :: "env \<Rightarrow> rvc_state \<Rightarrow> rvc_state option" where
  "Tsystem_task_entry e s =
     (let t = Tsystem in
      case task_pc s t of
        P_start \<Rightarrow> do {
          (_, s1) \<leftarrow> rt_signal_install (heap_ok e) (int SIGUSR2) (Handler TurnOffSystem) s;
          s2 \<leftarrow> rt_signal_unmask rvc_handler SIGUSR2 s1;
          Some (set_pc t TY_loop (snd (set_task_started t 10 s2))) }
      | TY_loop \<Rightarrow>
          if turnOffFlag s = 1 then do {
            (err, s1) \<leftarrow> closeAllTasks s;
            if err = RT_EOK then do {
              s2 \<leftarrow> set_task_as_preemptable t TSYSTEM_PRIORITY s1;
              Some (set_pc t P_exit s2)
            } else Some s1
          } else if sint (rt_tick_get_millisecond s) mod 900 = 0 \<and> startingTime s \<noteq> 0 then do {
            (r, s1) \<leftarrow> rt_mutex_take (addr_prio e) battMutex RT_WAITING_FOREVER s;
            Some (set_pc t (mutex_taken r TY_mutex TY_dec) s1)
          } else Some s
      | TY_mutex \<Rightarrow> do {
          (r, s1) \<leftarrow> mutex_take_resumed (addr_prio e) battMutex RT_WAITING_FOREVER t s;
          Some (set_pc t (mutex_taken r TY_mutex TY_dec) s1) }
      | TY_dec \<Rightarrow> do {
          (_, s1) \<leftarrow> rt_mutex_release (addr_orig e) battMutex (s\<lparr>batteryStatus := batteryStatus s - DEC_VALUE\<rparr>);
          Some (set_pc t TY_loop s1) }
      | P_exit \<Rightarrow> do { s1 \<leftarrow> thread_exit s; Some (set_pc t P_closed s1) }
      | _ \<Rightarrow> None)"

section \<open>The main function\<close>

text \<open>A statement of \<^verbatim>\<open>main\<close> whose result is tested: on an error \<^verbatim>\<open>main\<close> returns, which is the value \<open>Inl\<close>.\<close>

fun checked :: "(rvc_state \<Rightarrow> (rt_err_t \<times> rvc_state) option) list \<Rightarrow> rvc_state \<Rightarrow> (rvc_state + rvc_state) option" where
  "checked [] s = Some (Inr s)"
| "checked (f # fs) s = do {
     (err, s1) \<leftarrow> f s;
     if err \<noteq> RT_EOK then Some (Inl s1) else checked fs s1
   }"

definition main_structures :: "env \<Rightarrow> (rvc_state \<Rightarrow> (rt_err_t \<times> rvc_state) option) list" where
  "main_structures e =
     [rt_event_init event_tasks_activation ''event_tasks_activation'' RT_IPC_FLAG_FIFO,
      rt_event_init event_obstacle ''event_obstacle'' RT_IPC_FLAG_FIFO,
      rt_event_init event_resources ''event_resources'' RT_IPC_FLAG_FIFO,
      rt_mutex_init battMutex ''battery'' RT_IPC_FLAG_FIFO,
      (\<lambda>s. do {
         s1 \<leftarrow> rt_timer_init timer_obstacle_control_activation ''timer_obstacle_control_activation''
                 Timeout_obstacle_control PERIOD_TASK1 RT_TIMER_FLAG_PERIODIC s;
         s2 \<leftarrow> rt_timer_init timer_movement_control_activation ''timer_movement_control_activation''
                 Timeout_movement_control PERIOD_TASK2 RT_TIMER_FLAG_PERIODIC s1;
         s3 \<leftarrow> rt_timer_init timer_check_resources_activation ''timer_check_resources_activation''
                 Timeout_check_resources PERIOD_TASK3 RT_TIMER_FLAG_PERIODIC s2;
         s4 \<leftarrow> rt_timer_init timer_brushes_speed_activation ''timer_brushes_speed_activation''
                 Timeout_brushes_speed PERIOD_TASK5 RT_TIMER_FLAG_PERIODIC s3;
         Some (RT_EOK, s4) }),
      rt_mb_init mb2_3 ''mb_res'' (mb_pool e mb2_3) 32 RT_IPC_FLAG_FIFO,
      rt_mb_init mb2_5 ''mb_brushes'' (mb_pool e mb2_5) 32 RT_IPC_FLAG_FIFO]"

definition main_threads :: "env \<Rightarrow> (rvc_state \<Rightarrow> (rt_err_t \<times> rvc_state) option) list" where
  "main_threads e =
     [app_thread_init e obstacle_control ''Task1'' 2,
      app_thread_init e movement_stop ''TaskS'' 1,
      app_thread_init e movement_control ''Task2'' 3,
      app_thread_init e check_resources ''Task3'' 4,
      app_thread_init e acoustic_signals ''Task4'' 6,
      app_thread_init e brushes_speed ''Task5'' 5]"

text \<open>The threads \<^verbatim>\<open>main\<close> starts, in this order; each start may give the processor away.\<close>

definition main_startups :: "nat list" where
  "main_startups = [obstacle_control, movement_stop, movement_control, check_resources, acoustic_signals, brushes_speed]"

text \<open>\<^verbatim>\<open>Main_at 0\<close>: \<^verbatim>\<open>initSystem\<close>; \<open>1\<close>: the structures and devices; \<open>2 + i\<close>: starting thread \<open>i\<close>; \<open>8\<close>: starting the
  timers; \<open>9\<close>: the 150 ms before the last timer. The comparison in the loop is between unsigned values.\<close>

definition main_step :: "env \<Rightarrow> nat \<Rightarrow> rvc_state \<Rightarrow> rvc_state option" where
  "main_step e n s =
     (let t = main_thread in
      if n = 0 then do {
        (err, s1) \<leftarrow> initSystem e (s\<lparr>startingTime := 0, turnOffFlag := 0\<rparr>);
        Some (set_pc t (if err \<noteq> RT_EOK then P_exit else Main_at 1) s1) }
      else if n = 1 then do {
        r \<leftarrow> checked (main_structures e @ main_threads e) (snd (initSystem_resumed s));
        case r of Inl s1 \<Rightarrow> Some (set_pc t P_exit s1)
        | Inr s1 \<Rightarrow> do {
            s2 \<leftarrow> mock_devices_init s1;
            Some (set_pc t (Main_at 2) (rt_system_timer_init s2)) } }
      else if n < 8 then do {
        (_, s1) \<leftarrow> rt_thread_startup (main_startups ! (n - 2)) s;
        Some (set_pc t (Main_at (n + 1)) s1) }
      else if n = 8 then do {
        let s0 = s\<lparr>startingTime := sint (rt_tick_get_millisecond s)\<rparr>;
        (_, s1) \<leftarrow> rt_timer_start timer_obstacle_control_activation s0;
        (_, s2) \<leftarrow> rt_timer_start timer_movement_control_activation s1;
        (_, s3) \<leftarrow> rt_timer_start timer_check_resources_activation s2;
        Some (set_pc t (Main_at 9) s3) }
      else if rt_tick_get_millisecond s < of_int (startingTime s + 150) then Some s
      else do {
        (_, s1) \<leftarrow> rt_timer_start timer_brushes_speed_activation s;
        Some (set_pc t P_exit s1) })"

definition main_entry :: "env \<Rightarrow> rvc_state \<Rightarrow> rvc_state option" where
  "main_entry e s =
     (case task_pc s main_thread of
        P_start \<Rightarrow> main_step e 0 s
      | Main_at n \<Rightarrow> main_step e n s
      | P_exit \<Rightarrow> do { s1 \<leftarrow> thread_exit s; Some (set_pc main_thread P_closed s1) }
      | _ \<Rightarrow> None)"

section \<open>The machine\<close>

definition thread_code :: "env \<Rightarrow> nat \<Rightarrow> rvc_state \<Rightarrow> rvc_state option" where
  "thread_code e t s =
     (if t = main_thread then main_entry e s
      else if t = Tsystem then Tsystem_task_entry e s
      else if t = movement_stop then movement_stop_entry s
      else if t = obstacle_control then obstacle_control_entry e s
      else if t = movement_control then movement_control_entry e s
      else if t = check_resources then check_resources_entry e s
      else if t = brushes_speed then brushes_speed_entry e s
      else if t = acoustic_signals then acoustic_signals_entry s
      else rt_defunct_execute s)"

definition processor_step :: "env \<Rightarrow> rvc_state \<Rightarrow> rvc_state option" where
  "processor_step e s = do {
     t \<leftarrow> current_thread s;
     if t_stat (threads s t) AND RT_THREAD_STAT_SIGNAL_PENDING \<noteq> 0 then schedule_signal_check rvc_handler s
     else if sig_ret (threads s t) \<noteq> 0 then signal_entry rvc_handler s
     else thread_code e t s
   }"

definition SysTick_Handler :: "'a ipc_state_scheme \<Rightarrow> 'a ipc_state_scheme option" where
  "SysTick_Handler s = do {
     s1 \<leftarrow> rt_tick_increase timeout_call (rt_interrupt_enter s);
     Some (rt_interrupt_leave s1)
   }"

text \<open>The interrupt of the clock returns.\<close>

lemma SysTick_runs:
  fixes s :: "'a ipc_state_scheme"
  assumes "tick_inv s" "timers_ahead s"
  shows "\<exists>s'. SysTick_Handler s = Some s' \<and> tick_inv s' \<and> timers_ahead s' \<and> rt_tick s' = rt_tick s + 1"
proof -
  have nest: "tick_inv (u\<lparr>interrupt_nest := k\<rparr>) = tick_inv u" "timers_ahead (u\<lparr>interrupt_nest := k\<rparr>) = timers_ahead u"
    for k and u :: "'a ipc_state_scheme"
    using kernel_inv_cong [of "u\<lparr>interrupt_nest := k\<rparr>" u]
    by (auto simp: tick_inv_def timers_ahead_def event_inv_def rt_object_get_type_def expiry_def)
  obtain s1 where "rt_tick_increase timeout_call (rt_interrupt_enter s) = Some s1" "tick_inv s1" "timers_ahead s1"
    "rt_tick s1 = rt_tick (rt_interrupt_enter s) + 1"
    using tick_runs [of "rt_interrupt_enter s"] assms by (auto simp: rt_interrupt_enter_def nest)
  then show ?thesis by (simp add: SysTick_Handler_def rt_interrupt_leave_def rt_interrupt_enter_def nest)
qed

inductive rvc_step :: "env \<Rightarrow> rvc_state \<Rightarrow> rvc_state \<Rightarrow> bool" for e where
  processor: "processor_step e s = Some s' \<Longrightarrow> rvc_step e s s'"
| clock: "SysTick_Handler s = Some s' \<Longrightarrow> rvc_step e s s'"

inductive reachable :: "env \<Rightarrow> rvc_state \<Rightarrow> rvc_state \<Rightarrow> bool" for e where
  start: "reachable e s s"
| step: "reachable e s s1 \<Longrightarrow> rvc_step e s1 s2 \<Longrightarrow> reachable e s s2"

inductive_cases rvc_stepE: "rvc_step e s s'"

end
