(* ===== verification/App_Frame.thy ===== *)
theory App_Frame
  imports Rvc_System
begin

text \<open>
  No kernel operation touches the application's variables: whatever the state it is called in, an operation that
  returns has changed only the kernel's part of the state. Nothing is assumed here, so that the facts hold of
  every step of the machine. The operations of the kernel proper keep the rest of the \<open>kstate\<close> record, those on
  IPC objects the rest of the \<open>ipc_state\<close> record.
\<close>

named_theorems more_frame \<open>an operation that returns leaves the application's part of the state alone\<close>

section \<open>Kernel operations\<close>

lemma more_simps [simp]:
  "kstate.more (tlist_remove t s) = kstate.more s" "kstate.more (tlist_insert_before h t s) = kstate.more s"
  "kstate.more (tlist_insert_after h t s) = kstate.more s" "kstate.more (schedule_clear_yield t s) = kstate.more s"
  "kstate.more (rt_enter_critical s) = kstate.more s" "kstate.more (object_link c r s) = kstate.more s"
  "kstate.more (object_unlink r s) = kstate.more s" "kstate.more (rt_object_detach r s) = kstate.more s"
  "kstate.more (clear_activated r s) = kstate.more s" "kstate.more (set_activated r s) = kstate.more s"
  "kstate.more (timer_init r fn time flag s) = kstate.more s" "kstate.more (timer_remove r s) = kstate.more s"
  "kstate.more (timer_fire r s) = kstate.more s" "kstate.more (rt_thread_free_sig t s) = kstate.more s"
  "kstate.more (thread_cleanup_execute t s) = kstate.more s" "kstate.more (rt_thread_defunct_enqueue t s) = kstate.more s"
  "kstate.more (ipc_object_init n s) = kstate.more s" "kstate.more (mb_senders_init n s) = kstate.more s"
  "kstate.more (rt_system_timer_init s) = kstate.more s" "kstate.more (set_end_flag t s) = kstate.more s"
  "kstate.more (reset_end_flag t s) = kstate.more s" "kstate.more (set_tick_count t k s) = kstate.more s"
  "kstate.more (rt_interrupt_enter s) = kstate.more s" "kstate.more (rt_interrupt_leave s) = kstate.more s"
  "kstate.more (rt_set_errno e s) = kstate.more s"
  by (simp_all add: tlist_defs schedule_clear_yield_def rt_enter_critical_def object_link_def object_unlink_def
      rt_object_detach_def clear_activated_def set_activated_def timer_init_def timer_remove_def timer_fire_def
      rt_thread_free_sig_def thread_cleanup_execute_def rt_thread_defunct_enqueue_def ipc_object_init_def
      mb_senders_init_def rt_system_timer_init_def set_end_flag_def reset_end_flag_def set_tick_count_def
      rt_interrupt_enter_def rt_interrupt_leave_def rt_set_errno_def Let_def split: option.split)

lemma sched_ops_more [more_frame]:
  "rt_schedule_insert_thread t s = Some s' \<Longrightarrow> kstate.more s' = kstate.more s"
  "rt_schedule_remove_thread t s = Some s' \<Longrightarrow> kstate.more s' = kstate.more s"
  by (auto simp: rt_schedule_insert_thread_def rt_schedule_remove_thread_def Let_def split: if_splits)

lemma schedule_more [more_frame]: "rt_schedule s = Some s' \<Longrightarrow> kstate.more s' = kstate.more s"
  by (auto simp: rt_schedule_def schedule_switch_def schedule_stay_def Let_def split: if_splits dest!: more_frame)

lemma object_more [more_frame]:
  "rt_exit_critical s = Some s' \<Longrightarrow> kstate.more s' = kstate.more s"
  by (auto simp: rt_exit_critical_def Let_def split: if_splits dest!: more_frame)

lemma object_init_more [more_frame]:
  "rt_object_init r c name s = Some s' \<Longrightarrow> kstate.more s' = kstate.more s"
  "rt_object_find name c s = Some (x, s') \<Longrightarrow> kstate.more s' = kstate.more s"
  "rt_object_delete r s = Some s' \<Longrightarrow> kstate.more s' = kstate.more s"
  by (auto simp: rt_object_init_def rt_object_find_def rt_object_delete_def Let_def
      split: if_splits option.splits dest!: more_frame)

lemma timer_more [more_frame]:
  "rt_timer_init r name fn time flag s = Some s' \<Longrightarrow> kstate.more s' = kstate.more s"
  "rt_timer_detach r s = Some (e, s') \<Longrightarrow> kstate.more s' = kstate.more s"
  "rt_timer_start r s = Some (e, s') \<Longrightarrow> kstate.more s' = kstate.more s"
  "rt_timer_stop r s = Some (e, s') \<Longrightarrow> kstate.more s' = kstate.more s"
  by (auto simp: rt_timer_init_def rt_timer_detach_def rt_timer_start_def rt_timer_stop_def Let_def
      split: if_splits dest!: more_frame)

lemma timer_control_more [more_frame]:
  "rt_timer_control r cmd arg s = Some (e, v, s') \<Longrightarrow> kstate.more s' = kstate.more s"
  "timer_rearm r s = Some s' \<Longrightarrow> kstate.more s' = kstate.more s"
  by (auto simp: rt_timer_control_def timer_rearm_def Let_def split: if_splits timer_cmd.splits dest!: more_frame)

lemma thread_more [more_frame]:
  "rt_thread_suspend t s = Some (e, s') \<Longrightarrow> kstate.more s' = kstate.more s"
  "rt_thread_resume t s = Some (e, s') \<Longrightarrow> kstate.more s' = kstate.more s"
  "thread_timer_arm t k s = Some s' \<Longrightarrow> kstate.more s' = kstate.more s"
  "thread_init t entry st sz p tick s = Some (e, s') \<Longrightarrow> kstate.more s' = kstate.more s"
  by (auto simp: rt_thread_suspend_def rt_thread_resume_def thread_timer_arm_def thread_init_def Let_def
      split: if_splits dest!: more_frame)

lemma thread_init_more [more_frame]:
  "rt_thread_init t name entry st sz p tick s = Some (e, s') \<Longrightarrow> kstate.more s' = kstate.more s"
  "rt_thread_startup t s = Some (e, s') \<Longrightarrow> kstate.more s' = kstate.more s"
  "rt_thread_timeout t s = Some s' \<Longrightarrow> kstate.more s' = kstate.more s"
  "thread_exit s = Some s' \<Longrightarrow> kstate.more s' = kstate.more s"
  "thread_close t s = Some s' \<Longrightarrow> kstate.more s' = kstate.more s"
  by (auto simp: rt_thread_init_def rt_thread_startup_def rt_thread_timeout_def thread_exit_def thread_close_def Let_def
      split: if_splits dest!: more_frame)

lemma thread_detach_more [more_frame]:
  "rt_thread_detach t s = Some (e, s') \<Longrightarrow> kstate.more s' = kstate.more s"
  "rt_thread_delete t s = Some (e, s') \<Longrightarrow> kstate.more s' = kstate.more s"
  by (auto simp: rt_thread_detach_def rt_thread_delete_def Let_def split: if_splits dest!: more_frame)

lemma thread_control_more [more_frame]:
  "rt_thread_control t cmd arg s = Some (e, s') \<Longrightarrow> kstate.more s' = kstate.more s"
  by (auto simp: rt_thread_control_def split: if_splits thread_cmd.splits dest!: more_frame)

lemma task_more [more_frame]:
  "set_task_as_not_preemptable t s = Some s' \<Longrightarrow> kstate.more s' = kstate.more s"
  "set_task_as_preemptable t p s = Some s' \<Longrightarrow> kstate.more s' = kstate.more s"
  by (auto simp: set_task_as_not_preemptable_def set_task_as_preemptable_def dest!: more_frame)

lemma task_more_simps [simp]:
  "kstate.more (snd (set_task_started t k s)) = kstate.more s" "kstate.more (snd (set_task_ended t s)) = kstate.more s"
  by (simp_all add: set_task_started_def set_task_ended_def)

lemma tick_more [more_frame]: "tick_slice s = Some s' \<Longrightarrow> kstate.more s' = kstate.more s"
  by (auto simp: tick_slice_def Let_def split: if_splits dest!: more_frame)

lemma defunct_more [more_frame]: "rt_defunct_execute s = Some s' \<Longrightarrow> kstate.more s' = kstate.more s"
proof (cases "interrupt_nest s = 0")
  case True
  then show "rt_defunct_execute s = Some s' \<Longrightarrow> kstate.more s' = kstate.more s"
    using rt_defunct_execute_ends [OF True] by auto
qed (subst (asm) rt_defunct_execute.simps, simp)

section \<open>Operations on IPC objects\<close>

lemma ipc_more: "kstate.more s' = kstate.more s \<Longrightarrow> ipc_state.more s' = ipc_state.more s"
  by (cases s; cases s') simp

lemmas ipc_more_simps [simp] = more_simps [THEN ipc_more] task_more_simps [THEN ipc_more]
  upd_thread_sel(16) [THEN ipc_more] upd_object_sel(16) [THEN ipc_more] upd_timer_sel(16) [THEN ipc_more]

lemmas ipc_kernel_frame = sched_ops_more [THEN ipc_more] schedule_more [THEN ipc_more] object_init_more [THEN ipc_more]
  timer_more [THEN ipc_more] timer_control_more [THEN ipc_more] thread_more [THEN ipc_more]
  thread_init_more [THEN ipc_more] thread_control_more [THEN ipc_more]

named_theorems ipc_frame \<open>an operation on IPC objects leaves the application's part of the state alone\<close>

declare ipc_kernel_frame [ipc_frame]

lemma ipc_upd_more [simp]:
  "ipc_state.more (upd_mutex n f s) = ipc_state.more s" "ipc_state.more (event_put n v s) = ipc_state.more s"
  "ipc_state.more (upd_mb n g s) = ipc_state.more s" "ipc_state.more (sem_set n k s) = ipc_state.more s"
  by (simp_all add: upd_mutex_def event_put_def upd_mb_def sem_set_def)

lemma ipc_list_more:
  fixes s :: "'a kstate_scheme"
  shows "ipc_list_suspend h t fl s = Some s' \<Longrightarrow> kstate.more s' = kstate.more s"
    "ipc_list_resume h s = Some s' \<Longrightarrow> kstate.more s' = kstate.more s"
  by (auto simp: ipc_list_suspend_def ipc_list_resume_def Let_def split: if_splits list.splits dest!: more_frame)

lemma ipc_block_more:
  fixes s :: "'a kstate_scheme"
  shows "ipc_block h t fl time s = Some s' \<Longrightarrow> kstate.more s' = kstate.more s"
    "ipc_wake_one h s = Some s' \<Longrightarrow> kstate.more s' = kstate.more s"
  by (auto simp: ipc_block_def ipc_wake_one_def Let_def split: if_splits dest!: more_frame ipc_list_more)

lemmas ipc_wait_frame [ipc_frame] = ipc_list_more [THEN ipc_more] ipc_block_more [THEN ipc_more]

lemma event_wake_more [ipc_frame]:
  "event_wake e ts need s = Some (r, n, s') \<Longrightarrow> ipc_state.more s' = ipc_state.more s"
proof (induction ts arbitrary: need s)
  case (Cons t ts)
  let ?m = "event_match (event_info (threads s t)) (event_set (threads s t)) (event_sets s e)"
  consider "?m = None" | "?m = Some None" | recv where "?m = Some (Some recv)" by (cases ?m) auto
  then show ?case
  proof cases
    case (3 recv)
    define s2 where "s2 = (if event_info (threads s t) AND RT_EVENT_FLAG_CLEAR \<noteq> 0
        then event_put e (event_sets s e AND NOT recv) (upd_thread t (\<lambda>th. th\<lparr>event_set := recv\<rparr>) s)
        else upd_thread t (\<lambda>th. th\<lparr>event_set := recv\<rparr>) s)"
    obtain x s3 where s3: "rt_thread_resume t s2 = Some (x, s3)" "event_wake e ts True s3 = Some (r, n, s')"
      using 3 Cons.prems by (auto simp: s2_def Let_def split: if_splits)
    have "ipc_state.more s2 = ipc_state.more s" by (simp add: s2_def)
    then show ?thesis using Cons.IH [OF s3(2)] thread_more(2) [THEN ipc_more, OF s3(1)] by simp
  qed (use Cons in \<open>auto simp: Let_def\<close>)
qed simp

lemma event_more [ipc_frame]:
  "rt_event_init e name fl s = Some (x, s') \<Longrightarrow> ipc_state.more s' = ipc_state.more s"
  "rt_event_send e v s = Some (x, s') \<Longrightarrow> ipc_state.more s' = ipc_state.more s"
  "rt_event_recv e v opt time s = Some (y, s') \<Longrightarrow> ipc_state.more s' = ipc_state.more s"
  by (auto simp: rt_event_init_def rt_event_send_def rt_event_recv_def Let_def
      split: if_splits option.splits dest!: ipc_frame)

lemma mutex_again_more [ipc_frame]:
  "mutex_take_again addr n time t s = Some (x, s') \<Longrightarrow> ipc_state.more s' = ipc_state.more s"
  "mutex_hand_over n s = Some (y, s') \<Longrightarrow> ipc_state.more s' = ipc_state.more s"
  by (auto simp: mutex_take_again_def mutex_hand_over_def Let_def split: if_splits list.splits dest!: ipc_frame)

lemma mutex_more [ipc_frame]:
  "rt_mutex_init n name fl s = Some (x, s') \<Longrightarrow> ipc_state.more s' = ipc_state.more s"
  "rt_mutex_take addr n time s = Some (y, s') \<Longrightarrow> ipc_state.more s' = ipc_state.more s"
  "mutex_take_resumed addr n time t s = Some (y, s') \<Longrightarrow> ipc_state.more s' = ipc_state.more s"
  "rt_mutex_release addr n s = Some (x, s') \<Longrightarrow> ipc_state.more s' = ipc_state.more s"
  by (auto simp: rt_mutex_init_def rt_mutex_take_def mutex_take_resumed_def rt_mutex_release_def Let_def
      split: if_splits dest!: ipc_frame)

lemma mb_loop_more [ipc_frame]:
  "mb_send_loop n v time t s = Some (x, s') \<Longrightarrow> ipc_state.more s' = ipc_state.more s"
  "mb_recv_loop n time t s = Some (y, s') \<Longrightarrow> ipc_state.more s' = ipc_state.more s"
  by (auto simp: mb_send_loop_def mb_send_store_def mb_recv_loop_def mb_recv_fetch_def Let_def
      split: if_splits dest!: ipc_frame)

lemma mb_more [ipc_frame]:
  "rt_mb_init n name pool sz fl s = Some (x, s') \<Longrightarrow> ipc_state.more s' = ipc_state.more s"
  "rt_mb_send n v s = Some (y, s') \<Longrightarrow> ipc_state.more s' = ipc_state.more s"
  "rt_mb_recv n time s = Some (z, s') \<Longrightarrow> ipc_state.more s' = ipc_state.more s"
  by (auto simp: rt_mb_init_def rt_mb_send_def rt_mb_send_wait_def rt_mb_recv_def mb_send_store_def mb_recv_fetch_def Let_def
      split: if_splits dest!: ipc_frame)

lemma timeout_call_more [ipc_frame]: "timeout_call fn s = Some s' \<Longrightarrow> ipc_state.more s' = ipc_state.more s"
  by (auto simp: timeout_call_def timeout_defs split: timer_fn.splits dest!: ipc_frame)

lemma timer_check_more:
  assumes "timer_check_loop exec now s = Some s'"
    "\<And>fn s s'. exec fn s = Some s' \<Longrightarrow> ipc_state.more s' = ipc_state.more s"
  shows "ipc_state.more s' = ipc_state.more s"
proof -
  have "(\<forall>fn s s'. exec fn s = Some s' \<longrightarrow> ipc_state.more s' = ipc_state.more s) \<longrightarrow>
      ipc_state.more s' = ipc_state.more s"
  proof (rule timer_check_loop.raw_induct [OF _ assms(1)], intro impI, goal_cases)
    case (1 loop ex now s s')
    show ?case
    proof (cases "timer_list s")
      case (Cons t ts)
      have fire: "ipc_state.more s4 = ipc_state.more s" if "ex fn (timer_fire t s) = Some s4" for fn s4
        using that 1(3) by (metis ipc_more_simps(13))
      have loop: "ipc_state.more y = ipc_state.more x" if "loop ex n x = Some y" for n x y
        using 1(1) [OF that] 1(3) by blast
      show ?thesis
        using 1(2) Cons by (auto split: if_splits dest!: fire loop timer_control_more(2) [THEN ipc_more])
    qed (use 1(2) in simp)
  qed
  then show ?thesis using assms(2) by blast
qed

lemma SysTick_more: "SysTick_Handler s = Some s' \<Longrightarrow> ipc_state.more s' = ipc_state.more s"
  by (auto simp: SysTick_Handler_def rt_tick_increase_def rt_timer_check_def
      dest!: tick_more [THEN ipc_more] timer_check_more [OF _ timeout_call_more])

end
