(* ===== verification/Machine.thy ===== *)
theory Machine
  imports App_Frame
begin

text \<open>
  What the whole machine does to the robot: an abstract system with only the robot on its map, the charge of the
  battery and the number of tiles counted in the garbage bag, and the proof that every step of the machine,
  whichever thread runs and whenever the clock interrupts, is a sequence of moves of that system. Facts about the
  robot are then proved on the small system, by rule induction, and hold of the machine.
\<close>

section \<open>The abstract robot\<close>

type_synonym app = "robot \<times> u32 \<times> int"

text \<open>The possible moves: an obstacle is signalled, the robot is told to come home, movement control is activated
  (a tile it cleans is counted once, or not at all when the bag is not in use), the battery loses two percent.\<close>

inductive robot_move :: "app \<Rightarrow> app \<Rightarrow> bool" where
  obstacle: "movement_control_obstacle_handler r = Some r' \<Longrightarrow> robot_move (r, b, g) (r', b, g)"
| mail: "robot_move (r, b, g) (r\<lparr>direction := RETURN\<rparr>, b, g)"
| activation: "robot_activation stuck r = Some (cleaned, stuck', r') \<Longrightarrow> g' \<in> {g, if cleaned then g + 1 else g} \<Longrightarrow>
    robot_move (r, b, g) (r', b, g')"
| drain: "robot_move (r, b, g) (r, b - 2, g)"

inductive_cases robot_moveE: "robot_move x y"

abbreviation robot_moves :: "app \<Rightarrow> app \<Rightarrow> bool" where
  "robot_moves \<equiv> robot_move\<^sup>*\<^sup>*"

section \<open>The part of the machine's state that matters\<close>

definition app :: "rvc_state \<Rightarrow> app" where
  "app s = (robot_st s, batteryStatus s, garbage_bag_value s)"

definition handles :: "rvc_state \<Rightarrow> nat option \<times> nat option \<times> (nat \<Rightarrow> rt_device)" where
  "handles s = (engine s, speaker s, devices s)"

lemma app_more: "ipc_state.more s' = ipc_state.more s \<Longrightarrow> app s' = app s \<and> handles s' = handles s \<and> task_pc s' = task_pc s"
  by (cases s; cases s') (simp add: app_def handles_def)

text \<open>A run of some code: moves of the robot, everything else as before.\<close>

definition moves :: "rvc_state \<Rightarrow> rvc_state \<Rightarrow> bool" where
  "moves s s' \<longleftrightarrow> robot_moves (app s) (app s') \<and> handles s' = handles s \<and> task_pc s' = task_pc s"

lemma moves_same: "app s' = app s \<Longrightarrow> handles s' = handles s \<Longrightarrow> task_pc s' = task_pc s \<Longrightarrow> moves s s'"
  by (simp add: moves_def)

lemma moves_refl [simp]: "moves s s"
  by (simp add: moves_same)

lemma moves_trans: "moves s s1 \<Longrightarrow> moves s1 s2 \<Longrightarrow> moves s s2"
  by (auto simp: moves_def)

lemma moves_more: "ipc_state.more s' = ipc_state.more s \<Longrightarrow> moves s s'"
  using app_more by (auto intro: moves_same)

lemma moves_kmore: "kstate.more s' = kstate.more s \<Longrightarrow> moves s s'"
  by (rule moves_more [OF ipc_more])

lemma moves_upd_thread [simp]:
  "moves s (upd_thread t f s1) = moves s s1" "moves (upd_thread t f s) s1 = moves s s1"
  "moves (s\<lparr>siginfo_free := j\<rparr>) s1 = moves s s1"
  by (simp_all add: moves_def app_def handles_def)

lemma moves_fields [simp]:
  "moves s (s1\<lparr>siginfo_free := j\<rparr>) = moves s s1"
  "moves s (s1\<lparr>obstacle_v := a\<rparr>) = moves s s1" "moves (s\<lparr>obstacle_v := a\<rparr>) s1 = moves s s1"
  "moves s (s1\<lparr>stuck_v := b\<rparr>) = moves s s1" "moves (s\<lparr>stuck_v := b\<rparr>) s1 = moves s s1"
  "moves s (s1\<lparr>mail_v := c\<rparr>) = moves s s1" "moves (s\<lparr>mail_v := c\<rparr>) s1 = moves s s1"
  "moves s (s1\<lparr>event_v := d\<rparr>) = moves s s1" "moves (s\<lparr>event_v := d\<rparr>) s1 = moves s s1"
  "moves s (s1\<lparr>garbage_v := e\<rparr>) = moves s s1" "moves (s\<lparr>garbage_v := e\<rparr>) s1 = moves s s1"
  "moves s (s1\<lparr>brushes_speed_v := f\<rparr>) = moves s s1" "moves (s\<lparr>brushes_speed_v := f\<rparr>) s1 = moves s s1"
  "moves s (s1\<lparr>brushes_power_v := g\<rparr>) = moves s s1" "moves (s\<lparr>brushes_power_v := g\<rparr>) s1 = moves s s1"
  "moves s (s1\<lparr>turnOffFlag := h\<rparr>) = moves s s1" "moves (s\<lparr>turnOffFlag := h\<rparr>) s1 = moves s s1"
  "moves s (s1\<lparr>startingTime := i\<rparr>) = moves s s1" "moves (s\<lparr>startingTime := i\<rparr>) s1 = moves s s1"
  "moves s (rt_pin_mode p m s1) = moves s s1" "moves (rt_pin_mode p m s) s1 = moves s s1"
  "moves s (rt_pin_write p m s1) = moves s s1" "moves (rt_pin_write p m s) s1 = moves s s1"
  "moves s (event_value st v s1) = moves s s1" "moves (event_value st v s) s1 = moves s s1"
  "moves s (rt_set_errno r s1) = moves s s1" "moves (rt_set_errno r s) s1 = moves s s1"
  "moves s (snd (set_task_started t k s1)) = moves s s1" "moves (snd (set_task_started t k s)) s1 = moves s s1"
  "moves s (snd (set_task_ended t s1)) = moves s s1" "moves (snd (set_task_ended t s)) s1 = moves s s1"
  by (simp_all add: moves_def app_def handles_def rt_pin_mode_def rt_pin_write_def event_value_def rt_set_errno_def
      set_task_started_def set_task_ended_def reset_end_flag_def set_end_flag_def set_tick_count_def split: option.split)

section \<open>Signals\<close>

lemma handler_moves: "rvc_handler h n s = Some s' \<Longrightarrow> moves s s'"
proof (cases h)
  case Movement_control_obstacle_handler
  assume "rvc_handler h n s = Some s'"
  then obtain r where r: "movement_control_obstacle_handler (robot_st s) = Some r" "s' = s\<lparr>robot_st := r\<rparr>"
    using Movement_control_obstacle_handler by (auto simp: rvc_handler_def)
  then have "robot_move (app s) (app s')" unfolding app_def by (auto intro: robot_move.obstacle)
  then show "moves s s'" using r(2) by (auto simp: moves_def handles_def)
next
  case TurnOffSystem
  assume "rvc_handler h n s = Some s'"
  then show "moves s s'"
    using TurnOffSystem
    by (auto simp: rvc_handler_def turnOffSystem_def rt_signal_mask_def rt_thread_self_def dest!: task_more(1) [THEN moves_kmore]
        intro: moves_trans)
qed (simp add: rvc_handler_def)

lemma loop_moves:
  assumes "handle_sig_loop rvc_handler t s = Some s'"
  shows "moves s s'"
proof -
  have "(\<forall>h n s s'. exec h n s = Some s' \<longrightarrow> moves s s') \<longrightarrow> moves s s'"
    if "handle_sig_loop exec t s = Some s'" for exec
  proof (rule handle_sig_loop.raw_induct [OF _ that], intro impI, goal_cases)
    case (1 loop ex t s s')
    show ?case
    proof (cases "sig_wanted (threads s t) \<and> si_list (threads s t) \<noteq> []")
      case True
      then obtain n ns v where ns: "si_list (threads s t) = n # ns" "sig_vectors (threads s t) = Some v"
        using 1(2) by (cases "si_list (threads s t)") auto
      let ?s1 = "upd_thread t (\<lambda>th. th\<lparr>si_list := ns, sig_pending := sig_pending th AND NOT (sig_bit n)\<rparr>) s"
      obtain s2 where s2: "(case v n of None \<Rightarrow> Some ?s1 | Some h \<Rightarrow> ex h n ?s1) = Some s2"
        "loop ex t (upd_thread t (\<lambda>th. th\<lparr>t_error := - RT_EINTR\<rparr>) (s2\<lparr>siginfo_free := siginfo_free s2 + 1\<rparr>)) = Some s'"
        using 1(2) True ns by (auto simp: Let_def)
      have "moves ?s1 s2" if "ex h n ?s1 = Some s2" for h using that 1(3) by blast
      then have "moves ?s1 s2" using s2(1) by (cases "v n") simp_all
      moreover have "moves s2 s'" using 1(1) [OF s2(2)] 1(3) by simp
      ultimately show ?thesis using moves_trans [of s s2 s'] by simp
    next
      case False
      then show ?thesis using 1(2) by (auto split: if_splits)
    qed
  qed
  then show ?thesis using assms handler_moves by blast
qed

lemma handle_sig_moves: "rt_thread_handle_sig rvc_handler b s = Some s' \<Longrightarrow> moves s s'"
  by (auto simp: rt_thread_handle_sig_def split: if_splits dest!: loop_moves)

lemma signal_check_moves:
  "schedule_signal_check rvc_handler s = Some s' \<Longrightarrow> moves s s'" "signal_entry rvc_handler s = Some s' \<Longrightarrow> moves s s'"
  by (auto simp: schedule_signal_check_def signal_entry_def split: if_splits
      dest!: handle_sig_moves)

lemma deliver_moves: "signal_deliver rvc_handler t s = Some s' \<Longrightarrow> moves s s'"
  by (auto simp: signal_deliver_def Let_def split: if_splits
      dest!: handle_sig_moves thread_more(2) [THEN moves_kmore] schedule_more [THEN moves_kmore]
      intro: moves_trans)

lemma kill_moves: "rt_thread_kill rvc_handler t sig s = Some (e, s') \<Longrightarrow> moves s s'"
  by (auto simp: rt_thread_kill_def Let_def split: if_splits dest!: deliver_moves intro: moves_trans)

lemma mask_moves:
  "rt_signal_mask n s = Some s' \<Longrightarrow> moves s s'" "rt_signal_unmask rvc_handler n s = Some s' \<Longrightarrow> moves s s'"
  "rt_signal_install ok sig h s = Some (x, s') \<Longrightarrow> moves s s'"
  by (auto simp: rt_signal_mask_def rt_signal_unmask_def rt_signal_install_def rt_thread_alloc_sig_def Let_def
      split: if_splits option.splits dest!: deliver_moves intro: moves_trans)

section \<open>Devices\<close>

lemma read_moves: "rt_device_read rand d s = Some (n, v, s') \<Longrightarrow> moves s s'"
  by (auto simp: rt_device_read_def split: if_splits option.splits prod.splits intro: moves_kmore)

text \<open>Only a write to the garbage bag is seen; a write to another device is not.\<close>

lemma write_moves:
  assumes "rt_device_write (Some d) msg s = Some (n, s')" "d_ops (devices s d) \<noteq> Garbage_bag_ops"
  shows "moves s s'"
proof (cases "d_ref_count (devices s d) = 0 \<or> \<not> has_write_op (d_ops (devices s d))")
  case True
  then show ?thesis using assms(1) by (auto simp: rt_device_write_def split: if_splits intro: moves_kmore)
next
  case False
  then show ?thesis
    using assms
    by (cases "d_ops (devices s d)")
       (auto simp: rt_device_write_def device_write_op_def engine_write_def speaker_write_def has_write_op_def
         split: if_splits intro!: moves_same simp: app_def handles_def)
qed

lemma bag_write:
  assumes "rt_device_write d None s = Some (n, s')"
  shows "robot_st s' = robot_st s" "batteryStatus s' = batteryStatus s" "handles s' = handles s" "task_pc s' = task_pc s"
    "stuck_v s' = stuck_v s" "garbage_bag_value s' \<in> {garbage_bag_value s, garbage_bag_value s + 1}"
proof -
  obtain k where d: "d = Some k" using assms by (cases d) (auto simp: rt_device_write_def)
  have "robot_st s' = robot_st s \<and> batteryStatus s' = batteryStatus s \<and> handles s' = handles s \<and> task_pc s' = task_pc s \<and>
    stuck_v s' = stuck_v s \<and> garbage_bag_value s' \<in> {garbage_bag_value s, garbage_bag_value s + 1}"
    using assms
    by (cases "d_ops (devices s k)")
       (auto simp: d rt_device_write_def device_write_op_def garbage_bag_write_def rt_set_errno_def handles_def
         split: if_splits option.splits)
  then show "robot_st s' = robot_st s" "batteryStatus s' = batteryStatus s" "handles s' = handles s" "task_pc s' = task_pc s"
    "stuck_v s' = stuck_v s" "garbage_bag_value s' \<in> {garbage_bag_value s, garbage_bag_value s + 1}" by blast+
qed

section \<open>The tasks\<close>

text \<open>The system is set up: \<^verbatim>\<open>main\<close> is past the initialisation of the devices, movement control past that of the map,
  and neither the engine nor the speaker is the garbage bag.\<close>

definition late :: "pc \<Rightarrow> bool" where
  "late p \<longleftrightarrow> p \<noteq> P_start \<and> p \<noteq> Main_at 0 \<and> p \<noteq> Main_at 1"

definition ready_to_run :: "rvc_state \<Rightarrow> bool" where
  "ready_to_run s \<longleftrightarrow> late (task_pc s main_thread) \<and> late (task_pc s movement_control) \<and>
     (\<forall>d. engine s = Some d \<or> speaker s = Some d \<longrightarrow> d_ops (devices s d) \<noteq> Garbage_bag_ops)"

text \<open>A step of the code of thread \<open>t\<close>.\<close>

definition task_moves :: "nat \<Rightarrow> rvc_state \<Rightarrow> rvc_state \<Rightarrow> bool" where
  "task_moves t s s' \<longleftrightarrow> robot_moves (app s) (app s') \<and> handles s' = handles s \<and>
     (\<exists>p. (p = task_pc s t \<or> late p) \<and> task_pc s' = (task_pc s)(t := p))"

lemma task_moves_pc [intro!]: "moves s s1 \<Longrightarrow> late p \<Longrightarrow> task_moves t s (set_pc t p s1)"
  by (auto simp: task_moves_def moves_def set_pc_def app_def handles_def)

lemma task_moves_same [intro]: "moves s s' \<Longrightarrow> task_moves t s s'"
  by (auto simp: task_moves_def moves_def intro: exI [of _ "task_pc s t"])

lemma task_moves_ready:
  assumes "task_moves t s s'" "ready_to_run s"
  shows "ready_to_run s' \<and> robot_moves (app s) (app s')"
  using assms by (auto simp: task_moves_def ready_to_run_def handles_def)

lemma late_simps [simp]:
  "late P_recv" "late P_woken" "late P_body" "late P_busy" "late P_exit" "late P_closed" "late T1_notify"
  "late T2_mailed" "late T2_move" "late T2_home" "late T3_mutex" "late T3_battery" "late (T3_mail i)" "late T3_release"
  "late T3_bag" "late T3_bag_mail" "late T5_speed" "late TY_loop" "late TY_mutex" "late TY_dec"
  "late (Main_at n) \<longleftrightarrow> 1 < n" "\<not> late P_start"
  by (auto simp: late_def)

lemma wait_event_moves:
  "wait_event st ev fl opt t s = Some s' \<Longrightarrow> task_moves t s s'" "wait_event_woken st t s = Some s' \<Longrightarrow> task_moves t s s'"
  "busy_wait t s = Some s' \<Longrightarrow> task_moves t s s'"
  by (auto simp: wait_event_def wait_event_woken_def busy_wait_def event_received_def split: outcome.splits if_splits
      dest!: event_more(3) [THEN moves_more])

lemmas moves_dest = read_moves kill_moves mask_moves ipc_frame [THEN moves_more] more_frame [THEN moves_kmore]

lemma obstacle_control_moves:
  "obstacle_control_entry e s = Some s' \<Longrightarrow> task_moves obstacle_control s s'"
proof (cases "task_pc s obstacle_control")
  case P_body
  assume "obstacle_control_entry e s = Some s'"
  then show "task_moves obstacle_control s s'"
    using P_body
    by (auto simp: obstacle_control_entry_def Let_def split: if_splits option.splits
        dest!: read_moves kill_moves) (blast intro: moves_trans)+
qed (auto simp: obstacle_control_entry_def dest!: wait_event_moves event_more(2) [THEN moves_more])

lemma movement_stop_moves:
  assumes "movement_stop_entry s = Some s'" "ready_to_run s"
  shows "task_moves movement_stop s s'"
proof (cases "task_pc s movement_stop")
  case P_body
  obtain d n s1 where d: "engine s = Some d" "rt_device_write (Some d) (Some ''STOP'') s = Some (n, s1)"
    "s' = set_pc movement_stop P_recv s1"
    using assms(1) P_body by (cases "engine s") (auto simp: movement_stop_entry_def rt_device_write_def)
  then have "moves s s1" using write_moves assms(2) by (auto simp: ready_to_run_def)
  then show ?thesis using d(3) by auto
qed (use assms in \<open>auto simp: movement_stop_entry_def dest!: wait_event_moves\<close>)

lemma acoustic_signals_moves:
  assumes "acoustic_signals_entry s = Some s'" "ready_to_run s"
  shows "task_moves acoustic_signals s s'"
proof (cases "task_pc s acoustic_signals")
  case P_body
  let ?s1 = "snd (set_task_started acoustic_signals TICK_DELAY_T4 s)"
  have same: "speaker ?s1 = speaker s" "devices ?s1 = devices s"
    by (simp_all add: set_task_started_def reset_end_flag_def set_tick_count_def)
  have w: "moves ?s1 s2" if wr: "rt_device_write (speaker ?s1) msg ?s1 = Some (n, s2)" for msg n s2
  proof -
    obtain d where "speaker s = Some d" using wr unfolding same by (cases "speaker s") (simp_all add: rt_device_write_def)
    then show ?thesis using write_moves [of d msg ?s1 n s2] wr same assms(2) by (auto simp: ready_to_run_def)
  qed
  show ?thesis
    using assms(1) P_body by (auto simp: acoustic_signals_entry_def Let_def split: if_splits dest!: w)
qed (use assms in \<open>auto simp: acoustic_signals_entry_def dest!: wait_event_moves\<close>)

lemma check_resources_moves:
  "check_resources_entry e s = Some s' \<Longrightarrow> task_moves check_resources s s'"
proof (cases "task_pc s check_resources")
  case P_body
  assume "check_resources_entry e s = Some s'"
  then show "task_moves check_resources s s'"
    using P_body
    by (auto simp: check_resources_entry_def Let_def mutex_taken_def split: outcome.splits
        dest!: mutex_more(2) [THEN moves_more] intro: moves_trans)
next
  case T3_battery
  assume "check_resources_entry e s = Some s'"
  then show "task_moves check_resources s s'"
    using T3_battery
    by (auto simp: check_resources_entry_def split: if_splits option.splits
        dest!: kill_moves event_more(2) [THEN moves_more])
next
  case T3_bag
  assume "check_resources_entry e s = Some s'"
  then show "task_moves check_resources s s'"
    using T3_bag
    by (auto simp: check_resources_entry_def Let_def split: if_splits option.splits
        dest!: read_moves event_more(2) [THEN moves_more]) (blast intro: moves_trans)+
qed (auto simp: check_resources_entry_def mutex_taken_def split: outcome.splits
      dest!: wait_event_moves mutex_more(3,4) [THEN moves_more] mb_more(2) [THEN moves_more])

lemma brushes_control_moves [simp]: "moves s (brushes_control e s1) = moves s s1"
proof -
  have "app (brushes_control e s1) = app s1 \<and> handles (brushes_control e s1) = handles s1 \<and>
      task_pc (brushes_control e s1) = task_pc s1"
    by (simp add: brushes_control_def rt_pin_read_def rt_pin_mode_def rt_pin_write_def app_def handles_def Let_def
        split: option.split prod.split)
  then show ?thesis by (simp add: moves_def)
qed

lemma brushes_speed_moves:
  "brushes_speed_entry e s = Some s' \<Longrightarrow> task_moves brushes_speed s s'"
proof (cases "task_pc s brushes_speed")
  case P_body
  assume "brushes_speed_entry e s = Some s'"
  then show "task_moves brushes_speed s s'"
    using P_body
    by (auto simp: brushes_speed_entry_def Let_def split: outcome.splits if_splits dest!: mb_more(3) [THEN moves_more])
qed (auto simp: brushes_speed_entry_def dest!: wait_event_moves)

lemma drain_moves: "moves s (s\<lparr>batteryStatus := batteryStatus s - DEC_VALUE\<rparr>)"
  by (auto simp: moves_def app_def handles_def DEC_VALUE_def intro: robot_move.drain)

lemma closeTask_moves: "closeTask t s = Some (e, s') \<Longrightarrow> moves s s'"
  by (auto simp: closeTask_def split: if_splits dest: thread_detach_more(1) [THEN moves_kmore])

lemma closeAllTasks_moves:
  assumes "closeAllTasks s = Some (e, s')"
  shows "moves s s'"
proof -
  have stop: "moves x y" if "rt_timer_stop r x = Some (a, y)" for r x a y using timer_more(4) [OF that] by (rule moves_kmore)
  have detach: "moves x y" if "rt_timer_detach r x = Some (a, y)" for r x a y using timer_more(2) [OF that] by (rule moves_kmore)
  show ?thesis
    using assms unfolding closeAllTasks_def
    by (auto dest!: stop detach closeTask_moves) (meson moves_trans)
qed

lemma Tsystem_moves: "Tsystem_task_entry e s = Some s' \<Longrightarrow> task_moves Tsystem s s'"
proof (cases "task_pc s Tsystem")
  case P_start
  assume "Tsystem_task_entry e s = Some s'"
  then show "task_moves Tsystem s s'"
    using P_start by (auto simp: Tsystem_task_entry_def dest!: mask_moves) (blast intro: moves_trans)
next
  case TY_loop
  assume "Tsystem_task_entry e s = Some s'"
  then show "task_moves Tsystem s s'"
    using TY_loop
    by (auto simp: Tsystem_task_entry_def mutex_taken_def split: if_splits outcome.splits
        dest!: closeAllTasks_moves task_more(2) [THEN moves_kmore] mutex_more(2) [THEN moves_more])
       (blast intro: moves_trans task_moves_same)+
next
  case TY_dec
  assume "Tsystem_task_entry e s = Some s'"
  then show "task_moves Tsystem s s'"
    using TY_dec drain_moves [of s]
    by (auto simp: Tsystem_task_entry_def dest!: mutex_more(4) [THEN moves_more]) (blast intro: moves_trans)
qed (auto simp: Tsystem_task_entry_def mutex_taken_def split: outcome.splits
      dest!: mutex_more(3) [THEN moves_more] thread_init_more(4) [THEN moves_kmore])

lemma main_moves:
  assumes "main_entry e s = Some s'" "ready_to_run s"
  shows "task_moves main_thread s s'"
proof (cases "task_pc s main_thread")
  case (Main_at n)
  then have n: "1 < n" and run: "main_step e n s = Some s'"
    using assms by (auto simp: main_entry_def ready_to_run_def)
  show ?thesis
    using n run
    by (auto simp: main_step_def Let_def split: if_splits
        dest!: thread_init_more(2) [THEN moves_kmore] timer_more(3) [THEN moves_kmore] intro: task_moves_same)
       (blast intro: moves_trans)
qed (use assms in \<open>auto simp: main_entry_def ready_to_run_def dest!: thread_init_more(4) [THEN moves_kmore]\<close>)

lemma movement_move:
  assumes run: "movement_control_move s = Some s'" and rdy: "ready_to_run s"
  shows "task_moves movement_control s s'"
proof -
  let ?t = movement_control
  obtain c r1 where r1: "clean_tile (robot_st s) = Some (c, r1)" using run by (auto simp: movement_control_move_def Let_def)
  obtain s1 where s1: "(if c then map_option snd (rt_device_write (garbage_bag s) None (s\<lparr>robot_st := r1\<rparr>))
      else Some (s\<lparr>robot_st := r1\<rparr>)) = Some s1"
    using run r1 by (auto simp: movement_control_move_def Let_def split: if_splits)
  obtain st r2 where r2: "next_position (stuck_v s1) r1 = Some (st, r2)"
    using run r1 s1 by (auto simp: movement_control_move_def Let_def)
  let ?s2 = "s1\<lparr>robot_st := r2, stuck_v := st\<rparr>"
  have w: "handles s1 = handles s \<and> task_pc s1 = task_pc s \<and> stuck_v s1 = stuck_v s \<and> batteryStatus s1 = batteryStatus s \<and>
      garbage_bag_value s1 \<in> {garbage_bag_value s, if c then garbage_bag_value s + 1 else garbage_bag_value s}"
    using s1 bag_write [of "garbage_bag s" "s\<lparr>robot_st := r1\<rparr>"]
    by (cases c) (auto simp: handles_def)
  have "robot_activation (stuck_v s) (robot_st s) = Some (c, st, r2)"
    using r1 r2 w by (simp add: robot_activation_def)
  then have "robot_move (app s) (app ?s2)"
    using w unfolding app_def by (auto intro: robot_move.activation)
  then have m2: "moves s ?s2" using w by (auto simp: moves_def handles_def)
  have eng: "moves ?s2 s3" if wr: "rt_device_write (engine ?s2) msg ?s2 = Some (n, s3)" for msg n s3
  proof -
    have h: "engine ?s2 = engine s" "devices ?s2 = devices s" using w by (simp_all add: handles_def)
    obtain d where d: "engine s = Some d" using wr unfolding h by (cases "engine s") (simp_all add: rt_device_write_def)
    then show ?thesis using write_moves [of d msg ?s2 n s3] wr h rdy by (auto simp: ready_to_run_def)
  qed
  consider "st = 1" "s' = set_pc ?t P_exit ?s2"
    | x s3 where "rt_thread_kill rvc_handler Tsystem (int SIGUSR2) ?s2 = Some (x, s3)" "s' = set_pc ?t T2_home s3"
    | x s3 where "rt_device_write (engine ?s2) (Some ''START'') ?s2 = Some (x, s3)" "s' = set_pc ?t P_busy s3"
    using run r1 s1 r2 by (auto simp: movement_control_move_def Let_def split: if_splits)
  then show ?thesis
  proof cases
    case 2
    then show ?thesis using moves_trans [OF m2 kill_moves] by auto
  next
    case 3
    then show ?thesis using moves_trans [OF m2 eng] by auto
  qed (use m2 in auto)
qed

lemma mail_moves: "moves s (s\<lparr>robot_st := (robot_st s)\<lparr>direction := RETURN\<rparr>\<rparr>)"
  by (auto simp: moves_def app_def handles_def intro: robot_move.mail)

lemma movement_control_moves:
  assumes "movement_control_entry e s = Some s'" "ready_to_run s"
  shows "task_moves movement_control s s'"
proof (cases "task_pc s movement_control")
  case P_body
  then show ?thesis
    using assms(1)
    by (auto simp: movement_control_entry_def Let_def split: outcome.splits option.splits
        dest!: mb_more(3) [THEN moves_more])
next
  case T2_mailed
  then show ?thesis
    using assms(1) mail_moves [of s]
    by (auto simp: movement_control_entry_def Let_def dest!: mask_moves(1) mb_more(2) [THEN moves_more])
       (blast intro: moves_trans)
qed (use assms in \<open>auto simp: movement_control_entry_def ready_to_run_def intro: movement_move
       dest!: wait_event_moves thread_init_more(4) [THEN moves_kmore]\<close>)

section \<open>The machine refines the abstract robot\<close>

lemma ready_to_run_moves: "moves s s' \<Longrightarrow> ready_to_run s \<Longrightarrow> ready_to_run s' \<and> robot_moves (app s) (app s')"
  by (auto simp: moves_def ready_to_run_def handles_def)

lemma thread_code_refines:
  assumes "thread_code e t s = Some s'" "ready_to_run s"
  shows "ready_to_run s' \<and> robot_moves (app s) (app s')"
proof -
  have "\<exists>t. task_moves t s s'"
    using assms
    by (auto simp: thread_code_def split: if_splits
        dest: main_moves Tsystem_moves movement_stop_moves obstacle_control_moves movement_control_moves
          check_resources_moves brushes_speed_moves acoustic_signals_moves defunct_more [THEN moves_kmore])
  then show ?thesis using task_moves_ready assms(2) by blast
qed

lemma step_refines:
  assumes "rvc_step e s s'" "ready_to_run s"
  shows "ready_to_run s' \<and> robot_moves (app s) (app s')"
  using assms(1)
proof cases
  case processor
  then consider "schedule_signal_check rvc_handler s = Some s'" | "signal_entry rvc_handler s = Some s'"
    | t where "thread_code e t s = Some s'"
    by (auto simp: processor_step_def split: if_splits)
  then show ?thesis
    using signal_check_moves ready_to_run_moves [OF _ assms(2)] thread_code_refines [OF _ assms(2)] by cases blast+
next
  case clock
  then show ?thesis using SysTick_more moves_more ready_to_run_moves [OF _ assms(2)] by blast
qed

lemma reachable_refines:
  assumes "reachable e s s'" "ready_to_run s"
  shows "ready_to_run s' \<and> robot_moves (app s) (app s')"
  using assms
proof (induction rule: reachable.induct)
  case (step s s1 s2)
  then show ?case using step_refines [of e s1 s2] by auto
qed simp

section \<open>Invariants of the robot\<close>

text \<open>A robot on its map, or one step off it, where the handler may have put it.\<close>

definition robot_type :: "robot \<Rightarrow> bool" where
  "robot_type r \<longleftrightarrow> map_wf (rmap r) \<and> -1 \<le> pos0 r \<and> pos0 r \<le> MAP_SIDE \<and> -1 \<le> pos1 r \<and> pos1 r \<le> MAP_SIDE"

text \<open>What a move leaves behind: tiles found to be blocked stay blocked, a robot on its way home stays on it, no tile
  is counted twice, and the charge stays even.\<close>

definition robot_keeps :: "app \<Rightarrow> app \<Rightarrow> bool" where
  "robot_keeps x y \<longleftrightarrow> (case x of (r, b, g) \<Rightarrow> case y of (r', b', g') \<Rightarrow>
     robot_type r' \<and> (direction r = RETURN \<longrightarrow> direction r' = RETURN) \<and>
     (\<forall>i j. on_map i j \<and> rmap r ! nat i ! nat j = 1 \<longrightarrow> rmap r' ! nat i ! nat j = 1) \<and>
     g' + int (unvisited r') \<le> g + int (unvisited r) \<and> (even (unat b) \<longrightarrow> even (unat b')))"

lemma clean_tile_on_map: "clean_tile r = Some x \<Longrightarrow> on_map (pos0 r) (pos1 r)"
  by (auto simp: clean_tile_def map_get_def split: if_splits)

lemma clean_tile_blocked:
  assumes "clean_tile r = Some (c, r1)" "robot_wf r" "on_map i j" "rmap r ! nat i ! nat j = 1"
  shows "rmap r1 ! nat i ! nat j = 1"
proof (cases "rmap r ! nat (pos0 r) ! nat (pos1 r) = 0")
  case True
  then have s: "map_set r (pos0 r) (pos1 r) 2 = Some r1"
    using assms(1) by (auto simp: clean_tile_def map_get_def split: if_splits)
  have "map_wf (rmap r)" using assms(2) by (simp add: robot_wf_def)
  then have "rmap r1 ! nat i ! nat j = (if i = pos0 r \<and> j = pos1 r then 2 else rmap r ! nat i ! nat j)"
    using s assms(3) by (rule map_set_cell)
  then show ?thesis using assms(4) True by auto
next
  case False
  then show ?thesis using assms by (auto simp: clean_tile_def map_get_def split: if_splits)
qed

lemma even_drain: "even (unat (b :: u32)) \<Longrightarrow> even (unat (b - 2))"
proof -
  have "even (unat w) \<longleftrightarrow> even w" for w :: u32 
    using bit_unsigned_iff [where 'a = nat, of w 0] by (simp add: bit_0)
  then show "even (unat (b :: u32)) \<Longrightarrow> even (unat (b - 2))" by simp
qed

lemma activation_keeps:
  assumes run: "robot_activation stuck r = Some (c, st, r')" and ty: "robot_type r" and g: "g' \<in> {g, if c then g + 1 else g}"
  shows "robot_keeps (r, b, g) (r', b, g')"
proof -
  obtain r1 where r1: "clean_tile r = Some (c, r1)" "next_position stuck r1 = Some (st, r')"
    using run by (auto simp: robot_activation_def)
  have wf: "robot_wf r" using clean_tile_on_map [OF r1(1)] ty by (simp add: robot_wf_def robot_type_def)
  have spec: "robot_wf r'" "direction r' = RETURN \<longleftrightarrow> direction r = RETURN" "unvisited r' + (if c then 1 else 0) = unvisited r"
    using robot_activation_spec [OF wf, of stuck] run by auto
  have wf1: "robot_wf r1" using clean_tile_spec [OF wf] r1(1) by auto
  then have "rmap r' = rmap r1" using next_position_spec [of r1 stuck] r1(2) by (auto simp: robot_wf_def)
  then have "rmap r' ! nat i ! nat j = 1" if "on_map i j" "rmap r ! nat i ! nat j = 1" for i j
    using clean_tile_blocked [OF r1(1) wf that] by simp
  moreover have "robot_type r'" using spec(1) by (auto simp: robot_wf_def robot_type_def on_map_def MAP_SIDE_def)
  moreover have "g' + int (unvisited r') \<le> g + int (unvisited r)" using spec(3) g by (cases c) auto
  ultimately show ?thesis using spec(2) by (simp add: robot_keeps_def)
qed

lemma obstacle_keeps:
  assumes run: "movement_control_obstacle_handler r = Some r'" and ty: "robot_type r"
  shows "robot_keeps (r, b, g) (r', b, g)"
proof -
  obtain r1 where r1: "map_set r (pos0 r) (pos1 r) 1 = Some r1" "rmap r' = rmap r1"
    using run by (auto simp: movement_control_obstacle_handler_def split: directions.splits)
  have wf: "robot_wf r" using r1(1) ty by (auto simp: robot_wf_def robot_type_def map_set_def split: if_splits)
  obtain r2 where r2: "movement_control_obstacle_handler r = Some r2" "map_wf (rmap r2)" "direction r2 = direction r"
    "unvisited r2 \<le> unvisited r" "(pos0 r2, pos1 r2) = ahead (opposite (direction r)) (pos0 r, pos1 r)"
    using handler_spec [OF wf] by blast
  have "robot_type r'"
    using r2 run wf by (cases "direction r") (auto simp: robot_type_def robot_wf_def on_map_def)
  moreover have "rmap r' ! nat i ! nat j = 1" if "on_map i j" "rmap r ! nat i ! nat j = 1" for i j
    using map_set_cell [OF _ r1(1) that(1)] that(2) ty r1(2) by (simp add: robot_type_def)
  ultimately show ?thesis using r2 run by (simp add: robot_keeps_def)
qed

lemma robot_move_keeps:
  assumes "robot_move x y" "robot_type (fst x)"
  shows "robot_keeps x y"
  using assms(1)
proof cases
  case (obstacle r r' b g)
  then show ?thesis using obstacle_keeps assms(2) by simp
next
  case (activation stuck r c st r' g' g b)
  then show ?thesis using activation_keeps assms(2) by simp
next
  case (mail r b g)
  then show ?thesis using assms(2) by (simp add: robot_keeps_def robot_type_def unvisited_def)
next
  case (drain r b g)
  then show ?thesis using assms(2) even_drain by (simp add: robot_keeps_def)
qed

lemma robot_keeps_trans: "robot_keeps x y \<Longrightarrow> robot_keeps y z \<Longrightarrow> robot_keeps x z"
  by (auto simp: robot_keeps_def split: prod.splits) 

lemma robot_moves_keep:
  assumes "robot_moves x y" "robot_type (fst x)"
  shows "robot_keeps x y"
  using assms
proof (induction rule: rtranclp_induct)
  case base
  then show ?case by (auto simp: robot_keeps_def split: prod.splits)
next
  case (step y z)
  then have "robot_type (fst y)" by (auto simp: robot_keeps_def split: prod.splits)
  then show ?case using robot_keeps_trans robot_move_keeps step by blast
qed

end
