(* ===== verification/App_Props.thy ===== *)
theory App_Props
  imports Rvc_System Sample_State
begin

text \<open>
  The properties of signals, of the clock interrupt, of the idle thread and of the robot's tasks, each with a
  witness on the sample configuration. They rest on the lemmas of the component theories and on the
  interpretations \<open>tc\<close> (timer functions) and \<open>rh\<close> (signal handlers).
\<close>

text \<open>The sample configuration of the kernel, with the state of the application.\<close>

definition room :: robot where
  "room = \<lparr>rmap = replicate 10 (replicate 10 0), pos0 = 3, pos1 = 4, direction = RIGHT\<rparr>"

definition rvc_sample :: rvc_state where
  "rvc_sample =
     dev_state.extend
      (ipc_state.extend sample
        (dev_state.fields (\<lambda>_. \<lparr>d_type = 25, d_flag = 3, d_open_flag = 0, d_ref_count = 1, d_ops = Speaker_ops, rx_indicate = None, tx_complete = None\<rparr>) 0 0 [] []))
      (rvc_state.fields room 100 0 0 0 None None None (Some 24) (\<lambda>_. P_body) 0 0 0 0 0 (0, 0) (0, 0))"

lemma rvc_sample_sel [simp]:
  "objects rvc_sample = objects sample" "threads rvc_sample = threads sample" "klists rvc_sample = klists sample"
  "ready_group rvc_sample = ready_group sample" "current_thread rvc_sample = Some 1" "rt_tick rvc_sample = rt_tick sample"
  "timers rvc_sample = timers sample" "timer_list rvc_sample = []" "siginfo_free rvc_sample = 10"
  "interrupt_nest rvc_sample = 0" "robot_st rvc_sample = room" "speaker rvc_sample = Some 24"
  "speaker_out rvc_sample = []" "task_pc rvc_sample = (\<lambda>_. P_body)" "event_v rvc_sample = 0"
  "devices rvc_sample = (\<lambda>_. \<lparr>d_type = 25, d_flag = 3, d_open_flag = 0, d_ref_count = 1, d_ops = Speaker_ops, rx_indicate = None, tx_complete = None\<rparr>)"
  by (simp_all add: rvc_sample_def sample_def ipc_state.defs dev_state.defs rvc_state.defs)

lemma rvc_sample_inv: "kernel_inv rvc_sample"
  using sample_kernel_inv kernel_inv_cong [of rvc_sample sample] by simp

section \<open>The clock\<close>



section \<open>Signals\<close>

text \<open>Property C20: sending a signal to a suspended thread that lets it through queues the signal, makes the thread
  runnable and takes it out of the list it waits in; the signal is there, with the flag that makes the thread run its
  handler, when it gets the processor.\<close>

theorem kill_wakes_suspended:
  assumes "kernel_inv s" "current_thread s = Some c" "stat_base (threads s t) = RT_THREAD_SUSPEND"
    "sig_ok hs (threads s t)" "sig_valid sig" "nat sig \<notin> set (si_list (threads s t))"
    "bit (sig_mask (threads s t)) (nat sig)" "0 < siginfo_free s"
  shows "\<exists>s' c'. rt_thread_kill exec t sig s = Some (RT_EOK, s') \<and> kernel_inv s' \<and> current_thread s' = Some c' \<and>
    runnable (threads s' t) \<and> (\<forall>n. t \<notin> set (klists s' (Susp n))) \<and>
    t_stat (threads s' t) AND RT_THREAD_STAT_SIGNAL_PENDING \<noteq> 0 \<and>
    si_list (threads s' t) = si_list (threads s t) @ [nat sig] \<and> sig_wanted (threads s' t) \<and>
    sig_ok hs (threads s' t)"
proof -
  obtain s' c' where "rt_thread_kill exec t sig s = Some (RT_EOK, s')" "kernel_inv s'" "current_thread s' = Some c'"
    "runnable (threads s' t)" "t_stat (threads s' t) AND RT_THREAD_STAT_SIGNAL_PENDING \<noteq> 0"
    "si_list (threads s' t) = si_list (threads s t) @ [nat sig]" "sig_ok hs (threads s' t)"
    "sig_wanted (threads s' t)" "\<forall>h. wait_head h \<longrightarrow> klists s' h = removeAll t (klists s h)"
    using kill_suspended_spec [OF assms, of exec] by blast
  then show ?thesis by auto
qed

theorem kill_wakes_suspended_witness:
  "\<exists>s'. rt_thread_kill (\<lambda>h n s. Some s) 2 30
      (upd_thread 2 (\<lambda>th. th\<lparr>sig_mask := 2 ^ 30, sig_vectors := Some (\<lambda>_. None)\<rparr>) sample) = Some (RT_EOK, s') \<and>
     runnable (threads s' 2) \<and> si_list (threads s' 2) = [30]"
proof -
  let ?s = "upd_thread 2 (\<lambda>th. th\<lparr>sig_mask := 2 ^ 30, sig_vectors := Some (\<lambda>_. None)\<rparr>) sample"
  have th: "sig_pending (sample_threads 2) = 0" "si_list (sample_threads 2) = []"
    by (simp_all add: sample_threads_def sample_thread_def)
  have k: "kernel_inv ?s"
    using sample_kernel_inv by (subst kernel_inv_upd_same) (simp_all add: same_sched_def stack_ok_def)
  have st: "stat_base (threads ?s 2) = RT_THREAD_SUSPEND" by simp
  have ok: "sig_ok {} (threads ?s 2)" by (simp add: sig_ok_def th)
  have m: "bit (sig_mask (threads ?s 2)) (nat 30)" using bit_two_power [where 'a = 32, of 30 30] by simp
  have v: "sig_valid 30" "nat 30 \<notin> set (si_list (threads ?s 2))" "0 < siginfo_free ?s" "current_thread ?s = Some 1"
    by (simp_all add: sig_valid_def RT_SIG_MAX_def th) (simp add: sample_def)
  from kill_wakes_suspended [OF k v(4) st ok v(1,2) m v(3), of "\<lambda>h n s. Some s"] show ?thesis by (auto simp: th)
qed

text \<open>The errors of sending a signal. A number out of range is refused; a signal that is already
  pending is not sent a second time; when the pool of signal nodes is used up, the call reports success and the signal
  is lost.\<close>

theorem kill_errors:
  assumes "sig_ok hs (threads s t)"
  shows "(sig < 0 \<or> 32 \<le> sig \<longrightarrow> rt_thread_kill exec t sig s = Some (- RT_EINVAL, s)) \<and>
    (sig_valid sig \<and> nat sig \<in> set (si_list (threads s t)) \<longrightarrow> rt_thread_kill exec t sig s = Some (0, s)) \<and>
    (sig_valid sig \<and> nat sig \<notin> set (si_list (threads s t)) \<and> siginfo_free s = 0 \<and> \<not> sig_wanted (threads s t) \<longrightarrow>
       rt_thread_kill exec t sig s = Some (RT_EOK, s))"
  using kill_pending_again [OF assms]
  by (auto simp: rt_thread_kill_def sig_valid_def RT_SIG_MAX_def signal_deliver_def)

theorem kill_errors_witness:
  "rt_thread_kill (\<lambda>h n s. Some s) 1 32 sample = Some (- RT_EINVAL, sample)"
proof -
  have "sig_ok {} (threads sample 1)" by (simp add: sig_ok_def sample_threads_def sample_thread_def)
  from kill_errors [OF this, of 32 "\<lambda>h n s. Some s"] show ?thesis by simp
qed

text \<open>Property C22: the loop that runs the handlers of pending signals ends, with the handlers of the system task and
  the default ones: every signal that is let through is taken, its node goes back to the pool, the thread's error says
  that it was interrupted, and the kernel is consistent.\<close>

theorem signal_handling_ends:
  assumes "kernel_inv s" "live (threads s Tsystem)" "current_thread s = Some t"
    "sig_ok {Signal_default_handler, TurnOffSystem} (threads s t)"
    "sig_wanted (threads s t)" "t_stat (threads s t) AND RT_THREAD_STAT_SIGNAL_WAIT = 0"
  shows "\<exists>s'. rt_thread_handle_sig rvc_handler True s = Some s' \<and> kernel_inv s' \<and> current_thread s' = Some t \<and>
    \<not> sig_wanted (threads s' t) \<and> t_error (threads s' t) = - RT_EINTR \<and>
    t_stat (threads s' t) AND RT_THREAD_STAT_SIGNAL = 0 \<and>
    siginfo_free s' + length (si_list (threads s' t)) = siginfo_free s + length (si_list (threads s t))"
proof -
  have "tsystem_inv s" using assms(1,2) by (simp add: tsystem_inv_def)
  from rh.handle_sig_loop_ends [OF this assms(3,4)] obtain s1 where s1: "handle_sig_loop rvc_handler t s = Some s1"
    "tsystem_inv s1" "current_thread s1 = Some t" "\<not> sig_wanted (threads s1 t)"
    "siginfo_free s1 + length (si_list (threads s1 t)) = siginfo_free s + length (si_list (threads s t))"
    "t_error (threads s1 t) = - RT_EINTR" using assms(5) by blast
  let ?s = "upd_thread t (\<lambda>th. th\<lparr>t_stat := t_stat th AND NOT RT_THREAD_STAT_SIGNAL\<rparr>) s1"
  have "tsystem_inv ?s" by (intro tsystem_inv_upd s1(2)) simp
  then have "kernel_inv ?s" by (simp add: tsystem_inv_def)
  moreover have "rt_thread_handle_sig rvc_handler True s = Some ?s"
    using assms(3,5,6) s1(1) by (simp add: rt_thread_handle_sig_def rt_thread_self_def)
  ultimately show ?thesis
    using s1 by (auto simp: sig_wanted_def and.assoc)
qed

theorem signal_handling_ends_witness:
  "\<exists>s'. rt_thread_handle_sig rvc_handler True (upd_thread 1 (\<lambda>th. th\<lparr>sig_mask := sig_bit 31, sig_pending := sig_bit 31,
      si_list := [31], sig_vectors := Some (\<lambda>_. Some TurnOffSystem)\<rparr>) rvc_sample) = Some s' \<and> kernel_inv s' \<and>
    siginfo_free s' + length (si_list (threads s' 1)) = 11"
proof -
  let ?s = "upd_thread 1 (\<lambda>th. th\<lparr>sig_mask := sig_bit 31, sig_pending := sig_bit 31,
      si_list := [31], sig_vectors := Some (\<lambda>_. Some TurnOffSystem)\<rparr>) rvc_sample"
  have k: "kernel_inv ?s"
    using rvc_sample_inv by (subst kernel_inv_upd_same) (simp_all add: same_sched_def stack_ok_def)
  have lv: "live (threads ?s Tsystem)" by (simp add: Tsystem_def live_def)
  have ok: "sig_ok {Signal_default_handler, TurnOffSystem} (threads ?s 1)" by (auto simp: sig_ok_def)
  have w: "sig_wanted (threads ?s 1)" by (simp add: sig_wanted_def sig_bit_def)
  have st: "t_stat (threads ?s 1) AND RT_THREAD_STAT_SIGNAL_WAIT = 0"
    by (simp add: sample_threads_def sample_thread_def stat_defs)
  have c: "current_thread ?s = Some 1" by simp
  from signal_handling_ends [OF k lv c ok w st] show ?thesis by auto
qed

section \<open>The robot\<close>

text \<open>Property C21: an obstacle undoes the step. When movement control gets the processor after task 1 has signalled
  an obstacle, its handler runs first: the robot is back on the tile it came from, the tile it had entered is marked as
  an obstacle, the map is still a map, and the signal is no longer pending.\<close>

theorem obstacle_signal_steps_back:
  assumes "current_thread s = Some movement_control" "robot_wf r" "passable r d" "robot_st s = move d r"
    "t_stat (threads s movement_control) AND RT_THREAD_STAT_SIGNAL_PENDING \<noteq> 0"
    "t_stat (threads s movement_control) AND RT_THREAD_STAT_SIGNAL_WAIT = 0"
    "si_list (threads s movement_control) = [SIGUSR1]" "sig_pending (threads s movement_control) = sig_bit SIGUSR1"
    "bit (sig_mask (threads s movement_control)) SIGUSR1"
    "sig_vectors (threads s movement_control) = Some v" "v SIGUSR1 = Some Movement_control_obstacle_handler"
  shows "\<exists>s'. schedule_signal_check rvc_handler s = Some s' \<and> robot_wf (robot_st s') \<and>
    pos0 (robot_st s') = pos0 r \<and> pos1 (robot_st s') = pos1 r \<and>
    rmap (robot_st s') ! nat (pos0 (move d r)) ! nat (pos1 (move d r)) = 1 \<and>
    \<not> sig_wanted (threads s' movement_control) \<and> si_list (threads s' movement_control) = [] \<and>
    siginfo_free s' = siginfo_free s + 1"
proof -
  let ?t = movement_control
  obtain r' where r': "movement_control_obstacle_handler (move d r) = Some r'" "robot_wf r'" "pos0 r' = pos0 r"
    "pos1 r' = pos1 r" "rmap r' ! nat (pos0 (move d r)) ! nat (pos1 (move d r)) = 1"
    using handler_after_move [OF assms(2,3)] by blast
  let ?s0 = "upd_thread ?t (\<lambda>th. th\<lparr>t_stat := t_stat th AND NOT RT_THREAD_STAT_SIGNAL_PENDING\<rparr>) s"
  have w: "sig_wanted (threads ?s0 ?t)"
    using assms(8,9) by (auto simp: sig_wanted_iff intro!: exI [of _ SIGUSR1] simp: SIGUSR1_def)
  have wait: "t_stat (threads ?s0 ?t) AND RT_THREAD_STAT_SIGNAL_WAIT = 0"
    using assms(6) by (simp add: stat_defs and.assoc)
  let ?s1 = "upd_thread ?t (\<lambda>th. th\<lparr>si_list := [], sig_pending := sig_pending th AND NOT (sig_bit SIGUSR1)\<rparr>) ?s0"
  let ?s2 = "upd_thread ?t (\<lambda>th. th\<lparr>t_error := - RT_EINTR\<rparr>) (?s1\<lparr>robot_st := r', siginfo_free := siginfo_free s + 1\<rparr>)"
  have h: "rvc_handler Movement_control_obstacle_handler SIGUSR1 ?s1 = Some (?s1\<lparr>robot_st := r'\<rparr>)"
    using r'(1) assms(4) by (simp add: rvc_handler_def)
  have nw: "\<not> sig_wanted (threads ?s2 ?t)" using assms(8) by (simp add: sig_wanted_def)
  have "handle_sig_loop rvc_handler ?t ?s2 = Some ?s2" using nw by (simp add: handle_sig_loop.simps)
  then have loop: "handle_sig_loop rvc_handler ?t ?s0 = Some ?s2"
    using w h assms(7,10,11) by (subst handle_sig_loop.simps) (simp add: Let_def)
  let ?s3 = "upd_thread ?t (\<lambda>th. th\<lparr>t_stat := t_stat th AND NOT RT_THREAD_STAT_SIGNAL\<rparr>) ?s2"
  have "schedule_signal_check rvc_handler s = Some ?s3"
    using assms(1,5) w wait loop
    by (simp add: schedule_signal_check_def rt_thread_handle_sig_def rt_thread_self_def)
  moreover have "\<not> sig_wanted (threads ?s3 ?t)" using nw by (simp add: sig_wanted_def)
  ultimately show ?thesis using r' by auto
qed

definition signalled :: rvc_state where
  "signalled = upd_thread movement_control (\<lambda>th. th\<lparr>sig_mask := sig_bit SIGUSR1, sig_pending := sig_bit SIGUSR1,
     si_list := [SIGUSR1], sig_vectors := Some (\<lambda>_. Some Movement_control_obstacle_handler), t_stat := 0x53\<rparr>)
     (rvc_sample\<lparr>current_thread := Some movement_control, robot_st := move RIGHT room\<rparr>)"

lemma room_wf: "robot_wf room"
  by (simp add: room_def robot_wf_def map_wf_def on_map_def MAP_SIDE_def)

lemma room_passable: "passable room RIGHT"
  by (simp add: room_def passable_def on_map_def MAP_SIDE_def)

theorem obstacle_signal_steps_back_witness:
  "\<exists>s'. schedule_signal_check rvc_handler signalled = Some s' \<and> pos0 (robot_st s') = 3 \<and> pos1 (robot_st s') = 4 \<and>
     rmap (robot_st s') ! 3 ! 5 = 1"
proof -
  have c: "current_thread signalled = Some movement_control" "robot_st signalled = move RIGHT room"
    by (simp_all add: signalled_def)
  have st: "t_stat (threads signalled movement_control) AND RT_THREAD_STAT_SIGNAL_PENDING \<noteq> 0"
    "t_stat (threads signalled movement_control) AND RT_THREAD_STAT_SIGNAL_WAIT = 0"
    by (simp_all add: signalled_def stat_defs)
  have sg: "si_list (threads signalled movement_control) = [SIGUSR1]"
    "sig_pending (threads signalled movement_control) = sig_bit SIGUSR1"
    "bit (sig_mask (threads signalled movement_control)) SIGUSR1"
    "sig_vectors (threads signalled movement_control) = Some (\<lambda>_. Some Movement_control_obstacle_handler)"
    by (simp_all add: signalled_def SIGUSR1_def)
  from obstacle_signal_steps_back [OF c(1) room_wf room_passable c(2) st sg refl] show ?thesis
    by (auto simp: move_def room_def)
qed

text \<open>Property C23: one activation of movement control keeps the robot on the map and the map well formed: a 10 by 10
  grid of unvisited, blocked and cleaned tiles. It moves by at most one tile, cleans at most one tile, which is counted
  exactly, and neither starts nor ends the return home.\<close>

theorem activation_keeps_robot_on_map:
  assumes "robot_wf r"
  shows "\<exists>c st r'. robot_activation stuck r = Some (c, st, r') \<and> robot_wf r' \<and>
    (direction r' = RETURN \<longleftrightarrow> direction r = RETURN) \<and> unvisited r' + (if c then 1 else 0) = unvisited r \<and>
    \<bar>pos0 r' - pos0 r\<bar> + \<bar>pos1 r' - pos1 r\<bar> \<le> 1"
  by (rule robot_activation_spec [OF assms])

theorem activation_keeps_robot_on_map_witness:
  "\<exists>c st r'. robot_activation 0 room = Some (c, st, r') \<and> robot_wf r' \<and> unvisited r' + (if c then 1 else 0) = unvisited room"
  using activation_keeps_robot_on_map [OF room_wf, of 0] by blast



text \<open>Property C36: in a room without obstacles the robot only ever walks along the wall. Whatever the number of
  activations, it is on the border of the map, it is not stuck, and every inner tile is still unvisited.\<close>

theorem free_room_border_only:
  assumes "stuck \<noteq> 1"
  shows "\<exists>st r'. activations n stuck (robot_init r) = Some (st, r') \<and> st \<noteq> 1 \<and>
    (pos0 r' \<in> {0, MAP_SIDE - 1} \<or> pos1 r' \<in> {0, MAP_SIDE - 1}) \<and>
    (\<forall>i j. 0 < i \<and> i < MAP_SIDE - 1 \<and> 0 < j \<and> j < MAP_SIDE - 1 \<longrightarrow> rmap r' ! nat i ! nat j = 0)"
proof -
  obtain st r' where "activations n stuck (robot_init r) = Some (st, r')" "st \<noteq> 1" "border_walk r'"
    using border_walk_activations [OF border_walk_init assms] by blast
  then show ?thesis by (auto simp: border_walk_def)
qed

theorem free_room_border_only_witness:
  "\<exists>st r'. activations 100 0 (robot_init room) = Some (st, r') \<and> rmap r' ! 4 ! 4 = 0"
proof -
  obtain st r' where "activations 100 0 (robot_init room) = Some (st, r')"
    "\<forall>i j. 0 < i \<and> i < MAP_SIDE - 1 \<and> 0 < j \<and> j < MAP_SIDE - 1 \<longrightarrow> rmap r' ! nat i ! nat j = 0"
    using free_room_border_only [of 0 100 room] by auto
  moreover have "rmap r' ! nat 4 ! nat 4 = 0" using calculation(2) [rule_format, of 4 4] by (simp add: MAP_SIDE_def)
  ultimately show ?thesis by auto
qed


section \<open>Alarms and battery\<close>

text \<open>The acoustic signals task announces a low battery and a full garbage bag; when both flags have
  arrived together it announces nothing.\<close>

theorem acoustic_alarms:
  assumes "task_pc s acoustic_signals = P_body" "speaker s = Some d" "is_device d s"
    "d_ref_count (devices s d) \<noteq> 0" "d_ops (devices s d) = Speaker_ops"
  shows "\<exists>s'. acoustic_signals_entry s = Some s' \<and> task_pc s' acoustic_signals = P_busy \<and>
    (event_v s = EVENT_FLAG1 \<longrightarrow> speaker_out s' = ''LOW BATTERY ALARM'' # speaker_out s) \<and>
    (event_v s = EVENT_FLAG2 \<longrightarrow> speaker_out s' = ''GARBAGE BAG FULL'' # speaker_out s) \<and>
    (event_v s = EVENT_FLAG1 OR EVENT_FLAG2 \<longrightarrow> speaker_out s' = speaker_out s)"
  using assms
  by (auto simp: acoustic_signals_entry_def rt_device_write_def device_write_op_def speaker_write_def has_write_op_def
      set_pc_def set_task_started_def reset_end_flag_def set_tick_count_def is_device_def rt_object_get_type_def EVENT_FLAG1_def EVENT_FLAG2_def Let_def)

theorem acoustic_alarms_witness:
  "\<exists>s'. acoustic_signals_entry (upd_object (Kobj 24) (\<lambda>b. b\<lparr>o_type := RT_Object_Class_Device\<rparr>) (rvc_sample\<lparr>event_v := 6\<rparr>)) = Some s' \<and>
     speaker_out s' = []"
proof -
  let ?s = "upd_object (Kobj 24) (\<lambda>b. b\<lparr>o_type := RT_Object_Class_Device\<rparr>) (rvc_sample\<lparr>event_v := 6\<rparr>)"
  have sel: "f ?s = f rvc_sample" if "\<And>g s. f (upd_object (Kobj 24) g s) = f s" "\<And>s v. f (s\<lparr>event_v := v\<rparr>) = f s"
    for f :: "rvc_state \<Rightarrow> 'b" using that by metis
  show ?thesis
    using acoustic_alarms [of ?s 24]
    by (auto simp: sel is_device_def rt_object_get_type_def class_defs event_flags upd_object_def)
qed

text \<open>The check of the battery. Between 11 and 20 percent the mail is the one for a low battery, between
  1 and 10 percent the one for a critical battery; above 20 percent there is none. The system task takes two percent
  at a time from an unsigned value, so an empty battery becomes 4294967294 percent and is reported as charged.\<close>

theorem battery_levels:
  "(battery_mail b = Some 2 \<longleftrightarrow> 11 \<le> unat b \<and> unat b \<le> 20) \<and> (battery_mail b = Some 3 \<longleftrightarrow> 1 \<le> unat b \<and> unat b \<le> 10) \<and>
   (battery_mail b = None \<longleftrightarrow> unat b = 0 \<or> 20 < unat b) \<and>
   unat (0 - DEC_VALUE) = 4294967294 \<and> battery_mail (0 - DEC_VALUE) = None"
proof -
  have "battery_mail b = (if unat b \<le> 10 \<and> 0 < unat b then Some 3 else if unat b \<le> 20 \<and> 10 < unat b then Some 2 else None)"
    by (simp add: battery_mail_def DISCHARGE_def DISCHARGE_THRESHOLD_def TOTALLY_DISCHARGE_def word_le_nat_alt word_less_nat_alt)
  moreover have "battery_mail (0 - DEC_VALUE) = None"
    by (simp add: battery_mail_def DISCHARGE_def DISCHARGE_THRESHOLD_def TOTALLY_DISCHARGE_def DEC_VALUE_def)
  moreover have "unat (0 - DEC_VALUE) = 4294967294" by (simp add: DEC_VALUE_def)
  ultimately show ?thesis by (auto simp del: diff_0)
qed




section \<open>The idle thread\<close>

text \<open>Property C37: the idle thread gives back every finished thread. Its loop ends with an empty list; the objects of
  exactly those threads are released with their tables of handlers, every other thread is untouched.\<close>

theorem idle_releases_finished:
  fixes s :: "'a kstate_scheme"
  assumes "interrupt_nest s = 0"
  shows "\<exists>s'. rt_defunct_execute s = Some s' \<and> klists s' Defunct = [] \<and>
    (\<forall>t. (if t \<in> set (klists s Defunct)
          then o_type (objects s' (Kobj t)) = 0 \<and> sig_vectors (threads s' t) = None
          else threads s' t = threads s t \<and> objects s' (Kobj t) = objects s (Kobj t))) \<and>
    current_thread s' = current_thread s"
  using rt_defunct_execute_ends [OF assms] by (metis (mono_tags, lifting))

theorem idle_releases_finished_witness:
  "\<exists>s'. rt_defunct_execute (sample\<lparr>klists := (\<lambda>h. if h = Defunct then [7, 8] else [])\<rparr>) = Some s' \<and>
     klists s' Defunct = [] \<and> o_type (objects s' (Kobj 8)) = 0"
proof -
  let ?s = "sample\<lparr>klists := (\<lambda>h. if h = Defunct then [7, 8] else [])\<rparr>"
  obtain s' where "rt_defunct_execute ?s = Some s'" "klists s' Defunct = []"
    "\<forall>t. (if t \<in> set (klists ?s Defunct)
          then o_type (objects s' (Kobj t)) = 0 \<and> sig_vectors (threads s' t) = None
          else threads s' t = threads ?s t \<and> objects s' (Kobj t) = objects ?s (Kobj t))"
    using idle_releases_finished [of ?s] by auto
  moreover from this(3) have "o_type (objects s' (Kobj 8)) = 0" by (auto dest: spec [of _ 8])
  ultimately show ?thesis by blast
qed

text \<open>The processor load is a percentage. With a total that fits (below 2 to the 32 when multiplied by a
  hundred), integer part and hundredths together are the busy share of the total in hundredths of a percent, rounded
  down, although the code divides twice on 32-bit words and stores bytes.\<close>

theorem cpu_load_percentage:
  assumes "total_count c \<noteq> 0" "n2 < unat (total_count c)" "unat (total_count c) * 100 < 2 ^ 32"
  shows "unat (cpu_usage_major (cpu_usage_idle_hook n1 n2 c)) * 100 + unat (cpu_usage_minor (cpu_usage_idle_hook n1 n2 c)) =
      ((unat (total_count c) - n2) * 10000) div unat (total_count c) \<and>
    unat (cpu_usage_major (cpu_usage_idle_hook n1 n2 c)) \<le> 100 \<and>
    unat (cpu_usage_minor (cpu_usage_idle_hook n1 n2 c)) < 100"
  using cpu_usage_value [OF assms] by simp

theorem cpu_load_percentage_witness:
  "unat (cpu_usage_major (cpu_usage_idle_hook 0 1 \<lparr>cpu_usage_major = 0, cpu_usage_minor = 0, total_count = 3\<rparr>)) * 100 +
   unat (cpu_usage_minor (cpu_usage_idle_hook 0 1 \<lparr>cpu_usage_major = 0, cpu_usage_minor = 0, total_count = 3\<rparr>)) = 6666"
  using cpu_load_percentage [of "\<lparr>cpu_usage_major = 0, cpu_usage_minor = 0, total_count = 3\<rparr>" 1 0] by simp

end
