(* ===== verification/Machine_Props.thy ===== *)
theory Machine_Props
  imports Machine App_Props
begin

text \<open>
  The properties of the whole machine: of every state it reaches once it is set up, in whatever order the
  threads run and whenever the clock interrupts them.
\<close>

text \<open>Property C2: every step of the machine is a sequence of moves of the abstract robot. Once the system is set up,
  whichever thread has the processor, whatever signals it handles and whenever the clock interrupts, robot, battery and
  garbage bag change only by an obstacle, the order to come home, an activation of movement control, or the loss of two
  percent of charge; and the system stays set up.\<close>

theorem machine_refines_robot:
  assumes "rvc_step e s s'" "ready_to_run s"
  shows "ready_to_run s' \<and> robot_move\<^sup>*\<^sup>* (app s) (app s')"
  by (rule step_refines [OF assms])

lemma rvc_sample_ready: "ready_to_run rvc_sample"
  by (simp add: ready_to_run_def late_def)

definition sample_env :: env where
  "sample_env = \<lparr>rnd = (\<lambda>_. 1), pin_level = (\<lambda>_ _. 0), heap_ok = True, addr_prio = (\<lambda>_. 0), addr_orig = (\<lambda>_. 0),
     mail_addr = of_nat, stack_of = (\<lambda>_. 0x20000000), mb_pool = (\<lambda>_ _. 0)\<rparr>"

lemma rvc_sample_step: "\<exists>s'. rvc_step sample_env rvc_sample s' \<and> rt_tick s' = 101"
proof -
  have e: "event_inv event_tasks_activation rvc_sample"
    using sample_event by (simp add: event_inv_def rt_object_get_type_def event_tasks_activation_def)
  have "tick_inv rvc_sample" using rvc_sample_inv e by (simp add: tick_inv_def)
  moreover have "timers_ahead rvc_sample"
    by (simp add: timers_ahead_def) (simp add: rvc_sample_def sample_def ipc_state.defs dev_state.defs rvc_state.defs)
  ultimately obtain s' where s': "SysTick_Handler rvc_sample = Some s'" "rt_tick s' = rt_tick rvc_sample + 1"
    using SysTick_runs by blast
  then have "rvc_step sample_env rvc_sample s'" by (intro rvc_step.clock)
  then show ?thesis using s'(2) by auto
qed

theorem machine_refines_robot_witness:
  "\<exists>s'. rvc_step sample_env rvc_sample s' \<and> rt_tick s' = 101 \<and> robot_move\<^sup>*\<^sup>* (app rvc_sample) (app s')"
  using rvc_sample_step machine_refines_robot [OF _ rvc_sample_ready] by blast

text \<open>Property C9: in every reachable state the map is a 10 by 10 grid of unvisited, blocked and cleaned tiles and the
  robot is on it or one step off its edge; a tile once found blocked stays blocked; a robot on its way home stays on its
  way home; no tile is counted twice in the garbage bag; and the charge of the battery stays even.\<close>

theorem machine_invariant:
  assumes "reachable e s s'" "ready_to_run s" "robot_type (robot_st s)"
  shows "robot_type (robot_st s') \<and>
    (\<forall>i j. on_map i j \<and> rmap (robot_st s) ! nat i ! nat j = 1 \<longrightarrow> rmap (robot_st s') ! nat i ! nat j = 1) \<and>
    (direction (robot_st s) = RETURN \<longrightarrow> direction (robot_st s') = RETURN) \<and>
    garbage_bag_value s' + int (unvisited (robot_st s')) \<le> garbage_bag_value s + int (unvisited (robot_st s)) \<and>
    (even (unat (batteryStatus s)) \<longrightarrow> even (unat (batteryStatus s')))"
proof -
  have "robot_moves (app s) (app s')" using reachable_refines [OF assms(1,2)] by blast
  then have "robot_keeps (app s) (app s')" using robot_moves_keep assms(3) by (simp add: app_def)
  then show ?thesis by (simp add: robot_keeps_def app_def)
qed

theorem machine_invariant_witness:
  "\<exists>s'. reachable sample_env rvc_sample s' \<and> rt_tick s' = 101 \<and> robot_type (robot_st s') \<and>
     even (unat (batteryStatus s'))"
proof -
  obtain s' where s': "rvc_step sample_env rvc_sample s'" "rt_tick s' = 101" using rvc_sample_step by blast
  have r: "reachable sample_env rvc_sample s'" using s'(1) reachable.start reachable.step by blast
  have ty: "robot_type (robot_st rvc_sample)"
    using room_wf by (simp add: robot_type_def robot_wf_def) (simp add: room_def MAP_SIDE_def)
  have "batteryStatus rvc_sample = 100"
    by (simp add: rvc_sample_def ipc_state.defs dev_state.defs rvc_state.defs)
  then show ?thesis using machine_invariant [OF r rvc_sample_ready ty] r s'(2) by auto
qed

end
