(* ===== verification/Ring.thy ===== *)
theory Ring
  imports Kernel_Prelude
begin

text \<open>
  Doubly linked rings of nodes of any kind: the links as two functions, chains of nodes between two ends, and what
  linking and unlinking a node does to a chain. The lists of threads and the two lists of the memory heap are such
  rings.
\<close>

record 'n ring =
  next_of :: "'n \<Rightarrow> 'n"
  prev_of :: "'n \<Rightarrow> 'n"

definition set_next :: "'n \<Rightarrow> 'n \<Rightarrow> 'n ring \<Rightarrow> 'n ring" where
  "set_next a v m = m\<lparr>next_of := (next_of m)(a := v)\<rparr>"

definition set_prev :: "'n \<Rightarrow> 'n \<Rightarrow> 'n ring \<Rightarrow> 'n ring" where
  "set_prev a v m = m\<lparr>prev_of := (prev_of m)(a := v)\<rparr>"

lemma ring_upd_sel [simp]:
  "next_of (set_next a v m) = (next_of m)(a := v)" "prev_of (set_next a v m) = prev_of m"
  "next_of (set_prev a v m) = next_of m" "prev_of (set_prev a v m) = (prev_of m)(a := v)"
  by (simp_all add: set_next_def set_prev_def)

section \<open>Chains of nodes\<close>

text \<open>From \<open>a\<close> through the given nodes to \<open>b\<close>, linked both ways.\<close>

fun chain :: "'n ring \<Rightarrow> 'n \<Rightarrow> 'n list \<Rightarrow> 'n \<Rightarrow> bool" where
  "chain m a [] b \<longleftrightarrow> next_of m a = b \<and> prev_of m b = a"
| "chain m a (x # xs) b \<longleftrightarrow> next_of m a = x \<and> prev_of m x = a \<and> chain m x xs b"

lemma chain_append: "chain m a (xs @ y # ys) b \<longleftrightarrow> chain m a xs y \<and> chain m y ys b"
  by (induction xs arbitrary: a) auto

lemma chain_cong:
  assumes "\<And>x. x \<in> set (a # xs) \<Longrightarrow> next_of m' x = next_of m x" "\<And>x. x \<in> set (xs @ [b]) \<Longrightarrow> prev_of m' x = prev_of m x"
  shows "chain m' a xs b = chain m a xs b"
  using assms by (induction xs arbitrary: a) auto

text \<open>A node between two neighbours, and the two neighbours without it.\<close>

definition link :: "'n \<Rightarrow> 'n \<Rightarrow> 'n \<Rightarrow> 'n ring \<Rightarrow> 'n ring" where
  "link p n q m = m\<lparr>next_of := (next_of m)(p := n, n := q), prev_of := (prev_of m)(q := n, n := p)\<rparr>"

definition unlink :: "'n \<Rightarrow> 'n \<Rightarrow> 'n \<Rightarrow> 'n ring \<Rightarrow> 'n ring" where
  "unlink p n q m = m\<lparr>next_of := (next_of m)(p := q, n := n), prev_of := (prev_of m)(q := p, n := n)\<rparr>"

lemma chain_link:
  assumes "chain m h (xs @ ys) h" "distinct (h # xs @ ys)" "n \<notin> set (h # xs @ ys)"
  shows "chain (link (last (h # xs)) n (hd (ys @ [h])) m) h (xs @ n # ys) h"
proof -
  let ?p = "last (h # xs)" and ?q = "hd (ys @ [h])"
  let ?m = "link ?p n ?q m"
  have np: "?p \<notin> set ys" using assms(2) by (cases xs rule: rev_cases) auto
  have pq: "chain m h xs ?q \<and> (ys \<noteq> [] \<longrightarrow> chain m ?q (tl ys) h)"
    using assms(1) chain_append [of m h xs "hd ys" "tl ys" h] by (cases ys) auto
  have left: "chain ?m h xs n"
  proof (cases xs rule: rev_cases)
    case (snoc as p)
    have "chain m h as p" using pq chain_append [of m h as p "[]" ?q] snoc by simp
    moreover have "chain ?m h as p = chain m h as p"
      using assms(2,3) snoc by (intro chain_cong) (cases ys, auto simp: link_def)+
    ultimately show ?thesis
      using assms(3) snoc chain_append [of ?m h as p "[]" n] by (auto simp: link_def)
  qed (use assms(3) in \<open>auto simp: link_def\<close>)
  have right: "chain ?m n ys h"
  proof (cases ys)
    case (Cons q bs)
    have "chain m q bs h" using pq Cons by simp
    moreover have "chain ?m q bs h = chain m q bs h"
      using assms(2,3) Cons np by (intro chain_cong) (auto simp: link_def split: if_splits)
    ultimately show ?thesis using assms(3) Cons by (auto simp: link_def)
  qed (use assms(3) in \<open>auto simp: link_def\<close>)
  show ?thesis using left right by (simp add: chain_append)
qed

lemma chain_unlink:
  assumes "chain m h (xs @ n # ys) h" "distinct (h # xs @ n # ys)"
  shows "chain (unlink (last (h # xs)) n (hd (ys @ [h])) m) h (xs @ ys) h"
proof -
  let ?p = "last (h # xs)" and ?q = "hd (ys @ [h])"
  let ?m = "unlink ?p n ?q m"
  have np: "?p \<notin> set ys" using assms(2) by (cases xs rule: rev_cases) auto
  have ch: "chain m h xs n" "chain m n ys h" using assms(1) by (simp_all add: chain_append)
  have left: "chain ?m h xs ?q"
  proof (cases xs rule: rev_cases)
    case (snoc as p)
    have "chain m h as p" using ch(1) chain_append [of m h as p "[]" n] snoc by simp
    moreover have "chain ?m h as p = chain m h as p"
      using assms(2) snoc by (intro chain_cong) (cases ys, auto simp: unlink_def)+
    moreover have "next_of ?m p = ?q" "prev_of ?m ?q = p" using assms(2) snoc by (cases ys, auto simp: unlink_def)+
    ultimately show ?thesis using snoc chain_append [of ?m h as p "[]" ?q] by auto
  qed (use assms(2) in \<open>cases ys, auto simp: unlink_def\<close>)
  show ?thesis
  proof (cases ys)
    case (Cons q bs)
    have "chain m q bs h" using ch(2) Cons by simp
    moreover have "chain ?m q bs h = chain m q bs h"
      using assms(2) Cons np by (intro chain_cong) (auto simp: unlink_def split: if_splits)
    ultimately show ?thesis using left Cons chain_append [of ?m h xs q bs h] by auto
  qed (use left in simp)
qed

lemma chain_last: "chain m a xs b \<Longrightarrow> prev_of m b = last (a # xs)"
  by (induction xs arbitrary: a) auto

lemma chain_hd: "chain m a xs b \<Longrightarrow> next_of m a = hd (xs @ [b])"
  by (cases xs) auto

text \<open>A node is taken out by linking its neighbours; what its own links become does not matter.\<close>

lemma chain_drop:
  assumes "chain m h (xs @ n # ys) h" "distinct (h # xs @ n # ys)"
    "\<And>x. x \<noteq> n \<Longrightarrow> next_of m' x = ((next_of m)(last (h # xs) := hd (ys @ [h]))) x"
    "\<And>x. x \<noteq> n \<Longrightarrow> prev_of m' x = ((prev_of m)(hd (ys @ [h]) := last (h # xs))) x"
  shows "chain m' h (xs @ ys) h"
proof -
  have "chain m' h (xs @ ys) h = chain (unlink (last (h # xs)) n (hd (ys @ [h])) m) h (xs @ ys) h"
    by (rule chain_cong) (use assms(2-4) in \<open>auto simp: unlink_def\<close>)
  then show ?thesis using chain_unlink [OF assms(1,2)] by simp
qed

lemma chain_links:
  assumes "chain m h (xs @ n # ys) h"
  shows "next_of m n = hd (ys @ [h])" "prev_of m n = last (h # xs)" "prev_of m (hd (ys @ [h])) = n" "next_of m (last (h # xs)) = n"
proof -
  have ch: "chain m h xs n" "chain m n ys h" using assms by (simp_all add: chain_append)
  show "next_of m n = hd (ys @ [h])" using chain_hd [OF ch(2)] .
  show "prev_of m n = last (h # xs)" using chain_last [OF ch(1)] .
  show "prev_of m (hd (ys @ [h])) = n" using ch(2) by (cases ys) auto
  show "next_of m (last (h # xs)) = n"
    using ch(1) chain_append [of m h "butlast xs" "last xs" "[]" n] by (cases "xs = []") auto
qed

end
