(* ===== verification/Klist.thy ===== *)
theory Klist
  imports Scheduler Ring
begin

text \<open>
  The doubly linked lists of the kernel (\<^verbatim>\<open>rt-thread/include/rtservice.h\<close>), with their pointers. Everywhere else in the
  development the lists of threads are the lists \<open>klists\<close>; here it is shown that the pointer operations do to the
  nodes in memory what the operations on \<open>klists\<close> do to those lists. In particular, unlinking a node needs no list
  head: it takes the thread out of whichever list holds it, and does nothing to a node that is in none.
\<close>

text \<open>A node is the head of a list or the \<^verbatim>\<open>tlist\<close> node of a thread.\<close>

datatype lnode = Head lhead | Node nat

type_synonym list_mem = "lnode ring"

definition rt_list_init :: "lnode \<Rightarrow> list_mem \<Rightarrow> list_mem" where
  "rt_list_init l m = set_next l l (set_prev l l m)"

definition rt_list_insert_after :: "lnode \<Rightarrow> lnode \<Rightarrow> list_mem \<Rightarrow> list_mem" where
  "rt_list_insert_after l n m =
     (let m1 = set_prev (next_of m l) n m;
          m2 = set_next n (next_of m1 l) m1;
          m3 = set_next l n m2
      in set_prev n l m3)"

definition rt_list_insert_before :: "lnode \<Rightarrow> lnode \<Rightarrow> list_mem \<Rightarrow> list_mem" where
  "rt_list_insert_before l n m =
     (let m1 = set_next (prev_of m l) n m;
          m2 = set_prev n (prev_of m1 l) m1;
          m3 = set_prev l n m2
      in set_next n l m3)"

definition rt_list_remove :: "lnode \<Rightarrow> list_mem \<Rightarrow> list_mem" where
  "rt_list_remove n m =
     (let m1 = set_prev (next_of m n) (prev_of m n) m;
          m2 = set_next (prev_of m1 n) (next_of m1 n) m1;
          m3 = set_prev n n m2
      in set_next n n m3)"

definition rt_list_isempty :: "lnode \<Rightarrow> list_mem \<Rightarrow> bool" where
  "rt_list_isempty l m \<longleftrightarrow> next_of m l = l"

text \<open>The loop of \<^verbatim>\<open>rt_list_len\<close>, at node \<open>p\<close> with the count so far.\<close>

partial_function (option) list_len_loop :: "list_mem \<Rightarrow> lnode \<Rightarrow> lnode \<Rightarrow> nat \<Rightarrow> nat option" where
  "list_len_loop m l p len = (if next_of m p \<noteq> l then list_len_loop m l (next_of m p) (len + 1) else Some len)"

definition rt_list_len :: "lnode \<Rightarrow> list_mem \<Rightarrow> nat option" where
  "rt_list_len l m = list_len_loop m l l 0"

lemmas list_defs = set_next_def set_prev_def rt_list_init_def rt_list_insert_after_def rt_list_insert_before_def
  rt_list_remove_def rt_list_isempty_def

section \<open>The pointer operations link and unlink\<close>

lemma insert_after_link: "n \<noteq> l \<Longrightarrow> n \<noteq> next_of m l \<Longrightarrow> rt_list_insert_after l n m = link l n (next_of m l) m"
  by (auto simp: list_defs link_def Let_def fun_upd_twist)

lemma insert_before_link: "n \<noteq> l \<Longrightarrow> n \<noteq> prev_of m l \<Longrightarrow> rt_list_insert_before l n m = link (prev_of m l) n l m"
  by (auto simp: list_defs link_def Let_def fun_upd_twist)

lemma remove_unlink: "next_of m n \<noteq> n \<Longrightarrow> rt_list_remove n m = unlink (prev_of m n) n (next_of m n) m"
  by (auto simp: list_defs unlink_def Let_def fun_upd_twist)

lemma remove_unlinked: "next_of m n = n \<Longrightarrow> prev_of m n = n \<Longrightarrow> rt_list_remove n m = m"
  by (auto simp: list_defs Let_def fun_upd_idem)

section \<open>The lists of the kernel in memory\<close>

text \<open>Every list of threads is a ring through its head; the node of a thread that is in no list points to itself.\<close>

definition lists_in :: "list_mem \<Rightarrow> (lhead \<Rightarrow> nat list) \<Rightarrow> bool" where
  "lists_in m K \<longleftrightarrow> (\<forall>h. chain m (Head h) (map Node (K h)) (Head h)) \<and>
     (\<forall>t. (\<forall>h. t \<notin> set (K h)) \<longrightarrow> next_of m (Node t) = Node t \<and> prev_of m (Node t) = Node t)"

definition once :: "(lhead \<Rightarrow> nat list) \<Rightarrow> bool" where
  "once K \<longleftrightarrow> (\<forall>h. distinct (K h)) \<and> (\<forall>h h' t. t \<in> set (K h) \<longrightarrow> t \<in> set (K h') \<longrightarrow> h = h')"

lemma linked_once_once: "linked_once s = once (klists s)"
  by (simp add: linked_once_def once_def)

lemma ring_distinct: "once K \<Longrightarrow> distinct (Head h # map Node (K h))"
  by (auto simp: once_def distinct_map inj_on_def)

lemma ring: "lists_in m K \<Longrightarrow> K h = xs @ ys \<Longrightarrow> chain m (Head h) (map Node xs @ map Node ys) (Head h)"
  unfolding lists_in_def by (metis map_append)

text \<open>An update that touches only nodes of one list leaves the other lists alone.\<close>

lemma other_chain:
  assumes "once K" "h' \<noteq> h" "A \<subseteq> insert (Head h) (Node ` (set (K h) \<union> {t}))" "t \<notin> set (K h')"
    "\<And>x. x \<notin> A \<Longrightarrow> next_of m' x = next_of m x \<and> prev_of m' x = prev_of m x"
  shows "chain m' (Head h') (map Node (K h')) (Head h') = chain m (Head h') (map Node (K h')) (Head h')"
proof (rule chain_cong)
  have out: "x \<notin> A" if "x \<in> set (Head h' # map Node (K h'))" for x
    using that assms(1-4) by (auto simp: once_def)
  show "next_of m' x = next_of m x" if "x \<in> set (Head h' # map Node (K h'))" for x using out [OF that] assms(5) by blast
  show "prev_of m' x = prev_of m x" if "x \<in> set (map Node (K h') @ [Head h'])" for x using out [of x] that assms(5) by auto
qed

lemma link_in:
  assumes rep: "lists_in m K" and o: "once K" and K: "K h = xs @ ys" and t: "\<And>h. t \<notin> set (K h)"
  shows "lists_in (link (last (Head h # map Node xs)) (Node t) (hd (map Node ys @ [Head h])) m) (K(h := xs @ t # ys))"
proof -
  let ?p = "last (Head h # map Node xs)" and ?q = "hd (map Node ys @ [Head h])"
  let ?m = "link ?p (Node t) ?q m"
  have pq: "{?p, ?q, Node t} \<subseteq> insert (Head h) (Node ` (set (K h) \<union> {t}))"
    using K by (cases xs rule: rev_cases; cases ys) auto
  have upd: "next_of ?m x = next_of m x \<and> prev_of ?m x = prev_of m x" if "x \<notin> {?p, ?q, Node t}" for x
    using that by (auto simp: link_def)
  have "chain ?m (Head h) (map Node xs @ Node t # map Node ys) (Head h)"
    using ring [OF rep K] ring_distinct [OF o, of h] t [of h] K by (intro chain_link) auto
  moreover have "chain ?m (Head h') (map Node (K h')) (Head h')" if "h' \<noteq> h" for h'
    using other_chain [OF o that pq t upd] rep by (auto simp: lists_in_def)
  moreover have "next_of ?m (Node u) = Node u \<and> prev_of ?m (Node u) = Node u"
    if "\<forall>h'. u \<notin> set ((K(h := xs @ t # ys)) h')" for u
  proof -
    have u: "u \<notin> set (K h')" for h'
      using spec [OF that, of h] spec [OF that, of h'] K by (cases "h' = h") auto
    moreover have "u \<noteq> t" using spec [OF that, of h] by auto
    ultimately have "Node u \<notin> {?p, ?q, Node t}" using pq by (auto simp: image_iff)
    then show ?thesis using upd u rep unfolding lists_in_def by metis
  qed
  ultimately show ?thesis unfolding lists_in_def by (simp del: last.simps chain.simps)
qed

lemma unlink_in:
  assumes rep: "lists_in m K" and o: "once K" and K: "K h = xs @ t # ys"
  shows "lists_in (unlink (last (Head h # map Node xs)) (Node t) (hd (map Node ys @ [Head h])) m) (K(h := xs @ ys))"
proof -
  let ?p = "last (Head h # map Node xs)" and ?q = "hd (map Node ys @ [Head h])"
  let ?m = "unlink ?p (Node t) ?q m"
  have t: "t \<notin> set (K h')" if "h' \<noteq> h" for h' using o K that by (auto simp: once_def)
  have pq: "{?p, ?q, Node t} \<subseteq> insert (Head h) (Node ` (set (K h) \<union> {t}))"
    using K by (cases xs rule: rev_cases; cases ys) auto
  have pq': "{?p, ?q} \<subseteq> insert (Head h) (Node ` (set xs \<union> set ys))"
    by (cases xs rule: rev_cases; cases ys) auto
  have upd: "next_of ?m x = next_of m x \<and> prev_of ?m x = prev_of m x" if "x \<notin> {?p, ?q, Node t}" for x
    using that by (auto simp: unlink_def)
  have "chain ?m (Head h) (map Node xs @ map Node ys) (Head h)"
    using ring [OF rep K] ring_distinct [OF o, of h] K by (intro chain_unlink) auto
  moreover have "chain ?m (Head h') (map Node (K h')) (Head h')" if "h' \<noteq> h" for h'
    using other_chain [OF o that pq t [OF that] upd] rep by (auto simp: lists_in_def)
  moreover have "next_of ?m (Node u) = Node u \<and> prev_of ?m (Node u) = Node u"
    if out: "\<forall>h'. u \<notin> set ((K(h := xs @ ys)) h')" for u
  proof (cases "u = t")
    case True
    have "t \<notin> set xs \<union> set ys" using o K by (force simp: once_def dest: spec [of _ h])
    then have "Node t \<noteq> ?p" "Node t \<noteq> ?q" using pq' by auto
    then show ?thesis using True by (simp add: unlink_def)
  next
    case False
    then have u: "u \<notin> set (K h')" for h'
      using spec [OF out, of h] spec [OF out, of h'] K by (cases "h' = h") auto
    then have "Node u \<notin> {?p, ?q, Node t}" using pq False by (auto simp: image_iff)
    then show ?thesis using upd u rep unfolding lists_in_def by metis
  qed
  ultimately show ?thesis unfolding lists_in_def by (simp del: last.simps chain.simps)
qed

section \<open>The operations\<close>

lemma insert_before_head:
  assumes "lists_in m K" "once K" "\<And>h. t \<notin> set (K h)"
  shows "lists_in (rt_list_insert_before (Head h) (Node t) m) (K(h := K h @ [t]))"
proof -
  have "chain m (Head h) (map Node (K h)) (Head h)" using assms(1) by (simp add: lists_in_def)
  then have p: "prev_of m (Head h) = last (Head h # map Node (K h))" by (rule chain_last)
  then have "Node t \<noteq> prev_of m (Head h)" using assms(3) [of h] by (cases "K h" rule: rev_cases) auto
  then have "rt_list_insert_before (Head h) (Node t) m = link (last (Head h # map Node (K h))) (Node t) (Head h) m"
    using p by (subst insert_before_link) simp_all
  then show ?thesis using link_in [OF assms(1,2), of h "K h" "[]" t] assms(3) by simp
qed

lemma insert_after_head:
  assumes "lists_in m K" "once K" "\<And>h. t \<notin> set (K h)"
  shows "lists_in (rt_list_insert_after (Head h) (Node t) m) (K(h := t # K h))"
proof -
  have "chain m (Head h) (map Node (K h)) (Head h)" using assms(1) by (simp add: lists_in_def)
  then have q: "next_of m (Head h) = hd (map Node (K h) @ [Head h])" by (rule chain_hd)
  then have "Node t \<noteq> next_of m (Head h)" using assms(3) [of h] by (cases "K h") auto
  then have "rt_list_insert_after (Head h) (Node t) m = link (Head h) (Node t) (hd (map Node (K h) @ [Head h])) m"
    using q by (subst insert_after_link) simp_all
  then show ?thesis using link_in [OF assms(1,2), of h "[]" "K h" t] assms(3) by simp
qed

lemma insert_before_node:
  assumes "lists_in m K" "once K" "\<And>h. t \<notin> set (K h)" "K h = xs @ u # ys"
  shows "lists_in (rt_list_insert_before (Node u) (Node t) m) (K(h := xs @ t # u # ys))"
proof -
  have "chain m (Head h) (map Node xs @ Node u # map Node ys) (Head h)"
    using ring [OF assms(1,4)] by simp
  then have "chain m (Head h) (map Node xs) (Node u)" by (simp add: chain_append)
  then have p: "prev_of m (Node u) = last (Head h # map Node xs)" by (rule chain_last)
  have tu: "t \<noteq> u" "t \<notin> set xs" using assms(3) [of h] assms(4) by auto
  then have "Node t \<noteq> prev_of m (Node u)" using p by (cases xs rule: rev_cases) auto
  then have "rt_list_insert_before (Node u) (Node t) m = link (last (Head h # map Node xs)) (Node t) (Node u) m"
    using p tu by (subst insert_before_link) simp_all
  then show ?thesis using link_in [OF assms(1,2,4)] assms(3) by simp
qed

lemma remove_node:
  assumes "lists_in m K" "once K"
  shows "lists_in (rt_list_remove (Node t) m) (\<lambda>h. removeAll t (K h))"
proof (cases "\<exists>h. t \<in> set (K h)")
  case True
  then obtain h xs ys where K: "K h = xs @ t # ys" by (meson split_list)
  have nt: "t \<notin> set xs" "t \<notin> set ys" using assms(2) K by (auto simp: once_def dest!: spec [of _ h])
  have "chain m (Head h) (map Node xs @ Node t # map Node ys) (Head h)"
    using ring [OF assms(1) K] by simp
  then have ch: "chain m (Head h) (map Node xs) (Node t)" "chain m (Node t) (map Node ys) (Head h)"
    by (simp_all add: chain_append)
  have p: "prev_of m (Node t) = last (Head h # map Node xs)" using ch(1) by (rule chain_last)
  have q: "next_of m (Node t) = hd (map Node ys @ [Head h])" using ch(2) by (rule chain_hd)
  then have "next_of m (Node t) \<noteq> Node t" using nt by (cases ys) auto
  then have "rt_list_remove (Node t) m = unlink (last (Head h # map Node xs)) (Node t) (hd (map Node ys @ [Head h])) m"
    using p q by (simp add: remove_unlink)
  moreover have "K(h := xs @ ys) = (\<lambda>h. removeAll t (K h))"
  proof
    fix h'
    have "t \<notin> set (K h')" if "h' \<noteq> h" using assms(2) K that by (auto simp: once_def)
    then show "(K(h := xs @ ys)) h' = removeAll t (K h')" using K nt by auto
  qed
  ultimately show ?thesis using unlink_in [OF assms K] by simp
next
  case False
  then have "rt_list_remove (Node t) m = m" using assms(1) by (intro remove_unlinked) (auto simp: lists_in_def)
  moreover have "(\<lambda>h. removeAll t (K h)) = K" using False by auto
  ultimately show ?thesis using assms(1) by simp
qed

lemma list_isempty: "lists_in m K \<Longrightarrow> rt_list_isempty (Head h) m \<longleftrightarrow> K h = []"
  unfolding lists_in_def rt_list_isempty_def by (cases "K h") (auto dest!: spec [of _ h])

lemma list_first: "lists_in m K \<Longrightarrow> K h = t # ts \<Longrightarrow> next_of m (Head h) = Node t"
  unfolding lists_in_def by (auto dest!: spec [of _ h])

lemma len_loop: "chain m a xs b \<Longrightarrow> b \<notin> set xs \<Longrightarrow> list_len_loop m b a k = Some (k + length xs)"
  by (induction xs arbitrary: a k) (auto simp: list_len_loop.simps)

lemma list_len:
  assumes "lists_in m K"
  shows "rt_list_len (Head h) m = Some (length (K h))"
  using len_loop [of m "Head h" "map Node (K h)" "Head h" 0] assms by (auto simp: rt_list_len_def lists_in_def)

end
