(* ===== verification/Kservice.thy ===== *)
theory Kservice
  imports Kernel_Prelude
begin

text \<open>
  Services of the kernel (\<^verbatim>\<open>rt-thread/src/kservice.c\<close>): filling, copying and comparing memory, strings, and finding the
  lowest bit of a word with a table.

  Memory is a partial map from addresses to bytes; touching an address that is not mapped has no meaning and is
  \<open>None\<close>. A loop that only a zero byte ends may not end either: that is \<open>None\<close> too. The library is built for
  speed (\<^verbatim>\<open>RT_KSERVICE_USING_TINY_SIZE\<close> is off), so aligned blocks are filled and copied a word at a time. Lengths
  are natural numbers; \<^verbatim>\<open>rt_memcpy\<close> keeps its length in an \<^verbatim>\<open>int\<close> and is modelled for lengths below 2 to the 31.
\<close>

type_synonym mem = "nat \<rightharpoonup> u8"

definition wr :: "nat \<Rightarrow> u8 \<Rightarrow> mem \<Rightarrow> mem option" where
  "wr a v m = (if m a = None then None else Some (m(a \<mapsto> v)))"

text \<open>A word is stored and loaded with its low byte first.\<close>

definition store_word :: "nat \<Rightarrow> u32 \<Rightarrow> mem \<Rightarrow> mem option" where
  "store_word a w m = do {
     m1 \<leftarrow> wr a (ucast w) m;
     m2 \<leftarrow> wr (a + 1) (ucast (drop_bit 8 w)) m1;
     m3 \<leftarrow> wr (a + 2) (ucast (drop_bit 16 w)) m2;
     wr (a + 3) (ucast (drop_bit 24 w)) m3
   }"

definition load_word :: "nat \<Rightarrow> mem \<Rightarrow> u32 option" where
  "load_word a m = do {
     b0 \<leftarrow> m a;
     b1 \<leftarrow> m (a + 1);
     b2 \<leftarrow> m (a + 2);
     b3 \<leftarrow> m (a + 3);
     Some (ucast b0 OR push_bit 8 (ucast b1) OR push_bit 16 (ucast b2) OR push_bit 24 (ucast b3))
   }"

section \<open>Filling memory\<close>

fun fill_bytes :: "u8 \<Rightarrow> nat \<Rightarrow> nat \<Rightarrow> mem \<Rightarrow> mem option" where
  "fill_bytes d a 0 m = Some m"
| "fill_bytes d a (Suc k) m = do { m1 \<leftarrow> wr a d m; fill_bytes d (a + 1) k m1 }"

function fill_longs :: "u32 \<Rightarrow> nat \<Rightarrow> nat \<Rightarrow> mem \<Rightarrow> (nat \<times> nat \<times> mem) option" where
  "fill_longs b a k m =
     (if 4 \<le> k then do { m1 \<leftarrow> store_word a b m; fill_longs b (a + 4) (k - 4) m1 } else Some (a, k, m))"
  by auto
termination by (relation "measure (\<lambda>(_, _, k, _). k)") auto

function fill_blocks :: "u32 \<Rightarrow> nat \<Rightarrow> nat \<Rightarrow> mem \<Rightarrow> (nat \<times> nat \<times> mem) option" where
  "fill_blocks b a k m =
     (if 16 \<le> k then do {
        m1 \<leftarrow> store_word a b m;
        m2 \<leftarrow> store_word (a + 4) b m1;
        m3 \<leftarrow> store_word (a + 8) b m2;
        m4 \<leftarrow> store_word (a + 12) b m3;
        fill_blocks b (a + 16) (k - 16) m4
      } else Some (a, k, m))"
  by auto
termination by (relation "measure (\<lambda>(_, _, k, _). k)") auto

definition rt_memset :: "nat \<Rightarrow> u32 \<Rightarrow> nat \<Rightarrow> mem \<Rightarrow> mem option" where
  "rt_memset s c count m =
     (let d = c AND 0xff
      in if \<not> count < 4 \<and> s mod 4 = 0 then do {
           let b1 = push_bit 8 d OR d;
           let buffer = b1 OR push_bit 16 b1;
           (a1, k1, m1) \<leftarrow> fill_blocks buffer s count m;
           (a2, k2, m2) \<leftarrow> fill_longs buffer a1 k1 m1;
           fill_bytes (ucast d) a2 k2 m2
         } else fill_bytes (ucast d) s count m)"

section \<open>Copying memory\<close>

fun copy_bytes :: "nat \<Rightarrow> nat \<Rightarrow> nat \<Rightarrow> mem \<Rightarrow> mem option" where
  "copy_bytes dst src 0 m = Some m"
| "copy_bytes dst src (Suc k) m = do { v \<leftarrow> m src; m1 \<leftarrow> wr dst v m; copy_bytes (dst + 1) (src + 1) k m1 }"

definition copy_word :: "nat \<Rightarrow> nat \<Rightarrow> mem \<Rightarrow> mem option" where
  "copy_word dst src m = do { w \<leftarrow> load_word src m; store_word dst w m }"

function copy_longs :: "nat \<Rightarrow> nat \<Rightarrow> nat \<Rightarrow> mem \<Rightarrow> (nat \<times> nat \<times> nat \<times> mem) option" where
  "copy_longs dst src k m =
     (if 4 \<le> k then do { m1 \<leftarrow> copy_word dst src m; copy_longs (dst + 4) (src + 4) (k - 4) m1 }
      else Some (dst, src, k, m))"
  by auto
termination by (relation "measure (\<lambda>(_, _, k, _). k)") auto

function copy_blocks :: "nat \<Rightarrow> nat \<Rightarrow> nat \<Rightarrow> mem \<Rightarrow> (nat \<times> nat \<times> nat \<times> mem) option" where
  "copy_blocks dst src k m =
     (if 16 \<le> k then do {
        m1 \<leftarrow> copy_word dst src m;
        m2 \<leftarrow> copy_word (dst + 4) (src + 4) m1;
        m3 \<leftarrow> copy_word (dst + 8) (src + 8) m2;
        m4 \<leftarrow> copy_word (dst + 12) (src + 12) m3;
        copy_blocks (dst + 16) (src + 16) (k - 16) m4
      } else Some (dst, src, k, m))"
  by auto
termination by (relation "measure (\<lambda>(_, _, k, _). k)") auto

definition rt_memcpy :: "nat \<Rightarrow> nat \<Rightarrow> nat \<Rightarrow> mem \<Rightarrow> mem option" where
  "rt_memcpy dst src count m =
     (if \<not> count < 16 \<and> src mod 4 = 0 \<and> dst mod 4 = 0 then do {
        (d1, s1, k1, m1) \<leftarrow> copy_blocks dst src count m;
        (d2, s2, k2, m2) \<leftarrow> copy_longs d1 s1 k1 m1;
        copy_bytes d2 s2 k2 m2
      } else copy_bytes dst src count m)"

text \<open>The loop of \<^verbatim>\<open>rt_memmove\<close> that copies from the end.\<close>

fun copy_down :: "nat \<Rightarrow> nat \<Rightarrow> nat \<Rightarrow> mem \<Rightarrow> mem option" where
  "copy_down dst src 0 m = Some m"
| "copy_down dst src (Suc k) m = do { v \<leftarrow> m (src + k); m1 \<leftarrow> wr (dst + k) v m; copy_down dst src k m1 }"

definition rt_memmove :: "nat \<Rightarrow> nat \<Rightarrow> nat \<Rightarrow> mem \<Rightarrow> mem option" where
  "rt_memmove dest src n m =
     (if src < dest \<and> dest < src + n then copy_down dest src n m else copy_bytes dest src n m)"

fun rt_memcmp :: "mem \<Rightarrow> nat \<Rightarrow> nat \<Rightarrow> nat \<Rightarrow> int option" where
  "rt_memcmp m cs ct 0 = Some 0"
| "rt_memcmp m cs ct (Suc k) = do {
     a \<leftarrow> m cs;
     b \<leftarrow> m ct;
     let res = uint a - uint b;
     if res \<noteq> 0 then Some res else rt_memcmp m (cs + 1) (ct + 1) k
   }"

section \<open>Strings\<close>

partial_function (option) strlen_loop :: "mem \<Rightarrow> nat \<Rightarrow> nat \<Rightarrow> nat option" where
  "strlen_loop m s sc = do { c \<leftarrow> m sc; if c \<noteq> 0 then strlen_loop m s (sc + 1) else Some (sc - s) }"

definition rt_strlen :: "mem \<Rightarrow> nat \<Rightarrow> nat option" where
  "rt_strlen m s = strlen_loop m s s"

text \<open>The character is read before the bound is looked at.\<close>

function strnlen_loop :: "mem \<Rightarrow> nat \<Rightarrow> nat \<Rightarrow> nat \<Rightarrow> nat option" where
  "strnlen_loop m s sc maxlen = do {
     c \<leftarrow> m sc;
     if c \<noteq> 0 \<and> sc - s < maxlen then strnlen_loop m s (sc + 1) maxlen else Some (sc - s)
   }"
  by auto
termination by (relation "measure (\<lambda>(_, s, sc, maxlen). s + maxlen - sc)") auto

definition rt_strnlen :: "mem \<Rightarrow> nat \<Rightarrow> nat \<Rightarrow> nat option" where
  "rt_strnlen m s maxlen = strnlen_loop m s s maxlen"

text \<open>The difference is kept in a \<^verbatim>\<open>signed char\<close>.\<close>

fun rt_strncmp :: "mem \<Rightarrow> nat \<Rightarrow> nat \<Rightarrow> nat \<Rightarrow> int option" where
  "rt_strncmp m cs ct 0 = Some 0"
| "rt_strncmp m cs ct (Suc k) = do {
     a \<leftarrow> m cs;
     b \<leftarrow> m ct;
     let res = sint (a - b);
     if res \<noteq> 0 \<or> a = 0 then Some res else rt_strncmp m (cs + 1) (ct + 1) k
   }"

partial_function (option) rt_strcmp :: "mem \<Rightarrow> nat \<Rightarrow> nat \<Rightarrow> int option" where
  "rt_strcmp m cs ct = do {
     a \<leftarrow> m cs;
     b \<leftarrow> (if a \<noteq> 0 then m ct else Some 0);
     if a \<noteq> 0 \<and> a = b then rt_strcmp m (cs + 1) (ct + 1)
     else do { c \<leftarrow> m ct; Some (uint a - uint c) }
   }"

fun rt_strncpy :: "nat \<Rightarrow> nat \<Rightarrow> nat \<Rightarrow> mem \<Rightarrow> mem option" where
  "rt_strncpy dst src 0 m = Some m"
| "rt_strncpy dst src (Suc k) m = do {
     c \<leftarrow> m src;
     m1 \<leftarrow> wr dst c m;
     if c = 0 then fill_bytes 0 (dst + 1) k m1 else rt_strncpy (dst + 1) (src + 1) k m1
   }"

text \<open>The loop of \<^verbatim>\<open>rt_strstr\<close>; \<open>l1\<close> characters are left from \<open>s1\<close>. The result is the address of the match, \<open>Some None\<close> the
  null pointer. It is only entered with \<open>l2\<close> positive.\<close>

function strstr_loop :: "mem \<Rightarrow> nat \<Rightarrow> nat \<Rightarrow> nat \<Rightarrow> nat \<Rightarrow> nat option option" where
  "strstr_loop m s1 s2 l1 l2 =
     (if l2 \<le> l1 \<and> l2 \<noteq> 0 then do {
        r \<leftarrow> rt_memcmp m s1 s2 l2;
        if r = 0 then Some (Some s1) else strstr_loop m (s1 + 1) s2 (l1 - 1) l2
      } else Some None)"
  by auto
termination by (relation "measure (\<lambda>(_, _, _, l1, _). l1)") auto

definition rt_strstr :: "mem \<Rightarrow> nat \<Rightarrow> nat \<Rightarrow> nat option option" where
  "rt_strstr m s1 s2 = do {
     l2 \<leftarrow> rt_strlen m s2;
     if l2 = 0 then Some (Some s1)
     else do { l1 \<leftarrow> rt_strlen m s1; strstr_loop m s1 s2 l1 l2 }
   }"

definition to_lower :: "u8 \<Rightarrow> int" where
  "to_lower c = (if 65 \<le> c \<and> c \<le> 90 then uint c + 32 else uint c)"

partial_function (option) rt_strcasecmp :: "mem \<Rightarrow> nat \<Rightarrow> nat \<Rightarrow> int option" where
  "rt_strcasecmp m a b = do {
     ca \<leftarrow> map_option to_lower (m a);
     cb \<leftarrow> map_option to_lower (m b);
     if ca = cb \<and> ca \<noteq> 0 then rt_strcasecmp m (a + 1) (b + 1) else Some (ca - cb)
   }"

declare fill_longs.simps [simp del] fill_blocks.simps [simp del] copy_longs.simps [simp del] copy_blocks.simps [simp del]
  strnlen_loop.simps [simp del] strstr_loop.simps [simp del]

section \<open>Ranges of memory\<close>

definition mapped :: "nat \<Rightarrow> nat \<Rightarrow> mem \<Rightarrow> bool" where
  "mapped a k m \<longleftrightarrow> (\<forall>x. a \<le> x \<and> x < a + k \<longrightarrow> m x \<noteq> None)"

text \<open>The bytes of a range replaced by those of a function of the address.\<close>

definition put_range :: "nat \<Rightarrow> nat \<Rightarrow> (nat \<Rightarrow> u8 option) \<Rightarrow> mem \<Rightarrow> mem" where
  "put_range a k f m = (\<lambda>x. if a \<le> x \<and> x < a + k then f x else m x)"

lemma put_range_0 [simp]: "put_range a 0 f m = m"
  by (auto simp: put_range_def fun_eq_iff)

lemma put_range_join:
  "b = a + j \<Longrightarrow> put_range b k f (put_range a j f m) = put_range a (j + k) f m"
  by (auto simp: put_range_def)

lemma put_range_upd: "f a = Some v \<Longrightarrow> put_range (a + 1) k f (m(a \<mapsto> v)) = put_range a (Suc k) f m"
  by (auto simp: put_range_def fun_eq_iff)

lemma mappedD: "mapped a k m \<Longrightarrow> i < k \<Longrightarrow> \<exists>v. m (a + i) = Some v"
  by (simp add: mapped_def)

lemma mapped_mono: "mapped a k m \<Longrightarrow> a \<le> b \<Longrightarrow> b + j \<le> a + k \<Longrightarrow> mapped b j m"
  by (auto simp: mapped_def)

lemma mapped_put: "(\<And>x. f x = None \<Longrightarrow> m x = None) \<Longrightarrow> mapped a k m \<Longrightarrow> mapped a k (put_range b j f m)"
  unfolding mapped_def put_range_def by metis

lemma mapped_wr: "mapped a k m \<Longrightarrow> mapped a k (m(x \<mapsto> v))"
  by (auto simp: mapped_def)

section \<open>Filling\<close>

lemma fill_bytes_spec: "mapped a k m \<Longrightarrow> fill_bytes d a k m = Some (put_range a k (\<lambda>_. Some d) m)"
proof (induction k arbitrary: a m)
  case (Suc k)
  have "m a \<noteq> None" using Suc.prems by (simp add: mapped_def)
  moreover have "mapped (a + 1) k (m(a \<mapsto> d))" using Suc.prems by (auto simp: mapped_def)
  then have "fill_bytes d (a + 1) k (m(a \<mapsto> d)) = Some (put_range (a + 1) k (\<lambda>_. Some d) (m(a \<mapsto> d)))" by (rule Suc.IH)
  ultimately show ?case using put_range_upd [of "\<lambda>_. Some d" a d k m] by (simp add: wr_def)
qed simp

definition rep_byte :: "u8 \<Rightarrow> u32 \<Rightarrow> bool" where
  "rep_byte d b \<longleftrightarrow> ucast b = d \<and> ucast (drop_bit 8 b) = d \<and> ucast (drop_bit 16 b) = d \<and> ucast (drop_bit 24 b) = d"

lemma store_word_rep:
  assumes "mapped a 4 m" "rep_byte d b"
  shows "store_word a b m = Some (put_range a 4 (\<lambda>_. Some d) m)"
proof -
  have "m a \<noteq> None" "m (a + 1) \<noteq> None" "m (a + 2) \<noteq> None" "m (a + 3) \<noteq> None" using assms(1) by (auto simp: mapped_def)
  moreover have "m(a \<mapsto> d, a + 1 \<mapsto> d, a + 2 \<mapsto> d, a + 3 \<mapsto> d) = put_range a 4 (\<lambda>_. Some d) m"
  proof
    fix x
    have "a \<le> x \<and> x < a + 4 \<longleftrightarrow> x = a \<or> x = a + 1 \<or> x = a + 2 \<or> x = a + 3" by auto
    then show "(m(a \<mapsto> d, a + 1 \<mapsto> d, a + 2 \<mapsto> d, a + 3 \<mapsto> d)) x = put_range a 4 (\<lambda>_. Some d) m x"
      by (auto simp: put_range_def)
  qed
  ultimately show ?thesis using assms(2) by (simp add: store_word_def wr_def rep_byte_def)
qed

lemma fill_longs_spec:
  "mapped a k m \<Longrightarrow> rep_byte d b \<Longrightarrow>
   \<exists>j r. fill_longs b a k m = Some (a + j, r, put_range a j (\<lambda>_. Some d) m) \<and> j + r = k"
proof (induction b a k m rule: fill_longs.induct)
  case (1 b a k m)
  show ?case
  proof (cases "4 \<le> k")
    case True
    let ?m = "put_range a 4 (\<lambda>_. Some d) m"
    have st: "store_word a b m = Some ?m" using store_word_rep mapped_mono [OF 1(2)] True 1(3) by auto
    have "mapped (a + 4) (k - 4) ?m"
      using mapped_mono [OF 1(2), of "a + 4" "k - 4"] True by (intro mapped_put) auto
    then obtain j r where j: "fill_longs b (a + 4) (k - 4) ?m = Some (a + 4 + j, r, put_range (a + 4) j (\<lambda>_. Some d) ?m)"
      "j + r = k - 4" using 1(1) [OF True st] 1(3) by auto
    have "fill_longs b a k m = Some (a + (4 + j), r, put_range a (4 + j) (\<lambda>_. Some d) m)"
      using True st j(1) put_range_join [of "a + 4" a 4 j "\<lambda>_. Some d" m] by (simp add: fill_longs.simps [of b a k m])
    then show ?thesis using j(2) True by (intro exI [of _ "4 + j"] exI [of _ r]) simp
  next
    case False
    then show ?thesis by (subst fill_longs.simps) (auto intro: exI [of _ 0])
  qed
qed

lemma fill_blocks_spec:
  "mapped a k m \<Longrightarrow> rep_byte d b \<Longrightarrow>
   \<exists>j r. fill_blocks b a k m = Some (a + j, r, put_range a j (\<lambda>_. Some d) m) \<and> j + r = k"
proof (induction b a k m rule: fill_blocks.induct)
  case (1 b a k m)
  show ?case
  proof (cases "16 \<le> k")
    case True
    let ?f = "\<lambda>_. Some d"
    let ?m = "\<lambda>j. put_range a j ?f m"
    have st: "store_word (a + j) b (?m j) = Some (?m (j + 4))" if "j + 4 \<le> 16" for j
    proof -
      have "mapped (a + j) 4 (?m j)" using that True mapped_mono [OF 1(2), of "a + j" 4] by (intro mapped_put) auto
      then show ?thesis using store_word_rep [of "a + j" "?m j" d b] 1(3) put_range_join [of "a + j" a j 4 ?f m] by simp
    qed
    have s: "store_word a b m = Some (?m 4)" "store_word (a + 4) b (?m 4) = Some (?m 8)"
      "store_word (a + 8) b (?m 8) = Some (?m 12)" "store_word (a + 12) b (?m 12) = Some (?m 16)"
      using st [of 0] st [of 4] st [of 8] st [of 12] by simp_all
    have "mapped (a + 16) (k - 16) (?m 16)"
      using mapped_mono [OF 1(2), of "a + 16" "k - 16"] True by (intro mapped_put) auto
    then obtain j r where j: "fill_blocks b (a + 16) (k - 16) (?m 16) = Some (a + 16 + j, r, put_range (a + 16) j ?f (?m 16))"
      "j + r = k - 16" using 1(1) [OF True s] 1(3) by auto
    have "fill_blocks b a k m = Some (a + (16 + j), r, put_range a (16 + j) ?f m)"
      using True s j(1) put_range_join [of "a + 16" a 16 j ?f m] by (simp add: fill_blocks.simps [of b a k m])
    then show ?thesis using j(2) True by (intro exI [of _ "16 + j"] exI [of _ r]) simp
  next
    case False
    then show ?thesis by (subst fill_blocks.simps) (auto intro: exI [of _ 0])
  qed
qed

lemma low_byte: "(0xff :: u32) = mask 8"
  by (simp add: mask_eq_exp_minus_1)

lemma ucast_low_byte: "(ucast (c AND 0xff :: u32) :: u8) = ucast c"
  unfolding low_byte by (rule bit_word_eqI) (auto simp: bit_simps)

lemma rep_byte_buffer:
  fixes c :: u32
  defines "d \<equiv> c AND 0xff"
  defines "b1 \<equiv> push_bit 8 d OR d"
  shows "rep_byte (ucast c) (b1 OR push_bit 16 b1)"
proof -
  have d: "bit d n \<longleftrightarrow> n < 8 \<and> bit c n" for n unfolding d_def low_byte by (auto simp: bit_simps)
  have b1: "bit b1 n \<longleftrightarrow> (8 \<le> n \<and> n < 16 \<and> bit c (n - 8)) \<or> (n < 8 \<and> bit c n)" for n
    unfolding b1_def by (auto simp: bit_simps d)
  have "(ucast (drop_bit k (b1 OR push_bit 16 b1)) :: u8) = ucast c" if "k \<in> {0, 8, 16, 24}" for k
    using that by (intro bit_word_eqI) (auto simp: bit_simps b1)
  from this [of 0] this [of 8] this [of 16] this [of 24] show ?thesis by (simp add: rep_byte_def)
qed

lemma rt_memset_spec:
  assumes "mapped s count m"
  shows "rt_memset s c count m = Some (put_range s count (\<lambda>_. Some (ucast c)) m)"
proof (cases "\<not> count < 4 \<and> s mod 4 = 0")
  case True
  let ?f = "\<lambda>_. Some (ucast c :: u8)" and ?d = "c AND 0xff"
  let ?b = "(push_bit 8 ?d OR ?d) OR push_bit 16 (push_bit 8 ?d OR ?d)"
  have rep: "rep_byte (ucast c) ?b" by (rule rep_byte_buffer)
  have keep: "mapped a k (put_range s j ?f m)" if "mapped a k m" for a k j using that by (intro mapped_put) simp
  obtain j1 r1 where 1: "fill_blocks ?b s count m = Some (s + j1, r1, put_range s j1 ?f m)" "j1 + r1 = count"
    using fill_blocks_spec [OF assms rep] by blast
  have "mapped (s + j1) r1 (put_range s j1 ?f m)" using 1(2) by (intro keep mapped_mono [OF assms]) simp_all
  then obtain j2 r2 where 2: "fill_longs ?b (s + j1) r1 (put_range s j1 ?f m) =
      Some (s + j1 + j2, r2, put_range (s + j1) j2 ?f (put_range s j1 ?f m))" "j2 + r2 = r1"
    using fill_longs_spec [OF _ rep] by blast
  have e: "put_range (s + j1) j2 ?f (put_range s j1 ?f m) = put_range s (j1 + j2) ?f m" by (rule put_range_join) simp
  have "mapped (s + j1 + j2) r2 (put_range s (j1 + j2) ?f m)" using 1(2) 2(2) by (intro keep mapped_mono [OF assms]) simp_all
  then have "fill_bytes (ucast ?d) (s + j1 + j2) r2 (put_range s (j1 + j2) ?f m) =
      Some (put_range (s + j1 + j2) r2 ?f (put_range s (j1 + j2) ?f m))"
    using fill_bytes_spec by (simp add: ucast_low_byte)
  also have "put_range (s + j1 + j2) r2 ?f (put_range s (j1 + j2) ?f m) = put_range s (j1 + j2 + r2) ?f m"
    by (rule put_range_join) simp
  finally show ?thesis using True 1 2 e by (simp add: rt_memset_def Let_def add.assoc)
next
  case False
  then show ?thesis using fill_bytes_spec [OF assms] by (auto simp: rt_memset_def Let_def ucast_low_byte)
qed

section \<open>Copying\<close>

text \<open>The range of \<open>k\<close> bytes at \<open>dst\<close> holds what the range at \<open>src\<close> held before.\<close>

definition moved :: "nat \<Rightarrow> nat \<Rightarrow> nat \<Rightarrow> mem \<Rightarrow> mem" where
  "moved dst src k m = (\<lambda>x. if dst \<le> x \<and> x < dst + k then m (src + (x - dst)) else m x)"

lemma moved_0 [simp]: "moved dst src 0 m = m"
  by (auto simp: moved_def fun_eq_iff)

lemma mapped_moved: "mapped src k m \<Longrightarrow> mapped a j m \<Longrightarrow> mapped a j (moved dst src k m)"
proof -
  assume src: "mapped src k m" and a: "mapped a j m"
  have "m (src + (x - dst)) \<noteq> None" if "dst \<le> x" "x < dst + k" for x
    using mappedD [OF src, of "x - dst"] that by auto
  then show "mapped a j (moved dst src k m)" using a by (auto simp: mapped_def moved_def)
qed

text \<open>Copying upwards overwrites nothing that is still to be read.\<close>

definition upward :: "nat \<Rightarrow> nat \<Rightarrow> nat \<Rightarrow> bool" where
  "upward dst src k \<longleftrightarrow> dst \<le> src \<or> src + k \<le> dst"

lemma moved_join:
  assumes "upward dst src (j + k)"
  shows "moved (dst + j) (src + j) k (moved dst src j m) = moved dst src (j + k) m"
proof
  fix x
  have "\<not> (dst \<le> src + j + (x - (dst + j)) \<and> src + j + (x - (dst + j)) < dst + j)" if "dst + j \<le> x" "x < dst + j + k"
    using that assms by (auto simp: upward_def)
  then show "moved (dst + j) (src + j) k (moved dst src j m) x = moved dst src (j + k) m x"
    by (auto simp: moved_def)
qed

lemma copy_byte: "m src = Some v \<Longrightarrow> m dst \<noteq> None \<Longrightarrow> wr dst v m = Some (moved dst src 1 m)"
  by (auto simp: wr_def moved_def fun_eq_iff)

lemma copy_bytes_spec:
  "mapped dst k m \<Longrightarrow> mapped src k m \<Longrightarrow> upward dst src k \<Longrightarrow> copy_bytes dst src k m = Some (moved dst src k m)"
proof (induction k arbitrary: dst src m)
  case (Suc k)
  obtain v where v: "m src = Some v" "m dst \<noteq> None" using Suc.prems(1,2) by (auto simp: mapped_def)
  let ?m = "moved dst src 1 m"
  have src1: "mapped src 1 m" using Suc.prems(2) by (rule mapped_mono) simp_all
  have "mapped (dst + 1) k ?m" "mapped (src + 1) k ?m"
    using mapped_mono [OF Suc.prems(1)] mapped_mono [OF Suc.prems(2)] by (intro mapped_moved src1; simp)+
  moreover have "upward (dst + 1) (src + 1) k" using Suc.prems(3) by (auto simp: upward_def)
  ultimately have "copy_bytes (dst + 1) (src + 1) k ?m = Some (moved (dst + 1) (src + 1) k ?m)" by (rule Suc.IH)
  also have "moved (dst + 1) (src + 1) k ?m = moved dst src (Suc k) m" using moved_join [of dst src 1 k m] Suc.prems(3) by simp
  finally show ?case using v copy_byte [OF v] by simp
qed simp

lemma copy_down_spec:
  "mapped dst k m \<Longrightarrow> mapped src k m \<Longrightarrow> src \<le> dst \<Longrightarrow> copy_down dst src k m = Some (moved dst src k m)"
proof (induction k arbitrary: m)
  case (Suc k)
  obtain v where v: "m (src + k) = Some v" "m (dst + k) \<noteq> None"
    using mappedD [OF Suc.prems(1), of k] mappedD [OF Suc.prems(2), of k] by auto
  let ?m = "m(dst + k \<mapsto> v)"
  have "mapped dst k ?m" "mapped src k ?m"
    using mapped_mono [OF Suc.prems(1)] mapped_mono [OF Suc.prems(2)] by (intro mapped_wr; simp)+
  then have "copy_down dst src k ?m = Some (moved dst src k ?m)" using Suc.IH Suc.prems(3) by blast
  moreover have "moved dst src k ?m = moved dst src (Suc k) m"
  proof
    fix x
    show "moved dst src k ?m x = moved dst src (Suc k) m x"
      using v Suc.prems(3) by (cases "x = dst + k") (auto simp: moved_def)
  qed
  ultimately show ?case using v by (simp add: wr_def)
qed simp

lemma rt_memmove_spec:
  assumes "mapped dst k m" "mapped src k m"
  shows "rt_memmove dst src k m = Some (moved dst src k m)"
proof (cases "src < dst \<and> dst < src + k")
  case True
  then show ?thesis using copy_down_spec [OF assms] by (simp add: rt_memmove_def)
next
  case False
  then have "upward dst src k" by (auto simp: upward_def)
  then show ?thesis using False copy_bytes_spec [OF assms] by (auto simp: rt_memmove_def)
qed

lemma word_bytes:
  fixes b0 b1 b2 b3 :: u8
  defines "w \<equiv> (ucast b0 OR push_bit 8 (ucast b1) OR push_bit 16 (ucast b2) OR push_bit 24 (ucast b3) :: u32)"
  shows "ucast w = b0" "ucast (drop_bit 8 w) = b1" "ucast (drop_bit 16 w) = b2" "ucast (drop_bit 24 w) = b3"
proof -
  have small: "bit b n \<Longrightarrow> n < 8" for b :: u8 and n using bit_imp_le_length [of b n] by simp
  show "ucast w = b0" "ucast (drop_bit 8 w) = b1" "ucast (drop_bit 16 w) = b2" "ucast (drop_bit 24 w) = b3"
    unfolding w_def by (rule bit_word_eqI; auto simp: bit_simps dest: small)+
qed

lemma copy_word_spec:
  assumes "mapped dst 4 m" "mapped src 4 m"
  shows "copy_word dst src m = Some (moved dst src 4 m)"
proof -
  obtain b0 b1 b2 b3 where b: "m src = Some b0" "m (src + 1) = Some b1" "m (src + 2) = Some b2" "m (src + 3) = Some b3"
    using mappedD [OF assms(2), of 0] mappedD [OF assms(2), of 1] mappedD [OF assms(2), of 2] mappedD [OF assms(2), of 3]
    by auto
  have d: "m dst \<noteq> None" "m (dst + 1) \<noteq> None" "m (dst + 2) \<noteq> None" "m (dst + 3) \<noteq> None" using assms(1) by (auto simp: mapped_def)
  have "m(dst \<mapsto> b0, dst + 1 \<mapsto> b1, dst + 2 \<mapsto> b2, dst + 3 \<mapsto> b3) = moved dst src 4 m"
  proof
    fix x
    consider "x = dst" | "x = dst + 1" | "x = dst + 2" | "x = dst + 3" | "\<not> (dst \<le> x \<and> x < dst + 4)" by linarith
    then show "(m(dst \<mapsto> b0, dst + 1 \<mapsto> b1, dst + 2 \<mapsto> b2, dst + 3 \<mapsto> b3)) x = moved dst src 4 m x"
      by cases (use b in \<open>auto simp: moved_def\<close>)
  qed
  moreover obtain w where "load_word src m = Some w" "ucast w = b0" "ucast (drop_bit 8 w) = b1" "ucast (drop_bit 16 w) = b2"
      "ucast (drop_bit 24 w) = b3"
    by (rule that [OF _ word_bytes]) (use b in \<open>simp add: load_word_def\<close>)
  ultimately show ?thesis using d by (simp add: copy_word_def store_word_def wr_def)
qed

lemma copy_longs_spec:
  "mapped dst k m \<Longrightarrow> mapped src k m \<Longrightarrow> upward dst src k \<Longrightarrow>
   \<exists>j r. copy_longs dst src k m = Some (dst + j, src + j, r, moved dst src j m) \<and> j + r = k"
proof (induction dst src k m rule: copy_longs.induct)
  case (1 dst src k m)
  show ?case
  proof (cases "4 \<le> k")
    case True
    let ?m = "moved dst src 4 m"
    have m4: "mapped dst 4 m" "mapped src 4 m" using mapped_mono [OF 1(2)] mapped_mono [OF 1(3)] True by simp_all
    have st: "copy_word dst src m = Some ?m" using copy_word_spec [OF m4] .
    have "mapped (dst + 4) (k - 4) ?m" "mapped (src + 4) (k - 4) ?m"
      using True mapped_mono [OF 1(2)] mapped_mono [OF 1(3)] by (intro mapped_moved m4(2); simp)+
    moreover have "upward (dst + 4) (src + 4) (k - 4)" using 1(4) True by (auto simp: upward_def)
    ultimately obtain j r where j: "copy_longs (dst + 4) (src + 4) (k - 4) ?m =
        Some (dst + 4 + j, src + 4 + j, r, moved (dst + 4) (src + 4) j ?m)" "j + r = k - 4"
      using 1(1) [OF True st] by blast
    have "upward dst src (4 + j)" using 1(4) True j(2) by (auto simp: upward_def)
    then have "copy_longs dst src k m = Some (dst + (4 + j), src + (4 + j), r, moved dst src (4 + j) m)"
      using True st j(1) moved_join [of dst src 4 j m] by (simp add: copy_longs.simps [of dst src k m])
    then show ?thesis using j(2) True by (intro exI [of _ "4 + j"] exI [of _ r]) simp
  next
    case False
    then show ?thesis by (subst copy_longs.simps) (auto intro: exI [of _ 0])
  qed
qed

lemma copy_blocks_spec:
  "mapped dst k m \<Longrightarrow> mapped src k m \<Longrightarrow> upward dst src k \<Longrightarrow>
   \<exists>j r. copy_blocks dst src k m = Some (dst + j, src + j, r, moved dst src j m) \<and> j + r = k"
proof (induction dst src k m rule: copy_blocks.induct)
  case (1 dst src k m)
  show ?case
  proof (cases "16 \<le> k")
    case True
    let ?m = "\<lambda>j. moved dst src j m"
    have keep: "mapped a i (?m j)" if "mapped a i m" "j \<le> k" for a i j
      using mapped_mono [OF 1(3), of src j] that by (intro mapped_moved) simp_all
    have st: "copy_word (dst + j) (src + j) (?m j) = Some (?m (j + 4))" if "j + 4 \<le> 16" for j
    proof -
      have "mapped (dst + j) 4 (?m j)" "mapped (src + j) 4 (?m j)"
        using that True mapped_mono [OF 1(2)] mapped_mono [OF 1(3)] by (intro keep; simp)+
      moreover have "upward dst src (j + 4)" using 1(4) that True by (auto simp: upward_def)
      ultimately show ?thesis using copy_word_spec moved_join by simp
    qed
    have s: "copy_word dst src m = Some (?m 4)" "copy_word (dst + 4) (src + 4) (?m 4) = Some (?m 8)"
      "copy_word (dst + 8) (src + 8) (?m 8) = Some (?m 12)" "copy_word (dst + 12) (src + 12) (?m 12) = Some (?m 16)"
      using st [of 0] st [of 4] st [of 8] st [of 12] by simp_all
    have "mapped (dst + 16) (k - 16) (?m 16)" "mapped (src + 16) (k - 16) (?m 16)"
      using True mapped_mono [OF 1(2)] mapped_mono [OF 1(3)] by (intro keep; simp)+
    moreover have "upward (dst + 16) (src + 16) (k - 16)" using 1(4) True by (auto simp: upward_def)
    ultimately obtain j r where j: "copy_blocks (dst + 16) (src + 16) (k - 16) (?m 16) =
        Some (dst + 16 + j, src + 16 + j, r, moved (dst + 16) (src + 16) j (?m 16))" "j + r = k - 16"
      using 1(1) [OF True s] by blast
    have "upward dst src (16 + j)" using 1(4) True j(2) by (auto simp: upward_def)
    then have "copy_blocks dst src k m = Some (dst + (16 + j), src + (16 + j), r, moved dst src (16 + j) m)"
      using True s j(1) moved_join [of dst src 16 j m] by (simp add: copy_blocks.simps [of dst src k m])
    then show ?thesis using j(2) True by (intro exI [of _ "16 + j"] exI [of _ r]) simp
  next
    case False
    then show ?thesis by (subst copy_blocks.simps) (auto intro: exI [of _ 0])
  qed
qed

lemma rt_memcpy_spec:
  assumes "mapped dst k m" "mapped src k m" "upward dst src k"
  shows "rt_memcpy dst src k m = Some (moved dst src k m)"
proof (cases "\<not> k < 16 \<and> src mod 4 = 0 \<and> dst mod 4 = 0")
  case True
  have keep: "mapped a i (moved dst src j m)" if "mapped a i m" "j \<le> k" for a i j
    using mapped_mono [OF assms(2), of src j] that by (intro mapped_moved) simp_all
  have up: "upward (dst + j) (src + j) i" if "j + i \<le> k" for i j using assms(3) that by (auto simp: upward_def)
  obtain j1 r1 where 1: "copy_blocks dst src k m = Some (dst + j1, src + j1, r1, moved dst src j1 m)" "j1 + r1 = k"
    using copy_blocks_spec [OF assms] by blast
  have "mapped (dst + j1) r1 (moved dst src j1 m)" "mapped (src + j1) r1 (moved dst src j1 m)"
    using 1(2) mapped_mono [OF assms(1)] mapped_mono [OF assms(2)] by (intro keep; simp)+
  then obtain j2 r2 where 2: "copy_longs (dst + j1) (src + j1) r1 (moved dst src j1 m) =
      Some (dst + j1 + j2, src + j1 + j2, r2, moved (dst + j1) (src + j1) j2 (moved dst src j1 m))" "j2 + r2 = r1"
    using copy_longs_spec up 1(2) by blast
  have e2: "moved (dst + j1) (src + j1) j2 (moved dst src j1 m) = moved dst src (j1 + j2) m"
    using assms(3) 1(2) 2(2) by (intro moved_join) (auto simp: upward_def)
  have "mapped (dst + (j1 + j2)) r2 (moved dst src (j1 + j2) m)" "mapped (src + (j1 + j2)) r2 (moved dst src (j1 + j2) m)"
    using 1(2) 2(2) mapped_mono [OF assms(1)] mapped_mono [OF assms(2)] by (intro keep; simp)+
  then have "copy_bytes (dst + (j1 + j2)) (src + (j1 + j2)) r2 (moved dst src (j1 + j2) m) =
      Some (moved (dst + (j1 + j2)) (src + (j1 + j2)) r2 (moved dst src (j1 + j2) m))"
    using 1(2) 2(2) by (intro copy_bytes_spec up) simp_all
  also have "moved (dst + (j1 + j2)) (src + (j1 + j2)) r2 (moved dst src (j1 + j2) m) = moved dst src k m"
    using moved_join [of dst src "j1 + j2" r2 m] assms(3) 1(2) 2(2) by (simp add: add.assoc)
  finally show ?thesis using True 1 2 e2 by (simp add: rt_memcpy_def add.assoc)
next
  case False
  then show ?thesis using copy_bytes_spec [OF assms] by (auto simp: rt_memcpy_def)
qed

section \<open>Strings\<close>

fun bytes_at :: "mem \<Rightarrow> nat \<Rightarrow> u8 list \<Rightarrow> bool" where
  "bytes_at m a [] \<longleftrightarrow> True"
| "bytes_at m a (x # xs) \<longleftrightarrow> m a = Some x \<and> x \<noteq> 0 \<and> bytes_at m (a + 1) xs"

text \<open>A string: its characters, none of them zero, and the zero after them.\<close>

definition str_at :: "mem \<Rightarrow> nat \<Rightarrow> u8 list \<Rightarrow> bool" where
  "str_at m a xs \<longleftrightarrow> bytes_at m a xs \<and> m (a + length xs) = Some 0"

lemma str_at_simps [simp]:
  "str_at m a [] \<longleftrightarrow> m a = Some 0" "str_at m a (x # xs) \<longleftrightarrow> m a = Some x \<and> x \<noteq> 0 \<and> str_at m (a + 1) xs"
  by (auto simp: str_at_def)

lemma strlen_loop_spec: "str_at m sc xs \<Longrightarrow> s \<le> sc \<Longrightarrow> strlen_loop m s sc = Some (sc - s + length xs)"
  by (induction xs arbitrary: sc) (auto simp: strlen_loop.simps)

lemma rt_strlen_spec: "str_at m s xs \<Longrightarrow> rt_strlen m s = Some (length xs)"
  by (simp add: rt_strlen_def strlen_loop_spec)

lemma strnlen_loop_spec:
  "str_at m sc xs \<Longrightarrow> s \<le> sc \<Longrightarrow> sc - s \<le> n \<Longrightarrow> strnlen_loop m s sc n = Some (min (sc - s + length xs) n)"
proof (induction xs arbitrary: sc)
  case (Cons x xs)
  show ?case
  proof (cases "sc - s < n")
    case True
    then show ?thesis using Cons.IH [of "sc + 1"] Cons.prems by (subst strnlen_loop.simps) (simp add: Suc_diff_le)
  qed (use Cons.prems in \<open>subst strnlen_loop.simps, simp\<close>)
qed (subst strnlen_loop.simps, simp)

lemma rt_strnlen_spec: "str_at m s xs \<Longrightarrow> rt_strnlen m s n = Some (min (length xs) n)"
  using strnlen_loop_spec [of m s xs s n] by (simp add: rt_strnlen_def)

text \<open>An array without a zero that is full to the bound is read one byte past the bound.\<close>

lemma strnlen_loop_past:
  "bytes_at m sc xs \<Longrightarrow> s \<le> sc \<Longrightarrow> sc - s + length xs = n \<Longrightarrow> m (s + n) = None \<Longrightarrow> strnlen_loop m s sc n = None"
proof (induction xs arbitrary: sc)
  case Nil
  then have "sc = s + n" by simp
  then show ?case using Nil.prems by (subst strnlen_loop.simps) simp
next
  case (Cons x xs)
  then show ?case using Cons.IH [of "sc + 1"] by (subst strnlen_loop.simps) (simp add: Suc_diff_le)
qed

lemma strnlen_reads_past: "bytes_at m s xs \<Longrightarrow> m (s + length xs) = None \<Longrightarrow> rt_strnlen m s (length xs) = None"
  using strnlen_loop_past [of m s xs s "length xs"] by (simp add: rt_strnlen_def)

lemma sint_diff_0: "sint (a - b) = 0 \<longleftrightarrow> a = (b :: u8)"
  by (metis eq_iff_diff_eq_0 signed_0 signed_word_eqI)

lemma rt_strncmp_spec:
  "str_at m cs xs \<Longrightarrow> str_at m ct ys \<Longrightarrow> \<exists>r. rt_strncmp m cs ct n = Some r \<and> (r = 0 \<longleftrightarrow> take n xs = take n ys)"
proof (induction n arbitrary: cs ct xs ys)
  case (Suc n)
  have end0: "(0 :: u8) \<noteq> y \<Longrightarrow> sint (0 - y) \<noteq> 0" for y :: u8 using sint_diff_0 [of 0 y] by simp
  show ?case
  proof (cases xs)
    case Nil
    then show ?thesis using Suc.prems sint_diff_0 [of 0] by (cases ys) auto
  next
    case (Cons x xs')
    note x = this
    show ?thesis
    proof (cases ys)
      case Nil
      then show ?thesis using Suc.prems x sint_diff_0 [of x 0] by auto
    next
      case (Cons y ys')
      then show ?thesis
        using Suc.prems x Suc.IH [of "cs + 1" xs' "ct + 1" ys'] sint_diff_0 [of x y] by (cases "x = y") auto
    qed
  qed
qed simp

text \<open>The sign of the result is not the order of the characters when they differ by 128 or more.\<close>

lemma strncmp_sign_wrong:
  "rt_strncmp [0 \<mapsto> 200, 1 \<mapsto> 0, 2 \<mapsto> 10, 3 \<mapsto> 0] 0 2 1 = Some (- 66)"
  by (simp add: eval_nat_numeral)

section \<open>The lowest bit by table\<close>

text \<open>The two alternatives for \<^verbatim>\<open>__rt_ffs\<close> of builds without a compiler builtin. The second isolates the lowest bit and
  uses that powers of two are different modulo 37.\<close>

definition lowest_bit_row :: "nat \<Rightarrow> nat list" where
  "lowest_bit_row k = [k, 0, 1, 0, 2, 0, 1, 0, 3, 0, 1, 0, 2, 0, 1, 0]"

definition lowest_bit_bitmap :: "nat list" where
  "lowest_bit_bitmap = concat (map lowest_bit_row [0, 4, 5, 4, 6, 4, 5, 4, 7, 4, 5, 4, 6, 4, 5, 4])"

definition rt_ffs_table :: "u32 \<Rightarrow> nat" where
  "rt_ffs_table value =
     (if value = 0 then 0
      else if value AND 0xff \<noteq> 0 then lowest_bit_bitmap ! unat (value AND 0xff) + 1
      else if value AND 0xff00 \<noteq> 0 then lowest_bit_bitmap ! unat (drop_bit 8 (value AND 0xff00)) + 9
      else if value AND 0xff0000 \<noteq> 0 then lowest_bit_bitmap ! unat (drop_bit 16 (value AND 0xff0000)) + 17
      else lowest_bit_bitmap ! unat (drop_bit 24 (value AND 0xff000000)) + 25)"

definition tiny_bitmap :: "nat list" where
  "tiny_bitmap = [0, 1, 2, 27, 3, 24, 28, 32, 4, 17, 25, 31, 29, 12, 32, 14, 5, 8, 18, 32, 26, 23, 32, 16,
     30, 11, 13, 7, 32, 22, 15, 10, 6, 21, 9, 20, 19]"

definition rt_ffs_tiny :: "u32 \<Rightarrow> nat" where
  "rt_ffs_tiny value = tiny_bitmap ! (unat (value AND (value - 1) XOR value) mod 37)"

lemma rt_ffs_eqI:
  assumes "n < 32" "bit w n" "\<And>j. j < n \<Longrightarrow> \<not> bit w j"
  shows "rt_ffs w = Suc n"
proof -
  have "w \<noteq> 0" using assms(2) by auto
  then obtain k where k: "rt_ffs w = Suc k" using rt_ffs_eq_0_iff [of w] by (cases "rt_ffs w") auto
  have "k = n" using rt_ffs_SucD [OF k] assms(2,3) by (meson linorder_neqE_nat)
  then show ?thesis using k by simp
qed

text \<open>Each table entry names the lowest bit of its index; the tables therefore agree with \<^const>\<open>rt_ffs\<close>.\<close>

definition low_ok :: "nat \<Rightarrow> bool" where
  "low_ok v \<longleftrightarrow> (let i = lowest_bit_bitmap ! v in i < 8 \<and> odd (v div 2 ^ i) \<and> (\<forall>j \<in> set [0..<i]. even (v div 2 ^ j)))"

lemma low_entries: "list_all low_ok [1..<256]"
  by code_simp

lemma tiny_ok:
  assumes "n < 32"
  shows "tiny_bitmap ! (2 ^ n mod 37) = Suc n"
proof -
  have "list_all (\<lambda>n. tiny_bitmap ! nat ((2 :: int) ^ n mod 37) = Suc n) [0..<32]" by code_simp
  then have "tiny_bitmap ! nat ((2 :: int) ^ n mod 37) = Suc n" using assms by (simp add: list_all_iff)
  moreover have "nat ((2 :: int) ^ n mod 37) = 2 ^ n mod 37" by (simp add: nat_mod_distrib nat_power_eq)
  ultimately show ?thesis by simp
qed

lemma lowest_isolated:
  fixes w :: u32
  assumes "n < 32" "bit w n" "\<And>j. j < n \<Longrightarrow> \<not> bit w j"
  shows "w AND (w - 1) XOR w = 2 ^ n"
proof -
  define h where "h = w AND NOT (mask (Suc n))"
  have bh: "bit h i \<longleftrightarrow> n < i \<and> bit w i" for i using bit_imp_le_length [of w i] by (auto simp: h_def bit_simps)
  have bw: "bit w i \<longleftrightarrow> i = n \<or> n < i \<and> bit w i" for i
    using assms(2,3) by (cases i n rule: linorder_cases) auto
  have "w = h OR 2 ^ n"
  proof (rule bit_word_eqI)
    fix i assume "i < LENGTH(32)"
    then show "bit w i = bit (h OR 2 ^ n) i" by (subst bw) (auto simp: bit_simps bh)
  qed
  also have "\<dots> = h + 2 ^ n" by (rule sym, rule disjunctive_add_eq_or) (auto intro!: bit_word_eqI simp: bit_simps bh)
  finally have "w - 1 = h + mask n" by (simp add: mask_eq_exp_minus_1)
  also have "\<dots> = h OR mask n" by (rule disjunctive_add_eq_or) (auto intro!: bit_word_eqI simp: bit_simps bh)
  finally have w1: "w - 1 = h OR mask n" .
  show ?thesis unfolding w1
    by (rule bit_word_eqI) (use assms in \<open>auto simp: bit_simps bh\<close>)
qed

lemma rt_ffs_tiny_eq: "rt_ffs_tiny w = rt_ffs w"
proof (cases "w = 0")
  case True
  then show ?thesis using rt_ffs_eq_0_iff [of w] by (simp add: rt_ffs_tiny_def tiny_bitmap_def)
next
  case False
  define n where "n = rt_ffs w - 1"
  have n: "n < 32" "bit w n" "\<And>j. j < n \<Longrightarrow> \<not> bit w j" using rt_ffs_minus_1 [OF False] by (simp_all add: n_def)
  have "(2 :: nat) ^ n < 2 ^ 32" using n(1) by (intro power_strict_increasing) simp_all
  then have "unat (of_nat (2 ^ n) :: u32) = 2 ^ n" by (simp only: unat_of_nat) simp
  then have "unat (2 ^ n :: u32) = 2 ^ n" by simp
  then have "rt_ffs_tiny w = tiny_bitmap ! (2 ^ n mod 37)"
    using lowest_isolated [OF n] by (simp add: rt_ffs_tiny_def)
  also have "\<dots> = Suc n" by (rule tiny_ok [OF n(1)])
  finally show ?thesis using rt_ffs_eqI [OF n] by simp
qed

text \<open>One step of the table lookup: the byte at position \<open>k\<close>.\<close>

lemma byte_lookup:
  fixes w :: u32
  assumes k: "k + 8 \<le> 32" and nz: "take_bit 8 (drop_bit k w) \<noteq> 0" and low: "take_bit k w = 0"
  shows "lowest_bit_bitmap ! unat (take_bit 8 (drop_bit k w)) + k + 1 = rt_ffs w"
proof -
  let ?v = "unat (take_bit 8 (drop_bit k w))"
  define i where "i = lowest_bit_bitmap ! ?v"
  have v: "bit ?v j \<longleftrightarrow> j < 8 \<and> bit w (k + j)" for j by (simp add: bit_simps)
  have "?v < 256" using take_bit_nat_less_exp [of 8 "unat (drop_bit k w)"] by (simp add: unsigned_take_bit_eq)
  moreover have "?v \<noteq> 0" using nz by (simp add: unat_eq_0)
  ultimately have "low_ok ?v" using low_entries by (auto simp: list_all_iff)
  then have i: "i < 8" "bit ?v i" "\<And>j. j < i \<Longrightarrow> \<not> bit ?v j"
    by (auto simp: low_ok_def Let_def i_def bit_iff_odd)
  have "\<not> bit w j" if "j < i + k" for j
  proof (cases "j < k")
    case True
    have "bit (take_bit k w) j \<longleftrightarrow> bit w j" using True by (simp add: bit_simps)
    then show ?thesis using low by simp
  next
    case False
    then show ?thesis using that i(1) i(3) [of "j - k"] v [of "j - k"] by simp
  qed
  moreover have "i + k < 32" "bit w (i + k)" using i(1,2) k v [of i] by (simp_all add: add.commute)
  ultimately have "rt_ffs w = Suc (i + k)" by (intro rt_ffs_eqI)
  then show ?thesis by (simp add: i_def)
qed

lemma masked_bytes:
  fixes w :: u32
  shows "w AND 0xff = take_bit 8 (drop_bit 0 w)" "drop_bit 8 (w AND 0xff00) = take_bit 8 (drop_bit 8 w)"
    "drop_bit 16 (w AND 0xff0000) = take_bit 8 (drop_bit 16 w)" "drop_bit 24 (w AND 0xff000000) = take_bit 8 (drop_bit 24 w)"
proof -
  have m: "(0xff :: u32) = mask 8" "(0xff00 :: u32) = push_bit 8 (mask 8)" "(0xff0000 :: u32) = push_bit 16 (mask 8)"
    "(0xff000000 :: u32) = push_bit 24 (mask 8)"
    by (simp_all add: mask_eq_exp_minus_1 push_bit_eq_mult)
  show "w AND 0xff = take_bit 8 (drop_bit 0 w)" "drop_bit 8 (w AND 0xff00) = take_bit 8 (drop_bit 8 w)"
    "drop_bit 16 (w AND 0xff0000) = take_bit 8 (drop_bit 16 w)" "drop_bit 24 (w AND 0xff000000) = take_bit 8 (drop_bit 24 w)"
    unfolding m by (rule bit_word_eqI; auto simp: bit_simps)+
qed

lemma masked_zero:
  fixes w :: u32
  shows "w AND 0xff = 0 \<longleftrightarrow> take_bit 8 w = 0" "w AND 0xff00 = 0 \<longleftrightarrow> take_bit 8 (drop_bit 8 w) = 0"
    "w AND 0xff0000 = 0 \<longleftrightarrow> take_bit 8 (drop_bit 16 w) = 0"
proof -
  have m: "(0xff :: u32) = mask 8" "(0xff00 :: u32) = push_bit 8 (mask 8)" "(0xff0000 :: u32) = push_bit 16 (mask 8)"
    by (simp_all add: mask_eq_exp_minus_1 push_bit_eq_mult)
  have sh: "w AND push_bit k (mask 8) = push_bit k (take_bit 8 (drop_bit k w))" for k
    by (rule bit_word_eqI) (auto simp: bit_simps)
  have z: "push_bit k (take_bit 8 (drop_bit k w)) = 0 \<longleftrightarrow> take_bit 8 (drop_bit k w) = 0" if "k + 8 \<le> 32" for k
  proof -
    have "bit (push_bit k (take_bit 8 (drop_bit k w))) (k + n) \<longleftrightarrow> bit (take_bit 8 (drop_bit k w)) n" for n
      using that by (auto simp: bit_simps)
    then show ?thesis by (metis bit_0_eq bit_word_eqI bot_apply bot_bool_def push_bit_of_0)
  qed
  show "w AND 0xff = 0 \<longleftrightarrow> take_bit 8 w = 0" unfolding m by (simp add: take_bit_eq_mask)
  show "w AND 0xff00 = 0 \<longleftrightarrow> take_bit 8 (drop_bit 8 w) = 0" "w AND 0xff0000 = 0 \<longleftrightarrow> take_bit 8 (drop_bit 16 w) = 0"
    unfolding m sh by (rule z, simp)+
qed

lemma take_bit_step:
  fixes w :: u32
  assumes "take_bit k w = 0" "take_bit 8 (drop_bit k w) = 0"
  shows "take_bit (k + 8) w = 0"
proof (rule bit_word_eqI)
  fix n
  have "bit (take_bit k w) n = False" "bit (take_bit 8 (drop_bit k w)) (n - k) = False" using assms by simp_all
  then show "bit (take_bit (k + 8) w) n = bit 0 n" by (cases "n < k") (auto simp: bit_simps)
qed

lemma rt_ffs_table_eq: "rt_ffs_table w = rt_ffs w"
proof (cases "w = 0")
  case False
  have t0: "take_bit 0 w = 0" by simp
  show ?thesis
  proof (cases "take_bit 8 w = 0")
    case nz: False
    then show ?thesis using False byte_lookup [of 0 w] by (simp add: rt_ffs_table_def masked_zero masked_bytes)
  next
    case z0: True
    show ?thesis
    proof (cases "take_bit 8 (drop_bit 8 w) = 0")
      case nz: False
      then show ?thesis using False z0 byte_lookup [of 8 w] by (simp add: rt_ffs_table_def masked_zero masked_bytes)
    next
      case z1: True
      then have z1': "take_bit 16 w = 0" using take_bit_step [OF z0] by simp
      show ?thesis
      proof (cases "take_bit 8 (drop_bit 16 w) = 0")
        case nz: False
        then show ?thesis using False z0 z1 z1' byte_lookup [of 16 w] by (simp add: rt_ffs_table_def masked_zero masked_bytes)
      next
        case z2: True
        then have z2': "take_bit 24 w = 0" using take_bit_step [OF z1'] by simp
        then have "take_bit 8 (drop_bit 24 w) \<noteq> 0" using take_bit_step [of 24 w] take_bit_length_eq [of w] False by auto
        then show ?thesis
          using False z0 z1 z2 z2' byte_lookup [of 24 w] by (simp add: rt_ffs_table_def masked_zero masked_bytes)
      qed
    qed
  qed
qed (simp add: rt_ffs_table_def rt_ffs_eq_0_iff)

end
