(* ===== verification/Service_Props.thy ===== *)
theory Service_Props
  imports Klist Kservice Sample_State
begin

text \<open>
  Properties of the services the kernel rests on: the doubly linked lists of \<^verbatim>\<open>rtservice.h\<close> implement the
  lists of the kernel state, the memory and string functions of \<^verbatim>\<open>kservice.c\<close> meet their descriptions, and the
  table variants of finding the lowest bit agree with the one that the build uses.
\<close>

text \<open>Property C38: the list operations of the kernel model are implemented by the pointer operations of
  rtservice.h. If the nodes in memory form the thread lists of a kernel state in which every thread is in at most
  one list, then unlinking a thread, and linking a thread that is in no list at either end of a list, give memory
  that forms the lists of the new state; asking for an empty list, the first thread and the length give the
  answers for the lists, and the loop of the length ends.\<close>

theorem list_operations_refine:
  assumes "lists_in m (klists s)" "linked_once s"
  shows "lists_in (rt_list_remove (Node t) m) (klists (tlist_remove t s)) \<and>
    ((\<forall>h'. t \<notin> set (klists s h')) \<longrightarrow>
      lists_in (rt_list_insert_before (Head h) (Node t) m) (klists (tlist_insert_before h t s)) \<and>
      lists_in (rt_list_insert_after (Head h) (Node t) m) (klists (tlist_insert_after h t s))) \<and>
    (rt_list_isempty (Head h) m \<longleftrightarrow> klists s h = []) \<and>
    (klists s h \<noteq> [] \<longrightarrow> next_of m (Head h) = Node (hd (klists s h))) \<and>
    rt_list_len (Head h) m = Some (length (klists s h))"
  using assms remove_node [of m "klists s" t] insert_before_head [of m "klists s" t h]
    insert_after_head [of m "klists s" t h] list_isempty [of m "klists s" h]
    list_first [of m "klists s" h "hd (klists s h)" "tl (klists s h)"] list_len [of m "klists s" h]
  by (auto simp: linked_once_once tlist_defs)

definition sample_list_mem :: list_mem where
  "sample_list_mem = \<lparr>next_of = (\<lambda>a. a), prev_of = (\<lambda>a. a)\<rparr>"

text \<open>Memory for the lists of the sample state: the idle thread in its ready queue, thread 2 at event 20.\<close>

definition sample_lists :: list_mem where
  "sample_lists = rt_list_insert_before (Head (Susp 20)) (Node 2)
     (rt_list_insert_before (Head (Prio 31)) (Node 0) sample_list_mem)"

lemma sample_lists_in: "lists_in sample_lists (klists sample)"
  by (auto simp: lists_in_def sample_lists_def sample_list_mem_def list_defs Let_def sample_def)

lemma sample_linked_once: "linked_once sample"
  by (auto simp: linked_once_def sample_def split: if_splits)

theorem list_operations_refine_witness:
  "lists_in (rt_list_remove (Node 2) sample_lists) (klists (tlist_remove 2 sample)) \<and>
   lists_in (rt_list_insert_before (Head (Prio 31)) (Node 5) sample_lists) (klists (tlist_insert_before (Prio 31) 5 sample)) \<and>
   lists_in (rt_list_insert_after (Head (Prio 31)) (Node 5) sample_lists) (klists (tlist_insert_after (Prio 31) 5 sample)) \<and>
   rt_list_isempty (Head (Prio 3)) sample_lists \<and> next_of sample_lists (Head (Susp 20)) = Node 2 \<and>
   rt_list_len (Head (Susp 20)) sample_lists = Some 1"
proof -
  note L = list_operations_refine [OF sample_lists_in sample_linked_once]
  show ?thesis using L [of 2 "Susp 20"] L [of 5 "Prio 31"] L [of 5 "Prio 3"] by (simp add: sample_def)
qed

text \<open>Property C39: the three ways the kernel has of finding the lowest bit of a word agree. The search through a
  table of 256 entries byte by byte gives what the processor's instruction gives for every word, the small table
  indexed by the isolated bit modulo 37 too; the result is 0 for 0, and else one more than the position of the
  lowest bit, at most 32.\<close>

theorem lowest_bit_tables_agree:
  "rt_ffs_table w = rt_ffs w \<and> rt_ffs_tiny w = rt_ffs w \<and> (rt_ffs w = 0 \<longleftrightarrow> w = 0) \<and>
   (rt_ffs w = Suc n \<longrightarrow> n < 32 \<and> bit w n \<and> (\<forall>j. j < n \<longrightarrow> \<not> bit w j))"
  using rt_ffs_table_eq [of w] rt_ffs_tiny_eq [of w] rt_ffs_eq_0_iff [of w] rt_ffs_SucD [of w n] by auto

theorem lowest_bit_tables_agree_witness: "rt_ffs_table 40 = Suc 3 \<and> rt_ffs_tiny 40 = Suc 3"
proof -
  have "rt_ffs (40 :: u32) = Suc 3" by code_simp
  then show ?thesis using lowest_bit_tables_agree [of 40 3] by simp
qed

text \<open>Property C40: the memory functions do what their names say whatever the alignment of their arguments. Filling
  a mapped range gives every byte of it the value and leaves the rest, whether it goes by bytes or by words;
  moving puts the old bytes of the source range into the destination range, in whatever way the two overlap;
  copying does the same when no source byte is overwritten before it is read, that is when the destination starts
  at or below the source or the ranges are apart.\<close>

theorem memory_functions_correct:
  assumes "mapped dst k m" "mapped src k m"
  shows "(\<exists>m'. rt_memset dst c k m = Some m' \<and>
      (\<forall>x. m' x = (if dst \<le> x \<and> x < dst + k then Some (ucast c) else m x))) \<and>
    (\<exists>m'. rt_memmove dst src k m = Some m' \<and>
      (\<forall>i < k. m' (dst + i) = m (src + i)) \<and> (\<forall>x. x < dst \<or> dst + k \<le> x \<longrightarrow> m' x = m x)) \<and>
    (dst \<le> src \<or> src + k \<le> dst \<longrightarrow> rt_memcpy dst src k m = rt_memmove dst src k m)"
  using assms by (auto simp: rt_memset_spec put_range_def rt_memmove_spec rt_memcpy_spec upward_def moved_def)

definition sample_bytes :: mem where
  "sample_bytes = (\<lambda>x. if x < 64 then Some (of_nat x) else None)"

theorem memory_functions_correct_witness:
  "(\<exists>m'. rt_memset 8 7 20 sample_bytes = Some m' \<and> m' 27 = Some 7 \<and> m' 28 = Some 28) \<and>
   (\<exists>m'. rt_memmove 8 4 20 sample_bytes = Some m' \<and> m' 27 = Some 23 \<and> m' 28 = Some 28) \<and>
   rt_memcpy 4 8 20 sample_bytes = rt_memmove 4 8 20 sample_bytes"
proof -
  have M: "mapped 8 20 sample_bytes" "mapped 4 20 sample_bytes" by (simp_all add: mapped_def sample_bytes_def)
  note L = memory_functions_correct [OF M, of 7]
  have "\<exists>m'. rt_memset 8 7 20 sample_bytes = Some m' \<and> m' 27 = Some 7 \<and> m' 28 = Some 28"
    using L by (auto simp: sample_bytes_def)
  moreover have "\<exists>m'. rt_memmove 8 4 20 sample_bytes = Some m' \<and> m' 27 = Some 23 \<and> m' 28 = Some 28"
  proof -
    obtain m' where "rt_memmove 8 4 20 sample_bytes = Some m'" "\<forall>i < 20. m' (8 + i) = sample_bytes (4 + i)"
      "\<forall>x. x < 8 \<or> 28 \<le> x \<longrightarrow> m' x = sample_bytes x" using L by auto
    then show ?thesis by (auto simp: sample_bytes_def dest: spec [of _ 19])
  qed
  moreover have "rt_memcpy 4 8 20 sample_bytes = rt_memmove 4 8 20 sample_bytes"
    using memory_functions_correct [OF M(2,1)] by simp
  ultimately show ?thesis by simp
qed

end
