(* ===== verification/Mq.thy ===== *)
theory Mq
  imports Mailbox
begin

text \<open>
  Message queues (\<^verbatim>\<open>rt-thread/src/ipc.c\<close>): messages of bytes in the nodes of a pool, linked into a queue and
  a list of free nodes. A sender takes a free node with interrupts disabled, fills it with interrupts enabled, and
  links it with interrupts disabled; a receiver unlinks, reads and releases. Each of these sections is a definition
  of its own, so that the sections of several threads can be interleaved: any interleaving keeps every node in
  exactly one place, and without interruption the queue is a bounded first-in-first-out queue.

  A node is its number in the pool (\<open>temp\<close> of the loop in \<^verbatim>\<open>rt_mq_init\<close>); its contents are as many bytes as the
  message size of the queue.
\<close>

definition RT_MQ_ENTRY_MAX :: u16 where "RT_MQ_ENTRY_MAX = 0xffff"

definition upd_mq ::
  "nat \<Rightarrow> (rt_messagequeue \<Rightarrow> rt_messagequeue) \<Rightarrow> 'a ipc_state_scheme \<Rightarrow> 'a ipc_state_scheme" where
  "upd_mq n f s = s\<lparr>mqueues := (mqueues s)(n := f (mqueues s n))\<rparr>"

section \<open>Setting up\<close>

text \<open>The loop that puts every node on the free list, and the fields set around it.\<close>

fun mq_free_loop :: "nat \<Rightarrow> nat \<Rightarrow> rt_messagequeue \<Rightarrow> rt_messagequeue" where
  "mq_free_loop 0 temp m = m"
| "mq_free_loop (Suc k) temp m =
     mq_free_loop k (temp + 1) (m\<lparr>mq_next := (mq_next m)(temp := mq_free m), mq_free := Some temp\<rparr>)"

definition mq_clear :: "rt_messagequeue \<Rightarrow> rt_messagequeue" where
  "mq_clear m =
     (let m1 = m\<lparr>mq_head := None, mq_tail := None, mq_free := None\<rparr>;
          m2 = mq_free_loop (unat (mq_max_msgs m1)) 0 m1
      in m2\<lparr>mq_entry := 0\<rparr>)"

text \<open>\<open>pool\<close> is what the memory of the pool holds, node by node. The number of nodes is the size of the pool
  divided by that of a node with its link, stored into 16 bits.\<close>

definition rt_mq_init ::
  "nat \<Rightarrow> string \<Rightarrow> (nat \<Rightarrow> u8 list) \<Rightarrow> u32 \<Rightarrow> u32 \<Rightarrow> u8 \<Rightarrow> 'a ipc_state_scheme \<Rightarrow>
   (rt_err_t \<times> 'a ipc_state_scheme) option" where
  "rt_mq_init n name pool msg_size pool_size flag s = do {
     _ \<leftarrow> RT_ASSERT (flag = RT_IPC_FLAG_FIFO \<or> flag = RT_IPC_FLAG_PRIO);
     s1 \<leftarrow> rt_object_init (Kobj n) RT_Object_Class_MessageQueue name s;
     let s2 = ipc_object_init n (upd_object (Kobj n) (\<lambda>ob. ob\<lparr>o_flag := flag\<rparr>) s1);
     let sz = ucast (align4 msg_size);
     let cnt = ucast (pool_size div (ucast sz + 4));
     let s3 = upd_mq n (\<lambda>m. mq_clear (m\<lparr>mq_data := pool, mq_msg_size := sz, mq_max_msgs := cnt\<rparr>)) s2;
     Some (RT_EOK, mb_senders_init n s3)
   }"

definition rt_mq_detach :: "nat \<Rightarrow> 'a ipc_state_scheme \<Rightarrow> (rt_err_t \<times> 'a ipc_state_scheme) option" where
  "rt_mq_detach n s = do {
     _ \<leftarrow> RT_ASSERT (rt_object_get_type (Kobj n) s = RT_Object_Class_MessageQueue);
     _ \<leftarrow> RT_ASSERT (rt_object_is_systemobject (Kobj n) s);
     s1 \<leftarrow> ipc_list_resume_all (Susp n) s;
     s2 \<leftarrow> ipc_list_resume_all (SendSusp n) s1;
     Some (RT_EOK, rt_object_detach (Kobj n) s2)
   }"

text \<open>\<open>ptr\<close> and \<open>pool\<close> are what the two allocations return.\<close>

definition rt_mq_create ::
  "nat option \<Rightarrow> (nat \<Rightarrow> u8 list) option \<Rightarrow> string \<Rightarrow> u32 \<Rightarrow> u32 \<Rightarrow> u8 \<Rightarrow> 'a ipc_state_scheme \<Rightarrow>
   (nat option \<times> 'a ipc_state_scheme) option" where
  "rt_mq_create ptr pool name msg_size max_msgs flag s = do {
     _ \<leftarrow> RT_ASSERT (flag = RT_IPC_FLAG_FIFO \<or> flag = RT_IPC_FLAG_PRIO);
     _ \<leftarrow> RT_ASSERT (interrupt_nest s = 0);
     (ob, s1) \<leftarrow> rt_object_allocate (map_option Kobj ptr) RT_Object_Class_MessageQueue name s;
     case ptr of None \<Rightarrow> Some (None, s1)
     | Some n \<Rightarrow> (
         let s2 = ipc_object_init n (upd_object (Kobj n) (\<lambda>ob. ob\<lparr>o_flag := flag\<rparr>) s1);
             s3 = upd_mq n (\<lambda>m. m\<lparr>mq_msg_size := ucast (align4 msg_size), mq_max_msgs := ucast max_msgs\<rparr>) s2
         in case pool of
              None \<Rightarrow> do { s4 \<leftarrow> rt_object_delete (Kobj n) s3; Some (None, s4) }
            | Some p \<Rightarrow> Some (Some n, mb_senders_init n (upd_mq n (\<lambda>m. mq_clear (m\<lparr>mq_data := p\<rparr>)) s3)))
   }"

definition rt_mq_delete :: "nat \<Rightarrow> 'a ipc_state_scheme \<Rightarrow> (rt_err_t \<times> 'a ipc_state_scheme) option" where
  "rt_mq_delete n s = do {
     _ \<leftarrow> RT_ASSERT (rt_object_get_type (Kobj n) s = RT_Object_Class_MessageQueue);
     _ \<leftarrow> RT_ASSERT (\<not> rt_object_is_systemobject (Kobj n) s);
     _ \<leftarrow> RT_ASSERT (interrupt_nest s = 0);
     s1 \<leftarrow> ipc_list_resume_all (Susp n) s;
     s2 \<leftarrow> ipc_list_resume_all (SendSusp n) s1;
     s3 \<leftarrow> rt_object_delete (Kobj n) s2;
     Some (RT_EOK, s3)
   }"

section \<open>The sections of sending and receiving\<close>

text \<open>\<open>None\<close>: there is no free node.\<close>

definition mq_alloc :: "rt_messagequeue \<Rightarrow> (nat \<times> rt_messagequeue) option" where
  "mq_alloc m = (case mq_free m of None \<Rightarrow> None | Some x \<Rightarrow> Some (x, m\<lparr>mq_free := mq_next m x\<rparr>))"

text \<open>The bytes of the buffer are copied over the start of the contents; an urgent sender does not touch the link
  here.\<close>

definition mq_copy :: "nat \<Rightarrow> u8 list \<Rightarrow> rt_messagequeue \<Rightarrow> rt_messagequeue" where
  "mq_copy x buf m = m\<lparr>mq_data := (mq_data m)(x := buf @ drop (length buf) (mq_data m x))\<rparr>"

definition mq_fill :: "nat \<Rightarrow> u8 list \<Rightarrow> rt_messagequeue \<Rightarrow> rt_messagequeue" where
  "mq_fill x buf m = mq_copy x buf (m\<lparr>mq_next := (mq_next m)(x := None)\<rparr>)"

definition mq_count :: "rt_messagequeue \<Rightarrow> rt_err_t \<times> rt_messagequeue" where
  "mq_count m = (if mq_entry m < RT_MQ_ENTRY_MAX then (RT_EOK, m\<lparr>mq_entry := mq_entry m + 1\<rparr>) else (- RT_EFULL, m))"

definition mq_link_tail :: "nat \<Rightarrow> rt_messagequeue \<Rightarrow> rt_err_t \<times> rt_messagequeue" where
  "mq_link_tail x m =
     (let m1 = (case mq_tail m of Some y \<Rightarrow> m\<lparr>mq_next := (mq_next m)(y := Some x)\<rparr> | None \<Rightarrow> m);
          m2 = m1\<lparr>mq_tail := Some x\<rparr>;
          m3 = (if mq_head m2 = None then m2\<lparr>mq_head := Some x\<rparr> else m2)
      in mq_count m3)"

definition mq_link_head :: "nat \<Rightarrow> rt_messagequeue \<Rightarrow> rt_err_t \<times> rt_messagequeue" where
  "mq_link_head x m =
     (let m1 = m\<lparr>mq_next := (mq_next m)(x := mq_head m), mq_head := Some x\<rparr>;
          m2 = (if mq_tail m1 = None then m1\<lparr>mq_tail := Some x\<rparr> else m1)
      in mq_count m2)"

definition mq_pop :: "nat \<Rightarrow> rt_messagequeue \<Rightarrow> rt_messagequeue" where
  "mq_pop x m =
     (let m1 = m\<lparr>mq_head := mq_next m x\<rparr>
      in if mq_tail m1 = Some x then m1\<lparr>mq_tail := None\<rparr> else m1)"

text \<open>\<open>None\<close>: the head is null and would be read through.\<close>

definition mq_unlink :: "rt_messagequeue \<Rightarrow> (nat \<times> rt_messagequeue) option" where
  "mq_unlink m = do {
     x \<leftarrow> mq_head m;
     let m1 = mq_pop x m;
     Some (x, if mq_entry m1 > 0 then m1\<lparr>mq_entry := mq_entry m1 - 1\<rparr> else m1)
   }"

definition mq_read :: "nat \<Rightarrow> nat \<Rightarrow> rt_messagequeue \<Rightarrow> u8 list" where
  "mq_read x sz m = take (if sz > unat (mq_msg_size m) then unat (mq_msg_size m) else sz) (mq_data m x)"

definition mq_release :: "nat \<Rightarrow> rt_messagequeue \<Rightarrow> rt_messagequeue" where
  "mq_release x m = m\<lparr>mq_next := (mq_next m)(x := mq_free m), mq_free := Some x\<rparr>"

text \<open>The loop of a reset.\<close>

partial_function (option) mq_drain :: "rt_messagequeue \<Rightarrow> rt_messagequeue option" where
  "mq_drain m = (case mq_head m of None \<Rightarrow> Some m | Some x \<Rightarrow> mq_drain (mq_release x (mq_pop x m)))"

text \<open>The sections one after the other.\<close>

definition mq_put :: "u8 list \<Rightarrow> rt_messagequeue \<Rightarrow> (rt_err_t \<times> rt_messagequeue) option" where
  "mq_put buf m = do { (x, m1) \<leftarrow> mq_alloc m; Some (mq_link_tail x (mq_fill x buf m1)) }"

definition mq_put_front :: "u8 list \<Rightarrow> rt_messagequeue \<Rightarrow> (rt_err_t \<times> rt_messagequeue) option" where
  "mq_put_front buf m = do { (x, m1) \<leftarrow> mq_alloc m; Some (mq_link_head x (mq_copy x buf m1)) }"

definition mq_get :: "nat \<Rightarrow> rt_messagequeue \<Rightarrow> (u8 list \<times> rt_messagequeue) option" where
  "mq_get sz m = do { (x, m1) \<leftarrow> mq_unlink m; Some (mq_read x sz m1, mq_release x m1) }"

section \<open>Sending and receiving\<close>

definition mq_send_store ::
  "nat \<Rightarrow> u8 list \<Rightarrow> 'a ipc_state_scheme \<Rightarrow> (unit outcome \<times> 'a ipc_state_scheme) option" where
  "mq_send_store n buf s = do {
     (err, m) \<leftarrow> mq_put buf (mqueues s n);
     let s1 = upd_mq n (\<lambda>_. m) s;
     if err \<noteq> RT_EOK then Some (Return err (), s1)
     else do {
       s2 \<leftarrow> ipc_wake_one (Susp n) s1;
       Some (Return RT_EOK (), s2)
     }
   }"

definition mq_send_loop ::
  "nat \<Rightarrow> u8 list \<Rightarrow> int \<Rightarrow> nat \<Rightarrow> 'a ipc_state_scheme \<Rightarrow> (unit outcome \<times> 'a ipc_state_scheme) option" where
  "mq_send_loop n buf timeout t s =
     (if mq_free (mqueues s n) = None then
        let s1 = upd_thread t (\<lambda>th. th\<lparr>t_error := RT_EOK\<rparr>) s
        in if timeout = 0 then Some (Return (- RT_EFULL) (), s1)
           else do {
             _ \<leftarrow> RT_ASSERT (in_thread_context s1);
             s2 \<leftarrow> ipc_block (SendSusp n) t (o_flag (objects s1 (Kobj n))) timeout s1;
             Some (Wait (rt_tick s1), s2)
           }
      else mq_send_store n buf s)"

definition rt_mq_send_wait ::
  "nat \<Rightarrow> u8 list \<Rightarrow> int \<Rightarrow> 'a ipc_state_scheme \<Rightarrow> (unit outcome \<times> 'a ipc_state_scheme) option" where
  "rt_mq_send_wait n buf timeout s = do {
     _ \<leftarrow> RT_ASSERT (rt_object_get_type (Kobj n) s = RT_Object_Class_MessageQueue);
     _ \<leftarrow> RT_ASSERT (length buf \<noteq> 0);
     if length buf > unat (mq_msg_size (mqueues s n)) then Some (Return (- RT_ERROR) (), s)
     else if mq_free (mqueues s n) = None \<and> timeout = 0 then Some (Return (- RT_EFULL) (), s)
     else if mq_free (mqueues s n) = None
     then do { t \<leftarrow> rt_thread_self s; mq_send_loop n buf timeout t s }
     else mq_send_store n buf s
   }"

definition mq_send_resumed ::
  "nat \<Rightarrow> u8 list \<Rightarrow> int \<Rightarrow> u32 \<Rightarrow> nat \<Rightarrow> 'a ipc_state_scheme \<Rightarrow> (unit outcome \<times> 'a ipc_state_scheme) option" where
  "mq_send_resumed n buf timeout start t s =
     (if t_error (threads s t) \<noteq> RT_EOK then Some (Return (t_error (threads s t)) (), s)
      else mq_send_loop n buf (timeout_left timeout start (rt_tick_get s)) t s)"

definition rt_mq_send ::
  "nat \<Rightarrow> u8 list \<Rightarrow> 'a ipc_state_scheme \<Rightarrow> (unit outcome \<times> 'a ipc_state_scheme) option" where
  "rt_mq_send n buf s = rt_mq_send_wait n buf 0 s"

definition rt_mq_urgent ::
  "nat \<Rightarrow> u8 list \<Rightarrow> 'a ipc_state_scheme \<Rightarrow> (rt_err_t \<times> 'a ipc_state_scheme) option" where
  "rt_mq_urgent n buf s = do {
     _ \<leftarrow> RT_ASSERT (rt_object_get_type (Kobj n) s = RT_Object_Class_MessageQueue);
     _ \<leftarrow> RT_ASSERT (length buf \<noteq> 0);
     if length buf > unat (mq_msg_size (mqueues s n)) then Some (- RT_ERROR, s)
     else if mq_free (mqueues s n) = None then Some (- RT_EFULL, s)
     else do {
       (err, m) \<leftarrow> mq_put_front buf (mqueues s n);
       let s1 = upd_mq n (\<lambda>_. m) s;
       if err \<noteq> RT_EOK then Some (err, s1)
       else do { s2 \<leftarrow> ipc_wake_one (Susp n) s1; Some (RT_EOK, s2) }
     }
   }"

text \<open>\<^verbatim>\<open>rt_mq_recv\<close>: the value of the outcome is what is written to the buffer, which has room for \<open>sz\<close> bytes.\<close>

definition mq_recv_fetch ::
  "nat \<Rightarrow> nat \<Rightarrow> 'a ipc_state_scheme \<Rightarrow> (u8 list option outcome \<times> 'a ipc_state_scheme) option" where
  "mq_recv_fetch n sz s = do {
     (v, m) \<leftarrow> mq_get sz (mqueues s n);
     s2 \<leftarrow> ipc_wake_one (SendSusp n) (upd_mq n (\<lambda>_. m) s);
     Some (Return RT_EOK (Some v), s2)
   }"

definition mq_recv_loop ::
  "nat \<Rightarrow> nat \<Rightarrow> int \<Rightarrow> nat \<Rightarrow> 'a ipc_state_scheme \<Rightarrow> (u8 list option outcome \<times> 'a ipc_state_scheme) option" where
  "mq_recv_loop n sz timeout t s =
     (if mq_entry (mqueues s n) = 0 then do {
        _ \<leftarrow> RT_ASSERT (in_thread_context s);
        let s1 = upd_thread t (\<lambda>th. th\<lparr>t_error := RT_EOK\<rparr>) s;
        if timeout = 0
        then Some (Return (- RT_ETIMEOUT) None, upd_thread t (\<lambda>th. th\<lparr>t_error := - RT_ETIMEOUT\<rparr>) s1)
        else do {
          s2 \<leftarrow> ipc_block (Susp n) t (o_flag (objects s1 (Kobj n))) timeout s1;
          Some (Wait (rt_tick s1), s2)
        }
      } else mq_recv_fetch n sz s)"

definition rt_mq_recv ::
  "nat \<Rightarrow> nat \<Rightarrow> int \<Rightarrow> 'a ipc_state_scheme \<Rightarrow> (u8 list option outcome \<times> 'a ipc_state_scheme) option" where
  "rt_mq_recv n sz timeout s = do {
     _ \<leftarrow> RT_ASSERT (rt_object_get_type (Kobj n) s = RT_Object_Class_MessageQueue);
     _ \<leftarrow> RT_ASSERT (sz \<noteq> 0);
     if mq_entry (mqueues s n) = 0 \<and> timeout = 0 then Some (Return (- RT_ETIMEOUT) None, s)
     else if mq_entry (mqueues s n) = 0
     then do { t \<leftarrow> rt_thread_self s; mq_recv_loop n sz timeout t s }
     else mq_recv_fetch n sz s
   }"

definition mq_recv_resumed ::
  "nat \<Rightarrow> nat \<Rightarrow> int \<Rightarrow> u32 \<Rightarrow> nat \<Rightarrow> 'a ipc_state_scheme \<Rightarrow> (u8 list option outcome \<times> 'a ipc_state_scheme) option" where
  "mq_recv_resumed n sz timeout start t s =
     (if t_error (threads s t) \<noteq> RT_EOK then Some (Return (t_error (threads s t)) None, s)
      else mq_recv_loop n sz (timeout_left timeout start (rt_tick_get s)) t s)"

definition rt_mq_control ::
  "nat \<Rightarrow> ipc_cmd \<Rightarrow> 'a ipc_state_scheme \<Rightarrow> (rt_err_t \<times> 'a ipc_state_scheme) option" where
  "rt_mq_control n cmd s = do {
     _ \<leftarrow> RT_ASSERT (rt_object_get_type (Kobj n) s = RT_Object_Class_MessageQueue);
     case cmd of
       RT_IPC_CMD_RESET \<Rightarrow> do {
         s1 \<leftarrow> ipc_list_resume_all (Susp n) s;
         s2 \<leftarrow> ipc_list_resume_all (SendSusp n) s1;
         m \<leftarrow> mq_drain (mqueues s2 n);
         s3 \<leftarrow> rt_schedule (upd_mq n (\<lambda>_. m\<lparr>mq_entry := 0\<rparr>) s2);
         Some (RT_EOK, s3) }
     | RT_IPC_CMD_OTHER \<Rightarrow> Some (- RT_ERROR, s)
   }"

lemmas mq_section_defs = mq_alloc_def mq_copy_def mq_fill_def mq_count_def mq_link_tail_def mq_link_head_def mq_pop_def
  mq_unlink_def mq_release_def

section \<open>Chains of nodes\<close>

fun path :: "(nat \<Rightarrow> nat option) \<Rightarrow> nat option \<Rightarrow> nat list \<Rightarrow> bool" where
  "path nx p [] \<longleftrightarrow> p = None"
| "path nx p (x # xs) \<longleftrightarrow> p = Some x \<and> path nx (nx x) xs"

lemma path_frame [simp]: "x \<notin> set xs \<Longrightarrow> path (nx(x := v)) p xs = path nx p xs"
  by (induction xs arbitrary: p) auto

lemma path_None: "path nx None xs \<longleftrightarrow> xs = []"
  by (cases xs) auto

lemma path_Some: "path nx (Some x) xs \<longleftrightarrow> (\<exists>ys. xs = x # ys \<and> path nx (nx x) ys)"
  by (cases xs) auto

lemma path_snoc:
  "path nx p xs \<Longrightarrow> distinct xs \<Longrightarrow> x \<notin> set xs \<Longrightarrow> nx x = None \<Longrightarrow> xs \<noteq> [] \<Longrightarrow>
   path (nx(last xs := Some x)) p (xs @ [x])"
proof (induction xs arbitrary: p)
  case (Cons a xs)
  show ?case
  proof (cases "xs = []")
    case False
    then have "last xs \<noteq> a" using Cons.prems(2) last_in_set [of xs] by auto
    then show ?thesis using Cons False by simp
  qed (use Cons.prems in auto)
qed simp

text \<open>The nodes of a chain, at most \<open>k\<close> of them.\<close>

fun walk :: "nat \<Rightarrow> (nat \<Rightarrow> nat option) \<Rightarrow> nat option \<Rightarrow> nat list" where
  "walk 0 nx p = []"
| "walk (Suc k) nx p = (case p of None \<Rightarrow> [] | Some x \<Rightarrow> x # walk k nx (nx x))"

lemma path_walk: "path nx p xs \<Longrightarrow> walk (length xs) nx p = xs"
  by (induction xs arbitrary: p) auto

section \<open>Every node in one place\<close>

text \<open>The free nodes \<open>fs\<close>, the queued ones \<open>qs\<close> and those that a thread holds between two sections (\<open>F\<close>) are
  the nodes of the pool, each once.\<close>

definition placed :: "nat list \<Rightarrow> nat list \<Rightarrow> nat set \<Rightarrow> nat \<Rightarrow> bool" where
  "placed fs qs F n \<longleftrightarrow> distinct (fs @ qs) \<and> (\<forall>y. y \<in> set fs \<or> y \<in> set qs \<longrightarrow> y \<notin> F) \<and>
     (\<forall>y. y < n \<longleftrightarrow> y \<in> set fs \<or> y \<in> set qs \<or> y \<in> F)"

lemma placed_moves:
  "placed (x # fs) qs F n \<Longrightarrow> placed fs qs (insert x F) n"
  "placed fs (x # qs) F n \<Longrightarrow> placed fs qs (insert x F) n"
  "placed fs qs F n \<Longrightarrow> x \<in> F \<Longrightarrow> placed fs (qs @ [x]) (F - {x}) n"
  "placed fs qs F n \<Longrightarrow> x \<in> F \<Longrightarrow> placed fs (x # qs) (F - {x}) n"
  "placed fs qs F n \<Longrightarrow> x \<in> F \<Longrightarrow> placed (x # fs) qs (F - {x}) n"
  unfolding placed_def by auto

lemma placed_apart:
  "placed fs qs F n \<Longrightarrow> x \<in> F \<Longrightarrow> x \<notin> set fs" "placed fs qs F n \<Longrightarrow> x \<in> F \<Longrightarrow> x \<notin> set qs"
  "placed fs qs F n \<Longrightarrow> distinct qs" "placed fs qs F n \<Longrightarrow> x \<in> set qs \<Longrightarrow> x \<notin> set fs"
  unfolding placed_def by auto

lemma placed_count:
  assumes "placed fs qs F n"
  shows "length fs + length qs + card F = n"
proof -
  have un: "set (fs @ qs) \<union> F = {0..<n}" "set (fs @ qs) \<inter> F = {}" "distinct (fs @ qs)"
    using assms by (auto simp: placed_def)
  then have fin: "finite F" using finite_subset [of F "{0..<n}"] by auto
  have "card (set (fs @ qs) \<union> F) = length (fs @ qs) + card F"
    using card_Un_disjoint [OF _ fin un(2)] distinct_card [OF un(3)] by simp
  then show ?thesis using un(1) by simp
qed

definition mq_shape :: "nat list \<Rightarrow> nat list \<Rightarrow> nat set \<Rightarrow> rt_messagequeue \<Rightarrow> bool" where
  "mq_shape fs qs F m \<longleftrightarrow> path (mq_next m) (mq_free m) fs \<and> path (mq_next m) (mq_head m) qs \<and>
     mq_tail m = (if qs = [] then None else Some (last qs)) \<and> placed fs qs F (unat (mq_max_msgs m)) \<and>
     unat (mq_entry m) = length qs \<and> (\<forall>x. length (mq_data m x) = unat (mq_msg_size m))"

lemma mq_shape_apart:
  "mq_shape fs qs F m \<Longrightarrow> x \<in> F \<Longrightarrow> x \<notin> set fs" "mq_shape fs qs F m \<Longrightarrow> x \<in> F \<Longrightarrow> x \<notin> set qs"
  by (auto simp: mq_shape_def dest: placed_apart)

lemma mq_shape_bound: "mq_shape fs qs F m \<Longrightarrow> length fs + length qs + card F = unat (mq_max_msgs m)"
  by (auto simp: mq_shape_def placed_count)

text \<open>Taking a free node.\<close>

lemma mq_alloc_shape:
  assumes "mq_shape (x # fs) qs F m"
  shows "mq_alloc m = Some (x, m\<lparr>mq_free := mq_next m x\<rparr>)" "mq_shape fs qs (insert x F) (m\<lparr>mq_free := mq_next m x\<rparr>)"
  using assms by (auto simp: mq_shape_def mq_alloc_def intro: placed_moves)

lemma mq_alloc_None: "mq_shape fs qs F m \<Longrightarrow> mq_alloc m = None \<longleftrightarrow> fs = []"
  by (auto simp: mq_alloc_def mq_shape_def path_None path_Some split: option.splits)

text \<open>Filling it; nobody else sees the node.\<close>

lemma mq_copy_shape:
  assumes "mq_shape fs qs F m" "x \<in> F" "length buf \<le> unat (mq_msg_size m)"
  shows "mq_shape fs qs F (mq_copy x buf m)" "map (mq_data (mq_copy x buf m)) qs = map (mq_data m) qs"
  using assms mq_shape_apart [OF assms(1,2)] by (auto simp: mq_shape_def mq_copy_def)

lemma mq_fill_shape:
  assumes "mq_shape fs qs F m" "x \<in> F" "length buf \<le> unat (mq_msg_size m)"
  shows "mq_shape fs qs F (mq_fill x buf m)" "map (mq_data (mq_fill x buf m)) qs = map (mq_data m) qs"
proof -
  let ?m = "m\<lparr>mq_next := (mq_next m)(x := None)\<rparr>"
  have "mq_shape fs qs F ?m" using assms(1) mq_shape_apart [OF assms(1,2)] by (simp add: mq_shape_def)
  from mq_copy_shape [OF this assms(2)] assms(3)
  show "mq_shape fs qs F (mq_fill x buf m)" "map (mq_data (mq_fill x buf m)) qs = map (mq_data m) qs"
    by (auto simp: mq_fill_def)
qed

text \<open>Linking it; the count cannot overflow, because the node that is linked is not yet counted.\<close>

lemma mq_count_room:
  assumes "mq_shape fs qs F m" "x \<in> F"
  shows "mq_entry m < RT_MQ_ENTRY_MAX" "unat (mq_entry m + 1) = Suc (length qs)"
proof -
  have "F \<subseteq> {0..<unat (mq_max_msgs m)}" using assms(1) by (auto simp: mq_shape_def placed_def)
  then have "finite F" by (rule finite_subset) simp
  then have "0 < card F" using assms(2) by (auto simp: card_gt_0_iff)
  then have "length qs < unat (mq_max_msgs m)" using mq_shape_bound [OF assms(1)] by linarith
  moreover have "unat (mq_entry m) = length qs" using assms(1) by (simp add: mq_shape_def)
  ultimately have lt: "mq_entry m < mq_max_msgs m" by (simp add: word_less_nat_alt)
  have "unat (mq_max_msgs m) < 2 ^ 16" using unsigned_less [of "mq_max_msgs m"] by simp
  then have "mq_max_msgs m \<le> RT_MQ_ENTRY_MAX" by (simp add: RT_MQ_ENTRY_MAX_def word_le_nat_alt)
  then show "mq_entry m < RT_MQ_ENTRY_MAX" using lt by simp
  show "unat (mq_entry m + 1) = Suc (length qs)"
    using unat_Suc_below [OF lt] assms(1) by (simp add: mq_shape_def)
qed

lemma mq_link_tail_shape:
  assumes sh: "mq_shape fs qs F m" and x: "x \<in> F" and nx: "mq_next m x = None"
  shows "\<exists>m'. mq_link_tail x m = (RT_EOK, m') \<and> mq_shape fs (qs @ [x]) (F - {x}) m' \<and> mq_data m' = mq_data m \<and>
    mq_msg_size m' = mq_msg_size m \<and> mq_max_msgs m' = mq_max_msgs m \<and>
    (\<forall>y \<in> F. mq_next m' y = mq_next m y)"
proof -
  note room = mq_count_room [OF sh x] and qx = mq_shape_apart [OF sh x]
  have pl: "placed fs qs F (unat (mq_max_msgs m))" using sh by (simp add: mq_shape_def)
  note pl' = placed_moves(3) [OF pl x]
  show ?thesis
  proof (cases "qs = []")
    case True
    then show ?thesis using sh nx qx room pl' by (simp add: mq_shape_def mq_link_tail_def mq_count_def path_None)
  next
    case False
    have l: "last qs \<in> set qs" using False by simp
    then have "last qs \<notin> set fs" "last qs \<notin> F" using pl by (auto simp: placed_def)
    moreover have "path ((mq_next m)(last qs := Some x)) (mq_head m) (qs @ [x])"
      using path_snoc [of "mq_next m" "mq_head m" qs x] sh nx qx False placed_apart(3) [OF pl] by (simp add: mq_shape_def)
    moreover have "mq_head m \<noteq> None" using sh False by (cases qs) (auto simp: mq_shape_def)
    ultimately show ?thesis
      using sh qx room False pl' by (auto simp: mq_shape_def mq_link_tail_def mq_count_def)
  qed
qed

lemma mq_link_head_shape:
  assumes sh: "mq_shape fs qs F m" and x: "x \<in> F"
  shows "\<exists>m'. mq_link_head x m = (RT_EOK, m') \<and> mq_shape fs (x # qs) (F - {x}) m' \<and> mq_data m' = mq_data m \<and>
    mq_msg_size m' = mq_msg_size m \<and> mq_max_msgs m' = mq_max_msgs m \<and>
    (\<forall>y \<in> F - {x}. mq_next m' y = mq_next m y)"
proof -
  note room = mq_count_room [OF sh x] and qx = mq_shape_apart [OF sh x]
  have "placed fs (x # qs) (F - {x}) (unat (mq_max_msgs m))" using sh x by (simp add: mq_shape_def placed_moves)
  then show ?thesis using sh qx room by (auto simp: mq_shape_def mq_link_head_def mq_count_def path_None)
qed

text \<open>Unlinking the first message, and giving the node back.\<close>

lemma mq_pop_shape:
  assumes sh: "mq_shape fs (x # qs) F m"
  shows "mq_shape fs qs (insert x F) ((mq_pop x m)\<lparr>mq_entry := mq_entry m - 1\<rparr>)"
proof -
  have "unat (mq_entry m) = Suc (length qs)" using sh by (simp add: mq_shape_def)
  then have "unat (mq_entry m - 1) = length qs"
    by (metis Suc_inject Suc_pred' unat_minus_one unat_gt_0 diff_Suc_1 zero_less_Suc)
  moreover have "qs \<noteq> [] \<Longrightarrow> last qs \<noteq> x" using sh last_in_set [of qs] by (auto simp: mq_shape_def placed_def)
  ultimately show ?thesis
    using sh placed_moves(2) [of fs x qs F] by (auto simp: mq_shape_def mq_pop_def Let_def split: if_splits)
qed

lemma mq_unlink_shape:
  assumes sh: "mq_shape fs (x # qs) F m"
  shows "\<exists>m'. mq_unlink m = Some (x, m') \<and> mq_shape fs qs (insert x F) m' \<and> mq_data m' = mq_data m \<and>
    mq_msg_size m' = mq_msg_size m \<and> mq_max_msgs m' = mq_max_msgs m \<and> mq_next m' = mq_next m"
proof -
  have "mq_head m = Some x" "mq_entry m > 0" using sh by (auto simp: mq_shape_def word_less_nat_alt)
  then show ?thesis using mq_pop_shape [OF sh] by (auto simp: mq_unlink_def mq_pop_def Let_def)
qed

lemma mq_release_shape:
  assumes "mq_shape fs qs F m" "x \<in> F"
  shows "mq_shape (x # fs) qs (F - {x}) (mq_release x m)"
  using assms mq_shape_apart [OF assms] by (simp add: mq_shape_def mq_release_def placed_moves)

text \<open>The free list after setting up, and the queue after a reset.\<close>

lemma mq_free_loop_path:
  "path (mq_next m) (mq_free m) (rev [0..<temp]) \<Longrightarrow>
   path (mq_next (mq_free_loop k temp m)) (mq_free (mq_free_loop k temp m)) (rev [0..<temp + k])"
proof (induction k arbitrary: temp m)
  case (Suc k)
  let ?m = "m\<lparr>mq_next := (mq_next m)(temp := mq_free m), mq_free := Some temp\<rparr>"
  have "path (mq_next ?m) (mq_free ?m) (rev [0..<temp + 1])" using Suc.prems by simp
  from Suc.IH [OF this] show ?case by simp
qed simp

lemma mq_free_loop_keeps:
  "mq_head (mq_free_loop k temp m) = mq_head m" "mq_tail (mq_free_loop k temp m) = mq_tail m"
  "mq_max_msgs (mq_free_loop k temp m) = mq_max_msgs m" "mq_msg_size (mq_free_loop k temp m) = mq_msg_size m"
  "mq_data (mq_free_loop k temp m) = mq_data m"
  by (induction k arbitrary: temp m) auto

lemma mq_clear_shape:
  assumes "\<And>x. length (mq_data m x) = unat (mq_msg_size m)"
  shows "mq_shape (rev [0..<unat (mq_max_msgs m)]) [] {} (mq_clear m)"
  using assms mq_free_loop_path [of "m\<lparr>mq_head := None, mq_tail := None, mq_free := None\<rparr>" 0]
  by (auto simp: mq_shape_def placed_def mq_clear_def Let_def mq_free_loop_keeps)

lemma mq_drain_shape:
  "mq_shape fs qs F (m\<lparr>mq_entry := e\<rparr>) \<Longrightarrow>
   \<exists>m'. mq_drain m = Some m' \<and> mq_shape (rev qs @ fs) [] F (m'\<lparr>mq_entry := 0\<rparr>) \<and>
     mq_max_msgs m' = mq_max_msgs m \<and> mq_msg_size m' = mq_msg_size m"
proof (induction qs arbitrary: fs m e)
  case Nil
  then show ?case by (auto simp: mq_drain.simps [of m] mq_shape_def)
next
  case (Cons x qs)
  let ?m = "mq_release x (mq_pop x m)"
  have x: "x \<notin> F" and h: "mq_head m = Some x" using Cons.prems by (auto simp: mq_shape_def placed_def)
  from mq_release_shape [OF mq_pop_shape [OF Cons.prems], of x] x
  have "mq_shape (x # fs) qs F (?m\<lparr>mq_entry := e - 1\<rparr>)"
    by (simp add: mq_shape_def mq_release_def mq_pop_def Let_def split: if_splits)
  from Cons.IH [OF this] h show ?case
    by (auto simp: mq_drain.simps [of m] mq_release_def mq_pop_def Let_def split: if_splits)
qed

section \<open>The queue of messages\<close>

definition mq_abs :: "rt_messagequeue \<Rightarrow> u8 list list" where
  "mq_abs m = map (mq_data m) (walk (unat (mq_entry m)) (mq_next m) (mq_head m))"

lemma mq_abs_shape: "mq_shape fs qs F m \<Longrightarrow> mq_abs m = map (mq_data m) qs"
  using path_walk [of "mq_next m" "mq_head m" qs] by (auto simp: mq_shape_def mq_abs_def)

definition mq_wf :: "nat \<Rightarrow> rt_messagequeue \<Rightarrow> bool" where
  "mq_wf K m \<longleftrightarrow> unat (mq_msg_size m) = K \<and> (\<exists>fs qs. mq_shape fs qs {} m)"

definition mq_cap :: "rt_messagequeue \<Rightarrow> nat" where
  "mq_cap m = unat (mq_max_msgs m)"

lemma mq_wfE:
  assumes "mq_wf K m"
  obtains fs qs where "mq_shape fs qs {} m" "unat (mq_msg_size m) = K" "mq_abs m = map (mq_data m) qs"
    "length fs + length qs = mq_cap m" "list_all (\<lambda>v. length v = K) (mq_abs m)"
proof -
  obtain fs qs where m: "mq_shape fs qs {} m" "unat (mq_msg_size m) = K" using assms by (auto simp: mq_wf_def)
  moreover have "list_all (\<lambda>v. length v = K) (mq_abs m)"
    using m mq_abs_shape [OF m(1)] by (simp add: list_all_iff mq_shape_def)
  ultimately show thesis using that mq_abs_shape [OF m(1)] mq_shape_bound [OF m(1)] by (simp add: mq_cap_def)
qed

lemma mq_full_iff: "mq_wf K m \<Longrightarrow> mq_free m = None \<longleftrightarrow> length (mq_abs m) = mq_cap m"
  by (erule mq_wfE) (auto simp: mq_shape_def path_None elim: path.elims)

lemma mq_empty_iff: "mq_wf K m \<Longrightarrow> mq_entry m = 0 \<longleftrightarrow> mq_abs m = []"
  by (erule mq_wfE) (auto simp: mq_shape_def unat_eq_0 [symmetric])

lemma mq_put_fifo:
  assumes wf: "mq_wf K m" and room: "length (mq_abs m) < mq_cap m" and buf: "length buf \<le> K"
  shows "\<exists>m' r. mq_put buf m = Some (RT_EOK, m') \<and> mq_wf K m' \<and> mq_abs m' = mq_abs m @ [buf @ r] \<and>
    length (buf @ r) = K \<and> mq_cap m' = mq_cap m"
proof -
  obtain fs qs where m: "mq_shape fs qs {} m" "unat (mq_msg_size m) = K" "mq_abs m = map (mq_data m) qs"
    "length fs + length qs = mq_cap m" using wf by (elim mq_wfE)
  then obtain x fs' where fs: "fs = x # fs'" using room by (cases fs) auto
  let ?m1 = "m\<lparr>mq_free := mq_next m x\<rparr>"
  note a = mq_alloc_shape [OF m(1) [unfolded fs]]
  have f: "mq_shape fs' qs {x} (mq_fill x buf ?m1)" "map (mq_data (mq_fill x buf ?m1)) qs = map (mq_data m) qs"
    using mq_fill_shape [OF a(2), of x buf] buf m(2) by auto
  have "mq_next (mq_fill x buf ?m1) x = None" by (simp add: mq_fill_def mq_copy_def)
  from mq_link_tail_shape [OF f(1) _ this] obtain m' where m': "mq_link_tail x (mq_fill x buf ?m1) = (RT_EOK, m')"
    "mq_shape fs' (qs @ [x]) {} m'" "mq_data m' = mq_data (mq_fill x buf ?m1)"
    "mq_msg_size m' = mq_msg_size m" "mq_max_msgs m' = mq_max_msgs m" by (auto simp: mq_fill_def mq_copy_def)
  have d: "mq_data (mq_fill x buf ?m1) x = buf @ drop (length buf) (mq_data m x)" by (simp add: mq_fill_def mq_copy_def)
  have "length (mq_data m x) = K" using m(1,2) by (simp add: mq_shape_def)
  moreover have "mq_abs m' = mq_abs m @ [buf @ drop (length buf) (mq_data m x)]"
    using mq_abs_shape [OF m'(2)] m'(3) f(2) m(3) d by simp
  moreover have "mq_put buf m = Some (RT_EOK, m')" using a(1) m'(1) by (simp add: mq_put_def)
  ultimately show ?thesis using m' m(2) buf by (intro exI [of _ m'] exI conjI) (auto simp: mq_wf_def mq_cap_def)
qed

lemma mq_put_front_lifo:
  assumes wf: "mq_wf K m" and room: "length (mq_abs m) < mq_cap m" and buf: "length buf \<le> K"
  shows "\<exists>m' r. mq_put_front buf m = Some (RT_EOK, m') \<and> mq_wf K m' \<and> mq_abs m' = (buf @ r) # mq_abs m \<and>
    length (buf @ r) = K \<and> mq_cap m' = mq_cap m"
proof -
  obtain fs qs where m: "mq_shape fs qs {} m" "unat (mq_msg_size m) = K" "mq_abs m = map (mq_data m) qs"
    "length fs + length qs = mq_cap m" using wf by (elim mq_wfE)
  then obtain x fs' where fs: "fs = x # fs'" using room by (cases fs) auto
  let ?m1 = "m\<lparr>mq_free := mq_next m x\<rparr>"
  note a = mq_alloc_shape [OF m(1) [unfolded fs]]
  have f: "mq_shape fs' qs {x} (mq_copy x buf ?m1)" "map (mq_data (mq_copy x buf ?m1)) qs = map (mq_data m) qs"
    using mq_copy_shape [OF a(2), of x buf] buf m(2) by auto
  from mq_link_head_shape [OF f(1)] obtain m' where m': "mq_link_head x (mq_copy x buf ?m1) = (RT_EOK, m')"
    "mq_shape fs' (x # qs) {} m'" "mq_data m' = mq_data (mq_copy x buf ?m1)"
    "mq_msg_size m' = mq_msg_size m" "mq_max_msgs m' = mq_max_msgs m" by (auto simp: mq_copy_def)
  have d: "mq_data (mq_copy x buf ?m1) x = buf @ drop (length buf) (mq_data m x)" by (simp add: mq_copy_def)
  have "length (mq_data m x) = K" using m(1,2) by (simp add: mq_shape_def)
  moreover have "mq_abs m' = (buf @ drop (length buf) (mq_data m x)) # mq_abs m"
    using mq_abs_shape [OF m'(2)] m'(3) f(2) m(3) d by simp
  moreover have "mq_put_front buf m = Some (RT_EOK, m')" using a(1) m'(1) by (simp add: mq_put_front_def)
  ultimately show ?thesis using m' m(2) buf by (intro exI [of _ m'] exI conjI) (auto simp: mq_wf_def mq_cap_def)
qed

lemma mq_get_fifo:
  assumes wf: "mq_wf K m" and l: "mq_abs m = v # vs"
  shows "\<exists>m'. mq_get sz m = Some (take sz v, m') \<and> mq_wf K m' \<and> mq_abs m' = vs \<and> mq_cap m' = mq_cap m"
proof -
  obtain fs qs where m: "mq_shape fs qs {} m" "unat (mq_msg_size m) = K" "mq_abs m = map (mq_data m) qs"
    using wf by (elim mq_wfE)
  then obtain x qs' where qs: "qs = x # qs'" "v = mq_data m x" "vs = map (mq_data m) qs'" using l by (cases qs) auto
  from mq_unlink_shape [OF m(1) [unfolded qs]] obtain m1 where m1: "mq_unlink m = Some (x, m1)"
    "mq_shape fs qs' {x} m1" "mq_data m1 = mq_data m" "mq_msg_size m1 = mq_msg_size m" "mq_max_msgs m1 = mq_max_msgs m"
    by auto
  have r: "mq_shape (x # fs) qs' {} (mq_release x m1)" using mq_release_shape [OF m1(2)] by auto
  have "length v = K" using m(1,2) qs(2) by (simp add: mq_shape_def)
  then have "mq_read x sz m1 = take sz v" using m1(3,4) m(2) qs(2) by (simp add: mq_read_def)
  moreover have "mq_abs (mq_release x m1) = vs" using mq_abs_shape [OF r] qs(3) m1(3) by (simp add: mq_release_def)
  ultimately show ?thesis using m1 r m(2) by (auto simp: mq_get_def mq_wf_def mq_cap_def mq_release_def)
qed

interpretation mqq: bounded_fifo "mq_wf K" mq_abs mq_cap "\<lambda>v m. map_option snd (mq_put v m)" "mq_get K" "\<lambda>v. length v = K"
  for K
proof unfold_locales
  fix m and v :: "u8 list"
  assume "mq_wf K m" "length v = K" "length (mq_abs m) < mq_cap m"
  from mq_put_fifo [OF this(1,3), of v] this(2)
  show "\<exists>m'. map_option snd (mq_put v m) = Some m' \<and> mq_wf K m' \<and> mq_abs m' = mq_abs m @ [v] \<and> mq_cap m' = mq_cap m"
    by auto
next
  fix m v vs
  assume wf: "mq_wf K m" and l: "mq_abs m = v # vs"
  have "length v = K" using wf l by (elim mq_wfE) simp
  then show "\<exists>m'. mq_get K m = Some (v, m') \<and> mq_wf K m' \<and> mq_abs m' = vs \<and> mq_cap m' = mq_cap m"
    using mq_get_fifo [OF wf l, of K] by simp
qed

section \<open>Interleaved sections\<close>

text \<open>Between two sections a thread holds a node: taken from the free list, filled and about to be linked, copied
  by an urgent sender, or unlinked by a receiver. Any thread may run its next section at any moment.\<close>

datatype flight = Taken | Filled | Copied | Reading

inductive mq_step :: "rt_messagequeue \<times> (nat \<rightharpoonup> flight) \<Rightarrow> rt_messagequeue \<times> (nat \<rightharpoonup> flight) \<Rightarrow> bool" where
  take: "mq_alloc m = Some (x, m') \<Longrightarrow> mq_step (m, fl) (m', fl(x \<mapsto> Taken))"
| fill: "fl x = Some Taken \<Longrightarrow> length buf \<le> unat (mq_msg_size m) \<Longrightarrow> mq_step (m, fl) (mq_fill x buf m, fl(x \<mapsto> Filled))"
| link: "fl x = Some Filled \<Longrightarrow> mq_link_tail x m = (err, m') \<Longrightarrow> mq_step (m, fl) (m', fl(x := None))"
| copy: "fl x = Some Taken \<Longrightarrow> length buf \<le> unat (mq_msg_size m) \<Longrightarrow> mq_step (m, fl) (mq_copy x buf m, fl(x \<mapsto> Copied))"
| push: "fl x = Some Copied \<Longrightarrow> mq_link_head x m = (err, m') \<Longrightarrow> mq_step (m, fl) (m', fl(x := None))"
| unlink: "mq_entry m \<noteq> 0 \<Longrightarrow> mq_unlink m = Some (x, m') \<Longrightarrow> mq_step (m, fl) (m', fl(x \<mapsto> Reading))"
| release: "fl x = Some Reading \<Longrightarrow> mq_step (m, fl) (mq_release x m, fl(x := None))"

inductive_cases mq_stepE: "mq_step \<sigma> \<sigma>'"

definition mq_flight_inv :: "rt_messagequeue \<times> (nat \<rightharpoonup> flight) \<Rightarrow> bool" where
  "mq_flight_inv \<sigma> \<longleftrightarrow> (\<exists>fs qs. mq_shape fs qs (dom (snd \<sigma>)) (fst \<sigma>)) \<and>
     (\<forall>x. snd \<sigma> x = Some Filled \<longrightarrow> mq_next (fst \<sigma>) x = None)"

text \<open>What a section does to the queue of messages.\<close>

inductive queue_step :: "'v list \<Rightarrow> 'v list \<Rightarrow> bool" where
  skip: "queue_step q q"
| enqueue: "queue_step q (q @ [v])"
| urgent: "queue_step q (v # q)"
| dequeue: "queue_step (v # q) q"

lemma mq_shape_nonempty: "mq_shape fs qs F m \<Longrightarrow> mq_entry m \<noteq> 0 \<Longrightarrow> \<exists>x qs'. qs = x # qs'"
  by (cases qs) (auto simp: mq_shape_def unat_eq_0)

lemma mq_flight_invE:
  assumes "mq_flight_inv (m, fl)"
  obtains fs qs where "mq_shape fs qs (dom fl) m" "mq_abs m = map (mq_data m) qs"
    "\<forall>x. fl x = Some Filled \<longrightarrow> mq_next m x = None"
  using assms mq_abs_shape by (auto simp: mq_flight_inv_def)

lemma mq_flight_invI:
  assumes "mq_shape fs qs (dom fl) m" "\<And>x. fl x = Some Filled \<Longrightarrow> mq_next m x = None"
  shows "mq_flight_inv (m, fl)"
  using assms by (auto simp: mq_flight_inv_def)

lemma flight_take:
  assumes "mq_flight_inv (m, fl)" "mq_alloc m = Some (x, m')"
  shows "mq_flight_inv (m', fl(x \<mapsto> Taken)) \<and> mq_abs m' = mq_abs m"
proof -
  obtain fs qs where sh: "mq_shape fs qs (dom fl) m" and fil: "\<forall>x. fl x = Some Filled \<longrightarrow> mq_next m x = None"
    using assms(1) by (elim mq_flight_invE) blast
  have "mq_free m = Some x" using assms(2) by (auto simp: mq_alloc_def split: option.splits)
  then obtain fs' where fs: "fs = x # fs'" using sh by (auto simp: mq_shape_def path_Some)
  note a = mq_alloc_shape [OF sh [unfolded fs]]
  have m': "m' = m\<lparr>mq_free := mq_next m x\<rparr>" using assms(2) a(1) by simp
  have "mq_flight_inv (m', fl(x \<mapsto> Taken))"
    unfolding m' by (rule mq_flight_invI [of fs' qs]) (use a(2) fil in \<open>auto split: if_splits\<close>)
  then show ?thesis unfolding m' by (simp add: mq_abs_def)
qed

lemma flight_copy:
  assumes "mq_flight_inv (m, fl)" "fl x = Some Taken" "length buf \<le> unat (mq_msg_size m)"
  shows "mq_flight_inv (mq_copy x buf m, fl(x \<mapsto> Copied)) \<and> mq_abs (mq_copy x buf m) = mq_abs m"
    "mq_flight_inv (mq_fill x buf m, fl(x \<mapsto> Filled)) \<and> mq_abs (mq_fill x buf m) = mq_abs m"
proof -
  obtain fs qs where sh: "mq_shape fs qs (dom fl) m" and q: "mq_abs m = map (mq_data m) qs"
    and fil: "\<forall>x. fl x = Some Filled \<longrightarrow> mq_next m x = None" using assms(1) by (elim mq_flight_invE) blast
  have x: "x \<in> dom fl" using assms(2) by auto
  then have dom: "dom (fl(x \<mapsto> v)) = dom fl" for v by auto
  note f = mq_copy_shape [OF sh x assms(3)] mq_fill_shape [OF sh x assms(3)]
  have "mq_flight_inv (mq_copy x buf m, fl(x \<mapsto> Copied))"
    by (rule mq_flight_invI [of fs qs]) (use f(1) dom fil in \<open>auto simp: mq_copy_def split: if_splits\<close>)
  then show "mq_flight_inv (mq_copy x buf m, fl(x \<mapsto> Copied)) \<and> mq_abs (mq_copy x buf m) = mq_abs m"
    using mq_abs_shape [OF f(1)] f(2) q by simp
  have "mq_flight_inv (mq_fill x buf m, fl(x \<mapsto> Filled))"
    by (rule mq_flight_invI [of fs qs]) (use f(3) dom fil in \<open>auto simp: mq_fill_def mq_copy_def split: if_splits\<close>)
  then show "mq_flight_inv (mq_fill x buf m, fl(x \<mapsto> Filled)) \<and> mq_abs (mq_fill x buf m) = mq_abs m"
    using mq_abs_shape [OF f(3)] f(4) q by simp
qed

lemma flight_link:
  assumes "mq_flight_inv (m, fl)" "fl x = Some Filled"
  shows "\<exists>m'. mq_link_tail x m = (RT_EOK, m') \<and> mq_flight_inv (m', fl(x := None)) \<and>
    mq_abs m' = mq_abs m @ [mq_data m x]"
proof -
  obtain fs qs where sh: "mq_shape fs qs (dom fl) m" and q: "mq_abs m = map (mq_data m) qs"
    and fil: "\<forall>x. fl x = Some Filled \<longrightarrow> mq_next m x = None" using assms(1) by (elim mq_flight_invE) blast
  from mq_link_tail_shape [OF sh _ fil [rule_format, OF assms(2)]] assms(2)
  obtain m' where m': "mq_link_tail x m = (RT_EOK, m')" "mq_shape fs (qs @ [x]) (dom fl - {x}) m'" "mq_data m' = mq_data m"
    "\<forall>y \<in> dom fl. mq_next m' y = mq_next m y" by auto
  have nx: "mq_next m' y = mq_next m y" if "fl y = Some Filled" for y using m'(4) that by (simp add: domI)
  have "mq_flight_inv (m', fl(x := None))"
    by (rule mq_flight_invI [of fs "qs @ [x]"]) (use m'(2) fil nx in \<open>auto split: if_splits\<close>)
  then show ?thesis using m' mq_abs_shape [OF m'(2)] q by simp
qed

lemma flight_push:
  assumes "mq_flight_inv (m, fl)" "fl x = Some Copied"
  shows "\<exists>m'. mq_link_head x m = (RT_EOK, m') \<and> mq_flight_inv (m', fl(x := None)) \<and>
    mq_abs m' = mq_data m x # mq_abs m"
proof -
  obtain fs qs where sh: "mq_shape fs qs (dom fl) m" and q: "mq_abs m = map (mq_data m) qs"
    and fil: "\<forall>x. fl x = Some Filled \<longrightarrow> mq_next m x = None" using assms(1) by (elim mq_flight_invE) blast
  from mq_link_head_shape [OF sh, of x] assms(2)
  obtain m' where m': "mq_link_head x m = (RT_EOK, m')" "mq_shape fs (x # qs) (dom fl - {x}) m'" "mq_data m' = mq_data m"
    "\<forall>y \<in> dom fl - {x}. mq_next m' y = mq_next m y" by auto
  have nx: "mq_next m' y = mq_next m y" if "fl y = Some Filled" for y using m'(4) that assms(2) by (cases "y = x") (simp_all add: domI)
  have "mq_flight_inv (m', fl(x := None))"
    by (rule mq_flight_invI [of fs "x # qs"]) (use m'(2) fil nx in \<open>auto split: if_splits\<close>)
  then show ?thesis using m' mq_abs_shape [OF m'(2)] q by simp
qed

lemma flight_unlink:
  assumes "mq_flight_inv (m, fl)" "mq_entry m \<noteq> 0"
  shows "\<exists>x m'. mq_unlink m = Some (x, m') \<and> mq_flight_inv (m', fl(x \<mapsto> Reading)) \<and> fl x = None \<and>
    mq_abs m = mq_data m' x # mq_abs m'"
proof -
  obtain fs qs where sh: "mq_shape fs qs (dom fl) m" and q: "mq_abs m = map (mq_data m) qs"
    and fil: "\<forall>x. fl x = Some Filled \<longrightarrow> mq_next m x = None" using assms(1) by (elim mq_flight_invE) blast
  obtain x qs' where qs: "qs = x # qs'" using mq_shape_nonempty [OF sh assms(2)] by blast
  from mq_unlink_shape [OF sh [unfolded qs]] obtain m' where m': "mq_unlink m = Some (x, m')"
    "mq_shape fs qs' (insert x (dom fl)) m'" "mq_data m' = mq_data m" "mq_next m' = mq_next m" by auto
  have "mq_flight_inv (m', fl(x \<mapsto> Reading))"
    by (rule mq_flight_invI [of fs qs']) (use m'(2,4) fil in \<open>auto split: if_splits\<close>)
  moreover have "fl x = None" using mq_shape_apart(2) [OF sh, of x] qs by auto
  ultimately show ?thesis using m' mq_abs_shape [OF m'(2)] q qs by auto
qed

lemma flight_release:
  assumes "mq_flight_inv (m, fl)" "fl x = Some Reading"
  shows "mq_flight_inv (mq_release x m, fl(x := None)) \<and> mq_abs (mq_release x m) = mq_abs m"
proof -
  obtain fs qs where sh: "mq_shape fs qs (dom fl) m" and q: "mq_abs m = map (mq_data m) qs"
    and fil: "\<forall>x. fl x = Some Filled \<longrightarrow> mq_next m x = None" using assms(1) by (elim mq_flight_invE) blast
  have r: "mq_shape (x # fs) qs (dom fl - {x}) (mq_release x m)" using mq_release_shape [OF sh, of x] assms(2) by auto
  have "mq_flight_inv (mq_release x m, fl(x := None))"
    by (rule mq_flight_invI [of "x # fs" qs]) (use r fil in \<open>auto simp: mq_release_def split: if_splits\<close>)
  then show ?thesis using mq_abs_shape [OF r] q by (simp add: mq_release_def)
qed

lemma mq_step_refines:
  assumes "mq_step \<sigma> \<sigma>'" "mq_flight_inv \<sigma>"
  shows "mq_flight_inv \<sigma>' \<and> queue_step (mq_abs (fst \<sigma>)) (mq_abs (fst \<sigma>'))"
  using assms
proof (induction rule: mq_step.induct)
  case (take m x m' fl)
  then show ?case using flight_take [of m fl x m'] by (simp add: queue_step.skip)
next
  case (fill fl x buf m)
  then show ?case using flight_copy(2) [of m fl x buf] by (simp add: queue_step.skip)
next
  case (copy fl x buf m)
  then show ?case using flight_copy(1) [of m fl x buf] by (simp add: queue_step.skip)
next
  case (release fl x m)
  then show ?case using flight_release [of m fl x] by (simp add: queue_step.skip)
next
  case (link fl x m err m')
  then show ?case using flight_link [of m fl x] by (auto intro: queue_step.enqueue)
next
  case (push fl x m err m')
  then show ?case using flight_push [of m fl x] by (auto intro: queue_step.urgent)
next
  case (unlink m x m' fl)
  then show ?case using flight_unlink [of m fl] by (auto intro: queue_step.dequeue)
qed

lemma mq_steps_inv: "mq_step\<^sup>*\<^sup>* \<sigma> \<sigma>' \<Longrightarrow> mq_flight_inv \<sigma> \<Longrightarrow> mq_flight_inv \<sigma>'"
  by (induction rule: rtranclp_induct) (auto dest: mq_step_refines)

section \<open>Message queue operations\<close>

definition mq_inv :: "nat \<Rightarrow> nat \<Rightarrow> 'a ipc_state_scheme \<Rightarrow> bool" where
  "mq_inv K n s \<longleftrightarrow> rt_object_get_type (Kobj n) s = RT_Object_Class_MessageQueue \<and>
     o_flag (objects s (Kobj n)) AND NOT RT_TIMER_FLAG_ACTIVATED = 0 \<and> mq_wf K (mqueues s n)"

lemma upd_mq_sel [simp]:
  "mqueues (upd_mq n f s) = (mqueues s)(n := f (mqueues s n))"
  "kernel_inv (upd_mq n f s) = kernel_inv s"
  "klists (upd_mq n f s) = klists s" "objects (upd_mq n f s) = objects s"
  "threads (upd_mq n f s) = threads s" "current_thread (upd_mq n f s) = current_thread s"
  "interrupt_nest (upd_mq n f s) = interrupt_nest s" "rt_tick (upd_mq n f s) = rt_tick s"
  "rt_object_get_type r (upd_mq n f s) = rt_object_get_type r s"
  by (simp_all add: upd_mq_def rt_object_get_type_def)

lemma mq_inv_kframe:
  assumes "mq_inv K n s" "kframe s s'"
  shows "mq_inv K n s'"
  using assms kframe_get_type [OF assms(2), of "Kobj n"] kframe_ipc(5) [OF assms(2)]
  by (simp add: mq_inv_def kframe_def)

lemma mq_invD:
  assumes "mq_inv K n s"
  shows "rt_object_get_type (Kobj n) s = RT_Object_Class_MessageQueue" "mq_wf K (mqueues s n)"
    "unat (mq_msg_size (mqueues s n)) = K"
    "o_flag (objects s (Kobj n)) = RT_IPC_FLAG_FIFO \<or> o_flag (objects s (Kobj n)) = RT_IPC_FLAG_PRIO"
  using assms ipc_flag_cases by (auto simp: mq_inv_def mq_wf_def)

text \<open>The queue has changed; waking the first thread of a list is all that is left to do.\<close>

lemma mq_wake:
  assumes inv: "kernel_inv s" "mq_inv K n s" and c: "current_thread s = Some c" and m: "mq_wf K m"
    and h: "h = Susp n \<or> h = SendSusp n"
  shows "\<exists>s' c'. ipc_wake_one h (upd_mq n (\<lambda>_. m) s) = Some s' \<and> kernel_inv s' \<and> mq_inv K n s' \<and>
    current_thread s' = Some c' \<and> mqueues s' n = m \<and> klists s' h = tl (klists s h) \<and>
    (klists s h \<noteq> [] \<longrightarrow> runnable (threads s' (hd (klists s h))))"
proof -
  let ?s1 = "upd_mq n (\<lambda>_. m) s"
  have i1: "kernel_inv ?s1" "mq_inv K n ?s1" "current_thread ?s1 = Some c" using inv m c by (auto simp: mq_inv_def)
  obtain s2 c2 where s2: "ipc_wake_one h ?s1 = Some s2" "kernel_inv s2" "kframe ?s1 s2"
    "current_thread s2 = Some c2" "klists s2 h = tl (klists s h)"
    "klists s h \<noteq> [] \<longrightarrow> runnable (threads s2 (hd (klists s h)))"
    using wq.wake_ok [OF i1(1,3) h] by auto
  moreover have "mqueues s2 n = m" using kframe_ipc(5) [OF s2(3)] by simp
  ultimately show ?thesis using mq_inv_kframe [OF i1(2) s2(3)] by blast
qed

lemma rt_mq_send_spec:
  assumes inv: "kernel_inv s" "mq_inv K n s" and c: "current_thread s = Some c"
    and buf: "buf \<noteq> []" "length buf \<le> K" and room: "length (mq_abs (mqueues s n)) < mq_cap (mqueues s n)"
  shows "\<exists>s' c' r. rt_mq_send_wait n buf timeout s = Some (Return RT_EOK (), s') \<and> kernel_inv s' \<and> mq_inv K n s' \<and>
      current_thread s' = Some c' \<and> mq_abs (mqueues s' n) = mq_abs (mqueues s n) @ [buf @ r] \<and>
      klists s' (Susp n) = tl (klists s (Susp n)) \<and>
      (klists s (Susp n) \<noteq> [] \<longrightarrow> runnable (threads s' (hd (klists s (Susp n)))))"
    and "\<exists>s' c' r. rt_mq_urgent n buf s = Some (RT_EOK, s') \<and> kernel_inv s' \<and> mq_inv K n s' \<and>
      current_thread s' = Some c' \<and> mq_abs (mqueues s' n) = (buf @ r) # mq_abs (mqueues s n) \<and>
      klists s' (Susp n) = tl (klists s (Susp n)) \<and>
      (klists s (Susp n) \<noteq> [] \<longrightarrow> runnable (threads s' (hd (klists s (Susp n)))))"
proof -
  note D = mq_invD [OF inv(2)]
  have free: "mq_free (mqueues s n) \<noteq> None" using mq_full_iff [OF D(2)] room by simp
  obtain m r where m: "mq_put buf (mqueues s n) = Some (RT_EOK, m)" "mq_wf K m"
    "mq_abs m = mq_abs (mqueues s n) @ [buf @ r]" using mq_put_fifo [OF D(2) room buf(2)] by blast
  from mq_wake [OF inv c m(2), of "Susp n"] m D free buf
  show "\<exists>s' c' r. rt_mq_send_wait n buf timeout s = Some (Return RT_EOK (), s') \<and> kernel_inv s' \<and> mq_inv K n s' \<and>
      current_thread s' = Some c' \<and> mq_abs (mqueues s' n) = mq_abs (mqueues s n) @ [buf @ r] \<and>
      klists s' (Susp n) = tl (klists s (Susp n)) \<and>
      (klists s (Susp n) \<noteq> [] \<longrightarrow> runnable (threads s' (hd (klists s (Susp n)))))"
    by (auto simp: rt_mq_send_wait_def mq_send_store_def)
  obtain m r where m: "mq_put_front buf (mqueues s n) = Some (RT_EOK, m)" "mq_wf K m"
    "mq_abs m = (buf @ r) # mq_abs (mqueues s n)" using mq_put_front_lifo [OF D(2) room buf(2)] by blast
  from mq_wake [OF inv c m(2), of "Susp n"] m D free buf
  show "\<exists>s' c' r. rt_mq_urgent n buf s = Some (RT_EOK, s') \<and> kernel_inv s' \<and> mq_inv K n s' \<and>
      current_thread s' = Some c' \<and> mq_abs (mqueues s' n) = (buf @ r) # mq_abs (mqueues s n) \<and>
      klists s' (Susp n) = tl (klists s (Susp n)) \<and>
      (klists s (Susp n) \<noteq> [] \<longrightarrow> runnable (threads s' (hd (klists s (Susp n)))))"
    by (auto simp: rt_mq_urgent_def)
qed

lemma rt_mq_send_refused:
  assumes "mq_inv K n s" "buf \<noteq> []"
  shows "K < length buf \<Longrightarrow> rt_mq_send_wait n buf timeout s = Some (Return (- RT_ERROR) (), s)"
    "K < length buf \<Longrightarrow> rt_mq_urgent n buf s = Some (- RT_ERROR, s)"
    "length buf \<le> K \<Longrightarrow> length (mq_abs (mqueues s n)) = mq_cap (mqueues s n) \<Longrightarrow>
      rt_mq_send n buf s = Some (Return (- RT_EFULL) (), s) \<and> rt_mq_urgent n buf s = Some (- RT_EFULL, s)"
  using assms(2) mq_invD [OF assms(1)] mq_full_iff [OF mq_invD(2) [OF assms(1)]]
  by (simp_all add: rt_mq_send_def rt_mq_send_wait_def rt_mq_urgent_def)

lemma rt_mq_recv_spec:
  assumes inv: "kernel_inv s" "mq_inv K n s" and c: "current_thread s = Some c" and sz: "sz \<noteq> 0"
  shows "mq_abs (mqueues s n) = v # vs \<Longrightarrow>
    \<exists>s' c'. rt_mq_recv n sz timeout s = Some (Return RT_EOK (Some (take sz v)), s') \<and> kernel_inv s' \<and> mq_inv K n s' \<and>
      current_thread s' = Some c' \<and> mq_abs (mqueues s' n) = vs \<and>
      klists s' (SendSusp n) = tl (klists s (SendSusp n)) \<and>
      (klists s (SendSusp n) \<noteq> [] \<longrightarrow> runnable (threads s' (hd (klists s (SendSusp n)))))"
    "mq_abs (mqueues s n) = [] \<Longrightarrow> rt_mq_recv n sz 0 s = Some (Return (- RT_ETIMEOUT) None, s)"
proof -
  note D = mq_invD [OF inv(2)]
  show "\<exists>s' c'. rt_mq_recv n sz timeout s = Some (Return RT_EOK (Some (take sz v)), s') \<and> kernel_inv s' \<and> mq_inv K n s' \<and>
      current_thread s' = Some c' \<and> mq_abs (mqueues s' n) = vs \<and>
      klists s' (SendSusp n) = tl (klists s (SendSusp n)) \<and>
      (klists s (SendSusp n) \<noteq> [] \<longrightarrow> runnable (threads s' (hd (klists s (SendSusp n)))))"
    if l: "mq_abs (mqueues s n) = v # vs"
  proof -
    obtain m where m: "mq_get sz (mqueues s n) = Some (take sz v, m)" "mq_wf K m" "mq_abs m = vs"
      using mq_get_fifo [OF D(2) l] by blast
    have "mq_entry (mqueues s n) \<noteq> 0" using l mq_empty_iff [OF D(2)] by simp
    then show ?thesis using mq_wake [OF inv c m(2), of "SendSusp n"] m D(1) sz
      by (auto simp: rt_mq_recv_def mq_recv_fetch_def)
  qed
  show "rt_mq_recv n sz 0 s = Some (Return (- RT_ETIMEOUT) None, s)" if "mq_abs (mqueues s n) = []"
    using that D(1) sz mq_empty_iff [OF D(2)] by (simp add: rt_mq_recv_def)
qed

text \<open>A receiver that may wait on an empty queue, and a sender on a full one, are suspended.\<close>

lemma rt_mq_recv_waits:
  assumes inv: "kernel_inv s" "mq_inv K n s" and c: "current_thread s = Some c" "interrupt_nest s = 0"
    and r: "stat_base (threads s c) = RT_THREAD_RUNNING" and t: "timeout < 0x7fffffff" "timeout \<noteq> 0"
    and sz: "sz \<noteq> 0" and e: "mq_abs (mqueues s n) = []"
  shows "\<exists>s' c'. rt_mq_recv n sz timeout s = Some (Wait (rt_tick s), s') \<and> kernel_inv s' \<and> mq_inv K n s' \<and>
    current_thread s' = Some c' \<and> stat_base (threads s' c) = RT_THREAD_SUSPEND \<and> c \<in> set (klists s' (Susp n)) \<and>
    mqueues s' = mqueues s"
proof -
  note D = mq_invD [OF inv(2)]
  let ?s1 = "upd_thread c (\<lambda>th. th\<lparr>t_error := RT_EOK\<rparr>) s"
  have flag: "o_flag (objects ?s1 (Kobj n)) = RT_IPC_FLAG_FIFO \<or> o_flag (objects ?s1 (Kobj n)) = RT_IPC_FLAG_PRIO"
    using D(4) by simp
  obtain s2 c2 where s2: "ipc_block (Susp n) c (o_flag (objects ?s1 (Kobj n))) timeout ?s1 = Some s2"
    "kernel_inv s2" "kframe ?s1 s2" "current_thread s2 = Some c2" "stat_base (threads s2 c) = RT_THREAD_SUSPEND"
    "klists s2 (Susp n) = wait_order (o_flag (objects ?s1 (Kobj n)))
       (\<lambda>u. current_priority (threads ?s1 u)) c (klists ?s1 (Susp n))"
    using wq.block_ok [OF _ _ _ flag _ t(1), of ?s1 c "Susp n" n] inv(1) c(1) r by auto
  have k: "kframe s s2" by (rule kframe_trans [OF kframe_error s2(3)])
  have "mq_entry (mqueues s n) = 0" using e mq_empty_iff [OF D(2)] by simp
  then have "rt_mq_recv n sz timeout s = Some (Wait (rt_tick s), s2)"
    using D(1) c t(2) sz s2(1) by (simp add: rt_mq_recv_def mq_recv_loop_def in_thread_context_def rt_thread_self_def)
  moreover have "c \<in> set (klists s2 (Susp n))" by (simp add: s2(6) wait_order_def)
  ultimately show ?thesis using s2(2,4,5) mq_inv_kframe [OF inv(2) k] kframe_ipc(5) [OF k] by blast
qed

text \<open>A reset wakes every waiting thread and leaves an empty queue with all its nodes free; the loop ends.\<close>

lemma rt_mq_reset_spec:
  assumes inv: "kernel_inv s" "mq_inv K n s" and c: "current_thread s = Some c"
  shows "\<exists>s' c'. rt_mq_control n RT_IPC_CMD_RESET s = Some (RT_EOK, s') \<and> kernel_inv s' \<and> mq_inv K n s' \<and>
    current_thread s' = Some c' \<and> mq_abs (mqueues s' n) = [] \<and> mq_cap (mqueues s' n) = mq_cap (mqueues s n) \<and>
    klists s' (SendSusp n) = []"
proof -
  obtain s1 where s1: "ipc_list_resume_all (Susp n) s = Some s1" "kernel_inv s1" "kframe s s1" "current_thread s1 = Some c"
    using ipc_list_resume_all_spec [OF inv(1), of "Susp n" n] c by auto
  obtain s2 where s2: "ipc_list_resume_all (SendSusp n) s1 = Some s2" "kernel_inv s2" "kframe s1 s2"
    "current_thread s2 = Some c" "klists s2 (SendSusp n) = []"
    using ipc_list_resume_all_spec [OF s1(2), of "SendSusp n" n] s1(4) by auto
  have k: "kframe s s2" by (rule kframe_trans [OF s1(3) s2(3)])
  have q: "mqueues s2 n = mqueues s n" using kframe_ipc(5) [OF k] by simp
  obtain fs qs where "mq_shape fs qs {} (mqueues s n)" using mq_invD(2) [OF inv(2)] by (auto simp: mq_wf_def)
  then have "mq_shape fs qs {} ((mqueues s2 n)\<lparr>mq_entry := mq_entry (mqueues s n)\<rparr>)" unfolding q by simp
  from mq_drain_shape [OF this] obtain m where m: "mq_drain (mqueues s2 n) = Some m"
    "mq_shape (rev qs @ fs) [] {} (m\<lparr>mq_entry := 0\<rparr>)" "mq_max_msgs m = mq_max_msgs (mqueues s n)"
    "mq_msg_size m = mq_msg_size (mqueues s n)" using q by auto
  let ?m = "m\<lparr>mq_entry := 0\<rparr>"
  have wf: "mq_wf K ?m" using m(2,4) mq_invD(3) [OF inv(2)] by (auto simp: mq_wf_def)
  let ?s3 = "upd_mq n (\<lambda>_. ?m) s2"
  have i3: "mq_inv K n ?s3" using mq_inv_kframe [OF inv(2) k] wf by (simp add: mq_inv_def)
  obtain s4 c4 where s4: "rt_schedule ?s3 = Some s4" "kernel_inv s4" "current_thread s4 = Some c4" "kframe ?s3 s4"
    "klists s4 (SendSusp n) = []"
    using kernel_schedule [of ?s3 c] s2(2,4,5) sched_frame_kframe by (fastforce simp: wait_head_def)
  have "mqueues s4 n = ?m" using kframe_ipc(5) [OF s4(4)] by simp
  then show ?thesis
    using s1(1) s2(1) m(1) s4(1-3,5) mq_invD(1) [OF inv(2)] mq_inv_kframe [OF i3 s4(4)] mq_abs_shape [OF m(2)] m(3)
    by (simp add: rt_mq_control_def mq_cap_def)
qed

end
