(* ===== verification/Mq_Props.thy ===== *)
theory Mq_Props
  imports Mq Sample_State
begin





lemma sample_mq_wf: "mq_wf 4 sample_mq"
proof -
  have "mq_shape [1, 0] [] {} sample_mq"
    by (auto simp: sample_mq_def mq_shape_def placed_def less_2_cases_iff)
  then show ?thesis by (auto simp: mq_wf_def sample_mq_def)
qed



lemma sample_mq_empty [simp]:
  "mqueues sample 24 = sample_mq" "mq_abs sample_mq = []" "mq_cap sample_mq = 2"
  by (simp_all add: sample_def sample_mq_def mq_abs_def mq_cap_def)



text \<open>Without interruption the nodes and links of a message queue are a first-in-first-out queue:
  messages of the queue's size put into it come out whole and in the same order behind those it held before, whichever
  nodes of the pool they were stored in.\<close>

theorem message_queue_fifo:
  assumes "mq_wf K m" "list_all (\<lambda>v. length v = K) vs" "length (mq_abs m) + length vs \<le> mq_cap m"
  shows "\<exists>m1 m2. puts (\<lambda>v q. map_option snd (mq_put v q)) vs m = Some m1 \<and>
    gets (mq_get K) (length (mq_abs m) + length vs) m1 = Some (mq_abs m @ vs, m2) \<and> mq_wf K m2 \<and> mq_abs m2 = []"
  using mqq.puts_then_gets [OF assms] by blast

theorem message_queue_fifo_witness:
  "\<exists>m1 m2. puts (\<lambda>v q. map_option snd (mq_put v q)) [[1, 2, 3, 4], [5, 6, 7, 8]] sample_mq = Some m1 \<and>
     gets (mq_get 4) 2 m1 = Some ([[1, 2, 3, 4], [5, 6, 7, 8]], m2)"
  using message_queue_fifo [OF sample_mq_wf, of "[[1, 2, 3, 4], [5, 6, 7, 8]]"] by (auto simp: numeral_2_eq_2)

end
