(* ===== verification/Mempool.thy ===== *)
theory Mempool
  imports Mq
begin

text \<open>
  Memory pools (\<^verbatim>\<open>rt-thread/src/mempool.c\<close>): blocks of one size in an area of memory, the free ones linked through a
  word in front of each block. While a block is allocated, that word holds the address of its pool, which is how
  \<^verbatim>\<open>rt_mp_free\<close> finds it.

  Addresses are 32-bit words with the arithmetic of the code; the word in front of a block is either a link or the
  pool it belongs to. Reading a link where a pool is stored, and the other way round, has no meaning (\<open>None\<close>).
\<close>

datatype block_word = Link u32 | Pool nat

record rt_mempool =
  start_address :: u32
  mp_size :: u32
  block_size :: u32
  block_list :: u32
  block_total_count :: u32
  block_free_count :: u32

record mp_state = ipc_state +
  mempools :: "nat \<Rightarrow> rt_mempool"
  block_mem :: "u32 \<Rightarrow> block_word"
  rt_errno :: rt_err_t

definition upd_mp :: "nat \<Rightarrow> (rt_mempool \<Rightarrow> rt_mempool) \<Rightarrow> 'a mp_state_scheme \<Rightarrow> 'a mp_state_scheme" where
  "upd_mp n f s = s\<lparr>mempools := (mempools s)(n := f (mempools s n))\<rparr>"

text \<open>\<^verbatim>\<open>rt_set_errno\<close> (\<^verbatim>\<open>kservice.c\<close>): in an interrupt, or before there is a thread, a global variable; else a field of the
  running thread.\<close>

definition mp_set_errno :: "rt_err_t \<Rightarrow> 'a mp_state_scheme \<Rightarrow> 'a mp_state_scheme" where
  "mp_set_errno err s =
     (if rt_interrupt_get_nest s \<noteq> 0 then s\<lparr>rt_errno := err\<rparr>
      else case rt_thread_self s of None \<Rightarrow> s\<lparr>rt_errno := err\<rparr>
           | Some t \<Rightarrow> upd_thread t (\<lambda>th. th\<lparr>t_error := err\<rparr>) s)"

section \<open>Setting up\<close>

text \<open>The address of a block's first word, and the loop that links the blocks in order.\<close>

definition block_at :: "u32 \<Rightarrow> u32 \<Rightarrow> u32 \<Rightarrow> u32" where
  "block_at start sz offset = start + offset * (sz + 4)"

fun link_blocks :: "u32 \<Rightarrow> u32 \<Rightarrow> nat \<Rightarrow> u32 \<Rightarrow> (u32 \<Rightarrow> block_word) \<Rightarrow> (u32 \<Rightarrow> block_word)" where
  "link_blocks start sz 0 offset m = m"
| "link_blocks start sz (Suc k) offset m =
     link_blocks start sz k (offset + 1) (m(block_at start sz offset := Link (block_at start sz (offset + 1))))"

text \<open>The tail of \<^verbatim>\<open>rt_mp_init\<close> and \<^verbatim>\<open>rt_mp_create\<close>: the blocks are linked and the link of the last one is set to null. After
  the loop \<^verbatim>\<open>offset\<close> is the number of blocks.\<close>

definition mp_format :: "nat \<Rightarrow> u32 \<Rightarrow> u32 \<Rightarrow> u32 \<Rightarrow> 'a mp_state_scheme \<Rightarrow> 'a mp_state_scheme" where
  "mp_format n start sz cnt s =
     (let s1 = ipc_object_init n s;
          m1 = link_blocks start sz (unat cnt) 0 (block_mem s1);
          m2 = m1(block_at start sz (cnt - 1) := Link 0)
      in upd_mp n (\<lambda>mp. mp\<lparr>block_list := start\<rparr>) (s1\<lparr>block_mem := m2\<rparr>))"

definition rt_mp_init ::
  "nat \<Rightarrow> string \<Rightarrow> u32 \<Rightarrow> u32 \<Rightarrow> u32 \<Rightarrow> 'a mp_state_scheme \<Rightarrow> (rt_err_t \<times> 'a mp_state_scheme) option" where
  "rt_mp_init n name start area_size bsize s = do {
     _ \<leftarrow> RT_ASSERT (start \<noteq> 0);
     _ \<leftarrow> RT_ASSERT (area_size > 0 \<and> bsize > 0);
     s1 \<leftarrow> rt_object_init (Kobj n) RT_Object_Class_MemPool name s;
     let sz = area_size AND NOT (4 - 1);
     let bs = align4 bsize;
     let cnt = sz div (bs + 4);
     let s2 = upd_mp n (\<lambda>mp. mp\<lparr>start_address := start, mp_size := sz, block_size := bs,
                                  block_total_count := cnt, block_free_count := cnt\<rparr>) s1;
     Some (RT_EOK, mp_format n start bs cnt s2)
   }"

definition rt_mp_detach :: "nat \<Rightarrow> 'a mp_state_scheme \<Rightarrow> (rt_err_t \<times> 'a mp_state_scheme) option" where
  "rt_mp_detach n s = do {
     _ \<leftarrow> RT_ASSERT (rt_object_get_type (Kobj n) s = RT_Object_Class_MemPool);
     _ \<leftarrow> RT_ASSERT (rt_object_is_systemobject (Kobj n) s);
     s1 \<leftarrow> ipc_list_resume_all (Susp n) s;
     Some (RT_EOK, rt_object_detach (Kobj n) s1)
   }"

text \<open>\<open>ptr\<close> and \<open>area\<close> are what the two allocations return.\<close>

definition rt_mp_create ::
  "nat option \<Rightarrow> u32 \<Rightarrow> string \<Rightarrow> u32 \<Rightarrow> u32 \<Rightarrow> 'a mp_state_scheme \<Rightarrow> (nat option \<times> 'a mp_state_scheme) option" where
  "rt_mp_create ptr area name block_count bsize s = do {
     _ \<leftarrow> RT_ASSERT (interrupt_nest s = 0);
     _ \<leftarrow> RT_ASSERT (block_count > 0 \<and> bsize > 0);
     (ob, s1) \<leftarrow> rt_object_allocate (map_option Kobj ptr) RT_Object_Class_MemPool name s;
     case ptr of None \<Rightarrow> Some (None, s1)
     | Some n \<Rightarrow> do {
         let bs = align4 bsize;
         let s2 = upd_mp n (\<lambda>mp. mp\<lparr>block_size := bs, mp_size := (bs + 4) * block_count, start_address := area\<rparr>) s1;
         if area = 0 then do { s3 \<leftarrow> rt_object_delete (Kobj n) s2; Some (None, s3) }
         else let s3 = upd_mp n (\<lambda>mp. mp\<lparr>block_total_count := block_count, block_free_count := block_count\<rparr>) s2
              in Some (Some n, mp_format n area bs block_count s3)
       }
   }"

definition rt_mp_delete :: "nat \<Rightarrow> 'a mp_state_scheme \<Rightarrow> (rt_err_t \<times> 'a mp_state_scheme) option" where
  "rt_mp_delete n s = do {
     _ \<leftarrow> RT_ASSERT (interrupt_nest s = 0);
     _ \<leftarrow> RT_ASSERT (rt_object_get_type (Kobj n) s = RT_Object_Class_MemPool);
     _ \<leftarrow> RT_ASSERT (\<not> rt_object_is_systemobject (Kobj n) s);
     s1 \<leftarrow> ipc_list_resume_all (Susp n) s;
     s2 \<leftarrow> rt_object_delete (Kobj n) s1;
     Some (RT_EOK, s2)
   }"

section \<open>Allocating and releasing\<close>

text \<open>The block of \<^verbatim>\<open>rt_mp_alloc\<close> after its loop. The result is the address behind the word.\<close>

definition mp_take :: "nat \<Rightarrow> 'a mp_state_scheme \<Rightarrow> (u32 \<times> 'a mp_state_scheme) option" where
  "mp_take n s = do {
     let s1 = upd_mp n (\<lambda>mp. mp\<lparr>block_free_count := block_free_count mp - 1\<rparr>) s;
     let b = block_list (mempools s1 n);
     _ \<leftarrow> RT_ASSERT (b \<noteq> 0);
     case block_mem s1 b of Pool _ \<Rightarrow> None
     | Link nx \<Rightarrow>
         let s2 = upd_mp n (\<lambda>mp. mp\<lparr>block_list := nx\<rparr>) s1
         in Some (b + 4, s2\<lparr>block_mem := (block_mem s2)(b := Pool n)\<rparr>)
   }"

text \<open>A call that may sleep: \<open>Got\<close> is its return, \<open>Sleep\<close> that it was suspended, with the tick before.\<close>

datatype mp_outcome = Got u32 | Sleep u32

definition mp_alloc_loop ::
  "nat \<Rightarrow> int \<Rightarrow> 'a mp_state_scheme \<Rightarrow> (mp_outcome \<times> 'a mp_state_scheme) option" where
  "mp_alloc_loop n time s =
     (if block_free_count (mempools s n) = 0 then
        if time = 0 then Some (Got 0, mp_set_errno (- RT_ETIMEOUT) s)
        else do {
          _ \<leftarrow> RT_ASSERT (interrupt_nest s = 0);
          t \<leftarrow> rt_thread_self s;
          let s1 = upd_thread t (\<lambda>th. th\<lparr>t_error := RT_EOK\<rparr>) s;
          (_, s2) \<leftarrow> rt_thread_suspend t s1;
          let s3 = tlist_insert_after (Susp n) t s2;
          s4 \<leftarrow> (if time > 0 then thread_timer_arm t (of_int time) s3 else Some s3);
          s5 \<leftarrow> rt_schedule s4;
          Some (Sleep (rt_tick s), s5)
        }
      else do { (b, s1) \<leftarrow> mp_take n s; Some (Got b, s1) })"

definition rt_mp_alloc :: "nat \<Rightarrow> int \<Rightarrow> 'a mp_state_scheme \<Rightarrow> (mp_outcome \<times> 'a mp_state_scheme) option" where
  "rt_mp_alloc n time s = mp_alloc_loop n time s"

definition mp_alloc_resumed ::
  "nat \<Rightarrow> int \<Rightarrow> u32 \<Rightarrow> nat \<Rightarrow> 'a mp_state_scheme \<Rightarrow> (mp_outcome \<times> 'a mp_state_scheme) option" where
  "mp_alloc_resumed n time before_sleep t s =
     (if t_error (threads s t) \<noteq> RT_EOK then Some (Got 0, s)
      else mp_alloc_loop n (timeout_left time before_sleep (rt_tick_get s)) s)"

definition mp_give :: "u32 \<Rightarrow> nat \<Rightarrow> 'a mp_state_scheme \<Rightarrow> 'a mp_state_scheme" where
  "mp_give b n s =
     (let s1 = upd_mp n (\<lambda>mp. mp\<lparr>block_free_count := block_free_count mp + 1\<rparr>) s;
          s2 = s1\<lparr>block_mem := (block_mem s1)(b := Link (block_list (mempools s1 n)))\<rparr>
      in upd_mp n (\<lambda>mp. mp\<lparr>block_list := b\<rparr>) s2)"

definition rt_mp_free :: "u32 \<Rightarrow> 'a mp_state_scheme \<Rightarrow> 'a mp_state_scheme option" where
  "rt_mp_free block s =
     (if block = 0 then Some s
      else case block_mem s (block - 4) of Link _ \<Rightarrow> None
      | Pool n \<Rightarrow> do {
          let s1 = mp_give (block - 4) n s;
          case klists s1 (Susp n) of [] \<Rightarrow> Some s1
          | t # _ \<Rightarrow> do {
              (_, s2) \<leftarrow> rt_thread_resume t (upd_thread t (\<lambda>th. th\<lparr>t_error := RT_EOK\<rparr>) s1);
              rt_schedule s2 }
        })"

section \<open>Chains of blocks\<close>

fun mpath :: "(u32 \<Rightarrow> block_word) \<Rightarrow> u32 \<Rightarrow> u32 list \<Rightarrow> bool" where
  "mpath m p [] \<longleftrightarrow> p = 0"
| "mpath m p (x # xs) \<longleftrightarrow> p = x \<and> x \<noteq> 0 \<and> (case m x of Link nx \<Rightarrow> mpath m nx xs | Pool _ \<Rightarrow> False)"

lemma mpath_frame [simp]: "x \<notin> set xs \<Longrightarrow> mpath (m(x := v)) p xs = mpath m p xs"
  by (induction xs arbitrary: p) (auto split: block_word.split)

lemma mpath_chain:
  assumes "\<And>i. i < Suc cnt \<Longrightarrow> A i \<noteq> 0" "\<And>i. i < cnt \<Longrightarrow> m (A i) = Link (A (Suc i))" "m (A cnt) = Link 0" "j \<le> cnt"
  shows "mpath m (A j) (map A [j..<Suc cnt])"
  using assms(4)
proof (induction rule: inc_induct)
  case base
  then show ?case using assms(1,3) by simp
next
  case (step i)
  then have "[i..<Suc cnt] = i # [Suc i..<Suc cnt]" by (simp add: upt_conv_Cons)
  then show ?case using step assms(1,2) by simp
qed

text \<open>The links the loop writes, when the blocks do not overlap.\<close>

lemma link_blocks_spec:
  assumes "inj_on A {j..<j + k}" "\<And>i. A i = block_at start sz (of_nat i)"
  shows "(\<forall>i. j \<le> i \<and> i < j + k \<longrightarrow> link_blocks start sz k (of_nat j) m (A i) = Link (A (Suc i))) \<and>
    (\<forall>a. a \<notin> A ` {j..<j + k} \<longrightarrow> link_blocks start sz k (of_nat j) m a = m a)"
  using assms(1)
proof (induction k arbitrary: j m)
  case (Suc k)
  define m1 where "m1 = m(A j := Link (A (Suc j)))"
  have run: "link_blocks start sz (Suc k) (of_nat j) m = link_blocks start sz k (of_nat (Suc j)) m1"
    using assms(2) [of j] assms(2) [of "Suc j"] by (simp add: m1_def add.commute)
  have m1: "m1 (A j) = Link (A (Suc j))" "a \<noteq> A j \<Longrightarrow> m1 a = m a" for a by (simp_all add: m1_def)
  have inj: "inj_on A {Suc j..<Suc j + k}" using Suc.prems by (rule inj_on_subset) auto
  have j: "A j \<notin> A ` {Suc j..<Suc j + k}" by (auto dest!: inj_onD [OF Suc.prems, of j])
  note IH = Suc.IH [OF inj, of m1]
  have "link_blocks start sz k (of_nat (Suc j)) m1 (A i) = Link (A (Suc i))" if "j \<le> i" "i < j + Suc k" for i
    using IH j that m1(1) by (cases "i = j") auto
  moreover have "link_blocks start sz k (of_nat (Suc j)) m1 a = m a" if "a \<notin> A ` {j..<j + Suc k}" for a
  proof -
    have "a \<noteq> A j" "a \<notin> A ` {Suc j..<Suc j + k}" using that by auto
    then show ?thesis using IH m1(2) by simp
  qed
  ultimately show ?case unfolding run by blast
qed auto

section \<open>Every block free or allocated\<close>

definition blocks :: "rt_mempool \<Rightarrow> u32 list" where
  "blocks mp = map (\<lambda>i. block_at (start_address mp) (block_size mp) (of_nat i)) [0..<unat (block_total_count mp)]"

definition mp_shape :: "nat \<Rightarrow> u32 list \<Rightarrow> 'a mp_state_scheme \<Rightarrow> bool" where
  "mp_shape n fs s \<longleftrightarrow> mpath (block_mem s) (block_list (mempools s n)) fs \<and> distinct fs \<and>
     distinct (blocks (mempools s n)) \<and> 0 \<notin> set (blocks (mempools s n)) \<and> set fs \<subseteq> set (blocks (mempools s n)) \<and>
     (\<forall>b \<in> set (blocks (mempools s n)) - set fs. block_mem s b = Pool n) \<and>
     unat (block_free_count (mempools s n)) = length fs"

lemma upd_mp_sel [simp]:
  "mempools (upd_mp n f s) = (mempools s)(n := f (mempools s n))" "block_mem (upd_mp n f s) = block_mem s"
  "klists (upd_mp n f s) = klists s" "objects (upd_mp n f s) = objects s"
  "threads (upd_mp n f s) = threads s" "current_thread (upd_mp n f s) = current_thread s"
  "interrupt_nest (upd_mp n f s) = interrupt_nest s" "rt_tick (upd_mp n f s) = rt_tick s"
  by (simp_all add: upd_mp_def)

lemma kernel_inv_mp [simp]:
  "kernel_inv (upd_mp n f s) = kernel_inv s" "kernel_inv (s\<lparr>block_mem := m\<rparr>) = kernel_inv s"
  using kernel_inv_cong [of "upd_mp n f s" s] kernel_inv_cong [of "s\<lparr>block_mem := m\<rparr>" s] by (simp_all add: upd_mp_def)

lemma blocks_fields [simp]:
  "blocks (mp\<lparr>block_free_count := c\<rparr>) = blocks mp" "blocks (mp\<lparr>block_list := b\<rparr>) = blocks mp"
  by (simp_all add: blocks_def)

lemma kframe_mp:
  fixes s s' :: "'a mp_state_scheme"
  assumes "kframe s s'"
  shows "mempools s' = mempools s" "block_mem s' = block_mem s"
  using kframe_ipc(6) [OF assms] by (cases s, cases s', simp)+

lemma mp_shape_kframe: "kframe s s' \<Longrightarrow> mp_shape n fs s' = mp_shape n fs s"
  by (simp add: mp_shape_def kframe_mp)

lemma mp_take_spec:
  assumes "mp_shape n (b # fs) s"
  shows "\<exists>s'. mp_take n s = Some (b + 4, s') \<and> mp_shape n fs s' \<and> kernel_inv s' = kernel_inv s \<and>
    klists s' = klists s \<and> threads s' = threads s \<and> current_thread s' = current_thread s \<and>
    block_mem s' = (block_mem s)(b := Pool n) \<and> blocks (mempools s' n) = blocks (mempools s n) \<and>
    mempools s' = (mempools s)(n := (mempools s n)\<lparr>block_free_count := block_free_count (mempools s n) - 1,
       block_list := block_list (mempools s' n)\<rparr>) \<and> mpath (block_mem s) (block_list (mempools s' n)) fs"
proof -
  have b: "block_list (mempools s n) = b" "b \<noteq> 0" "unat (block_free_count (mempools s n)) = Suc (length fs)" "b \<notin> set fs"
    using assms by (auto simp: mp_shape_def)
  obtain nx where nx: "block_mem s b = Link nx" "mpath (block_mem s) nx fs"
    using assms by (auto simp: mp_shape_def split: block_word.splits)
  have "unat (block_free_count (mempools s n) - 1) = length fs"
    using b(3) by (metis Suc_inject Suc_pred' unat_minus_one unat_gt_0 diff_Suc_1 zero_less_Suc)
  then show ?thesis using assms b nx by (auto simp: mp_take_def mp_shape_def Let_def)
qed

lemma rt_mp_alloc_spec:
  assumes "mp_shape n (b # fs) s"
  shows "rt_mp_alloc n time s = map_option (\<lambda>(x, s'). (Got x, s')) (mp_take n s)"
proof -
  have "block_free_count (mempools s n) \<noteq> 0" using assms by (auto simp: mp_shape_def)
  then show ?thesis by (auto simp: rt_mp_alloc_def mp_alloc_loop_def split: Option.bind_split)
qed

lemma rt_mp_alloc_empty: "mp_shape n [] s \<Longrightarrow> rt_mp_alloc n 0 s = Some (Got 0, mp_set_errno (- RT_ETIMEOUT) s)"
  by (simp add: mp_shape_def rt_mp_alloc_def mp_alloc_loop_def unat_eq_0)

text \<open>Waiting: the caller is put in front of those that already wait.\<close>

lemma rt_mp_alloc_waits:
  assumes inv: "kernel_inv s" and sh: "mp_shape n [] s" and c: "current_thread s = Some c" "interrupt_nest s = 0"
    and r: "stat_base (threads s c) = RT_THREAD_RUNNING" and t: "time < 0x7fffffff" "time \<noteq> 0"
  shows "\<exists>s' c'. rt_mp_alloc n time s = Some (Sleep (rt_tick s), s') \<and> kernel_inv s' \<and> mp_shape n [] s' \<and>
    current_thread s' = Some c' \<and> stat_base (threads s' c) = RT_THREAD_SUSPEND \<and>
    klists s' (Susp n) = c # klists s (Susp n)"
proof -
  let ?s1 = "upd_thread c (\<lambda>th. th\<lparr>t_error := RT_EOK\<rparr>) s"
  have i1: "kernel_inv ?s1" "runnable (threads ?s1 c)" using inv r by (simp_all add: runnable_def)
  from suspend_and_link [OF i1, of "Susp n" n "Cons c"] obtain s2 s3 where
    s2: "rt_thread_suspend c ?s1 = Some (RT_EOK, s2)" and s3: "s3 = s2\<lparr>klists := (klists s2)(Susp n := c # klists s2 (Susp n))\<rparr>"
      "kernel_inv s3" "kframe ?s1 s3" "current_thread s3 = Some c"
      "threads s3 = (threads ?s1)(c := set_stat RT_THREAD_SUSPEND (threads ?s1 c))"
      "klists s3 (Susp n) = c # klists s (Susp n)" using c by auto
  have "stat_base (threads s3 c) = RT_THREAD_SUSPEND" by (simp add: s3(5))
  from arm_and_schedule [OF s3(2,4) this t(1)] obtain s4 s5 c' where s5:
    "(if time > 0 then thread_timer_arm c (of_int time) s3 else Some s3) = Some s4" "rt_schedule s4 = Some s5"
    "kernel_inv s5" "kframe s3 s5" "current_thread s5 = Some c'" "stat_base (threads s5 c) = RT_THREAD_SUSPEND"
    "klists s5 (Susp n) = klists s3 (Susp n)" by auto
  have "kframe s s5" using kframe_trans [OF kframe_trans [OF kframe_error s3(3)] s5(4)] .
  then have "mp_shape n [] s5" using sh by (simp add: mp_shape_kframe)
  moreover have "block_free_count (mempools s n) = 0" using sh by (simp add: mp_shape_def unat_eq_0)
  then have "rt_mp_alloc n time s = Some (Sleep (rt_tick s), s5)"
    using t(2) c s2 s5(1,2)
    by (cases "0 < time") (simp_all add: rt_mp_alloc_def mp_alloc_loop_def rt_thread_self_def tlist_insert_after_def Let_def s3(1) [symmetric])
  ultimately show ?thesis using s5 s3(6) by auto
qed

text \<open>Releasing a block: it is the first free block again, and the first waiting thread becomes runnable.\<close>

lemma rt_mp_free_spec:
  assumes inv: "kernel_inv s" and c: "current_thread s = Some c" and sh: "mp_shape n fs s"
    and b: "b \<in> set (blocks (mempools s n))" "b \<notin> set fs" and nz: "b + 4 \<noteq> 0"
  shows "\<exists>s' c'. rt_mp_free (b + 4) s = Some s' \<and> kernel_inv s' \<and> mp_shape n (b # fs) s' \<and>
    current_thread s' = Some c' \<and> klists s' (Susp n) = tl (klists s (Susp n)) \<and>
    (klists s (Susp n) \<noteq> [] \<longrightarrow> runnable (threads s' (hd (klists s (Susp n))))) \<and>
    mempools s' = (mempools s)(n := (mempools s n)\<lparr>block_free_count := block_free_count (mempools s n) + 1,
       block_list := b\<rparr>) \<and> block_mem s' = (block_mem s)(b := Link (block_list (mempools s n)))"
proof -
  have own: "block_mem s b = Pool n" using sh b by (simp add: mp_shape_def)
  let ?s1 = "mp_give b n s"
  have "length fs < length (blocks (mempools s n))"
    using sh b by (metis (no_types, lifting) mp_shape_def distinct_card card_mono card_subset_eq finite_set le_neq_implies_less)
  then have lt: "block_free_count (mempools s n) < block_total_count (mempools s n)"
    using sh by (simp add: mp_shape_def blocks_def word_less_nat_alt)
  have "unat (block_free_count (mempools s n) + 1) = Suc (length fs)"
    using unat_Suc_below [OF lt] sh by (simp add: mp_shape_def)
  moreover have "b \<noteq> 0" using sh b(1) by (auto simp: mp_shape_def)
  ultimately have sh1: "mp_shape n (b # fs) ?s1" using sh b by (auto simp: mp_give_def mp_shape_def Let_def)
  have g: "kernel_inv ?s1" "current_thread ?s1 = Some c" "klists ?s1 = klists s"
    "mempools ?s1 = (mempools s)(n := (mempools s n)\<lparr>block_free_count := block_free_count (mempools s n) + 1, block_list := b\<rparr>)"
    "block_mem ?s1 = (block_mem s)(b := Link (block_list (mempools s n)))"
    using inv c by (simp_all add: mp_give_def Let_def)
  show ?thesis
  proof (cases "klists s (Susp n)")
    case Nil
    then show ?thesis using own nz sh1 g by (simp add: rt_mp_free_def)
  next
    case (Cons t ts)
    let ?s2 = "upd_thread t (\<lambda>th. th\<lparr>t_error := RT_EOK\<rparr>) ?s1"
    have w: "kernel_inv ?s2" "current_thread ?s2 = Some c" "klists ?s2 (Susp n) = t # ts" using g Cons by simp_all
    obtain s3 c3 where s3: "ipc_wake_one (Susp n) ?s2 = Some s3" "kernel_inv s3" "kframe ?s2 s3" "current_thread s3 = Some c3"
      "klists s3 (Susp n) = ts" "runnable (threads s3 t)" using wq.wake_ok [OF w(1,2), of "Susp n" n] w(3) by auto
    have "rt_mp_free (b + 4) s = Some s3"
      using own nz Cons g(3) w(3) s3(1)
      by (simp add: rt_mp_free_def ipc_wake_one_def ipc_list_resume_def) (auto split: Option.bind_splits)
    moreover have k: "kframe ?s1 s3" using kframe_trans [OF kframe_error s3(3)] .
    ultimately show ?thesis
      using s3 Cons sh1 g(4,5) mp_shape_kframe [OF k] kframe_mp [OF k] by auto
  qed
qed

section \<open>A fresh pool\<close>

lemma block_at_unat:
  assumes "unat start + cnt * (unat sz + 4) \<le> 2 ^ 32" "i < cnt"
  shows "unat (block_at start sz (of_nat i)) = unat start + i * (unat sz + 4)"
proof -
  have "Suc i * (unat sz + 4) \<le> cnt * (unat sz + 4)" using assms(2) by (intro mult_right_mono) auto
  then have lt: "unat start + i * (unat sz + 4) < 2 ^ 32" using assms(1) by simp
  have "block_at start sz (of_nat i) = of_nat (unat start + i * (unat sz + 4))" by (simp add: block_at_def)
  then show ?thesis using lt by (simp add: unsigned_of_nat take_bit_nat_eq_self del: of_nat_add of_nat_mult)
qed

lemma mp_format_shape:
  assumes fields: "start_address (mempools s n) = start" "block_size (mempools s n) = sz"
    "block_total_count (mempools s n) = cnt" "block_free_count (mempools s n) = cnt"
    and area: "start \<noteq> 0" "cnt \<noteq> 0" "unat start + unat cnt * (unat sz + 4) \<le> 2 ^ 32"
  shows "mp_shape n (blocks (mempools s n)) (mp_format n start sz cnt s)"
proof -
  let ?A = "\<lambda>i. block_at start sz (of_nat i)"
  obtain k where k: "unat cnt = Suc k" using area(2) by (metis not0_implies_Suc unat_eq_zero)
  have u: "i < Suc k \<Longrightarrow> unat (?A i) = unat start + i * (unat sz + 4)" for i using block_at_unat [OF area(3)] k by simp
  have inj: "inj_on ?A {0..<0 + Suc k}"
  proof (rule inj_onI)
    fix i j assume ij: "i \<in> {0..<0 + Suc k}" "j \<in> {0..<0 + Suc k}" "?A i = ?A j"
    have "unat (?A i) = unat start + i * (unat sz + 4)" "unat (?A j) = unat start + j * (unat sz + 4)"
      by (rule u, use ij in simp)+
    then have "unat start + i * (unat sz + 4) = unat start + j * (unat sz + 4)" unfolding ij(3) by (rule trans [OF sym])
    then show "i = j" by simp
  qed
  have nz: "i < Suc k \<Longrightarrow> ?A i \<noteq> 0" for i using u [of i] area(1) by (auto simp: unat_eq_0)
  have "of_nat (unat cnt) = cnt" by simp
  then have last: "cnt - 1 = of_nat k" unfolding k by (metis add_diff_cancel_left' of_nat_Suc)
  define m2 where "m2 = (link_blocks start sz (Suc k) 0 (block_mem s))(?A k := Link 0)"
  have "i < k \<Longrightarrow> m2 (?A i) = Link (?A (Suc i))" for i
    using link_blocks_spec [OF inj, of start sz "block_mem s"] inj_onD [OF inj, of i k] by (auto simp: m2_def)
  from mpath_chain [of k ?A m2 0, OF nz this] have path: "mpath m2 (?A 0) (map ?A [0..<Suc k])" by (simp add: m2_def)
  have bl: "blocks (mempools s n) = map ?A [0..<Suc k]" using fields k by (simp add: blocks_def)
  have d: "distinct (blocks (mempools s n))" "0 \<notin> set (blocks (mempools s n))"
    unfolding bl using inj nz by (auto simp: distinct_map atLeast0LessThan simp del: upt_Suc)
  have "?A 0 = start" by (simp add: block_at_def)
  then show ?thesis
    using path d k fields unfolding bl
    by (simp add: mp_shape_def mp_format_def Let_def ipc_object_init_def last m2_def bl del: upt_Suc)
qed

lemma rt_mp_init_spec:
  assumes inv: "sched_inv s" "current_thread s = Some c" and fresh: "\<And>d. Kobj n \<notin> set (containers s d)"
    and area: "start \<noteq> 0" "0 < bsize" "unat start + unat (area_size AND NOT 3) \<le> 2 ^ 32"
    and room: "unat (align4 bsize) + 4 \<le> unat (area_size AND NOT 3)"
  shows "\<exists>s'. rt_mp_init n name start area_size bsize s = Some (RT_EOK, s') \<and> mp_shape n (blocks (mempools s' n)) s' \<and>
    length (blocks (mempools s' n)) = unat (area_size AND NOT 3) div (unat (align4 bsize) + 4) \<and>
    (\<forall>i < length (blocks (mempools s' n)). unat (blocks (mempools s' n) ! i) = unat start + i * (unat (align4 bsize) + 4))"
proof -
  obtain s1 where s1: "rt_object_init (Kobj n) RT_Object_Class_MemPool name s = Some s1"
    using rt_object_init_spec [OF inv, of RT_Object_Class_MemPool "Kobj n" name] fresh by (auto simp: object_container_def)
  let ?sz = "area_size AND NOT 3" and ?bs = "align4 bsize"
  let ?cnt = "?sz div (?bs + 4)"
  have "unat ?sz < 2 ^ 32" using unsigned_less [where ?'a = nat and w = ?sz] by simp
  then have "unat ?bs + 4 < 2 ^ 32" using room by linarith
  then have bs: "unat (?bs + 4) = unat ?bs + 4" by (simp add: unat_word_ariths)
  have cnt: "unat ?cnt = unat ?sz div (unat ?bs + 4)" by (simp add: unat_div bs)
  have le: "unat ?cnt * (unat ?bs + 4) \<le> unat ?sz" unfolding cnt by (rule div_times_less_eq_dividend)
  have "0 < unat ?cnt" unfolding cnt using room by (simp add: div_greater_zero_iff)
  then have c0: "?cnt \<noteq> 0" by (simp add: unat_gt_0 [symmetric])
  let ?s2 = "upd_mp n (\<lambda>mp. mp\<lparr>start_address := start, mp_size := ?sz, block_size := ?bs,
                                  block_total_count := ?cnt, block_free_count := ?cnt\<rparr>) s1"
  have a: "unat start + unat ?cnt * (unat ?bs + 4) \<le> 2 ^ 32" using le area(3) by linarith
  have sh: "mp_shape n (blocks (mempools ?s2 n)) (mp_format n start ?bs ?cnt ?s2)"
    by (rule mp_format_shape) (use area(1) c0 a in simp_all)
  let ?s' = "mp_format n start ?bs ?cnt ?s2"
  have b: "blocks (mempools ?s' n) = blocks (mempools ?s2 n)" by (simp add: mp_format_def Let_def ipc_object_init_def)
  have "0 < area_size" using room by (auto simp: word_gt_0)
  then have "rt_mp_init n name start area_size bsize s = Some (RT_EOK, ?s')"
    using s1 area(1,2) by (simp add: rt_mp_init_def Let_def)
  moreover have "blocks (mempools ?s2 n) = map (\<lambda>i. block_at start ?bs (of_nat i)) [0..<unat ?cnt]" by (simp add: blocks_def)
  ultimately show ?thesis using sh b block_at_unat [OF a] cnt by simp
qed

text \<open>An area too small for one block: the loop does nothing and the null goes to a word in front of the area.\<close>

lemma mp_init_writes_before:
  "block_mem (mp_format n start sz 0 s) = (block_mem s)(start - (sz + 4) := Link 0)"
  by (simp add: mp_format_def Let_def ipc_object_init_def block_at_def algebra_simps)

text \<open>Taking blocks one after the other.\<close>

fun mp_allocs :: "nat \<Rightarrow> nat \<Rightarrow> 'a mp_state_scheme \<Rightarrow> (u32 list \<times> 'a mp_state_scheme) option" where
  "mp_allocs n 0 s = Some ([], s)"
| "mp_allocs n (Suc k) s = do {
     (r, s1) \<leftarrow> rt_mp_alloc n 0 s;
     case r of Sleep _ \<Rightarrow> None
     | Got b \<Rightarrow> do { (bs, s2) \<leftarrow> mp_allocs n k s1; Some (b # bs, s2) }
   }"

lemma mp_allocs_spec:
  "mp_shape n (bs @ fs) s \<Longrightarrow>
   \<exists>s'. mp_allocs n (length bs) s = Some (map (\<lambda>b. b + 4) bs, s') \<and> mp_shape n fs s'"
proof (induction bs arbitrary: s)
  case (Cons b bs)
  then obtain s1 where "mp_take n s = Some (b + 4, s1)" "mp_shape n (bs @ fs) s1" using mp_take_spec [of n b "bs @ fs" s] by auto
  with Cons.IH [of s1] rt_mp_alloc_spec [of n b "bs @ fs" s 0] Cons.prems show ?case by auto
qed simp

end
