(* ===== verification/Mempool_Props.thy ===== *)
theory Mempool_Props
  imports Mempool Sample_State
begin

text \<open>Properties of the memory pools.\<close>

text \<open>A fresh pool hands out exactly its blocks. After initialisation on an area with room for at least
  one block, as many allocations succeed as blocks with their links fit into the area; the blocks follow each
  other without overlapping and lie in the area; the next allocation that does not wait returns null and sets the error number.\<close>

theorem fresh_pool_serves_every_block:
  assumes "sched_inv s" "current_thread s = Some c" "\<And>d. Kobj n \<notin> set (containers s d)"
    "start \<noteq> 0" "0 < bsize" "unat start + unat (area_size AND NOT 3) \<le> 2 ^ 32"
    "unat (align4 bsize) + 4 \<le> unat (area_size AND NOT 3)"
  shows "\<exists>s1 bs s2. rt_mp_init n name start area_size bsize s = Some (RT_EOK, s1) \<and>
    length bs = unat (area_size AND NOT 3) div (unat (align4 bsize) + 4) \<and>
    mp_allocs n (length bs) s1 = Some (map (\<lambda>b. b + 4) bs, s2) \<and>
    (\<forall>i < length bs. unat (bs ! i) = unat start + i * (unat (align4 bsize) + 4) \<and>
       unat (bs ! i) + 4 + unat (align4 bsize) \<le> unat start + unat (area_size AND NOT 3)) \<and>
    rt_mp_alloc n 0 s2 = Some (Got 0, mp_set_errno (- RT_ETIMEOUT) s2)"
proof -
  let ?k = "unat (align4 bsize) + 4" and ?sz = "unat (area_size AND NOT 3)"
  obtain s1 where s1: "rt_mp_init n name start area_size bsize s = Some (RT_EOK, s1)"
    "mp_shape n (blocks (mempools s1 n)) s1" "length (blocks (mempools s1 n)) = ?sz div ?k"
    "\<forall>i < length (blocks (mempools s1 n)). unat (blocks (mempools s1 n) ! i) = unat start + i * ?k"
    using rt_mp_init_spec [OF assms, of name] by blast
  let ?bs = "blocks (mempools s1 n)"
  obtain s2 where s2: "mp_allocs n (length ?bs) s1 = Some (map (\<lambda>b. b + 4) ?bs, s2)" "mp_shape n [] s2"
    using mp_allocs_spec [of n ?bs "[]" s1] s1(2) by auto
  have "unat (?bs ! i) + 4 + unat (align4 bsize) \<le> unat start + ?sz" if "i < length ?bs" for i
  proof -
    have "Suc i * ?k \<le> length ?bs * ?k" using that by (intro mult_right_mono) auto
    also have "\<dots> \<le> ?sz" unfolding s1(3) by (rule div_times_less_eq_dividend)
    finally show ?thesis using s1(4) that by simp
  qed
  then show ?thesis using s1 s2 rt_mp_alloc_empty [OF s2(2)] by blast
qed

definition mp_sample :: mp_state where
  "mp_sample = ipc_state.extend sample
     \<lparr>mempools = (\<lambda>_. \<lparr>start_address = 0, mp_size = 0, block_size = 0, block_list = 0, block_total_count = 0,
                        block_free_count = 0\<rparr>),
      block_mem = (\<lambda>_. Link 0), rt_errno = 0\<rparr>"

lemma mp_sample_sel [simp]:
  "klists mp_sample = klists sample" "threads mp_sample = threads sample" "current_thread mp_sample = current_thread sample"
  "containers mp_sample = containers sample"
  "kernel_inv mp_sample"
  using sample_kernel_inv kernel_inv_cong [of mp_sample sample]
  by (simp_all add: mp_sample_def ipc_state.defs)

theorem fresh_pool_serves_every_block_witness:
  "\<exists>s1 s2. rt_mp_init 30 ''signal'' 0x20001000 40 5 mp_sample = Some (RT_EOK, s1) \<and>
     mp_allocs 30 3 s1 = Some ([0x20001004, 0x20001010, 0x2000101c], s2)"
proof -
  have "align4 5 = 8" by (simp add: align4_def)
  then have k: "unat (align4 5) + 4 = 12" by simp
  have sz: "unat (40 AND NOT 3 :: u32) = 40" by simp
  obtain s1 bs s2 where L: "rt_mp_init 30 ''signal'' 0x20001000 40 5 mp_sample = Some (RT_EOK, s1)"
    "length bs = 3" "mp_allocs 30 (length bs) s1 = Some (map (\<lambda>b. b + 4) bs, s2)"
    "\<forall>i < length bs. unat (bs ! i) = unat (0x20001000 :: u32) + i * 12"
    using fresh_pool_serves_every_block [where s = mp_sample and c = 1 and n = 30 and start = "0x20001000" and bsize = 5
      and area_size = 40 and name = "''signal''"] kernel_invD(1) [of mp_sample]
    unfolding k sz by auto
  obtain b0 b1 b2 where bs: "bs = [b0, b1, b2]" using L(2) by (auto simp: numeral_3_eq_3 length_Suc_conv)
  have "unat (bs ! 0) = unat (0x20001000 :: u32)" "unat (bs ! 1) = unat (0x2000100c :: u32)"
    "unat (bs ! 2) = unat (0x20001018 :: u32)" using L(2) L(4) by simp_all
  then have "bs ! 0 = 0x20001000" "bs ! 1 = 0x2000100c" "bs ! 2 = 0x20001018" by (simp_all only: word_unat_eq_iff)
  then have "map (\<lambda>b. b + 4) bs = [0x20001004, 0x20001010, 0x2000101c]" by (simp add: bs)
  then show ?thesis using L by auto
qed

text \<open>Property C26: allocating a block and releasing it puts the pool back exactly as it was: the free blocks, their
  order, their number and every link. Releasing wakes the thread that began to wait last, and no other block is
  touched in between.\<close>

theorem pool_alloc_then_free:
  assumes "kernel_inv s" "current_thread s = Some c" "mp_shape n (b # fs) s" "b + 4 \<noteq> 0"
  shows "\<exists>s1 s2. rt_mp_alloc n time s = Some (Got (b + 4), s1) \<and> mp_shape n fs s1 \<and> rt_mp_free (b + 4) s1 = Some s2 \<and>
    kernel_inv s2 \<and> mempools s2 = mempools s \<and> block_mem s2 = block_mem s \<and> mp_shape n (b # fs) s2 \<and>
    klists s2 (Susp n) = tl (klists s (Susp n)) \<and>
    (klists s (Susp n) \<noteq> [] \<longrightarrow> runnable (threads s2 (hd (klists s (Susp n)))))"
proof -
  obtain s1 where s1: "mp_take n s = Some (b + 4, s1)" "mp_shape n fs s1" "kernel_inv s1" "klists s1 = klists s"
    "current_thread s1 = Some c" "block_mem s1 = (block_mem s)(b := Pool n)" "blocks (mempools s1 n) = blocks (mempools s n)"
    "mempools s1 = (mempools s)(n := (mempools s n)\<lparr>block_free_count := block_free_count (mempools s n) - 1,
       block_list := block_list (mempools s1 n)\<rparr>)"
    using mp_take_spec [OF assms(3)] assms(1,2) by auto
  have b: "b \<in> set (blocks (mempools s1 n))" "b \<notin> set fs" "block_list (mempools s n) = b"
    using assms(3) s1(7) by (auto simp: mp_shape_def)
  obtain s2 c2 where s2: "rt_mp_free (b + 4) s1 = Some s2" "kernel_inv s2" "mp_shape n (b # fs) s2"
    "klists s2 (Susp n) = tl (klists s1 (Susp n))"
    "klists s1 (Susp n) \<noteq> [] \<longrightarrow> runnable (threads s2 (hd (klists s1 (Susp n))))"
    "mempools s2 = (mempools s1)(n := (mempools s1 n)\<lparr>block_free_count := block_free_count (mempools s1 n) + 1,
       block_list := b\<rparr>)" "block_mem s2 = (block_mem s1)(b := Link (block_list (mempools s1 n)))"
    using rt_mp_free_spec [OF s1(3,5,2) b(1,2) assms(4)] by blast
  have "block_mem s b = Link (block_list (mempools s1 n))"
    using s1(1) b(3) by (auto simp: mp_take_def Let_def split: block_word.splits if_splits)
  then have mem: "block_mem s2 = block_mem s" using s2(7) s1(6) by (simp add: fun_upd_idem)
  define nx where "nx = block_list (mempools s1 n)"
  have "mempools s1 n = (mempools s n)\<lparr>block_free_count := block_free_count (mempools s n) - 1, block_list := nx\<rparr>"
    using fun_cong [OF s1(8), of n] unfolding nx_def by simp
  then have "mempools s2 n = mempools s n" using s2(6) b(3) by (cases "mempools s n") simp
  moreover have "k \<noteq> n \<Longrightarrow> mempools s1 k = mempools s k" for k using fun_cong [OF s1(8), of k] by simp
  ultimately have "mempools s2 k = mempools s k" for k using s2(6) by (cases "k = n") simp_all
  then have pools: "mempools s2 = mempools s" by blast
  have "rt_mp_alloc n time s = Some (Got (b + 4), s1)" using rt_mp_alloc_spec [OF assms(3), of time] s1(1) by simp
  then show ?thesis using s1(2,4) s2(1-5) mem pools by auto
qed

text \<open>The sample state with a pool of three blocks of eight bytes.\<close>

definition pool_sample :: mp_state where
  "pool_sample = mp_format 30 0x20001000 8 3 (upd_mp 30 (\<lambda>mp. mp\<lparr>start_address := 0x20001000, block_size := 8,
     block_total_count := 3, block_free_count := 3\<rparr>) mp_sample)"

lemma pool_sample_sel:
  "kernel_inv pool_sample" "current_thread pool_sample = Some 1" "klists pool_sample = klists sample"
proof -
  have k: "klists pool_sample = klists sample"
    by (auto simp: pool_sample_def mp_format_def ipc_object_init_def Let_def fun_eq_iff sample_def)
  moreover have "kernel_inv pool_sample = kernel_inv mp_sample"
    by (rule kernel_inv_cong) (use k in \<open>simp_all add: pool_sample_def mp_format_def ipc_object_init_def Let_def upd_mp_def\<close>)
  ultimately show "kernel_inv pool_sample" "current_thread pool_sample = Some 1" "klists pool_sample = klists sample"
    by (simp_all add: pool_sample_def mp_format_def ipc_object_init_def Let_def)
qed

lemma pool_sample_shape: "mp_shape 30 [0x20001000, 0x2000100c, 0x20001018] pool_sample"
proof -
  let ?s = "upd_mp 30 (\<lambda>mp. mp\<lparr>start_address := 0x20001000, block_size := 8,
     block_total_count := 3, block_free_count := 3\<rparr>) mp_sample"
  have "mp_shape 30 (blocks (mempools ?s 30)) pool_sample"
    unfolding pool_sample_def by (rule mp_format_shape) simp_all
  moreover have "blocks (mempools ?s 30) = [0x20001000, 0x2000100c, 0x20001018]"
    by (simp add: blocks_def block_at_def upt_rec)
  ultimately show ?thesis by simp
qed

theorem pool_alloc_then_free_witness:
  "\<exists>s1 s2. rt_mp_alloc 30 0 pool_sample = Some (Got 0x20001004, s1) \<and> rt_mp_free 0x20001004 s1 = Some s2 \<and>
     block_mem s2 = block_mem pool_sample"
  using pool_alloc_then_free [OF pool_sample_sel(1,2) pool_sample_shape, of 0] by auto

end
