(* ===== verification/Heap_Blocks.thy ===== *)
theory Heap_Blocks
  imports Ring
begin

text \<open>
  The blocks of a memory heap (\<^verbatim>\<open>rt-thread/src/memheap.c\<close>). The area of a heap is cut into blocks, each behind an item of
  24 bytes: a magic word whose lowest bit says whether the block is in use, the heap it belongs to, the links of the
  ring of all blocks in the order of their addresses, and the links of the ring of free blocks. The last item, of length
  0 and in use, keeps the last block from being joined across the end.

  The items are the store \<open>heap_mem\<close>, a function from addresses for every field. Addresses are natural numbers; sizes
  are 32-bit words with the arithmetic of the code. Here is what the operations do to the blocks once they hold the
  lock of the heap; the operations themselves are in \<^verbatim>\<open>Memheap\<close>.
\<close>

section \<open>Items and heaps\<close>

record heap_mem =
  magic :: "nat \<Rightarrow> u32"
  pool_ptr :: "nat \<Rightarrow> nat"
  bring :: "nat ring"
  fring :: "nat ring"

record rt_memheap =
  start_addr :: nat
  pool_size :: u32
  available_size :: u32
  max_used_size :: u32
  block_list :: nat
  free_list :: nat
  free_header :: nat
  lock :: nat

definition RT_MEMHEAP_MAGIC :: u32 where "RT_MEMHEAP_MAGIC = 0x1ea01ea0"
definition RT_MEMHEAP_MASK :: u32 where "RT_MEMHEAP_MASK = 0xfffffffe"
definition RT_MEMHEAP_USED :: u32 where "RT_MEMHEAP_USED = 1"
definition RT_MEMHEAP_FREED :: u32 where "RT_MEMHEAP_FREED = 0"
definition RT_MEMHEAP_MINIALLOC :: u32 where "RT_MEMHEAP_MINIALLOC = 12"
definition RT_MEMHEAP_SIZE :: u32 where "RT_MEMHEAP_SIZE = 24"

definition RT_MEMHEAP_IS_USED :: "heap_mem \<Rightarrow> nat \<Rightarrow> bool" where
  "RT_MEMHEAP_IS_USED m a \<longleftrightarrow> magic m a AND RT_MEMHEAP_USED \<noteq> 0"

definition MEMITEM_SIZE :: "heap_mem \<Rightarrow> nat \<Rightarrow> u32" where
  "MEMITEM_SIZE m a = of_nat (next_of (bring m) a) - of_nat a - RT_MEMHEAP_SIZE"

definition set_magic :: "nat \<Rightarrow> u32 \<Rightarrow> heap_mem \<Rightarrow> heap_mem" where
  "set_magic a v m = m\<lparr>magic := (magic m)(a := RT_MEMHEAP_MAGIC OR v)\<rparr>"

definition new_item :: "nat \<Rightarrow> nat \<Rightarrow> heap_mem \<Rightarrow> heap_mem" where
  "new_item n a m = (set_magic a RT_MEMHEAP_FREED m)\<lparr>pool_ptr := (pool_ptr m)(a := n)\<rparr>"

section \<open>The two rings\<close>

definition free_insert :: "nat \<Rightarrow> nat \<Rightarrow> nat ring \<Rightarrow> nat ring" where
  "free_insert f a r =
     (let r1 = set_next a (next_of r f) r;
          r2 = set_prev a f r1;
          r3 = set_prev (next_of r2 f) a r2
      in set_next f a r3)"

definition free_remove :: "nat \<Rightarrow> nat ring \<Rightarrow> nat ring" where
  "free_remove a r =
     (let r1 = set_prev (next_of r a) (prev_of r a) r
      in set_next (prev_of r1 a) (next_of r1 a) r1)"

definition free_null :: "nat \<Rightarrow> nat ring \<Rightarrow> nat ring" where
  "free_null a r = set_prev a 0 (set_next a 0 r)"

text \<open>A new item \<open>a\<close> behind \<open>h\<close>.\<close>

definition block_split :: "nat \<Rightarrow> nat \<Rightarrow> nat ring \<Rightarrow> nat ring" where
  "block_split h a r =
     (let r1 = set_prev a h r;
          r2 = set_next a (next_of r1 h) r1;
          r3 = set_prev (next_of r2 h) a r2
      in set_next h a r3)"

text \<open>An item is joined to the one before it, and the item behind \<open>h\<close> to \<open>h\<close>.\<close>

definition block_drop :: "nat \<Rightarrow> nat ring \<Rightarrow> nat ring" where
  "block_drop a r =
     (let r1 = set_next (prev_of r a) (next_of r a) r
      in set_prev (next_of r1 a) (prev_of r1 a) r1)"

definition block_join :: "nat \<Rightarrow> nat ring \<Rightarrow> nat ring" where
  "block_join h r =
     (let a = next_of r h;
          r1 = set_prev (next_of r a) h r
      in set_next h (next_of r1 a) r1)"

section \<open>Setting up\<close>

definition heap_layout :: "nat \<Rightarrow> nat \<Rightarrow> u32 \<Rightarrow> rt_memheap \<Rightarrow> heap_mem \<Rightarrow> rt_memheap \<times> heap_mem" where
  "heap_layout n start sz h m =
     (let psz = sz AND NOT 3;
          av = psz - 2 * RT_MEMHEAP_SIZE;
          h1 = h\<lparr>start_addr := start, pool_size := psz, available_size := av, max_used_size := psz - av\<rparr>;
          f = free_header h1;
          m1 = new_item n f m;
          m2 = m1\<lparr>bring := set_prev f 0 (set_next f 0 (bring m1)), fring := set_prev f f (set_next f f (fring m1))\<rparr>;
          h2 = h1\<lparr>free_list := f\<rparr>;
          m3 = new_item n start m2;
          m4 = m3\<lparr>bring := set_prev start 0 (set_next start 0 (bring m3)),
                  fring := set_prev start start (set_next start start (fring m3))\<rparr>;
          e = start + unat av + unat RT_MEMHEAP_SIZE;
          m5 = m4\<lparr>bring := set_prev start e (set_next start e (bring m4))\<rparr>;
          h3 = h2\<lparr>block_list := start\<rparr>;
          m6 = m5\<lparr>fring := free_insert f start (fring m5)\<rparr>;
          m7 = (set_magic e RT_MEMHEAP_USED m6)\<lparr>pool_ptr := (pool_ptr m6)(e := n)\<rparr>;
          m8 = m7\<lparr>bring := set_prev e start (set_next e start (bring m7)), fring := free_null e (fring m7)\<rparr>
      in (h3, m8))"

section \<open>Allocating\<close>

definition heap_charge :: "u32 \<Rightarrow> rt_memheap \<Rightarrow> rt_memheap" where
  "heap_charge x h =
     (let h1 = h\<lparr>available_size := available_size h - x\<rparr>
      in if pool_size h1 - available_size h1 > max_used_size h1
         then h1\<lparr>max_used_size := pool_size h1 - available_size h1\<rparr> else h1)"

partial_function (option) heap_search :: "heap_mem \<Rightarrow> nat \<Rightarrow> u32 \<Rightarrow> nat \<Rightarrow> u32 \<Rightarrow> (nat \<times> u32) option" where
  "heap_search m f sz hp free_size =
     (if hp \<noteq> f \<and> free_size < sz then
        (let fs = MEMITEM_SIZE m hp
         in heap_search m f sz (if fs < sz then next_of (fring m) hp else hp) fs)
      else Some (hp, free_size))"

definition alloc_block :: "nat \<Rightarrow> u32 \<Rightarrow> rt_memheap \<Rightarrow> heap_mem \<Rightarrow> (nat \<times> rt_memheap \<times> heap_mem) option" where
  "alloc_block n sz h m = do {
     (hp, free_size) \<leftarrow> heap_search m (free_list h) sz (next_of (fring m) (free_list h)) 0;
     if free_size \<ge> sz then
       let (h1, m1) =
             (if free_size \<ge> sz + RT_MEMHEAP_SIZE + RT_MEMHEAP_MINIALLOC then
                let np = hp + unat sz + unat RT_MEMHEAP_SIZE;
                    m1 = new_item n np m;
                    m2 = m1\<lparr>bring := block_split hp np (bring m1)\<rparr>;
                    m3 = m2\<lparr>fring := free_insert (free_list h) np (free_null hp (free_remove hp (fring m2)))\<rparr>
                in (heap_charge (sz + RT_MEMHEAP_SIZE) h, m3)
              else (heap_charge free_size h, m\<lparr>fring := free_null hp (free_remove hp (fring m))\<rparr>))
       in Some (hp + unat RT_MEMHEAP_SIZE, h1, set_magic hp RT_MEMHEAP_USED m1)
     else Some (0, h, m)
   }"

definition heap_size :: "u32 \<Rightarrow> u32" where
  "heap_size sz = (let a = align4 sz in if a < RT_MEMHEAP_MINIALLOC then RT_MEMHEAP_MINIALLOC else a)"

section \<open>Releasing\<close>

definition free_block :: "nat \<Rightarrow> rt_memheap \<Rightarrow> heap_mem \<Rightarrow> rt_memheap \<times> heap_mem" where
  "free_block hp h m =
     (let m1 = set_magic hp RT_MEMHEAP_FREED m;
          h1 = h\<lparr>available_size := available_size h + MEMITEM_SIZE m1 hp\<rparr>;
          left = \<not> RT_MEMHEAP_IS_USED m1 (prev_of (bring m1) hp);
          p = prev_of (bring m1) hp;
          (h2, m2, a) = (if left
             then (h1\<lparr>available_size := available_size h1 + RT_MEMHEAP_SIZE\<rparr>,
                   m1\<lparr>bring := block_drop hp (bring m1)\<rparr>, p)
             else (h1, m1, hp));
          np = next_of (bring m2) a;
          (h3, m3) = (if \<not> RT_MEMHEAP_IS_USED m2 np
             then (h2\<lparr>available_size := available_size h2 + RT_MEMHEAP_SIZE\<rparr>,
                   m2\<lparr>bring := block_join a (bring m2), fring := free_remove np (fring m2)\<rparr>)
             else (h2, m2))
      in (h3, if left then m3 else m3\<lparr>fring := free_insert (free_list h3) a (fring m3)\<rparr>))"

section \<open>Changing the size of a block\<close>

text \<open>Growing into the free block behind; \<open>None\<close> when that is not possible. The address of the new item is computed in 32 bits.\<close>

definition grow_block :: "nat \<Rightarrow> nat \<Rightarrow> u32 \<Rightarrow> u32 \<Rightarrow> rt_memheap \<Rightarrow> heap_mem \<Rightarrow> (rt_memheap \<times> heap_mem) option" where
  "grow_block n hp oldsize newsize h m =
     (let np = next_of (bring m) hp
      in if \<not> RT_MEMHEAP_IS_USED m np \<and> MEMITEM_SIZE m np + oldsize > newsize + RT_MEMHEAP_MINIALLOC then
           let h1 = heap_charge (newsize - oldsize) h;
               m1 = m\<lparr>fring := free_remove np (fring m), bring := free_remove np (bring m)\<rparr>;
               q = unat (of_nat hp + RT_MEMHEAP_SIZE + newsize :: u32);
               m2 = new_item n q m1;
               m3 = m2\<lparr>bring := block_split hp q (bring m2)\<rparr>
           in Some (h1, m3\<lparr>fring := free_insert (free_list h1) q (fring m3)\<rparr>)
         else None)"

definition shrink_block :: "nat \<Rightarrow> nat \<Rightarrow> u32 \<Rightarrow> rt_memheap \<Rightarrow> heap_mem \<Rightarrow> rt_memheap \<times> heap_mem" where
  "shrink_block n hp newsize h m =
     (let q = hp + unat newsize + unat RT_MEMHEAP_SIZE;
          m1 = new_item n q m;
          m2 = m1\<lparr>bring := block_split hp q (bring m1)\<rparr>;
          a = next_of (bring m2) q;
          (h3, m3) = (if \<not> RT_MEMHEAP_IS_USED m2 a
             then (h\<lparr>available_size := available_size h - MEMITEM_SIZE m2 a\<rparr>,
                   m2\<lparr>bring := block_join q (bring m2), fring := free_remove a (fring m2)\<rparr>)
             else (h, m2));
          m4 = m3\<lparr>fring := free_insert (free_list h3) q (fring m3)\<rparr>
      in (h3\<lparr>available_size := available_size h3 + MEMITEM_SIZE m4 q\<rparr>, m4))"

end
