(* ===== verification/Memheap.thy ===== *)
theory Memheap
  imports Device Heap_Blocks Kservice
begin

text \<open>
  The operations of the memory heap (\<^verbatim>\<open>rt-thread/src/memheap.c\<close>), which is the system's heap in this configuration: each
  checks its arguments, takes the lock of the heap, works on the blocks as \<^verbatim>\<open>Heap_Blocks\<close> says, and releases the lock. The
  bytes of the blocks are a memory of their own, apart from the items. The lock of a heap is the semaphore whose number
  is \<open>lock\<close>; a call that waits for it returns \<open>Sleep\<close> with what it does when it runs again.
\<close>

section \<open>Calls that may wait\<close>

datatype ('s, 'v) run = Done 'v 's | Sleep 's "'s \<Rightarrow> ('s, 'v) run option"

primrec rbind :: "('s, 'v) run \<Rightarrow> ('v \<Rightarrow> 's \<Rightarrow> ('s, 'w) run option) \<Rightarrow> ('s, 'w) run option" where
  "rbind (Done v s) f = f v s"
| "rbind (Sleep s k) f =
     Some (Sleep s (\<lambda>s'. case (map_option (\<lambda>r. rbind r f) \<circ> k) s' of None \<Rightarrow> None | Some r \<Rightarrow> r))"

section \<open>The state\<close>

record heap_state = dev_state +
  heaps :: "nat \<Rightarrow> rt_memheap"
  hmem :: heap_mem
  hbytes :: mem

section \<open>Setting up\<close>

definition rt_memheap_init ::
  "nat \<Rightarrow> string \<Rightarrow> nat \<Rightarrow> u32 \<Rightarrow> 'a heap_state_scheme \<Rightarrow> (rt_err_t \<times> 'a heap_state_scheme) option" where
  "rt_memheap_init n name start sz s = do {
     s1 \<leftarrow> rt_object_init (Kobj n) RT_Object_Class_MemHeap name s;
     let (h, m) = heap_layout n start sz (heaps s1 n) (hmem s1);
     let s2 = s1\<lparr>heaps := (heaps s1)(n := h), hmem := m\<rparr>;
     (_, s3) \<leftarrow> rt_sem_init (lock h) name 1 RT_IPC_FLAG_PRIO s2;
     Some (RT_EOK, s3)
   }"

definition rt_memheap_detach :: "nat \<Rightarrow> 'a heap_state_scheme \<Rightarrow> (rt_err_t \<times> 'a heap_state_scheme) option" where
  "rt_memheap_detach n s = do {
     _ \<leftarrow> RT_ASSERT (rt_object_get_type (Kobj n) s = RT_Object_Class_MemHeap);
     _ \<leftarrow> RT_ASSERT (rt_object_is_systemobject (Kobj n) s);
     (_, s1) \<leftarrow> rt_sem_detach (lock (heaps s n)) s;
     Some (RT_EOK, rt_object_detach (Kobj n) s1)
   }"

section \<open>Allocating\<close>

text \<open>Waiting for the lock; the value is the error of the semaphore.\<close>

definition heap_lock :: "nat \<Rightarrow> 'a heap_state_scheme \<Rightarrow> ('a heap_state_scheme, rt_err_t) run option" where
  "heap_lock n s = do {
     (r, s1) \<leftarrow> rt_sem_take (lock (heaps s n)) RT_WAITING_FOREVER s;
     case r of Return err _ \<Rightarrow> Some (Done err s1)
     | Wait _ \<Rightarrow> do { t \<leftarrow> current_thread s; Some (Sleep s1 (\<lambda>s'. Some (Done (sem_take_resumed t s') s'))) }
   }"

definition heap_unlock :: "nat \<Rightarrow> 'a heap_state_scheme \<Rightarrow> 'a heap_state_scheme option" where
  "heap_unlock n s = map_option snd (rt_sem_release (lock (heaps s n)) s)"

definition put_heap :: "nat \<Rightarrow> rt_memheap \<times> heap_mem \<Rightarrow> 'a heap_state_scheme \<Rightarrow> 'a heap_state_scheme" where
  "put_heap n hm s = s\<lparr>heaps := (heaps s)(n := fst hm), hmem := snd hm\<rparr>"

definition rt_memheap_alloc :: "nat \<Rightarrow> u32 \<Rightarrow> 'a heap_state_scheme \<Rightarrow> ('a heap_state_scheme, nat) run option" where
  "rt_memheap_alloc n sz s = do {
     _ \<leftarrow> RT_ASSERT (rt_object_get_type (Kobj n) s = RT_Object_Class_MemHeap);
     if heap_size sz < available_size (heaps s n) then do {
       r \<leftarrow> heap_lock n s;
       rbind r (\<lambda>err s1.
         if err \<noteq> RT_EOK then Some (Done 0 (rt_set_errno err s1))
         else do {
           (p, hm) \<leftarrow> alloc_block n (heap_size sz) (heaps s1 n) (hmem s1);
           s2 \<leftarrow> heap_unlock n (put_heap n hm s1);
           Some (Done p s2)
         })
     } else Some (Done 0 s)
   }"

section \<open>Releasing\<close>

definition rt_memheap_free :: "nat \<Rightarrow> 'a heap_state_scheme \<Rightarrow> ('a heap_state_scheme, unit) run option" where
  "rt_memheap_free ptr s =
     (if ptr = 0 then Some (Done () s)
      else do {
        let hp = ptr - unat RT_MEMHEAP_SIZE;
        _ \<leftarrow> RT_ASSERT (magic (hmem s) hp = RT_MEMHEAP_MAGIC OR RT_MEMHEAP_USED);
        _ \<leftarrow> RT_ASSERT (magic (hmem s) (next_of (bring (hmem s)) hp) AND RT_MEMHEAP_MASK = RT_MEMHEAP_MAGIC);
        let n = pool_ptr (hmem s) hp;
        _ \<leftarrow> RT_ASSERT (rt_object_get_type (Kobj n) s = RT_Object_Class_MemHeap);
        r \<leftarrow> heap_lock n s;
        rbind r (\<lambda>err s1.
          if err \<noteq> RT_EOK then Some (Done () (rt_set_errno err s1))
          else do {
            s2 \<leftarrow> heap_unlock n (put_heap n (free_block hp (heaps s1 n) (hmem s1)) s1);
            Some (Done () s2)
          })
      })"

section \<open>Changing the size of a block\<close>

text \<open>A new block, the bytes copied, the old block released.\<close>

definition heap_move ::
  "nat \<Rightarrow> nat \<Rightarrow> nat \<Rightarrow> ('a heap_state_scheme \<Rightarrow> ('a heap_state_scheme, nat) run option) \<Rightarrow> 'a heap_state_scheme \<Rightarrow>
   ('a heap_state_scheme, nat) run option" where
  "heap_move n ptr len alloc s = do {
     r \<leftarrow> alloc s;
     rbind r (\<lambda>p s1.
       if p = 0 then Some (Done 0 s1)
       else do {
         b \<leftarrow> rt_memcpy p ptr len (hbytes s1);
         r2 \<leftarrow> rt_memheap_free ptr (s1\<lparr>hbytes := b\<rparr>);
         rbind r2 (\<lambda>_ s2. Some (Done p s2))
       })
   }"

definition rt_memheap_realloc ::
  "nat \<Rightarrow> nat \<Rightarrow> u32 \<Rightarrow> 'a heap_state_scheme \<Rightarrow> ('a heap_state_scheme, nat) run option" where
  "rt_memheap_realloc n ptr size0 s = do {
     _ \<leftarrow> RT_ASSERT (rt_object_get_type (Kobj n) s = RT_Object_Class_MemHeap);
     if size0 = 0 then do { r \<leftarrow> rt_memheap_free ptr s; rbind r (\<lambda>_ s1. Some (Done 0 s1)) }
     else if ptr = 0 then rt_memheap_alloc n (heap_size size0) s
     else do {
       let newsize = heap_size size0;
       let hp = ptr - unat RT_MEMHEAP_SIZE;
       let oldsize = MEMITEM_SIZE (hmem s) hp;
       if newsize > oldsize then do {
         r \<leftarrow> heap_lock n s;
         rbind r (\<lambda>err s1.
           if err \<noteq> RT_EOK then Some (Done 0 (rt_set_errno err s1))
           else do {
             _ \<leftarrow> RT_ASSERT (next_of (bring (hmem s1)) hp > hp);
             case grow_block n hp oldsize newsize (heaps s1 n) (hmem s1) of
               Some hm \<Rightarrow> do { s2 \<leftarrow> heap_unlock n (put_heap n hm s1); Some (Done ptr s2) }
             | None \<Rightarrow> do {
                 s2 \<leftarrow> heap_unlock n s1;
                 heap_move n ptr (unat (if oldsize < newsize then oldsize else newsize)) (rt_memheap_alloc n newsize) s2 }
           })
       }
       else if newsize + RT_MEMHEAP_SIZE + RT_MEMHEAP_MINIALLOC \<ge> oldsize then Some (Done ptr s)
       else do {
         r \<leftarrow> heap_lock n s;
         rbind r (\<lambda>err s1.
           if err \<noteq> RT_EOK then Some (Done 0 (rt_set_errno err s1))
           else do {
             s2 \<leftarrow> heap_unlock n (put_heap n (shrink_block n hp newsize (heaps s1 n) (hmem s1)) s1);
             Some (Done ptr s2)
           })
       }
     }
   }"

section \<open>The heap of the system\<close>

text \<open>\<open>sys\<close> is the number of the static heap \<^verbatim>\<open>_heap\<close>.\<close>

definition rt_system_heap_init ::
  "nat \<Rightarrow> u32 \<Rightarrow> u32 \<Rightarrow> 'a heap_state_scheme \<Rightarrow> 'a heap_state_scheme option" where
  "rt_system_heap_init sys begin_addr end_addr s = do {
     _ \<leftarrow> RT_ASSERT (end_addr > begin_addr);
     (_, s1) \<leftarrow> rt_memheap_init sys ''heap'' (unat begin_addr) (end_addr - begin_addr) s;
     Some s1
   }"

text \<open>The loop over the other heaps, in the order of their container. Heaps are only added while the system starts.\<close>

fun malloc_others :: "nat \<Rightarrow> u32 \<Rightarrow> objref list \<Rightarrow> 'a heap_state_scheme \<Rightarrow> ('a heap_state_scheme, nat) run option" where
  "malloc_others sys sz [] s = Some (Done 0 s)"
| "malloc_others sys sz (ob # obs) s = do {
     _ \<leftarrow> RT_ASSERT (rt_object_get_type ob s = RT_Object_Class_MemHeap);
     case ob of Thread_timer _ \<Rightarrow> None
     | Kobj k \<Rightarrow>
         if k = sys then malloc_others sys sz obs s
         else do {
           r \<leftarrow> rt_memheap_alloc k sz s;
           rbind r (\<lambda>p s1. if p \<noteq> 0 then Some (Done p s1) else malloc_others sys sz obs s1)
         }
   }"

definition rt_malloc :: "nat \<Rightarrow> u32 \<Rightarrow> 'a heap_state_scheme \<Rightarrow> ('a heap_state_scheme, nat) run option" where
  "rt_malloc sys sz s = do {
     r \<leftarrow> rt_memheap_alloc sys sz s;
     rbind r (\<lambda>p s1.
       if p \<noteq> 0 then Some (Done p s1)
       else malloc_others sys sz (containers s1 RT_Object_Class_MemHeap) s1)
   }"

definition rt_free :: "nat \<Rightarrow> 'a heap_state_scheme \<Rightarrow> ('a heap_state_scheme, unit) run option" where
  "rt_free rmem s = rt_memheap_free rmem s"

definition rt_realloc ::
  "nat \<Rightarrow> nat \<Rightarrow> u32 \<Rightarrow> 'a heap_state_scheme \<Rightarrow> ('a heap_state_scheme, nat) run option" where
  "rt_realloc sys rmem newsize s =
     (if rmem = 0 then rt_malloc sys newsize s
      else if newsize = 0 then do { r \<leftarrow> rt_free rmem s; rbind r (\<lambda>_ s1. Some (Done 0 s1)) }
      else do {
        let hp = rmem - unat RT_MEMHEAP_SIZE;
        r \<leftarrow> rt_memheap_realloc (pool_ptr (hmem s) hp) rmem newsize s;
        rbind r (\<lambda>p s1.
          if p = 0 then do {
            r2 \<leftarrow> rt_malloc sys newsize s1;
            rbind r2 (\<lambda>q s2.
              if q = 0 then Some (Done 0 s2)
              else do {
                let oldsize = MEMITEM_SIZE (hmem s2) hp;
                b \<leftarrow> rt_memcpy q rmem (unat (if newsize > oldsize then oldsize else newsize)) (hbytes s2);
                r3 \<leftarrow> rt_free rmem (s2\<lparr>hbytes := b\<rparr>);
                rbind r3 (\<lambda>_ s3. Some (Done q s3))
              })
          } else Some (Done p s1))
      })"

definition rt_calloc :: "nat \<Rightarrow> u32 \<Rightarrow> u32 \<Rightarrow> 'a heap_state_scheme \<Rightarrow> ('a heap_state_scheme, nat) run option" where
  "rt_calloc sys count sz s = do {
     let total_size = count * sz;
     r \<leftarrow> rt_malloc sys total_size s;
     rbind r (\<lambda>p s1.
       if p \<noteq> 0 then do {
         b \<leftarrow> rt_memset p 0 (unat total_size) (hbytes s1);
         Some (Done p (s1\<lparr>hbytes := b\<rparr>))
       } else Some (Done 0 s1))
   }"

definition rt_memory_info :: "nat \<Rightarrow> 'a heap_state_scheme \<Rightarrow> u32 \<times> u32 \<times> u32" where
  "rt_memory_info sys s =
     (let h = heaps s sys in (pool_size h, pool_size h - available_size h, max_used_size h))"

end
