(* ===== verification/Heap_Inv.thy ===== *)
theory Heap_Inv
  imports Heap_Blocks
begin

text \<open>
  The invariant of a memory heap and what the block operations do to it. A heap is described by two lists: \<open>bs\<close>, the
  addresses of its blocks in the order of the area, and \<open>fl\<close>, those of its free blocks in the order of the free ring.
  \<open>memheap_ok n bs fl h m\<close> says that the rings of the store are these lists, that the blocks tile the area of the heap
  without overlapping, that the magic words tell used from free, that no two neighbours are both free, and that the
  counter of available bytes is the sum of the free blocks. Each block operation is then an operation on the two lists.
\<close>

lemma unat_u32_of_nat: "k < 2 ^ 32 \<Longrightarrow> unat (of_nat k :: u32) = k"
  by (simp add: unsigned_of_nat take_bit_nat_eq_self)

section \<open>The rings\<close>

lemma block_split_link: "a \<noteq> np \<Longrightarrow> next_of r a \<noteq> np \<Longrightarrow> block_split a np r = link a np (next_of r a) r"
  by (simp add: block_split_def link_def Let_def set_next_def set_prev_def fun_upd_twist)

lemma free_insert_link: "f \<noteq> a \<Longrightarrow> next_of r f \<noteq> a \<Longrightarrow> free_insert f a r = link f a (next_of r f) r"
  by (simp add: free_insert_def link_def Let_def set_next_def set_prev_def fun_upd_twist)

lemma ring_drop_sel [simp]:
  "next_of (block_drop a r) = (next_of r)(prev_of r a := next_of r a)"
  "prev_of (block_drop a r) = (prev_of r)(next_of r a := prev_of r a)"
  "next_of (free_remove a r) = (next_of r)(prev_of r a := next_of r a)"
  "prev_of (free_remove a r) = (prev_of r)(next_of r a := prev_of r a)"
  "next_of (block_join c r) = (next_of r)(c := next_of r (next_of r c))"
  "prev_of (block_join c r) = (prev_of r)(next_of r (next_of r c) := c)"
  by (auto simp: block_drop_def free_remove_def block_join_def Let_def)

text \<open>Every way of the code to take an item out of a ring.\<close>

lemma chain_taken_out:
  assumes "chain r e (us @ x # vs) e" "distinct (e # us @ x # vs)"
  shows "chain (block_drop x r) e (us @ vs) e" "chain (free_remove x r) e (us @ vs) e"
    "chain (block_join (last (e # us)) r) e (us @ vs) e"
proof -
  note ln = chain_links [OF assms(1)]
  show "chain (block_drop x r) e (us @ vs) e"
    by (rule chain_drop [OF assms]) (simp_all only: ring_drop_sel ln)
  show "chain (free_remove x r) e (us @ vs) e"
    by (rule chain_drop [OF assms]) (simp_all only: ring_drop_sel ln)
  show "chain (block_join (last (e # us)) r) e (us @ vs) e"
    by (rule chain_drop [OF assms]) (simp_all only: ring_drop_sel ln)
qed

lemma chain_free_remove:
  assumes "chain r f fl f" "distinct (f # fl)" "x \<in> set fl"
  shows "chain (free_remove x r) f (remove1 x fl) f"
proof -
  obtain us vs where fl: "fl = us @ x # vs" using assms(3) by (meson split_list)
  then have "x \<notin> set us" using assms(2) by simp
  then have "remove1 x fl = us @ vs" using fl by (simp add: remove1_append)
  then show ?thesis using chain_taken_out(2) [of r f us x vs] assms fl by simp
qed

lemma chain_free_insert:
  assumes "chain r f fl f" "distinct (f # fl)" "a \<notin> set (f # fl)"
  shows "chain (free_insert f a r) f (a # fl) f"
proof -
  have nf: "next_of r f = hd (fl @ [f])" using chain_hd [OF assms(1)] .
  then have "next_of r f \<noteq> a" using assms(3) by (cases fl) auto
  then have "free_insert f a r = link f a (hd (fl @ [f])) r"
    using assms(3) nf free_insert_link [of f a r] by auto
  then show ?thesis using chain_link [of r f "[]" fl a] assms by simp
qed

lemma chain_free_null:
  assumes "chain r f fl f" "a \<notin> set (f # fl)"
  shows "chain (free_null a r) f fl f"
proof -
  have "chain (free_null a r) f fl f = chain r f fl f"
    by (rule chain_cong) (use assms(2) in \<open>auto simp: free_null_def\<close>)
  then show ?thesis using assms(1) by simp
qed

lemma chain_block_split:
  assumes "chain r e (xs @ a # ys) e" "distinct (e # xs @ a # ys)" "np \<notin> set (e # xs @ a # ys)"
  shows "chain (block_split a np r) e (xs @ a # np # ys) e"
    "next_of (block_split a np r) = (next_of r)(a := np, np := next_of r a)"
proof -
  have nx: "next_of r a = hd (ys @ [e])" using chain_links(1) [OF assms(1)] .
  then have "next_of r a \<noteq> np" using assms(3) by (cases ys) auto
  then have eq: "block_split a np r = link a np (next_of r a) r"
    using assms(3) block_split_link [of a np r] by auto
  then show "next_of (block_split a np r) = (next_of r)(a := np, np := next_of r a)"
    by (simp add: link_def)
  show "chain (block_split a np r) e (xs @ a # np # ys) e"
    using chain_link [of r e "xs @ [a]" ys np] assms eq nx by simp
qed

section \<open>The invariant\<close>

definition heap_end :: "rt_memheap \<Rightarrow> nat" where
  "heap_end h = start_addr h + unat (pool_size h) - 24"

definition heap_area :: "rt_memheap \<Rightarrow> bool" where
  "heap_area h \<longleftrightarrow> 0 < start_addr h \<and> 24 \<le> unat (pool_size h) \<and> start_addr h + unat (pool_size h) \<le> 2 ^ 32 \<and>
     \<not> (start_addr h \<le> free_list h \<and> free_list h \<le> heap_end h)"

definition payload :: "nat ring \<Rightarrow> nat \<Rightarrow> nat" where
  "payload r a = next_of r a - a - 24"

abbreviation spaced :: "nat list \<Rightarrow> bool" where
  "spaced \<equiv> sorted_wrt (\<lambda>a b. a + 36 \<le> b)"

definition blocks_ok :: "nat \<Rightarrow> nat \<Rightarrow> nat list \<Rightarrow> nat ring \<Rightarrow> bool" where
  "blocks_ok st e bs r \<longleftrightarrow> chain r e bs e \<and> spaced (bs @ [e]) \<and> bs \<noteq> [] \<and> hd bs = st"

definition tags_ok :: "nat \<Rightarrow> nat \<Rightarrow> nat list \<Rightarrow> nat set \<Rightarrow> heap_mem \<Rightarrow> bool" where
  "tags_ok n e bs F m \<longleftrightarrow>
     (\<forall>a\<in>set bs. magic m a = RT_MEMHEAP_MAGIC OR (if a \<in> F then RT_MEMHEAP_FREED else RT_MEMHEAP_USED) \<and> pool_ptr m a = n) \<and>
     magic m e = RT_MEMHEAP_MAGIC OR RT_MEMHEAP_USED \<and> pool_ptr m e = n"

definition frees_ok :: "nat \<Rightarrow> nat list \<Rightarrow> nat list \<Rightarrow> nat ring \<Rightarrow> bool" where
  "frees_ok f bs fl r \<longleftrightarrow> chain r f fl f \<and> distinct (f # fl) \<and> set fl \<subseteq> set bs"

abbreviation coalesced :: "nat set \<Rightarrow> nat list \<Rightarrow> bool" where
  "coalesced F \<equiv> successively (\<lambda>x y. x \<notin> F \<or> y \<notin> F)"

definition free_sum :: "nat ring \<Rightarrow> nat set \<Rightarrow> nat" where
  "free_sum r F = (\<Sum>a\<in>F. payload r a)"

text \<open>The most that was ever in use is at least what is in use now.\<close>

definition watermark :: "rt_memheap \<Rightarrow> bool" where
  "watermark h \<longleftrightarrow>
     unat (pool_size h) \<le> unat (available_size h) + unat (max_used_size h) \<and> max_used_size h \<le> pool_size h"

definition memheap_ok :: "nat \<Rightarrow> nat list \<Rightarrow> nat list \<Rightarrow> rt_memheap \<Rightarrow> heap_mem \<Rightarrow> bool" where
  "memheap_ok n bs fl h m \<longleftrightarrow>
     heap_area h \<and> blocks_ok (start_addr h) (heap_end h) bs (bring m) \<and> tags_ok n (heap_end h) bs (set fl) m \<and>
     frees_ok (free_list h) bs fl (fring m) \<and> coalesced (set fl) bs \<and>
     unat (available_size h) = free_sum (bring m) (set fl) \<and> watermark h \<and> (\<forall>a\<in>set bs. 4 dvd a)"

lemma memheap_okE:
  assumes "memheap_ok n bs fl h m"
  obtains "heap_area h" "blocks_ok (start_addr h) (heap_end h) bs (bring m)" "tags_ok n (heap_end h) bs (set fl) m"
    "frees_ok (free_list h) bs fl (fring m)" "coalesced (set fl) bs"
    "unat (available_size h) = free_sum (bring m) (set fl)" "watermark h" "\<forall>a\<in>set bs. 4 dvd a"
  using assms by (simp add: memheap_ok_def)

lemmas magic_defs = RT_MEMHEAP_MAGIC_def RT_MEMHEAP_MASK_def RT_MEMHEAP_USED_def RT_MEMHEAP_FREED_def

lemma tags_used:
  assumes "tags_ok n e bs F m"
  shows "a \<in> set bs \<Longrightarrow> RT_MEMHEAP_IS_USED m a \<longleftrightarrow> a \<notin> F" "RT_MEMHEAP_IS_USED m e"
  using assms by (auto simp: tags_ok_def RT_MEMHEAP_IS_USED_def magic_defs)

section \<open>Geometry\<close>

lemma spaced_distinct: "spaced xs \<Longrightarrow> distinct xs"
  by (induction xs) auto

lemma blocks_distinct: "blocks_ok st e bs r \<Longrightarrow> distinct (e # bs)"
  using spaced_distinct [of "bs @ [e]"] by (auto simp: blocks_ok_def)

lemma blocks_range:
  assumes "blocks_ok st e bs r" "a \<in> set bs"
  shows "st \<le> a" "a + 36 \<le> e"
proof -
  show "a + 36 \<le> e" using assms by (simp add: blocks_ok_def sorted_wrt_append)
  show "st \<le> a" using assms by (cases bs) (auto simp: blocks_ok_def)
qed

lemma block_next:
  assumes "blocks_ok st e (xs @ a # ys) r"
  shows "next_of r a = hd (ys @ [e])" "a + 36 \<le> hd (ys @ [e])" "hd (ys @ [e]) \<le> e"
proof -
  show "next_of r a = hd (ys @ [e])" using assms chain_links(1) [of r e xs a ys] by (simp add: blocks_ok_def)
  show "a + 36 \<le> hd (ys @ [e])" using assms by (cases ys) (auto simp: blocks_ok_def sorted_wrt_append)
  show "hd (ys @ [e]) \<le> e" using blocks_range(2) [OF assms] by (cases ys) force+
qed

lemma block_next_range:
  assumes "blocks_ok st e bs r" "a \<in> set bs"
  shows "a + 36 \<le> next_of r a" "next_of r a \<le> e"
proof -
  obtain xs ys where "bs = xs @ a # ys" using assms(2) by (meson split_list)
  then show "a + 36 \<le> next_of r a" "next_of r a \<le> e" using block_next [of st e xs a ys r] assms(1) by simp_all
qed

lemma heap_area_end: "heap_area h \<Longrightarrow> heap_end h + 24 = start_addr h + unat (pool_size h) \<and> heap_end h + 24 \<le> 2 ^ 32"
  by (simp add: heap_area_def heap_end_def)

text \<open>The size the code computes is the distance to the next item.\<close>

lemma memitem_size:
  assumes "blocks_ok st e bs (bring m)" "a \<in> set bs" "e + 24 \<le> 2 ^ 32"
  shows "unat (MEMITEM_SIZE m a) = payload (bring m) a"
proof -
  define q where "q = next_of (bring m) a"
  have q: "a + 36 \<le> q" "q \<le> e" using block_next_range [OF assms(1,2)] by (simp_all add: q_def)
  then have "MEMITEM_SIZE m a = of_nat (q - a - 24)"
    by (simp add: MEMITEM_SIZE_def q_def [symmetric] RT_MEMHEAP_SIZE_def)
  moreover have "q - a - 24 < 2 ^ 32" using q assms(3) by linarith
  ultimately show ?thesis by (simp add: payload_def q_def [symmetric] unsigned_of_nat take_bit_nat_eq_self)
qed

lemma memitem_word:
  assumes "blocks_ok st e bs (bring m)" "a \<in> set bs" "e + 24 \<le> 2 ^ 32"
  shows "MEMITEM_SIZE m a = of_nat (payload (bring m) a)"
  using arg_cong [OF memitem_size [OF assms], of "of_nat :: nat \<Rightarrow> u32"] by simp

lemma free_sum_split:
  assumes "finite F" "a \<in> F"
  shows "free_sum r F = payload r a + free_sum r (F - {a})"
  using assms by (simp add: free_sum_def sum.remove)

lemma free_sum_cong: "(\<And>a. a \<in> F \<Longrightarrow> next_of r' a = next_of r a) \<Longrightarrow> free_sum r' F = free_sum r F"
  by (simp add: free_sum_def payload_def)

text \<open>Two free neighbours joined: the item between them is gained.\<close>

lemma free_sum_join:
  assumes "finite F" "c \<in> F" "x \<in> F" "next_of r c = x" "c + 24 \<le> x" "x + 24 \<le> next_of r x"
    "next_of r' = (next_of r)(c := next_of r x)"
  shows "free_sum r' (F - {x}) = free_sum r F + 24"
proof -
  have ne: "c \<noteq> x" using assms(5) by simp
  have "free_sum r' (F - {x}) = payload r' c + free_sum r' (F - {x} - {c})"
    using free_sum_split [of "F - {x}" c r'] assms ne by simp
  moreover have "free_sum r F = payload r x + (payload r c + free_sum r (F - {x} - {c}))"
    using free_sum_split [of F x r] free_sum_split [of "F - {x}" c r] assms ne by simp
  moreover have "free_sum r' (F - {x} - {c}) = free_sum r (F - {x} - {c})"
    by (rule free_sum_cong) (use assms(7) in simp)
  moreover have "payload r' c = payload r c + payload r x + 24"
    using assms(4-7) by (simp add: payload_def)
  ultimately show ?thesis by simp
qed

text \<open>The blocks tile the area.\<close>

lemma blocks_tile:
  assumes "chain r b bs e" "spaced (bs @ [e])" "bs \<noteq> []"
  shows "(\<Sum>a\<leftarrow>bs. next_of r a - a) = e - hd bs \<and> hd bs \<le> e"
  using assms
proof (induction bs arbitrary: b)
  case (Cons a bs)
  show ?case
  proof (cases bs)
    case Nil
    then show ?thesis using Cons.prems by simp
  next
    case (Cons c cs)
    then have "a + 36 \<le> c" "next_of r a = c" using Cons.prems by auto
    then show ?thesis using Cons.IH [of a] Cons.prems Cons by simp
  qed
qed simp

lemma free_sum_bound:
  assumes "blocks_ok st e bs r" "F \<subseteq> set bs"
  shows "free_sum r F \<le> e - st"
proof -
  have "free_sum r F \<le> (\<Sum>a\<in>F. next_of r a - a)"
    unfolding free_sum_def by (rule sum_mono) (simp add: payload_def)
  also have "\<dots> \<le> (\<Sum>a\<in>set bs. next_of r a - a)" by (rule sum_mono2) (use assms(2) in auto)
  also have "\<dots> = (\<Sum>a\<leftarrow>bs. next_of r a - a)"
    using blocks_distinct [OF assms(1)] by (simp add: sum.distinct_set_conv_list)
  also have "\<dots> = e - st" using assms(1) blocks_tile [of r e bs e] by (simp add: blocks_ok_def)
  finally show ?thesis .
qed

lemma memheap_ok_bounds:
  assumes "memheap_ok n bs fl h m"
  shows "available_size h \<le> pool_size h"
    "blocks_ok (start_addr h) (heap_end h) bs' r \<Longrightarrow> F \<subseteq> set bs' \<Longrightarrow> free_sum r F + 24 \<le> unat (pool_size h)"
proof -
  have ar: "heap_area h" and bl: "blocks_ok (start_addr h) (heap_end h) bs (bring m)"
    and av: "unat (available_size h) = free_sum (bring m) (set fl)" and fr: "set fl \<subseteq> set bs"
    using assms by (auto simp: memheap_ok_def frees_ok_def)
  show bd: "free_sum r F + 24 \<le> unat (pool_size h)"
    if "blocks_ok (start_addr h) (heap_end h) bs' r" "F \<subseteq> set bs'" for bs' r F
    using free_sum_bound [OF that] ar unfolding heap_area_def heap_end_def by linarith
  show "available_size h \<le> pool_size h"
    using bd [OF bl fr] av unfolding word_le_nat_alt by linarith
qed

lemma memheap_ok_distinct:
  assumes "memheap_ok n bs fl h m"
  shows "distinct bs" "distinct fl"
  using assms blocks_distinct [of "start_addr h" "heap_end h" bs "bring m"] by (simp_all add: memheap_ok_def frees_ok_def)

lemma memheap_ok_free_in: "memheap_ok n bs fl h m \<Longrightarrow> set fl \<subseteq> set bs"
  by (simp add: memheap_ok_def frees_ok_def)

section \<open>Neighbours\<close>

lemma coalesced_subset: "coalesced F xs \<Longrightarrow> (\<And>x. x \<in> set xs \<Longrightarrow> x \<in> F' \<Longrightarrow> x \<in> F) \<Longrightarrow> coalesced F' xs"
  by (induction xs rule: induct_list012) auto

lemma coalesced_split:
  assumes "coalesced F (xs @ a # ys)" "a \<in> F" "np \<notin> set (xs @ a # ys)"
  shows "coalesced (insert np (F - {a})) (xs @ a # np # ys)"
proof -
  let ?F = "insert np (F - {a})"
  have p: "coalesced F xs" "coalesced F ys" "ys \<noteq> [] \<longrightarrow> hd ys \<notin> F"
    using assms(1,2) by (auto simp: successively_append_iff successively_Cons)
  have "coalesced ?F xs" by (rule coalesced_subset [OF p(1)]) (use assms(3) in auto)
  moreover have "coalesced ?F ys" by (rule coalesced_subset [OF p(2)]) (use assms(3) in auto)
  moreover have "ys \<noteq> [] \<longrightarrow> hd ys \<notin> ?F" using p(3) assms(3) by (cases ys) auto
  ultimately show ?thesis using assms(3) by (auto simp: successively_append_iff successively_Cons)
qed

text \<open>The lists after a block is released.\<close>

definition freed_blocks :: "nat \<Rightarrow> nat list \<Rightarrow> nat list \<Rightarrow> nat set \<Rightarrow> nat list" where
  "freed_blocks a xs ys F =
     (if xs \<noteq> [] \<and> last xs \<in> F then xs else xs @ [a]) @ (if ys \<noteq> [] \<and> hd ys \<in> F then tl ys else ys)"

lemma freed_blocks_subset: "set (freed_blocks a xs ys F) \<subseteq> set (xs @ a # ys)"
  by (cases ys) (auto simp: freed_blocks_def)

definition freed_list :: "nat \<Rightarrow> nat list \<Rightarrow> nat list \<Rightarrow> nat list \<Rightarrow> nat list" where
  "freed_list a xs ys fl =
     (let g = (if ys \<noteq> [] \<and> hd ys \<in> set fl then remove1 (hd ys) fl else fl)
      in if xs \<noteq> [] \<and> last xs \<in> set fl then g else a # g)"

lemma freed_list_set:
  assumes "distinct fl"
  shows "set (freed_list a xs ys fl) =
    (if xs \<noteq> [] \<and> last xs \<in> set fl then {} else {a}) \<union> (set fl - (if ys \<noteq> [] \<and> hd ys \<in> set fl then {hd ys} else {}))"
  using assms by (auto simp: freed_list_def Let_def)

lemma freed_coalesced:
  assumes "coalesced (set fl) (xs @ a # ys)" "a \<notin> set fl" "distinct (xs @ a # ys)" "distinct fl"
  shows "coalesced (set (freed_list a xs ys fl)) (freed_blocks a xs ys (set fl))"
proof -
  let ?F = "set (freed_list a xs ys fl)"
  define yt where "yt = (if ys \<noteq> [] \<and> hd ys \<in> set fl then tl ys else ys)"
  have ys: "set yt \<subseteq> set ys" by (auto simp: yt_def intro: list.set_sel)
  have F: "?F \<subseteq> insert a (set fl)" "xs \<noteq> [] \<and> last xs \<in> set fl \<Longrightarrow> ?F \<subseteq> set fl"
    using freed_list_set [OF assms(4), of a xs ys] by auto
  have p: "coalesced (set fl) xs" "coalesced (set fl) ys"
    using assms(1) by (auto simp: successively_append_iff successively_Cons)
  have pt: "coalesced (set fl) yt" "yt \<noteq> [] \<longrightarrow> hd yt \<notin> set fl"
    using p(2) by (auto simp: yt_def neq_Nil_conv successively_Cons)
  have "coalesced ?F xs" by (rule coalesced_subset [OF p(1)]) (use F(1) assms(3) in auto)
  moreover have "coalesced ?F yt" by (rule coalesced_subset [OF pt(1)]) (use F(1) assms(3) ys in auto)
  moreover have "yt \<noteq> [] \<longrightarrow> hd yt \<notin> ?F" using pt(2) F(1) ys assms(3) by (auto dest: hd_in_set)
  moreover have "xs \<noteq> [] \<and> last xs \<notin> set fl \<longrightarrow> last xs \<notin> ?F" using F(1) assms(3) by (auto dest: last_in_set)
  ultimately show ?thesis
    unfolding freed_blocks_def yt_def [symmetric] by (auto simp: successively_append_iff successively_Cons)
qed

end
