(* ===== verification/Heap_Ops.thy ===== *)
theory Heap_Ops
  imports Heap_Inv
begin

text \<open>
  The block operations of a memory heap keep its invariant, and what each does to the list of blocks and to the list of
  free blocks: the search finds the first free block that is large enough, allocation takes it or splits it, release
  joins it with free neighbours, resizing moves the border to the free block behind.
\<close>

lemma word_diff_unat:
  fixes x y :: "'a::len word"
  assumes "unat x = unat y + k"
  shows "x - y = of_nat k"
proof -
  have "of_nat (unat x) = (of_nat (unat y + k) :: 'a word)" using assms by simp
  then show ?thesis by simp
qed

lemma item_size [simp]:
  "unat RT_MEMHEAP_SIZE = 24" "x + RT_MEMHEAP_SIZE + RT_MEMHEAP_MINIALLOC = x + 36"
  by (simp_all add: RT_MEMHEAP_SIZE_def RT_MEMHEAP_MINIALLOC_def)

section \<open>What stays of a heap\<close>

definition same_heap :: "rt_memheap \<Rightarrow> rt_memheap \<Rightarrow> bool" where
  "same_heap h h' \<longleftrightarrow> start_addr h' = start_addr h \<and> pool_size h' = pool_size h \<and> block_list h' = block_list h \<and>
     free_list h' = free_list h \<and> free_header h' = free_header h \<and> lock h' = lock h"

lemma same_heap_area:
  assumes "same_heap h h'"
  shows "heap_end h' = heap_end h" "heap_area h' = heap_area h" "start_addr h' = start_addr h"
    "free_list h' = free_list h" "pool_size h' = pool_size h" "lock h' = lock h"
  using assms by (auto simp: same_heap_def heap_end_def heap_area_def)

lemma same_heap_simps [simp]:
  "same_heap h h" "same_heap h (h\<lparr>available_size := v\<rparr>)" "same_heap h (heap_charge x h)"
  by (simp_all add: same_heap_def heap_charge_def Let_def)

text \<open>A heap after an operation; the counter is given as a word.\<close>

lemma memheap_ok_update:
  assumes "memheap_ok n bs fl h m" "same_heap h h'"
    "blocks_ok (start_addr h) (heap_end h) bs' (bring m')" "tags_ok n (heap_end h) bs' (set fl') m'"
    "frees_ok (free_list h) bs' fl' (fring m')" "coalesced (set fl') bs'"
    "available_size h' = of_nat (free_sum (bring m') (set fl'))" "watermark h'" "\<forall>a\<in>set bs'. 4 dvd a"
  shows "memheap_ok n bs' fl' h' m'"
proof -
  have "set fl' \<subseteq> set bs'" using assms(5) by (simp add: frees_ok_def)
  then have "free_sum (bring m') (set fl') + 24 \<le> unat (pool_size h)"
    by (rule memheap_ok_bounds(2) [OF assms(1,3)])
  then have "free_sum (bring m') (set fl') < 2 ^ 32" using unsigned_less [of "pool_size h", where ?'a = nat] by simp
  then have "unat (available_size h') = free_sum (bring m') (set fl')"
    using assms(7) by (simp add: unsigned_of_nat take_bit_nat_eq_self)
  moreover have "heap_area h" using assms(1) by (simp add: memheap_ok_def)
  ultimately show ?thesis using assms(3-6,8,9) by (simp add: memheap_ok_def same_heap_area [OF assms(2)])
qed

lemma watermark_more:
  "watermark h \<Longrightarrow> same_heap h h' \<Longrightarrow> max_used_size h' = max_used_size h \<Longrightarrow>
   available_size h \<le> available_size h' \<Longrightarrow> watermark h'"
  unfolding watermark_def word_le_nat_alt same_heap_def by (elim conjE) simp

lemma heap_charge_sel [simp]: "available_size (heap_charge x h) = available_size h - x" "free_list (heap_charge x h) = free_list h"
  by (simp_all add: heap_charge_def Let_def)

lemma watermark_charge:
  assumes "watermark h" "x \<le> available_size h" "available_size h \<le> pool_size h"
  shows "watermark (heap_charge x h)"
proof -
  have "available_size h - x \<le> pool_size h" using assms(2,3) by (simp add: word_le_nat_alt unat_sub)
  then have "unat (pool_size h - (available_size h - x)) = unat (pool_size h) - unat (available_size h - x)"
    "unat (available_size h - x) \<le> unat (pool_size h)"
    by (simp_all add: word_le_nat_alt unat_sub)
  then show ?thesis using assms(1)
    by (auto simp: watermark_def heap_charge_def Let_def word_le_nat_alt word_less_nat_alt)
qed

section \<open>The free list\<close>

lemma frees_insert:
  assumes "frees_ok f bs fl r" "a \<notin> set (f # fl)" "a \<in> set bs'" "set fl \<subseteq> set bs'"
  shows "frees_ok f bs' (a # fl) (free_insert f a r)"
  unfolding frees_ok_def
proof (intro conjI)
  show "chain (free_insert f a r) f (a # fl) f"
    by (rule chain_free_insert) (use assms in \<open>simp_all add: frees_ok_def\<close>)
qed (use assms in \<open>auto simp: frees_ok_def\<close>)

lemma frees_remove:
  assumes "frees_ok f bs fl r" "a \<in> set fl" "set fl - {a} \<subseteq> set bs'"
  shows "frees_ok f bs' (remove1 a fl) (free_remove a r)"
  unfolding frees_ok_def
proof (intro conjI)
  show "chain (free_remove a r) f (remove1 a fl) f"
    by (rule chain_free_remove) (use assms in \<open>simp_all add: frees_ok_def\<close>)
qed (use assms in \<open>auto simp: frees_ok_def distinct_remove1\<close>)

lemma frees_null: "frees_ok f bs fl r \<Longrightarrow> a \<notin> set (f # fl) \<Longrightarrow> frees_ok f bs fl (free_null a r)"
  by (simp add: frees_ok_def chain_free_null)

section \<open>Searching\<close>

definition first_fit :: "u32 \<Rightarrow> heap_mem \<Rightarrow> nat list \<Rightarrow> nat option" where
  "first_fit sz m fl = find (\<lambda>a. sz \<le> MEMITEM_SIZE m a) fl"

lemma heap_search_first_fit:
  assumes "chain (fring m) b fl f" "f \<notin> set fl" "x < sz"
  shows "\<exists>y < sz. heap_search m f sz (hd (fl @ [f])) x =
     Some (case first_fit sz m fl of Some a \<Rightarrow> (a, MEMITEM_SIZE m a) | None \<Rightarrow> (f, y))"
  using assms
proof (induction fl arbitrary: b x)
  case Nil
  then show ?case by (auto simp: heap_search.simps [of m f sz f x] first_fit_def)
next
  case (Cons a fl)
  have a: "a \<noteq> f" "chain (fring m) a fl f" "next_of (fring m) a = hd (fl @ [f])"
    using Cons.prems chain_hd [of "fring m" a fl f] by auto
  show ?case
  proof (cases "MEMITEM_SIZE m a < sz")
    case True
    then have "heap_search m f sz a x = heap_search m f sz (hd (fl @ [f])) (MEMITEM_SIZE m a)"
      using a Cons.prems(3) by (simp add: heap_search.simps [of m f sz a x] Let_def)
    then show ?thesis
      using Cons.IH [of a "MEMITEM_SIZE m a"] a(2) Cons.prems(2) True by (simp add: first_fit_def leD)
  next
    case False
    then have "heap_search m f sz a x = Some (a, MEMITEM_SIZE m a)"
      using a Cons.prems(3)
      by (simp add: heap_search.simps [of m f sz a x] heap_search.simps [of m f sz a "MEMITEM_SIZE m a"] Let_def)
    then show ?thesis using False Cons.prems(3) by (auto simp: first_fit_def)
  qed
qed

lemma first_fit_SomeD: "first_fit sz m fl = Some a \<Longrightarrow> a \<in> set fl \<and> sz \<le> MEMITEM_SIZE m a"
  by (auto simp: first_fit_def find_Some_iff)

lemma memheap_ok_search:
  assumes "memheap_ok n bs fl h m" "0 < sz"
  shows "\<exists>y < sz. heap_search m (free_list h) sz (next_of (fring m) (free_list h)) 0 =
     Some (case first_fit sz m fl of Some a \<Rightarrow> (a, MEMITEM_SIZE m a) | None \<Rightarrow> (free_list h, y))"
proof -
  have "chain (fring m) (free_list h) fl (free_list h)" "free_list h \<notin> set fl"
    using assms(1) by (auto simp: memheap_ok_def frees_ok_def)
  then show ?thesis
    using heap_search_first_fit [of m "free_list h" fl "free_list h" 0 sz] assms(2) chain_hd [of "fring m"] by force
qed

lemma alloc_block_none:
  assumes "memheap_ok n bs fl h m" "0 < sz" "first_fit sz m fl = None"
  shows "alloc_block n sz h m = Some (0, h, m)"
  using memheap_ok_search [OF assms(1,2)] assms(3) by (auto simp: alloc_block_def)

section \<open>Allocating\<close>

lemma memheap_ok_block:
  assumes "memheap_ok n bs fl h m" "a \<in> set bs"
  shows "unat (MEMITEM_SIZE m a) = payload (bring m) a" "a + 24 + payload (bring m) a = next_of (bring m) a"
    "a + 36 \<le> next_of (bring m) a" "next_of (bring m) a \<le> heap_end h" "start_addr h \<le> a" "a \<noteq> free_list h" "a \<noteq> heap_end h"
proof -
  have bl: "blocks_ok (start_addr h) (heap_end h) bs (bring m)" and ar: "heap_area h"
    using assms(1) by (simp_all add: memheap_ok_def)
  show nx: "a + 36 \<le> next_of (bring m) a" "next_of (bring m) a \<le> heap_end h" using block_next_range [OF bl assms(2)] .
  show "start_addr h \<le> a" using blocks_range(1) [OF bl assms(2)] .
  then show "a \<noteq> free_list h" using nx ar by (auto simp: heap_area_def)
  show "a \<noteq> heap_end h" using nx by simp
  show "unat (MEMITEM_SIZE m a) = payload (bring m) a"
    using memitem_size [OF bl assms(2)] heap_area_end [OF ar] by simp
  show "a + 24 + payload (bring m) a = next_of (bring m) a" using nx(1) by (simp add: payload_def)
qed

lemma free_at_most_available:
  assumes "memheap_ok n bs fl h m" "a \<in> set fl"
  shows "unat (available_size h) = payload (bring m) a + free_sum (bring m) (set fl - {a})"
  using assms free_sum_split [of "set fl" a "bring m"] by (simp add: memheap_ok_def)

lemma alloc_whole:
  assumes ok: "memheap_ok n bs fl h m" and pos: "0 < sz" and fit: "first_fit sz m fl = Some a"
    and small: "\<not> sz + 36 \<le> MEMITEM_SIZE m a"
  shows "\<exists>h' m'. alloc_block n sz h m = Some (a + 24, h', m') \<and> memheap_ok n bs (remove1 a fl) h' m' \<and> same_heap h h' \<and>
     bring m' = bring m"
proof -
  define h' where "h' = heap_charge (MEMITEM_SIZE m a) h"
  define m' where "m' = set_magic a RT_MEMHEAP_USED (m\<lparr>fring := free_null a (free_remove a (fring m))\<rparr>)"
  have a: "a \<in> set fl" "sz \<le> MEMITEM_SIZE m a" using first_fit_SomeD [OF fit] by auto
  have run: "alloc_block n sz h m = Some (a + 24, h', m')"
    using memheap_ok_search [OF ok pos] fit a(2) small
    by (auto simp: alloc_block_def h'_def m'_def)
  have fr: "chain (fring m) (free_list h) fl (free_list h)" "distinct (free_list h # fl)" "set fl \<subseteq> set bs"
    and fo: "frees_ok (free_list h) bs fl (fring m)" and tg: "tags_ok n (heap_end h) bs (set fl) m" and co: "coalesced (set fl) bs" and wm: "watermark h"
    using ok by (simp_all add: memheap_ok_def frees_ok_def)
  have abs: "a \<in> set bs" using a(1) fr(3) by auto
  note bk = memheap_ok_block [OF ok abs]
  have s1: "set (remove1 a fl) = set fl - {a}" using fr(2) by simp
  have av: "unat (available_size h) = payload (bring m) a + free_sum (bring m) (set fl - {a})"
    by (rule free_at_most_available [OF ok a(1)])
  then have le: "MEMITEM_SIZE m a \<le> available_size h" using bk(1) by (simp add: word_le_nat_alt)
  have "memheap_ok n bs (remove1 a fl) h' m'"
  proof (rule memheap_ok_update [OF ok])
    show "same_heap h h'" by (simp add: h'_def)
    show "blocks_ok (start_addr h) (heap_end h) bs (bring m')" using ok by (simp add: m'_def set_magic_def memheap_ok_def)
    show "tags_ok n (heap_end h) bs (set (remove1 a fl)) m'"
      using tg bk(7) s1 by (auto simp: tags_ok_def m'_def set_magic_def)
    show "frees_ok (free_list h) bs (remove1 a fl) (fring m')"
      unfolding m'_def set_magic_def using frees_null [OF frees_remove [OF fo a(1), of bs], of a] bk(6) fr by auto
    show "coalesced (set (remove1 a fl)) bs" by (rule coalesced_subset [OF co]) (use s1 in auto)
    show "available_size h' = of_nat (free_sum (bring m') (set (remove1 a fl)))"
      using word_diff_unat [of "available_size h" "MEMITEM_SIZE m a"] bk(1) av s1 by (simp add: h'_def m'_def set_magic_def)
    show "watermark h'" unfolding h'_def by (rule watermark_charge [OF wm le memheap_ok_bounds(1) [OF ok]])
    show "\<forall>b\<in>set bs. 4 dvd b" using ok by (simp add: memheap_ok_def)
  qed
  then show ?thesis using run by (auto simp: h'_def m'_def set_magic_def)
qed

text \<open>The item of a new block behind \<open>a\<close>, inside the block of \<open>a\<close>, is none of the items.\<close>

lemma split_fresh:
  assumes bl: "blocks_ok st e (xs @ a # ys) r" and "a + 36 \<le> np" "np + 36 \<le> next_of r a"
  shows "np \<notin> set (xs @ a # ys)" "st \<le> np" "np < e" "spaced ((xs @ a # np # ys) @ [e])"
proof -
  have nx: "next_of r a = hd (ys @ [e])" using block_next [OF bl] by auto
  have sp: "spaced (xs @ a # ys @ [e])" using bl by (simp add: blocks_ok_def)
  have lt: "np + 36 \<le> x" if "x \<in> set (ys @ [e])" for x
    using that sp assms(3) nx by (cases ys) (auto simp: sorted_wrt_append)
  have xa: "x + 36 \<le> a" if "x \<in> set xs" for x using that sp by (simp add: sorted_wrt_append)
  show "spaced ((xs @ a # np # ys) @ [e])"
    using sp lt assms(2) by (force simp: sorted_wrt_append)
  show "np \<notin> set (xs @ a # ys)" using lt [of np] xa [of np] assms(2) by auto
  show "np < e" using lt [of e] by simp
  show "st \<le> np" using blocks_range(1) [OF bl, of a] assms(2) by simp
qed

lemma split_blocks_ok:
  assumes bl: "blocks_ok st e (xs @ a # ys) r" and "a + 36 \<le> np" "np + 36 \<le> next_of r a"
  shows "blocks_ok st e (xs @ a # np # ys) (block_split a np r)"
    "next_of (block_split a np r) = (next_of r)(a := np, np := next_of r a)"
proof -
  note fr = split_fresh [OF assms] and dt = blocks_distinct [OF bl]
  have ch: "chain r e (xs @ a # ys) e" using bl by (simp add: blocks_ok_def)
  have new: "np \<notin> set (e # xs @ a # ys)" using fr(1,3) by auto
  show "next_of (block_split a np r) = (next_of r)(a := np, np := next_of r a)"
    by (rule chain_block_split(2) [OF ch dt new])
  show "blocks_ok st e (xs @ a # np # ys) (block_split a np r)"
    using chain_block_split(1) [OF ch dt new] bl fr(4) by (cases xs) (auto simp: blocks_ok_def)
qed

lemma outside_area: "memheap_ok n bs fl h m \<Longrightarrow> start_addr h \<le> a \<Longrightarrow> a \<le> heap_end h \<Longrightarrow> a \<noteq> free_list h"
  by (auto simp: memheap_ok_def heap_area_def)

lemma alloc_part:
  assumes ok: "memheap_ok n (xs @ a # ys) fl h m" and pos: "12 \<le> sz" and fit: "first_fit sz m fl = Some a"
    and large: "sz + 36 \<le> MEMITEM_SIZE m a" and np: "np = a + 24 + unat sz" and mult: "4 dvd unat sz"
  shows "\<exists>h' m'. alloc_block n sz h m = Some (a + 24, h', m') \<and>
     memheap_ok n (xs @ a # np # ys) (np # remove1 a fl) h' m' \<and> same_heap h h' \<and>
     next_of (bring m') = (next_of (bring m))(a := np, np := next_of (bring m) a)"
proof -
  let ?bs = "xs @ a # ys" and ?r = "block_split a np (bring m)"
  define h' where "h' = heap_charge (sz + RT_MEMHEAP_SIZE) h"
  define m' where "m' = set_magic a RT_MEMHEAP_USED ((new_item n np m)\<lparr>bring := ?r,
     fring := free_insert (free_list h) np (free_null a (free_remove a (fring m)))\<rparr>)"
  have a: "a \<in> set fl" "sz \<le> MEMITEM_SIZE m a" using first_fit_SomeD [OF fit] by auto
  have sz: "12 \<le> unat sz" "0 < sz" using pos unfolding word_le_nat_alt word_less_nat_alt by auto
  have se: "heap_search m (free_list h) sz (next_of (fring m) (free_list h)) 0 = Some (a, MEMITEM_SIZE m a)"
    using memheap_ok_search [OF ok sz(2)] fit by auto
  have npe: "a + unat sz + 24 = np" using np by simp
  have run: "alloc_block n sz h m = Some (a + 24, h', m')"
    using a(2) large by (simp add: se alloc_block_def h'_def m'_def npe Let_def new_item_def set_magic_def)
  have fr: "chain (fring m) (free_list h) fl (free_list h)" "distinct (free_list h # fl)" "set fl \<subseteq> set ?bs"
    and fo: "frees_ok (free_list h) ?bs fl (fring m)" and tg: "tags_ok n (heap_end h) ?bs (set fl) m" and co: "coalesced (set fl) ?bs" and wm: "watermark h"
    using ok by (simp_all add: memheap_ok_def frees_ok_def)
  have bk: "unat (MEMITEM_SIZE m a) = payload (bring m) a" "a + 24 + payload (bring m) a = next_of (bring m) a"
    "a \<noteq> free_list h" "a \<noteq> heap_end h" using memheap_ok_block [OF ok, of a] by auto
  have "next_of (bring m) a + 24 \<le> 2 ^ 32"
    using memheap_ok_block(4) [OF ok, of a] heap_area_end [of h] ok by (simp add: memheap_ok_def)
  then have lt: "unat sz + 36 < 2 ^ 32" using a(2) bk(1,2) by (simp add: word_le_nat_alt)
  have sum: "unat (sz + 36) = unat sz + 36" "unat (sz + RT_MEMHEAP_SIZE) = unat sz + 24"
    using lt by (simp_all add: unat_word_ariths RT_MEMHEAP_SIZE_def)
  have pl: "unat sz + 36 \<le> payload (bring m) a" using large bk(1) sum(1) by (simp add: word_le_nat_alt)
  have sp: "a + 36 \<le> np" "np + 36 \<le> next_of (bring m) a" using np sz(1) pl bk(2) by auto
  have bl: "blocks_ok (start_addr h) (heap_end h) ?bs (bring m)" using ok by (simp add: memheap_ok_def)
  note fresh = split_fresh [OF bl sp] and spl = split_blocks_ok [OF bl sp]
  have new: "np \<notin> set ?bs" "np \<noteq> heap_end h" "np \<noteq> free_list h" using fresh outside_area [OF ok, of np] by auto
  have s1: "set (np # remove1 a fl) = insert np (set fl - {a})" using fr(2) by simp
  have av: "unat (available_size h) = payload (bring m) a + free_sum (bring m) (set fl - {a})"
    by (rule free_at_most_available [OF ok a(1)])
  have fs: "free_sum ?r (insert np (set fl - {a})) = payload (bring m) a - (unat sz + 24) + free_sum (bring m) (set fl - {a})"
  proof -
    have "np \<notin> set fl" using new(1) fr(3) by auto
    then have "free_sum ?r (insert np (set fl - {a})) = payload ?r np + free_sum ?r (set fl - {a})"
      using free_sum_split [of "insert np (set fl - {a})" np ?r] by simp
    moreover have "free_sum ?r (set fl - {a}) = free_sum (bring m) (set fl - {a})"
      by (rule free_sum_cong) (use spl(2) \<open>np \<notin> set fl\<close> in auto)
    ultimately show ?thesis using spl(2) np by (simp add: payload_def)
  qed
  have le: "sz + RT_MEMHEAP_SIZE \<le> available_size h" using sum(2) pl av by (simp add: word_le_nat_alt)
  have "memheap_ok n (xs @ a # np # ys) (np # remove1 a fl) h' m'"
  proof (rule memheap_ok_update [OF ok])
    show "same_heap h h'" by (simp add: h'_def)
    show "blocks_ok (start_addr h) (heap_end h) (xs @ a # np # ys) (bring m')"
      using spl(1) by (simp add: m'_def set_magic_def)
    show "tags_ok n (heap_end h) (xs @ a # np # ys) (set (np # remove1 a fl)) m'"
      using tg bk(4) new(1,2) sp(1) unfolding s1 by (auto simp: tags_ok_def m'_def set_magic_def new_item_def)
    have "frees_ok (free_list h) (xs @ ys) (remove1 a fl) (free_null a (free_remove a (fring m)))"
      by (rule frees_null [OF frees_remove [OF fo a(1)]]) (use bk(3) fr in auto)
    then show "frees_ok (free_list h) (xs @ a # np # ys) (np # remove1 a fl) (fring m')"
      unfolding m'_def set_magic_def using new(1,3) fr by (simp) (rule frees_insert, auto)
    show "coalesced (set (np # remove1 a fl)) (xs @ a # np # ys)"
      unfolding s1 by (rule coalesced_split [OF co a(1) new(1)])
    have "unat (available_size h) = unat (sz + RT_MEMHEAP_SIZE) + free_sum ?r (insert np (set fl - {a}))"
      using sum(2) pl av fs by linarith
    then have "available_size h' = of_nat (free_sum ?r (insert np (set fl - {a})))"
      unfolding h'_def heap_charge_sel by (rule word_diff_unat)
    then show "available_size h' = of_nat (free_sum (bring m') (set (np # remove1 a fl)))"
      unfolding s1 by (simp add: m'_def set_magic_def)
    show "watermark h'" unfolding h'_def by (rule watermark_charge [OF wm le memheap_ok_bounds(1) [OF ok]])
    show "\<forall>b\<in>set (xs @ a # np # ys). 4 dvd b" using ok np mult by (auto simp: memheap_ok_def)
  qed
  then show ?thesis using run spl(2) by (auto simp: h'_def m'_def set_magic_def)
qed

section \<open>Releasing\<close>

lemma magic_only [simp]:
  "MEMITEM_SIZE (set_magic a v m) x = MEMITEM_SIZE m x" "bring (set_magic a v m) = bring m" "fring (set_magic a v m) = fring m"
  "RT_MEMHEAP_IS_USED (m\<lparr>bring := b\<rparr>) x = RT_MEMHEAP_IS_USED m x"
  by (simp_all add: MEMITEM_SIZE_def set_magic_def RT_MEMHEAP_IS_USED_def)

text \<open>Whether the release joins to the left and to the right, and the rings it leaves.\<close>

lemma free_block_eval:
  assumes "m1 = set_magic a RT_MEMHEAP_FREED m" "RT_MEMHEAP_IS_USED m1 (prev_of (bring m) a) \<longleftrightarrow> \<not> L"
    "c = (if L then prev_of (bring m) a else a)" "r = (if L then block_drop a (bring m) else bring m)"
    "np = next_of r c" "RT_MEMHEAP_IS_USED m1 np \<longleftrightarrow> \<not> R" "g = (if R then free_remove np (fring m) else fring m)"
  shows "free_block a h m =
    (h\<lparr>available_size := available_size h + MEMITEM_SIZE m a + (if L then 24 else 0) + (if R then 24 else 0)\<rparr>,
     m1\<lparr>bring := (if R then block_join c r else r), fring := (if L then g else free_insert (free_list h) a g)\<rparr>)"
proof -
  have sz: "RT_MEMHEAP_SIZE = 24" by (simp add: RT_MEMHEAP_SIZE_def)
  have m1: "bring m1 = bring m" "fring m1 = fring m" "MEMITEM_SIZE m1 a = MEMITEM_SIZE m a" by (simp_all add: assms(1))
  show ?thesis
    unfolding free_block_def assms(1) [symmetric] Let_def m1 sz assms(2)
    using assms(3-7) by (cases L; cases R) (simp_all add: m1)
qed

text \<open>The ring of blocks and the sum of the free ones, joined to the left and to the right as asked.\<close>

lemma blocks_dropped:
  assumes "blocks_ok st e (us @ x # vs) r" "us \<noteq> []"
  shows "blocks_ok st e (us @ vs) (block_drop x r)" "blocks_ok st e (us @ vs) (free_remove x r)"
    "blocks_ok st e (us @ vs) (block_join (last us) r)" "next_of r (last us) = x" "prev_of r x = last us" "last us + 36 \<le> x"
proof -
  have ch: "chain r e (us @ x # vs) e" and sp: "spaced (us @ x # vs @ [e])" and st: "hd us = st"
    using assms(1,2) by (auto simp: blocks_ok_def)
  have "spaced (us @ vs @ [e])" using sp by (auto simp: sorted_wrt_append)
  then show "blocks_ok st e (us @ vs) (block_drop x r)" "blocks_ok st e (us @ vs) (free_remove x r)"
    "blocks_ok st e (us @ vs) (block_join (last us) r)"
    using chain_taken_out [OF ch blocks_distinct [OF assms(1)]] assms(2) st by (auto simp: blocks_ok_def)
  show "next_of r (last us) = x" "prev_of r x = last us" using chain_links(2,4) [OF ch] assms(2) by simp_all
  show "last us + 36 \<le> x" using sp last_in_set [OF assms(2)] by (simp add: sorted_wrt_append)
qed

lemma blocks_joined:
  assumes "blocks_ok st e (us @ x # vs) r" "us \<noteq> []" "last us \<in> F" "x \<in> F" "finite F"
  shows "free_sum (block_drop x r) (F - {x}) = free_sum r F + 24" "free_sum (block_join (last us) r) (F - {x}) = free_sum r F + 24"
proof -
  note dr = blocks_dropped [OF assms(1,2)]
  have g: "last us + 24 \<le> x" "x + 24 \<le> next_of r x" using block_next [OF assms(1)] dr(6) by linarith+
  show "free_sum (block_drop x r) (F - {x}) = free_sum r F + 24"
    by (rule free_sum_join [OF assms(5,3,4) dr(4) g]) (simp add: dr(4,5))
  show "free_sum (block_join (last us) r) (F - {x}) = free_sum r F + 24"
    by (rule free_sum_join [OF assms(5,3,4) dr(4) g]) (simp add: dr(4,5))
qed

definition joined_left :: "nat list \<Rightarrow> nat set \<Rightarrow> bool" where
  "joined_left xs F \<longleftrightarrow> xs \<noteq> [] \<and> last xs \<in> F"

definition joined_right :: "nat list \<Rightarrow> nat set \<Rightarrow> bool" where
  "joined_right ys F \<longleftrightarrow> ys \<noteq> [] \<and> hd ys \<in> F"

definition left_ring :: "nat \<Rightarrow> nat list \<Rightarrow> nat set \<Rightarrow> nat ring \<Rightarrow> nat ring" where
  "left_ring a xs F r = (if joined_left xs F then block_drop a r else r)"

definition freed_ring :: "nat \<Rightarrow> nat list \<Rightarrow> nat list \<Rightarrow> nat set \<Rightarrow> nat ring \<Rightarrow> nat ring" where
  "freed_ring a xs ys F r =
     (if joined_right ys F then block_join (if joined_left xs F then last xs else a) (left_ring a xs F r)
      else left_ring a xs F r)"

lemma freed_lists_joined:
  "freed_blocks a xs ys F = (if joined_left xs F then xs else xs @ [a]) @ (if joined_right ys F then tl ys else ys)"
  "freed_list a xs ys fl =
     (let g = (if joined_right ys (set fl) then remove1 (hd ys) fl else fl) in if joined_left xs (set fl) then g else a # g)"
  by (simp_all add: freed_blocks_def freed_list_def joined_left_def joined_right_def)

lemma freed_ring_ok:
  assumes bl: "blocks_ok st e (xs @ a # ys) r" and used: "a \<notin> set fl" and fd: "distinct fl"
  shows "blocks_ok st e (freed_blocks a xs ys (set fl)) (freed_ring a xs ys (set fl) r)"
    "free_sum (freed_ring a xs ys (set fl) r) (set (freed_list a xs ys fl)) =
       free_sum r (set fl) + payload r a + (if joined_left xs (set fl) then 24 else 0) + (if joined_right ys (set fl) then 24 else 0)"
    "next_of (left_ring a xs (set fl) r) (if joined_left xs (set fl) then last xs else a) = hd (ys @ [e])"
proof -
  let ?L = "joined_left xs (set fl)" and ?R = "joined_right ys (set fl)"
  define us where "us = (if ?L then xs else xs @ [a])"
  define c where "c = (if ?L then last xs else a)"
  define r2 where "r2 = left_ring a xs (set fl) r"
  define F1 where "F1 = insert a (set fl)"
  define F2 where "F2 = (if ?L then F1 - {a} else F1)"
  define F3 where "F3 = (if ?R then F2 - {hd ys} else F2)"
  have us: "us \<noteq> []" "last us = c" "last us \<in> F2" "finite F2"
    using used by (auto simp: us_def c_def F2_def F1_def joined_left_def)
  have b2: "blocks_ok st e (us @ ys) r2"
    using blocks_dropped(1) [of st e xs a ys r] bl by (auto simp: us_def r2_def left_ring_def F1_def joined_left_def)
  have s2: "free_sum r2 F2 = free_sum r (set fl) + payload r a + (if ?L then 24 else 0)"
    using blocks_joined(1) [of st e xs a ys r F1] bl free_sum_split [of F1 a r] used
    by (auto simp: r2_def left_ring_def F2_def F1_def joined_left_def)
  have c: "next_of r2 c = hd (ys @ [e])"
    using block_next(1) [of st e "butlast us" c ys r2] b2 us(1,2) by (metis append_butlast_last_id append_Cons append_Nil append_assoc)
  then show "next_of (left_ring a xs (set fl) r) (if ?L then last xs else a) = hd (ys @ [e])" by (simp add: r2_def c_def)
  have F3: "set (freed_list a xs ys fl) = F3" using used fd
    by (auto simp: freed_list_set [OF fd] F3_def F2_def F1_def joined_left_def joined_right_def dest: hd_in_set)
  have fin: "freed_blocks a xs ys (set fl) = us @ (if ?R then tl ys else ys)"
    "freed_ring a xs ys (set fl) r = (if ?R then block_join (last us) r2 else r2)"
    by (simp_all add: freed_lists_joined us_def freed_ring_def r2_def us(2) c_def)
  have "blocks_ok st e (us @ tl ys) (block_join (last us) r2)" "free_sum (block_join (last us) r2) F3 = free_sum r2 F2 + 24"
    if R: ?R
  proof -
    obtain x vs where ys: "ys = x # vs" using R by (cases ys) (auto simp: joined_right_def)
    then have "x \<in> F2" using R used by (auto simp: joined_right_def F2_def F1_def)
    then show "blocks_ok st e (us @ tl ys) (block_join (last us) r2)" "free_sum (block_join (last us) r2) F3 = free_sum r2 F2 + 24"
      using blocks_dropped(3) [of st e us x vs r2] blocks_joined(2) [of st e us x vs r2 F2] b2 us ys R by (simp_all add: F3_def)
  qed
  then show "blocks_ok st e (freed_blocks a xs ys (set fl)) (freed_ring a xs ys (set fl) r)"
    "free_sum (freed_ring a xs ys (set fl) r) (set (freed_list a xs ys fl)) =
       free_sum r (set fl) + payload r a + (if ?L then 24 else 0) + (if ?R then 24 else 0)"
    unfolding fin F3 using b2 s2 by (simp_all add: F3_def)
qed

lemma freed_frees_ok:
  assumes fo: "frees_ok f (xs @ a # ys) fl r" and used: "a \<notin> set fl" and "f \<noteq> a" "distinct (xs @ a # ys)"
  shows "frees_ok f (freed_blocks a xs ys (set fl)) (freed_list a xs ys fl)
    (let g = (if joined_right ys (set fl) then free_remove (hd ys) r else r)
     in if joined_left xs (set fl) then g else free_insert f a g)"
proof -
  let ?L = "joined_left xs (set fl)" and ?R = "joined_right ys (set fl)"
  define g where "g = (if ?R then free_remove (hd ys) r else r)"
  define gl where "gl = (if ?R then remove1 (hd ys) fl else fl)"
  have sub: "set fl \<subseteq> set xs \<union> set ys" "f \<notin> set fl" "distinct fl" using fo used by (auto simp: frees_ok_def)
  have "set gl \<subseteq> set xs \<union> set (if ?R then tl ys else ys)"
    using sub(1,3) by (cases ys) (auto simp: gl_def joined_right_def)
  then have bs: "set gl \<subseteq> set (freed_blocks a xs ys (set fl))"
    by (auto simp: freed_lists_joined)
  have gl: "set gl \<subseteq> set fl" using set_remove1_subset [of "hd ys" fl] by (simp add: gl_def)
  have g: "frees_ok f (freed_blocks a xs ys (set fl)) gl g"
    using fo bs frees_remove [OF fo, of "hd ys"] sub(3) by (auto simp: g_def gl_def joined_right_def frees_ok_def)
  show ?thesis
  proof (cases ?L)
    case True
    then show ?thesis using g by (simp add: freed_lists_joined g_def [symmetric] gl_def [symmetric] Let_def)
  next
    case False
    then have "a \<in> set (freed_blocks a xs ys (set fl))" by (simp add: freed_lists_joined)
    then have "frees_ok f (freed_blocks a xs ys (set fl)) (a # gl) (free_insert f a g)"
      using used gl assms(3) bs by (intro frees_insert [OF g]) auto
    then show ?thesis using False by (simp add: freed_lists_joined g_def [symmetric] gl_def [symmetric] Let_def)
  qed
qed

lemma freed_tags:
  assumes "tags_ok n e (xs @ a # ys) (set fl) m" "a \<notin> set fl" "distinct (e # xs @ a # ys)" "distinct fl"
    "magic m' = (magic m)(a := RT_MEMHEAP_MAGIC OR RT_MEMHEAP_FREED)" "pool_ptr m' = pool_ptr m"
  shows "tags_ok n e (freed_blocks a xs ys (set fl)) (set (freed_list a xs ys fl)) m'"
proof -
  let ?F = "set (freed_list a xs ys fl)"
  have key: "x \<in> ?F \<longleftrightarrow> x = a \<or> x \<in> set fl" "x \<in> set (xs @ a # ys)" if "x \<in> set (freed_blocks a xs ys (set fl))" for x
    using that assms(2,3,4) freed_list_set [OF assms(4), of a xs ys]
    by (auto simp: freed_blocks_def neq_Nil_conv split: if_splits)
  have "magic m' x = RT_MEMHEAP_MAGIC OR (if x \<in> ?F then RT_MEMHEAP_FREED else RT_MEMHEAP_USED) \<and> pool_ptr m' x = n"
    if x: "x \<in> set (freed_blocks a xs ys (set fl))" for x
  proof -
    have "magic m x = RT_MEMHEAP_MAGIC OR (if x \<in> set fl then RT_MEMHEAP_FREED else RT_MEMHEAP_USED)" "pool_ptr m x = n"
      using assms(1) key(2) [OF x] unfolding tags_ok_def by blast+
    then show ?thesis using assms(5,6) by (simp add: key(1) [OF x])
  qed
  moreover have "magic m' e = RT_MEMHEAP_MAGIC OR RT_MEMHEAP_USED" "pool_ptr m' e = n"
    using assms(1,3,5,6) by (simp_all add: tags_ok_def)
  ultimately show ?thesis by (simp add: tags_ok_def)
qed

text \<open>The marks of the neighbours tell where to join.\<close>

lemma release_joins:
  assumes "tags_ok n e (xs @ a # ys) F m" "distinct (e # xs @ a # ys)"
  shows "RT_MEMHEAP_IS_USED (set_magic a v m) (last (e # xs)) \<longleftrightarrow> \<not> joined_left xs F"
    "RT_MEMHEAP_IS_USED (set_magic a v m) (hd (ys @ [e])) \<longleftrightarrow> \<not> joined_right ys F"
proof -
  have mg: "RT_MEMHEAP_IS_USED (set_magic a v m) x = RT_MEMHEAP_IS_USED m x" if "x \<noteq> a" for x
    using that by (simp add: RT_MEMHEAP_IS_USED_def set_magic_def)
  note us = tags_used [OF assms(1)]
  show "RT_MEMHEAP_IS_USED (set_magic a v m) (last (e # xs)) \<longleftrightarrow> \<not> joined_left xs F"
  proof (cases "xs = []")
    case False
    then have "last xs \<in> set (xs @ a # ys)" "last xs \<noteq> a" using assms(2) by (auto dest: last_in_set)
    then show ?thesis using False mg [of "last xs"] us(1) [of "last xs"] by (auto simp: joined_left_def)
  qed (use assms(2) mg [of e] us(2) in \<open>auto simp: joined_left_def\<close>)
  show "RT_MEMHEAP_IS_USED (set_magic a v m) (hd (ys @ [e])) \<longleftrightarrow> \<not> joined_right ys F"
    using assms(2) mg [of e] mg [of "hd ys"] us(2) us(1) [of "hd ys"] by (cases ys) (auto simp: joined_right_def)
qed

lemma free_block_result:
  assumes ok: "memheap_ok n (xs @ a # ys) fl h m" and used: "a \<notin> set fl"
  shows "free_block a h m =
    (h\<lparr>available_size := available_size h + MEMITEM_SIZE m a + (if joined_left xs (set fl) then 24 else 0) +
         (if joined_right ys (set fl) then 24 else 0)\<rparr>,
     (set_magic a RT_MEMHEAP_FREED m)\<lparr>bring := freed_ring a xs ys (set fl) (bring m),
       fring := (let g = (if joined_right ys (set fl) then free_remove (hd ys) (fring m) else fring m)
                 in if joined_left xs (set fl) then g else free_insert (free_list h) a g)\<rparr>)"
proof -
  have bl: "blocks_ok (start_addr h) (heap_end h) (xs @ a # ys) (bring m)" and fd: "distinct fl"
    and tg: "tags_ok n (heap_end h) (xs @ a # ys) (set fl) m" using ok by (simp_all add: memheap_ok_def frees_ok_def)
  note nx = freed_ring_ok(3) [OF bl used fd] and jn = release_joins [OF tg blocks_distinct [OF bl]]
  have pv: "prev_of (bring m) a = last (heap_end h # xs)"
    using bl chain_links(2) [of "bring m" "heap_end h" xs a ys] by (simp add: blocks_ok_def)
  have nb: "(if joined_left xs (set fl) then last xs else a) = (if joined_left xs (set fl) then prev_of (bring m) a else a)"
    "joined_right ys (set fl) \<Longrightarrow> hd (ys @ [heap_end h]) = hd ys"
    using pv by (auto simp: joined_left_def joined_right_def)
  show ?thesis
    using free_block_eval [OF refl jn(1) [folded pv] nb(1) left_ring_def nx [symmetric] jn(2) refl, of h]
    by (simp add: freed_ring_def nb(2) Let_def cong: if_cong)
qed

lemma free_block_ok:
  assumes ok: "memheap_ok n (xs @ a # ys) fl h m" and used: "a \<notin> set fl"
  shows "\<exists>h' m'. free_block a h m = (h', m') \<and> same_heap h h' \<and>
     memheap_ok n (freed_blocks a xs ys (set fl)) (freed_list a xs ys fl) h' m' \<and>
     bring m' = freed_ring a xs ys (set fl) (bring m)"
proof -
  let ?bs = "xs @ a # ys" and ?e = "heap_end h" and ?r = "bring m" and ?F = "set fl"
  obtain h' m' where run: "free_block a h m = (h', m')" by force
  have bl: "blocks_ok (start_addr h) ?e ?bs ?r" and tg: "tags_ok n ?e ?bs ?F m"
    and fo: "frees_ok (free_list h) ?bs fl (fring m)" and co: "coalesced ?F ?bs" and wm: "watermark h"
    and av: "unat (available_size h) = free_sum ?r ?F" and fd: "distinct fl"
    using ok by (simp_all add: memheap_ok_def frees_ok_def)
  note dt = blocks_distinct [OF bl] and fr = freed_ring_ok [OF bl used fd] and res = free_block_result [OF ok used]
  have bk: "unat (MEMITEM_SIZE m a) = payload ?r a" "a \<noteq> free_list h" using memheap_ok_block [OF ok, of a] by auto
  have m': "bring m' = freed_ring a xs ys ?F ?r" "magic m' = (magic m)(a := RT_MEMHEAP_MAGIC OR RT_MEMHEAP_FREED)"
    "pool_ptr m' = pool_ptr m" and sh: "same_heap h h'" and mx: "max_used_size h' = max_used_size h"
    using run unfolding res by (auto simp: set_magic_def)
  have avn: "available_size h' = of_nat (free_sum (bring m') (set (freed_list a xs ys fl)))"
  proof -
    have "available_size h' = of_nat (unat (available_size h) + unat (MEMITEM_SIZE m a) +
        (if joined_left xs ?F then 24 else 0) + (if joined_right ys ?F then 24 else 0))"
      using run unfolding res by auto
    then show ?thesis unfolding av bk(1) fr(2) [symmetric] m'(1) .
  qed
  have "memheap_ok n (freed_blocks a xs ys ?F) (freed_list a xs ys fl) h' m'"
  proof (rule memheap_ok_update [OF ok sh _ _ _ _ avn])
    show b': "blocks_ok (start_addr h) ?e (freed_blocks a xs ys ?F) (bring m')" using fr(1) m'(1) by simp
    show "tags_ok n ?e (freed_blocks a xs ys ?F) (set (freed_list a xs ys fl)) m'"
      by (rule freed_tags [OF tg used dt fd m'(2,3)])
    show fo': "frees_ok (free_list h) (freed_blocks a xs ys ?F) (freed_list a xs ys fl) (fring m')"
      using freed_frees_ok [OF fo used] bk(2) dt run unfolding res by auto
    show "coalesced (set (freed_list a xs ys fl)) (freed_blocks a xs ys ?F)"
      by (rule freed_coalesced [OF co used _ fd]) (use dt in simp)
    have "free_sum (bring m') (set (freed_list a xs ys fl)) + 24 \<le> unat (pool_size h)"
      using fo' by (intro memheap_ok_bounds(2) [OF ok b']) (simp add: frees_ok_def)
    then have "unat (available_size h') = free_sum (bring m') (set (freed_list a xs ys fl))"
      using avn unsigned_less [of "pool_size h", where ?'a = nat] by (simp add: unsigned_of_nat take_bit_nat_eq_self)
    then have "available_size h \<le> available_size h'" using fr(2) av m'(1) unfolding word_le_nat_alt by simp
    then show "watermark h'" by (rule watermark_more [OF wm sh mx])
    show "\<forall>b\<in>set (freed_blocks a xs ys ?F). 4 dvd b" using ok freed_blocks_subset [of a xs ys ?F] by (auto simp: memheap_ok_def)
  qed
  then show ?thesis using run sh m'(1) by blast
qed

end
