(* ===== verification/Heap_Resize.thy ===== *)
theory Heap_Resize
  imports Heap_Ops
begin

text \<open>
  Setting up a memory heap gives the invariant with one free block; growing a block into the free block behind it and
  shrinking a block keep it.
\<close>

section \<open>Setting up\<close>

lemma heap_layout_ok:
  assumes psz: "psz = sz AND NOT 3" and "0 < start" "60 \<le> unat psz" "start + unat psz \<le> 2 ^ 32"
    "\<not> (start \<le> free_header h \<and> free_header h + 24 \<le> start + unat psz)"
    "4 dvd start" "heap_layout n start sz h m = (h', m')"
  shows "memheap_ok n [start] [start] h' m'" "start_addr h' = start" "pool_size h' = psz" "lock h' = lock h"
proof -
  define f where "f = free_header h"
  define e where "e = start + unat psz - 24"
  have av: "unat (psz - 48) = unat psz - 48" using assms(3) by (simp add: unat_sub word_le_nat_alt)
  have e: "start + unat (psz - 48) + 24 = e" using av assms(3) by (simp add: e_def)
  have sz: "2 * RT_MEMHEAP_SIZE = 48" by (simp add: RT_MEMHEAP_SIZE_def)
  have ne: "f \<noteq> start" "f \<noteq> e" "start \<noteq> e" "start + 36 \<le> e"
    using assms(3,5) by (auto simp: f_def e_def)
  have res: "start_addr h' = start" "pool_size h' = psz" "available_size h' = psz - 48" "free_list h' = f" "lock h' = lock h"
    "max_used_size h' = 48"
    "magic m' = (magic m)(f := RT_MEMHEAP_MAGIC OR RT_MEMHEAP_FREED, start := RT_MEMHEAP_MAGIC OR RT_MEMHEAP_FREED,
       e := RT_MEMHEAP_MAGIC OR RT_MEMHEAP_USED)"
    "pool_ptr m' start = n" "pool_ptr m' e = n"
    "next_of (bring m') e = start" "prev_of (bring m') e = start" "next_of (bring m') start = e" "prev_of (bring m') start = e"
    "next_of (fring m') f = start" "prev_of (fring m') f = start" "next_of (fring m') start = f" "prev_of (fring m') start = f"
    using assms(7) ne unfolding heap_layout_def psz [symmetric]
    by (auto simp: Let_def new_item_def set_magic_def f_def [symmetric] sz e free_insert_def free_null_def)
  show "start_addr h' = start" "pool_size h' = psz" "lock h' = lock h" using res by simp_all
  have he: "heap_end h' = e" using res by (simp add: heap_end_def e_def)
  have ar: "heap_area h'" using assms(2-5) res he by (auto simp: heap_area_def e_def f_def)
  have "blocks_ok start e [start] (bring m')" using res ne(4) by (simp add: blocks_ok_def)
  moreover have "tags_ok n e [start] {start} m'" using res ne by (simp add: tags_ok_def)
  moreover have "frees_ok f [start] [start] (fring m')" using res ne by (simp add: frees_ok_def)
  moreover have "unat (available_size h') = free_sum (bring m') {start}"
    using res e by (simp add: free_sum_def payload_def)
  moreover have "watermark h'" using res av assms(3) by (simp add: watermark_def word_le_nat_alt)
  ultimately show "memheap_ok n [start] [start] h' m'" using ar res he assms(6) by (simp add: memheap_ok_def)
qed

section \<open>Growing\<close>

lemma coalesced_move:
  assumes "coalesced F (xs @ a # x # ys)" "a \<notin> F" "x \<in> F" "np \<notin> set (xs @ a # ys)" "np \<noteq> a"
  shows "coalesced (insert np (F - {x})) (xs @ a # np # ys)"
proof -
  let ?F = "insert np (F - {x})"
  have p: "coalesced F xs" "coalesced F ys" "ys \<noteq> [] \<longrightarrow> hd ys \<notin> F"
    using assms(1,3) by (auto simp: successively_append_iff successively_Cons)
  have "coalesced ?F xs" by (rule coalesced_subset [OF p(1)]) (use assms(4) in auto)
  moreover have "coalesced ?F ys" by (rule coalesced_subset [OF p(2)]) (use assms(4) in auto)
  moreover have "ys \<noteq> [] \<longrightarrow> hd ys \<notin> ?F" using p(3) assms(4) by (cases ys) auto
  moreover have "a \<notin> ?F" using assms(2,5) by simp
  ultimately show ?thesis by (auto simp: successively_append_iff successively_Cons)
qed

text \<open>The ring of blocks when the border between a block and the free block behind it moves.\<close>

lemma border_moved:
  assumes bl: "blocks_ok st e (xs @ a # x # ys) r" and sp: "a + 36 \<le> q" "q + 36 \<le> next_of r x"
  defines "r' \<equiv> block_split a q (free_remove x r)"
  shows "blocks_ok st e (xs @ a # q # ys) r'" "q \<notin> set (xs @ a # ys)" "st \<le> q" "q < e"
    "next_of r' = (next_of r)(a := q, q := next_of r x)"
proof -
  have b1: "blocks_ok st e (xs @ a # ys) (free_remove x r)" and pv: "prev_of r x = a"
    using blocks_dropped(2,5) [of st e "xs @ [a]" x ys r] bl by simp_all
  have nx: "next_of (free_remove x r) = (next_of r)(a := next_of r x)" using pv by simp
  have sp2: "q + 36 \<le> next_of (free_remove x r) a" using sp(2) nx by simp
  show "blocks_ok st e (xs @ a # q # ys) r'" unfolding r'_def by (rule split_blocks_ok(1) [OF b1 sp(1) sp2])
  show "q \<notin> set (xs @ a # ys)" "st \<le> q" "q < e" using split_fresh [OF b1 sp(1) sp2] by simp_all
  show "next_of r' = (next_of r)(a := q, q := next_of r x)"
    unfolding r'_def split_blocks_ok(2) [OF b1 sp(1) sp2] nx using sp(1) by (auto simp: fun_eq_iff)
qed

lemma grow_tags:
  assumes "tags_ok n e (xs @ a # x # ys) F m" "a \<notin> F" "q \<notin> set (xs @ a # ys)" "q \<noteq> e" "distinct (e # xs @ a # x # ys)"
    "magic m' = (magic m)(q := RT_MEMHEAP_MAGIC OR RT_MEMHEAP_FREED)" "pool_ptr m' = (pool_ptr m)(q := n)"
  shows "tags_ok n e (xs @ a # q # ys) (insert q (F - {x})) m'"
  using assms by (auto simp: tags_ok_def)

lemma grow_sum:
  assumes "blocks_ok st e (xs @ a # x # ys) r" "finite F" "x \<in> F" "a \<notin> F" "q \<notin> F - {x}"
    "next_of r' = (next_of r)(a := q, q := next_of r x)" "x \<le> q" "q + 24 \<le> next_of r x"
  shows "free_sum r' (insert q (F - {x})) + (q - x) = free_sum r F"
proof -
  have x: "x + 36 \<le> next_of r x" using block_next_range(1) [OF assms(1)] by simp
  have "free_sum r' (insert q (F - {x})) = payload r' q + free_sum r' (F - {x})"
    using free_sum_split [of "insert q (F - {x})" q r'] assms(2,5) by simp
  moreover have "free_sum r' (F - {x}) = free_sum r (F - {x})"
    by (rule free_sum_cong) (use assms(4-6) in auto)
  moreover have "payload r' q + (q - x) = payload r x" using assms(6-8) x by (simp add: payload_def)
  ultimately show ?thesis using free_sum_split [of F x r] assms(2,3) by simp
qed

text \<open>A used block, the free block behind it, and the place of the new border.\<close>

lemma grow_geometry:
  assumes ok: "memheap_ok n (xs @ a # x # ys) fl h m" and old: "old = MEMITEM_SIZE m a" "old < new"
    and fits: "unat new + 12 < payload (bring m) a + payload (bring m) x" and q: "q = a + 24 + unat new"
  shows "next_of (bring m) a = x" "a + 36 \<le> q" "q + 36 \<le> next_of (bring m) x" "x \<le> q" "q - x = unat (new - old)"
    "unat (of_nat a + RT_MEMHEAP_SIZE + new :: u32) = q" "new + RT_MEMHEAP_MINIALLOC < MEMITEM_SIZE m x + old"
proof -
  let ?r = "bring m"
  have bl: "blocks_ok (start_addr h) (heap_end h) (xs @ a # x # ys) ?r" and ar: "heap_area h"
    using ok by (simp_all add: memheap_ok_def)
  show ax: "next_of ?r a = x" using block_next(1) [of _ _ xs a "x # ys"] bl by simp
  have ba: "unat old = payload ?r a" "a + 24 + payload ?r a = x" using memheap_ok_block [OF ok, of a] ax old(1) by auto
  have bx: "unat (MEMITEM_SIZE m x) = payload ?r x" "x + 24 + payload ?r x = next_of ?r x" "next_of ?r x + 24 \<le> 2 ^ 32"
    using memheap_ok_block [OF ok, of x] heap_area_end [OF ar] by auto
  have lt: "unat old < unat new" using old(2) by (simp add: word_less_nat_alt)
  show sp: "a + 36 \<le> q" "q + 36 \<le> next_of ?r x" "x \<le> q"
    using memheap_ok_block(3) [OF ok, of a] ax lt q ba fits bx(2) by auto
  show "q - x = unat (new - old)" using lt ba q by (simp add: unat_sub word_le_nat_alt)
  have "(of_nat a + RT_MEMHEAP_SIZE + new :: u32) = of_nat q" using q by (simp add: RT_MEMHEAP_SIZE_def)
  then show "unat (of_nat a + RT_MEMHEAP_SIZE + new :: u32) = q" using unat_u32_of_nat [of q] sp(2) bx(3) by simp
  have "unat (MEMITEM_SIZE m x + old) = payload ?r x + payload ?r a" "unat (new + RT_MEMHEAP_MINIALLOC) = unat new + 12"
    using bx ba fits by (simp_all add: unat_word_ariths RT_MEMHEAP_MINIALLOC_def)
  then show "new + RT_MEMHEAP_MINIALLOC < MEMITEM_SIZE m x + old" using fits by (simp add: word_less_nat_alt)
qed

lemma grow_block_ok:
  assumes ok: "memheap_ok n (xs @ a # x # ys) fl h m" and used: "a \<notin> set fl" and free: "x \<in> set fl"
    and old: "old = MEMITEM_SIZE m a" "old < new" and fits: "unat new + 12 < payload (bring m) a + payload (bring m) x"
    and q: "q = a + 24 + unat new" and mult: "4 dvd unat new"
  shows "\<exists>h' m'. grow_block n a old new h m = Some (h', m') \<and> memheap_ok n (xs @ a # q # ys) (q # remove1 x fl) h' m' \<and>
     same_heap h h' \<and> next_of (bring m') = (next_of (bring m))(a := q, q := next_of (bring m) x)"
proof -
  let ?bs = "xs @ a # x # ys" and ?e = "heap_end h" and ?r = "bring m"
  define r' where "r' = block_split a q (free_remove x ?r)"
  define h' where "h' = heap_charge (new - old) h"
  define m' where "m' = (new_item n q m)\<lparr>bring := r', fring := free_insert (free_list h) q (free_remove x (fring m))\<rparr>"
  have bl: "blocks_ok (start_addr h) ?e ?bs ?r" and tg: "tags_ok n ?e ?bs (set fl) m" and wm: "watermark h"
    and fo: "frees_ok (free_list h) ?bs fl (fring m)" and co: "coalesced (set fl) ?bs"
    and av: "unat (available_size h) = free_sum ?r (set fl)" and fd: "distinct fl" "set fl \<subseteq> set ?bs"
    using ok by (simp_all add: memheap_ok_def frees_ok_def)
  note ge = grow_geometry [OF ok old fits q] and dt = blocks_distinct [OF bl]
  note bm = border_moved [OF bl ge(2,3)]
  have new: "q \<noteq> ?e" "q \<noteq> free_list h" "q \<notin> set fl - {x}" "set (q # remove1 x fl) = insert q (set fl - {x})"
    using bm(2,3,4) outside_area [OF ok, of q] fd by auto
  have "\<not> RT_MEMHEAP_IS_USED m x" using tags_used(1) [OF tg, of x] free by simp
  then have run: "grow_block n a old new h m = Some (h', m')"
    using ge(7) unfolding grow_block_def Let_def ge(1,6)
    by (simp add: h'_def m'_def r'_def new_item_def set_magic_def)
  have fs: "free_sum r' (insert q (set fl - {x})) + unat (new - old) = unat (available_size h)"
    using grow_sum [OF bl _ free used new(3) bm(5) ge(4)] ge(3,5) av by (simp add: r'_def)
  have "memheap_ok n (xs @ a # q # ys) (q # remove1 x fl) h' m'"
  proof (rule memheap_ok_update [OF ok])
    show "same_heap h h'" by (simp add: h'_def)
    show "blocks_ok (start_addr h) ?e (xs @ a # q # ys) (bring m')" using bm(1) by (simp add: m'_def r'_def)
    show "tags_ok n ?e (xs @ a # q # ys) (set (q # remove1 x fl)) m'"
      unfolding new(4) by (rule grow_tags [OF tg used bm(2) new(1) dt]) (simp_all add: m'_def new_item_def set_magic_def)
    have "frees_ok (free_list h) (xs @ a # ys) (remove1 x fl) (free_remove x (fring m))"
      by (rule frees_remove [OF fo free]) (use fd in auto)
    then show "frees_ok (free_list h) (xs @ a # q # ys) (q # remove1 x fl) (fring m')"
      unfolding m'_def using new(2,3) fd by simp (rule frees_insert, auto)
    show "coalesced (set (q # remove1 x fl)) (xs @ a # q # ys)"
      unfolding new(4) by (rule coalesced_move [OF co used free bm(2)]) (use ge(2) in simp)
    show "available_size h' = of_nat (free_sum (bring m') (set (q # remove1 x fl)))"
      unfolding new(4) h'_def heap_charge_sel by (rule word_diff_unat) (use fs in \<open>simp add: m'_def\<close>)
    show "watermark h'" unfolding h'_def
      by (rule watermark_charge [OF wm _ memheap_ok_bounds(1) [OF ok]]) (use fs in \<open>simp add: word_le_nat_alt\<close>)
    show "\<forall>b\<in>set (xs @ a # q # ys). 4 dvd b" using ok q mult by (auto simp: memheap_ok_def)
  qed
  then show ?thesis using run bm(5) by (auto simp: h'_def m'_def r'_def)
qed

lemma grow_block_none:
  assumes ok: "memheap_ok n (xs @ a # ys) fl h m"
    and no: "joined_right ys (set fl) \<Longrightarrow> payload (bring m) a + payload (bring m) (hd ys) \<le> unat new + 12" "unat new + 12 < 2 ^ 32"
  shows "grow_block n a (MEMITEM_SIZE m a) new h m = None"
proof -
  let ?r = "bring m"
  have bl: "blocks_ok (start_addr h) (heap_end h) (xs @ a # ys) ?r" and ar: "heap_area h"
    and tg: "tags_ok n (heap_end h) (xs @ a # ys) (set fl) m" using ok by (simp_all add: memheap_ok_def)
  have nx: "next_of ?r a = hd (ys @ [heap_end h])" using block_next(1) [OF bl] .
  have us: "RT_MEMHEAP_IS_USED m (hd (ys @ [heap_end h])) \<longleftrightarrow> \<not> joined_right ys (set fl)"
    using tags_used [OF tg] by (cases ys) (auto simp: joined_right_def)
  have "\<not> new + RT_MEMHEAP_MINIALLOC < MEMITEM_SIZE m (hd ys) + MEMITEM_SIZE m a" if R: "joined_right ys (set fl)"
  proof -
    have y: "hd ys \<in> set (xs @ a # ys)" "next_of ?r a = hd ys" using R nx by (auto simp: joined_right_def)
    have "unat (MEMITEM_SIZE m (hd ys) + MEMITEM_SIZE m a) = payload ?r (hd ys) + payload ?r a"
      using memheap_ok_block [OF ok y(1)] memheap_ok_block [OF ok, of a] y(2) heap_area_end [OF ar] by (simp add: unat_word_ariths)
    moreover have "unat (new + RT_MEMHEAP_MINIALLOC) = unat new + 12"
      using no(2) by (simp add: unat_word_ariths RT_MEMHEAP_MINIALLOC_def)
    ultimately show ?thesis using no(1) [OF R] by (simp add: word_less_nat_alt)
  qed
  moreover have "joined_right ys (set fl) \<Longrightarrow> hd (ys @ [heap_end h]) = hd ys" by (auto simp: joined_right_def)
  ultimately show ?thesis using us by (auto simp: grow_block_def Let_def nx)
qed

section \<open>Shrinking\<close>

text \<open>A shrunken block is split, and its rest released.\<close>

lemma shrink_block_eval:
  assumes "m1 = new_item n q m" "q = a + unat new + unat RT_MEMHEAP_SIZE" "r = block_split a q (bring m)" "x = next_of r q"
    "RT_MEMHEAP_IS_USED m1 x \<longleftrightarrow> \<not> R" "r' = (if R then block_join q r else r)"
  shows "shrink_block n a new h m =
    (h\<lparr>available_size := available_size h - (if R then MEMITEM_SIZE (m1\<lparr>bring := r\<rparr>) x else 0) + MEMITEM_SIZE (m1\<lparr>bring := r'\<rparr>) q\<rparr>,
     m1\<lparr>bring := r', fring := free_insert (free_list h) q (if R then free_remove x (fring m) else fring m)\<rparr>)"
proof -
  have m1: "bring m1 = bring m" "fring m1 = fring m" by (simp_all add: assms(1) new_item_def set_magic_def)
  have ms: "MEMITEM_SIZE (m\<lparr>bring := b, fring := f\<rparr>) y = MEMITEM_SIZE (m\<lparr>bring := b\<rparr>) y" for m :: heap_mem and b f y
    by (simp add: MEMITEM_SIZE_def)
  show ?thesis
    unfolding shrink_block_def assms(2) [symmetric] assms(1) [symmetric] Let_def m1
    using assms(3-6) m1 by (cases R) (simp_all add: ms)
qed

lemma shrink_geometry:
  assumes ok: "memheap_ok n (xs @ a # ys) fl h m" and used: "a \<notin> set fl"
    and new: "12 \<le> unat new" "unat new + 36 < payload (bring m) a" and q: "q = a + 24 + unat new"
  defines "r \<equiv> block_split a q (bring m)"
  shows "blocks_ok (start_addr h) (heap_end h) ((xs @ [a]) @ q # ys) r"
    "next_of r = (next_of (bring m))(a := q, q := next_of (bring m) a)" "next_of r q = hd (ys @ [heap_end h])"
    "q \<notin> set (xs @ a # ys)" "q \<noteq> heap_end h" "q \<noteq> free_list h" "q \<notin> set fl" "free_sum r (set fl) = free_sum (bring m) (set fl)"
proof -
  have bl: "blocks_ok (start_addr h) (heap_end h) (xs @ a # ys) (bring m)" and sub: "set fl \<subseteq> set (xs @ a # ys)"
    using ok by (simp_all add: memheap_ok_def frees_ok_def)
  have sp: "a + 36 \<le> q" "q + 36 \<le> next_of (bring m) a" using memheap_ok_block(2) [OF ok, of a] new q by auto
  note fresh = split_fresh [OF bl sp] and spl = split_blocks_ok [OF bl sp]
  show "blocks_ok (start_addr h) (heap_end h) ((xs @ [a]) @ q # ys) r" using spl(1) by (simp add: r_def)
  show nx: "next_of r = (next_of (bring m))(a := q, q := next_of (bring m) a)" using spl(2) by (simp add: r_def)
  show "next_of r q = hd (ys @ [heap_end h])" using nx block_next(1) [OF bl] by simp
  show "q \<notin> set (xs @ a # ys)" "q \<noteq> heap_end h" "q \<noteq> free_list h" using fresh outside_area [OF ok, of q] by auto
  then show "q \<notin> set fl" using sub by auto
  then show "free_sum r (set fl) = free_sum (bring m) (set fl)"
    by (intro free_sum_cong) (use nx used in auto)
qed

text \<open>The size of the rest, joined with the free block behind it.\<close>

lemma shrink_rest:
  assumes b: "blocks_ok st e (us @ q # ys) r" and R: "joined_right ys F"
  shows "payload (block_join q r) q = payload r q + 24 + payload r (hd ys)"
proof -
  obtain x vs where ys: "ys = x # vs" using R by (cases ys) (auto simp: joined_right_def)
  have "next_of r q = x" "q + 36 \<le> x" using block_next [OF b] ys by simp_all
  moreover have "x + 36 \<le> next_of r x" using block_next_range(1) [OF b, of x] ys by simp
  ultimately show ?thesis using ys by (simp add: payload_def)
qed

lemma shrink_counter:
  assumes b: "blocks_ok st e (us @ q # ys) r" and L: "\<not> joined_left us (set fl)" and "q \<notin> set fl" "distinct fl" "e + 24 \<le> 2 ^ 32"
  defines "R \<equiv> joined_right ys (set fl)" and "r' \<equiv> freed_ring q us ys (set fl) r"
  shows "of_nat (free_sum r (set fl)) - (if R then MEMITEM_SIZE (m1\<lparr>bring := r\<rparr>) (hd (ys @ [e])) else 0) +
      MEMITEM_SIZE (m1\<lparr>bring := r'\<rparr>) q = of_nat (free_sum r' (set (freed_list q us ys fl)))"
proof -
  note fr = freed_ring_ok [OF b assms(3,4)]
  have "q \<in> set (freed_blocks q us ys (set fl))" using L by (simp add: freed_lists_joined)
  then have mq: "MEMITEM_SIZE (m1\<lparr>bring := r'\<rparr>) q = of_nat (payload r' q)"
    using memitem_word [of st e "freed_blocks q us ys (set fl)" "m1\<lparr>bring := r'\<rparr>" q] fr(1) assms(5) by (simp add: r'_def)
  show ?thesis
  proof (cases R)
    case True
    then have x: "hd (ys @ [e]) = hd ys" "hd ys \<in> set (us @ q # ys)" by (auto simp: R_def joined_right_def)
    have "MEMITEM_SIZE (m1\<lparr>bring := r\<rparr>) (hd ys) = of_nat (payload r (hd ys))"
      using memitem_word [of st e "us @ q # ys" "m1\<lparr>bring := r\<rparr>" "hd ys"] b x(2) assms(5) by simp
    moreover have "payload r' q = payload r q + 24 + payload r (hd ys)"
      using shrink_rest [OF b True [unfolded R_def]] L True by (simp add: r'_def freed_ring_def left_ring_def R_def)
    ultimately show ?thesis using True fr(2) L unfolding r'_def [symmetric] by (simp add: mq x(1) R_def)
  next
    case False
    then have "r' = r" using L by (simp add: r'_def freed_ring_def left_ring_def R_def)
    then show ?thesis using False fr(2) L mq unfolding r'_def [symmetric] by (simp add: R_def)
  qed
qed

lemma shrink_block_result:
  assumes ok: "memheap_ok n (xs @ a # ys) fl h m" and used: "a \<notin> set fl"
    and new: "12 \<le> unat new" "unat new + 36 < payload (bring m) a" and q: "q = a + 24 + unat new"
  defines "r' \<equiv> freed_ring q (xs @ [a]) ys (set fl) (block_split a q (bring m))"
  shows "shrink_block n a new h m =
    (h\<lparr>available_size := of_nat (free_sum r' (set (freed_list q (xs @ [a]) ys fl)))\<rparr>,
     (new_item n q m)\<lparr>bring := r', fring := free_insert (free_list h) q
        (if joined_right ys (set fl) then free_remove (hd ys) (fring m) else fring m)\<rparr>)"
proof -
  let ?e = "heap_end h" and ?F = "set fl" and ?us = "xs @ [a]" and ?R = "joined_right ys (set fl)"
  note ge = shrink_geometry [OF ok used new q]
  have tg: "tags_ok n ?e (xs @ a # ys) ?F m" and fd: "distinct fl" and ar: "heap_area h"
    and av: "unat (available_size h) = free_sum (bring m) ?F" using ok by (simp_all add: memheap_ok_def frees_ok_def)
  have L: "\<not> joined_left ?us ?F" using used by (simp add: joined_left_def)
  have r': "r' = (if ?R then block_join q (block_split a q (bring m)) else block_split a q (bring m))"
    using L by (simp add: r'_def freed_ring_def left_ring_def)
  have "hd (ys @ [?e]) \<noteq> q" using ge(4,5) by (cases ys) auto
  then have "RT_MEMHEAP_IS_USED (new_item n q m) (hd (ys @ [?e])) = RT_MEMHEAP_IS_USED m (hd (ys @ [?e]))"
    by (simp add: new_item_def set_magic_def RT_MEMHEAP_IS_USED_def)
  then have us: "RT_MEMHEAP_IS_USED (new_item n q m) (hd (ys @ [?e])) \<longleftrightarrow> \<not> ?R"
    using tags_used [OF tg] by (cases ys) (auto simp: joined_right_def)
  have hd: "?R \<Longrightarrow> hd (ys @ [?e]) = hd ys" by (auto simp: joined_right_def)
  have qe: "q = a + unat new + unat RT_MEMHEAP_SIZE" using q by simp
  have "available_size h = of_nat (free_sum (block_split a q (bring m)) ?F)"
    using arg_cong [OF av, of "of_nat :: nat \<Rightarrow> u32"] ge(8) by simp
  then show ?thesis
    using shrink_block_eval [OF refl qe refl ge(3) [symmetric] us r', of h] hd
      shrink_counter [OF ge(1) L ge(7) fd, of "new_item n q m"] heap_area_end [OF ar]
    by (simp add: r'_def [symmetric] cong: if_cong)
qed

lemma shrink_block_ok:
  assumes ok: "memheap_ok n (xs @ a # ys) fl h m" and used: "a \<notin> set fl"
    and new: "12 \<le> unat new" "unat new + 36 < payload (bring m) a" and q: "q = a + 24 + unat new"
    and mult: "4 dvd unat new"
  shows "\<exists>h' m'. shrink_block n a new h m = (h', m') \<and> same_heap h h' \<and>
     memheap_ok n (freed_blocks q (xs @ [a]) ys (set fl)) (freed_list q (xs @ [a]) ys fl) h' m' \<and>
     bring m' = freed_ring q (xs @ [a]) ys (set fl) (block_split a q (bring m))"
proof -
  let ?e = "heap_end h" and ?F = "set fl" and ?us = "xs @ [a]"
  let ?bs' = "freed_blocks q ?us ys ?F" and ?fl' = "freed_list q ?us ys fl"
  let ?r = "block_split a q (bring m)"
  let ?r' = "freed_ring q ?us ys ?F ?r"
  note ge = shrink_geometry [OF ok used new q] and res = shrink_block_result [OF ok used new q]
  have tg: "tags_ok n ?e (xs @ a # ys) ?F m" and fo: "frees_ok (free_list h) (xs @ a # ys) fl (fring m)"
    and co: "coalesced ?F (xs @ a # ys)" and wm: "watermark h" and fd: "distinct fl"
    and av: "unat (available_size h) = free_sum (bring m) ?F"
    using ok by (simp_all add: memheap_ok_def frees_ok_def)
  note fr = freed_ring_ok [OF ge(1,7) fd] and dt = blocks_distinct [OF ge(1)]
  define h' where "h' = fst (shrink_block n a new h m)"
  define m' where "m' = snd (shrink_block n a new h m)"
  have h': "same_heap h h'" "max_used_size h' = max_used_size h" "available_size h' = of_nat (free_sum ?r' (set ?fl'))"
    by (simp_all add: h'_def res)
  have m': "bring m' = ?r'" "magic m' = (magic m)(q := RT_MEMHEAP_MAGIC OR RT_MEMHEAP_FREED)" "pool_ptr m' = (pool_ptr m)(q := n)"
    by (simp_all add: m'_def res new_item_def set_magic_def)
  have fo1: "frees_ok (free_list h) (?us @ q # ys) fl (fring m)" using fo by (auto simp: frees_ok_def)
  have fo': "frees_ok (free_list h) ?bs' ?fl' (fring m')"
    using freed_frees_ok [OF fo1 ge(7)] ge(6) dt used by (simp add: m'_def res joined_left_def Let_def)
  have "memheap_ok n ?bs' ?fl' h' m'"
  proof (rule memheap_ok_update [OF ok h'(1) _ _ fo' _ h'(3) [folded m'(1)]])
    show b': "blocks_ok (start_addr h) ?e ?bs' (bring m')" using fr(1) m'(1) by simp
    have "tags_ok n ?e (?us @ q # ys) ?F (m\<lparr>magic := (magic m)(q := RT_MEMHEAP_MAGIC OR RT_MEMHEAP_USED), pool_ptr := (pool_ptr m)(q := n)\<rparr>)"
      using tg ge(4,5,7) by (auto simp: tags_ok_def)
    then show "tags_ok n ?e ?bs' (set ?fl') m'" by (rule freed_tags [OF _ ge(7) dt fd]) (simp_all add: m')
    have "coalesced ?F (?us @ q # ys)" using co ge(7) by (auto simp: successively_append_iff successively_Cons)
    then show "coalesced (set ?fl') ?bs'" by (rule freed_coalesced [OF _ ge(7) _ fd]) (use dt in simp)
    have "free_sum ?r' (set ?fl') + 24 \<le> unat (pool_size h)"
      using fo' m'(1) by (intro memheap_ok_bounds(2) [OF ok fr(1)]) (simp add: frees_ok_def)
    then have "unat (available_size h') = free_sum ?r' (set ?fl')"
      using h'(3) unsigned_less [of "pool_size h", where ?'a = nat] by (simp add: unat_u32_of_nat)
    then have "available_size h \<le> available_size h'" using fr(2) av ge(8) unfolding word_le_nat_alt by simp
    then show "watermark h'" by (rule watermark_more [OF wm h'(1,2)])
    show "\<forall>b\<in>set ?bs'. 4 dvd b"
      using ok q mult freed_blocks_subset [of q ?us ys ?F] by (auto simp: memheap_ok_def)
  qed
  moreover have "shrink_block n a new h m = (h', m')" by (simp add: h'_def m'_def)
  ultimately show ?thesis using h'(1) m'(1) by blast
qed

end
