(* ===== verification/Allocator.thy ===== *)
theory Allocator
  imports Kernel_Prelude
begin

text \<open>
  What a client of an allocator of memory relies on, as a locale: a request is answered with null or with a block that
  overlaps none of the blocks in use and has the room promised for the request; a block in use can be released, and
  then only it is released. From these laws alone, any sequence of requests and releases is answered, and the blocks a
  client holds never overlap. The heap of the system is such an allocator.
\<close>

definition block_bytes :: "nat \<times> nat \<Rightarrow> nat set" where
  "block_bytes b = {fst b ..< fst b + snd b}"

datatype request = Get u32 | Give nat

text \<open>A client: it asks for blocks, keeps the addresses it got, and gives back the one at a position.\<close>

fun serve :: "(u32 \<Rightarrow> 's \<Rightarrow> (nat \<times> 's) option) \<Rightarrow> (nat \<Rightarrow> 's \<Rightarrow> 's option) \<Rightarrow> request list \<Rightarrow> nat list \<Rightarrow> 's \<Rightarrow>
  (nat list \<times> 's) option" where
  "serve alloc free [] held s = Some (held, s)"
| "serve alloc free (Get sz # rs) held s = do {
     (p, s1) \<leftarrow> alloc sz s;
     serve alloc free rs (if p = 0 then held else p # held) s1
   }"
| "serve alloc free (Give i # rs) held s =
     (if i < length held then do {
        s1 \<leftarrow> free (held ! i) s;
        serve alloc free rs (take i held @ drop (Suc i) held) s1
      }
      else serve alloc free rs held s)"

locale allocator =
  fixes ok :: "'s \<Rightarrow> bool"
    and live :: "'s \<Rightarrow> (nat \<times> nat) set"
    and area :: "'s \<Rightarrow> nat set"
    and room :: "u32 \<Rightarrow> nat"
    and alloc :: "u32 \<Rightarrow> 's \<Rightarrow> (nat \<times> 's) option"
    and free :: "nat \<Rightarrow> 's \<Rightarrow> 's option"
  assumes alloc_total: "ok s \<Longrightarrow> \<exists>p s'. alloc sz s = Some (p, s')"
    and alloc_ok: "ok s \<Longrightarrow> alloc sz s = Some (p, s') \<Longrightarrow> ok s' \<and> area s' = area s"
    and alloc_fail: "ok s \<Longrightarrow> alloc sz s = Some (0, s') \<Longrightarrow> s' = s"
    and alloc_live: "ok s \<Longrightarrow> alloc sz s = Some (p, s') \<Longrightarrow> p \<noteq> 0 \<Longrightarrow>
      \<exists>l \<ge> room sz. live s' = insert (p, l) (live s) \<and> block_bytes (p, l) \<subseteq> area s \<and>
        (\<forall>b\<in>live s. block_bytes (p, l) \<inter> block_bytes b = {})"
    and free_live: "ok s \<Longrightarrow> (p, l) \<in> live s \<Longrightarrow>
      \<exists>s'. free p s = Some s' \<and> ok s' \<and> area s' = area s \<and> live s' = live s - {(p, l)}"
    and live_pos: "ok s \<Longrightarrow> (p, l) \<in> live s \<Longrightarrow> 0 < l"
begin

lemma disjoint_apart:
  assumes "ok s" "b \<in> live s" "block_bytes (p, l) \<inter> block_bytes b = {}" "0 < l"
  shows "fst b \<noteq> p"
proof
  assume "fst b = p"
  moreover have "0 < snd b" using live_pos [of s "fst b" "snd b"] assms(1,2) by simp
  ultimately have "p \<in> block_bytes (p, l) \<inter> block_bytes b" using assms(4) by (auto simp: block_bytes_def)
  then show False using assms(3) by auto
qed

text \<open>The blocks in use are those of the addresses the client holds, they lie in the area, and no two overlap.\<close>

lemma get_keeps:
  assumes "ok s" "fst ` live s = set held" "inj_on fst (live s)" "distinct held"
    "pairwise (\<lambda>b c. block_bytes b \<inter> block_bytes c = {}) (live s)" "\<forall>b\<in>live s. block_bytes b \<subseteq> area s"
    "alloc sz s = Some (p, s')" "p \<noteq> 0" "0 < room sz"
  shows "fst ` live s' = set (p # held)" "inj_on fst (live s')" "distinct (p # held)"
    "pairwise (\<lambda>b c. block_bytes b \<inter> block_bytes c = {}) (live s')" "\<forall>b\<in>live s'. block_bytes b \<subseteq> area s"
proof -
  obtain l where l: "room sz \<le> l" "live s' = insert (p, l) (live s)" "block_bytes (p, l) \<subseteq> area s"
    "\<forall>b\<in>live s. block_bytes (p, l) \<inter> block_bytes b = {}" using alloc_live [OF assms(1,7,8)] by blast
  have new: "p \<notin> fst ` live s"
    using disjoint_apart [OF assms(1), of _ p l] l(1,4) assms(9) by auto
  then show "fst ` live s' = set (p # held)" "distinct (p # held)" using l(2) assms(2,4) by auto
  show "inj_on fst (live s')" using l(2) assms(3) new by (simp add: inj_on_insert) blast
  show "pairwise (\<lambda>b c. block_bytes b \<inter> block_bytes c = {}) (live s')"
    using l(2,4) assms(5) by (auto simp: pairwise_insert Int_commute)
  show "\<forall>b\<in>live s'. block_bytes b \<subseteq> area s" using l(2,3) assms(6) by simp
qed

lemma give_keeps:
  assumes "ok s" "fst ` live s = set held" "inj_on fst (live s)" "distinct held" "i < length held"
  shows "\<exists>s' l. (held ! i, l) \<in> live s \<and> free (held ! i) s = Some s' \<and> ok s' \<and> area s' = area s \<and>
    live s' = live s - {(held ! i, l)} \<and> fst ` live s' = set (take i held @ drop (Suc i) held) \<and>
    distinct (take i held @ drop (Suc i) held)"
proof -
  have "held ! i \<in> fst ` live s" using assms(2,5) by simp
  then obtain l where l: "(held ! i, l) \<in> live s" by force
  obtain s' where s': "free (held ! i) s = Some s'" "ok s'" "area s' = area s" "live s' = live s - {(held ! i, l)}"
    using free_live [OF assms(1) l] by blast
  have held: "held = take i held @ held ! i # drop (Suc i) held" using assms(5) by (rule id_take_nth_drop)
  then have d: "distinct (take i held @ held ! i # drop (Suc i) held)" using assms(4) by metis
  have "set held = insert (held ! i) (set (take i held @ drop (Suc i) held))" by (subst held) auto
  then have rest: "set (take i held @ drop (Suc i) held) = set held - {held ! i}" using d by auto
  have "fst ` (live s - {(held ! i, l)}) = fst ` live s - {held ! i}"
    using inj_on_image_set_diff [OF assms(3), of "live s" "{(held ! i, l)}"] l by auto
  then have "fst ` live s' = set (take i held @ drop (Suc i) held)" using s'(4) assms(2) rest by simp
  then show ?thesis using l s' d by auto
qed

theorem serve_apart:
  assumes "ok s" "fst ` live s = set held" "inj_on fst (live s)" "distinct held"
    "pairwise (\<lambda>b c. block_bytes b \<inter> block_bytes c = {}) (live s)" "\<forall>b\<in>live s. block_bytes b \<subseteq> area s" "\<And>sz. 0 < room sz"
  shows "\<exists>held' s'. serve alloc free rs held s = Some (held', s') \<and> ok s' \<and> area s' = area s \<and>
    fst ` live s' = set held' \<and> distinct held' \<and> inj_on fst (live s') \<and>
    pairwise (\<lambda>b c. block_bytes b \<inter> block_bytes c = {}) (live s') \<and> (\<forall>b\<in>live s'. block_bytes b \<subseteq> area s)"
  using assms(1-6)
proof (induction rs arbitrary: held s)
  case Nil
  then show ?case by simp
next
  case (Cons r rs)
  show ?case
  proof (cases r)
    case (Get sz)
    obtain p s1 where s1: "alloc sz s = Some (p, s1)" using alloc_total [OF Cons.prems(1)] by blast
    have ok1: "ok s1" "area s1 = area s" using alloc_ok [OF Cons.prems(1) s1] by auto
    show ?thesis
    proof (cases "p = 0")
      case True
      then have "s1 = s" using alloc_fail [OF Cons.prems(1)] s1 by simp
      then show ?thesis using Cons.IH [OF Cons.prems] Get s1 True by simp
    next
      case False
      note k = get_keeps [OF Cons.prems s1 False assms(7)]
      show ?thesis using Cons.IH [OF ok1(1) k(1,2,3,4)] k(5) ok1(2) Get s1 False by simp
    qed
  next
    case (Give i)
    show ?thesis
    proof (cases "i < length held")
      case True
      obtain s1 l where s1: "(held ! i, l) \<in> live s" "free (held ! i) s = Some s1" "ok s1" "area s1 = area s"
        "live s1 = live s - {(held ! i, l)}" "fst ` live s1 = set (take i held @ drop (Suc i) held)"
        "distinct (take i held @ drop (Suc i) held)" using give_keeps [OF Cons.prems(1-4) True] by blast
      have "inj_on fst (live s1)" "pairwise (\<lambda>b c. block_bytes b \<inter> block_bytes c = {}) (live s1)"
        "\<forall>b\<in>live s1. block_bytes b \<subseteq> area s1"
        using Cons.prems(3,5,6) s1(4,5) by (auto simp: inj_on_def pairwise_def)
      then show ?thesis using Cons.IH [OF s1(3,6) _ s1(7)] Give True s1(2,4) by simp
    next
      case False
      then show ?thesis using Cons.IH [OF Cons.prems] Give by simp
    qed
  qed
qed

end

end
