(* ===== verification/Memheap_Spec.thy ===== *)
theory Memheap_Spec
  imports Memheap Heap_Resize Allocator
begin

text \<open>
  The operations of the memory heap when no other thread holds its lock: what each returns and leaves, in terms of the
  lists of blocks. With these facts the heap is an allocator in the sense of \<^verbatim>\<open>Allocator\<close>.
\<close>

section \<open>The blocks of a heap\<close>

text \<open>Walking the ring of blocks from the first one; an area of \<open>k\<close> bytes has no more than \<open>k\<close> blocks.\<close>

primrec heap_walk :: "nat \<Rightarrow> nat ring \<Rightarrow> nat \<Rightarrow> nat \<Rightarrow> nat list" where
  "heap_walk e r 0 a = []"
| "heap_walk e r (Suc k) a = (if a = e then [] else a # heap_walk e r k (next_of r a))"

definition heap_blocks :: "nat \<Rightarrow> 'a heap_state_scheme \<Rightarrow> nat list" where
  "heap_blocks n s =
     (let h = heaps s n in heap_walk (heap_end h) (bring (hmem s)) (unat (pool_size h)) (start_addr h))"

definition heap_live :: "nat \<Rightarrow> 'a heap_state_scheme \<Rightarrow> (nat \<times> nat) set" where
  "heap_live n s =
     (\<lambda>a. (a + 24, payload (bring (hmem s)) a)) ` {a \<in> set (heap_blocks n s). RT_MEMHEAP_IS_USED (hmem s) a}"

definition heap_range :: "nat \<Rightarrow> 'a heap_state_scheme \<Rightarrow> nat set" where
  "heap_range n s = {start_addr (heaps s n) ..< start_addr (heaps s n) + unat (pool_size (heaps s n))}"

lemma heap_walk_chain:
  assumes "chain r b bs e" "e \<notin> set bs" "length bs < k"
  shows "heap_walk e r k (hd (bs @ [e])) = bs"
  using assms
proof (induction bs arbitrary: b k)
  case Nil
  then show ?case by (cases k) auto
next
  case (Cons a bs)
  then obtain j where k: "k = Suc j" "length bs < j" by (cases k) auto
  have "chain r a bs e" using Cons.prems(1) by simp
  then show ?case using Cons.IH [of a j] Cons.prems k chain_hd [of r a bs e] by simp
qed

lemma spaced_length: "spaced (bs @ [e]) \<Longrightarrow> bs \<noteq> [] \<Longrightarrow> hd bs + 36 * length bs \<le> e"
proof (induction bs)
  case (Cons a bs)
  then show ?case by (cases bs) auto
qed simp

lemma memheap_ok_blocks:
  assumes "memheap_ok n bs fl (heaps s n) (hmem s)"
  shows "heap_blocks n s = bs"
    "heap_live n s = (\<lambda>a. (a + 24, payload (bring (hmem s)) a)) ` (set bs - set fl)"
proof -
  let ?h = "heaps s n"
  have bl: "blocks_ok (start_addr ?h) (heap_end ?h) bs (bring (hmem s))" and ar: "heap_area ?h"
    and tg: "tags_ok n (heap_end ?h) bs (set fl) (hmem s)" using assms by (simp_all add: memheap_ok_def)
  have "start_addr ?h + 36 * length bs \<le> heap_end ?h"
    using bl spaced_length [of bs "heap_end ?h"] by (auto simp: blocks_ok_def)
  then have "length bs < unat (pool_size ?h)" using heap_area_end [OF ar] bl by (cases bs) (auto simp: blocks_ok_def)
  moreover have "chain (bring (hmem s)) (heap_end ?h) bs (heap_end ?h)" "hd (bs @ [heap_end ?h]) = start_addr ?h"
    using bl by (auto simp: blocks_ok_def)
  ultimately show eq: "heap_blocks n s = bs"
    using heap_walk_chain [of "bring (hmem s)" "heap_end ?h" bs "heap_end ?h" "unat (pool_size ?h)"] blocks_distinct [OF bl]
    by (simp add: heap_blocks_def Let_def)
  have "{a \<in> set bs. RT_MEMHEAP_IS_USED (hmem s) a} = set bs - set fl" using tags_used(1) [OF tg] by blast
  then show "heap_live n s = (\<lambda>a. (a + 24, payload (bring (hmem s)) a)) ` (set bs - set fl)"
    by (simp add: heap_live_def eq)
qed

section \<open>The lock\<close>

definition heap_ready :: "nat \<Rightarrow> 'a heap_state_scheme \<Rightarrow> bool" where
  "heap_ready n s \<longleftrightarrow> rt_object_get_type (Kobj n) s = RT_Object_Class_MemHeap \<and>
     rt_object_get_type (Kobj (lock (heaps s n))) s = RT_Object_Class_Semaphore \<and>
     0 < sems s (lock (heaps s n)) \<and> klists s (Susp (lock (heaps s n))) = []"

lemma put_heap_sel [simp]:
  "heaps (put_heap n hm s) = (heaps s)(n := fst hm)" "hmem (put_heap n hm s) = snd hm" "hbytes (put_heap n hm s) = hbytes s"
  "containers (put_heap n hm s) = containers s" "objects (put_heap n hm s) = objects s" "klists (put_heap n hm s) = klists s" "sems (put_heap n hm s) = sems s"
  by (simp_all add: put_heap_def)

lemma heap_ready_put: "heap_ready n (put_heap n (h, m) s) \<longleftrightarrow> heap_ready n s" if "lock h = lock (heaps s n)"
  using that by (simp add: heap_ready_def rt_object_get_type_def)

lemma heap_locked:
  assumes "heap_ready n s"
  shows "heap_lock n s = Some (Done RT_EOK (sem_set (lock (heaps s n)) (sems s (lock (heaps s n)) - 1) s))"
  using assms by (simp add: heap_ready_def heap_lock_def rt_sem_take_def)

lemma heap_sem_set [simp]:
  "heaps (sem_set k v s) = heaps s" "hmem (sem_set k v s) = hmem s" "hbytes (sem_set k v s) = hbytes s"
  by (simp_all add: sem_set_def)

text \<open>Work done under the lock leaves the lock as it was.\<close>

lemma heap_unlocked:
  assumes "heap_ready n s" "lock h' = lock (heaps s n)"
  shows "heap_unlock n (put_heap n (h', m') (sem_set (lock (heaps s n)) (sems s (lock (heaps s n)) - 1) s)) =
    Some (put_heap n (h', m') s)"
proof -
  let ?l = "lock (heaps s n)"
  have "sems s ?l \<noteq> 0" using assms(1) by (auto simp: heap_ready_def)
  then have "unat (sems s ?l - 1) = unat (sems s ?l) - 1" by (rule unat_minus_one)
  moreover have "unat (sems s ?l) < 65536" using unsigned_less [of "sems s ?l", where ?'a = nat] by simp
  ultimately have v: "sems s ?l - 1 < RT_SEM_VALUE_MAX" by (simp add: word_less_nat_alt RT_SEM_VALUE_MAX_def)
  show ?thesis using assms v
    by (simp add: heap_unlock_def rt_sem_release_def heap_ready_def rt_object_get_type_def sem_set_def put_heap_def)
qed

section \<open>Allocating and releasing\<close>

lemma heap_size_bounds: "12 \<le> heap_size sz" "0 < heap_size sz" "12 \<le> unat (heap_size sz)" "4 dvd unat (heap_size sz)"
proof -
  show le: "12 \<le> heap_size sz" by (auto simp: heap_size_def Let_def RT_MEMHEAP_MINIALLOC_def not_less)
  then show "12 \<le> unat (heap_size sz)" by (simp add: word_le_nat_alt)
  then show "0 < heap_size sz" by (simp add: word_less_nat_alt)
  show "4 dvd unat (heap_size sz)"
    using align4_dvd [of sz] by (simp add: heap_size_def Let_def RT_MEMHEAP_MINIALLOC_def)
qed

text \<open>The lists after a block was allocated: it is taken whole or split.\<close>

definition alloc_lists :: "u32 \<Rightarrow> nat \<Rightarrow> u32 \<Rightarrow> nat list \<Rightarrow> nat list \<Rightarrow> nat list \<Rightarrow> nat list \<times> nat list" where
  "alloc_lists sz a len xs ys fl =
     (if sz + 36 \<le> len then (xs @ a # (a + 24 + unat sz) # ys, (a + 24 + unat sz) # remove1 a fl)
      else (xs @ a # ys, remove1 a fl))"

lemma alloc_block_ok:
  assumes "memheap_ok n (xs @ a # ys) fl h m" "12 \<le> sz" "first_fit sz m fl = Some a" "4 dvd unat sz"
  shows "\<exists>h' m'. alloc_block n sz h m = Some (a + 24, h', m') \<and> same_heap h h' \<and>
    memheap_ok n (fst (alloc_lists sz a (MEMITEM_SIZE m a) xs ys fl)) (snd (alloc_lists sz a (MEMITEM_SIZE m a) xs ys fl)) h' m' \<and>
    (\<forall>b\<in>set xs \<union> set ys. next_of (bring m') b = next_of (bring m) b) \<and> unat sz \<le> payload (bring m') a"
proof (cases "sz + 36 \<le> MEMITEM_SIZE m a")
  case True
  obtain h' m' where r: "alloc_block n sz h m = Some (a + 24, h', m')" "same_heap h h'"
    "memheap_ok n (xs @ a # (a + 24 + unat sz) # ys) ((a + 24 + unat sz) # remove1 a fl) h' m'"
    "next_of (bring m') = (next_of (bring m))(a := a + 24 + unat sz, a + 24 + unat sz := next_of (bring m) a)"
    using alloc_part [OF assms(1,2,3) True refl assms(4)] by blast
  have "distinct (xs @ a # (a + 24 + unat sz) # ys)" by (rule memheap_ok_distinct(1) [OF r(3)])
  then show ?thesis using r True by (intro exI [of _ h'] exI [of _ m']) (auto simp: alloc_lists_def payload_def)
next
  case False
  have "0 < sz" using assms(2) by (auto simp: word_le_nat_alt word_less_nat_alt)
  then obtain h' m' where r: "alloc_block n sz h m = Some (a + 24, h', m')" "same_heap h h'"
    "memheap_ok n (xs @ a # ys) (remove1 a fl) h' m'" "bring m' = bring m"
    using alloc_whole [OF assms(1) _ assms(3) False] by blast
  have "unat sz \<le> payload (bring m) a"
    using first_fit_SomeD [OF assms(3)] memheap_ok_block(1) [OF assms(1), of a] by (simp add: word_le_nat_alt)
  then show ?thesis using r False by (auto simp: alloc_lists_def)
qed

lemma rt_memheap_alloc_ready:
  assumes "heap_ready n s" "heap_size sz < available_size (heaps s n)"
    "alloc_block n (heap_size sz) (heaps s n) (hmem s) = Some (p, h', m')" "lock h' = lock (heaps s n)"
  shows "rt_memheap_alloc n sz s = Some (Done p (put_heap n (h', m') s))"
  using assms heap_locked [OF assms(1)] heap_unlocked [OF assms(1,4)]
  by (simp add: rt_memheap_alloc_def heap_ready_def)

lemma rt_memheap_alloc_none:
  assumes "heap_ready n s" "memheap_ok n bs fl (heaps s n) (hmem s)"
    "available_size (heaps s n) \<le> heap_size sz \<or> first_fit (heap_size sz) (hmem s) fl = None"
  shows "rt_memheap_alloc n sz s = Some (Done 0 s)"
proof (cases "heap_size sz < available_size (heaps s n)")
  case True
  then have "first_fit (heap_size sz) (hmem s) fl = None" using assms(3) by auto
  then have "rt_memheap_alloc n sz s = Some (Done 0 (put_heap n (heaps s n, hmem s) s))"
    by (intro rt_memheap_alloc_ready [OF assms(1) True] alloc_block_none [OF assms(2) heap_size_bounds(2)]) simp_all
  then show ?thesis by (simp add: put_heap_def)
next
  case False
  then show ?thesis using assms(1) by (simp add: rt_memheap_alloc_def heap_ready_def)
qed

lemma rt_memheap_free_ready:
  assumes "heap_ready n s" "memheap_ok n (xs @ a # ys) fl (heaps s n) (hmem s)" "a \<notin> set fl"
    "free_block a (heaps s n) (hmem s) = (h', m')" "lock h' = lock (heaps s n)"
  shows "rt_memheap_free (a + 24) s = Some (Done () (put_heap n (h', m') s))"
proof -
  let ?e = "heap_end (heaps s n)" and ?m = "hmem s"
  have tg: "tags_ok n ?e (xs @ a # ys) (set fl) ?m" and bl: "blocks_ok (start_addr (heaps s n)) ?e (xs @ a # ys) (bring ?m)"
    using assms(2) by (simp_all add: memheap_ok_def)
  have a: "magic ?m a = RT_MEMHEAP_MAGIC OR RT_MEMHEAP_USED" "pool_ptr ?m a = n" using tg assms(3) by (auto simp: tags_ok_def)
  have "next_of (bring ?m) a \<in> set (ys @ [?e])" using block_next(1) [OF bl] by (cases ys) auto
  then have nx: "magic ?m (next_of (bring ?m) a) AND RT_MEMHEAP_MASK = RT_MEMHEAP_MAGIC"
    using tg by (auto simp: tags_ok_def magic_defs)
  show ?thesis
    using assms(1,4) a nx heap_locked [OF assms(1)] heap_unlocked [OF assms(1,5), of m']
    by (simp add: rt_memheap_free_def heap_ready_def)
qed

section \<open>The heap as an allocator\<close>

lemma blocks_apart:
  assumes bl: "blocks_ok st e bs r" and "b \<in> set bs" "c \<in> set bs" "b \<noteq> c"
  shows "block_bytes (b + 24, payload r b) \<inter> block_bytes (c + 24, payload r c) = {}"
proof -
  have le: "next_of r x \<le> y" if x: "x \<in> set bs" and y: "y \<in> set bs" and lt: "x < y" for x y
  proof -
    obtain us vs where bs: "bs = us @ x # vs" using x by (meson split_list)
    have sp: "spaced (us @ x # vs @ [e])" using bl bs by (simp add: blocks_ok_def)
    have "y \<notin> set us" using sp lt by (auto simp: sorted_wrt_append)
    then have "y \<in> set vs" using y bs lt by auto
    then have "hd (vs @ [e]) \<le> y" using sp by (cases vs) (auto simp: sorted_wrt_append)
    then show ?thesis using block_next(1) [of st e us x vs r] bl bs by simp
  qed
  have "next_of r b \<le> c \<or> next_of r c \<le> b" using le assms(2-4) by (meson nat_neq_iff)
  moreover have "b + 24 + payload r b = next_of r b" "c + 24 + payload r c = next_of r c"
    using block_next_range(1) [OF bl assms(2)] block_next_range(1) [OF bl assms(3)] by (simp_all add: payload_def)
  ultimately show ?thesis by (auto simp: block_bytes_def)
qed

lemma alloc_lists_used:
  assumes "memheap_ok n (xs @ a # ys) fl h m" "a \<in> set fl"
    "memheap_ok n (fst (alloc_lists sz a len xs ys fl)) (snd (alloc_lists sz a len xs ys fl)) h' m'"
  shows "set (fst (alloc_lists sz a len xs ys fl)) - set (snd (alloc_lists sz a len xs ys fl)) = insert a (set (xs @ a # ys) - set fl)"
proof -
  have d: "distinct fl" "distinct (xs @ a # ys)" "distinct (fst (alloc_lists sz a len xs ys fl))"
    using memheap_ok_distinct [OF assms(1)] memheap_ok_distinct(1) [OF assms(3)] by simp_all
  then show ?thesis by (auto simp: alloc_lists_def split: if_splits)
qed

lemma rt_memheap_alloc_spec:
  assumes rd: "heap_ready n s" and ok: "memheap_ok n bs fl (heaps s n) (hmem s)" and av: "heap_size sz < available_size (heaps s n)"
    and fit: "first_fit (heap_size sz) (hmem s) fl = Some a"
  shows "\<exists>xs ys s' l. bs = xs @ a # ys \<and> rt_memheap_alloc n sz s = Some (Done (a + 24) s') \<and> heap_ready n s' \<and>
    memheap_ok n (fst (alloc_lists (heap_size sz) a (MEMITEM_SIZE (hmem s) a) xs ys fl))
      (snd (alloc_lists (heap_size sz) a (MEMITEM_SIZE (hmem s) a) xs ys fl)) (heaps s' n) (hmem s') \<and>
    hbytes s' = hbytes s \<and> containers s' = containers s \<and> heap_range n s' = heap_range n s \<and> unat (heap_size sz) \<le> l \<and>
    (a + 24, l) \<notin> heap_live n s \<and> heap_live n s' = insert (a + 24, l) (heap_live n s) \<and> block_bytes (a + 24, l) \<subseteq> heap_range n s \<and>
    (\<forall>b\<in>heap_live n s. block_bytes (a + 24, l) \<inter> block_bytes b = {})"
proof -
  let ?m = "hmem s" and ?h = "heaps s n"
  have fl: "a \<in> set fl" using first_fit_SomeD [OF fit] by simp
  then have "a \<in> set bs" using ok by (auto simp: memheap_ok_def frees_ok_def)
  then obtain xs ys where bs: "bs = xs @ a # ys" by (meson split_list)
  let ?L = "alloc_lists (heap_size sz) a (MEMITEM_SIZE ?m a) xs ys fl"
  obtain h' m' where r: "alloc_block n (heap_size sz) ?h ?m = Some (a + 24, h', m')" "same_heap ?h h'"
    "memheap_ok n (fst ?L) (snd ?L) h' m'" "\<forall>b\<in>set xs \<union> set ys. next_of (bring m') b = next_of (bring ?m) b"
    "unat (heap_size sz) \<le> payload (bring m') a"
    using alloc_block_ok [OF ok [unfolded bs] heap_size_bounds(1) fit heap_size_bounds(4)] by blast
  note sh = same_heap_area [OF r(2)] and ua = alloc_lists_used [OF ok [unfolded bs] fl r(3)]
  define s' where "s' = put_heap n (h', m') s"
  have run: "rt_memheap_alloc n sz s = Some (Done (a + 24) s')"
    unfolding s'_def by (rule rt_memheap_alloc_ready [OF rd av r(1) sh(6)])
  have ok': "memheap_ok n (fst ?L) (snd ?L) (heaps s' n) (hmem s')" using r(3) by (simp add: s'_def)
  have pl: "payload (bring m') b = payload (bring ?m) b" if "b \<in> set bs - set fl" for b
    using that r(4) bs fl by (auto simp: payload_def)
  then have im: "(\<lambda>b. (b + 24, payload (bring m') b)) ` (set bs - set fl) = (\<lambda>b. (b + 24, payload (bring ?m) b)) ` (set bs - set fl)"
    by (intro image_cong) simp_all
  have live: "heap_live n s' = insert (a + 24, payload (bring m') a) (heap_live n s)"
    using memheap_ok_blocks(2) [OF ok'] memheap_ok_blocks(2) [OF ok] ua bs im by (simp add: s'_def)
  have bl: "blocks_ok (start_addr ?h) (heap_end ?h) (fst ?L) (bring m')" using r(3) sh by (simp add: memheap_ok_def)
  have a': "a \<in> set (fst ?L)" "set bs - set fl \<subseteq> set (fst ?L)" using ua bs by auto
  have "block_bytes (a + 24, payload (bring m') a) \<inter> block_bytes b = {}" if b: "b \<in> heap_live n s" for b
  proof -
    obtain c where c: "b = (c + 24, payload (bring m') c)" "c \<in> set bs - set fl"
      using b pl unfolding memheap_ok_blocks(2) [OF ok] by auto
    then show ?thesis using blocks_apart [OF bl a'(1), of c] a'(2) fl by auto
  qed
  moreover have "block_bytes (a + 24, payload (bring m') a) \<subseteq> heap_range n s"
    using memheap_ok_block(2,4,5) [OF r(3) a'(1)] heap_area_end [of h'] r(3) sh
    by (auto simp: block_bytes_def heap_range_def memheap_ok_def)
  moreover have "(a + 24, payload (bring m') a) \<notin> heap_live n s"
    using fl unfolding memheap_ok_blocks(2) [OF ok] by auto
  moreover have "heap_ready n s'" using rd heap_ready_put [of h' s n m'] sh(6) by (simp add: s'_def)
  moreover have "heap_range n s' = heap_range n s" using sh by (simp add: s'_def heap_range_def)
  ultimately show ?thesis using bs run ok' live r(5) by (intro exI [of _ xs] exI [of _ ys] exI [of _ s'] exI) (auto simp: s'_def)
qed

lemma freed_used:
  assumes "a \<notin> set fl" "distinct (xs @ a # ys)" "distinct fl"
  shows "set (freed_blocks a xs ys (set fl)) - set (freed_list a xs ys fl) = set (xs @ a # ys) - set fl - {a}"
  unfolding freed_list_set [OF assms(3)] using assms
  by (cases ys) (auto simp: freed_blocks_def)

lemma freed_ring_next:
  assumes "blocks_ok st e (xs @ a # ys) r" "b \<notin> F" "b \<noteq> a"
  shows "next_of (freed_ring a xs ys F r) b = next_of r b"
proof -
  have "joined_left xs F \<Longrightarrow> prev_of r a = last xs"
    using assms(1) blocks_dropped(5) [of st e xs a ys r] by (simp add: joined_left_def)
  moreover have "joined_left xs F \<Longrightarrow> b \<noteq> last xs" using assms(2) by (auto simp: joined_left_def)
  ultimately show ?thesis using assms(3) by (simp add: freed_ring_def left_ring_def)
qed

lemma rt_memheap_free_spec:
  assumes rd: "heap_ready n s" and ok: "memheap_ok n (xs @ a # ys) fl (heaps s n) (hmem s)" and used: "a \<notin> set fl"
  shows "\<exists>s'. rt_memheap_free (a + 24) s = Some (Done () s') \<and> heap_ready n s' \<and>
    memheap_ok n (freed_blocks a xs ys (set fl)) (freed_list a xs ys fl) (heaps s' n) (hmem s') \<and> hbytes s' = hbytes s \<and>
    heap_range n s' = heap_range n s \<and> heap_live n s' = heap_live n s - {(a + 24, payload (bring (hmem s)) a)}"
proof -
  let ?h = "heaps s n" and ?m = "hmem s" and ?bs' = "freed_blocks a xs ys (set fl)" and ?fl' = "freed_list a xs ys fl"
  obtain h' m' where r: "free_block a ?h ?m = (h', m')" "same_heap ?h h'" "memheap_ok n ?bs' ?fl' h' m'"
    "bring m' = freed_ring a xs ys (set fl) (bring ?m)" using free_block_ok [OF ok used] by blast
  note sh = same_heap_area [OF r(2)]
  define s' where "s' = put_heap n (h', m') s"
  have run: "rt_memheap_free (a + 24) s = Some (Done () s')"
    unfolding s'_def by (rule rt_memheap_free_ready [OF rd ok used r(1) sh(6)])
  have ok': "memheap_ok n ?bs' ?fl' (heaps s' n) (hmem s')" using r(3) by (simp add: s'_def)
  have bl: "blocks_ok (start_addr ?h) (heap_end ?h) (xs @ a # ys) (bring ?m)" and fd: "distinct fl"
    using ok by (simp_all add: memheap_ok_def frees_ok_def)
  have us: "set ?bs' - set ?fl' = set (xs @ a # ys) - set fl - {a}"
    by (rule freed_used [OF used _ fd]) (use blocks_distinct [OF bl] in simp)
  have "payload (bring m') b = payload (bring ?m) b" if "b \<in> set (xs @ a # ys) - set fl - {a}" for b
    using that freed_ring_next [OF bl, of b "set fl"] r(4) by (simp add: payload_def)
  then have "heap_live n s' = (\<lambda>b. (b + 24, payload (bring ?m) b)) ` (set (xs @ a # ys) - set fl - {a})"
    unfolding memheap_ok_blocks(2) [OF ok'] us by (intro image_cong) (simp_all add: s'_def)
  also have "\<dots> = heap_live n s - {(a + 24, payload (bring ?m) a)}"
    unfolding memheap_ok_blocks(2) [OF ok] by auto
  finally have live: "heap_live n s' = heap_live n s - {(a + 24, payload (bring ?m) a)}" .
  have "heap_ready n s'" using rd heap_ready_put [of h' s n m'] sh(6) by (simp add: s'_def)
  moreover have "heap_range n s' = heap_range n s" using sh by (simp add: s'_def heap_range_def)
  ultimately show ?thesis using run ok' live by (intro exI [of _ s']) (auto simp: s'_def)
qed

text \<open>What was split is joined again.\<close>

lemma alloc_free_lists:
  assumes ok: "memheap_ok n (xs @ a # ys) fl h m" and a: "a \<in> set fl"
    and ok': "memheap_ok n (fst (alloc_lists sz a len xs ys fl)) (snd (alloc_lists sz a len xs ys fl)) h' m'"
  defines "vs \<equiv> if sz + 36 \<le> len then (a + 24 + unat sz) # ys else ys" and "gl \<equiv> snd (alloc_lists sz a len xs ys fl)"
  shows "fst (alloc_lists sz a len xs ys fl) = xs @ a # vs" "a \<notin> set gl" "freed_blocks a xs vs (set gl) = xs @ a # ys"
    "set (freed_list a xs vs gl) = set fl"
proof -
  have d: "distinct fl" "distinct (xs @ a # vs)" "distinct gl"
    using memheap_ok_distinct(2) [OF ok] memheap_ok_distinct [OF ok'] unfolding vs_def gl_def
    by (simp_all add: alloc_lists_def split: if_splits)
  have co: "coalesced (set fl) (xs @ a # ys)" using ok by (simp add: memheap_ok_def)
  then have nb: "xs \<noteq> [] \<longrightarrow> last xs \<notin> set fl" "ys \<noteq> [] \<longrightarrow> hd ys \<notin> set fl"
    using a by (auto simp: successively_append_iff successively_Cons)
  show "fst (alloc_lists sz a len xs ys fl) = xs @ a # vs" by (simp add: alloc_lists_def vs_def)
  have gl: "set gl = set fl - {a} \<union> (if sz + 36 \<le> len then {a + 24 + unat sz} else {})"
    using d(1) by (auto simp: gl_def alloc_lists_def)
  show "a \<notin> set gl" by (simp add: gl)
  have L: "\<not> (xs \<noteq> [] \<and> last xs \<in> set gl)" using nb(1) d(2) by (auto simp: gl vs_def split: if_splits dest: last_in_set)
  have R: "(vs \<noteq> [] \<and> hd vs \<in> set gl) \<longleftrightarrow> sz + 36 \<le> len" using nb(2) by (auto simp: gl vs_def)
  show "freed_blocks a xs vs (set gl) = xs @ a # ys" unfolding freed_blocks_def using L R by (simp add: vs_def)
  have "sz + 36 \<le> len \<Longrightarrow> a + 24 + unat sz \<notin> set fl"
    using d(2) memheap_ok_free_in [OF ok] by (force simp: vs_def)
  then show "set (freed_list a xs vs gl) = set fl"
    using L R a by (auto simp: freed_list_set [OF d(3)] gl vs_def)
qed

lemma same_blocks_same_sum:
  assumes "blocks_ok st e bs r" "blocks_ok st e bs r'" "F \<subseteq> set bs"
  shows "free_sum r' F = free_sum r F"
proof (rule free_sum_cong)
  fix a assume "a \<in> F"
  then obtain xs ys where "bs = xs @ a # ys" using assms(3) by (meson split_list subsetD)
  then show "next_of r' a = next_of r a" using block_next(1) [of st e xs a ys] assms(1,2) by simp
qed

lemma available_determined:
  assumes ok: "memheap_ok n bs fl (heaps s n) (hmem s)" and ok': "memheap_ok n bs fl' (heaps s' n) (hmem s')"
    and "set fl' = set fl" "heap_range n s' = heap_range n s"
  shows "available_size (heaps s' n) = available_size (heaps s n)"
proof -
  have ar: "heap_area (heaps s n)" "heap_area (heaps s' n)" using ok ok' by (simp_all add: memheap_ok_def)
  have "start_addr (heaps s' n) = start_addr (heaps s n) \<and>
    start_addr (heaps s' n) + unat (pool_size (heaps s' n)) = start_addr (heaps s n) + unat (pool_size (heaps s n))"
    using assms(4) ar unfolding heap_range_def heap_area_def by (subst (asm) atLeastLessThan_eq_iff) auto
  then have "heap_end (heaps s' n) = heap_end (heaps s n)" "start_addr (heaps s' n) = start_addr (heaps s n)"
    unfolding heap_end_def by linarith+
  then have "free_sum (bring (hmem s')) (set fl) = free_sum (bring (hmem s)) (set fl)"
    using ok ok' by (intro same_blocks_same_sum) (auto simp: memheap_ok_def frees_ok_def)
  then show ?thesis using ok ok' assms(3) by (simp add: memheap_ok_def word_unat_eq_iff)
qed

text \<open>The operations as an allocator; a call that would wait or stop has no value.\<close>

definition heap_good :: "nat \<Rightarrow> 'a heap_state_scheme \<Rightarrow> bool" where
  "heap_good n s \<longleftrightarrow> heap_ready n s \<and> (\<exists>bs fl. memheap_ok n bs fl (heaps s n) (hmem s))"

lemma rt_memheap_alloc_good:
  assumes "heap_good n s"
  shows "rt_memheap_alloc n sz s = Some (Done 0 s) \<or>
    (\<exists>a s' l. rt_memheap_alloc n sz s = Some (Done (a + 24) s') \<and> heap_good n s' \<and> heap_range n s' = heap_range n s \<and>
      hbytes s' = hbytes s \<and> unat (heap_size sz) \<le> l \<and> heap_live n s' = insert (a + 24, l) (heap_live n s) \<and>
      block_bytes (a + 24, l) \<subseteq> heap_range n s \<and> (\<forall>b\<in>heap_live n s. block_bytes (a + 24, l) \<inter> block_bytes b = {}))"
proof -
  obtain bs fl where ok: "heap_ready n s" "memheap_ok n bs fl (heaps s n) (hmem s)" using assms by (auto simp: heap_good_def)
  show ?thesis
  proof (cases "available_size (heaps s n) \<le> heap_size sz \<or> first_fit (heap_size sz) (hmem s) fl = None")
    case True
    then show ?thesis using rt_memheap_alloc_none [OF ok] by simp
  next
    case False
    then obtain a where a: "heap_size sz < available_size (heaps s n)" "first_fit (heap_size sz) (hmem s) fl = Some a" by auto
    obtain s' l bs' fl' where r: "rt_memheap_alloc n sz s = Some (Done (a + 24) s')" "heap_ready n s'" "memheap_ok n bs' fl' (heaps s' n) (hmem s')"
      "heap_range n s' = heap_range n s" "hbytes s' = hbytes s" "unat (heap_size sz) \<le> l" "heap_live n s' = insert (a + 24, l) (heap_live n s)"
      "block_bytes (a + 24, l) \<subseteq> heap_range n s" "\<forall>b\<in>heap_live n s. block_bytes (a + 24, l) \<inter> block_bytes b = {}"
      using rt_memheap_alloc_spec [OF ok a] by metis
    then have "heap_good n s'" by (auto simp: heap_good_def)
    then show ?thesis using r by blast
  qed
qed

text \<open>A block in use is one of the list of blocks.\<close>

lemma heap_liveE:
  assumes "heap_good n s" "(p, l) \<in> heap_live n s"
  obtains xs a ys fl where "heap_ready n s" "memheap_ok n (xs @ a # ys) fl (heaps s n) (hmem s)" "a \<notin> set fl" "p = a + 24"
    "l = payload (bring (hmem s)) a"
proof -
  obtain bs fl where ok: "heap_ready n s" "memheap_ok n bs fl (heaps s n) (hmem s)" using assms(1) by (auto simp: heap_good_def)
  obtain a where a: "p = a + 24" "l = payload (bring (hmem s)) a" "a \<in> set bs" "a \<notin> set fl"
    using assms(2) unfolding memheap_ok_blocks(2) [OF ok(2)] by auto
  obtain xs ys where "bs = xs @ a # ys" using a(3) by (meson split_list)
  then show thesis using that [of xs a ys fl] ok a by simp
qed

lemma heap_live_range:
  assumes "heap_good n s" "b \<in> heap_live n s"
  shows "block_bytes b \<subseteq> heap_range n s" "12 \<le> snd b" "24 < fst b" "4 dvd fst b" "fst b + snd b + 24 \<le> 2 ^ 32"
proof -
  obtain xs a ys fl where ok: "memheap_ok n (xs @ a # ys) fl (heaps s n) (hmem s)" "fst b = a + 24"
    "snd b = payload (bring (hmem s)) a" using heap_liveE [OF assms(1), of "fst b" "snd b"] assms(2) by (metis prod.collapse)
  note bk = memheap_ok_block [OF ok(1), of a]
  have ar: "heap_area (heaps s n)" using ok(1) by (simp add: memheap_ok_def)
  show "block_bytes b \<subseteq> heap_range n s"
    using bk(2,4,5) heap_area_end [OF ar] ok(2,3) by (auto simp: block_bytes_def heap_range_def)
  show "12 \<le> snd b" using bk(2,3) ok(3) by simp
  show "24 < fst b" using bk(5) ar ok(2) by (simp add: heap_area_def)
  have "4 dvd a" using ok(1) by (simp add: memheap_ok_def)
  then show "4 dvd fst b" using ok(2) by simp
  show "fst b + snd b + 24 \<le> 2 ^ 32" using bk(2,4) heap_area_end [OF ar] ok(2,3) by simp
qed

lemma rt_memheap_free_good:
  assumes "heap_good n s" "(p, l) \<in> heap_live n s"
  shows "\<exists>s'. rt_memheap_free p s = Some (Done () s') \<and> heap_good n s' \<and> hbytes s' = hbytes s \<and>
    heap_range n s' = heap_range n s \<and> heap_live n s' = heap_live n s - {(p, l)}"
proof -
  obtain xs a ys fl where ok: "heap_ready n s" "memheap_ok n (xs @ a # ys) fl (heaps s n) (hmem s)" "a \<notin> set fl" "p = a + 24"
    "l = payload (bring (hmem s)) a" using heap_liveE [OF assms] .
  obtain s' bs' fl' where "rt_memheap_free p s = Some (Done () s')" "heap_ready n s'" "memheap_ok n bs' fl' (heaps s' n) (hmem s')"
    "hbytes s' = hbytes s" "heap_range n s' = heap_range n s" "heap_live n s' = heap_live n s - {(p, l)}"
    using rt_memheap_free_spec [OF ok(1-3)] ok(4,5) by metis
  then show ?thesis by (auto simp: heap_good_def)
qed

definition alloc_now :: "nat \<Rightarrow> u32 \<Rightarrow> 'a heap_state_scheme \<Rightarrow> (nat \<times> 'a heap_state_scheme) option" where
  "alloc_now n sz s = (case rt_memheap_alloc n sz s of Some (Done p s') \<Rightarrow> Some (p, s') | _ \<Rightarrow> None)"

definition free_now :: "nat \<Rightarrow> 'a heap_state_scheme \<Rightarrow> 'a heap_state_scheme option" where
  "free_now p s = (case rt_memheap_free p s of Some (Done _ s') \<Rightarrow> Some s' | _ \<Rightarrow> None)"

interpretation mh: allocator "heap_good n" "heap_live n" "heap_range n" "\<lambda>sz. unat (heap_size sz)" "alloc_now n" free_now
  for n :: nat
proof
  show "\<exists>p s'. alloc_now n sz s = Some (p, s')" if "heap_good n s" for sz and s :: "'a heap_state_scheme"
    using rt_memheap_alloc_good [OF that, of sz] by (auto simp: alloc_now_def)
  show "heap_good n s' \<and> heap_range n s' = heap_range n s" if "heap_good n s" "alloc_now n sz s = Some (p, s')"
    for sz p and s s' :: "'a heap_state_scheme"
    using rt_memheap_alloc_good [OF that(1), of sz] that by (auto simp: alloc_now_def)
  show "s' = s" if "heap_good n s" "alloc_now n sz s = Some (0, s')" for sz and s s' :: "'a heap_state_scheme"
    using rt_memheap_alloc_good [OF that(1), of sz] that by (auto simp: alloc_now_def)
  show "\<exists>l\<ge>unat (heap_size sz). heap_live n s' = insert (p, l) (heap_live n s) \<and> block_bytes (p, l) \<subseteq> heap_range n s \<and>
      (\<forall>b\<in>heap_live n s. block_bytes (p, l) \<inter> block_bytes b = {})"
    if "heap_good n s" "alloc_now n sz s = Some (p, s')" "p \<noteq> 0" for sz p and s s' :: "'a heap_state_scheme"
    using rt_memheap_alloc_good [OF that(1), of sz] that by (auto simp: alloc_now_def)
  show "\<exists>s'. free_now p s = Some s' \<and> heap_good n s' \<and> heap_range n s' = heap_range n s \<and> heap_live n s' = heap_live n s - {(p, l)}"
    if "heap_good n s" "(p, l) \<in> heap_live n s" for p l and s :: "'a heap_state_scheme"
    using rt_memheap_free_good [OF that] by (auto simp: free_now_def)
  show "0 < l" if "heap_good n s" "(p, l) \<in> heap_live n s" for p l and s :: "'a heap_state_scheme"
    using heap_live_range(2) [OF that] by simp
qed

end
