(* ===== verification/Memheap_Realloc.thy ===== *)
theory Memheap_Realloc
  imports Memheap_Spec
begin

text \<open>
  Changing the size of a block of the memory heap when no other thread holds the lock: in place, by moving the border
  to the free block behind, or by allocating, copying and releasing. In every case the bytes of the block are kept as
  far as both sizes go, and no other block changes.
\<close>

lemma heap_size_idem: "heap_size (heap_size sz) = heap_size sz"
proof -
  have "align4 RT_MEMHEAP_MINIALLOC = RT_MEMHEAP_MINIALLOC" by (simp add: align4_def RT_MEMHEAP_MINIALLOC_def)
  then show ?thesis by (simp add: heap_size_def Let_def align4_idem)
qed

lemma alloc_rounded: "rt_memheap_alloc n (heap_size sz) s = rt_memheap_alloc n sz s"
  unfolding rt_memheap_alloc_def heap_size_idem ..

lemma heap_size_room:
  assumes "unat sz + 3 < 2 ^ 32"
  shows "unat sz \<le> unat (heap_size sz)" "unat (heap_size sz) \<le> unat sz + 12"
proof -
  have "unat sz \<le> unat (align4 sz)" "unat (align4 sz) \<le> unat sz + 3" using align4_unat [OF assms] by auto
  then show "unat sz \<le> unat (heap_size sz)" "unat (heap_size sz) \<le> unat sz + 12"
    by (auto simp: heap_size_def Let_def RT_MEMHEAP_MINIALLOC_def word_less_nat_alt)
qed

text \<open>A block whose border moved: the other blocks in use are as before.\<close>

lemma live_resized:
  assumes ok: "memheap_ok n bs fl (heaps s n) (hmem s)" and ok': "memheap_ok n bs' fl' h' m'"
    and us: "set bs' - set fl' = set bs - set fl" and a: "a \<in> set bs - set fl"
    and nx: "\<And>b. b \<in> set bs - set fl \<Longrightarrow> b \<noteq> a \<Longrightarrow> next_of (bring m') b = next_of (bring (hmem s)) b"
  shows "heap_live n (put_heap n (h', m') s) =
    insert (a + 24, payload (bring m') a) (heap_live n s - {(a + 24, payload (bring (hmem s)) a)})"
proof -
  let ?f = "\<lambda>r b. (b + 24, payload r b)"
  have ok2: "memheap_ok n bs' fl' (heaps (put_heap n (h', m') s) n) (hmem (put_heap n (h', m') s))" using ok' by simp
  have "heap_live n (put_heap n (h', m') s) = ?f (bring m') ` insert a (set bs - set fl - {a})"
    using memheap_ok_blocks(2) [OF ok2] us a by (simp add: insert_absorb)
  also have "?f (bring m') ` (set bs - set fl - {a}) = ?f (bring (hmem s)) ` (set bs - set fl - {a})"
    by (rule image_cong) (use nx in \<open>auto simp: payload_def\<close>)
  then have "?f (bring m') ` insert a (set bs - set fl - {a}) = insert (?f (bring m') a) (?f (bring (hmem s)) ` (set bs - set fl - {a}))"
    by (simp only: image_insert)
  also have "?f (bring (hmem s)) ` (set bs - set fl - {a}) = heap_live n s - {?f (bring (hmem s)) a}"
    unfolding memheap_ok_blocks(2) [OF ok] by auto
  finally show ?thesis by simp
qed

lemma heap_good_put:
  assumes "heap_ready n s" "memheap_ok n bs fl h' m'" "same_heap (heaps s n) h'"
  shows "heap_good n (put_heap n (h', m') s)" "heap_range n (put_heap n (h', m') s) = heap_range n s"
  using assms heap_ready_put [of h' s n m'] same_heap_area [OF assms(3)] by (auto simp: heap_good_def heap_range_def)

text \<open>Growing in place.\<close>

lemma realloc_grows:
  assumes rd: "heap_ready n s" and ok: "memheap_ok n (xs @ a # x # ys) fl (heaps s n) (hmem s)" and "a \<notin> set fl" "x \<in> set fl"
    and sz: "sz \<noteq> 0" "MEMITEM_SIZE (hmem s) a < heap_size sz"
    and fits: "unat (heap_size sz) + 12 < payload (bring (hmem s)) a + payload (bring (hmem s)) x"
  shows "\<exists>s'. rt_memheap_realloc n (a + 24) sz s = Some (Done (a + 24) s') \<and> heap_good n s' \<and> hbytes s' = hbytes s \<and>
    heap_range n s' = heap_range n s \<and>
    heap_live n s' = insert (a + 24, unat (heap_size sz)) (heap_live n s - {(a + 24, payload (bring (hmem s)) a)})"
proof -
  let ?h = "heaps s n" and ?m = "hmem s"
  define q where "q = a + 24 + unat (heap_size sz)"
  obtain h' m' where r: "grow_block n a (MEMITEM_SIZE ?m a) (heap_size sz) ?h ?m = Some (h', m')"
    "memheap_ok n (xs @ a # q # ys) (q # remove1 x fl) h' m'" "same_heap ?h h'"
    "next_of (bring m') = (next_of (bring ?m))(a := q, q := next_of (bring ?m) x)"
    using grow_block_ok [OF ok assms(3,4) refl sz(2) fits q_def heap_size_bounds(4)] by blast
  note ge = grow_geometry [OF ok refl sz(2) fits q_def]
  note d = memheap_ok_distinct [OF ok] memheap_ok_distinct(1) [OF r(2)]
  define s' where "s' = put_heap n (h', m') s"
  have lt: "a < next_of (bring ?m) a" using memheap_ok_block(3) [OF ok, of a] by simp
  have "rt_memheap_realloc n (a + 24) sz s = Some (Done (a + 24) s')"
    using rd sz r(1) lt heap_locked [OF rd] heap_unlocked [OF rd, of h' m'] same_heap_area(6) [OF r(3)]
    by (simp add: rt_memheap_realloc_def heap_ready_def s'_def)
  moreover have "heap_live n s' = insert (a + 24, payload (bring m') a) (heap_live n s - {(a + 24, payload (bring ?m) a)})"
    unfolding s'_def
  proof (rule live_resized [OF ok r(2)])
    show "set (xs @ a # q # ys) - set (q # remove1 x fl) = set (xs @ a # x # ys) - set fl"
      using d assms(4) ge(4) by auto
    show "next_of (bring m') b = next_of (bring ?m) b" if "b \<in> set (xs @ a # x # ys) - set fl" "b \<noteq> a" for b
      using that d assms(4) r(4) by auto
  qed (use assms(3) in simp)
  moreover have "payload (bring m') a = unat (heap_size sz)" unfolding payload_def using r(4) ge(2) by (simp add: q_def)
  moreover have "heap_good n s'" "heap_range n s' = heap_range n s" using heap_good_put [OF rd r(2,3)] by (simp_all add: s'_def)
  moreover have "hbytes s' = hbytes s" by (simp add: s'_def)
  ultimately show ?thesis by metis
qed

text \<open>Shrinking in place.\<close>

lemma realloc_shrinks:
  assumes rd: "heap_ready n s" and ok: "memheap_ok n (xs @ a # ys) fl (heaps s n) (hmem s)" and used: "a \<notin> set fl"
    and sz: "sz \<noteq> 0" "unat (heap_size sz) + 36 < payload (bring (hmem s)) a"
  shows "\<exists>s'. rt_memheap_realloc n (a + 24) sz s = Some (Done (a + 24) s') \<and> heap_good n s' \<and> hbytes s' = hbytes s \<and>
    heap_range n s' = heap_range n s \<and>
    heap_live n s' = insert (a + 24, unat (heap_size sz)) (heap_live n s - {(a + 24, payload (bring (hmem s)) a)})"
proof -
  let ?h = "heaps s n" and ?m = "hmem s"
  define q where "q = a + 24 + unat (heap_size sz)"
  let ?bs' = "freed_blocks q (xs @ [a]) ys (set fl)" and ?fl' = "freed_list q (xs @ [a]) ys fl"
  note ge = shrink_geometry [OF ok used heap_size_bounds(3) sz(2) q_def]
  obtain h' m' where r: "shrink_block n a (heap_size sz) ?h ?m = (h', m')" "same_heap ?h h'" "memheap_ok n ?bs' ?fl' h' m'"
    "bring m' = freed_ring q (xs @ [a]) ys (set fl) (block_split a q (bring ?m))"
    using shrink_block_ok [OF ok used heap_size_bounds(3) sz(2) q_def heap_size_bounds(4)] by blast
  have fd: "distinct fl" using ok by (simp add: memheap_ok_def frees_ok_def)
  define s' where "s' = put_heap n (h', m') s"
  have old: "unat (MEMITEM_SIZE ?m a) = payload (bring ?m) a" using memheap_ok_block(1) [OF ok, of a] by simp
  then have "unat (heap_size sz) + 36 < 2 ^ 32" using sz(2) unsigned_less [of "MEMITEM_SIZE ?m a", where ?'a = nat] by simp
  then have "heap_size sz + 36 < MEMITEM_SIZE ?m a" "\<not> MEMITEM_SIZE ?m a < heap_size sz"
    using sz(2) old by (simp_all add: word_less_nat_alt unat_word_ariths)
  then have "rt_memheap_realloc n (a + 24) sz s = Some (Done (a + 24) s')"
    using rd sz(1) r(1) heap_locked [OF rd] heap_unlocked [OF rd, of h' m'] same_heap_area(6) [OF r(2)]
    by (simp add: rt_memheap_realloc_def heap_ready_def s'_def Let_def leD)
  moreover have nx: "next_of (bring m') b = ((next_of (bring ?m))(a := q)) b" if "b \<in> set (xs @ a # ys)" "b \<notin> set fl" for b
  proof -
    have "b \<noteq> q" using that(1) ge(4) by metis
    then show ?thesis using freed_ring_next [OF ge(1) that(2)] ge(2) r(4) by simp
  qed
  moreover have "heap_live n s' = insert (a + 24, payload (bring m') a) (heap_live n s - {(a + 24, payload (bring ?m) a)})"
    unfolding s'_def
  proof (rule live_resized [OF ok r(3)])
    have "set ?bs' - set ?fl' = set ((xs @ [a]) @ q # ys) - set fl - {q}"
      by (rule freed_used [OF ge(7) _ fd]) (use blocks_distinct [OF ge(1)] in simp)
    then show "set ?bs' - set ?fl' = set (xs @ a # ys) - set fl" using ge(4) by auto
    show "next_of (bring m') b = next_of (bring ?m) b" if "b \<in> set (xs @ a # ys) - set fl" "b \<noteq> a" for b
      using that nx [of b] by simp
  qed (use used in simp)
  moreover have "payload (bring m') a = unat (heap_size sz)" unfolding payload_def using nx [of a] used by (simp add: q_def)
  moreover have "heap_good n s'" "heap_range n s' = heap_range n s" using heap_good_put [OF rd r(3,2)] by (simp_all add: s'_def)
  moreover have "hbytes s' = hbytes s" by (simp add: s'_def)
  ultimately show ?thesis by metis
qed

text \<open>The block is large enough as it is.\<close>

lemma realloc_stays:
  assumes rd: "heap_ready n s" and ok: "memheap_ok n bs fl (heaps s n) (hmem s)" "a \<in> set bs"
    and sz: "sz \<noteq> 0" "unat (heap_size sz) \<le> payload (bring (hmem s)) a" "payload (bring (hmem s)) a \<le> unat (heap_size sz) + 36"
  shows "rt_memheap_realloc n (a + 24) sz s = Some (Done (a + 24) s)"
proof -
  note bk = memheap_ok_block [OF ok]
  have e: "heap_end (heaps s n) + 24 \<le> 2 ^ 32" using heap_area_end [of "heaps s n"] ok(1) by (simp add: memheap_ok_def)
  have "unat (heap_size sz) + 36 < 2 ^ 32" using sz(2) bk(2,4) e by simp
  then have "MEMITEM_SIZE (hmem s) a \<le> heap_size sz + 36" "\<not> MEMITEM_SIZE (hmem s) a < heap_size sz"
    using sz(2,3) bk(1) by (simp_all add: word_le_nat_alt word_less_nat_alt unat_word_ariths)
  then show ?thesis using rd sz(1) by (simp add: rt_memheap_realloc_def heap_ready_def Let_def)
qed

text \<open>Otherwise a new block is allocated.\<close>

lemma heap_unlocked_same:
  assumes "heap_ready n s"
  shows "heap_unlock n (sem_set (lock (heaps s n)) (sems s (lock (heaps s n)) - 1) s) = Some s"
proof -
  have "put_heap n (heaps s n, hmem s) s = s" for s :: "'a heap_state_scheme" by (simp add: put_heap_def)
  then show ?thesis using heap_unlocked [OF assms, of "heaps s n" "hmem s"] by (metis heap_sem_set(1,2))
qed

lemma realloc_allocates:
  assumes rd: "heap_ready n s" and ok: "memheap_ok n (xs @ a # ys) fl (heaps s n) (hmem s)"
    and sz: "sz \<noteq> 0" "payload (bring (hmem s)) a < unat (heap_size sz)" "unat (heap_size sz) + 12 < 2 ^ 32"
    and no: "joined_right ys (set fl) \<Longrightarrow>
      payload (bring (hmem s)) a + payload (bring (hmem s)) (hd ys) \<le> unat (heap_size sz) + 12"
  shows "rt_memheap_realloc n (a + 24) sz s =
    heap_move n (a + 24) (payload (bring (hmem s)) a) (rt_memheap_alloc n (heap_size sz)) s"
proof -
  have bk: "unat (MEMITEM_SIZE (hmem s) a) = payload (bring (hmem s)) a" "a < next_of (bring (hmem s)) a"
    using memheap_ok_block(1,3) [OF ok, of a] by auto
  have "grow_block n a (MEMITEM_SIZE (hmem s) a) (heap_size sz) (heaps s n) (hmem s) = None"
    by (rule grow_block_none [OF ok no sz(3)])
  moreover have "MEMITEM_SIZE (hmem s) a < heap_size sz" using bk(1) sz(2) by (simp add: word_less_nat_alt)
  ultimately show ?thesis
    using rd sz(1) bk heap_locked [OF rd] heap_unlocked_same [OF rd]
    by (simp add: rt_memheap_realloc_def heap_ready_def Let_def)
qed

lemma heap_bytes_put [simp]:
  "heap_good n (s\<lparr>hbytes := b\<rparr>) = heap_good n s" "heap_live n (s\<lparr>hbytes := b\<rparr>) = heap_live n s"
  "heap_range n (s\<lparr>hbytes := b\<rparr>) = heap_range n s"
  by (simp_all add: heap_good_def heap_ready_def heap_live_def heap_blocks_def heap_range_def rt_object_get_type_def)

definition heap_mapped :: "nat \<Rightarrow> 'a heap_state_scheme \<Rightarrow> bool" where
  "heap_mapped n s \<longleftrightarrow> (\<forall>x\<in>heap_range n s. hbytes s x \<noteq> None)"

lemma heap_move_spec:
  assumes good: "heap_good n s" and mp: "heap_mapped n s" and live: "(p, l) \<in> heap_live n s" and more: "l \<le> unat (heap_size sz)"
  shows "heap_move n p l (rt_memheap_alloc n sz) s = Some (Done 0 s) \<and> rt_memheap_alloc n sz s = Some (Done 0 s) \<or>
    (\<exists>q l' s'. heap_move n p l (rt_memheap_alloc n sz) s = Some (Done q s') \<and> q \<noteq> 0 \<and> heap_good n s' \<and>
      heap_range n s' = heap_range n s \<and> unat (heap_size sz) \<le> l' \<and> heap_live n s' = insert (q, l') (heap_live n s - {(p, l)}) \<and>
      hbytes s' = moved q p l (hbytes s) \<and> (\<forall>b\<in>heap_live n s. block_bytes (q, l') \<inter> block_bytes b = {}))"
  using rt_memheap_alloc_good [OF good, of sz]
proof (elim disjE exE conjE)
  assume "rt_memheap_alloc n sz s = Some (Done 0 s)"
  then show ?thesis by (simp add: heap_move_def)
next
  fix a s1 l'
  assume r: "rt_memheap_alloc n sz s = Some (Done (a + 24) s1)" "heap_good n s1" "heap_range n s1 = heap_range n s"
    "hbytes s1 = hbytes s" "unat (heap_size sz) \<le> l'" "heap_live n s1 = insert (a + 24, l') (heap_live n s)"
    "block_bytes (a + 24, l') \<subseteq> heap_range n s" "\<forall>b\<in>heap_live n s. block_bytes (a + 24, l') \<inter> block_bytes b = {}"
  let ?q = "a + 24" and ?b = "moved (a + 24) p l (hbytes s)"
  have pl: "block_bytes (p, l) \<subseteq> heap_range n s" "12 \<le> l" using heap_live_range [OF good live] by simp_all
  have dj: "block_bytes (?q, l') \<inter> block_bytes (p, l) = {}" using r(8) live by blast
  have ne: "(?q, l') \<noteq> (p, l)" using dj pl(2) by (auto simp: block_bytes_def)
  have m1: "mapped ?q l (hbytes s)"
    unfolding mapped_def
  proof (intro allI impI)
    fix x assume "?q \<le> x \<and> x < ?q + l"
    then have "x \<in> block_bytes (?q, l')" using more r(5) by (simp add: block_bytes_def)
    then show "hbytes s x \<noteq> None" using r(7) mp by (auto simp: heap_mapped_def)
  qed
  have m2: "mapped p l (hbytes s)" using pl(1) mp by (auto simp: mapped_def heap_mapped_def block_bytes_def)
  have "upward ?q p l"
  proof (rule ccontr)
    assume "\<not> upward ?q p l"
    then have "?q \<in> block_bytes (?q, l') \<inter> block_bytes (p, l)" using more r(5) pl(2) by (auto simp: upward_def block_bytes_def)
    then show False using dj by blast
  qed
  then have cp: "rt_memcpy ?q p l (hbytes s) = Some ?b" by (rule rt_memcpy_spec [OF m1 m2])
  obtain s2 where s2: "rt_memheap_free p (s1\<lparr>hbytes := ?b\<rparr>) = Some (Done () s2)" "heap_good n s2" "hbytes s2 = ?b"
    "heap_range n s2 = heap_range n s1" "heap_live n s2 = heap_live n s1 - {(p, l)}"
    using rt_memheap_free_good [of n "s1\<lparr>hbytes := ?b\<rparr>" p l] r(2,6) live by auto
  have "heap_move n p l (rt_memheap_alloc n sz) s = Some (Done ?q s2)" using r(1,4) cp s2(1) by (simp add: heap_move_def)
  moreover have "heap_live n s2 = insert (?q, l') (heap_live n s - {(p, l)})" using s2(5) r(6) ne by auto
  ultimately show ?thesis using s2 r(3,5,8) by (intro disjI2 exI [of _ ?q] exI [of _ l'] exI [of _ s2]) simp
qed

section \<open>The size of a block changed\<close>

text \<open>What changing the size of a block promises: null and nothing changed, or a block of the new size that holds the bytes
  of the old one, with every other block as it was.\<close>

definition resized :: "nat \<Rightarrow> nat \<times> nat \<Rightarrow> u32 \<Rightarrow> 'a heap_state_scheme \<Rightarrow> nat \<Rightarrow> 'a heap_state_scheme \<Rightarrow> bool" where
  "resized n b sz s q s' \<longleftrightarrow> heap_good n s' \<and> heap_range n s' = heap_range n s \<and>
     (if q = 0 then s' = s \<and> rt_memheap_alloc n sz s = Some (Done 0 s)
      else (\<exists>l'. unat sz \<le> l' \<and> heap_live n s' = insert (q, l') (heap_live n s - {b})) \<and>
        (\<forall>i < min (snd b) (unat sz). hbytes s' (q + i) = hbytes s (fst b + i)) \<and>
        (\<forall>c\<in>heap_live n s - {b}. \<forall>x\<in>block_bytes c. hbytes s' x = hbytes s x))"

lemma resized_in_place:
  assumes "heap_good n s'" "hbytes s' = hbytes s" "heap_range n s' = heap_range n s" "unat sz \<le> l'" "p \<noteq> 0"
    "heap_live n s' = insert (p, l') (heap_live n s - {(p, l)})"
  shows "resized n (p, l) sz s p s'"
  using assms by (auto simp: resized_def)

lemma resized_moved:
  assumes "heap_good n s" "(p, l) \<in> heap_live n s" "heap_good n s'" "heap_range n s' = heap_range n s" "q \<noteq> 0" "l \<le> l'" "unat sz \<le> l'"
    "heap_live n s' = insert (q, l') (heap_live n s - {(p, l)})" "hbytes s' = moved q p l (hbytes s)"
    "\<forall>b\<in>heap_live n s. block_bytes (q, l') \<inter> block_bytes b = {}"
  shows "resized n (p, l) sz s q s'"
proof -
  have "hbytes s' (q + i) = hbytes s (p + i)" if "i < l" for i using that assms(9) by (simp add: moved_def)
  moreover have "hbytes s' x = hbytes s x" if "c \<in> heap_live n s" "x \<in> block_bytes c" for c x
  proof -
    have "x \<notin> block_bytes (q, l')" using that assms(10) by blast
    then show ?thesis using assms(6,9) by (auto simp: moved_def block_bytes_def)
  qed
  ultimately show ?thesis using assms(3,4,5,7,8) by (auto simp: resized_def)
qed

lemma rt_memheap_realloc_good:
  assumes good: "heap_good n s" and mp: "heap_mapped n s" and live: "(p, l) \<in> heap_live n s"
    and sz: "sz \<noteq> 0" "unat sz + 24 < 2 ^ 32"
  shows "\<exists>q s'. rt_memheap_realloc n p sz s = Some (Done q s') \<and> resized n (p, l) sz s q s'"
proof -
  obtain xs a ys fl where ok: "heap_ready n s" "memheap_ok n (xs @ a # ys) fl (heaps s n) (hmem s)" "a \<notin> set fl" "p = a + 24"
    "l = payload (bring (hmem s)) a" using heap_liveE [OF good live] .
  let ?z = "unat (heap_size sz)"
  have z: "unat sz \<le> ?z" "?z + 12 < 2 ^ 32" using heap_size_room [of sz] sz(2) by auto
  have p0: "p \<noteq> 0" using ok(4) by simp
  note inplace = resized_in_place [where sz = sz and s = s and n = n and p = p and l = l]
  consider (stay) "?z \<le> l" "l \<le> ?z + 36" | (shrink) "?z + 36 < l"
    | (grow) "l < ?z" "joined_right ys (set fl)" "?z + 12 < l + payload (bring (hmem s)) (hd ys)"
    | (move) "l < ?z" "joined_right ys (set fl) \<longrightarrow> l + payload (bring (hmem s)) (hd ys) \<le> ?z + 12" by linarith
  then show ?thesis
  proof cases
    case stay
    then have "rt_memheap_realloc n p sz s = Some (Done p s)" using realloc_stays [OF ok(1,2) _ sz(1)] ok(4,5) by simp
    moreover have "resized n (p, l) sz s p s" by (rule inplace [where l' = l]) (use good live p0 stay(1) z(1) in auto)
    ultimately show ?thesis by blast
  next
    case shrink
    then obtain s' where "rt_memheap_realloc n p sz s = Some (Done p s')" "heap_good n s'" "hbytes s' = hbytes s"
      "heap_range n s' = heap_range n s" "heap_live n s' = insert (p, ?z) (heap_live n s - {(p, l)})"
      using realloc_shrinks [OF ok(1-3) sz(1)] ok(4,5) by blast
    then show ?thesis using inplace [of s' ?z] z(1) p0 by blast
  next
    case grow
    then obtain x vs where ys: "ys = x # vs" "x \<in> set fl" by (cases ys) (auto simp: joined_right_def)
    have "MEMITEM_SIZE (hmem s) a < heap_size sz"
      using grow(1) ok(5) memheap_ok_block(1) [OF ok(2), of a] by (simp add: word_less_nat_alt)
    then obtain s' where "rt_memheap_realloc n p sz s = Some (Done p s')" "heap_good n s'" "hbytes s' = hbytes s"
      "heap_range n s' = heap_range n s" "heap_live n s' = insert (p, ?z) (heap_live n s - {(p, l)})"
      using realloc_grows [OF ok(1) ok(2) [unfolded ys(1)] ok(3) ys(2) sz(1)] grow(3) ok(4,5) ys(1) by auto
    then show ?thesis using inplace [of s' ?z] z(1) p0 by blast
  next
    case move
    have eq: "rt_memheap_realloc n p sz s = heap_move n p l (rt_memheap_alloc n (heap_size sz)) s"
      using realloc_allocates [OF ok(1,2) sz(1) _ z(2)] move ok(4,5) by simp
    have "l \<le> unat (heap_size (heap_size sz))" using move(1) by (simp add: heap_size_idem)
    from heap_move_spec [OF good mp live this] show ?thesis
    proof (elim disjE exE conjE)
      assume "heap_move n p l (rt_memheap_alloc n (heap_size sz)) s = Some (Done 0 s)"
        "rt_memheap_alloc n (heap_size sz) s = Some (Done 0 s)"
      then show ?thesis using eq good by (auto simp: resized_def alloc_rounded)
    next
      fix q l' s'
      assume m: "heap_move n p l (rt_memheap_alloc n (heap_size sz)) s = Some (Done q s')" "q \<noteq> 0" "heap_good n s'"
        "heap_range n s' = heap_range n s" "unat (heap_size (heap_size sz)) \<le> l'"
        "heap_live n s' = insert (q, l') (heap_live n s - {(p, l)})" "hbytes s' = moved q p l (hbytes s)"
        "\<forall>b\<in>heap_live n s. block_bytes (q, l') \<inter> block_bytes b = {}"
      have "?z \<le> l'" using m(5) by (simp add: heap_size_idem)
      then have "resized n (p, l) sz s q s'"
        using move(1) z(1) by (intro resized_moved [OF good live m(3,4,2) _ _ m(6-8)]) simp_all
      then show ?thesis using eq m(1) by auto
    qed
  qed
qed

end
