(* ===== verification/Memheap_System.thy ===== *)
theory Memheap_System
  imports Memheap_Realloc App_Frame
begin

text \<open>
  The heap of the system: it is set up while the system starts, before any thread runs; afterwards \<^verbatim>\<open>rt_malloc\<close>,
  \<^verbatim>\<open>rt_calloc\<close>, \<^verbatim>\<open>rt_realloc\<close> and \<^verbatim>\<open>rt_free\<close> work on it. A thread that finds the heap locked waits without touching it.
\<close>

section \<open>Setting up\<close>

text \<open>Before the scheduler runs, nothing is scheduled when an object is initialised.\<close>

lemma object_init_at_boot:
  assumes "current_thread s = None" "scheduler_lock_nest s = 0" "c \<in> set object_container" "r \<notin> set (containers s c)"
  shows "rt_object_init r c name s = Some (object_link c r
    (upd_object r (\<lambda>ob. ob\<lparr>o_type := c OR RT_Object_Class_Static, o_name := take RT_NAME_MAX name\<rparr>) s))"
proof -
  have "rt_exit_critical (rt_enter_critical s) = Some s"
    using assms(1,2) by (simp add: rt_exit_critical_def rt_enter_critical_def)
  moreover have "containers (rt_enter_critical s) = containers s" by (simp add: rt_enter_critical_def)
  ultimately show ?thesis
    using assms(3,4) by (simp add: rt_object_init_def get_information_iff [THEN iffD2] Let_def)
qed

lemma system_heap_init_good:
  assumes boot: "current_thread s = None" "scheduler_lock_nest s = 0"
    and fresh: "Kobj sys \<notin> set (containers s RT_Object_Class_MemHeap)" "lock (heaps s sys) \<noteq> sys"
      "Kobj (lock (heaps s sys)) \<notin> set (containers s RT_Object_Class_Semaphore)"
    and area: "0 < begin_addr" "begin_addr < end_addr" "60 \<le> unat ((end_addr - begin_addr) AND NOT 3)"
      "\<not> (unat begin_addr \<le> free_header (heaps s sys) \<and> free_header (heaps s sys) + 24 \<le> unat end_addr)"
      "4 dvd unat begin_addr"
  shows "\<exists>s'. rt_system_heap_init sys begin_addr end_addr s = Some s' \<and> heap_good sys s' \<and> heap_live sys s' = {} \<and>
    heap_range sys s' = {unat begin_addr ..< unat begin_addr + unat ((end_addr - begin_addr) AND NOT 3)} \<and>
    containers s' RT_Object_Class_MemHeap = Kobj sys # containers s RT_Object_Class_MemHeap \<and> hbytes s' = hbytes s"
proof -
  let ?n = "end_addr - begin_addr" and ?l = "lock (heaps s sys)"
  define psz where "psz = ?n AND NOT 3"
  define b where "b = unat begin_addr"
  have n: "unat ?n = unat end_addr - unat begin_addr" using area(2) by (simp add: unat_sub less_imp_le)
  have "unat psz \<le> unat ?n" using and_not_3 [of ?n] by (simp add: psz_def)
  then have be: "b + unat psz \<le> unat end_addr" "unat end_addr < 2 ^ 32"
    using n area(2) unsigned_less [of end_addr, where ?'a = nat] by (simp_all add: b_def word_less_nat_alt)
  define s1 where "s1 = object_link RT_Object_Class_MemHeap (Kobj sys) (upd_object (Kobj sys)
    (\<lambda>ob. ob\<lparr>o_type := RT_Object_Class_MemHeap OR RT_Object_Class_Static, o_name := take RT_NAME_MAX ''heap''\<rparr>) s)"
  have i1: "rt_object_init (Kobj sys) RT_Object_Class_MemHeap ''heap'' s = Some s1"
    unfolding s1_def by (rule object_init_at_boot [OF boot _ fresh(1)]) (simp add: object_container_def)
  have s1: "heaps s1 = heaps s" "hmem s1 = hmem s" "hbytes s1 = hbytes s" "current_thread s1 = None" "scheduler_lock_nest s1 = 0"
    "containers s1 = (containers s)(RT_Object_Class_MemHeap := Kobj sys # containers s RT_Object_Class_MemHeap)"
    using boot by (simp_all add: s1_def object_link_def upd_object_def)
  obtain h m where hm: "heap_layout sys b ?n (heaps s sys) (hmem s) = (h, m)" by force
  have lay: "memheap_ok sys [b] [b] h m" "start_addr h = b" "pool_size h = psz" "lock h = ?l"
    using heap_layout_ok [OF psz_def _ _ _ _ _ hm] area(1,3,4,5) be by (auto simp: psz_def b_def word_less_nat_alt)
  define s2 where "s2 = s1\<lparr>heaps := (heaps s1)(sys := h), hmem := m\<rparr>"
  define s3 where "s3 = object_link RT_Object_Class_Semaphore (Kobj ?l) (upd_object (Kobj ?l)
    (\<lambda>ob. ob\<lparr>o_type := RT_Object_Class_Semaphore OR RT_Object_Class_Static, o_name := take RT_NAME_MAX ''heap''\<rparr>) s2)"
  define s4 where "s4 = upd_object (Kobj ?l) (\<lambda>ob. ob\<lparr>o_flag := RT_IPC_FLAG_PRIO\<rparr>) (sem_set ?l 1 (ipc_object_init ?l s3))"
  have "RT_Object_Class_Semaphore \<noteq> RT_Object_Class_MemHeap"
    by (simp add: RT_Object_Class_Semaphore_def RT_Object_Class_MemHeap_def)
  then have "rt_object_init (Kobj ?l) RT_Object_Class_Semaphore ''heap'' s2 = Some s3"
    unfolding s3_def using s1 fresh(3) by (intro object_init_at_boot) (simp_all add: s2_def object_container_def)
  then have i2: "rt_sem_init ?l ''heap'' 1 RT_IPC_FLAG_PRIO s2 = Some (RT_EOK, s4)"
    by (simp add: rt_sem_init_def s4_def)
  have run: "rt_system_heap_init sys begin_addr end_addr s = Some s4"
    using area(2) i1 i2 hm lay(4) s1 by (simp add: rt_system_heap_init_def rt_memheap_init_def s2_def b_def [symmetric])
  have ty: "rt_object_get_type (Kobj sys) s4 = RT_Object_Class_MemHeap" "rt_object_get_type (Kobj ?l) s4 = RT_Object_Class_Semaphore"
    using fresh(2) class_and_not_static [of RT_Object_Class_MemHeap] class_and_not_static [of RT_Object_Class_Semaphore]
    by (auto simp: rt_object_get_type_def s4_def s3_def s2_def s1_def object_link_def upd_object_def sem_set_def
        ipc_object_init_def object_container_def)
  have s4: "heaps s4 = (heaps s)(sys := h)" "hmem s4 = m" "hbytes s4 = hbytes s" "sems s4 ?l = 1" "klists s4 (Susp ?l) = []"
    "containers s4 RT_Object_Class_MemHeap = Kobj sys # containers s RT_Object_Class_MemHeap"
    using \<open>RT_Object_Class_Semaphore \<noteq> RT_Object_Class_MemHeap\<close> s1
    by (auto simp: s4_def s3_def s2_def object_link_def upd_object_def sem_set_def ipc_object_init_def)
  have good: "heap_good sys s4" using lay ty s4 by (auto simp: heap_good_def heap_ready_def)
  moreover have "heap_live sys s4 = {}" using memheap_ok_blocks(2) [of sys "[b]" "[b]" s4] lay(1) s4 by simp
  ultimately show ?thesis
    using run s4 lay by (auto simp: heap_range_def b_def psz_def)
qed

section \<open>The system's calls\<close>

text \<open>There is one heap.\<close>

definition one_heap :: "nat \<Rightarrow> 'a heap_state_scheme \<Rightarrow> bool" where
  "one_heap sys s \<longleftrightarrow> containers s RT_Object_Class_MemHeap = [Kobj sys]"

lemma rt_malloc_one:
  assumes "heap_good sys s" "one_heap sys s"
  shows "rt_malloc sys sz s = rt_memheap_alloc sys sz s"
  using rt_memheap_alloc_good [OF assms(1), of sz]
proof (elim disjE exE conjE)
  assume "rt_memheap_alloc sys sz s = Some (Done 0 s)"
  then show ?thesis using assms by (simp add: rt_malloc_def one_heap_def heap_good_def heap_ready_def)
qed (simp add: rt_malloc_def)

lemma rt_calloc_good:
  assumes good: "heap_good sys s" "one_heap sys s" "heap_mapped sys s" and fits: "unat count * unat sz + 3 < 2 ^ 32"
  shows "rt_calloc sys count sz s = Some (Done 0 s) \<or>
    (\<exists>p l s'. rt_calloc sys count sz s = Some (Done p s') \<and> p \<noteq> 0 \<and> heap_good sys s' \<and> unat count * unat sz \<le> l \<and>
      heap_live sys s' = insert (p, l) (heap_live sys s) \<and> (\<forall>b\<in>heap_live sys s. block_bytes (p, l) \<inter> block_bytes b = {}) \<and>
      (\<forall>x. hbytes s' x = (if p \<le> x \<and> x < p + unat count * unat sz then Some 0 else hbytes s x)))"
proof -
  let ?t = "count * sz"
  have t: "unat ?t = unat count * unat sz" using fits by (simp add: unat_word_ariths)
  show ?thesis
    using rt_memheap_alloc_good [OF good(1), of ?t]
  proof (elim disjE exE conjE)
    assume "rt_memheap_alloc sys ?t s = Some (Done 0 s)"
    then show ?thesis using rt_malloc_one [OF good(1,2)] by (simp add: rt_calloc_def Let_def)
  next
    fix a s1 l
    assume r: "rt_memheap_alloc sys ?t s = Some (Done (a + 24) s1)" "heap_good sys s1" "heap_range sys s1 = heap_range sys s"
      "hbytes s1 = hbytes s" "unat (heap_size ?t) \<le> l" "heap_live sys s1 = insert (a + 24, l) (heap_live sys s)"
      "block_bytes (a + 24, l) \<subseteq> heap_range sys s" "\<forall>b\<in>heap_live sys s. block_bytes (a + 24, l) \<inter> block_bytes b = {}"
    have le: "unat count * unat sz \<le> l" using heap_size_room(1) [of ?t] fits t r(5) by simp
    have "mapped (a + 24) (unat ?t) (hbytes s)"
    proof -
      have "x \<in> heap_range sys s" if "a + 24 \<le> x \<and> x < a + 24 + unat ?t" for x
        using that r(7) le t by (auto simp: block_bytes_def)
      then show ?thesis using good(3) by (simp add: mapped_def heap_mapped_def)
    qed
    then have ms: "rt_memset (a + 24) 0 (unat ?t) (hbytes s) = Some (put_range (a + 24) (unat ?t) (\<lambda>_. Some 0) (hbytes s))"
      using rt_memset_spec [of "a + 24" "unat ?t" "hbytes s" 0] by simp
    define s2 where "s2 = s1\<lparr>hbytes := put_range (a + 24) (unat ?t) (\<lambda>_. Some 0) (hbytes s)\<rparr>"
    have "rt_calloc sys count sz s = Some (Done (a + 24) s2)"
      using r(1,4) ms rt_malloc_one [OF good(1,2)] by (simp add: rt_calloc_def Let_def s2_def)
    then show ?thesis using r(2,6,8) le t
      by (intro disjI2 exI [of _ "a + 24"] exI [of _ l] exI [of _ s2]) (simp add: s2_def put_range_def)
  qed
qed

lemma rt_realloc_good:
  assumes good: "heap_good sys s" "one_heap sys s" "heap_mapped sys s" and live: "(p, l) \<in> heap_live sys s"
    and sz: "sz \<noteq> 0" "unat sz + 24 < 2 ^ 32"
  shows "\<exists>q s'. rt_realloc sys p sz s = Some (Done q s') \<and> resized sys (p, l) sz s q s'"
proof -
  obtain xs a ys fl where ok: "memheap_ok sys (xs @ a # ys) fl (heaps s sys) (hmem s)" "p = a + 24"
    using heap_liveE [OF good(1) live] by metis
  have pp: "pool_ptr (hmem s) (p - 24) = sys" "p \<noteq> 0" using ok by (auto simp: memheap_ok_def tags_ok_def)
  obtain q s' where q: "rt_memheap_realloc sys p sz s = Some (Done q s')" "resized sys (p, l) sz s q s'"
    using rt_memheap_realloc_good [OF good(1,3) live sz] by blast
  show ?thesis
  proof (cases "q = 0")
    case True
    then have z: "s' = s" "rt_memheap_alloc sys sz s = Some (Done 0 s)" using q(2) by (simp_all add: resized_def)
    have "rt_realloc sys p sz s = Some (Done 0 s)"
      using q(1) True z pp sz(1) rt_malloc_one [OF good(1,2)] by (simp add: rt_realloc_def)
    then show ?thesis using q(2) True z(1) by blast
  next
    case False
    then have "rt_realloc sys p sz s = Some (Done q s')" using q(1) pp sz(1) by (simp add: rt_realloc_def)
    then show ?thesis using q(2) by blast
  qed
qed

section \<open>Waiting for the lock\<close>

text \<open>A thread that asks for memory while another one works on the heap sleeps on the lock and has not touched the heap;
  when it runs again it has the lock and goes on, or it gives up with the error that woke it.\<close>

lemma alloc_waits:
  fixes s :: "'a heap_state_scheme"
  assumes inv: "kernel_inv s" "sem_inv (lock (heaps s n)) s" "current_thread s = Some c" "interrupt_nest s = 0"
    "stat_base (threads s c) = RT_THREAD_RUNNING" and busy: "sems s (lock (heaps s n)) = 0"
    and ty: "rt_object_get_type (Kobj n) s = RT_Object_Class_MemHeap" and av: "heap_size sz < available_size (heaps s n)"
  shows "\<exists>s1 k. rt_memheap_alloc n sz s = Some (Sleep s1 k) \<and> kernel_inv s1 \<and> stat_base (threads s1 c) = RT_THREAD_SUSPEND \<and>
    c \<in> set (klists s1 (Susp (lock (heaps s n)))) \<and> heaps s1 = heaps s \<and> hmem s1 = hmem s \<and> hbytes s1 = hbytes s \<and>
    (\<forall>s2. t_error (threads s2 c) \<noteq> RT_EOK \<longrightarrow> k s2 = Some (Done 0 (rt_set_errno (t_error (threads s2 c)) s2))) \<and>
    (\<forall>s2. t_error (threads s2 c) = RT_EOK \<longrightarrow> k s2 = do {
       (p, hm) \<leftarrow> alloc_block n (heap_size sz) (heaps s2 n) (hmem s2);
       s3 \<leftarrow> heap_unlock n (put_heap n hm s2);
       Some (Done p s3) })"
proof -
  obtain s1 where s1: "rt_sem_take (lock (heaps s n)) RT_WAITING_FOREVER s = Some (Wait (rt_tick s), s1)" "kernel_inv s1"
    "stat_base (threads s1 c) = RT_THREAD_SUSPEND" "c \<in> set (klists s1 (Susp (lock (heaps s n))))"
    using rt_sem_take_spec [OF inv, of RT_WAITING_FOREVER] busy by (auto simp: RT_WAITING_FOREVER_def)
  have "ipc_state.more s1 = ipc_state.more s" using s1(1) busy
    by (auto simp: rt_sem_take_def ipc_block_def Let_def split: if_splits dest!: ipc_frame)
  then have same: "heaps s1 = heaps s" "hmem s1 = hmem s" "hbytes s1 = hbytes s" by (cases s; cases s1; simp)+
  have "heap_lock n s = Some (Sleep s1 (\<lambda>s'. Some (Done (sem_take_resumed c s') s')))"
    using s1(1) inv(3) by (simp add: heap_lock_def)
  moreover define k where "k = (\<lambda>s2 :: 'a heap_state_scheme. if sem_take_resumed c s2 \<noteq> RT_EOK then Some (Done 0 (rt_set_errno (sem_take_resumed c s2) s2))
    else do { (p, hm) \<leftarrow> alloc_block n (heap_size sz) (heaps s2 n) (hmem s2); s3 \<leftarrow> heap_unlock n (put_heap n hm s2); Some (Done p s3) })"
  ultimately have "rt_memheap_alloc n sz s = Some (Sleep s1 k)" using ty av by (simp add: rt_memheap_alloc_def comp_def)
  moreover have "t_error (threads s2 c) \<noteq> RT_EOK \<Longrightarrow> k s2 = Some (Done 0 (rt_set_errno (t_error (threads s2 c)) s2))"
    "t_error (threads s2 c) = RT_EOK \<Longrightarrow> k s2 = do { (p, hm) \<leftarrow> alloc_block n (heap_size sz) (heaps s2 n) (hmem s2);
       s3 \<leftarrow> heap_unlock n (put_heap n hm s2); Some (Done p s3) }" for s2
    by (simp_all add: k_def sem_take_resumed_def)
  ultimately show ?thesis using s1(2-4) same by (intro exI [of _ s1] exI [of _ k]) simp
qed

section \<open>Sizes near the end of the range\<close>

text \<open>The sum of the new size and the least size wraps: the block behind counts as large enough whatever its size, and the new
  item is written 12 bytes behind the start of the block's own item, which it overwrites.\<close>

lemma realloc_huge_overwrites_item:
  assumes rd: "heap_ready n s" and ok: "memheap_ok n (xs @ a # x # ys) fl (heaps s n) (hmem s)" and free: "x \<in> set fl"
  shows "\<exists>s'. rt_memheap_realloc n (a + 24) 0xfffffff4 s = Some (Done (a + 24) s') \<and> next_of (bring (hmem s')) a = a + 12"
proof -
  let ?m = "hmem s" and ?h = "heaps s n" and ?z = "0xfffffff4 :: u32"
  have bl: "blocks_ok (start_addr ?h) (heap_end ?h) (xs @ a # x # ys) (bring ?m)" and ar: "heap_area ?h"
    and tg: "tags_ok n (heap_end ?h) (xs @ a # x # ys) (set fl) ?m" using ok by (simp_all add: memheap_ok_def)
  have ax: "next_of (bring ?m) a = x" using block_next(1) [of _ _ xs a "x # ys"] bl by simp
  note ba = memheap_ok_block [OF ok, of a] and bx = memheap_ok_block [OF ok, of x] and e = heap_area_end [OF ar]
  have sum: "unat (MEMITEM_SIZE ?m x + MEMITEM_SIZE ?m a) = payload (bring ?m) x + payload (bring ?m) a"
    using ba bx e ax by (simp add: unat_word_ariths)
  have "0 < payload (bring ?m) x" using bx(2,3) by simp
  then have c1: "?z + RT_MEMHEAP_MINIALLOC < MEMITEM_SIZE ?m x + MEMITEM_SIZE ?m a"
    using sum by (simp add: word_less_nat_alt RT_MEMHEAP_MINIALLOC_def)
  have "payload (bring ?m) a < unat ?z" using ba(2,3,4) e ax bx(3,4) by simp
  then have c2: "MEMITEM_SIZE ?m a < ?z" using ba(1) by (simp add: word_less_nat_alt)
  have w: "(of_nat a + RT_MEMHEAP_SIZE + ?z :: u32) = of_nat (a + 12)" by (simp add: RT_MEMHEAP_SIZE_def)
  have q: "unat (of_nat a + RT_MEMHEAP_SIZE + ?z :: u32) = a + 12"
    unfolding w by (rule unat_u32_of_nat) (use ba(3,4) e in simp)
  have "\<not> RT_MEMHEAP_IS_USED ?m x" using tags_used(1) [OF tg, of x] free by simp
  then obtain h' m' where g: "grow_block n a (MEMITEM_SIZE ?m a) ?z ?h ?m = Some (h', m')" "next_of (bring m') a = a + 12"
    "lock h' = lock ?h"
    using c1 unfolding grow_block_def Let_def ax q
    by (auto simp: new_item_def set_magic_def block_split_def Let_def heap_charge_def)
  have hs: "heap_size ?z = ?z" by (simp add: heap_size_def align4_def RT_MEMHEAP_MINIALLOC_def)
  have "rt_memheap_realloc n (a + 24) ?z s = Some (Done (a + 24) (put_heap n (h', m') s))"
    using rd g(1) c2 hs ba(3) heap_locked [OF rd] heap_unlocked [OF rd g(3), of m']
    by (simp add: rt_memheap_realloc_def heap_ready_def)
  then show ?thesis using g(2) by simp
qed

text \<open>A request for almost all memory is rounded to 0 and then up to the least size.\<close>

lemma huge_request_wraps: "heap_size 0xfffffffd = 12"
  by (simp add: heap_size_def align4_def RT_MEMHEAP_MINIALLOC_def)

text \<open>A request for exactly what is available is refused, although a single free block has that size.\<close>

lemma exact_request_refused:
  assumes "heap_ready n s" "heap_size sz = available_size (heaps s n)"
  shows "rt_memheap_alloc n sz s = Some (Done 0 s)"
  using assms by (simp add: rt_memheap_alloc_def heap_ready_def)

end
