(* ===== verification/Kservice_Alloc.thy ===== *)
theory Kservice_Alloc
  imports Memheap_System
begin

text \<open>
  The functions of \<^verbatim>\<open>kservice.c\<close> that allocate: copying a string into a new block, and aligned allocation, which keeps
  the address of the block in the word before the address it returns.
\<close>

definition rt_strdup :: "nat \<Rightarrow> nat \<Rightarrow> 'a heap_state_scheme \<Rightarrow> ('a heap_state_scheme, nat) run option" where
  "rt_strdup sys str s = do {
     k \<leftarrow> rt_strlen (hbytes s) str;
     let len = of_nat k + 1;
     r \<leftarrow> rt_malloc sys len s;
     rbind r (\<lambda>tmp s1.
       if tmp = 0 then Some (Done 0 s1)
       else do {
         b \<leftarrow> rt_memcpy tmp str (unat len) (hbytes s1);
         Some (Done tmp (s1\<lparr>hbytes := b\<rparr>))
       })
   }"

definition align_up :: "u32 \<Rightarrow> u32 \<Rightarrow> u32" where
  "align_up align ptr =
     (if ptr AND (align - 1) = 0 then ptr + align else (ptr + (align - 1)) AND NOT (align - 1))"

definition rt_malloc_align :: "nat \<Rightarrow> u32 \<Rightarrow> u32 \<Rightarrow> 'a heap_state_scheme \<Rightarrow> ('a heap_state_scheme, nat) run option" where
  "rt_malloc_align sys sz align0 s = do {
     let align = (align0 + 3) AND NOT 3;
     let align_size = ((sz + 3) AND NOT 3) + align;
     r \<leftarrow> rt_malloc sys align_size s;
     rbind r (\<lambda>ptr s1.
       if ptr \<noteq> 0 then do {
         let align_ptr = align_up align (of_nat ptr);
         b \<leftarrow> store_word (unat (align_ptr - 4)) (of_nat ptr) (hbytes s1);
         Some (Done (unat align_ptr) (s1\<lparr>hbytes := b\<rparr>))
       } else Some (Done 0 s1))
   }"

definition rt_free_align :: "nat \<Rightarrow> 'a heap_state_scheme \<Rightarrow> ('a heap_state_scheme, unit) run option" where
  "rt_free_align ptr s = do {
     real_ptr \<leftarrow> load_word (unat (of_nat ptr - 4 :: u32)) (hbytes s);
     rt_free (unat real_ptr) s
   }"

section \<open>Alignment\<close>

text \<open>The next multiple of the alignment that leaves room for a word before it.\<close>

lemma align_up_spec:
  assumes "2 \<le> k" "k < 32" "4 dvd p" "p + 2 ^ k < 2 ^ 32"
  shows "\<exists>q. unat (align_up (2 ^ k) (of_nat p)) = q \<and> 2 ^ k dvd q \<and> p + 4 \<le> q \<and> q \<le> p + 2 ^ k"
proof -
  have m: "(2 ^ k - 1 :: u32) = mask k" by (simp add: mask_eq_exp_minus_1)
  have p: "unat (of_nat p :: u32) = p" using unat_u32_of_nat [of p] assms(4) by simp
  have k: "unat (2 ^ k :: u32) = 2 ^ k" using assms(2) by (simp add: unat_two_power)
  have four: "(4 :: nat) dvd 2 ^ k" using le_imp_power_dvd [OF assms(1), of "2 :: nat"] by simp
  have z: "(of_nat p AND mask k :: u32) = 0 \<longleftrightarrow> p mod 2 ^ k = 0"
    using unat_and_mask(1) [of k "of_nat p :: u32"] assms(2) p by (simp add: unat_eq_0 [symmetric] del: unat_eq_0)
  show ?thesis
  proof (cases "p mod 2 ^ k = 0")
    case True
    then have "align_up (2 ^ k) (of_nat p) = of_nat p + 2 ^ k" using z by (simp add: align_up_def m)
    moreover have "unat (of_nat p + 2 ^ k :: u32) = p + 2 ^ k" using p k assms(4) by (simp add: unat_word_ariths)
    moreover have "2 ^ k dvd p + 2 ^ k" "(4 :: nat) \<le> 2 ^ k" using True four by (auto dest: dvd_imp_le)
    ultimately show ?thesis by auto
  next
    case False
    let ?q = "(p + (2 ^ k - 1)) div 2 ^ k * 2 ^ k"
    have "(2 ^ k :: u32) \<noteq> 0" using k by (metis power_not_zero unsigned_0 zero_neq_numeral)
    then have "unat (2 ^ k - 1 :: u32) = 2 ^ k - 1" using k by (simp add: unat_minus_one)
    then have "unat (of_nat p + (2 ^ k - 1) :: u32) = p + (2 ^ k - 1)" using p assms(4) by (simp add: unat_word_ariths)
    moreover have "align_up (2 ^ k) (of_nat p) = (of_nat p + (2 ^ k - 1)) AND NOT (mask k)" using False z by (simp add: align_up_def m)
    ultimately have q: "unat (align_up (2 ^ k) (of_nat p)) = ?q"
      using unat_and_mask(2) [of k "of_nat p + (2 ^ k - 1) :: u32"] assms(2) by simp
    have s: "?q + (p + (2 ^ k - 1)) mod 2 ^ k = p + (2 ^ k - 1)" by (rule div_mult_mod_eq)
    moreover have "(p + (2 ^ k - 1)) mod 2 ^ k < 2 ^ k" by simp
    ultimately have "p \<le> ?q" "?q \<le> p + 2 ^ k" by linarith+
    moreover have "p \<noteq> ?q" using False by (metis mod_mult_self2_is_0)
    ultimately have "0 < ?q - p" "?q \<le> p + 2 ^ k" by simp_all
    moreover have "4 dvd ?q - p" using four assms(3) by (intro dvd_diff_nat) simp_all
    ultimately have "4 \<le> ?q - p" by (intro dvd_imp_le)
    then have "p + 4 \<le> ?q" by simp
    then show ?thesis using q \<open>?q \<le> p + 2 ^ k\<close> by auto
  qed
qed

lemma load_store_word:
  fixes w :: u32
  assumes "mapped a 4 m"
  shows "\<exists>m'. store_word a w m = Some m' \<and> load_word a m' = Some w \<and> (\<forall>x. \<not> (a \<le> x \<and> x < a + 4) \<longrightarrow> m' x = m x)"
proof -
  have i: "m a \<noteq> None" "m (a + 1) \<noteq> None" "m (a + 2) \<noteq> None" "m (a + 3) \<noteq> None" using assms by (auto simp: mapped_def)
  let ?m = "m(a \<mapsto> ucast w, a + 1 \<mapsto> ucast (drop_bit 8 w), a + 2 \<mapsto> ucast (drop_bit 16 w), a + 3 \<mapsto> ucast (drop_bit 24 w))"
  have "store_word a w m = Some ?m" using i by (auto simp: store_word_def wr_def)
  moreover define v :: u32 where "v = (ucast (ucast w :: u8) OR push_bit 8 (ucast (ucast (drop_bit 8 w) :: u8)) OR
      push_bit 16 (ucast (ucast (drop_bit 16 w) :: u8)) OR push_bit 24 (ucast (ucast (drop_bit 24 w) :: u8)))"
  have "v = w"
  proof (rule bit_word_eqI)
    fix n assume "n < LENGTH(32)"
    then consider "n < 8" | "8 \<le> n" "n < 16" | "16 \<le> n" "n < 24" | "24 \<le> n" "n < 32" by fastforce
    then show "bit v n = bit w n" by cases (auto simp: v_def bit_simps)
  qed
  then have "load_word a ?m = Some w" by (simp add: load_word_def v_def [symmetric])
  moreover have "\<forall>x. \<not> (a \<le> x \<and> x < a + 4) \<longrightarrow> ?m x = m x" by auto
  ultimately show ?thesis by blast
qed

section \<open>Aligned blocks\<close>

lemma aligned_sizes:
  fixes sz :: u32
  assumes "2 \<le> k" "unat sz + 2 ^ k + 6 < 2 ^ 32" "k < 32"
  shows "(2 ^ k + 3) AND NOT 3 = (2 ^ k :: u32)" "unat sz + 2 ^ k \<le> unat (((sz + 3) AND NOT 3) + 2 ^ k)"
    "unat (((sz + 3) AND NOT 3) + 2 ^ k) \<le> unat sz + 2 ^ k + 3"
proof -
  have four: "(4 :: nat) dvd 2 ^ k" using le_imp_power_dvd [OF assms(1), of "2 :: nat"] by simp
  have k: "unat (2 ^ k :: u32) = 2 ^ k" using assms(3) by (simp add: unat_two_power)
  then have "unat (2 ^ k + 3 :: u32) = 2 ^ k + 3" using assms(2) by (simp add: unat_word_ariths)
  then have "unat ((2 ^ k + 3) AND NOT 3 :: u32) = 4 * ((2 ^ k + 3) div 4)" by (simp only: and_not_3)
  also have "\<dots> = 2 ^ k" using four by (auto elim!: dvdE)
  finally show "(2 ^ k + 3) AND NOT 3 = (2 ^ k :: u32)" using k by (simp only: word_unat_eq_iff)
  have "unat (sz + 3) = unat sz + 3" using assms(2) by (simp add: unat_word_ariths)
  then have s: "unat ((sz + 3) AND NOT 3) = 4 * ((unat sz + 3) div 4)" by (simp only: and_not_3)
  then have "unat sz \<le> unat ((sz + 3) AND NOT 3)" "unat ((sz + 3) AND NOT 3) \<le> unat sz + 3" by linarith+
  moreover from this have "unat (((sz + 3) AND NOT 3) + 2 ^ k) = unat ((sz + 3) AND NOT 3) + 2 ^ k"
    using k assms(2) by (simp add: unat_word_ariths)
  ultimately show "unat sz + 2 ^ k \<le> unat (((sz + 3) AND NOT 3) + 2 ^ k)" "unat (((sz + 3) AND NOT 3) + 2 ^ k) \<le> unat sz + 2 ^ k + 3"
    by linarith+
qed

lemma rt_malloc_align_good:
  assumes good: "heap_good sys s" "one_heap sys s" "heap_mapped sys s" and k: "2 \<le> k" "k < 32" and sz: "unat sz + 2 ^ k + 6 < 2 ^ 32"
  shows "rt_malloc_align sys sz (2 ^ k) s = Some (Done 0 s) \<or>
    (\<exists>p l q s1. rt_malloc_align sys sz (2 ^ k) s = Some (Done q s1) \<and> heap_good sys s1 \<and> (p, l) \<notin> heap_live sys s \<and>
      heap_live sys s1 = insert (p, l) (heap_live sys s) \<and> 2 ^ k dvd q \<and> p + 4 \<le> q \<and> q + unat sz \<le> p + l \<and> p + l < 2 ^ 32 \<and>
      load_word (q - 4) (hbytes s1) = Some (of_nat p) \<and>
      (\<forall>x. x \<notin> block_bytes (p, l) \<longrightarrow> hbytes s1 x = hbytes s x))"
  using rt_memheap_alloc_good [OF good(1), of "((sz + 3) AND NOT 3) + 2 ^ k"]
proof (elim disjE exE conjE)
  assume "rt_memheap_alloc sys (((sz + 3) AND NOT 3) + 2 ^ k) s = Some (Done 0 s)"
  then show ?thesis using rt_malloc_one [OF good(1,2)] aligned_sizes(1) [OF k(1) sz k(2)] by (simp add: rt_malloc_align_def Let_def)
next
  fix a l :: nat and s1
  let ?t = "((sz + 3) AND NOT 3) + 2 ^ k" and ?p = "a + 24"
  assume r: "rt_memheap_alloc sys ?t s = Some (Done ?p s1)" "heap_good sys s1" "heap_range sys s1 = heap_range sys s"
    "hbytes s1 = hbytes s" "unat (heap_size ?t) \<le> l" "heap_live sys s1 = insert (?p, l) (heap_live sys s)"
    "block_bytes (?p, l) \<subseteq> heap_range sys s" "\<forall>b\<in>heap_live sys s. block_bytes (?p, l) \<inter> block_bytes b = {}"
  note az = aligned_sizes [OF k(1) sz k(2)]
  have l: "unat sz + 2 ^ k \<le> l" using heap_size_room(1) [of ?t] az(2,3) sz r(5) by linarith
  have lv: "4 dvd ?p" "?p + l + 24 \<le> 2 ^ 32" "12 \<le> l" using heap_live_range(2,4,5) [OF r(2), of "(?p, l)"] r(6) by simp_all
  have pk: "?p + 2 ^ k < 2 ^ 32" using l lv(2) by linarith
  obtain q where q: "unat (align_up (2 ^ k) (of_nat ?p)) = q" "2 ^ k dvd q" "?p + 4 \<le> q" "q \<le> ?p + 2 ^ k"
    using align_up_spec [OF k lv(1) pk] by blast
  have "4 \<le> q" using q(3) by simp
  then have q4: "unat (align_up (2 ^ k) (of_nat ?p) - 4) = q - 4" using q(1) by (simp add: unat_sub word_le_nat_alt)
  have blk: "block_bytes (?p, l) = {?p ..< ?p + l}" by (simp add: block_bytes_def)
  have in_blk: "x \<in> block_bytes (?p, l)" if "q - 4 \<le> x" "x < q - 4 + 4" for x
    unfolding blk using that q(3,4) l by simp
  have "mapped (q - 4) 4 (hbytes s)" using in_blk r(7) good(3) by (auto simp: mapped_def heap_mapped_def)
  then obtain b where b: "store_word (q - 4) (of_nat ?p) (hbytes s) = Some b" "load_word (q - 4) b = Some (of_nat ?p)"
    "\<forall>x. \<not> (q - 4 \<le> x \<and> x < q - 4 + 4) \<longrightarrow> b x = hbytes s x" using load_store_word by blast
  have run: "rt_malloc_align sys sz (2 ^ k) s = Some (Done q (s1\<lparr>hbytes := b\<rparr>))"
    using r(1,4) b(1) q4 q(1) rt_malloc_one [OF good(1,2)] az(1) by (simp add: rt_malloc_align_def Let_def)
  have "(?p, l) \<notin> heap_live sys s"
  proof
    assume "(?p, l) \<in> heap_live sys s"
    then have "block_bytes (?p, l) = {}" using r(8) by blast
    then show False using lv(3) unfolding blk by simp
  qed
  moreover have "\<forall>x. x \<notin> block_bytes (?p, l) \<longrightarrow> b x = hbytes s x" using b(3) in_blk by blast
  ultimately show ?thesis
    using run r(2,6) q(2-4) l lv(2) b(2) by (intro disjI2 exI [of _ ?p] exI [of _ l] exI [of _ q] exI [of _ "s1\<lparr>hbytes := b\<rparr>"]) auto
qed

lemma rt_free_align_good:
  assumes "heap_good sys s" "(p, l) \<in> heap_live sys s" "p + 4 \<le> q" "q < 2 ^ 32" "p < 2 ^ 32" "load_word (q - 4) (hbytes s) = Some (of_nat p)"
  shows "\<exists>s'. rt_free_align q s = Some (Done () s') \<and> heap_good sys s' \<and> hbytes s' = hbytes s \<and> heap_live sys s' = heap_live sys s - {(p, l)}"
proof -
  have "(of_nat q - 4 :: u32) = of_nat (q - 4)" using assms(3) by simp
  then have "unat (of_nat q - 4 :: u32) = q - 4" using unat_u32_of_nat [of "q - 4"] assms(4) by simp
  moreover have "unat (of_nat p :: u32) = p" using unat_u32_of_nat assms(5) by simp
  ultimately have "rt_free_align q s = rt_memheap_free p s" using assms(6) by (simp add: rt_free_align_def rt_free_def)
  then show ?thesis using rt_memheap_free_good [OF assms(1,2)] by auto
qed

section \<open>Copies of strings\<close>

lemma str_at_shift:
  assumes "str_at m a xs" "\<And>i. i \<le> length xs \<Longrightarrow> m' (b + i) = m (a + i)"
  shows "str_at m' b xs"
  using assms
proof (induction xs arbitrary: a b)
  case Nil
  then show ?case using Nil.prems(2) [of 0] by simp
next
  case (Cons x xs)
  have "str_at m' (b + 1) xs"
  proof (rule Cons.IH)
    show "str_at m (a + 1) xs" using Cons.prems(1) by simp
    show "m' (b + 1 + i) = m (a + 1 + i)" if "i \<le> length xs" for i using that Cons.prems(2) [of "Suc i"] by simp
  qed
  then show ?case using Cons.prems(1) Cons.prems(2) [of 0] by simp
qed

lemma str_at_mapped: "str_at m a xs \<Longrightarrow> mapped a (Suc (length xs)) m"
proof (induction xs arbitrary: a)
  case (Cons x xs)
  then have "mapped (a + 1) (Suc (length xs)) m" "m a \<noteq> None" by simp_all
  then have "m y \<noteq> None" if "a \<le> y" "y < a + Suc (Suc (length xs))" for y
    using that by (cases "y = a") (simp_all add: mapped_def)
  then show ?case by (simp add: mapped_def)
qed (auto simp: mapped_def le_less_Suc_eq)

text \<open>The string lies outside the heap or in blocks in use.\<close>

lemma rt_strdup_good:
  assumes good: "heap_good sys s" "one_heap sys s" "heap_mapped sys s" and str: "str_at (hbytes s) str xs" "length xs + 4 < 2 ^ 32"
    and safe: "\<And>x. str \<le> x \<Longrightarrow> x \<le> str + length xs \<Longrightarrow> x \<notin> heap_range sys s \<or> (\<exists>b\<in>heap_live sys s. x \<in> block_bytes b)"
  shows "rt_strdup sys str s = Some (Done 0 s) \<or>
    (\<exists>p l s1. rt_strdup sys str s = Some (Done p s1) \<and> p \<noteq> 0 \<and> heap_good sys s1 \<and> length xs < l \<and>
      heap_live sys s1 = insert (p, l) (heap_live sys s) \<and> str_at (hbytes s1) p xs \<and>
      (\<forall>x. x \<notin> block_bytes (p, l) \<longrightarrow> hbytes s1 x = hbytes s x))"
proof -
  let ?n = "Suc (length xs)"
  have len: "of_nat (length xs) + 1 = (of_nat ?n :: u32)" by simp
  have n: "unat (of_nat ?n :: u32) = ?n" by (rule unat_u32_of_nat) (use str(2) in simp)
  have k: "rt_strlen (hbytes s) str = Some (length xs)" by (rule rt_strlen_spec [OF str(1)])
  show ?thesis
    using rt_memheap_alloc_good [OF good(1), of "of_nat ?n"]
  proof (elim disjE exE conjE)
    assume "rt_memheap_alloc sys (of_nat ?n) s = Some (Done 0 s)"
    then show ?thesis using k rt_malloc_one [OF good(1,2)] unfolding rt_strdup_def Let_def by (simp add: len)
  next
    fix a l :: nat and s1
    let ?p = "a + 24"
    assume r: "rt_memheap_alloc sys (of_nat ?n) s = Some (Done ?p s1)" "heap_good sys s1" "heap_range sys s1 = heap_range sys s"
      "hbytes s1 = hbytes s" "unat (heap_size (of_nat ?n)) \<le> l" "heap_live sys s1 = insert (?p, l) (heap_live sys s)"
      "block_bytes (?p, l) \<subseteq> heap_range sys s" "\<forall>b\<in>heap_live sys s. block_bytes (?p, l) \<inter> block_bytes b = {}"
    have l: "?n \<le> l" using heap_size_room(1) [of "of_nat ?n"] n str(2) r(5) by linarith
    have out: "x \<notin> block_bytes (?p, l)" if "str \<le> x" "x \<le> str + length xs" for x
      using safe [OF that] r(7,8) by blast
    have "?p \<le> str \<or> str + ?n \<le> ?p"
    proof (rule ccontr)
      assume "\<not> (?p \<le> str \<or> str + ?n \<le> ?p)"
      then have "?p \<notin> block_bytes (?p, l)" by (intro out) simp_all
      then show False using l by (simp add: block_bytes_def)
    qed
    then have up: "upward ?p str ?n" by (simp add: upward_def)
    have in_blk: "x \<in> block_bytes (?p, l)" if "?p \<le> x" "x < ?p + ?n" for x using that l by (simp add: block_bytes_def)
    then have "mapped ?p ?n (hbytes s)" using r(7) good(3) unfolding mapped_def heap_mapped_def by blast
    then have cp: "rt_memcpy ?p str ?n (hbytes s) = Some (moved ?p str ?n (hbytes s))"
      by (rule rt_memcpy_spec [OF _ str_at_mapped [OF str(1)] up])
    have run: "rt_strdup sys str s = Some (Done ?p (s1\<lparr>hbytes := moved ?p str ?n (hbytes s)\<rparr>))"
      using k r(1,4) cp n rt_malloc_one [OF good(1,2)] unfolding rt_strdup_def Let_def by (simp add: len)
    have "str_at (moved ?p str ?n (hbytes s)) ?p xs" by (rule str_at_shift [OF str(1)]) (simp add: moved_def)
    moreover have "\<forall>x. x \<notin> block_bytes (?p, l) \<longrightarrow> moved ?p str ?n (hbytes s) x = hbytes s x"
      using in_blk by (auto simp: moved_def)
    ultimately show ?thesis using run r(2,6) l
      by (intro disjI2 exI [of _ ?p] exI [of _ l] exI [of _ "s1\<lparr>hbytes := moved ?p str ?n (hbytes s)\<rparr>"]) auto
  qed
qed

end
