(* ===== verification/Memheap_Props.thy ===== *)
theory Memheap_Props
  imports Kservice_Alloc Sample_State
begin

text \<open>Properties of the memory heap.\<close>

section \<open>A sample heap\<close>

text \<open>The sample state with a heap 25 of 4096 bytes at 0x20001000 whose lock is the semaphore 21.\<close>

definition heap_fresh :: rt_memheap where
  "heap_fresh = \<lparr>start_addr = 0, pool_size = 0, available_size = 0, max_used_size = 0, block_list = 0, free_list = 0,
     free_header = 0x20000100, lock = 21\<rparr>"

definition heap_mem_zero :: heap_mem where
  "heap_mem_zero = \<lparr>magic = (\<lambda>_. 0), pool_ptr = (\<lambda>_. 0), bring = \<lparr>next_of = (\<lambda>_. 0), prev_of = (\<lambda>_. 0)\<rparr>,
     fring = \<lparr>next_of = (\<lambda>_. 0), prev_of = (\<lambda>_. 0)\<rparr>\<rparr>"

definition heap_base :: heap_state where
  "heap_base = ipc_state.extend (sample\<lparr>containers := (\<lambda>c. if c = RT_Object_Class_MemHeap then [Kobj 25] else [])\<rparr>)
     \<lparr>devices = (\<lambda>_. \<lparr>d_type = 0, d_flag = 0, d_open_flag = 0, d_ref_count = 0, d_ops = Engine_ops, rx_indicate = None, tx_complete = None\<rparr>),
      engine_stopped = 0, garbage_bag_value = 0, speaker_out = [], pin_calls = [],
      heaps = (\<lambda>_. heap_fresh), hmem = heap_mem_zero, hbytes = (\<lambda>_. Some 7)\<rparr>"

definition heap_sample :: heap_state where
  "heap_sample = put_heap 25 (heap_layout 25 0x20001000 0x1000 heap_fresh heap_mem_zero) heap_base"

lemma heap_base_sel [simp]:
  "objects heap_base = objects sample" "sems heap_base = sems sample" "threads heap_base = threads sample"
  "current_thread heap_base = Some 1" "interrupt_nest heap_base = 0" "kernel_inv heap_base"
  "klists heap_base = klists sample" "heaps heap_base = (\<lambda>_. heap_fresh)" "hmem heap_base = heap_mem_zero" "hbytes heap_base = (\<lambda>_. Some 7)"
  "containers heap_base = (\<lambda>c. if c = RT_Object_Class_MemHeap then [Kobj 25] else [])" "scheduler_lock_nest heap_base = 0"
  using sample_kernel_inv kernel_inv_cong [of heap_base sample] by (simp_all add: heap_base_def ipc_state.defs sample_def)

lemma heap_sample_ok:
  "heap_ready 25 heap_sample" "memheap_ok 25 [0x20001000] [0x20001000] (heaps heap_sample 25) (hmem heap_sample)"
  "available_size (heaps heap_sample 25) = 0xfd0" "pool_size (heaps heap_sample 25) = 0x1000"
proof -
  obtain h m where hm: "heap_layout 25 0x20001000 0x1000 heap_fresh heap_mem_zero = (h, m)" by force
  have lay: "memheap_ok 25 [0x20001000] [0x20001000] h m" "start_addr h = 0x20001000" "pool_size h = 0x1000" "lock h = 21"
    using heap_layout_ok [of "0x1000" "0x1000" "0x20001000" heap_fresh 25 heap_mem_zero h m] hm by (auto simp: heap_fresh_def)
  then show "memheap_ok 25 [0x20001000] [0x20001000] (heaps heap_sample 25) (hmem heap_sample)" "pool_size (heaps heap_sample 25) = 0x1000"
    by (simp_all add: heap_sample_def hm)
  have "available_size h = 0xfd0" using hm by (auto simp: heap_layout_def Let_def RT_MEMHEAP_SIZE_def)
  then show "available_size (heaps heap_sample 25) = 0xfd0" by (simp add: heap_sample_def hm)
  have "o_type (objects sample (Kobj 21)) = 0x82" "o_type (objects sample (Kobj 25)) = 0x87" by (simp_all add: sample_def sample_objects_def)
  then show "heap_ready 25 heap_sample"
    using lay(4) by (simp add: heap_sample_def hm heap_ready_def rt_object_get_type_def class_defs sample_def)
qed

lemma heap_sample_good: "heap_good 25 heap_sample" "heap_live 25 heap_sample = {}" "one_heap 25 heap_sample" "heap_mapped 25 heap_sample"
  using heap_sample_ok memheap_ok_blocks(2) [OF heap_sample_ok(2)]
  by (auto simp: heap_good_def one_heap_def heap_mapped_def heap_sample_def put_heap_def)

section \<open>Allocating and releasing\<close>

text \<open>Property C27: the heap serves a request with the first free block of the free list that is large enough. With the
  lock free, a request for \<open>sz\<close> bytes is rounded up; when the rounded size is less than what is available and a free
  block is that large, the first such block is taken whole or split, its memory overlaps no block in use, lies in the
  area and has at least the rounded size; otherwise null is returned and nothing changes.\<close>

theorem heap_alloc_first_fit:
  assumes "heap_ready n s" "memheap_ok n bs fl (heaps s n) (hmem s)"
  shows "case (if heap_size sz < available_size (heaps s n) then first_fit (heap_size sz) (hmem s) fl else None) of
      None \<Rightarrow> rt_memheap_alloc n sz s = Some (Done 0 s)
    | Some a \<Rightarrow> \<exists>xs ys s' l. bs = xs @ a # ys \<and> rt_memheap_alloc n sz s = Some (Done (a + 24) s') \<and> heap_ready n s' \<and>
        memheap_ok n (fst (alloc_lists (heap_size sz) a (MEMITEM_SIZE (hmem s) a) xs ys fl))
          (snd (alloc_lists (heap_size sz) a (MEMITEM_SIZE (hmem s) a) xs ys fl)) (heaps s' n) (hmem s') \<and>
        hbytes s' = hbytes s \<and> unat (heap_size sz) \<le> l \<and> heap_live n s' = insert (a + 24, l) (heap_live n s) \<and>
        block_bytes (a + 24, l) \<subseteq> heap_range n s \<and> (\<forall>b\<in>heap_live n s. block_bytes (a + 24, l) \<inter> block_bytes b = {})"
proof (cases "if heap_size sz < available_size (heaps s n) then first_fit (heap_size sz) (hmem s) fl else None")
  case None
  then have "available_size (heaps s n) \<le> heap_size sz \<or> first_fit (heap_size sz) (hmem s) fl = None"
    by (auto split: if_splits)
  then show ?thesis using rt_memheap_alloc_none [OF assms] None by simp
next
  case (Some a)
  then have "heap_size sz < available_size (heaps s n)" "first_fit (heap_size sz) (hmem s) fl = Some a" by (auto split: if_splits)
  from rt_memheap_alloc_spec [OF assms this] show ?thesis unfolding Some by auto
qed

lemma heap_size_100: "heap_size 100 = 100" by (simp add: heap_size_def align4_def RT_MEMHEAP_MINIALLOC_def)

lemma sample_item_size: "MEMITEM_SIZE (hmem heap_sample) 0x20001000 = 0xfd0"
  using memheap_ok_block(1) [OF heap_sample_ok(2), of "0x20001000"] heap_sample_ok(2,3)
  by (simp add: memheap_ok_def free_sum_def word_unat_eq_iff)

theorem heap_alloc_first_fit_witness:
  "\<exists>s'. rt_memheap_alloc 25 100 heap_sample = Some (Done 0x20001018 s') \<and> heap_blocks 25 s' = [0x20001000, 0x2000107c] \<and>
     rt_memheap_alloc 25 5000 heap_sample = Some (Done 0 heap_sample)"
proof -
  note ok = heap_sample_ok
  have ff: "first_fit 100 (hmem heap_sample) [0x20001000] = Some 0x20001000" by (simp add: first_fit_def sample_item_size)
  obtain xs ys s' where r: "[0x20001000] = xs @ 0x20001000 # ys" "rt_memheap_alloc 25 100 heap_sample = Some (Done (0x20001000 + 24) s')"
    "memheap_ok 25 (fst (alloc_lists 100 0x20001000 0xfd0 xs ys [0x20001000])) (snd (alloc_lists 100 0x20001000 0xfd0 xs ys [0x20001000]))
      (heaps s' 25) (hmem s')"
    using heap_alloc_first_fit [OF ok(1,2), of 100] by (auto simp: heap_size_100 ok(3) ff sample_item_size)
  have xy: "xs = []" "ys = []" using r(1) by (cases xs; simp)+
  have "heap_blocks 25 s' = [0x20001000, 0x2000107c]" using memheap_ok_blocks(1) [OF r(3)] by (simp add: xy alloc_lists_def)
  moreover have "heap_size 5000 = 5000" by (simp add: heap_size_def align4_def RT_MEMHEAP_MINIALLOC_def)
  then have "rt_memheap_alloc 25 5000 heap_sample = Some (Done 0 heap_sample)"
    using heap_alloc_first_fit [OF ok(1,2), of 5000] by (simp add: ok(3))
  ultimately show ?thesis using r(2) by auto
qed

text \<open>Property C28: releasing a block makes it free and joins it with the free blocks beside it, so that no two free
  blocks are ever neighbours; only that block leaves the blocks in use and no byte changes. Releasing a block that is
  already free stops at an assertion.\<close>

theorem heap_free_joins:
  assumes "heap_ready n s" "memheap_ok n (xs @ a # ys) fl (heaps s n) (hmem s)"
  shows "if a \<in> set fl then rt_memheap_free (a + 24) s = None
    else \<exists>s'. rt_memheap_free (a + 24) s = Some (Done () s') \<and> heap_ready n s' \<and>
      memheap_ok n (freed_blocks a xs ys (set fl)) (freed_list a xs ys fl) (heaps s' n) (hmem s') \<and> hbytes s' = hbytes s \<and>
      coalesced (set (freed_list a xs ys fl)) (freed_blocks a xs ys (set fl)) \<and>
      heap_live n s' = heap_live n s - {(a + 24, payload (bring (hmem s)) a)}"
proof (cases "a \<in> set fl")
  case True
  then have "magic (hmem s) a = RT_MEMHEAP_MAGIC OR RT_MEMHEAP_FREED" using assms(2) by (simp add: memheap_ok_def tags_ok_def)
  then show ?thesis using True by (simp add: rt_memheap_free_def magic_defs)
next
  case False
  obtain s' where "rt_memheap_free (a + 24) s = Some (Done () s')" "heap_ready n s'"
    "memheap_ok n (freed_blocks a xs ys (set fl)) (freed_list a xs ys fl) (heaps s' n) (hmem s')" "hbytes s' = hbytes s"
    "heap_live n s' = heap_live n s - {(a + 24, payload (bring (hmem s)) a)}"
    using rt_memheap_free_spec [OF assms False] by blast
  then show ?thesis using False by (auto simp: memheap_ok_def)
qed

text \<open>The sample heap after a block of 100 bytes was allocated.\<close>

lemma sample_alloc:
  obtains s where "rt_memheap_alloc 25 100 heap_sample = Some (Done 0x20001018 s)" "heap_ready 25 s"
    "memheap_ok 25 [0x20001000, 0x2000107c] [0x2000107c] (heaps s 25) (hmem s)" "hbytes s = hbytes heap_sample"
    "heap_range 25 s = heap_range 25 heap_sample" "heap_live 25 s = {(0x20001018, 100)}" "containers s = containers heap_sample"
proof -
  note ok = heap_sample_ok
  have ff: "first_fit (heap_size 100) (hmem heap_sample) [0x20001000] = Some 0x20001000"
    by (simp add: first_fit_def sample_item_size heap_size_100)
  obtain xs ys s where r: "[0x20001000] = xs @ 0x20001000 # ys" "rt_memheap_alloc 25 100 heap_sample = Some (Done (0x20001000 + 24) s)"
    "heap_ready 25 s" "memheap_ok 25 (fst (alloc_lists 100 0x20001000 0xfd0 xs ys [0x20001000])) (snd (alloc_lists 100 0x20001000 0xfd0 xs ys [0x20001000]))
      (heaps s 25) (hmem s)" "hbytes s = hbytes heap_sample" "heap_range 25 s = heap_range 25 heap_sample" "containers s = containers heap_sample"
    using rt_memheap_alloc_spec [OF ok(1,2) _ ff] by (auto simp: heap_size_100 ok(3) sample_item_size)
  have xy: "xs = []" "ys = []" using r(1) by (cases xs; simp)+
  have k: "memheap_ok 25 [0x20001000, 0x2000107c] [0x2000107c] (heaps s 25) (hmem s)" using r(4) by (simp add: xy alloc_lists_def)
  then have "next_of (bring (hmem s)) 0x20001000 = 0x2000107c" by (simp add: memheap_ok_def blocks_ok_def)
  moreover have "set [0x20001000, 0x2000107c] - set [0x2000107c] = {0x20001000 :: nat}" by auto
  ultimately have "heap_live 25 s = {(0x20001018, 100)}" unfolding memheap_ok_blocks(2) [OF k] by (simp add: payload_def)
  then show thesis using that [of s] r k by simp
qed

theorem heap_free_joins_witness:
  "rt_memheap_free (0x20001000 + 24) heap_sample = None \<and>
   (\<exists>s s'. rt_memheap_alloc 25 100 heap_sample = Some (Done 0x20001018 s) \<and> rt_memheap_free 0x20001018 s = Some (Done () s') \<and>
      heap_blocks 25 s' = [0x20001000])"
proof -
  have "rt_memheap_free (0x20001000 + 24) heap_sample = None"
    using heap_free_joins [of 25 heap_sample "[]" "0x20001000" "[]" "[0x20001000]"] heap_sample_ok(1,2) by simp
  moreover obtain s where s: "rt_memheap_alloc 25 100 heap_sample = Some (Done 0x20001018 s)" "heap_ready 25 s"
    "memheap_ok 25 [0x20001000, 0x2000107c] [0x2000107c] (heaps s 25) (hmem s)" by (rule sample_alloc)
  moreover obtain s' where s': "rt_memheap_free 0x20001018 s = Some (Done () s')"
    "memheap_ok 25 (freed_blocks 0x20001000 [] [0x2000107c] {0x2000107c}) (freed_list 0x20001000 [] [0x2000107c] [0x2000107c])
       (heaps s' 25) (hmem s')"
    using heap_free_joins [of 25 s "[]" "0x20001000" "[0x2000107c]" "[0x2000107c]"] s(2,3) by auto
  moreover from this(2) have "heap_blocks 25 s' = [0x20001000]" using memheap_ok_blocks(1) by (fastforce simp: freed_blocks_def)
  ultimately show ?thesis by blast
qed

text \<open>A block allocated and released at once leaves the heap with the blocks it had: what was split is joined
  again, and the number of available bytes and the blocks in use are as before.\<close>

theorem heap_alloc_then_free:
  assumes "heap_ready n s" "memheap_ok n bs fl (heaps s n) (hmem s)" "rt_memheap_alloc n sz s = Some (Done p s1)" "p \<noteq> 0"
  shows "\<exists>s2. rt_memheap_free p s1 = Some (Done () s2) \<and> heap_ready n s2 \<and> heap_blocks n s2 = heap_blocks n s \<and>
    heap_live n s2 = heap_live n s \<and> available_size (heaps s2 n) = available_size (heaps s n) \<and> hbytes s2 = hbytes s"
proof -
  have "\<not> (available_size (heaps s n) \<le> heap_size sz \<or> first_fit (heap_size sz) (hmem s) fl = None)"
    using rt_memheap_alloc_none [OF assms(1,2)] assms(3,4) by fastforce
  then obtain a where a: "heap_size sz < available_size (heaps s n)" "first_fit (heap_size sz) (hmem s) fl = Some a" by auto
  define len where "len = MEMITEM_SIZE (hmem s) a"
  obtain xs ys l where r: "bs = xs @ a # ys" "p = a + 24" "heap_ready n s1" "hbytes s1 = hbytes s" "heap_range n s1 = heap_range n s"
    "memheap_ok n (fst (alloc_lists (heap_size sz) a len xs ys fl)) (snd (alloc_lists (heap_size sz) a len xs ys fl)) (heaps s1 n) (hmem s1)"
    "(a + 24, l) \<notin> heap_live n s" "heap_live n s1 = insert (a + 24, l) (heap_live n s)"
    using rt_memheap_alloc_spec [OF assms(1,2) a] assms(3) unfolding len_def by auto
  have ok: "memheap_ok n (xs @ a # ys) fl (heaps s n) (hmem s)" using assms(2) r(1) by simp
  have af: "a \<in> set fl" using first_fit_SomeD [OF a(2)] by simp
  define vs where "vs = (if heap_size sz + 36 \<le> len then (a + 24 + unat (heap_size sz)) # ys else ys)"
  define gl where "gl = snd (alloc_lists (heap_size sz) a len xs ys fl)"
  note ls = alloc_free_lists [OF ok af r(6), folded vs_def gl_def]
  have ok1: "memheap_ok n (xs @ a # vs) gl (heaps s1 n) (hmem s1)" using r(6) ls(1) by (simp add: gl_def)
  obtain s2 where s2: "rt_memheap_free p s1 = Some (Done () s2)" "heap_ready n s2" "hbytes s2 = hbytes s1" "heap_range n s2 = heap_range n s1"
    "memheap_ok n (xs @ a # ys) (freed_list a xs vs gl) (heaps s2 n) (hmem s2)"
    "heap_live n s2 = heap_live n s1 - {(a + 24, payload (bring (hmem s1)) a)}"
    using rt_memheap_free_spec [OF r(3) ok1 ls(2)] r(2) ls(3) by auto
  have "(a + 24, payload (bring (hmem s1)) a) \<in> heap_live n s1" using memheap_ok_blocks(2) [OF ok1] ls(2) by auto
  moreover have "(a + 24, k) \<notin> heap_live n s" for k using memheap_ok_blocks(2) [OF ok] af by auto
  ultimately have "heap_live n s2 = heap_live n s" using s2(6) r(8) by auto
  moreover have "heap_blocks n s2 = heap_blocks n s" using memheap_ok_blocks(1) [OF ok] memheap_ok_blocks(1) [OF s2(5)] by simp
  moreover have "available_size (heaps s2 n) = available_size (heaps s n)"
    using s2(4) r(5) ls(4) available_determined [OF ok s2(5)] by simp
  ultimately show ?thesis using s2 r(4) by auto
qed

theorem heap_alloc_then_free_witness:
  "\<exists>s1 s2. rt_memheap_alloc 25 100 heap_sample = Some (Done 0x20001018 s1) \<and> rt_memheap_free 0x20001018 s1 = Some (Done () s2) \<and>
     available_size (heaps s2 25) = 0xfd0"
proof -
  obtain s1 where s1: "rt_memheap_alloc 25 100 heap_sample = Some (Done 0x20001018 s1)" by (rule sample_alloc)
  show ?thesis using heap_alloc_then_free [OF heap_sample_ok(1,2) s1] s1 heap_sample_ok(3) by auto
qed

text \<open>Property C6: no two blocks of the heap ever overlap. The heap is set up while the system starts; after that, however
  a client asks for blocks and gives blocks back that it holds, every call returns, the blocks in use are exactly those
  it holds, each lies in the area of the heap at an address that is a multiple of 4, and no two of them share a byte.\<close>

theorem heap_blocks_never_overlap:
  assumes "current_thread s = None" "scheduler_lock_nest s = 0" "lock (heaps s sys) \<noteq> sys"
    "Kobj sys \<notin> set (containers s RT_Object_Class_MemHeap)" "Kobj (lock (heaps s sys)) \<notin> set (containers s RT_Object_Class_Semaphore)"
    "0 < begin_addr" "begin_addr < end_addr" "60 \<le> unat ((end_addr - begin_addr) AND NOT 3)"
    "\<not> (unat begin_addr \<le> free_header (heaps s sys) \<and> free_header (heaps s sys) + 24 \<le> unat end_addr)"
    "4 dvd unat begin_addr"
  shows "\<exists>s1 held s2. rt_system_heap_init sys begin_addr end_addr s = Some s1 \<and>
    serve (alloc_now sys) free_now rs [] s1 = Some (held, s2) \<and> distinct held \<and> fst ` heap_live sys s2 = set held \<and>
    (\<forall>b\<in>heap_live sys s2. 4 dvd fst b \<and> 12 \<le> snd b \<and> block_bytes b \<subseteq> {unat begin_addr ..< unat end_addr}) \<and>
    (\<forall>b\<in>heap_live sys s2. \<forall>c\<in>heap_live sys s2. b \<noteq> c \<longrightarrow> block_bytes b \<inter> block_bytes c = {})"
proof -
  obtain s1 where s1: "rt_system_heap_init sys begin_addr end_addr s = Some s1" "heap_good sys s1" "heap_live sys s1 = {}"
    "heap_range sys s1 = {unat begin_addr ..< unat begin_addr + unat ((end_addr - begin_addr) AND NOT 3)}"
    using system_heap_init_good [OF assms(1,2,4,3,5-10)] by blast
  have "\<And>sz. 0 < unat (heap_size sz)" using heap_size_bounds(3) by (metis gr0I not_numeral_le_zero)
  then obtain held s2 where r: "serve (alloc_now sys) free_now rs [] s1 = Some (held, s2)" "heap_good sys s2"
    "fst ` heap_live sys s2 = set held" "distinct held" "pairwise (\<lambda>b c. block_bytes b \<inter> block_bytes c = {}) (heap_live sys s2)"
    "\<forall>b\<in>heap_live sys s2. block_bytes b \<subseteq> heap_range sys s1"
    using mh.serve_apart [OF s1(2), of "[]" rs] s1(3) by auto
  have "unat ((end_addr - begin_addr) AND NOT 3) \<le> unat (end_addr - begin_addr)" using and_not_3 [of "end_addr - begin_addr"] by simp
  moreover have "unat (end_addr - begin_addr) = unat end_addr - unat begin_addr" using assms(7) by (simp add: unat_sub less_imp_le)
  ultimately have "heap_range sys s1 \<subseteq> {unat begin_addr ..< unat end_addr}"
    using s1(4) assms(7) by (auto simp: word_less_nat_alt)
  then have "4 dvd fst b \<and> 12 \<le> snd b \<and> block_bytes b \<subseteq> {unat begin_addr ..< unat end_addr}" if "b \<in> heap_live sys s2" for b
    using that r(6) heap_live_range(2,4) [OF r(2)] by blast
  then show ?thesis using s1(1) r by (intro exI [of _ s1] exI [of _ held] exI [of _ s2]) (auto simp: pairwise_def)
qed

theorem heap_blocks_never_overlap_witness:
  "\<exists>s1 held s2. rt_system_heap_init 41 0x20002000 0x20003000 (heap_base\<lparr>current_thread := None\<rparr>) = Some s1 \<and>
     serve (alloc_now 41) free_now [Get 100, Get 20, Give 0, Get 8] [] s1 = Some (held, s2) \<and> distinct held"
  using heap_blocks_never_overlap [of "heap_base\<lparr>current_thread := None\<rparr>" 41 "0x20002000" "0x20003000" "[Get 100, Get 20, Give 0, Get 8]"]
  by (auto simp: heap_fresh_def)

section \<open>The calls of the system\<close>



text \<open>\<^verbatim>\<open>rt_calloc\<close> returns null, having changed nothing, or a block for all the elements whose bytes are zero;
  no other byte of the memory changes. The number of bytes must not overflow.\<close>

theorem calloc_zeroes:
  assumes "heap_good sys s" "one_heap sys s" "heap_mapped sys s" "unat count * unat sz + 3 < 2 ^ 32"
  shows "rt_calloc sys count sz s = Some (Done 0 s) \<or>
    (\<exists>p l s'. rt_calloc sys count sz s = Some (Done p s') \<and> p \<noteq> 0 \<and> heap_good sys s' \<and> unat count * unat sz \<le> l \<and>
      heap_live sys s' = insert (p, l) (heap_live sys s) \<and> (\<forall>b\<in>heap_live sys s. block_bytes (p, l) \<inter> block_bytes b = {}) \<and>
      (\<forall>x. hbytes s' x = (if p \<le> x \<and> x < p + unat count * unat sz then Some 0 else hbytes s x)))"
  using rt_calloc_good [OF assms] .

theorem calloc_zeroes_witness:
  "\<exists>p s'. rt_calloc 25 5 8 heap_sample = Some (Done p s') \<and> (p \<noteq> 0 \<longrightarrow> hbytes s' (p + 39) = Some 0 \<and> hbytes s' (p + 40) = Some 7)"
proof -
  have b: "hbytes heap_sample x = Some 7" for x by (simp add: heap_sample_def)
  have "unat (5 :: u32) * unat (8 :: u32) = 40" by simp
  then show ?thesis using calloc_zeroes [OF heap_sample_good(1,3,4), of 5 8] b by fastforce
qed

text \<open>The lock protects the heap. A thread that asks for memory while another thread holds the lock is
  suspended on it and has changed nothing of the heap. When it runs again without an error it has the lock: it
  works on the heap as that is then, releases the lock and returns. Woken by an error, it returns null and sets it as its
  error number.\<close>

theorem heap_alloc_waits_for_lock:
  fixes s :: "'a heap_state_scheme"
  assumes "kernel_inv s" "sem_inv (lock (heaps s n)) s" "current_thread s = Some c" "interrupt_nest s = 0"
    "stat_base (threads s c) = RT_THREAD_RUNNING" "sems s (lock (heaps s n)) = 0"
    "rt_object_get_type (Kobj n) s = RT_Object_Class_MemHeap" "heap_size sz < available_size (heaps s n)"
  shows "\<exists>s1 k. rt_memheap_alloc n sz s = Some (Sleep s1 k) \<and> kernel_inv s1 \<and> stat_base (threads s1 c) = RT_THREAD_SUSPEND \<and>
    c \<in> set (klists s1 (Susp (lock (heaps s n)))) \<and> heaps s1 = heaps s \<and> hmem s1 = hmem s \<and> hbytes s1 = hbytes s \<and>
    (\<forall>s2. k s2 = (if t_error (threads s2 c) \<noteq> RT_EOK then Some (Done 0 (rt_set_errno (t_error (threads s2 c)) s2))
       else do {
         (p, hm) \<leftarrow> alloc_block n (heap_size sz) (heaps s2 n) (hmem s2);
         s3 \<leftarrow> heap_unlock n (put_heap n hm s2);
         Some (Done p s3) }))"
proof -
  obtain s1 k where r: "rt_memheap_alloc n sz s = Some (Sleep s1 k)" "kernel_inv s1" "stat_base (threads s1 c) = RT_THREAD_SUSPEND"
    "c \<in> set (klists s1 (Susp (lock (heaps s n))))" "heaps s1 = heaps s" "hmem s1 = hmem s" "hbytes s1 = hbytes s"
    "\<forall>s2. t_error (threads s2 c) \<noteq> RT_EOK \<longrightarrow> k s2 = Some (Done 0 (rt_set_errno (t_error (threads s2 c)) s2))"
    "\<forall>s2. t_error (threads s2 c) = RT_EOK \<longrightarrow> k s2 = do { (p, hm) \<leftarrow> alloc_block n (heap_size sz) (heaps s2 n) (hmem s2);
       s3 \<leftarrow> heap_unlock n (put_heap n hm s2); Some (Done p s3) }"
    using alloc_waits [OF assms] by blast
  then show ?thesis by (intro exI [of _ s1] exI [of _ k]) simp
qed

theorem heap_alloc_waits_for_lock_witness:
  "\<exists>s1 k. rt_memheap_alloc 25 100 (sem_set 21 0 heap_sample) = Some (Sleep s1 k) \<and> stat_base (threads s1 1) = RT_THREAD_SUSPEND \<and>
     hmem s1 = hmem heap_sample"
proof -
  let ?s = "sem_set 21 0 heap_sample"
  have hs: "threads heap_sample = threads sample" "klists heap_sample = klists sample" "objects heap_sample = objects sample"
    "kernel_inv heap_sample" "current_thread heap_sample = Some 1" "interrupt_nest heap_sample = 0"
    using kernel_inv_cong [of heap_sample heap_base] by (simp_all add: heap_sample_def put_heap_def)
  have l: "lock (heaps heap_sample 25) = 21" by (simp add: heap_sample_def heap_layout_def Let_def heap_fresh_def)
  have "sem_inv 21 ?s" using sample_sem hs by (simp add: sem_inv_def rt_object_get_type_def)
  moreover have "rt_object_get_type (Kobj 25) ?s = RT_Object_Class_MemHeap"
    using heap_sample_ok(1) by (simp add: heap_ready_def rt_object_get_type_def)
  moreover have "stat_base (threads ?s 1) = RT_THREAD_RUNNING" by (simp add: hs sample_def)
  moreover have "interrupt_nest ?s = 0" using hs(6) by (simp add: sem_set_def)
  ultimately show ?thesis
    using heap_alloc_waits_for_lock [of ?s 25 1 100] hs l heap_sample_ok(3) by (auto simp: heap_size_100)
qed



end
