(* ===== verification/Ringbuffer.thy ===== *)
theory Ringbuffer
  imports Mailbox Kservice
begin

text \<open>
  The ring buffer of the drivers (\<^verbatim>\<open>components/drivers/src/ringbuffer.c\<close>): bytes in an area of memory, a read and a write
  index of 15 bits, and for each a mirror bit that flips when the index passes the end, so that a full buffer is told
  from an empty one. The size is a signed 16-bit number. Sizes the code keeps in \<^verbatim>\<open>rt_size_t\<close> are 32-bit words.

  An operation takes the buffer and the memory and returns both; \<^verbatim>\<open>memcpy\<close> here is that of the C library, which has no
  meaning for ranges that overlap. The buffer refines a bounded queue of bytes.
\<close>

section \<open>The buffer\<close>

record rt_ringbuffer =
  buffer_ptr :: nat
  read_mirror :: "1 word"
  read_index :: "15 word"
  write_mirror :: "1 word"
  write_index :: "15 word"
  buffer_size :: u16

datatype rt_ringbuffer_state = RT_RINGBUFFER_EMPTY | RT_RINGBUFFER_FULL | RT_RINGBUFFER_HALFFULL

definition c_memcpy :: "nat \<Rightarrow> nat \<Rightarrow> nat \<Rightarrow> mem \<Rightarrow> mem option" where
  "c_memcpy dst src k m = (if k = 0 \<or> dst + k \<le> src \<or> src + k \<le> dst then copy_bytes dst src k m else None)"

text \<open>An \<^verbatim>\<open>int\<close> passed where a \<^verbatim>\<open>size_t\<close> is expected.\<close>

definition as_size :: "int \<Rightarrow> nat" where
  "as_size i = nat (i mod 2 ^ 32)"

definition rt_ringbuffer_status :: "rt_ringbuffer \<Rightarrow> rt_ringbuffer_state" where
  "rt_ringbuffer_status rb =
     (if read_index rb = write_index rb
      then if read_mirror rb = write_mirror rb then RT_RINGBUFFER_EMPTY else RT_RINGBUFFER_FULL
      else RT_RINGBUFFER_HALFFULL)"

definition rt_ringbuffer_data_len :: "rt_ringbuffer \<Rightarrow> u32" where
  "rt_ringbuffer_data_len rb =
     (case rt_ringbuffer_status rb of
        RT_RINGBUFFER_EMPTY \<Rightarrow> 0
      | RT_RINGBUFFER_FULL \<Rightarrow> scast (buffer_size rb)
      | RT_RINGBUFFER_HALFFULL \<Rightarrow>
          (let wi = ucast (write_index rb); ri = ucast (read_index rb)
           in if wi > ri then wi - ri else scast (buffer_size rb) - (ri - wi)))"

definition rt_ringbuffer_space_len :: "rt_ringbuffer \<Rightarrow> u32" where
  "rt_ringbuffer_space_len rb = scast (buffer_size rb) - rt_ringbuffer_data_len rb"

definition rt_ringbuffer_get_size :: "rt_ringbuffer \<Rightarrow> u16" where
  "rt_ringbuffer_get_size rb = buffer_size rb"

definition rt_ringbuffer_init :: "nat \<Rightarrow> u16 \<Rightarrow> rt_ringbuffer option" where
  "rt_ringbuffer_init pool sz = do {
     _ \<leftarrow> RT_ASSERT (sint sz > 0);
     Some \<lparr>buffer_ptr = pool, read_mirror = 0, read_index = 0, write_mirror = 0, write_index = 0,
           buffer_size = sz AND NOT 3\<rparr>
   }"

definition rt_ringbuffer_reset :: "rt_ringbuffer \<Rightarrow> rt_ringbuffer" where
  "rt_ringbuffer_reset rb = rb\<lparr>read_mirror := 0, read_index := 0, write_mirror := 0, write_index := 0\<rparr>"

section \<open>Blocks of bytes\<close>

definition rt_ringbuffer_put :: "nat \<Rightarrow> u16 \<Rightarrow> rt_ringbuffer \<Rightarrow> mem \<Rightarrow> (u32 \<times> rt_ringbuffer \<times> mem) option" where
  "rt_ringbuffer_put ptr len rb m =
     (let sz = (ucast (rt_ringbuffer_space_len rb) :: u16)
      in if sz = 0 then Some (0, rb, m)
         else do {
           let l = (if sz < len then sz else len);
           let room = sint (buffer_size rb) - uint (write_index rb);
           if room > uint l then do {
             m1 \<leftarrow> c_memcpy (buffer_ptr rb + unat (write_index rb)) ptr (unat l) m;
             Some (ucast l, rb\<lparr>write_index := write_index rb + ucast l\<rparr>, m1)
           } else do {
             m1 \<leftarrow> c_memcpy (buffer_ptr rb + unat (write_index rb)) ptr (as_size room) m;
             m2 \<leftarrow> c_memcpy (buffer_ptr rb) (nat (int ptr + room)) (as_size (uint l - room)) m1;
             Some (ucast l, rb\<lparr>write_mirror := NOT (write_mirror rb), write_index := word_of_int (uint l - room)\<rparr>, m2)
           }
         })"

definition rt_ringbuffer_put_force :: "nat \<Rightarrow> u16 \<Rightarrow> rt_ringbuffer \<Rightarrow> mem \<Rightarrow> (u32 \<times> rt_ringbuffer \<times> mem) option" where
  "rt_ringbuffer_put_force ptr0 len0 rb m = do {
     let space_length = (ucast (rt_ringbuffer_space_len rb) :: u16);
     let (ptr, l) = (if uint len0 > sint (buffer_size rb)
                     then (nat (int ptr0 + (uint len0 - sint (buffer_size rb))), buffer_size rb) else (ptr0, len0));
     let room = sint (buffer_size rb) - uint (write_index rb);
     if room > uint l then do {
       m1 \<leftarrow> c_memcpy (buffer_ptr rb + unat (write_index rb)) ptr (unat l) m;
       let rb1 = rb\<lparr>write_index := write_index rb + ucast l\<rparr>;
       Some (ucast l, if l > space_length then rb1\<lparr>read_index := write_index rb1\<rparr> else rb1, m1)
     } else do {
       m1 \<leftarrow> c_memcpy (buffer_ptr rb + unat (write_index rb)) ptr (as_size room) m;
       m2 \<leftarrow> c_memcpy (buffer_ptr rb) (nat (int ptr + room)) (as_size (uint l - room)) m1;
       let rb1 = rb\<lparr>write_mirror := NOT (write_mirror rb), write_index := word_of_int (uint l - room)\<rparr>;
       Some (ucast l,
         if l > space_length then
           (let rb2 = (if write_index rb1 \<le> read_index rb1 then rb1\<lparr>read_mirror := NOT (read_mirror rb1)\<rparr> else rb1)
            in rb2\<lparr>read_index := write_index rb2\<rparr>)
         else rb1, m2)
     }
   }"

definition rt_ringbuffer_get :: "nat \<Rightarrow> u16 \<Rightarrow> rt_ringbuffer \<Rightarrow> mem \<Rightarrow> (u32 \<times> rt_ringbuffer \<times> mem) option" where
  "rt_ringbuffer_get ptr len rb m =
     (let sz = rt_ringbuffer_data_len rb
      in if sz = 0 then Some (0, rb, m)
         else do {
           let l = (if sz < ucast len then ucast sz else len);
           let room = sint (buffer_size rb) - uint (read_index rb);
           if room > uint l then do {
             m1 \<leftarrow> c_memcpy ptr (buffer_ptr rb + unat (read_index rb)) (unat l) m;
             Some (ucast l, rb\<lparr>read_index := read_index rb + ucast l\<rparr>, m1)
           } else do {
             m1 \<leftarrow> c_memcpy ptr (buffer_ptr rb + unat (read_index rb)) (as_size room) m;
             m2 \<leftarrow> c_memcpy (nat (int ptr + room)) (buffer_ptr rb) (as_size (uint l - room)) m1;
             Some (ucast l, rb\<lparr>read_mirror := NOT (read_mirror rb), read_index := word_of_int (uint l - room)\<rparr>, m2)
           }
         })"

text \<open>The pointer to the first byte that can be read, \<open>None\<close> the null pointer; the bytes count as read.\<close>

definition rt_ringbuffer_peak :: "rt_ringbuffer \<Rightarrow> nat option \<times> u32 \<times> rt_ringbuffer" where
  "rt_ringbuffer_peak rb =
     (let sz = rt_ringbuffer_data_len rb
      in if sz = 0 then (None, 0, rb)
         else
           let ptr = buffer_ptr rb + unat (read_index rb);
               room = (word_of_int (sint (buffer_size rb) - uint (read_index rb)) :: u32)
           in if room > sz then (Some ptr, sz, rb\<lparr>read_index := read_index rb + ucast sz\<rparr>)
              else (Some ptr, room, rb\<lparr>read_mirror := NOT (read_mirror rb), read_index := 0\<rparr>))"

section \<open>Single bytes\<close>

definition rt_ringbuffer_putchar :: "u8 \<Rightarrow> rt_ringbuffer \<Rightarrow> mem \<Rightarrow> (u32 \<times> rt_ringbuffer \<times> mem) option" where
  "rt_ringbuffer_putchar ch rb m =
     (if rt_ringbuffer_space_len rb = 0 then Some (0, rb, m)
      else do {
        m1 \<leftarrow> wr (buffer_ptr rb + unat (write_index rb)) ch m;
        Some (1, if uint (write_index rb) = sint (buffer_size rb) - 1
                 then rb\<lparr>write_mirror := NOT (write_mirror rb), write_index := 0\<rparr>
                 else rb\<lparr>write_index := write_index rb + 1\<rparr>, m1)
      })"

definition rt_ringbuffer_putchar_force :: "u8 \<Rightarrow> rt_ringbuffer \<Rightarrow> mem \<Rightarrow> (u32 \<times> rt_ringbuffer \<times> mem) option" where
  "rt_ringbuffer_putchar_force ch rb m = do {
     let old_state = rt_ringbuffer_status rb;
     m1 \<leftarrow> wr (buffer_ptr rb + unat (write_index rb)) ch m;
     let rb1 = (if uint (write_index rb) = sint (buffer_size rb) - 1 then
                  (let rb0 = rb\<lparr>write_mirror := NOT (write_mirror rb), write_index := 0\<rparr>
                   in if old_state = RT_RINGBUFFER_FULL
                      then rb0\<lparr>read_mirror := NOT (read_mirror rb0), read_index := write_index rb0\<rparr> else rb0)
                else
                  (let rb0 = rb\<lparr>write_index := write_index rb + 1\<rparr>
                   in if old_state = RT_RINGBUFFER_FULL then rb0\<lparr>read_index := write_index rb0\<rparr> else rb0));
     Some (1, rb1, m1)
   }"

text \<open>The byte is \<open>None\<close> when there is none.\<close>

definition rt_ringbuffer_getchar :: "rt_ringbuffer \<Rightarrow> mem \<Rightarrow> (u8 option \<times> rt_ringbuffer) option" where
  "rt_ringbuffer_getchar rb m =
     (if rt_ringbuffer_data_len rb = 0 then Some (None, rb)
      else do {
        ch \<leftarrow> m (buffer_ptr rb + unat (read_index rb));
        Some (Some ch, if uint (read_index rb) = sint (buffer_size rb) - 1
                       then rb\<lparr>read_mirror := NOT (read_mirror rb), read_index := 0\<rparr>
                       else rb\<lparr>read_index := read_index rb + 1\<rparr>)
      })"

section \<open>Indices\<close>

definition rb_cap :: "rt_ringbuffer \<Rightarrow> nat" where
  "rb_cap rb = unat (buffer_size rb)"

definition rb_ok :: "rt_ringbuffer \<Rightarrow> bool" where
  "rb_ok rb \<longleftrightarrow> rb_cap rb < 2 ^ 15 \<and> unat (read_index rb) < rb_cap rb \<and> unat (write_index rb) < rb_cap rb \<and>
     (if read_mirror rb = write_mirror rb then read_index rb \<le> write_index rb else write_index rb \<le> read_index rb)"

definition rb_count :: "rt_ringbuffer \<Rightarrow> nat" where
  "rb_count rb = (if read_mirror rb = write_mirror rb then unat (write_index rb) - unat (read_index rb)
                  else rb_cap rb - (unat (read_index rb) - unat (write_index rb)))"

lemma sint_small: "unat w < 2 ^ 15 \<Longrightarrow> sint w = int (unat w)" for w :: u16
  by (simp add: sint_uint signed_take_bit_int_eq_self uint_nat del: of_nat_unat)

lemma rb_size: "rb_ok rb \<Longrightarrow> sint (buffer_size rb) = int (rb_cap rb)"
  by (simp add: rb_ok_def rb_cap_def sint_small)

lemma rb_scast: "rb_ok rb \<Longrightarrow> scast (buffer_size rb) = (of_nat (rb_cap rb) :: u32)"
  by (simp add: scast_eq rb_size)

lemma mirror_flip: "a \<noteq> b \<Longrightarrow> NOT a = b" "a = b \<Longrightarrow> NOT a \<noteq> b" for a b :: "1 word"
proof -
  have "x = 0 \<or> x = 1" for x :: "1 word"
    using unsigned_less [of x, where ?'a = nat] by (simp add: word_unat_eq_iff) linarith
  from this [of a] this [of b]
  show "a \<noteq> b \<Longrightarrow> NOT a = b" "a = b \<Longrightarrow> NOT a \<noteq> b" by auto
qed

lemma rb_count_le: "rb_ok rb \<Longrightarrow> rb_count rb \<le> rb_cap rb"
  by (auto simp: rb_ok_def rb_count_def)

lemma mod_wrap: "x < 2 * n \<Longrightarrow> x mod n = (if x < n then x else x - n)" for n :: nat
  by (simp add: le_mod_geq)

lemma rb_count_write:
  assumes "rb_ok rb"
  shows "unat (write_index rb) = (unat (read_index rb) + rb_count rb) mod rb_cap rb"
proof -
  have "unat (read_index rb) + rb_count rb < 2 * rb_cap rb" using rb_count_le [OF assms] assms by (simp add: rb_ok_def)
  from mod_wrap [OF this] show ?thesis using assms by (auto simp: rb_ok_def rb_count_def word_le_nat_alt)
qed

lemma data_len_count: "rb_ok rb \<Longrightarrow> rt_ringbuffer_data_len rb = of_nat (rb_count rb)"
proof -
  assume ok: "rb_ok rb"
  have up: "unat (ucast x :: u32) = unat x" for x :: "15 word"
    using unsigned_less [of x, where ?'a = nat] by (simp add: unsigned_ucast_eq take_bit_nat_eq_self)
  show ?thesis
    using ok unfolding rt_ringbuffer_data_len_def rt_ringbuffer_status_def rb_scast [OF ok]
    by (auto simp: rb_ok_def rb_count_def word_le_nat_alt word_less_nat_alt up Let_def word_unat_eq_iff [of "read_index rb"])
qed

lemma space_len_count: "rb_ok rb \<Longrightarrow> rt_ringbuffer_space_len rb = of_nat (rb_cap rb - rb_count rb)"
  by (simp add: rt_ringbuffer_space_len_def rb_scast data_len_count of_nat_diff rb_count_le)

lemma rb_small: "rb_ok rb \<Longrightarrow> k \<le> rb_cap rb \<Longrightarrow> unat (of_nat k :: u32) = k" "rb_ok rb \<Longrightarrow> k \<le> rb_cap rb \<Longrightarrow> unat (of_nat k :: u16) = k"
  "rb_ok rb \<Longrightarrow> k \<le> rb_cap rb \<Longrightarrow> unat (of_nat k :: 15 word) = k"
  by (auto simp: rb_ok_def unat_of_nat)

lemma rb_cast:
  assumes "rb_ok rb" "k \<le> rb_cap rb"
  shows "(ucast (of_nat k :: u32) :: u16) = of_nat k" "(ucast (of_nat k :: u16) :: u32) = of_nat k"
    "(ucast (of_nat k :: u32) :: 15 word) = of_nat k"
proof -
  have "k < 2 ^ 15" using assms by (simp add: rb_ok_def)
  then show "(ucast (of_nat k :: u32) :: u16) = of_nat k" "(ucast (of_nat k :: u16) :: u32) = of_nat k"
    "(ucast (of_nat k :: u32) :: 15 word) = of_nat k"
    unfolding word_unat_eq_iff unsigned_ucast_eq rb_small [OF assms] by (simp_all add: take_bit_nat_eq_self)
qed

text \<open>Moving the indices: \<open>k\<close> bytes written or read.\<close>

definition write_adv :: "nat \<Rightarrow> rt_ringbuffer \<Rightarrow> rt_ringbuffer" where
  "write_adv k rb =
     (if unat (write_index rb) + k < rb_cap rb then rb\<lparr>write_index := of_nat (unat (write_index rb) + k)\<rparr>
      else rb\<lparr>write_mirror := NOT (write_mirror rb), write_index := of_nat (unat (write_index rb) + k - rb_cap rb)\<rparr>)"

definition read_adv :: "nat \<Rightarrow> rt_ringbuffer \<Rightarrow> rt_ringbuffer" where
  "read_adv k rb =
     (if unat (read_index rb) + k < rb_cap rb then rb\<lparr>read_index := of_nat (unat (read_index rb) + k)\<rparr>
      else rb\<lparr>read_mirror := NOT (read_mirror rb), read_index := of_nat (unat (read_index rb) + k - rb_cap rb)\<rparr>)"

lemma adv_sel [simp]:
  "buffer_ptr (write_adv k rb) = buffer_ptr rb" "buffer_size (write_adv k rb) = buffer_size rb" "rb_cap (write_adv k rb) = rb_cap rb"
  "read_index (write_adv k rb) = read_index rb" "read_mirror (write_adv k rb) = read_mirror rb"
  "buffer_ptr (read_adv k rb) = buffer_ptr rb" "buffer_size (read_adv k rb) = buffer_size rb" "rb_cap (read_adv k rb) = rb_cap rb"
  "write_index (read_adv k rb) = write_index rb" "write_mirror (read_adv k rb) = write_mirror rb"
  by (simp_all add: write_adv_def read_adv_def rb_cap_def)

lemma write_adv_ok:
  assumes ok: "rb_ok rb" and k: "k \<le> rb_cap rb - rb_count rb"
  shows "rb_ok (write_adv k rb)" "rb_count (write_adv k rb) = rb_count rb + k"
proof -
  let ?w = "unat (write_index rb)"
  let ?v = "if ?w + k < rb_cap rb then ?w + k else ?w + k - rb_cap rb"
  have "?v \<le> rb_cap rb" using ok k by (auto simp: rb_ok_def)
  then have v: "unat (write_index (write_adv k rb)) = ?v" using rb_small(3) [OF ok, of ?v]
    by (simp add: write_adv_def del: of_nat_add of_nat_diff of_nat_unat split: if_splits)
  have mir: "write_mirror (write_adv k rb) = (if ?w + k < rb_cap rb then write_mirror rb else NOT (write_mirror rb))"
    by (simp add: write_adv_def)
  note mirror_flip [of "write_mirror rb" "read_mirror rb"]
  then show "rb_ok (write_adv k rb)" "rb_count (write_adv k rb) = rb_count rb + k"
    using ok k unfolding rb_ok_def rb_count_def word_le_nat_alt v mir adv_sel by (auto split: if_splits)
qed

lemma read_adv_ok:
  assumes ok: "rb_ok rb" and k: "k \<le> rb_count rb"
  shows "rb_ok (read_adv k rb)" "rb_count (read_adv k rb) = rb_count rb - k"
    "unat (read_index (read_adv k rb)) = (unat (read_index rb) + k) mod rb_cap rb"
proof -
  let ?r = "unat (read_index rb)"
  let ?v = "if ?r + k < rb_cap rb then ?r + k else ?r + k - rb_cap rb"
  have "?v \<le> rb_cap rb" using ok k rb_count_le [OF ok] by (auto simp: rb_ok_def)
  then have v: "unat (read_index (read_adv k rb)) = ?v" using rb_small(3) [OF ok, of ?v]
    by (simp add: read_adv_def del: of_nat_add of_nat_diff of_nat_unat split: if_splits)
  have mir: "read_mirror (read_adv k rb) = (if ?r + k < rb_cap rb then read_mirror rb else NOT (read_mirror rb))"
    by (simp add: read_adv_def)
  note mirror_flip [of "read_mirror rb" "write_mirror rb"]
  then show "rb_ok (read_adv k rb)" "rb_count (read_adv k rb) = rb_count rb - k"
    using ok k unfolding rb_ok_def rb_count_def word_le_nat_alt v mir adv_sel by (auto split: if_splits)
  show "unat (read_index (read_adv k rb)) = (?r + k) mod rb_cap rb"
    unfolding v using ok k rb_count_le [OF ok] by (simp add: rb_ok_def mod_wrap)
qed

section \<open>Copying into and out of the ring\<close>

lemma c_memcpy_spec:
  assumes "mapped dst k m" "mapped src k m" "k = 0 \<or> dst + k \<le> src \<or> src + k \<le> dst"
  shows "c_memcpy dst src k m = Some (moved dst src k m)"
  using assms copy_bytes_spec [of dst k m src] by (auto simp: c_memcpy_def upward_def)

definition ring_write :: "nat \<Rightarrow> nat \<Rightarrow> nat \<Rightarrow> nat \<Rightarrow> nat \<Rightarrow> mem \<Rightarrow> mem option" where
  "ring_write p n w src l m =
     (if w + l < n then c_memcpy (p + w) src l m
      else do { m1 \<leftarrow> c_memcpy (p + w) src (n - w) m; c_memcpy p (src + (n - w)) (l - (n - w)) m1 })"

definition ring_read :: "nat \<Rightarrow> nat \<Rightarrow> nat \<Rightarrow> nat \<Rightarrow> nat \<Rightarrow> mem \<Rightarrow> mem option" where
  "ring_read p n r dst l m =
     (if r + l < n then c_memcpy dst (p + r) l m
      else do { m1 \<leftarrow> c_memcpy dst (p + r) (n - r) m; c_memcpy (dst + (n - r)) p (l - (n - r)) m1 })"

definition apart :: "nat \<Rightarrow> nat \<Rightarrow> nat \<Rightarrow> nat \<Rightarrow> bool" where
  "apart a k p n \<longleftrightarrow> k = 0 \<or> a + k \<le> p \<or> p + n \<le> a"

lemma ring_write_spec:
  assumes p: "mapped p n m" and src: "mapped src l m" "apart src l p n" and w: "w < n" "l \<le> n"
  shows "\<exists>m'. ring_write p n w src l m = Some m' \<and> (\<forall>i<l. m' (p + (w + i) mod n) = m (src + i)) \<and>
    (\<forall>i<n. l \<le> i \<longrightarrow> m' (p + (w + i) mod n) = m (p + (w + i) mod n)) \<and> (\<forall>x. x < p \<or> p + n \<le> x \<longrightarrow> m' x = m x)"
proof (cases "w + l < n")
  case True
  have "c_memcpy (p + w) src l m = Some (moved (p + w) src l m)"
    by (rule c_memcpy_spec [OF mapped_mono [OF p] src(1)]) (use src(2) True in \<open>auto simp: apart_def\<close>)
  moreover have "(w + i) mod n = (if w + i < n then w + i else w + i - n)" if "i < n" for i using that w by (simp add: mod_wrap)
  ultimately show ?thesis using True w by (auto simp: ring_write_def moved_def)
next
  case False
  let ?k = "n - w"
  let ?m1 = "moved (p + w) src ?k m"
  have k: "?k \<le> l" "src + ?k + (l - ?k) = src + l" using False by auto
  have "c_memcpy (p + w) src ?k m = Some ?m1"
    by (rule c_memcpy_spec [OF mapped_mono [OF p] mapped_mono [OF src(1)]]) (use src(2) k w in \<open>auto simp: apart_def\<close>)
  moreover have "c_memcpy p (src + ?k) (l - ?k) ?m1 = Some (moved p (src + ?k) (l - ?k) ?m1)"
  proof (rule c_memcpy_spec)
    have s: "mapped src ?k m" by (rule mapped_mono [OF src(1)]) (use k in simp_all)
    show "mapped p (l - ?k) ?m1" by (rule mapped_moved [OF s mapped_mono [OF p]]) (use w k in simp_all)
    show "mapped (src + ?k) (l - ?k) ?m1" by (rule mapped_moved [OF s mapped_mono [OF src(1)]]) (use k in simp_all)
  qed (use src(2) w k in \<open>auto simp: apart_def\<close>)
  moreover have "moved p (src + ?k) (l - ?k) ?m1 (p + (w + i) mod n) = (if i < l then m (src + i) else m (p + (w + i) mod n))" if "i < n" for i
  proof (cases "w + i < n")
    case True
    then have "(w + i) mod n = w + i" "\<not> p + (w + i) < p + (l - ?k)" "i < l" "p + (w + i) < p + w + ?k" using k(1) w by auto
    then show ?thesis using True by (simp add: moved_def)
  next
    case wrap: False
    then have e: "(w + i) mod n = w + i - n" "src + ?k + (w + i - n) = src + i" using that w by (simp_all add: mod_wrap)
    have "i < l \<Longrightarrow> \<not> (p + w \<le> src + i \<and> src + i < p + w + ?k)" using src(2) w that by (auto simp: apart_def)
    then show ?thesis using wrap k(1) w that unfolding e by (auto simp: moved_def e)
  qed
  moreover have "moved p (src + ?k) (l - ?k) ?m1 x = m x" if "x < p \<or> p + n \<le> x" for x
    using that w k(1) by (auto simp: moved_def)
  ultimately show ?thesis using False w
    by (intro exI [of _ "moved p (src + ?k) (l - ?k) ?m1"]) (simp add: ring_write_def)
qed

lemma ring_read_spec:
  assumes p: "mapped p n m" and dst: "mapped dst l m" "apart dst l p n" and r: "r < n" "l \<le> n"
  shows "\<exists>m'. ring_read p n r dst l m = Some m' \<and> (\<forall>i<l. m' (dst + i) = m (p + (r + i) mod n)) \<and>
    (\<forall>x. x < dst \<or> dst + l \<le> x \<longrightarrow> m' x = m x)"
proof (cases "r + l < n")
  case True
  have "c_memcpy dst (p + r) l m = Some (moved dst (p + r) l m)"
    by (rule c_memcpy_spec [OF dst(1) mapped_mono [OF p]]) (use dst(2) True in \<open>auto simp: apart_def\<close>)
  then show ?thesis using True r by (auto simp: ring_read_def moved_def add.assoc)
next
  case False
  let ?k = "n - r"
  let ?m1 = "moved dst (p + r) ?k m"
  have k: "?k \<le> l" using False by auto
  have "c_memcpy dst (p + r) ?k m = Some ?m1"
    by (rule c_memcpy_spec [OF mapped_mono [OF dst(1)] mapped_mono [OF p]]) (use dst(2) k r in \<open>auto simp: apart_def\<close>)
  moreover have "c_memcpy (dst + ?k) p (l - ?k) ?m1 = Some (moved (dst + ?k) p (l - ?k) ?m1)"
  proof (rule c_memcpy_spec)
    have s: "mapped (p + r) ?k m" by (rule mapped_mono [OF p]) (use r in simp_all)
    show "mapped p (l - ?k) ?m1" by (rule mapped_moved [OF s mapped_mono [OF p]]) (use r k in simp_all)
    show "mapped (dst + ?k) (l - ?k) ?m1" by (rule mapped_moved [OF s mapped_mono [OF dst(1)]]) (use k in simp_all)
  qed (use dst(2) r k in \<open>auto simp: apart_def\<close>)
  moreover have "moved (dst + ?k) p (l - ?k) ?m1 (dst + i) = m (p + (r + i) mod n)" if "i < l" for i
  proof (cases "r + i < n")
    case True
    then have "(r + i) mod n = r + i" "\<not> dst + ?k \<le> dst + i" "dst + i < dst + ?k" by auto
    then show ?thesis by (simp add: moved_def add.assoc)
  next
    case wrap: False
    then have e: "(r + i) mod n = r + i - n" "p + (dst + i - (dst + ?k)) = p + (r + i - n)" using that r by (simp_all add: mod_wrap)
    have "\<not> (dst \<le> p + (r + i - n) \<and> p + (r + i - n) < dst + ?k)" using dst(2) r that k by (auto simp: apart_def)
    then show ?thesis using wrap k r that unfolding e by (auto simp: moved_def e add.commute [of i r])
  qed
  moreover have "moved (dst + ?k) p (l - ?k) ?m1 x = m x" if "x < dst \<or> dst + l \<le> x" for x
    using that r k by (auto simp: moved_def)
  ultimately show ?thesis using False r
    by (intro exI [of _ "moved (dst + ?k) p (l - ?k) ?m1"]) (simp add: ring_read_def)
qed

section \<open>The operations as moves of the indices\<close>

lemma adv_0 [simp]: "rb_ok rb \<Longrightarrow> write_adv 0 rb = rb" "rb_ok rb \<Longrightarrow> read_adv 0 rb = rb"
  by (simp_all add: write_adv_def read_adv_def rb_ok_def)

lemma as_size_of_nat [simp]: "k < 2 ^ 32 \<Longrightarrow> as_size (int k) = k"
  by (simp add: as_size_def flip: zmod_int)

text \<open>What the code computes with an index \<open>i\<close> and a number of bytes \<open>l\<close>.\<close>

lemma room_facts:
  fixes i :: "15 word" and l :: u16
  assumes ok: "rb_ok rb" and i: "unat i < rb_cap rb" and l: "unat l \<le> rb_cap rb"
  defines "room \<equiv> sint (buffer_size rb) - uint i"
  shows "uint l < room \<longleftrightarrow> unat i + unat l < rb_cap rb" "as_size room = rb_cap rb - unat i"
    "nat (int ptr + room) = ptr + (rb_cap rb - unat i)" "i + ucast l = of_nat (unat i + unat l)"
    "\<not> unat i + unat l < rb_cap rb \<Longrightarrow> as_size (uint l - room) = unat l - (rb_cap rb - unat i)"
    "\<not> unat i + unat l < rb_cap rb \<Longrightarrow> (word_of_int (uint l - room) :: 15 word) = of_nat (unat i + unat l - rb_cap rb)"
proof -
  have c: "rb_cap rb < 2 ^ 15" using ok by (simp add: rb_ok_def)
  have room: "room = int (rb_cap rb - unat i)" using i by (simp add: room_def rb_size [OF ok] uint_nat of_nat_diff del: of_nat_unat)
  show "uint l < room \<longleftrightarrow> unat i + unat l < rb_cap rb" unfolding room by (simp add: uint_nat del: of_nat_unat) linarith
  show "as_size room = rb_cap rb - unat i" unfolding room using c by (intro as_size_of_nat) simp
  show "nat (int ptr + room) = ptr + (rb_cap rb - unat i)" unfolding room by (simp add: nat_add_distrib)
  show "i + ucast l = of_nat (unat i + unat l)" by simp
  assume w: "\<not> unat i + unat l < rb_cap rb"
  then have d: "uint l - room = int (unat l - (rb_cap rb - unat i))" "unat l - (rb_cap rb - unat i) = unat i + unat l - rb_cap rb"
    unfolding room using i by (simp_all add: uint_nat of_nat_diff del: of_nat_unat)
  show "as_size (uint l - room) = unat l - (rb_cap rb - unat i)" unfolding d(1) using c l by (intro as_size_of_nat) simp
  show "(word_of_int (uint l - room) :: 15 word) = of_nat (unat i + unat l - rb_cap rb)" unfolding d by simp
qed

lemma write_body:
  fixes v :: u16
  assumes ok: "rb_ok rb" and l: "unat v = l" "l \<le> rb_cap rb"
  defines "room \<equiv> sint (buffer_size rb) - uint (write_index rb)"
  shows "(if uint v < room then do {
        m1 \<leftarrow> c_memcpy (buffer_ptr rb + unat (write_index rb)) ptr (unat v) m;
        F (rb\<lparr>write_index := write_index rb + ucast v\<rparr>) m1
      } else do {
        m1 \<leftarrow> c_memcpy (buffer_ptr rb + unat (write_index rb)) ptr (as_size room) m;
        m2 \<leftarrow> c_memcpy (buffer_ptr rb) (nat (int ptr + room)) (as_size (uint v - room)) m1;
        G (rb\<lparr>write_mirror := NOT (write_mirror rb), write_index := word_of_int (uint v - room)\<rparr>) m2
      }) =
    do {
      m1 \<leftarrow> ring_write (buffer_ptr rb) (rb_cap rb) (unat (write_index rb)) ptr l m;
      (if unat (write_index rb) + l < rb_cap rb then F else G) (write_adv l rb) m1
    }"
proof -
  have w: "unat (write_index rb) < rb_cap rb" using ok by (simp add: rb_ok_def)
  note f = room_facts [OF ok w, of v, unfolded l(1), OF l(2), folded room_def]
  show ?thesis
  proof (cases "unat (write_index rb) + l < rb_cap rb")
    case True
    show ?thesis unfolding f(1,4) ring_write_def write_adv_def using True by (simp only: l(1) if_True)
  next
    case False
    show ?thesis unfolding f(1-3) f(5,6) [OF False] ring_write_def write_adv_def using False
      by (simp only: if_False bind_assoc)
  qed
qed

lemma read_body:
  fixes v :: u16
  assumes ok: "rb_ok rb" and l: "unat v = l" "l \<le> rb_cap rb"
  defines "room \<equiv> sint (buffer_size rb) - uint (read_index rb)"
  shows "(if uint v < room then do {
        m1 \<leftarrow> c_memcpy ptr (buffer_ptr rb + unat (read_index rb)) (unat v) m;
        F (rb\<lparr>read_index := read_index rb + ucast v\<rparr>) m1
      } else do {
        m1 \<leftarrow> c_memcpy ptr (buffer_ptr rb + unat (read_index rb)) (as_size room) m;
        m2 \<leftarrow> c_memcpy (nat (int ptr + room)) (buffer_ptr rb) (as_size (uint v - room)) m1;
        F (rb\<lparr>read_mirror := NOT (read_mirror rb), read_index := word_of_int (uint v - room)\<rparr>) m2
      }) =
    do {
      m1 \<leftarrow> ring_read (buffer_ptr rb) (rb_cap rb) (unat (read_index rb)) ptr l m;
      F (read_adv l rb) m1
    }"
proof -
  have w: "unat (read_index rb) < rb_cap rb" using ok by (simp add: rb_ok_def)
  note f = room_facts [OF ok w, of v, unfolded l(1), OF l(2), folded room_def]
  show ?thesis
  proof (cases "unat (read_index rb) + l < rb_cap rb")
    case True
    show ?thesis unfolding f(1,4) ring_read_def read_adv_def using True by (simp only: l(1) if_True)
  next
    case False
    show ?thesis unfolding f(1-3) f(5,6) [OF False] ring_read_def read_adv_def using False
      by (simp only: if_False bind_assoc)
  qed
qed

lemma put_as_move:
  assumes ok: "rb_ok rb" and l: "l = min (unat len) (rb_cap rb - rb_count rb)"
  shows "rt_ringbuffer_put ptr len rb m =
    do { m1 \<leftarrow> ring_write (buffer_ptr rb) (rb_cap rb) (unat (write_index rb)) ptr l m; Some (of_nat l, write_adv l rb, m1) }"
proof -
  let ?sp = "rb_cap rb - rb_count rb"
  define v :: u16 where "v = (if of_nat ?sp < len then of_nat ?sp else len)"
  have sz: "(ucast (rt_ringbuffer_space_len rb) :: u16) = of_nat ?sp" "unat (of_nat ?sp :: u16) = ?sp"
    using rb_small(2) [OF ok, of ?sp] by (simp_all add: space_len_count [OF ok] rb_cast(1) [OF ok] del: of_nat_diff)
  have v: "unat v = l" "ucast v = (of_nat l :: u32)" "l \<le> rb_cap rb"
    using sz(2) unfolding v_def l by (auto simp: word_less_nat_alt rb_cast(2) [OF ok] simp del: of_nat_diff)
  show ?thesis
  proof (cases "?sp = 0")
    case True
    then show ?thesis using l ok by (simp add: rt_ringbuffer_put_def sz(1) ring_write_def c_memcpy_def rb_ok_def)
  next
    case False
    then have "(of_nat ?sp :: u16) \<noteq> 0" using sz(2) by auto
    then show ?thesis
      using write_body [OF ok v(1,3), where F = "\<lambda>rb' m'. Some (of_nat l, rb', m')" and G = "\<lambda>rb' m'. Some (of_nat l, rb', m')"]
      unfolding rt_ringbuffer_put_def sz(1) Let_def v_def [symmetric] v(2) by (simp only: if_False if_cancel)
  qed
qed

lemma get_as_move:
  assumes ok: "rb_ok rb" and l: "l = min (unat len) (rb_count rb)"
  shows "rt_ringbuffer_get ptr len rb m =
    do { m1 \<leftarrow> ring_read (buffer_ptr rb) (rb_cap rb) (unat (read_index rb)) ptr l m; Some (of_nat l, read_adv l rb, m1) }"
proof -
  note le = rb_count_le [OF ok]
  define v :: u16 where "v = (if of_nat (rb_count rb) < (ucast len :: u32) then ucast (of_nat (rb_count rb) :: u32) else len)"
  have sz: "unat (of_nat (rb_count rb) :: u32) = rb_count rb" "unat (of_nat (rb_count rb) :: u16) = rb_count rb"
    using rb_small [OF ok le] by simp_all
  have "unat (ucast len :: u32) = unat len" using unsigned_less [of len, where ?'a = nat] by (simp add: unsigned_ucast_eq take_bit_nat_eq_self)
  then have v: "unat v = l" "ucast v = (of_nat l :: u32)" "l \<le> rb_cap rb"
    using sz le unfolding v_def l by (auto simp: word_less_nat_alt rb_cast [OF ok le])
  show ?thesis
  proof (cases "rb_count rb = 0")
    case True
    then show ?thesis using l ok by (simp add: rt_ringbuffer_get_def data_len_count ring_read_def c_memcpy_def rb_ok_def)
  next
    case False
    then have "(of_nat (rb_count rb) :: u32) \<noteq> 0" using sz(1) by auto
    then show ?thesis
      using read_body [OF ok v(1,3), where F = "\<lambda>rb' m'. Some (of_nat l, rb', m')"]
      unfolding rt_ringbuffer_get_def data_len_count [OF ok] Let_def v_def [symmetric] v(2) by (simp only: if_False)
  qed
qed

text \<open>More bytes than there is room for: the oldest make way.\<close>

lemma overrun_index:
  assumes ok: "rb_ok rb" and l: "l \<le> rb_cap rb" "rb_cap rb - rb_count rb < l"
  defines "k \<equiv> l - (rb_cap rb - rb_count rb)"
  shows "read_mirror rb = write_mirror rb \<Longrightarrow>
      rb_cap rb \<le> unat (write_index rb) + l \<and> unat (read_index rb) + k = unat (write_index rb) + l - rb_cap rb \<and>
      unat (read_index rb) + k < rb_cap rb \<and> unat (read_index rb) < unat (write_index rb) + l - rb_cap rb"
    "read_mirror rb \<noteq> write_mirror rb \<Longrightarrow> unat (read_index rb) + k = unat (write_index rb) + l \<and>
      unat (write_index rb) + l - rb_cap rb \<le> unat (read_index rb)"
  using ok l by (auto simp: rb_ok_def rb_count_def k_def word_le_nat_alt)

lemma overrun_adv:
  assumes ok: "rb_ok rb" and l: "l \<le> rb_cap rb" "rb_cap rb - rb_count rb < l" and x: "x = unat (write_index rb) + l"
  shows "x < rb_cap rb \<Longrightarrow> read_adv (l - (rb_cap rb - rb_count rb)) rb = rb\<lparr>read_index := of_nat x\<rparr>"
    "\<not> x < rb_cap rb \<Longrightarrow> read_adv (l - (rb_cap rb - rb_count rb)) rb =
       (if of_nat (x - rb_cap rb) \<le> read_index rb then rb\<lparr>read_mirror := NOT (read_mirror rb)\<rparr> else rb)\<lparr>read_index := of_nat (x - rb_cap rb)\<rparr>"
proof -
  note ov = overrun_index [OF ok l, folded x]
  show "x < rb_cap rb \<Longrightarrow> read_adv (l - (rb_cap rb - rb_count rb)) rb = rb\<lparr>read_index := of_nat x\<rparr>"
    using ov by (cases "read_mirror rb = write_mirror rb") (simp_all add: read_adv_def del: of_nat_add of_nat_diff)
  assume big: "\<not> x < rb_cap rb"
  have "x - rb_cap rb \<le> rb_cap rb" using x l ok by (auto simp: rb_ok_def)
  then have "(of_nat (x - rb_cap rb) \<le> read_index rb) = (x - rb_cap rb \<le> unat (read_index rb))"
    using rb_small(3) [OF ok] by (simp add: word_le_nat_alt del: of_nat_diff)
  then show "read_adv (l - (rb_cap rb - rb_count rb)) rb =
       (if of_nat (x - rb_cap rb) \<le> read_index rb then rb\<lparr>read_mirror := NOT (read_mirror rb)\<rparr> else rb)\<lparr>read_index := of_nat (x - rb_cap rb)\<rparr>"
    using ov big by (cases "read_mirror rb = write_mirror rb") (auto simp: read_adv_def simp del: of_nat_add of_nat_diff)
qed

lemma put_force_as_move:
  assumes ok: "rb_ok rb" and l: "l = min (unat len) (rb_cap rb)" and k: "k = l - (rb_cap rb - rb_count rb)"
  shows "rt_ringbuffer_put_force ptr len rb m =
    do { m1 \<leftarrow> ring_write (buffer_ptr rb) (rb_cap rb) (unat (write_index rb)) (ptr + (unat len - l)) l m;
         Some (of_nat l, write_adv l (read_adv k rb), m1) }"
proof -
  let ?sp = "rb_cap rb - rb_count rb"
  let ?w = "unat (write_index rb)"
  define v :: u16 where "v = (if unat len > rb_cap rb then buffer_size rb else len)"
  define q where "q = ptr + (unat len - l)"
  have sz: "(ucast (rt_ringbuffer_space_len rb) :: u16) = of_nat ?sp" "unat (of_nat ?sp :: u16) = ?sp"
    using rb_small(2) [OF ok, of ?sp] by (simp_all add: space_len_count [OF ok] rb_cast(1) [OF ok] del: of_nat_diff)
  have v: "unat v = l" "l \<le> rb_cap rb" unfolding v_def l by (auto simp: rb_cap_def)
  have vl: "v = of_nat l" using v(1) by (metis of_nat_unat ucast_id)
  then have v32: "ucast v = (of_nat l :: u32)" using rb_cast(2) [OF ok v(2)] by simp
  have gt: "v > of_nat ?sp \<longleftrightarrow> ?sp < l" using sz(2) v(1) by (simp add: word_less_nat_alt)
  have pl: "(if uint len > sint (buffer_size rb) then (nat (int ptr + (uint len - sint (buffer_size rb))), buffer_size rb) else (ptr, len)) = (q, v)"
    using rb_size [OF ok] by (auto simp: q_def v_def l uint_nat nat_add_distrib simp del: of_nat_unat)
  have w: "?w < rb_cap rb" using ok by (simp add: rb_ok_def)
  have same: "write_adv l rb = write_adv l (read_adv k rb)" if "\<not> ?sp < l" using that ok by (simp add: k)
  have F: "(let rb1 = write_adv l rb in if ?sp < l then rb1\<lparr>read_index := write_index rb1\<rparr> else rb1) = write_adv l (read_adv k rb)"
    if "?w + l < rb_cap rb"
    using that same overrun_adv(1) [OF ok v(2) _ refl] by (auto simp: write_adv_def k rb_cap_def Let_def)
  have G: "(let rb1 = write_adv l rb in if ?sp < l then
       (let rb2 = (if write_index rb1 \<le> read_index rb1 then rb1\<lparr>read_mirror := NOT (read_mirror rb1)\<rparr> else rb1)
        in rb2\<lparr>read_index := write_index rb2\<rparr>) else rb1) = write_adv l (read_adv k rb)"
    if "\<not> ?w + l < rb_cap rb"
    using that same overrun_adv(2) [OF ok v(2) _ refl] by (auto simp: write_adv_def k rb_cap_def Let_def)
  show ?thesis
    using write_body [OF ok v, where m = m and ptr = q
        and F = "\<lambda>rb1 m'. Some (of_nat l, if ?sp < l then rb1\<lparr>read_index := write_index rb1\<rparr> else rb1, m')"
        and G = "\<lambda>rb1 m'. Some (of_nat l, if ?sp < l then
          (let rb2 = (if write_index rb1 \<le> read_index rb1 then rb1\<lparr>read_mirror := NOT (read_mirror rb1)\<rparr> else rb1)
           in rb2\<lparr>read_index := write_index rb2\<rparr>) else rb1, m')"] F G
    unfolding rt_ringbuffer_put_force_def sz(1) Let_def pl prod.case gt q_def [symmetric] v32
    by (cases "?w + l < rb_cap rb") (simp_all only: if_True if_False not_False_eq_True)
qed

lemma status_full: "rb_ok rb \<Longrightarrow> rt_ringbuffer_status rb = RT_RINGBUFFER_FULL \<longleftrightarrow> rb_count rb = rb_cap rb"
  by (auto simp: rt_ringbuffer_status_def rb_ok_def rb_count_def word_le_nat_alt word_unat_eq_iff)

lemma len_zero: "rb_ok rb \<Longrightarrow> rt_ringbuffer_data_len rb = 0 \<longleftrightarrow> rb_count rb = 0"
  "rb_ok rb \<Longrightarrow> rt_ringbuffer_space_len rb = 0 \<longleftrightarrow> rb_count rb = rb_cap rb"
  using rb_small(1) [of rb "rb_count rb"] rb_small(1) [of rb "rb_cap rb - rb_count rb"] rb_count_le [of rb]
  by (auto simp: data_len_count space_len_count word_unat_eq_iff simp del: of_nat_diff)

lemma adv_1:
  assumes "rb_ok rb"
  shows "(if uint (write_index rb) = sint (buffer_size rb) - 1
          then rb\<lparr>write_mirror := NOT (write_mirror rb), write_index := 0\<rparr>
          else rb\<lparr>write_index := write_index rb + 1\<rparr>) = write_adv 1 rb"
    "(if uint (read_index rb) = sint (buffer_size rb) - 1
      then rb\<lparr>read_mirror := NOT (read_mirror rb), read_index := 0\<rparr>
      else rb\<lparr>read_index := read_index rb + 1\<rparr>) = read_adv 1 rb"
proof -
  have e: "uint i = sint (buffer_size rb) - 1 \<longleftrightarrow> unat i + 1 = rb_cap rb" for i :: "15 word"
    unfolding rb_size [OF assms] uint_nat by linarith
  show "(if uint (write_index rb) = sint (buffer_size rb) - 1
          then rb\<lparr>write_mirror := NOT (write_mirror rb), write_index := 0\<rparr>
          else rb\<lparr>write_index := write_index rb + 1\<rparr>) = write_adv 1 rb"
    using assms unfolding e write_adv_def by (auto simp: rb_ok_def)
  show "(if uint (read_index rb) = sint (buffer_size rb) - 1
      then rb\<lparr>read_mirror := NOT (read_mirror rb), read_index := 0\<rparr>
      else rb\<lparr>read_index := read_index rb + 1\<rparr>) = read_adv 1 rb"
    using assms unfolding e read_adv_def by (auto simp: rb_ok_def)
qed

lemma putchar_as_move:
  assumes "rb_ok rb" "rb_count rb < rb_cap rb"
  shows "rt_ringbuffer_putchar ch rb m =
    do { m1 \<leftarrow> wr (buffer_ptr rb + unat (write_index rb)) ch m; Some (1, write_adv 1 rb, m1) }"
  using assms by (simp add: rt_ringbuffer_putchar_def len_zero adv_1)

lemma getchar_as_move:
  assumes "rb_ok rb" "0 < rb_count rb"
  shows "rt_ringbuffer_getchar rb m =
    do { ch \<leftarrow> m (buffer_ptr rb + unat (read_index rb)); Some (Some ch, read_adv 1 rb) }"
  using assms by (simp add: rt_ringbuffer_getchar_def len_zero adv_1)

lemma putchar_force_as_move:
  assumes ok: "rb_ok rb"
  shows "rt_ringbuffer_putchar_force ch rb m =
    do { m1 \<leftarrow> wr (buffer_ptr rb + unat (write_index rb)) ch m;
         Some (1, write_adv 1 (if rb_count rb = rb_cap rb then read_adv 1 rb else rb), m1) }"
proof (cases "rb_count rb = rb_cap rb")
  case True
  have i: "uint (write_index rb) = sint (buffer_size rb) - 1 \<longleftrightarrow> unat (write_index rb) + 1 = rb_cap rb"
    unfolding rb_size [OF ok] uint_nat by linarith
  have idx: "read_index rb = write_index rb" and w: "unat (write_index rb) < rb_cap rb"
    using True ok by (auto simp: rb_ok_def rb_count_def word_le_nat_alt word_unat_eq_iff split: if_splits)
  have "(if unat (write_index rb) + 1 = rb_cap rb
         then rb\<lparr>write_mirror := NOT (write_mirror rb), write_index := 0, read_mirror := NOT (read_mirror rb), read_index := 0\<rparr>
         else rb\<lparr>write_index := write_index rb + 1, read_index := write_index rb + 1\<rparr>) = write_adv 1 (read_adv 1 rb)"
    using idx w by (intro rt_ringbuffer.equality) (auto simp: write_adv_def read_adv_def rb_cap_def simp del: of_nat_diff)
  then show ?thesis using True unfolding rt_ringbuffer_putchar_force_def status_full [OF ok] i Let_def
    by (auto cong: if_cong)
next
  case False
  then have f: "(rb_count rb = rb_cap rb) = False" by simp
  show ?thesis unfolding rt_ringbuffer_putchar_force_def status_full [OF ok] Let_def f if_False adv_1(1) [OF ok] by (rule refl)
qed

lemma peak_as_move:
  assumes ok: "rb_ok rb" and l: "l = min (rb_count rb) (rb_cap rb - unat (read_index rb))" and nz: "0 < rb_count rb"
  shows "rt_ringbuffer_peak rb = (Some (buffer_ptr rb + unat (read_index rb)), of_nat l, read_adv l rb)"
proof -
  let ?r = "unat (read_index rb)"
  note le = rb_count_le [OF ok]
  have room: "(word_of_int (sint (buffer_size rb) - uint (read_index rb)) :: u32) = of_nat (rb_cap rb - ?r)"
    using ok by (simp add: rb_size [OF ok] rb_ok_def)
  have lt: "(of_nat (rb_count rb) < (of_nat (rb_cap rb - ?r) :: u32)) = (?r + rb_count rb < rb_cap rb)"
    unfolding word_less_nat_alt rb_small(1) [OF ok le] rb_small(1) [OF ok diff_le_self] by linarith
  have "l = (if ?r + rb_count rb < rb_cap rb then rb_count rb else rb_cap rb - ?r)" unfolding l by auto
  moreover have "?r < rb_cap rb" using ok by (simp add: rb_ok_def)
  ultimately show ?thesis
    using nz ok unfolding rt_ringbuffer_peak_def len_zero(1) [OF ok] Let_def room
    unfolding data_len_count [OF ok] lt read_adv_def rb_cast(3) [OF ok le] by (simp del: of_nat_diff)
qed

section \<open>The bytes in the buffer\<close>

definition rb_data :: "rt_ringbuffer \<Rightarrow> mem \<Rightarrow> u8 list" where
  "rb_data rb m = map (\<lambda>i. the (m (buffer_ptr rb + (unat (read_index rb) + i) mod rb_cap rb))) [0..<rb_count rb]"

definition rb_wf :: "rt_ringbuffer \<Rightarrow> mem \<Rightarrow> bool" where
  "rb_wf rb m \<longleftrightarrow> rb_ok rb \<and> mapped (buffer_ptr rb) (rb_cap rb) m"

definition bytes_of :: "nat \<Rightarrow> nat \<Rightarrow> mem \<Rightarrow> u8 list" where
  "bytes_of a k m = map (\<lambda>i. the (m (a + i))) [0..<k]"

lemma length_rb [simp]: "length (rb_data rb m) = rb_count rb" "length (bytes_of a k m) = k"
  by (simp_all add: rb_data_def bytes_of_def)

lemma data_read:
  assumes "rb_ok rb" "k \<le> rb_count rb"
  shows "rb_data (read_adv k rb) m = drop k (rb_data rb m)"
proof (rule nth_equalityI)
  note a = read_adv_ok [OF assms]
  show "length (rb_data (read_adv k rb) m) = length (drop k (rb_data rb m))" by (simp add: a(2))
  fix i
  assume "i < length (rb_data (read_adv k rb) m)"
  then have i: "k + i < rb_count rb" "i < rb_count rb - k" using assms(2) by (simp_all add: a(2))
  have "((unat (read_index rb) + k) mod rb_cap rb + i) mod rb_cap rb = (unat (read_index rb) + (k + i)) mod rb_cap rb"
    by (simp add: mod_add_left_eq add.assoc)
  then show "rb_data (read_adv k rb) m ! i = drop k (rb_data rb m) ! i" using i by (simp add: rb_data_def a(2,3))
qed

lemma data_write:
  assumes ok: "rb_ok rb" and l: "l \<le> rb_cap rb - rb_count rb"
    and m': "\<And>i. i < l \<Longrightarrow> m' (buffer_ptr rb + (unat (write_index rb) + i) mod rb_cap rb) = Some (xs ! i)" "length xs = l"
      "\<And>i. i < rb_cap rb \<Longrightarrow> l \<le> i \<Longrightarrow> m' (buffer_ptr rb + (unat (write_index rb) + i) mod rb_cap rb) =
         m (buffer_ptr rb + (unat (write_index rb) + i) mod rb_cap rb)"
  shows "rb_data (write_adv l rb) m' = rb_data rb m @ xs"
proof (rule nth_equalityI)
  let ?n = "rb_cap rb" and ?c = "rb_count rb" and ?r = "unat (read_index rb)"
  note a = write_adv_ok [OF ok l]
  show "length (rb_data (write_adv l rb) m') = length (rb_data rb m @ xs)" by (simp add: a(2) m'(2))
  fix i
  assume "i < length (rb_data (write_adv l rb) m')"
  then have i: "i < ?c + l" by (simp add: a(2))
  have w: "(unat (write_index rb) + j) mod ?n = (?r + (?c + j)) mod ?n" for j
    unfolding rb_count_write [OF ok] by (simp add: mod_add_left_eq add.assoc)
  show "rb_data (write_adv l rb) m' ! i = (rb_data rb m @ xs) ! i"
  proof (cases "i < ?c")
    case True
    have "?r + (?c + (?n - ?c + i)) = ?r + i + ?n" using rb_count_le [OF ok] by simp
    then have e: "(?r + (?c + (?n - ?c + i))) mod ?n = (?r + i) mod ?n" by (simp only: mod_add_self2)
    have "m' (buffer_ptr rb + (?r + i) mod ?n) = m (buffer_ptr rb + (?r + i) mod ?n)"
      using m'(3) [of "?n - ?c + i"] True l rb_count_le [OF ok] unfolding w e by simp
    then show ?thesis using True i by (simp add: rb_data_def a(2) nth_append)
  next
    case False
    then have "?r + (?c + (i - ?c)) = ?r + i" "i - ?c < l" using i by simp_all
    then show ?thesis using False i m'(1) [of "i - ?c", unfolded w] by (simp add: rb_data_def a(2) nth_append)
  qed
qed

lemma copy_bytes_dom: "copy_bytes dst src k m = Some m' \<Longrightarrow> dom m' = dom m"
proof (induction k arbitrary: dst src m)
  case (Suc k)
  then obtain v m1 where "m src = Some v" "wr dst v m = Some m1" "copy_bytes (dst + 1) (src + 1) k m1 = Some m'"
    by (auto split: bind_split_asm)
  then show ?case using Suc.IH by (auto simp: wr_def split: if_splits)
qed simp

lemma c_memcpy_dom: "c_memcpy dst src k m = Some m' \<Longrightarrow> dom m' = dom m"
  using copy_bytes_dom by (simp add: c_memcpy_def split: if_splits)

lemma ring_dom:
  "ring_write p n w src l m = Some m' \<Longrightarrow> dom m' = dom m" "ring_read p n w src l m = Some m' \<Longrightarrow> dom m' = dom m"
  by (simp_all add: ring_write_def ring_read_def bind_eq_Some_conv split: if_splits) (metis c_memcpy_dom)+

lemma mapped_dom: "dom m' = dom m \<Longrightarrow> mapped a k m' \<longleftrightarrow> mapped a k m"
  by (auto simp: mapped_def dom_def set_eq_iff)

lemma rb_data_cong:
  assumes "rb_ok rb" "\<And>x. buffer_ptr rb \<le> x \<Longrightarrow> x < buffer_ptr rb + rb_cap rb \<Longrightarrow> m' x = m x"
  shows "rb_data rb m' = rb_data rb m"
proof -
  have "0 < rb_cap rb" using assms(1) by (auto simp: rb_ok_def)
  then have "m' (buffer_ptr rb + i mod rb_cap rb) = m (buffer_ptr rb + i mod rb_cap rb)" for i by (intro assms(2)) simp_all
  then show ?thesis by (simp add: rb_data_def)
qed

lemma ring_write_data:
  assumes wf: "rb_wf rb m" and src: "mapped src l m" "apart src l (buffer_ptr rb) (rb_cap rb)" and k: "k \<le> rb_count rb"
    and l: "l \<le> rb_cap rb - (rb_count rb - k)"
  shows "\<exists>m'. ring_write (buffer_ptr rb) (rb_cap rb) (unat (write_index rb)) src l m = Some m' \<and>
    rb_wf (write_adv l (read_adv k rb)) m' \<and> rb_data (write_adv l (read_adv k rb)) m' = drop k (rb_data rb m) @ bytes_of src l m \<and>
    (\<forall>x. x < buffer_ptr rb \<or> buffer_ptr rb + rb_cap rb \<le> x \<longrightarrow> m' x = m x)"
proof -
  have ok: "rb_ok rb" and mp: "mapped (buffer_ptr rb) (rb_cap rb) m" using wf by (simp_all add: rb_wf_def)
  have w: "unat (write_index rb) < rb_cap rb" "l \<le> rb_cap rb" using ok l by (auto simp: rb_ok_def)
  note ra = read_adv_ok [OF ok k]
  obtain m' where m': "ring_write (buffer_ptr rb) (rb_cap rb) (unat (write_index rb)) src l m = Some m'"
    "\<And>i. i < l \<Longrightarrow> m' (buffer_ptr rb + (unat (write_index rb) + i) mod rb_cap rb) = m (src + i)"
    "\<And>i. i < rb_cap rb \<Longrightarrow> l \<le> i \<Longrightarrow> m' (buffer_ptr rb + (unat (write_index rb) + i) mod rb_cap rb) =
         m (buffer_ptr rb + (unat (write_index rb) + i) mod rb_cap rb)"
    "\<forall>x. x < buffer_ptr rb \<or> buffer_ptr rb + rb_cap rb \<le> x \<longrightarrow> m' x = m x"
    using ring_write_spec [OF mp src w] by blast
  have "m (src + i) = Some (bytes_of src l m ! i)" if "i < l" for i using mappedD [OF src(1) that] that by (auto simp: bytes_of_def)
  then have "rb_data (write_adv l (read_adv k rb)) m' = rb_data (read_adv k rb) m @ bytes_of src l m"
    using l ra(2) m'(2,3) by (intro data_write [OF ra(1)]) simp_all
  moreover have "rb_wf (write_adv l (read_adv k rb)) m'"
    using write_adv_ok(1) [OF ra(1), of l] l ra(2) mp mapped_dom [OF ring_dom(1) [OF m'(1)]] by (simp add: rb_wf_def)
  ultimately show ?thesis using m'(1,4) data_read [OF ok k] by auto
qed

lemma rt_ringbuffer_put_spec:
  assumes wf: "rb_wf rb m" and src: "mapped ptr (unat len) m" "apart ptr (unat len) (buffer_ptr rb) (rb_cap rb)"
    and l: "l = min (unat len) (rb_cap rb - rb_count rb)"
  shows "\<exists>m'. rt_ringbuffer_put ptr len rb m = Some (of_nat l, write_adv l rb, m') \<and> rb_wf (write_adv l rb) m' \<and>
    rb_data (write_adv l rb) m' = rb_data rb m @ take l (bytes_of ptr (unat len) m) \<and>
    (\<forall>x. x < buffer_ptr rb \<or> buffer_ptr rb + rb_cap rb \<le> x \<longrightarrow> m' x = m x)"
proof -
  have ok: "rb_ok rb" using wf by (simp add: rb_wf_def)
  have s: "mapped ptr l m" "apart ptr l (buffer_ptr rb) (rb_cap rb)" "take l (bytes_of ptr (unat len) m) = bytes_of ptr l m"
    using src l by (auto intro: mapped_mono simp: apart_def bytes_of_def take_map)
  show ?thesis using ring_write_data [OF wf s(1,2), of 0] l ok unfolding put_as_move [OF ok l] s(3) by auto
qed

lemma rt_ringbuffer_put_force_spec:
  assumes wf: "rb_wf rb m" and src: "mapped ptr (unat len) m" "apart ptr (unat len) (buffer_ptr rb) (rb_cap rb)"
    and l: "l = min (unat len) (rb_cap rb)" and k: "k = l - (rb_cap rb - rb_count rb)"
  shows "\<exists>m'. rt_ringbuffer_put_force ptr len rb m = Some (of_nat l, write_adv l (read_adv k rb), m') \<and>
    rb_wf (write_adv l (read_adv k rb)) m' \<and>
    rb_data (write_adv l (read_adv k rb)) m' = drop k (rb_data rb m) @ drop (unat len - l) (bytes_of ptr (unat len) m) \<and>
    (\<forall>x. x < buffer_ptr rb \<or> buffer_ptr rb + rb_cap rb \<le> x \<longrightarrow> m' x = m x)"
proof -
  have ok: "rb_ok rb" using wf by (simp add: rb_wf_def)
  have "drop (unat len - l) (bytes_of ptr (unat len) m) = bytes_of (ptr + (unat len - l)) l m"
    using l by (intro nth_equalityI) (auto simp: bytes_of_def add.assoc)
  moreover have "mapped (ptr + (unat len - l)) l m" "apart (ptr + (unat len - l)) l (buffer_ptr rb) (rb_cap rb)"
    using src l by (auto intro: mapped_mono simp: apart_def)
  moreover have "k \<le> rb_count rb" "l \<le> rb_cap rb - (rb_count rb - k)" using l k rb_count_le [OF ok] by auto
  ultimately show ?thesis using ring_write_data [OF wf, of "ptr + (unat len - l)" l k] unfolding put_force_as_move [OF ok l k] by auto
qed

lemma rt_ringbuffer_get_spec:
  assumes wf: "rb_wf rb m" and dst: "mapped ptr (unat len) m" "apart ptr (unat len) (buffer_ptr rb) (rb_cap rb)"
    and l: "l = min (unat len) (rb_count rb)"
  shows "\<exists>m'. rt_ringbuffer_get ptr len rb m = Some (of_nat l, read_adv l rb, m') \<and> rb_wf (read_adv l rb) m' \<and>
    rb_data (read_adv l rb) m' = drop l (rb_data rb m) \<and> bytes_of ptr l m' = take l (rb_data rb m) \<and>
    (\<forall>x. x < ptr \<or> ptr + l \<le> x \<longrightarrow> m' x = m x)"
proof -
  have ok: "rb_ok rb" and mp: "mapped (buffer_ptr rb) (rb_cap rb) m" using wf by (simp_all add: rb_wf_def)
  have d: "mapped ptr l m" "apart ptr l (buffer_ptr rb) (rb_cap rb)" using dst l by (auto intro: mapped_mono simp: apart_def)
  have r: "unat (read_index rb) < rb_cap rb" "l \<le> rb_cap rb" using ok l rb_count_le [OF ok] by (auto simp: rb_ok_def)
  obtain m' where m': "ring_read (buffer_ptr rb) (rb_cap rb) (unat (read_index rb)) ptr l m = Some m'"
    "\<forall>i<l. m' (ptr + i) = m (buffer_ptr rb + (unat (read_index rb) + i) mod rb_cap rb)"
    "\<forall>x. x < ptr \<or> ptr + l \<le> x \<longrightarrow> m' x = m x"
    using ring_read_spec [OF mp d r] by blast
  have k: "l \<le> rb_count rb" using l by simp
  have "rb_data (read_adv l rb) m' = rb_data (read_adv l rb) m"
    using read_adv_ok(1) [OF ok k] m'(3) d(2) by (intro rb_data_cong) (auto simp: apart_def)
  moreover have "bytes_of ptr l m' = take l (rb_data rb m)"
    using m'(2) k by (intro nth_equalityI) (auto simp: bytes_of_def rb_data_def)
  moreover have "rb_wf (read_adv l rb) m'"
    using read_adv_ok(1) [OF ok k] mp mapped_dom [OF ring_dom(2) [OF m'(1)]] by (simp add: rb_wf_def)
  ultimately show ?thesis using m'(1,3) data_read [OF ok k] unfolding get_as_move [OF ok l] by auto
qed

text \<open>Single bytes.\<close>

lemma ring_store_byte:
  assumes wf: "rb_wf rb m" and k: "k \<le> rb_count rb" "rb_count rb - k < rb_cap rb"
  shows "\<exists>m'. wr (buffer_ptr rb + unat (write_index rb)) ch m = Some m' \<and>
    rb_wf (write_adv 1 (read_adv k rb)) m' \<and> rb_data (write_adv 1 (read_adv k rb)) m' = drop k (rb_data rb m) @ [ch] \<and>
    (\<forall>x. x < buffer_ptr rb \<or> buffer_ptr rb + rb_cap rb \<le> x \<longrightarrow> m' x = m x)"
proof -
  let ?a = "buffer_ptr rb + unat (write_index rb)"
  let ?m = "m(?a \<mapsto> ch)"
  have ok: "rb_ok rb" and mp: "mapped (buffer_ptr rb) (rb_cap rb) m" using wf by (simp_all add: rb_wf_def)
  have w: "unat (write_index rb) < rb_cap rb" using ok by (simp add: rb_ok_def)
  have wr: "wr ?a ch m = Some ?m" using mp w by (simp add: wr_def mapped_def)
  note ra = read_adv_ok [OF ok k(1)]
  have le: "1 \<le> rb_cap rb - (rb_count rb - k)" using k(2) by simp
  have ne: "(unat (write_index rb) + i) mod rb_cap rb \<noteq> unat (write_index rb)" if "i < rb_cap rb" "1 \<le> i" for i
    using that w by (auto simp: mod_wrap)
  have "rb_data (write_adv 1 (read_adv k rb)) ?m = rb_data (read_adv k rb) m @ [ch]"
    using w ne le ra(2) by (intro data_write [OF ra(1)]) auto
  moreover have "rb_wf (write_adv 1 (read_adv k rb)) ?m"
    using write_adv_ok(1) [OF ra(1), of 1] le ra(2) mapped_wr [OF mp, of ?a ch] by (simp add: rb_wf_def)
  ultimately show ?thesis using wr data_read [OF ok k(1)] w by auto
qed

lemma rt_ringbuffer_putchar_spec:
  assumes wf: "rb_wf rb m"
  shows "rb_count rb = rb_cap rb \<Longrightarrow> rt_ringbuffer_putchar ch rb m = Some (0, rb, m)"
    "rb_count rb < rb_cap rb \<Longrightarrow> \<exists>m'. rt_ringbuffer_putchar ch rb m = Some (1, write_adv 1 rb, m') \<and> rb_wf (write_adv 1 rb) m' \<and>
       rb_data (write_adv 1 rb) m' = rb_data rb m @ [ch]"
proof -
  have ok: "rb_ok rb" using wf by (simp add: rb_wf_def)
  show "rb_count rb = rb_cap rb \<Longrightarrow> rt_ringbuffer_putchar ch rb m = Some (0, rb, m)"
    by (simp add: rt_ringbuffer_putchar_def len_zero [OF ok])
  show "rb_count rb < rb_cap rb \<Longrightarrow> \<exists>m'. rt_ringbuffer_putchar ch rb m = Some (1, write_adv 1 rb, m') \<and> rb_wf (write_adv 1 rb) m' \<and>
       rb_data (write_adv 1 rb) m' = rb_data rb m @ [ch]"
    using ring_store_byte [OF wf, of 0 ch] ok by (auto simp: putchar_as_move)
qed

lemma rt_ringbuffer_putchar_force_spec:
  assumes wf: "rb_wf rb m"
  shows "\<exists>rb' m'. rt_ringbuffer_putchar_force ch rb m = Some (1, rb', m') \<and> rb_wf rb' m' \<and> rb_cap rb' = rb_cap rb \<and>
    rb_data rb' m' = (if rb_count rb = rb_cap rb then tl (rb_data rb m) else rb_data rb m) @ [ch]"
proof -
  have ok: "rb_ok rb" and le: "rb_count rb \<le> rb_cap rb" "0 < rb_cap rb" using wf rb_count_le [of rb] by (auto simp: rb_wf_def rb_ok_def)
  show ?thesis
  proof (cases "rb_count rb = rb_cap rb")
    case True
    then show ?thesis using ring_store_byte [OF wf, of 1 ch] le by (auto simp: putchar_force_as_move [OF ok] drop_Suc)
  next
    case False
    then show ?thesis using ring_store_byte [OF wf, of 0 ch] le ok by (auto simp: putchar_force_as_move)
  qed
qed

lemma rt_ringbuffer_getchar_spec:
  assumes wf: "rb_wf rb m"
  shows "rb_data rb m = [] \<Longrightarrow> rt_ringbuffer_getchar rb m = Some (None, rb)"
    "rb_data rb m = v # vs \<Longrightarrow> rt_ringbuffer_getchar rb m = Some (Some v, read_adv 1 rb) \<and> rb_wf (read_adv 1 rb) m \<and>
       rb_data (read_adv 1 rb) m = vs"
proof -
  have ok: "rb_ok rb" and mp: "mapped (buffer_ptr rb) (rb_cap rb) m" using wf by (simp_all add: rb_wf_def)
  have n: "length (rb_data rb m) = rb_count rb" by simp
  show "rb_data rb m = [] \<Longrightarrow> rt_ringbuffer_getchar rb m = Some (None, rb)"
    using n by (simp add: rt_ringbuffer_getchar_def len_zero [OF ok])
  assume d: "rb_data rb m = v # vs"
  then have c: "0 < rb_count rb" "1 \<le> rb_count rb" using n by auto
  have r: "unat (read_index rb) < rb_cap rb" using ok by (simp add: rb_ok_def)
  have "rb_data rb m ! 0 = v" using d by simp
  then have "m (buffer_ptr rb + unat (read_index rb)) = Some v"
    using mappedD [OF mp r] r c(1) by (auto simp: rb_data_def)
  then show "rt_ringbuffer_getchar rb m = Some (Some v, read_adv 1 rb) \<and> rb_wf (read_adv 1 rb) m \<and> rb_data (read_adv 1 rb) m = vs"
    using getchar_as_move [OF ok c(1)] read_adv_ok(1) [OF ok c(2)] data_read [OF ok c(2), of m] mp d by (simp add: rb_wf_def)
qed

section \<open>The ring buffer is a bounded queue\<close>

definition rb_push :: "u8 \<Rightarrow> rt_ringbuffer \<times> mem \<Rightarrow> (rt_ringbuffer \<times> mem) option" where
  "rb_push v q = do { (k, q') \<leftarrow> rt_ringbuffer_putchar v (fst q) (snd q); if k = 0 then None else Some q' }"

definition rb_pop :: "rt_ringbuffer \<times> mem \<Rightarrow> (u8 \<times> rt_ringbuffer \<times> mem) option" where
  "rb_pop q = do { (c, rb) \<leftarrow> rt_ringbuffer_getchar (fst q) (snd q); v \<leftarrow> c; Some (v, rb, snd q) }"

interpretation rbq: bounded_fifo "\<lambda>q. rb_wf (fst q) (snd q)" "\<lambda>q. rb_data (fst q) (snd q)" "\<lambda>q. rb_cap (fst q)" rb_push rb_pop "\<lambda>_. True"
proof
  fix q :: "rt_ringbuffer \<times> mem" and v
  assume "rb_wf (fst q) (snd q)" "length (rb_data (fst q) (snd q)) < rb_cap (fst q)"
  then show "\<exists>q'. rb_push v q = Some q' \<and> rb_wf (fst q') (snd q') \<and> rb_data (fst q') (snd q') = rb_data (fst q) (snd q) @ [v] \<and>
      rb_cap (fst q') = rb_cap (fst q)"
    using rt_ringbuffer_putchar_spec(2) [of "fst q" "snd q" v] by (auto simp: rb_push_def)
next
  fix q :: "rt_ringbuffer \<times> mem" and v vs
  assume "rb_wf (fst q) (snd q)" "rb_data (fst q) (snd q) = v # vs"
  then show "\<exists>q'. rb_pop q = Some (v, q') \<and> rb_wf (fst q') (snd q') \<and> rb_data (fst q') (snd q') = vs \<and> rb_cap (fst q') = rb_cap (fst q)"
    using rt_ringbuffer_getchar_spec(2) [of "fst q" "snd q" v vs] by (auto simp: rb_pop_def)
qed

lemma rt_ringbuffer_init_spec:
  assumes sz: "4 \<le> sint sz" and m: "mapped pool (nat (sint sz)) m"
  shows "\<exists>rb. rt_ringbuffer_init pool sz = Some rb \<and> rb_wf rb m \<and> rb_data rb m = [] \<and> buffer_ptr rb = pool \<and>
    rb_cap rb = nat (sint sz) div 4 * 4"
proof -
  have "sint sz = uint sz - 2 ^ 16 * of_bool (bit (uint sz) 15)" 
    using uint_lt2p [of sz] by (simp add: sint_uint signed_take_bit_eq_take_bit_minus take_bit_int_eq_self)
  then have "sint sz = uint sz" using sz uint_lt2p [of sz] by (cases "bit (uint sz) 15") auto
  then have u: "unat sz = nat (sint sz)" by simp
  have "sint sz < 2 ^ 15" using sint_lt [of sz] by simp
  then have lt: "nat (sint sz) < 2 ^ 15" by simp
  have c: "unat (sz AND NOT 3) = nat (sint sz) div 4 * 4"
    using unat_and_mask(2) [of 2 sz] u by (simp add: mask_eq_exp_minus_1)
  moreover have "nat (sint sz) div 4 * 4 \<le> nat (sint sz)" by simp
  moreover have "4 \<le> nat (sint sz) div 4 * 4" using sz by simp
  ultimately show ?thesis using sz lt mapped_mono [OF m]
    by (simp add: rt_ringbuffer_init_def rb_wf_def rb_ok_def rb_cap_def rb_data_def rb_count_def)
qed

lemma rt_ringbuffer_reset_spec:
  assumes "rb_wf rb m"
  shows "rb_wf (rt_ringbuffer_reset rb) m" "rb_data (rt_ringbuffer_reset rb) m = []"
  using assms by (simp_all add: rt_ringbuffer_reset_def rb_wf_def rb_ok_def rb_cap_def rb_data_def rb_count_def)

text \<open>Sizes below 4 are rounded down to none. The forced put of a byte does not look at the size: each writes one byte
  further, beyond any bound.\<close>

lemma tiny_ring_size: "rt_ringbuffer_init pool 3 = Some rb \<Longrightarrow> buffer_size rb = 0 \<and> buffer_ptr rb = pool \<and> write_index rb = 0"
  by (auto simp: rt_ringbuffer_init_def)

lemma tiny_ring_writes_outside:
  assumes "buffer_size rb = 0" "m (buffer_ptr rb + unat (write_index rb)) \<noteq> None"
  shows "\<exists>rb'. rt_ringbuffer_putchar_force ch rb m = Some (1, rb', m(buffer_ptr rb + unat (write_index rb) \<mapsto> ch)) \<and>
    write_index rb' = write_index rb + 1 \<and> buffer_size rb' = 0 \<and> buffer_ptr rb' = buffer_ptr rb"
proof -
  have "0 \<le> uint (write_index rb)" by simp
  then have "uint (write_index rb) \<noteq> - 1" by linarith
  then have "uint (write_index rb) \<noteq> sint (buffer_size rb) - 1" using assms(1) by simp
  then show ?thesis using assms by (simp add: rt_ringbuffer_putchar_force_def wr_def Let_def)
qed

end
