(* ===== verification/Ringbuffer_Alloc.thy ===== *)
theory Ringbuffer_Alloc
  imports Ringbuffer Kservice_Alloc
begin

text \<open>
  Ring buffers on the heap (\<^verbatim>\<open>components/drivers/src/ringbuffer.c\<close>): the object and its area are two blocks of the system's
  heap. The objects are kept by their addresses in the field \<open>rbufs\<close>.
\<close>

record rb_state = heap_state +
  rbufs :: "nat \<Rightarrow> rt_ringbuffer"

text \<open>A \<^verbatim>\<open>struct rt_ringbuffer\<close> takes 12 bytes.\<close>

definition rt_ringbuffer_create :: "nat \<Rightarrow> u16 \<Rightarrow> 'a rb_state_scheme \<Rightarrow> ('a rb_state_scheme, nat) run option" where
  "rt_ringbuffer_create sys size0 s = do {
     _ \<leftarrow> RT_ASSERT (size0 > 0);
     let sz = size0 AND NOT 3;
     r \<leftarrow> rt_malloc sys 12 s;
     rbind r (\<lambda>rb s1.
       if rb = 0 then Some (Done 0 s1)
       else do {
         r2 \<leftarrow> rt_malloc sys (ucast sz) s1;
         rbind r2 (\<lambda>pool s2.
           if pool = 0 then do { r3 \<leftarrow> rt_free rb s2; rbind r3 (\<lambda>_ s3. Some (Done 0 s3)) }
           else do {
             b \<leftarrow> rt_ringbuffer_init pool sz;
             Some (Done rb (s2\<lparr>rbufs := (rbufs s2)(rb := b)\<rparr>))
           })
       })
   }"

definition rt_ringbuffer_destroy :: "nat \<Rightarrow> 'a rb_state_scheme \<Rightarrow> ('a rb_state_scheme, unit) run option" where
  "rt_ringbuffer_destroy rb s = do {
     r \<leftarrow> rt_free (buffer_ptr (rbufs s rb)) s;
     rbind r (\<lambda>_ s1. rt_free rb s1)
   }"

lemma heap_rbufs_upd [simp]:
  "heaps (s\<lparr>rbufs := v\<rparr>) = heaps s" "hmem (s\<lparr>rbufs := v\<rparr>) = hmem s" "hbytes (s\<lparr>rbufs := v\<rparr>) = hbytes s"
  "heap_good n (s\<lparr>rbufs := v\<rparr>) \<longleftrightarrow> heap_good n s" "heap_live n (s\<lparr>rbufs := v\<rparr>) = heap_live n s"
  "heap_range n (s\<lparr>rbufs := v\<rparr>) = heap_range n s"
  by (simp_all add: heap_good_def heap_ready_def rt_object_get_type_def heap_live_def heap_blocks_def heap_range_def)

lemma rt_malloc_good:
  assumes good: "heap_good sys s" "one_heap sys s"
  shows "rt_malloc sys sz s = Some (Done 0 s) \<or>
    (\<exists>p l s'. rt_malloc sys sz s = Some (Done p s') \<and> p \<noteq> 0 \<and> heap_good sys s' \<and> one_heap sys s' \<and> hbytes s' = hbytes s \<and>
      heap_range sys s' = heap_range sys s \<and> unat (heap_size sz) \<le> l \<and> (p, l) \<notin> heap_live sys s \<and>
      heap_live sys s' = insert (p, l) (heap_live sys s) \<and> block_bytes (p, l) \<subseteq> heap_range sys s \<and>
      (\<forall>b\<in>heap_live sys s. block_bytes (p, l) \<inter> block_bytes b = {}))"
proof -
  obtain bs fl where ok: "heap_ready sys s" "memheap_ok sys bs fl (heaps s sys) (hmem s)" using good(1) by (auto simp: heap_good_def)
  show ?thesis
  proof (cases "available_size (heaps s sys) \<le> heap_size sz \<or> first_fit (heap_size sz) (hmem s) fl = None")
    case True
    then show ?thesis using rt_memheap_alloc_none [OF ok] rt_malloc_one [OF good] by simp
  next
    case False
    then obtain a where a: "heap_size sz < available_size (heaps s sys)" "first_fit (heap_size sz) (hmem s) fl = Some a" by auto
    obtain bs' fl' s' l where r: "rt_memheap_alloc sys sz s = Some (Done (a + 24) s')" "heap_ready sys s'" "memheap_ok sys bs' fl' (heaps s' sys) (hmem s')"
      "hbytes s' = hbytes s" "containers s' = containers s" "heap_range sys s' = heap_range sys s" "unat (heap_size sz) \<le> l"
      "(a + 24, l) \<notin> heap_live sys s" "heap_live sys s' = insert (a + 24, l) (heap_live sys s)" "block_bytes (a + 24, l) \<subseteq> heap_range sys s"
      "\<forall>b\<in>heap_live sys s. block_bytes (a + 24, l) \<inter> block_bytes b = {}"
      using rt_memheap_alloc_spec [OF ok a] by blast
    then have "heap_good sys s'" "one_heap sys s'" using good(2) by (auto simp: heap_good_def one_heap_def)
    then show ?thesis using r rt_malloc_one [OF good]
      by (intro disjI2 exI [of _ "a + 24"] exI [of _ l] exI [of _ s']) simp
  qed
qed

lemma rt_ringbuffer_destroy_good:
  assumes "heap_good sys s" "(p, l) \<in> heap_live sys s" "(buffer_ptr (rbufs s p), k) \<in> heap_live sys s" "p \<noteq> buffer_ptr (rbufs s p)"
  shows "\<exists>s'. rt_ringbuffer_destroy p s = Some (Done () s') \<and> heap_good sys s' \<and> hbytes s' = hbytes s \<and>
    heap_live sys s' = heap_live sys s - {(p, l), (buffer_ptr (rbufs s p), k)}"
proof -
  let ?q = "buffer_ptr (rbufs s p)"
  obtain s1 where s1: "rt_memheap_free ?q s = Some (Done () s1)" "heap_good sys s1" "hbytes s1 = hbytes s"
    "heap_live sys s1 = heap_live sys s - {(?q, k)}" using rt_memheap_free_good [OF assms(1,3)] by blast
  have "(p, l) \<in> heap_live sys s1" using assms(2,4) s1(4) by simp
  from rt_memheap_free_good [OF s1(2) this] obtain s2 where "rt_memheap_free p s1 = Some (Done () s2)" "heap_good sys s2" "hbytes s2 = hbytes s1"
    "heap_live sys s2 = heap_live sys s1 - {(p, l)}" by blast
  then show ?thesis using s1 by (auto simp: rt_ringbuffer_destroy_def rt_free_def)
qed

lemma create_size:
  fixes sz :: u16
  assumes "4 \<le> unat sz" "unat sz < 2 ^ 15"
  shows "4 \<le> sint (sz AND NOT 3)" "nat (sint (sz AND NOT 3)) = unat sz div 4 * 4" "unat (ucast (sz AND NOT 3) :: u32) = unat sz div 4 * 4"
proof -
  have u: "unat (sz AND NOT 3) = unat sz div 4 * 4" using unat_and_mask(2) [of 2 sz] by (simp add: mask_eq_exp_minus_1)
  then have "sint (sz AND NOT 3) = int (unat sz div 4 * 4)" using sint_small [of "sz AND NOT 3"] assms(2) by simp
  moreover have "4 \<le> unat sz div 4 * 4" using assms(1) by simp
  ultimately show "4 \<le> sint (sz AND NOT 3)" "nat (sint (sz AND NOT 3)) = unat sz div 4 * 4" by simp_all
  show "unat (ucast (sz AND NOT 3) :: u32) = unat sz div 4 * 4"
    using u assms(2) by (simp add: unsigned_ucast_eq take_bit_nat_eq_self)
qed

lemma rt_ringbuffer_create_good:
  assumes good: "heap_good sys s" "one_heap sys s" "heap_mapped sys s" and sz: "4 \<le> unat sz" "unat sz < 2 ^ 15"
  shows "(\<exists>s'. rt_ringbuffer_create sys sz s = Some (Done 0 s') \<and> heap_good sys s' \<and> heap_live sys s' = heap_live sys s) \<or>
    (\<exists>p l pool k s'. rt_ringbuffer_create sys sz s = Some (Done p s') \<and> p \<noteq> 0 \<and> heap_good sys s' \<and> buffer_ptr (rbufs s' p) = pool \<and>
       pool \<noteq> p \<and> (p, l) \<notin> heap_live sys s \<and> (pool, k) \<notin> heap_live sys s \<and>
       heap_live sys s' = insert (pool, k) (insert (p, l) (heap_live sys s)) \<and> rb_wf (rbufs s' p) (hbytes s') \<and>
       rb_data (rbufs s' p) (hbytes s') = [] \<and> rb_cap (rbufs s' p) = unat sz div 4 * 4 \<and>
       {pool ..< pool + rb_cap (rbufs s' p)} \<subseteq> block_bytes (pool, k))"
proof -
  note c = create_size [OF sz]
  have a: "RT_ASSERT (sz > 0) = Some ()" using sz(1) by (simp add: RT_ASSERT_def word_less_nat_alt)
  show ?thesis
    using rt_malloc_good [OF good(1,2), of 12]
  proof (elim disjE exE conjE)
    assume "rt_malloc sys 12 s = Some (Done 0 s)"
    then have "rt_ringbuffer_create sys sz s = Some (Done 0 s)" by (simp add: rt_ringbuffer_create_def a)
    then show ?thesis using good(1) by blast
  next
    fix p l s1
    assume s1: "rt_malloc sys 12 s = Some (Done p s1)" "p \<noteq> 0" "heap_good sys s1" "one_heap sys s1" "hbytes s1 = hbytes s"
      "heap_range sys s1 = heap_range sys s" "(p, l) \<notin> heap_live sys s" "heap_live sys s1 = insert (p, l) (heap_live sys s)"
    show ?thesis
      using rt_malloc_good [OF s1(3,4), of "ucast (sz AND NOT 3)"]
    proof (elim disjE exE conjE)
      assume s2: "rt_malloc sys (ucast (sz AND NOT 3)) s1 = Some (Done 0 s1)"
      obtain s3 where "rt_memheap_free p s1 = Some (Done () s3)" "heap_good sys s3" "heap_live sys s3 = heap_live sys s1 - {(p, l)}"
        using rt_memheap_free_good [OF s1(3), of p l] s1(8) by auto
      then show ?thesis using s1(1,2,7,8) s2 by (simp add: rt_ringbuffer_create_def a rt_free_def)
    next
      fix pool k s2
      assume s2: "rt_malloc sys (ucast (sz AND NOT 3)) s1 = Some (Done pool s2)" "pool \<noteq> 0" "heap_good sys s2" "hbytes s2 = hbytes s1"
        "heap_range sys s2 = heap_range sys s1" "unat (heap_size (ucast (sz AND NOT 3))) \<le> k" "(pool, k) \<notin> heap_live sys s1"
        "heap_live sys s2 = insert (pool, k) (heap_live sys s1)" "block_bytes (pool, k) \<subseteq> heap_range sys s1"
        "\<forall>b\<in>heap_live sys s1. block_bytes (pool, k) \<inter> block_bytes b = {}"
      have "unat sz div 4 * 4 < 2 ^ 15" by (rule le_less_trans [OF _ sz(2)]) simp
      then have "unat (ucast (sz AND NOT 3) :: u32) + 3 < 2 ^ 32" unfolding c(3) by simp
      then have k: "unat sz div 4 * 4 \<le> k" using heap_size_room(1) [of "ucast (sz AND NOT 3)"] c(3) s2(6) by linarith
      then have sub: "{pool ..< pool + unat sz div 4 * 4} \<subseteq> block_bytes (pool, k)" by (auto simp: block_bytes_def)
      then have "{pool ..< pool + unat sz div 4 * 4} \<subseteq> heap_range sys s" using s2(9) s1(6) by simp
      then have "mapped pool (unat sz div 4 * 4) (hbytes s2)"
        using good(3) by (auto simp: mapped_def heap_mapped_def s2(4) s1(5) subset_iff)
      then have "mapped pool (nat (sint (sz AND NOT 3))) (hbytes s2)" by (simp only: c(2))
      from rt_ringbuffer_init_spec [OF c(1) this] obtain b where b: "rt_ringbuffer_init pool (sz AND NOT 3) = Some b"
        "rb_wf b (hbytes s2)" "rb_data b (hbytes s2) = []" "buffer_ptr b = pool" "rb_cap b = unat sz div 4 * 4"
        unfolding c(2) by auto
      have "p \<in> block_bytes (p, l)" "pool \<in> block_bytes (pool, k)"
        using heap_live_range(2) [OF s2(3), of "(p, l)"] heap_live_range(2) [OF s2(3), of "(pool, k)"] s1(8) s2(8) by (auto simp: block_bytes_def)
      then have "pool \<noteq> p" using s2(10) s1(8) by auto
      moreover have "rt_ringbuffer_create sys sz s = Some (Done p (s2\<lparr>rbufs := (rbufs s2)(p := b)\<rparr>))"
        using s1(1,2) s2(1,2) b(1) by (simp add: rt_ringbuffer_create_def a)
      moreover have "(pool, k) \<notin> heap_live sys s" using s2(7) s1(8) by simp
      ultimately show ?thesis using s1(2,7) s2(3) b sub s2(8) [unfolded s1(8)]
        by (intro disjI2 exI [of _ p] exI [of _ l] exI [of _ pool] exI [of _ k] exI [of _ "s2\<lparr>rbufs := (rbufs s2)(p := b)\<rparr>"])
          (simp add: ac_simps)
    qed
  qed
qed

end
