(* ===== verification/Ringbuffer_Props.thy ===== *)
theory Ringbuffer_Props
  imports Ringbuffer_Alloc Memheap_Props
begin

text \<open>Properties of the ring buffer, on the interpretation \<open>rbq\<close> (bounded queue) and on the memory heap.\<close>

text \<open>A buffer of 8 bytes at 0x100 in a memory whose bytes are the low bytes of their addresses.\<close>

definition ring_sample :: rt_ringbuffer where
  "ring_sample = \<lparr>buffer_ptr = 0x100, read_mirror = 0, read_index = 0, write_mirror = 0, write_index = 0, buffer_size = 8\<rparr>"

definition ring_memory :: mem where
  "ring_memory = (\<lambda>a. Some (of_nat a))"

lemma ring_sample_wf: "rb_wf ring_sample ring_memory" "rb_data ring_sample ring_memory = []" "rb_count ring_sample = 0"
  "rb_cap ring_sample = 8" "buffer_ptr ring_sample = 0x100"
  by (simp_all add: ring_sample_def ring_memory_def rb_wf_def rb_ok_def rb_cap_def rb_data_def rb_count_def mapped_def)

lemma drop_forced:
  assumes "length xs = c" "length ys = n" "c \<le> cap" "l = min n cap"
  shows "drop (l - (cap - c)) xs @ drop (n - l) ys = drop (c + n - cap) (xs @ ys)"
  using assms by (cases "n \<le> cap") (auto simp: add.commute)

text \<open>Property C13: the ring buffer of the drivers is a bounded queue of bytes, for blocks of any length and across the end
  of its area. Putting a block appends as many of its bytes as there is room for and returns their number; a forced put
  takes all of them and keeps the latest bytes when they do not fit; getting a block hands out the oldest bytes and
  removes them. The indices stay in their range, and no byte outside of the area, or of the caller's block, changes.\<close>

theorem ring_blocks_refine_queue:
  assumes "rb_wf rb m" "mapped ptr (unat len) m" "apart ptr (unat len) (buffer_ptr rb) (rb_cap rb)"
  shows "(\<exists>rb' m'. rt_ringbuffer_put ptr len rb m = Some (of_nat (min (unat len) (rb_cap rb - length (rb_data rb m))), rb', m') \<and>
      rb_wf rb' m' \<and> rb_cap rb' = rb_cap rb \<and>
      rb_data rb' m' = rb_data rb m @ take (rb_cap rb - length (rb_data rb m)) (bytes_of ptr (unat len) m) \<and>
      (\<forall>x. x < buffer_ptr rb \<or> buffer_ptr rb + rb_cap rb \<le> x \<longrightarrow> m' x = m x)) \<and>
    (\<exists>rb' m'. rt_ringbuffer_put_force ptr len rb m = Some (of_nat (min (unat len) (rb_cap rb)), rb', m') \<and>
      rb_wf rb' m' \<and> rb_cap rb' = rb_cap rb \<and>
      rb_data rb' m' = drop (length (rb_data rb m) + unat len - rb_cap rb) (rb_data rb m @ bytes_of ptr (unat len) m) \<and>
      (\<forall>x. x < buffer_ptr rb \<or> buffer_ptr rb + rb_cap rb \<le> x \<longrightarrow> m' x = m x)) \<and>
    (\<exists>rb' m' n. rt_ringbuffer_get ptr len rb m = Some (of_nat n, rb', m') \<and> n = min (unat len) (length (rb_data rb m)) \<and>
      rb_wf rb' m' \<and> rb_cap rb' = rb_cap rb \<and> rb_data rb' m' = drop n (rb_data rb m) \<and> bytes_of ptr n m' = take n (rb_data rb m) \<and>
      (\<forall>x. x < ptr \<or> ptr + n \<le> x \<longrightarrow> m' x = m x))"
proof (intro conjI)
  have le: "rb_count rb \<le> rb_cap rb" using assms(1) rb_count_le by (simp add: rb_wf_def)
  have t: "take (min (unat len) k) (bytes_of ptr (unat len) m) = take k (bytes_of ptr (unat len) m)" for k
    by (simp add: take_all_iff min_def)
  show "\<exists>rb' m'. rt_ringbuffer_put ptr len rb m = Some (of_nat (min (unat len) (rb_cap rb - length (rb_data rb m))), rb', m') \<and>
      rb_wf rb' m' \<and> rb_cap rb' = rb_cap rb \<and>
      rb_data rb' m' = rb_data rb m @ take (rb_cap rb - length (rb_data rb m)) (bytes_of ptr (unat len) m) \<and>
      (\<forall>x. x < buffer_ptr rb \<or> buffer_ptr rb + rb_cap rb \<le> x \<longrightarrow> m' x = m x)"
    using rt_ringbuffer_put_spec [OF assms refl] unfolding t length_rb by force
  show "\<exists>rb' m'. rt_ringbuffer_put_force ptr len rb m = Some (of_nat (min (unat len) (rb_cap rb)), rb', m') \<and>
      rb_wf rb' m' \<and> rb_cap rb' = rb_cap rb \<and>
      rb_data rb' m' = drop (length (rb_data rb m) + unat len - rb_cap rb) (rb_data rb m @ bytes_of ptr (unat len) m) \<and>
      (\<forall>x. x < buffer_ptr rb \<or> buffer_ptr rb + rb_cap rb \<le> x \<longrightarrow> m' x = m x)"
    using rt_ringbuffer_put_force_spec [OF assms refl refl] drop_forced [OF length_rb(1) length_rb(2) le refl] unfolding length_rb by force
  show "\<exists>rb' m' n. rt_ringbuffer_get ptr len rb m = Some (of_nat n, rb', m') \<and> n = min (unat len) (length (rb_data rb m)) \<and>
      rb_wf rb' m' \<and> rb_cap rb' = rb_cap rb \<and> rb_data rb' m' = drop n (rb_data rb m) \<and> bytes_of ptr n m' = take n (rb_data rb m) \<and>
      (\<forall>x. x < ptr \<or> ptr + n \<le> x \<longrightarrow> m' x = m x)"
    using rt_ringbuffer_get_spec [OF assms refl] unfolding length_rb by force
qed

theorem ring_blocks_refine_queue_witness:
  "(\<exists>rb' m'. rt_ringbuffer_put 0x200 5 ring_sample ring_memory = Some (5, rb', m') \<and> rb_data rb' m' = [0, 1, 2, 3, 4]) \<and>
   (\<exists>rb' m'. rt_ringbuffer_put_force 0x200 10 ring_sample ring_memory = Some (8, rb', m') \<and> rb_data rb' m' = [2, 3, 4, 5, 6, 7, 8, 9])"
proof -
  have m: "mapped a k ring_memory" for a k by (simp add: mapped_def ring_memory_def)
  have b: "bytes_of 0x200 5 ring_memory = [0, 1, 2, 3, 4]" "bytes_of 0x200 10 ring_memory = [0, 1, 2, 3, 4, 5, 6, 7, 8, 9]"
    by (simp_all add: bytes_of_def ring_memory_def upt_rec)
  show ?thesis
    using ring_blocks_refine_queue [OF ring_sample_wf(1) m, of "0x200" 5] ring_blocks_refine_queue [OF ring_sample_wf(1) m, of "0x200" 10] b
    by (auto simp: ring_sample_wf apart_def)
qed

text \<open>Bytes that are put into the ring buffer one by one come out in the same order, behind those it held
  before, as long as they fit; then the buffer is empty.\<close>

theorem ring_bytes_in_order:
  assumes "rb_wf rb m" "length (rb_data rb m) + length vs \<le> rb_cap rb"
  shows "\<exists>q1 q2. puts rb_push vs (rb, m) = Some q1 \<and>
    gets rb_pop (length (rb_data rb m) + length vs) q1 = Some (rb_data rb m @ vs, q2) \<and>
    rb_wf (fst q2) (snd q2) \<and> rb_data (fst q2) (snd q2) = []"
  using rbq.puts_then_gets [of "(rb, m)" vs] assms by (simp add: list_all_iff)

theorem ring_bytes_in_order_witness:
  "\<exists>q1 q2. puts rb_push [10, 20, 30] (ring_sample, ring_memory) = Some q1 \<and> gets rb_pop 3 q1 = Some ([10, 20, 30], q2)"
  using ring_bytes_in_order [OF ring_sample_wf(1), of "[10, 20, 30]"]
  by (auto simp: ring_sample_wf eval_nat_numeral simp del: puts.simps gets.simps)





end
