(* ===== verification/Kformat.thy ===== *)
theory Kformat
  imports Kservice
begin

text \<open>
  Formatted output of the kernel (\<^verbatim>\<open>rt_vsnprintf\<close> and its callers in \<^verbatim>\<open>kservice.c\<close>), as configured: with precision, without
  \<^verbatim>\<open>long long\<close> and without the prefixes of \<^verbatim>\<open>%#x\<close>.

  The format, the strings and the buffer are in the same memory. Characters are written at \<open>str\<close> while that is below
  \<open>end\<close>, and \<open>str\<close> goes on behind it to count what did not fit. The variable arguments are a list of 32-bit words;
  taking one that was not passed, a signed overflow in the reading of a width and reading memory that is not there are
  \<open>None\<close>. The negation of the least number in \<^verbatim>\<open>print_number\<close> gives that number, as on the processor, and the output is
  taken to end before the end of the address space.
\<close>

section \<open>Characters and flags\<close>

definition asc :: "char \<Rightarrow> u8" where
  "asc c = of_char c"

definition ISDIGIT :: "u8 \<Rightarrow> bool" where
  "ISDIGIT c \<longleftrightarrow> c - asc (CHR ''0'') < 10"

definition ZEROPAD :: u8 where "ZEROPAD = 1"
definition SIGN :: u8 where "SIGN = 2"
definition PLUS :: u8 where "PLUS = 4"
definition SPACE :: u8 where "SPACE = 8"
definition LEFT_JUST :: u8 where "LEFT_JUST = 16"
definition SPECIAL :: u8 where "SPECIAL = 32"
definition LARGE :: u8 where "LARGE = 64"

definition has :: "u8 \<Rightarrow> u8 \<Rightarrow> bool" where
  "has flags f \<longleftrightarrow> flags AND f \<noteq> 0"

section \<open>Numbers\<close>

definition divide_step :: "u32 \<Rightarrow> int \<Rightarrow> u32 \<times> u32" where
  "divide_step n base = (if base = 10 then (n mod 10, n div 10) else (n mod 16, n div 16))"

partial_function (option) skip_atoi :: "mem \<Rightarrow> nat \<Rightarrow> int \<Rightarrow> (int \<times> nat) option" where
  "skip_atoi m s i = do {
     c \<leftarrow> m s;
     if ISDIGIT c then
       if i * 10 + uint c < 2 ^ 31 then skip_atoi m (s + 1) (i * 10 + uint c - uint (asc (CHR ''0''))) else None
     else Some (i, s)
   }"

type_synonym out = "nat \<times> mem"

definition emit :: "nat \<Rightarrow> u8 \<Rightarrow> out \<Rightarrow> out option" where
  "emit endp c o1 = (case o1 of (str, m) \<Rightarrow>
     if str < endp then do { m1 \<leftarrow> wr str c m; Some (str + 1, m1) } else Some (str + 1, m))"

text \<open>\<^verbatim>\<open>while (size-- > 0)\<close>, with the value of \<open>size\<close> behind the loop.\<close>

function pad_loop :: "nat \<Rightarrow> u8 \<Rightarrow> int \<Rightarrow> out \<Rightarrow> (int \<times> out) option" where
  "pad_loop endp c sz o1 =
     (if sz > 0 then do { o2 \<leftarrow> emit endp c o1; pad_loop endp c (sz - 1) o2 } else Some (sz - 1, o1))"
  by auto
termination by (relation "measure (\<lambda>(_, _, sz, _). nat sz)") auto

function zero_loop :: "nat \<Rightarrow> int \<Rightarrow> int \<Rightarrow> out \<Rightarrow> out option" where
  "zero_loop endp i precision o1 =
     (if i < precision then do { o2 \<leftarrow> emit endp (asc (CHR ''0'')) o1; zero_loop endp i (precision - 1) o2 } else Some o1)"
  by auto
termination by (relation "measure (\<lambda>(_, i, p, _). nat (p - i))") auto

fun emits :: "nat \<Rightarrow> u8 list \<Rightarrow> out \<Rightarrow> out option" where
  "emits endp [] o1 = Some o1"
| "emits endp (c # cs) o1 = do { o2 \<leftarrow> emit endp c o1; emits endp cs o2 }"

definition digit :: "bool \<Rightarrow> u32 \<Rightarrow> u8" where
  "digit large d = (if d < 10 then asc (CHR ''0'') + ucast d
                    else (if large then asc (CHR ''A'') else asc (CHR ''a'')) + ucast (d - 10))"

text \<open>The digits in \<^verbatim>\<open>tmp\<close>, the lowest first.\<close>

function tmp_digits :: "bool \<Rightarrow> int \<Rightarrow> u32 \<Rightarrow> u8 list" where
  "tmp_digits large base num =
     (if num = 0 then []
      else let (d, num1) = divide_step num base in digit large d # tmp_digits large base num1)"
  by auto
termination
  by (relation "measure (\<lambda>(_, _, num). unat num)")
    (auto simp: divide_step_def unat_div_distrib word_unat_eq_iff split: if_splits)

definition print_number :: "nat \<Rightarrow> u32 \<Rightarrow> int \<Rightarrow> int \<Rightarrow> int \<Rightarrow> u8 \<Rightarrow> out \<Rightarrow> out option" where
  "print_number endp num0 base s precision0 type0 o0 = do {
     let large = has type0 LARGE;
     let type = (if has type0 LEFT_JUST then type0 AND NOT ZEROPAD else type0);
     let c = (if has type ZEROPAD then asc (CHR ''0'') else asc (CHR '' ''));
     let (sign, num) = (if has type SIGN then
                          if sint num0 < 0 then (asc (CHR ''-''), - num0)
                          else if has type PLUS then (asc (CHR ''+''), num0)
                          else if has type SPACE then (asc (CHR '' ''), num0) else (0, num0)
                        else (0, num0));
     let tmp = (if num = 0 then [asc (CHR ''0'')] else tmp_digits large base num);
     let i = int (length tmp);
     let precision = (if i > precision0 then i else precision0);
     let size1 = s - precision;
     (size2, o1) \<leftarrow> (if \<not> has type (ZEROPAD OR LEFT_JUST)
                    then pad_loop endp (asc (CHR '' '')) (if sign \<noteq> 0 \<and> size1 > 0 then size1 - 1 else size1) o0
                    else Some (size1, o0));
     o2 \<leftarrow> (if sign \<noteq> 0 then emit endp sign o1 else Some o1);
     let size3 = (if sign \<noteq> 0 then size2 - 1 else size2);
     (size4, o3) \<leftarrow> (if \<not> has type LEFT_JUST then pad_loop endp c size3 o2 else Some (size3, o2));
     o4 \<leftarrow> zero_loop endp i precision o3;
     o5 \<leftarrow> (if precision0 \<noteq> 0 then emits endp (rev tmp) o4 else Some o4);
     (_, o6) \<leftarrow> pad_loop endp (asc (CHR '' '')) size4 o5;
     Some o6
   }"

section \<open>The format\<close>

partial_function (option) flags_loop :: "mem \<Rightarrow> nat \<Rightarrow> u8 \<Rightarrow> (nat \<times> u8) option" where
  "flags_loop m fmt flags = do {
     c \<leftarrow> m (fmt + 1);
     if c = asc (CHR ''-'') then flags_loop m (fmt + 1) (flags OR LEFT_JUST)
     else if c = asc (CHR ''+'') then flags_loop m (fmt + 1) (flags OR PLUS)
     else if c = asc (CHR '' '') then flags_loop m (fmt + 1) (flags OR SPACE)
     else if c = asc (CHR ''#'') then flags_loop m (fmt + 1) (flags OR SPECIAL)
     else if c = asc (CHR ''0'') then flags_loop m (fmt + 1) (flags OR ZEROPAD)
     else Some (fmt + 1, flags)
   }"

fun va_arg :: "u32 list \<Rightarrow> (u32 \<times> u32 list) option" where
  "va_arg [] = None"
| "va_arg (a # as) = Some (a, as)"

definition get_width :: "mem \<Rightarrow> nat \<Rightarrow> u8 \<Rightarrow> u32 list \<Rightarrow> (int \<times> nat \<times> u8 \<times> u32 list) option" where
  "get_width m fmt flags args = do {
     c \<leftarrow> m fmt;
     if ISDIGIT c then do { (w, f) \<leftarrow> skip_atoi m fmt 0; Some (w, f, flags, args) }
     else if c = asc (CHR ''*'') then do {
       (a, args1) \<leftarrow> va_arg args;
       let w = sint a;
       if w < 0 then if w = - (2 ^ 31) then None else Some (- w, fmt + 1, flags OR LEFT_JUST, args1)
       else Some (w, fmt + 1, flags, args1)
     }
     else Some (- 1, fmt, flags, args)
   }"

definition get_precision :: "mem \<Rightarrow> nat \<Rightarrow> u32 list \<Rightarrow> (int \<times> nat \<times> u32 list) option" where
  "get_precision m fmt args = do {
     c \<leftarrow> m fmt;
     if c = asc (CHR ''.'') then do {
       d \<leftarrow> m (fmt + 1);
       (p, f, args1) \<leftarrow>
         (if ISDIGIT d then do { (p, f) \<leftarrow> skip_atoi m (fmt + 1) 0; Some (p, f, args) }
          else if d = asc (CHR ''*'') then do { (a, args1) \<leftarrow> va_arg args; Some (sint a, fmt + 2, args1) }
          else Some (- 1, fmt + 1, args));
       Some (if p < 0 then 0 else p, f, args1)
     } else Some (- 1, fmt, args)
   }"

text \<open>\<^verbatim>\<open>while (--field_width > 0)\<close>.\<close>

function width_loop :: "nat \<Rightarrow> int \<Rightarrow> out \<Rightarrow> (int \<times> out) option" where
  "width_loop endp w o1 =
     (if w - 1 > 0 then do { o2 \<leftarrow> emit endp (asc (CHR '' '')) o1; width_loop endp (w - 1) o2 } else Some (w - 1, o1))"
  by auto
termination by (relation "measure (\<lambda>(_, w, _). nat w)") auto

definition print_char :: "nat \<Rightarrow> u8 \<Rightarrow> int \<Rightarrow> u32 \<Rightarrow> out \<Rightarrow> out option" where
  "print_char endp flags width a o0 = do {
     (w1, o1) \<leftarrow> (if \<not> has flags LEFT_JUST then width_loop endp width o0 else Some (width, o0));
     o2 \<leftarrow> emit endp (ucast a) o1;
     (_, o3) \<leftarrow> width_loop endp w1 o2;
     Some o3
   }"

text \<open>The characters of an argument for \<^verbatim>\<open>%s\<close>; the null pointer stands for the literal \<^verbatim>\<open>(NULL)\<close>.\<close>

definition null_text :: "u8 list" where
  "null_text = map asc ''(NULL)'' @ [0]"

definition arg_char :: "mem \<Rightarrow> u32 \<Rightarrow> nat \<Rightarrow> u8 option" where
  "arg_char m s k = (if s = 0 then if k < length null_text then Some (null_text ! k) else None else m (unat s + k))"

partial_function (option) arg_len :: "mem \<Rightarrow> u32 \<Rightarrow> int \<Rightarrow> nat \<Rightarrow> nat option" where
  "arg_len m s width len =
     (if int len = width then Some len
      else do { c \<leftarrow> arg_char m s len; if c \<noteq> 0 then arg_len m s width (len + 1) else Some len })"

text \<open>\<^verbatim>\<open>while (len < field_width--)\<close>.\<close>

function len_loop :: "nat \<Rightarrow> int \<Rightarrow> int \<Rightarrow> out \<Rightarrow> (int \<times> out) option" where
  "len_loop endp len w o1 =
     (if len < w then do { o2 \<leftarrow> emit endp (asc (CHR '' '')) o1; len_loop endp len (w - 1) o2 } else Some (w - 1, o1))"
  by auto
termination by (relation "measure (\<lambda>(_, len, w, _). nat (w - len))") auto

fun copy_arg :: "nat \<Rightarrow> u32 \<Rightarrow> nat \<Rightarrow> nat \<Rightarrow> out \<Rightarrow> out option" where
  "copy_arg endp s i 0 o1 = Some o1"
| "copy_arg endp s i (Suc k) o1 = do {
     c \<leftarrow> arg_char (snd o1) s i;
     o2 \<leftarrow> emit endp c o1;
     copy_arg endp s (i + 1) k o2
   }"

definition print_string :: "nat \<Rightarrow> u8 \<Rightarrow> int \<Rightarrow> int \<Rightarrow> u32 \<Rightarrow> out \<Rightarrow> out option" where
  "print_string endp flags width precision s o0 = do {
     len0 \<leftarrow> arg_len (snd o0) s width 0;
     let len = (if precision > 0 \<and> int len0 > precision then nat precision else len0);
     (w1, o1) \<leftarrow> (if \<not> has flags LEFT_JUST then len_loop endp (int len) width o0 else Some (width, o0));
     o2 \<leftarrow> copy_arg endp s 0 len o1;
     (_, o3) \<leftarrow> len_loop endp (int len) w1 o2;
     Some o3
   }"

text \<open>The value of an integer argument; \<open>h\<close> says that the qualifier is \<^verbatim>\<open>h\<close>.\<close>

definition int_arg :: "bool \<Rightarrow> u8 \<Rightarrow> u32 \<Rightarrow> u32" where
  "int_arg h flags a =
     (if h then if has flags SIGN then scast (ucast a :: u16) else ucast (ucast a :: u16) else a)"

text \<open>One conversion: \<open>fmt\<close> is at its letter. The result is the place of the last character read.\<close>

definition convert :: "nat \<Rightarrow> nat \<Rightarrow> u8 \<Rightarrow> int \<Rightarrow> int \<Rightarrow> bool \<Rightarrow> u32 list \<Rightarrow> out \<Rightarrow> (nat \<times> u32 list \<times> out) option" where
  "convert endp fmt flags width precision h args o1 = do {
     c \<leftarrow> snd o1 fmt;
     if c = asc (CHR ''c'') then do {
       (a, args1) \<leftarrow> va_arg args; o2 \<leftarrow> print_char endp flags width a o1; Some (fmt, args1, o2) }
     else if c = asc (CHR ''s'') then do {
       (a, args1) \<leftarrow> va_arg args; o2 \<leftarrow> print_string endp flags width precision a o1; Some (fmt, args1, o2) }
     else if c = asc (CHR ''p'') then do {
       (a, args1) \<leftarrow> va_arg args;
       o2 \<leftarrow> print_number endp a 16 (if width = - 1 then 8 else width) precision
                (if width = - 1 then flags OR ZEROPAD else flags) o1;
       Some (fmt, args1, o2) }
     else if c = asc (CHR ''%'') then do { o2 \<leftarrow> emit endp (asc (CHR ''%'')) o1; Some (fmt, args, o2) }
     else if c \<in> {asc (CHR ''o''), asc (CHR ''X''), asc (CHR ''x''), asc (CHR ''d''), asc (CHR ''i''), asc (CHR ''u'')} then do {
       (a, args1) \<leftarrow> va_arg args;
       let base = (if c = asc (CHR ''o'') then 8 else if c = asc (CHR ''X'') \<or> c = asc (CHR ''x'') then 16 else 10);
       let flags1 = (if c = asc (CHR ''X'') then flags OR LARGE
                     else if c = asc (CHR ''d'') \<or> c = asc (CHR ''i'') then flags OR SIGN else flags);
       o2 \<leftarrow> print_number endp (int_arg h flags1 a) base width precision flags1 o1;
       Some (fmt, args1, o2) }
     else do {
       o2 \<leftarrow> emit endp (asc (CHR ''%'')) o1;
       if c \<noteq> 0 then do { o3 \<leftarrow> emit endp c o2; Some (fmt, args, o3) } else Some (fmt - 1, args, o2) }
   }"

definition directive :: "nat \<Rightarrow> nat \<Rightarrow> u32 list \<Rightarrow> out \<Rightarrow> (nat \<times> u32 list \<times> out) option" where
  "directive endp fmt args o1 = do {
     (f1, flags) \<leftarrow> flags_loop (snd o1) fmt 0;
     (width, f2, flags1, args1) \<leftarrow> get_width (snd o1) f1 flags args;
     (precision, f3, args2) \<leftarrow> get_precision (snd o1) f2 args1;
     c \<leftarrow> snd o1 f3;
     if c = asc (CHR ''h'') then convert endp (f3 + 1) flags1 width precision True args2 o1
     else if c = asc (CHR ''l'') then convert endp (f3 + 1) flags1 width precision False args2 o1
     else convert endp f3 flags1 width precision False args2 o1
   }"

partial_function (option) vsn_loop :: "nat \<Rightarrow> nat \<Rightarrow> u32 list \<Rightarrow> out \<Rightarrow> out option" where
  "vsn_loop endp fmt args o1 = do {
     c \<leftarrow> snd o1 fmt;
     if c = 0 then Some o1
     else if c \<noteq> asc (CHR ''%'') then do { o2 \<leftarrow> emit endp c o1; vsn_loop endp (fmt + 1) args o2 }
     else do { (f, args1, o2) \<leftarrow> directive endp fmt args o1; vsn_loop endp (f + 1) args1 o2 }
   }"

text \<open>The end of the buffer, when the sum does not wrap around.\<close>

definition buf_end :: "nat \<Rightarrow> u32 \<Rightarrow> nat" where
  "buf_end buf sz = (if buf + unat sz < 2 ^ 32 then buf + unat sz else 2 ^ 32 - 1)"

definition rt_vsnprintf :: "nat \<Rightarrow> u32 \<Rightarrow> nat \<Rightarrow> u32 list \<Rightarrow> mem \<Rightarrow> (int \<times> mem) option" where
  "rt_vsnprintf buf size0 fmt args m = do {
     let endp = buf_end buf size0;
     let sz = endp - buf;
     (str, m1) \<leftarrow> vsn_loop endp fmt args (buf, m);
     m2 \<leftarrow> (if sz > 0 then if str < endp then wr str 0 m1 else wr (endp - 1) 0 m1 else Some m1);
     Some (int str - int buf, m2)
   }"

definition rt_snprintf :: "nat \<Rightarrow> u32 \<Rightarrow> nat \<Rightarrow> u32 list \<Rightarrow> mem \<Rightarrow> (int \<times> mem) option" where
  "rt_snprintf buf sz fmt args m = rt_vsnprintf buf sz fmt args m"

definition rt_vsprintf :: "nat \<Rightarrow> nat \<Rightarrow> u32 list \<Rightarrow> mem \<Rightarrow> (int \<times> mem) option" where
  "rt_vsprintf buf fmt args m = rt_vsnprintf buf (- 1) fmt args m"

definition rt_sprintf :: "nat \<Rightarrow> nat \<Rightarrow> u32 list \<Rightarrow> mem \<Rightarrow> (int \<times> mem) option" where
  "rt_sprintf buf fmt args m = rt_vsprintf buf fmt args m"

declare pad_loop.simps [simp del] zero_loop.simps [simp del] tmp_digits.simps [simp del] width_loop.simps [simp del] len_loop.simps [simp del]

lemma asc_eq_iff [simp]: "asc a = asc b \<longleftrightarrow> a = b"
proof
  have u: "unat (asc c) = of_char c" for c
  proof -
    have "asc c = of_nat (of_char c)" by (cases c) (simp add: asc_def)
    then have "unat (asc c) = of_char c mod 2 ^ 8" by (simp only: unat_of_nat) simp
    then show ?thesis by simp
  qed
  assume "asc a = asc b"
  then have "(of_char a :: nat) = of_char b" using u by metis
  then show "a = b" by simp
qed simp

section \<open>Output as a list of characters\<close>

text \<open>What the memory holds after the characters \<open>cs\<close> were put out at \<open>str\<close>.\<close>

definition placed :: "nat \<Rightarrow> nat \<Rightarrow> u8 list \<Rightarrow> mem \<Rightarrow> mem" where
  "placed endp str cs m = (\<lambda>x. if str \<le> x \<and> x < str + length cs \<and> x < endp then Some (cs ! (x - str)) else m x)"

lemma placed_Nil [simp]: "placed endp str [] m = m"
  by (auto simp: placed_def fun_eq_iff)

lemma placed_out: "x < str \<or> endp \<le> x \<Longrightarrow> placed endp str cs m x = m x"
  by (auto simp: placed_def)

lemma placed_append: "placed endp (str + length cs) ds (placed endp str cs m) = placed endp str (cs @ ds) m"
  by (auto simp: placed_def fun_eq_iff nth_append)

lemma emit_Some: "emit endp c (str, m) = Some o2 \<Longrightarrow> o2 = (str + 1, placed endp str [c] m)"
  by (auto simp: emit_def wr_def placed_def fun_eq_iff split: if_splits)

lemma emits_Some: "emits endp cs (str, m) = Some o2 \<Longrightarrow> o2 = (str + length cs, placed endp str cs m)"
proof (induction cs arbitrary: str m)
  case (Cons c cs)
  then obtain o1 where o1: "emit endp c (str, m) = Some o1" "emits endp cs o1 = Some o2" by (auto simp: bind_eq_Some_conv)
  from emit_Some [OF o1(1)] o1(2) show ?case
    using Cons.IH [of "str + 1" "placed endp str [c] m"] placed_append [of endp str "[c]" cs m] by simp
qed simp

lemma emit_ok: "mapped str (endp - str) m \<Longrightarrow> \<exists>o2. emit endp c (str, m) = Some o2"
  by (auto simp: emit_def wr_def mapped_def)

lemma mapped_placed: "mapped a k m \<Longrightarrow> mapped a k (placed endp str cs m)"
  by (auto simp: mapped_def placed_def)

lemma emits_placed: "mapped str (endp - str) m \<Longrightarrow> emits endp cs (str, m) = Some (str + length cs, placed endp str cs m)"
proof (induction cs arbitrary: str m)
  case (Cons c cs)
  have "emit endp c (str, m) = Some (str + 1, placed endp str [c] m)" using emit_ok [OF Cons.prems, of c] emit_Some [of endp c str m] by auto
  moreover have "mapped (str + 1) (endp - (str + 1)) (placed endp str [c] m)"
    using Cons.prems by (intro mapped_placed) (auto simp: mapped_def)
  ultimately show ?case using Cons.IH [of "str + 1"] placed_append [of endp str "[c]" cs m] by simp
qed simp

lemma emits_append: "emits endp (cs @ ds) o1 = do { o2 \<leftarrow> emits endp cs o1; emits endp ds o2 }"
proof (induction cs arbitrary: o1)
  case (Cons c cs)
  then show ?case by (cases "emit endp c o1") simp_all
qed simp

lemma emits_Nil_fun [simp]: "emits endp [] = Some"
  by (rule ext) simp

lemma emit_emits: "emit endp c o1 = emits endp [c] o1"
  by (cases "emit endp c o1") simp_all

lemma pad_loop_emits:
  "pad_loop endp c sz o1 = do { o2 \<leftarrow> emits endp (replicate (nat sz) c) o1; Some (if sz > 0 then - 1 else sz - 1, o2) }"
proof (induction endp c sz o1 rule: pad_loop.induct)
  case (1 endp c sz o1)
  show ?case
  proof (cases "sz > 0")
    case True
    then have n: "nat sz = Suc (nat (sz - 1))" by simp
    show ?thesis using 1 True unfolding n pad_loop.simps [of endp c sz] by (cases "emit endp c o1") auto
  qed (simp add: pad_loop.simps)
qed

lemma zero_loop_emits: "zero_loop endp i p o1 = emits endp (replicate (nat (p - i)) (asc (CHR ''0''))) o1"
proof (induction endp i p o1 rule: zero_loop.induct)
  case (1 endp i p o1)
  show ?case
  proof (cases "i < p")
    case True
    then have n: "nat (p - i) = Suc (nat (p - 1 - i))" by simp
    show ?thesis using 1 True unfolding n zero_loop.simps [of endp i p] by (cases "emit endp (asc (CHR ''0'')) o1") auto
  qed (simp add: zero_loop.simps)
qed

lemma width_loop_emits:
  "width_loop endp w o1 = do { o2 \<leftarrow> emits endp (replicate (nat (w - 1)) (asc (CHR '' ''))) o1; Some (if w > 1 then 0 else w - 1, o2) }"
proof (induction endp w o1 rule: width_loop.induct)
  case (1 endp w o1)
  show ?case
  proof (cases "w - 1 > 0")
    case True
    then have n: "nat (w - 1) = Suc (nat (w - 1 - 1))" by simp
    show ?thesis using 1 True unfolding n width_loop.simps [of endp w] by (cases "emit endp (asc (CHR '' '')) o1") auto
  qed (simp add: width_loop.simps)
qed

lemma len_loop_emits:
  "len_loop endp len w o1 = do { o2 \<leftarrow> emits endp (replicate (nat (w - len)) (asc (CHR '' ''))) o1; Some (min w len - 1, o2) }"
proof (induction endp len w o1 rule: len_loop.induct)
  case (1 endp len w o1)
  show ?case
  proof (cases "len < w")
    case True
    then have n: "nat (w - len) = Suc (nat (w - 1 - len))" by simp
    show ?thesis using 1 True unfolding n len_loop.simps [of endp len w] by (cases "emit endp (asc (CHR '' '')) o1") auto
  qed (simp add: len_loop.simps)
qed

section \<open>The text of a conversion\<close>

definition spaces :: "int \<Rightarrow> u8 list" where
  "spaces k = replicate (nat k) (asc (CHR '' ''))"

definition zeros :: "int \<Rightarrow> u8 list" where
  "zeros k = replicate (nat k) (asc (CHR ''0''))"

text \<open>The sign and the magnitude of a number.\<close>

definition sign_text :: "u8 \<Rightarrow> u32 \<Rightarrow> u8 list" where
  "sign_text flags num =
     (if \<not> has flags SIGN then [] else if sint num < 0 then [asc (CHR ''-'')]
      else if has flags PLUS then [asc (CHR ''+'')] else if has flags SPACE then [asc (CHR '' '')] else [])"

definition magnitude :: "u8 \<Rightarrow> u32 \<Rightarrow> u32" where
  "magnitude flags num = (if has flags SIGN \<and> sint num < 0 then - num else num)"

definition digits_text :: "bool \<Rightarrow> int \<Rightarrow> u32 \<Rightarrow> u8 list" where
  "digits_text large base num = (if num = 0 then [asc (CHR ''0'')] else rev (tmp_digits large base num))"

definition number_text :: "u32 \<Rightarrow> int \<Rightarrow> int \<Rightarrow> int \<Rightarrow> u8 \<Rightarrow> u8 list" where
  "number_text num base width precision flags =
     (let ds = digits_text (has flags LARGE) base (magnitude flags num);
          sg = sign_text flags num;
          body = zeros (precision - int (length ds)) @ (if precision = 0 then [] else ds);
          k = width - max (int (length ds)) precision - int (length sg)
      in if has flags LEFT_JUST then sg @ body @ spaces k
         else if has flags ZEROPAD then sg @ zeros k @ body
         else spaces k @ sg @ body)"

definition char_text :: "u8 \<Rightarrow> int \<Rightarrow> u32 \<Rightarrow> u8 list" where
  "char_text flags width a =
     (if has flags LEFT_JUST then ucast a # spaces (width - 1) else spaces (width - 1) @ [ucast a])"

lemma flag_consts: "ZEROPAD = 1" "SIGN = 2" "PLUS = 4" "SPACE = 8" "LEFT_JUST = 16" "LARGE = 64"
  by (simp_all add: ZEROPAD_def SIGN_def PLUS_def SPACE_def LEFT_JUST_def LARGE_def)

lemma has_bit: "has x 1 \<longleftrightarrow> bit x 0" "has x 2 \<longleftrightarrow> bit x 1" "has x 4 \<longleftrightarrow> bit x 2" "has x 8 \<longleftrightarrow> bit x 3" "has x 16 \<longleftrightarrow> bit x 4" "has x 64 \<longleftrightarrow> bit x 6"
proof -
  have "has x (2 ^ n) \<longleftrightarrow> bit x n" if "n < 8" for n
    by (simp add: has_def and_exp_eq_0_iff_not_bit)
  from this [of 0] this [of 1] this [of 2] this [of 3] this [of 4] this [of 6]
  show "has x 1 \<longleftrightarrow> bit x 0" "has x 2 \<longleftrightarrow> bit x 1" "has x 4 \<longleftrightarrow> bit x 2" "has x 8 \<longleftrightarrow> bit x 3" "has x 16 \<longleftrightarrow> bit x 4" "has x 64 \<longleftrightarrow> bit x 6"
    by simp_all
qed

lemma has_or: "has x (a OR b) \<longleftrightarrow> has x a \<or> has x b"
  by (simp add: has_def bit.conj_disj_distrib or_eq_0_iff)

lemma has_zeropad_off:
  "\<not> has (x AND NOT ZEROPAD) ZEROPAD" "has (x AND NOT ZEROPAD) LEFT_JUST \<longleftrightarrow> has x LEFT_JUST" "has (x AND NOT ZEROPAD) SIGN \<longleftrightarrow> has x SIGN"
  "has (x AND NOT ZEROPAD) PLUS \<longleftrightarrow> has x PLUS" "has (x AND NOT ZEROPAD) SPACE \<longleftrightarrow> has x SPACE"
  unfolding flag_consts has_bit by (simp_all add: bit_simps)

lemma asc_nonzero [simp]: "asc (CHR ''-'') \<noteq> 0" "asc (CHR ''+'') \<noteq> 0" "asc (CHR '' '') \<noteq> 0"
  by (simp_all add: asc_def)

lemma sign_text_cases:
  "(if has f SIGN then if sint num < 0 then (asc (CHR ''-''), - num) else if has f PLUS then (asc (CHR ''+''), num)
      else if has f SPACE then (asc (CHR '' ''), num) else (0, num) else (0, num)) =
   ((case sign_text f num of [] \<Rightarrow> 0 | c # _ \<Rightarrow> c), magnitude f num)"
  "sign_text f num = [] \<or> (\<exists>c. sign_text f num = [c] \<and> c \<noteq> 0)"
  by (auto simp: sign_text_def magnitude_def)

lemma print_number_emits: "print_number endp num base s p f o0 = emits endp (number_text num base s p f) o0"
proof -
  define t where "t = (if has f LEFT_JUST then f AND NOT ZEROPAD else f)"
  have t: "has t LEFT_JUST = has f LEFT_JUST" "has t SIGN = has f SIGN" "has t PLUS = has f PLUS" "has t SPACE = has f SPACE"
    "has t ZEROPAD = (has f ZEROPAD \<and> \<not> has f LEFT_JUST)" by (auto simp: t_def has_zeropad_off)
  have st: "sign_text t num = sign_text f num" "magnitude t num = magnitude f num" by (simp_all add: sign_text_def magnitude_def t)
  define tmp where "tmp = (if magnitude f num = 0 then [asc (CHR ''0'')] else tmp_digits (has f LARGE) base (magnitude f num))"
  have ds: "digits_text (has f LARGE) base (magnitude f num) = rev tmp" by (simp add: digits_text_def tmp_def)
  define sg where "sg = sign_text f num"
  have sg: "sg = [] \<or> (\<exists>c. sg = [c] \<and> c \<noteq> 0)" unfolding sg_def by (rule sign_text_cases)
  have mx: "(if int (length tmp) > p then int (length tmp) else p) = max (int (length tmp)) p" by auto
  have z: "nat (max (int (length tmp)) p - int (length tmp)) = nat (p - int (length tmp))" by auto
  define sc where "sc = (case sg of [] \<Rightarrow> 0 | c # _ \<Rightarrow> c)"
  define w where "w = s - max (int (length tmp)) p"
  have e1: "(if sc \<noteq> 0 then emit endp sc o1 else Some o1) = emits endp sg o1" for o1
    using sg by (cases "emit endp sc o1") (auto simp: sc_def)
  have e2: "(if sc \<noteq> 0 then x - 1 else x) = x - int (length sg)" for x :: int using sg by (auto simp: sc_def)
  have e3: "(if sc \<noteq> 0 \<and> w > 0 then w - 1 else w) = (if w > 0 then w - int (length sg) else w)" using sg by (auto simp: sc_def)
  have e4: "nat (if w > 0 then w - int (length sg) else w) = nat (w - int (length sg))" by auto
  have e5: "nat (if x > 0 then - 1 else x - 1) = 0" "nat ((if x > 0 then - 1 else x - 1) - int n) = 0"
    "\<not> (if x > 0 then - 1 else x - 1) - int n > 0" "nat (if int n < x then - 1 else x - int n - 1) = 0" for x and n by auto
  note eqs = print_number_def number_text_def Let_def t_def [symmetric] sign_text_cases(1) st prod.case ds tmp_def [symmetric]
    sg_def [symmetric] sc_def [symmetric] mx e1 e2 w_def [symmetric] e3 pad_loop_emits zero_loop_emits z e4 has_or t
    spaces_def zeros_def emits_append length_rev
  show ?thesis
  proof (cases "has f LEFT_JUST")
    case True
    then show ?thesis unfolding eqs by (cases "p = 0") (simp_all add: bind_assoc emits_append)
  next
    case left: False
    show ?thesis
    proof (cases "has f ZEROPAD")
      case True
      then show ?thesis using left unfolding eqs by (cases "p = 0") (simp_all add: bind_assoc emits_append e5 split del: if_split)
    next
      case False
      then show ?thesis using left unfolding eqs by (cases "p = 0") (simp_all add: bind_assoc emits_append e5 split del: if_split)
    qed
  qed
qed

lemma print_char_emits: "print_char endp f w a o0 = emits endp (char_text f w a) o0"
proof -
  have "nat ((if w > 1 then 0 else w - 1) - 1) = 0" by simp
  then show ?thesis by (simp add: print_char_def width_loop_emits char_text_def spaces_def emits_append bind_assoc)
qed

section \<open>The text of a format\<close>

text \<open>The same reading of the format and the arguments, with the characters as a list instead of in a buffer.\<close>

fun arg_chars :: "mem \<Rightarrow> u32 \<Rightarrow> nat \<Rightarrow> nat \<Rightarrow> u8 list option" where
  "arg_chars m s i 0 = Some []"
| "arg_chars m s i (Suc k) = do { c \<leftarrow> arg_char m s i; cs \<leftarrow> arg_chars m s (i + 1) k; Some (c # cs) }"

definition string_text :: "mem \<Rightarrow> u8 \<Rightarrow> int \<Rightarrow> int \<Rightarrow> u32 \<Rightarrow> u8 list option" where
  "string_text m flags width precision s = do {
     len0 \<leftarrow> arg_len m s width 0;
     let len = (if precision > 0 then min len0 (nat precision) else len0);
     cs \<leftarrow> arg_chars m s 0 len;
     Some (if has flags LEFT_JUST then cs @ spaces (width - int len) else spaces (width - int len) @ cs)
   }"

definition convert_text :: "mem \<Rightarrow> nat \<Rightarrow> u8 \<Rightarrow> int \<Rightarrow> int \<Rightarrow> bool \<Rightarrow> u32 list \<Rightarrow> (nat \<times> u32 list \<times> u8 list) option" where
  "convert_text m fmt flags width precision h args = do {
     c \<leftarrow> m fmt;
     if c = asc (CHR ''c'') then do { (a, args1) \<leftarrow> va_arg args; Some (fmt, args1, char_text flags width a) }
     else if c = asc (CHR ''s'') then do {
       (a, args1) \<leftarrow> va_arg args; cs \<leftarrow> string_text m flags width precision a; Some (fmt, args1, cs) }
     else if c = asc (CHR ''p'') then do {
       (a, args1) \<leftarrow> va_arg args;
       Some (fmt, args1, number_text a 16 (if width = - 1 then 8 else width) precision
                           (if width = - 1 then flags OR ZEROPAD else flags)) }
     else if c = asc (CHR ''%'') then Some (fmt, args, [asc (CHR ''%'')])
     else if c \<in> {asc (CHR ''o''), asc (CHR ''X''), asc (CHR ''x''), asc (CHR ''d''), asc (CHR ''i''), asc (CHR ''u'')} then do {
       (a, args1) \<leftarrow> va_arg args;
       let base = (if c = asc (CHR ''o'') then 8 else if c = asc (CHR ''X'') \<or> c = asc (CHR ''x'') then 16 else 10);
       let flags1 = (if c = asc (CHR ''X'') then flags OR LARGE
                     else if c = asc (CHR ''d'') \<or> c = asc (CHR ''i'') then flags OR SIGN else flags);
       Some (fmt, args1, number_text (int_arg h flags1 a) base width precision flags1) }
     else if c \<noteq> 0 then Some (fmt, args, [asc (CHR ''%''), c]) else Some (fmt - 1, args, [asc (CHR ''%'')])
   }"

definition directive_text :: "mem \<Rightarrow> nat \<Rightarrow> u32 list \<Rightarrow> (nat \<times> u32 list \<times> u8 list) option" where
  "directive_text m fmt args = do {
     (f1, flags) \<leftarrow> flags_loop m fmt 0;
     (width, f2, flags1, args1) \<leftarrow> get_width m f1 flags args;
     (precision, f3, args2) \<leftarrow> get_precision m f2 args1;
     c \<leftarrow> m f3;
     if c = asc (CHR ''h'') then convert_text m (f3 + 1) flags1 width precision True args2
     else if c = asc (CHR ''l'') then convert_text m (f3 + 1) flags1 width precision False args2
     else convert_text m f3 flags1 width precision False args2
   }"

partial_function (option) format_text :: "mem \<Rightarrow> nat \<Rightarrow> u32 list \<Rightarrow> u8 list option" where
  "format_text m fmt args = do {
     c \<leftarrow> m fmt;
     if c = 0 then Some []
     else if c \<noteq> asc (CHR ''%'') then do { cs \<leftarrow> format_text m (fmt + 1) args; Some (c # cs) }
     else do { (f, args1, ds) \<leftarrow> directive_text m fmt args; cs \<leftarrow> format_text m (f + 1) args1; Some (ds @ cs) }
   }"

section \<open>Reading does not depend on the buffer\<close>

lemma map_le_Some: "m \<subseteq>\<^sub>m m' \<Longrightarrow> m x = Some v \<Longrightarrow> m' x = Some v"
  by (metis domI map_le_def)

lemma arg_char_le: "m \<subseteq>\<^sub>m m' \<Longrightarrow> arg_char m s k = Some c \<Longrightarrow> arg_char m' s k = Some c"
  by (auto simp: arg_char_def map_le_Some split: if_splits)

lemma arg_chars_le: "m \<subseteq>\<^sub>m m' \<Longrightarrow> arg_chars m s i k = Some cs \<Longrightarrow> arg_chars m' s i k = Some cs"
  by (induction k arbitrary: i cs) (auto simp: bind_eq_Some_conv dest: arg_char_le)

lemma arg_len_le:
  assumes "arg_len m s w k = Some n" "m \<subseteq>\<^sub>m m'"
  shows "arg_len m' s w k = Some n"
proof -
  have "m \<subseteq>\<^sub>m m' \<longrightarrow> arg_len m' s w k = Some n"
  proof (rule arg_len.raw_induct [OF _ assms(1)], intro impI, goal_cases)
    case (1 loop m s w k n)
    show ?case
    proof (cases "int k = w")
      case True
      then show ?thesis using 1(2) by (simp add: arg_len.simps)
    next
      case False
      then obtain c where c: "arg_char m s k = Some c" "(if c \<noteq> 0 then loop m s w (k + 1) else Some k) = Some n"
        using 1(2) by (auto simp: bind_eq_Some_conv)
      then show ?thesis using False 1(1) [of m s w "k + 1" n] arg_char_le [OF 1(3) c(1)] 1(3)
        by (simp add: arg_len.simps [of m'] split: if_splits)
    qed
  qed
  then show ?thesis using assms(2) by blast
qed

lemma skip_atoi_le:
  assumes "skip_atoi m s i = Some r" "m \<subseteq>\<^sub>m m'"
  shows "skip_atoi m' s i = Some r"
proof -
  have "m \<subseteq>\<^sub>m m' \<longrightarrow> skip_atoi m' s i = Some r"
  proof (rule skip_atoi.raw_induct [OF _ assms(1)], intro impI, goal_cases)
    case (1 loop m s i r)
    then obtain c where c: "m s = Some c" "m' s = Some c" by (auto simp: bind_eq_Some_conv dest: map_le_Some)
    have hyp: "loop m (s + 1) x = Some r \<Longrightarrow> skip_atoi m' (s + 1) x = Some r" for x using 1(1) [of m "s + 1" x r] 1(3) by simp
    show ?case using 1(2) c unfolding skip_atoi.simps [of m' s i] by (auto split: if_splits dest: hyp [simplified])
  qed
  then show ?thesis using assms(2) by blast
qed

lemma flags_loop_le:
  assumes "flags_loop m f fl = Some r" "m \<subseteq>\<^sub>m m'"
  shows "flags_loop m' f fl = Some r"
proof -
  have "m \<subseteq>\<^sub>m m' \<longrightarrow> flags_loop m' f fl = Some r"
  proof (rule flags_loop.raw_induct [OF _ assms(1)], intro impI, goal_cases)
    case (1 loop m f fl r)
    then obtain c where c: "m (f + 1) = Some c" "m' (f + 1) = Some c" by (auto simp: bind_eq_Some_conv dest: map_le_Some)
    have hyp: "loop m (f + 1) x = Some r \<Longrightarrow> flags_loop m' (f + 1) x = Some r" for x using 1(1) [of m "f + 1" x r] 1(3) by simp
    show ?case using 1(2) c unfolding flags_loop.simps [of m' f fl] by (auto split: if_splits dest: hyp [simplified])
  qed
  then show ?thesis using assms(2) by blast
qed

lemma get_width_le:
  assumes "get_width m f fl args = Some r" "m \<subseteq>\<^sub>m m'"
  shows "get_width m' f fl args = Some r"
proof -
  obtain c where c: "m f = Some c" "m' f = Some c" using assms by (auto simp: get_width_def bind_eq_Some_conv dest: map_le_Some)
  show ?thesis
  proof (cases "ISDIGIT c")
    case True
    then obtain q where "skip_atoi m f 0 = Some q" using assms(1) c by (auto simp: get_width_def bind_eq_Some_conv)
    then show ?thesis using True assms c skip_atoi_le [of m f 0 q m'] by (simp add: get_width_def)
  qed (use assms c in \<open>simp add: get_width_def\<close>)
qed

lemma get_precision_le:
  assumes "get_precision m f args = Some r" "m \<subseteq>\<^sub>m m'"
  shows "get_precision m' f args = Some r"
proof -
  obtain c where c: "m f = Some c" "m' f = Some c" using assms by (auto simp: get_precision_def bind_eq_Some_conv dest: map_le_Some)
  show ?thesis
  proof (cases "c = asc (CHR ''.'')")
    case dot: True
    then obtain d where d: "m (f + 1) = Some d" "m' (f + 1) = Some d"
      using assms c by (auto simp: get_precision_def bind_eq_Some_conv dest: map_le_Some)
    show ?thesis
    proof (cases "ISDIGIT d")
      case True
      then obtain q where "skip_atoi m (f + 1) 0 = Some q" using assms(1) c d dot by (auto simp: get_precision_def bind_eq_Some_conv)
      then show ?thesis using True assms c d dot skip_atoi_le [of m "f + 1" 0 q m'] by (simp add: get_precision_def)
    qed (use assms c d dot in \<open>simp add: get_precision_def\<close>)
  qed (use assms c in \<open>simp add: get_precision_def\<close>)
qed

text \<open>Memory that holds what is read: \<open>m0\<close> has no byte of the buffer.\<close>

definition reads_from :: "mem \<Rightarrow> nat \<Rightarrow> out \<Rightarrow> bool" where
  "reads_from m0 endp o1 \<longleftrightarrow> m0 \<subseteq>\<^sub>m snd o1 \<and> (\<forall>x. fst o1 \<le> x \<and> x < endp \<longrightarrow> m0 x = None)"

lemma reads_from_emits:
  assumes "reads_from m0 endp o1" "emits endp cs o1 = Some o2"
  shows "reads_from m0 endp o2"
proof -
  have "o2 = (fst o1 + length cs, placed endp (fst o1) cs (snd o1))" using emits_Some [of endp cs "fst o1" "snd o1" o2] assms(2) by simp
  moreover have "m0 x = placed endp (fst o1) cs (snd o1) x" if "x \<in> dom m0" for x
  proof -
    have "x < fst o1 \<or> endp \<le> x" using that assms(1) by (auto simp: reads_from_def dom_def not_le not_less)
    then show ?thesis using that assms(1) placed_out by (auto simp: reads_from_def map_le_def)
  qed
  ultimately show ?thesis using assms(1) by (auto simp: reads_from_def map_le_def)
qed

lemma copy_arg_emits:
  "arg_chars m0 s i k = Some cs \<Longrightarrow> reads_from m0 endp o1 \<Longrightarrow> copy_arg endp s i k o1 = emits endp cs o1"
proof (induction k arbitrary: i cs o1)
  case (Suc k)
  then obtain c ds where cs: "arg_char m0 s i = Some c" "arg_chars m0 s (i + 1) k = Some ds" "cs = c # ds"
    by (auto simp: bind_eq_Some_conv)
  have "m0 \<subseteq>\<^sub>m snd o1" using Suc.prems(2) by (simp add: reads_from_def)
  then have c: "arg_char (snd o1) s i = Some c" using cs(1) arg_char_le by blast
  have "copy_arg endp s (i + 1) k o2 = emits endp ds o2" if "emit endp c o1 = Some o2" for o2
    using Suc.IH [OF cs(2)] reads_from_emits [OF Suc.prems(2), of "[c]"] that emit_emits by metis
  then show ?case using c cs(3) by (cases "emit endp c o1") simp_all
qed simp

lemma print_string_emits:
  assumes tx: "string_text m0 f w p a = Some cs" and rd: "reads_from m0 endp o0"
  shows "print_string endp f w p a o0 = emits endp cs o0"
proof -
  have le: "m0 \<subseteq>\<^sub>m snd o0" using rd by (simp add: reads_from_def)
  obtain len0 where len0: "arg_len m0 a w 0 = Some len0" using tx by (auto simp: string_text_def bind_eq_Some_conv)
  define len where "len = (if p > 0 then min len0 (nat p) else len0)"
  obtain ds where ds: "arg_chars m0 a 0 len = Some ds"
    "cs = (if has f LEFT_JUST then ds @ spaces (w - int len) else spaces (w - int len) @ ds)"
    using tx len0 by (auto simp: string_text_def len_def bind_eq_Some_conv Let_def)
  have len: "(if p > 0 \<and> int len0 > p then nat p else len0) = len" by (auto simp: len_def)
  have copy: "copy_arg endp a 0 len o1 = emits endp ds o1" if "emits endp (spaces k) o0 = Some o1" for k o1
    by (rule copy_arg_emits [OF ds(1) reads_from_emits [OF rd that]])
  have z: "nat (min w (int len) - 1 - int len) = 0" by simp
  show ?thesis
  proof (cases "has f LEFT_JUST")
    case True
    have "copy_arg endp a 0 len o0 = emits endp ds o0" using copy [of 0 o0] by (simp add: spaces_def)
    then show ?thesis using True ds(2) arg_len_le [OF len0 le] unfolding print_string_def
      by (simp add: len len_loop_emits emits_append spaces_def bind_assoc)
  next
    case False
    show ?thesis
    proof (cases "emits endp (spaces (w - int len)) o0")
      case None
      then show ?thesis using False ds(2) arg_len_le [OF len0 le] unfolding print_string_def
        by (simp add: len len_loop_emits emits_append spaces_def)
    next
      case (Some o1)
      then show ?thesis using False ds(2) arg_len_le [OF len0 le] copy [OF Some] z unfolding print_string_def
        by (simp add: len len_loop_emits emits_append spaces_def)
    qed
  qed
qed

lemma convert_emits:
  assumes tx: "convert_text m0 fmt f w p h args = Some (g, as, cs)" and rd: "reads_from m0 endp o1"
  shows "convert endp fmt f w p h args o1 = do { o2 \<leftarrow> emits endp cs o1; Some (g, as, o2) }"
proof -
  have "m0 \<subseteq>\<^sub>m snd o1" using rd by (simp add: reads_from_def)
  then obtain c where c: "m0 fmt = Some c" "snd o1 fmt = Some c"
    using tx by (auto simp: convert_text_def bind_eq_Some_conv dest: map_le_Some)
  have two: "emits endp [x, y] o1 = do { o2 \<leftarrow> emit endp x o1; emit endp y o2 }" for x y
    by (cases "emit endp x o1"; cases "emit endp y (the (emit endp x o1))") simp_all
  have one: "emits endp [x] o1 = emit endp x o1" for x by (cases "emit endp x o1") simp_all
  let ?ints = "{asc (CHR ''o''), asc (CHR ''X''), asc (CHR ''x''), asc (CHR ''d''), asc (CHR ''i''), asc (CHR ''u'')}"
  consider "c = asc (CHR ''c'')" | "c = asc (CHR ''s'')" | "c = asc (CHR ''p'')" | "c = asc (CHR ''%'')" | "c \<in> ?ints"
    | "c \<notin> insert (asc (CHR ''c'')) (insert (asc (CHR ''s'')) (insert (asc (CHR ''p'')) (insert (asc (CHR ''%'')) ?ints)))" by blast
  then show ?thesis
  proof cases
    case 1
    then show ?thesis using tx c by (auto simp: convert_text_def convert_def bind_eq_Some_conv print_char_emits)
  next
    case 2
    then obtain a where a: "va_arg args = Some (a, as)" "string_text m0 f w p a = Some cs" "g = fmt"
      using tx c by (auto simp: convert_text_def bind_eq_Some_conv)
    then show ?thesis using 2 c(2) print_string_emits [OF a(2) rd] by (simp add: convert_def)
  next
    case 3
    then show ?thesis using tx c by (auto simp: convert_text_def convert_def bind_eq_Some_conv print_number_emits)
  next
    case 4
    then show ?thesis using tx c one by (auto simp: convert_text_def convert_def)
  next
    case 5
    then have n: "c \<noteq> asc (CHR ''c'')" "c \<noteq> asc (CHR ''s'')" "c \<noteq> asc (CHR ''p'')" "c \<noteq> asc (CHR ''%'')" by auto
    obtain a where "va_arg args = Some (a, as)" using tx c(1) n 5 by (auto simp: convert_text_def Let_def bind_eq_Some_conv)
    then show ?thesis using tx c n 5 unfolding convert_text_def convert_def Let_def print_number_emits by simp
  next
    case 6
    then have n: "c \<noteq> asc (CHR ''c'')" "c \<noteq> asc (CHR ''s'')" "c \<noteq> asc (CHR ''p'')" "c \<noteq> asc (CHR ''%'')" "c \<notin> ?ints" by auto
    show ?thesis using tx c n(1-4) n(5) [THEN Eq_FalseI] one two unfolding convert_text_def convert_def
      by (cases "c = 0") (auto simp: bind_assoc)
  qed
qed

lemma directive_emits:
  assumes tx: "directive_text m0 fmt args = Some (g, as, cs)" and rd: "reads_from m0 endp o1"
  shows "directive endp fmt args o1 = do { o2 \<leftarrow> emits endp cs o1; Some (g, as, o2) }"
proof -
  have le: "m0 \<subseteq>\<^sub>m snd o1" using rd by (simp add: reads_from_def)
  obtain f1 fl w f2 fl1 as1 p f3 as2 c where e: "flags_loop m0 fmt 0 = Some (f1, fl)" "get_width m0 f1 fl args = Some (w, f2, fl1, as1)"
    "get_precision m0 f2 as1 = Some (p, f3, as2)" "m0 f3 = Some c"
    "(if c = asc (CHR ''h'') then convert_text m0 (f3 + 1) fl1 w p True as2
      else if c = asc (CHR ''l'') then convert_text m0 (f3 + 1) fl1 w p False as2
      else convert_text m0 f3 fl1 w p False as2) = Some (g, as, cs)"
    using tx by (auto simp: directive_text_def bind_eq_Some_conv)
  note m = flags_loop_le [OF e(1) le] get_width_le [OF e(2) le] get_precision_le [OF e(3) le] map_le_Some [OF le e(4)]
  show ?thesis using e(5) unfolding directive_def by (auto simp: m convert_emits [OF _ rd] split: if_splits)
qed

lemma vsn_loop_placed:
  assumes "format_text m0 fmt args = Some cs" "reads_from m0 endp (str, m)" "mapped str (endp - str) m"
  shows "vsn_loop endp fmt args (str, m) = Some (str + length cs, placed endp str cs m)"
proof -
  have step: "emits endp ds (str, m) = Some (str + length ds, placed endp str ds m) \<and> reads_from m0 endp (str + length ds, placed endp str ds m) \<and>
      mapped (str + length ds) (endp - (str + length ds)) (placed endp str ds m)"
    if "reads_from m0 endp (str, m)" "mapped str (endp - str) m" for m0 ds str m
  proof -
    have e: "emits endp ds (str, m) = Some (str + length ds, placed endp str ds m)" by (rule emits_placed [OF that(2)])
    have "mapped (str + length ds) (endp - (str + length ds)) m" using that(2) by (auto simp: mapped_def)
    then show ?thesis using e reads_from_emits [OF that(1) e] mapped_placed by blast
  qed
  have "\<forall>str m. reads_from m0 endp (str, m) \<longrightarrow> mapped str (endp - str) m \<longrightarrow>
      vsn_loop endp fmt args (str, m) = Some (str + length cs, placed endp str cs m)"
  proof (rule format_text.raw_induct [OF _ assms(1)], intro allI impI, goal_cases)
    case (1 loop m0 fmt args cs str m)
    have le: "m0 \<subseteq>\<^sub>m m" using 1(3) by (simp add: reads_from_def)
    obtain c where c: "m0 fmt = Some c" "m fmt = Some c" using 1(2) le by (auto simp: bind_eq_Some_conv dest: map_le_Some)
    have hyp: "vsn_loop endp f as (str + length ds, placed endp str ds m) = Some (str + length (ds @ es), placed endp str (ds @ es) m)"
      if "loop m0 f as = Some es" for f as ds es
      using 1(1) [OF that] step [OF 1(3,4), of ds] placed_append [of endp str ds es m] by (simp add: add.assoc)
    consider "c = 0" | "c \<noteq> 0" "c \<noteq> asc (CHR ''%'')" | "c \<noteq> 0" "c = asc (CHR ''%'')" by blast
    then show ?case
    proof cases
      case 1
      then show ?thesis using \<open>_ = Some cs\<close> c by (simp add: vsn_loop.simps [of endp fmt])
    next
      case 2
      then obtain es where es: "loop m0 (fmt + 1) args = Some es" "cs = c # es" using \<open>_ = Some cs\<close> c by (auto simp: bind_eq_Some_conv)
      have "emit endp c (str, m) = Some (str + 1, placed endp str [c] m)" using step [OF 1(3,4), of "[c]"] by simp
      then show ?thesis using hyp [OF es(1), of "[c]"] es(2) 2 c by (simp add: vsn_loop.simps [of endp fmt])
    next
      case 3
      then obtain f as ds es where d: "directive_text m0 fmt args = Some (f, as, ds)" "loop m0 (f + 1) as = Some es" "cs = ds @ es"
        using \<open>_ = Some cs\<close> c by (auto simp: bind_eq_Some_conv)
      then show ?thesis using hyp [OF d(2), of ds] step [OF 1(3,4), of ds] directive_emits [OF d(1) 1(3)] 3 c
        by (simp add: vsn_loop.simps [of endp fmt])
    qed
  qed
  then show ?thesis using assms(2,3) by blast
qed

text \<open>The buffer holds the text as far as it fits, and a zero behind it; the number returned is the length of the text.\<close>

lemma rt_vsnprintf_text:
  assumes mp: "mapped buf (buf_end buf sz - buf) m"
    and tx: "format_text (m |` (- {buf ..< buf_end buf sz})) fmt args = Some cs"
  shows "rt_vsnprintf buf sz fmt args m = Some (int (length cs),
    if buf < buf_end buf sz then (placed (buf_end buf sz) buf cs m)(min (buf + length cs) (buf_end buf sz - 1) \<mapsto> 0) else m)"
proof -
  let ?e = "buf_end buf sz"
  have "reads_from (m |` (- {buf ..< ?e})) ?e (buf, m)" by (auto simp: reads_from_def map_le_def restrict_map_def)
  then have v: "vsn_loop ?e fmt args (buf, m) = Some (buf + length cs, placed ?e buf cs m)" by (rule vsn_loop_placed [OF tx _ mp])
  have w: "wr x 0 (placed ?e buf cs m) = Some ((placed ?e buf cs m)(x \<mapsto> 0))" if "buf \<le> x" "x < ?e" for x
    using mapped_placed [OF mp, of ?e buf cs] that by (simp add: mapped_def wr_def)
  show ?thesis
  proof (cases "buf < ?e")
    case True
    show ?thesis
    proof (cases "buf + length cs < ?e")
      case True
      moreover have "min (buf + length cs) (?e - 1) = buf + length cs" using True by simp
      ultimately show ?thesis using v w [of "buf + length cs"] \<open>buf < ?e\<close> by (simp add: rt_vsnprintf_def Let_def)
    next
      case False
      moreover have "min (buf + length cs) (?e - 1) = ?e - 1" using False by simp
      ultimately show ?thesis using v w [of "?e - 1"] \<open>buf < ?e\<close> by (simp add: rt_vsnprintf_def Let_def)
    qed
  next
    case False
    then have "placed ?e buf cs m = m" by (auto simp: placed_def fun_eq_iff)
    then show ?thesis using v False by (simp add: rt_vsnprintf_def Let_def)
  qed
qed

section \<open>No write outside of the buffer\<close>

text \<open>Whatever the format and the arguments are, what is put out is a list of characters.\<close>

lemma copy_arg_some: "copy_arg endp s i k o1 = Some o2 \<Longrightarrow> \<exists>cs. emits endp cs o1 = Some o2"
proof (induction k arbitrary: i o1)
  case 0
  then have "emits endp [] o1 = Some o2" by simp
  then show ?case by blast
next
  case (Suc k)
  then obtain c o3 where c: "emit endp c o1 = Some o3" "copy_arg endp s (i + 1) k o3 = Some o2" by (auto simp: bind_eq_Some_conv)
  then obtain cs where "emits endp cs o3 = Some o2" using Suc.IH by blast
  then have "emits endp (c # cs) o1 = Some o2" using c(1) by simp
  then show ?case by blast
qed

lemma emits_some_trans: "emits endp cs o1 = Some o2 \<Longrightarrow> \<exists>ds. emits endp ds o2 = Some o3 \<Longrightarrow> \<exists>ds. emits endp ds o1 = Some o3"
  using emits_append by (metis bind.bind_lunit)

lemma print_string_some:
  assumes "print_string endp f w p a o0 = Some o3"
  shows "\<exists>cs. emits endp cs o0 = Some o3"
proof -
  obtain len w1 o1 o2 where e: "\<exists>cs. emits endp cs o0 = Some o1" "copy_arg endp a 0 len o1 = Some o2" "\<exists>cs. emits endp cs o2 = Some o3"
    using assms unfolding print_string_def Let_def len_loop_emits
    by (auto simp: bind_eq_Some_conv split: if_splits) (metis emits.simps(1))+
  show ?thesis using e(1,3) copy_arg_some [OF e(2)] emits_some_trans by blast
qed

lemma convert_some:
  assumes "convert endp fmt f w p h args o1 = Some (g, as, o2)"
  shows "\<exists>cs. emits endp cs o1 = Some o2"
proof -
  have one: "\<exists>cs. emits endp cs a = Some b" if "emit endp x a = Some b" for x a b
    using that by (intro exI [of _ "[x]"]) simp
  obtain c where c: "snd o1 fmt = Some c" using assms by (auto simp: convert_def bind_eq_Some_conv)
  let ?ints = "{asc (CHR ''o''), asc (CHR ''X''), asc (CHR ''x''), asc (CHR ''d''), asc (CHR ''i''), asc (CHR ''u'')}"
  consider "c = asc (CHR ''c'')" | "c = asc (CHR ''s'')" | "c = asc (CHR ''p'')" | "c = asc (CHR ''%'')" | "c \<in> ?ints"
    | "c \<notin> insert (asc (CHR ''c'')) (insert (asc (CHR ''s'')) (insert (asc (CHR ''p'')) (insert (asc (CHR ''%'')) ?ints)))" by blast
  then show ?thesis
  proof cases
    case 1
    then show ?thesis using assms c by (auto simp: convert_def bind_eq_Some_conv print_char_emits)
  next
    case 2
    then show ?thesis using assms c by (auto simp: convert_def bind_eq_Some_conv dest: print_string_some)
  next
    case 3
    then show ?thesis using assms c by (auto simp: convert_def bind_eq_Some_conv print_number_emits)
  next
    case 4
    then show ?thesis using assms c by (auto simp: convert_def bind_eq_Some_conv dest: one)
  next
    case 5
    then have n: "c \<noteq> asc (CHR ''c'')" "c \<noteq> asc (CHR ''s'')" "c \<noteq> asc (CHR ''p'')" "c \<noteq> asc (CHR ''%'')" by auto
    obtain a as1 where "va_arg args = Some (a, as1)" using assms c n 5 by (auto simp: convert_def Let_def bind_eq_Some_conv)
    then show ?thesis using assms c n 5 unfolding convert_def Let_def print_number_emits by (auto simp: bind_eq_Some_conv)
  next
    case 6
    then have n: "c \<noteq> asc (CHR ''c'')" "c \<noteq> asc (CHR ''s'')" "c \<noteq> asc (CHR ''p'')" "c \<noteq> asc (CHR ''%'')" "(c \<in> ?ints) = False" by auto
    show ?thesis
    proof (cases "c = 0")
      case True
      then show ?thesis using assms c n unfolding convert_def by (auto simp: bind_eq_Some_conv dest: one)
    next
      case False
      then obtain o3 where "emit endp (asc (CHR ''%'')) o1 = Some o3" "emit endp c o3 = Some o2"
        using assms c n unfolding convert_def by (auto simp: bind_eq_Some_conv)
      then have "emits endp [asc (CHR ''%''), c] o1 = Some o2" by simp
      then show ?thesis by blast
    qed
  qed
qed

lemma directive_some: "directive endp fmt args o1 = Some (g, as, o2) \<Longrightarrow> \<exists>cs. emits endp cs o1 = Some o2"
  by (auto simp: directive_def bind_eq_Some_conv split: if_splits dest: convert_some)

lemma vsn_loop_some:
  assumes "vsn_loop endp fmt args o1 = Some o2"
  shows "\<exists>cs. emits endp cs o1 = Some o2"
proof (rule vsn_loop.raw_induct [OF _ assms], goal_cases)
  case (1 loop endp fmt args o1 o2)
  then obtain c where c: "snd o1 fmt = Some c" by (auto simp: bind_eq_Some_conv)
  consider "c = 0" | "c \<noteq> 0" "c \<noteq> asc (CHR ''%'')" | "c \<noteq> 0" "c = asc (CHR ''%'')" by blast
  then show ?case
  proof cases
    case 1
    then have "emits endp [] o1 = Some o2" using \<open>_ = Some o2\<close> c by simp
    then show ?thesis by blast
  next
    case 2
    then obtain o3 where o3: "emits endp [c] o1 = Some o3" "loop endp (fmt + 1) args o3 = Some o2"
      using \<open>_ = Some o2\<close> c by (auto simp: bind_eq_Some_conv)
    show ?thesis by (rule emits_some_trans [OF o3(1) 1(1) [OF o3(2)]])
  next
    case 3
    then obtain f as o3 where o3: "directive endp fmt args o1 = Some (f, as, o3)" "loop endp (f + 1) as o3 = Some o2"
      using \<open>_ = Some o2\<close> c by (auto simp: bind_eq_Some_conv)
    then obtain ds where "emits endp ds o1 = Some o3" using directive_some by blast
    from emits_some_trans [OF this 1(1) [OF o3(2)]] show ?thesis .
  qed
qed

lemma rt_vsnprintf_inside:
  assumes "rt_vsnprintf buf sz fmt args m = Some (n, m')"
  shows "0 \<le> n" "x < buf \<or> buf_end buf sz \<le> x \<Longrightarrow> m' x = m x"
    "buf < buf_end buf sz \<Longrightarrow> m' (min (buf + nat n) (buf_end buf sz - 1)) = Some 0"
proof -
  let ?e = "buf_end buf sz"
  obtain str m1 where v: "vsn_loop ?e fmt args (buf, m) = Some (str, m1)" "n = int str - int buf"
    "(if ?e - buf > 0 then if str < ?e then wr str 0 m1 else wr (?e - 1) 0 m1 else Some m1) = Some m'"
    using assms by (auto simp: rt_vsnprintf_def Let_def bind_eq_Some_conv)
  obtain cs where "emits ?e cs (buf, m) = Some (str, m1)" using vsn_loop_some [OF v(1)] by blast
  from emits_Some [OF this] have p: "str = buf + length cs" "m1 = placed ?e buf cs m" by auto
  show "0 \<le> n" using v(2) p(1) by simp
  have "m' = (if buf < ?e then m1(min str (?e - 1) \<mapsto> 0) else m1)"
    using v(3) by (auto simp: wr_def min_def split: if_splits)
  then show "x < buf \<or> ?e \<le> x \<Longrightarrow> m' x = m x" "buf < ?e \<Longrightarrow> m' (min (buf + nat n) (?e - 1)) = Some 0"
    using v(2) p placed_out [of x buf ?e cs m] by auto
qed

end
