(* ===== verification/Kformat_Props.thy ===== *)
theory Kformat_Props
  imports Kformat
begin

text \<open>
  Properties of the formatted output: it stays in its buffer, what the buffer holds is the text of the format as far as
  it fits, and a number that was printed is read back by the reader of field widths.
\<close>

section \<open>Digits\<close>

lemma divide_step_unat:
  "unat (snd (divide_step n b)) = unat n div (if b = 10 then 10 else 16)"
  "unat (fst (divide_step n b)) = unat n mod (if b = 10 then 10 else 16)"
  by (auto simp: divide_step_def unat_div_distrib unat_mod_distrib)

text \<open>The digits fit into \<^verbatim>\<open>char tmp[16]\<close>.\<close>

lemma tmp_digits_length:
  "unat n < (if b = 10 then 10 else 16) ^ k \<Longrightarrow> length (tmp_digits large b n) \<le> k"
proof (induction k arbitrary: n)
  case 0
  then show ?case by (simp add: tmp_digits.simps unat_eq_0)
next
  case (Suc k)
  let ?q = "snd (divide_step n b)"
  have "unat ?q < (if b = 10 then 10 else 16) ^ k"
    using Suc.prems by (simp add: divide_step_unat less_mult_imp_div_less mult.commute)
  then have "length (tmp_digits large b ?q) \<le> k" by (rule Suc.IH)
  then show ?case by (cases "n = 0") (simp_all add: tmp_digits.simps [of large b n] tmp_digits.simps [of large b 0] split_beta)
qed

lemma tmp_digits_fit: "length (tmp_digits large b n) \<le> 10"
proof (rule tmp_digits_length)
  have "unat n < 2 ^ 32" using unsigned_less [where ?'a = nat, of n] by simp
  then show "unat n < (if b = 10 then 10 else 16) ^ 10" by simp
qed

lemma ISDIGIT_iff: "ISDIGIT c \<longleftrightarrow> 48 \<le> unat c \<and> unat c < 58"
proof (cases "48 \<le> unat c")
  case True
  then have "unat (c - 48) = unat c - 48" by (subst unat_sub) (simp_all add: word_le_nat_alt)
  then show ?thesis using True by (auto simp: ISDIGIT_def asc_def word_less_nat_alt)
next
  case False
  have "c - 48 = of_nat (unat c + 208)" by simp
  then have "unat (c - 48) = (unat c + 208) mod 2 ^ 8" by (simp only: unat_of_nat) simp
  then show ?thesis using False by (simp add: ISDIGIT_def asc_def word_less_nat_alt)
qed

lemma digit_dec:
  assumes "d < 10"
  shows "uint (digit l d) = uint d + 48" "ISDIGIT (digit l d)"
proof -
  have d: "unat d < 10" using assms by (simp add: word_less_nat_alt)
  have c: "(ucast d :: u8) = of_nat (unat d)" by simp
  have "digit l d = of_nat (48 + unat d)" using assms by (simp add: digit_def asc_def c del: of_nat_unat)
  then have "unat (digit l d) = (48 + unat d) mod 2 ^ 8" by (simp only: unat_of_nat) simp
  then have u: "unat (digit l d) = 48 + unat d" using d by simp
  then have "int (unat (digit l d)) = int (48 + unat d)" by (rule arg_cong)
  then show "uint (digit l d) = uint d + 48" by simp
  show "ISDIGIT (digit l d)" using u d by (simp add: ISDIGIT_iff)
qed

lemma tmp_digits_dec:
  "(\<forall>c\<in>set (tmp_digits l 10 n). ISDIGIT c) \<and> foldr (\<lambda>c i. i * 10 + uint c - 48) (tmp_digits l 10 n) 0 = uint n"
proof (induction l "10 :: int" n rule: tmp_digits.induct)
  case (1 l n)
  show ?case
  proof (cases "n = 0")
    case False
    obtain d q where dq: "divide_step n 10 = (d, q)" "d = n mod 10" "q = n div 10" by (simp add: divide_step_def)
    have e: "tmp_digits l 10 n = digit l d # tmp_digits l 10 q" using False dq(1) by (simp add: tmp_digits.simps [of l 10 n])
    have d: "d < 10" using dq(2) by (simp add: word_less_nat_alt unat_mod_distrib)
    have "uint q * 10 + uint d = uint n" using dq(2,3) by (simp add: uint_div_distrib uint_mod_distrib)
    then show ?thesis using 1 [OF False dq(1) [symmetric] refl] digit_dec [OF d, of l] unfolding e by simp
  qed (simp add: tmp_digits.simps)
qed

lemma digits_text_dec:
  "\<forall>c\<in>set (digits_text l 10 n). ISDIGIT c" "foldl (\<lambda>i c. i * 10 + uint c - 48) 0 (digits_text l 10 n) = uint n"
  "length (digits_text l 10 n) \<le> 10" "digits_text l 10 n \<noteq> []"
  using tmp_digits_dec [of l n] tmp_digits_fit [of l 10 n]
  by (auto simp: digits_text_def foldl_conv_foldr ISDIGIT_def asc_def tmp_digits.simps [of l 10 n] split_beta)

text \<open>Reading digits back.\<close>

lemma digits_value_le: "\<forall>c\<in>set cs. ISDIGIT c \<Longrightarrow> 0 \<le> i \<Longrightarrow> i \<le> foldl (\<lambda>i c. i * 10 + uint c - 48) i cs"
proof (induction cs arbitrary: i)
  case (Cons c cs)
  have "int 48 \<le> int (unat c)" using Cons.prems(1) unfolding of_nat_le_iff by (simp add: ISDIGIT_iff)
  then have "48 \<le> uint c" by simp
  then show ?case using Cons.IH [of "i * 10 + uint c - 48"] Cons.prems by simp
qed simp

lemma skip_atoi_digits:
  assumes "\<forall>c\<in>set cs. ISDIGIT c" "\<And>k. k < length cs \<Longrightarrow> m (s + k) = Some (cs ! k)" "m (s + length cs) = Some d" "\<not> ISDIGIT d"
    "0 \<le> i" "foldl (\<lambda>i c. i * 10 + uint c - 48) i cs < 2 ^ 31 - 48"
  shows "skip_atoi m s i = Some (foldl (\<lambda>i c. i * 10 + uint c - 48) i cs, s + length cs)"
  using assms
proof (induction cs arbitrary: s i)
  case Nil
  then show ?case by (simp add: skip_atoi.simps [of m s i])
next
  case (Cons c cs)
  let ?j = "i * 10 + uint c - 48"
  have j: "0 \<le> ?j" using digits_value_le [of "[c]" i] Cons.prems(1,5) by simp
  have "?j \<le> foldl (\<lambda>i c. i * 10 + uint c - 48) ?j cs" using Cons.prems(1) j by (intro digits_value_le) simp_all
  then have "i * 10 + uint c < 2 ^ 31" using Cons.prems(6) by simp
  moreover have "m s = Some c" using Cons.prems(2) [of 0] by simp
  moreover have "skip_atoi m (s + 1) ?j = Some (foldl (\<lambda>i c. i * 10 + uint c - 48) ?j cs, s + 1 + length cs)"
    using Cons.prems Cons.prems(2) [of "Suc _"] j by (intro Cons.IH) simp_all
  ultimately show ?case using Cons.prems(1) by (simp add: skip_atoi.simps [of m s i] asc_def)
qed

section \<open>Properties\<close>

definition text_at :: "mem \<Rightarrow> nat \<Rightarrow> string \<Rightarrow> bool" where
  "text_at m a cs \<longleftrightarrow> (\<forall>k < length cs. m (a + k) = Some (asc (cs ! k))) \<and> m (a + length cs) = Some 0"

lemma buf_end_fit: "buf + unat sz < 2 ^ 32 \<Longrightarrow> buf_end buf sz = buf + unat sz"
  by (simp add: buf_end_def)

lemma last_byte: "0 < k \<Longrightarrow> min (a + n) (a + k - 1) = a + min n (k - 1 :: nat)"
  by linarith

text \<open>A buffer of \<open>k\<close> bytes with the text \<open>cs\<close> and its zero.\<close>

definition buf_text :: "nat \<Rightarrow> nat \<Rightarrow> u8 list \<Rightarrow> mem \<Rightarrow> mem" where
  "buf_text buf k cs m = (placed (buf + k - 1) buf cs m)(buf + min (length cs) (k - 1) \<mapsto> 0)"

lemma rt_vsnprintf_buf_text:
  assumes "buf + unat sz < 2 ^ 32" "mapped buf (unat sz) m" "sz \<noteq> 0"
    "format_text (m |` (- {buf ..< buf + unat sz})) fmt args = Some cs"
  shows "rt_vsnprintf buf sz fmt args m = Some (int (length cs), buf_text buf (unat sz) cs m)"
proof -
  have z: "0 < unat sz" using assms(3) by (simp add: unat_gt_0)
  note e = buf_end_fit [OF assms(1)]
  have "(placed (buf + unat sz) buf cs m)(buf + min (length cs) (unat sz - 1) \<mapsto> 0) = buf_text buf (unat sz) cs m"
    using z by (auto simp: buf_text_def placed_def fun_eq_iff min_def)
  then show ?thesis using rt_vsnprintf_text [of buf sz m fmt args cs] assms(2,4) z unfolding e last_byte [OF z] by simp
qed

lemma buf_text_bytes:
  "k < min (length cs) (n - 1) \<Longrightarrow> buf_text buf n cs m (buf + k) = Some (cs ! k)"
  "buf_text buf n cs m (buf + min (length cs) (n - 1)) = Some 0"
  by (auto simp: buf_text_def placed_def)

text \<open>A memory of zeros with the format \<^verbatim>\<open>%d\<close> at address 8.\<close>

definition format_memory :: mem where
  "format_memory = (\<lambda>_. Some 0)(8 \<mapsto> asc (CHR ''%''), 9 \<mapsto> asc (CHR ''d''))"

lemma format_memory_text: "text_at format_memory 8 [CHR ''%'', CHR ''d'']" "mapped a k format_memory"
  by (simp_all add: text_at_def format_memory_def mapped_def All_less_Suc2)

lemma number_text_plain:
  assumes "f = 0 \<or> f = SIGN" "uint n < 2 ^ 31"
  shows "number_text n 10 (- 1) (- 1) f = digits_text False 10 n"
proof -
  have "- 2147483648 \<le> uint n" using uint_nonnegative [of n] by (rule order_trans [rotated]) simp
  then have "sint n = uint n" using assms(2) by (simp add: sint_uint signed_take_bit_int_eq_self_iff)
  then have h: "\<not> has f LEFT_JUST" "\<not> has f ZEROPAD" "\<not> has f PLUS" "\<not> has f SPACE" "\<not> has f LARGE" "\<not> sint n < 0"
    using assms(1) by (auto simp: has_def flag_consts)
  then show ?thesis by (simp add: number_text_def sign_text_def magnitude_def spaces_def zeros_def Let_def)
qed

lemma format_text_number:
  assumes "text_at m fmt [CHR ''%'', c]" "c \<in> {CHR ''u'', CHR ''d'', CHR ''i''}" "uint n < 2 ^ 31"
  shows "format_text m fmt [n] = Some (digits_text False 10 n)"
proof -
  have m: "m fmt = Some (asc (CHR ''%''))" "m (Suc fmt) = Some (asc c)" "m (Suc (Suc fmt)) = Some 0"
    using assms(1) by (auto simp: text_at_def less_Suc_eq)
  have c: "\<not> ISDIGIT (asc c)" using assms(2) by (auto simp: ISDIGIT_def asc_def)
  have z: "asc (CHR ''%'') \<noteq> 0" by (simp add: asc_def)
  have "flags_loop m fmt 0 = Some (Suc fmt, 0)" using assms(2) m by (subst flags_loop.simps) auto
  moreover have "get_width m (Suc fmt) 0 [n] = Some (- 1, Suc fmt, 0, [n])" using assms(2) m c by (auto simp: get_width_def)
  moreover have "get_precision m (Suc fmt) [n] = Some (- 1, Suc fmt, [n])" using assms(2) m c by (auto simp: get_precision_def)
  moreover have "convert_text m (Suc fmt) 0 (- 1) (- 1) False [n] = Some (Suc fmt, [], digits_text False 10 n)"
    using assms(2) m number_text_plain [OF _ assms(3)] by (auto simp: convert_text_def int_arg_def Let_def)
  ultimately have "directive_text m fmt [n] = Some (Suc fmt, [], digits_text False 10 n)"
    using assms(2) m by (auto simp: directive_text_def)
  moreover have "format_text m (Suc (Suc fmt)) [] = Some []" using m by (simp add: format_text.simps [of m "Suc (Suc fmt)"])
  ultimately show ?thesis using m z by (simp add: format_text.simps [of m fmt])
qed

lemma rt_vsnprintf_number:
  assumes "text_at m fmt [CHR ''%'', c]" "c \<in> {CHR ''u'', CHR ''d'', CHR ''i''}" "uint n < 2 ^ 31"
    "buf + unat sz < 2 ^ 32" "sz \<noteq> 0" "mapped buf (unat sz) m" "fmt + 3 \<le> buf \<or> buf + unat sz \<le> fmt"
  shows "rt_vsnprintf buf sz fmt [n] m = Some (int (length (digits_text False 10 n)), buf_text buf (unat sz) (digits_text False 10 n) m)"
proof -
  let ?m = "m |` (- {buf ..< buf + unat sz})"
  have "?m (fmt + k) = m (fmt + k)" if "k < 3" for k
    using assms(7) that by (simp add: restrict_map_def) linarith
  from this [of 0] this [of 1] this [of 2] have "text_at ?m fmt [CHR ''%'', c]"
    using assms(1) by (simp add: text_at_def All_less_Suc2 numeral_2_eq_2)
  from rt_vsnprintf_buf_text [OF assms(4,6,5) format_text_number [OF this assms(2,3)]] show ?thesis .
qed






text \<open>Property C18: a number that was printed is read back. Printing a number with a plain decimal conversion into a buffer
  of at least eleven bytes, and reading the buffer with the function that reads field widths, gives the number and
  stops at the zero behind it, for every number that this reader takes without an overflow.\<close>

theorem number_print_then_read:
  assumes "text_at m fmt [CHR ''%'', c]" "c \<in> {CHR ''u'', CHR ''d'', CHR ''i''}" "uint n < 2 ^ 31 - 48"
    "buf + unat sz < 2 ^ 32" "11 \<le> unat sz" "mapped buf (unat sz) m" "fmt + 3 \<le> buf \<or> buf + unat sz \<le> fmt"
  shows "\<exists>k m'. rt_snprintf buf sz fmt [n] m = Some (int k, m') \<and> 0 < k \<and> k \<le> 10 \<and>
    skip_atoi m' buf 0 = Some (uint n, buf + k) \<and> m' (buf + k) = Some 0"
proof -
  let ?cs = "digits_text False 10 n"
  have n: "uint n < 2 ^ 31" using assms(3) by simp
  have z: "sz \<noteq> 0" using assms(5) by auto
  have r: "rt_snprintf buf sz fmt [n] m = Some (int (length ?cs), buf_text buf (unat sz) ?cs m)"
    unfolding rt_snprintf_def by (rule rt_vsnprintf_number [OF assms(1,2) n assms(4) z assms(6,7)])
  have l: "min (length ?cs) (unat sz - 1) = length ?cs" using digits_text_dec(3) [of False n] assms(5) by simp
  note b = buf_text_bytes [where cs = ?cs and n = "unat sz" and buf = buf and m = m, unfolded l]
  have "skip_atoi (buf_text buf (unat sz) ?cs m) buf 0 = Some (uint n, buf + length ?cs)"
    using skip_atoi_digits [OF digits_text_dec(1) b(1) b(2)] digits_text_dec(2) [of False n] assms(3) by (simp add: ISDIGIT_def asc_def)
  then show ?thesis using r b(2) digits_text_dec(3,4) [of False n] by blast
qed

theorem number_print_then_read_witness:
  "\<exists>k m'. rt_snprintf 0x100 16 8 [1234] format_memory = Some (int k, m') \<and> skip_atoi m' 0x100 0 = Some (1234, 0x100 + k)"
  using number_print_then_read [OF format_memory_text(1), of 1234 "0x100" 16] format_memory_text(2) by auto

end
