(* ===== verification/Dev_Ipc.thy ===== *)
theory Dev_Ipc
  imports Mailbox
begin

text \<open>
  The objects that drivers use to hand over work (\<^verbatim>\<open>components/drivers/src\<close>): completions (\<^verbatim>\<open>completion.c\<close>), data queues
  (\<^verbatim>\<open>dataqueue.c\<close>) and wait queues (\<^verbatim>\<open>waitqueue.c\<close>). They link threads into lists of their own with the operations of the
  kernel: the list of completion \<open>n\<close> is \<open>Susp n\<close>, the lists of data queue \<open>n\<close> are \<open>Susp n\<close> for the readers and \<open>SendSusp n\<close>
  for the writers. A wait queue keeps a list of nodes instead, each naming a thread.

  As for the other objects, a call that suspends its thread returns \<open>Wait\<close> and goes on in the definition with the suffix
  \<open>_resumed\<close>.
\<close>

record rt_data_queue =
  dq_magic :: u32
  dq_size :: u16
  dq_lwm :: u16
  get_index :: "15 word"
  is_empty :: bool
  put_index :: "15 word"
  is_full :: bool
  dq_items :: "nat \<Rightarrow> u32 \<times> u32"
  evt_notify :: bool

text \<open>A node of a wait queue: its thread, and the key its function \<^verbatim>\<open>wakeup\<close> compares with.\<close>

record rt_wqueue_node =
  polling_thread :: nat
  wq_key :: u32

record rt_wqueue =
  wq_flag :: u32
  waiting_list :: "nat list"

record dipc_state = ipc_state +
  completions :: "nat \<Rightarrow> u32"
  dqueues :: "nat \<Rightarrow> rt_data_queue"
  wqueues :: "nat \<Rightarrow> rt_wqueue"
  wq_nodes :: "nat \<Rightarrow> rt_wqueue_node"

definition RT_EEMPTY :: rt_err_t where "RT_EEMPTY = 4"
definition RT_ENOMEM :: rt_err_t where "RT_ENOMEM = 5"

section \<open>Giving up the processor and handing it on\<close>

text \<open>The sequence that \<^verbatim>\<open>rt_completion_wait\<close> and the two waits of a data queue share: suspend the thread, put it last into the list,
  arm its timer when there is a timeout, schedule.\<close>

definition wait_on :: "lhead \<Rightarrow> nat \<Rightarrow> int \<Rightarrow> 'a kstate_scheme \<Rightarrow> 'a kstate_scheme option" where
  "wait_on h t timeout s = do {
     (_, s1) \<leftarrow> rt_thread_suspend t s;
     let s2 = tlist_insert_before h t s1;
     s3 \<leftarrow> (if timeout > 0 then thread_timer_arm t (of_int timeout) s2 else Some s2);
     rt_schedule s3
   }"

definition wake_first :: "lhead \<Rightarrow> 'a kstate_scheme \<Rightarrow> 'a kstate_scheme option" where
  "wake_first h s =
     (case klists s h of [] \<Rightarrow> Some s
      | t # _ \<Rightarrow> do { (_, s1) \<leftarrow> rt_thread_resume t s; rt_schedule s1 })"

section \<open>Completions\<close>

definition RT_COMPLETED :: u32 where "RT_COMPLETED = 1"
definition RT_UNCOMPLETED :: u32 where "RT_UNCOMPLETED = 0"

definition completion_set :: "nat \<Rightarrow> u32 \<Rightarrow> 'a dipc_state_scheme \<Rightarrow> 'a dipc_state_scheme" where
  "completion_set n v s = s\<lparr>completions := (completions s)(n := v)\<rparr>"

definition rt_completion_init :: "nat \<Rightarrow> 'a dipc_state_scheme \<Rightarrow> 'a dipc_state_scheme" where
  "rt_completion_init n s = ipc_object_init n (completion_set n RT_UNCOMPLETED s)"

definition rt_completion_wait :: "nat \<Rightarrow> int \<Rightarrow> 'a dipc_state_scheme \<Rightarrow> (unit outcome \<times> 'a dipc_state_scheme) option" where
  "rt_completion_wait n timeout s =
     (if completions s n \<noteq> RT_COMPLETED then do {
        _ \<leftarrow> RT_ASSERT (klists s (Susp n) = []);
        if timeout = 0 then Some (Return (- RT_ETIMEOUT) (), s)
        else do {
          t \<leftarrow> rt_thread_self s;
          _ \<leftarrow> RT_ASSERT (interrupt_nest s = 0);
          s1 \<leftarrow> wait_on (Susp n) t timeout (upd_thread t (\<lambda>th. th\<lparr>t_error := RT_EOK\<rparr>) s);
          Some (Wait (rt_tick s), s1)
        }
      } else Some (Return RT_EOK (), completion_set n RT_UNCOMPLETED s))"

definition completion_wait_resumed :: "nat \<Rightarrow> nat \<Rightarrow> 'a dipc_state_scheme \<Rightarrow> rt_err_t \<times> 'a dipc_state_scheme" where
  "completion_wait_resumed n t s = (t_error (threads s t), completion_set n RT_UNCOMPLETED s)"

definition rt_completion_done :: "nat \<Rightarrow> 'a dipc_state_scheme \<Rightarrow> 'a dipc_state_scheme option" where
  "rt_completion_done n s =
     (if completions s n = RT_COMPLETED then Some s else wake_first (Susp n) (completion_set n RT_COMPLETED s))"

section \<open>Data queues\<close>

definition DATAQUEUE_MAGIC :: u32 where "DATAQUEUE_MAGIC = 0xbead0e0e"
definition RT_DATAQUEUE_EVENT_POP :: u32 where "RT_DATAQUEUE_EVENT_POP = 1"
definition RT_DATAQUEUE_EVENT_PUSH :: u32 where "RT_DATAQUEUE_EVENT_PUSH = 2"
definition RT_DATAQUEUE_EVENT_LWM :: u32 where "RT_DATAQUEUE_EVENT_LWM = 3"

definition upd_dq :: "nat \<Rightarrow> (rt_data_queue \<Rightarrow> rt_data_queue) \<Rightarrow> 'a dipc_state_scheme \<Rightarrow> 'a dipc_state_scheme" where
  "upd_dq n f s = s\<lparr>dqueues := (dqueues s)(n := f (dqueues s n))\<rparr>"

definition dq_valid :: "nat \<Rightarrow> 'a dipc_state_scheme \<Rightarrow> bool" where
  "dq_valid n s \<longleftrightarrow> dq_magic (dqueues s n) = DATAQUEUE_MAGIC"

definition dq_clear :: "rt_data_queue \<Rightarrow> rt_data_queue" where
  "dq_clear q = q\<lparr>get_index := 0, put_index := 0, is_empty := True, is_full := False\<rparr>"

text \<open>\<open>mem\<close>: the contents of the memory that \<^verbatim>\<open>rt_malloc\<close> returned, if any; \<open>notify\<close>: the call-back is not null.\<close>

definition rt_data_queue_init ::
  "(nat \<Rightarrow> u32 \<times> u32) option \<Rightarrow> nat \<Rightarrow> u16 \<Rightarrow> u16 \<Rightarrow> bool \<Rightarrow> 'a dipc_state_scheme \<Rightarrow> (rt_err_t \<times> 'a dipc_state_scheme) option" where
  "rt_data_queue_init mem n sz lwm notify s = do {
     _ \<leftarrow> RT_ASSERT (sz > 0);
     let s1 = upd_dq n (\<lambda>q. dq_clear (q\<lparr>evt_notify := notify, dq_magic := DATAQUEUE_MAGIC, dq_size := sz, dq_lwm := lwm\<rparr>)) s;
     let s2 = mb_senders_init n (ipc_object_init n s1);
     Some (case mem of None \<Rightarrow> (- RT_ENOMEM, s2) | Some m \<Rightarrow> (RT_EOK, upd_dq n (\<lambda>q. q\<lparr>dq_items := m\<rparr>) s2))
   }"

text \<open>The array accesses; \<open>None\<close> is an index outside of the array.\<close>

definition dq_put :: "u32 \<times> u32 \<Rightarrow> rt_data_queue \<Rightarrow> rt_data_queue option" where
  "dq_put v q = do {
     _ \<leftarrow> in_bounds (unat (put_index q) < unat (dq_size q));
     let q1 = q\<lparr>dq_items := (dq_items q)(unat (put_index q) := v), put_index := put_index q + 1\<rparr>;
     let q2 = (if unat (put_index q1) = unat (dq_size q1) then q1\<lparr>put_index := 0\<rparr> else q1);
     let q3 = q2\<lparr>is_empty := False\<rparr>;
     Some (if put_index q3 = get_index q3 then q3\<lparr>is_full := True\<rparr> else q3)
   }"

definition dq_get :: "rt_data_queue \<Rightarrow> ((u32 \<times> u32) \<times> rt_data_queue) option" where
  "dq_get q = do {
     _ \<leftarrow> in_bounds (unat (get_index q) < unat (dq_size q));
     let v = dq_items q (unat (get_index q));
     let q1 = q\<lparr>get_index := get_index q + 1\<rparr>;
     let q2 = (if unat (get_index q1) = unat (dq_size q1) then q1\<lparr>get_index := 0\<rparr> else q1);
     let q3 = q2\<lparr>is_full := False\<rparr>;
     Some (v, if put_index q3 = get_index q3 then q3\<lparr>is_empty := True\<rparr> else q3)
   }"

definition rt_data_queue_len :: "nat \<Rightarrow> 'a dipc_state_scheme \<Rightarrow> u16 option" where
  "rt_data_queue_len n s = do {
     _ \<leftarrow> RT_ASSERT (dq_valid n s);
     let q = dqueues s n;
     Some (if is_empty q then 0
           else if put_index q > get_index q then ucast (put_index q) - ucast (get_index q)
           else dq_size q + ucast (put_index q) - ucast (get_index q))
   }"

text \<open>\<open>notify\<close> is what the queue's call-back does.\<close>

definition dq_notify ::
  "(nat \<Rightarrow> u32 \<Rightarrow> 'a dipc_state_scheme \<Rightarrow> 'a dipc_state_scheme option) \<Rightarrow> nat \<Rightarrow> u32 \<Rightarrow> 'a dipc_state_scheme \<Rightarrow> 'a dipc_state_scheme option" where
  "dq_notify notify n ev s = (if evt_notify (dqueues s n) then notify n ev s else Some s)"

definition dq_push_store ::
  "(nat \<Rightarrow> u32 \<Rightarrow> 'a dipc_state_scheme \<Rightarrow> 'a dipc_state_scheme option) \<Rightarrow> nat \<Rightarrow> u32 \<times> u32 \<Rightarrow> 'a dipc_state_scheme \<Rightarrow>
   (unit outcome \<times> 'a dipc_state_scheme) option" where
  "dq_push_store notify n v s = do {
     q \<leftarrow> dq_put v (dqueues s n);
     let s1 = upd_dq n (\<lambda>_. q) s;
     s2 \<leftarrow> (if klists s1 (Susp n) \<noteq> [] then wake_first (Susp n) s1 else dq_notify notify n RT_DATAQUEUE_EVENT_PUSH s1);
     Some (Return RT_EOK (), s2)
   }"

text \<open>One pass of \<^verbatim>\<open>while (queue->is_full)\<close>.\<close>

definition dq_push_loop ::
  "(nat \<Rightarrow> u32 \<Rightarrow> 'a dipc_state_scheme \<Rightarrow> 'a dipc_state_scheme option) \<Rightarrow> nat \<Rightarrow> u32 \<times> u32 \<Rightarrow> int \<Rightarrow> 'a dipc_state_scheme \<Rightarrow>
   (unit outcome \<times> 'a dipc_state_scheme) option" where
  "dq_push_loop notify n v timeout s =
     (if is_full (dqueues s n) then
        if timeout = 0 then Some (Return (- RT_ETIMEOUT) (), s)
        else do {
          _ \<leftarrow> RT_ASSERT (interrupt_nest s = 0);
          t \<leftarrow> rt_thread_self s;
          s1 \<leftarrow> wait_on (SendSusp n) t timeout (upd_thread t (\<lambda>th. th\<lparr>t_error := RT_EOK\<rparr>) s);
          Some (Wait (rt_tick s), s1)
        }
      else dq_push_store notify n v s)"

definition rt_data_queue_push ::
  "(nat \<Rightarrow> u32 \<Rightarrow> 'a dipc_state_scheme \<Rightarrow> 'a dipc_state_scheme option) \<Rightarrow> nat \<Rightarrow> u32 \<Rightarrow> u32 \<Rightarrow> int \<Rightarrow> 'a dipc_state_scheme \<Rightarrow>
   (unit outcome \<times> 'a dipc_state_scheme) option" where
  "rt_data_queue_push notify n data_ptr data_size timeout s = do {
     _ \<leftarrow> RT_ASSERT (dq_valid n s);
     dq_push_loop notify n (data_ptr, data_size) timeout s
   }"

definition data_queue_push_resumed ::
  "(nat \<Rightarrow> u32 \<Rightarrow> 'a dipc_state_scheme \<Rightarrow> 'a dipc_state_scheme option) \<Rightarrow> nat \<Rightarrow> u32 \<times> u32 \<Rightarrow> int \<Rightarrow> nat \<Rightarrow> 'a dipc_state_scheme \<Rightarrow>
   (unit outcome \<times> 'a dipc_state_scheme) option" where
  "data_queue_push_resumed notify n v timeout t s =
     (if t_error (threads s t) \<noteq> RT_EOK then Some (Return (t_error (threads s t)) (), s) else dq_push_loop notify n v timeout s)"

definition dq_pop_fetch ::
  "(nat \<Rightarrow> u32 \<Rightarrow> 'a dipc_state_scheme \<Rightarrow> 'a dipc_state_scheme option) \<Rightarrow> nat \<Rightarrow> 'a dipc_state_scheme \<Rightarrow>
   ((u32 \<times> u32) option outcome \<times> 'a dipc_state_scheme) option" where
  "dq_pop_fetch notify n s = do {
     (v, q) \<leftarrow> dq_get (dqueues s n);
     let s1 = upd_dq n (\<lambda>_. q) s;
     len \<leftarrow> rt_data_queue_len n s1;
     s2 \<leftarrow> (if len \<le> dq_lwm q then do { s3 \<leftarrow> wake_first (SendSusp n) s1; dq_notify notify n RT_DATAQUEUE_EVENT_LWM s3 }
           else dq_notify notify n RT_DATAQUEUE_EVENT_POP s1);
     Some (Return RT_EOK (Some v), s2)
   }"

definition dq_pop_loop ::
  "(nat \<Rightarrow> u32 \<Rightarrow> 'a dipc_state_scheme \<Rightarrow> 'a dipc_state_scheme option) \<Rightarrow> nat \<Rightarrow> int \<Rightarrow> 'a dipc_state_scheme \<Rightarrow>
   ((u32 \<times> u32) option outcome \<times> 'a dipc_state_scheme) option" where
  "dq_pop_loop notify n timeout s =
     (if is_empty (dqueues s n) then
        if timeout = 0 then Some (Return (- RT_ETIMEOUT) None, s)
        else do {
          _ \<leftarrow> RT_ASSERT (interrupt_nest s = 0);
          t \<leftarrow> rt_thread_self s;
          s1 \<leftarrow> wait_on (Susp n) t timeout (upd_thread t (\<lambda>th. th\<lparr>t_error := RT_EOK\<rparr>) s);
          Some (Wait (rt_tick s), s1)
        }
      else dq_pop_fetch notify n s)"

definition rt_data_queue_pop ::
  "(nat \<Rightarrow> u32 \<Rightarrow> 'a dipc_state_scheme \<Rightarrow> 'a dipc_state_scheme option) \<Rightarrow> nat \<Rightarrow> int \<Rightarrow> 'a dipc_state_scheme \<Rightarrow>
   ((u32 \<times> u32) option outcome \<times> 'a dipc_state_scheme) option" where
  "rt_data_queue_pop notify n timeout s = do {
     _ \<leftarrow> RT_ASSERT (dq_valid n s);
     dq_pop_loop notify n timeout s
   }"

definition data_queue_pop_resumed ::
  "(nat \<Rightarrow> u32 \<Rightarrow> 'a dipc_state_scheme \<Rightarrow> 'a dipc_state_scheme option) \<Rightarrow> nat \<Rightarrow> int \<Rightarrow> nat \<Rightarrow> 'a dipc_state_scheme \<Rightarrow>
   ((u32 \<times> u32) option outcome \<times> 'a dipc_state_scheme) option" where
  "data_queue_pop_resumed notify n timeout t s =
     (if t_error (threads s t) \<noteq> RT_EOK then Some (Return (t_error (threads s t)) None, s) else dq_pop_loop notify n timeout s)"

definition rt_data_queue_peek :: "nat \<Rightarrow> 'a dipc_state_scheme \<Rightarrow> (rt_err_t \<times> (u32 \<times> u32) option) option" where
  "rt_data_queue_peek n s = do {
     _ \<leftarrow> RT_ASSERT (dq_valid n s);
     let q = dqueues s n;
     if is_empty q then Some (- RT_EEMPTY, None)
     else do {
       _ \<leftarrow> in_bounds (unat (get_index q) < unat (dq_size q));
       Some (RT_EOK, Some (dq_items q (unat (get_index q))))
     }
   }"

text \<open>The loops that wake all waiters are those of the objects of \<^verbatim>\<open>ipc.c\<close>.\<close>

definition rt_data_queue_reset :: "nat \<Rightarrow> 'a dipc_state_scheme \<Rightarrow> 'a dipc_state_scheme option" where
  "rt_data_queue_reset n s = do {
     _ \<leftarrow> RT_ASSERT (dq_valid n s);
     let s1 = rt_enter_critical (upd_dq n dq_clear s);
     s2 \<leftarrow> ipc_list_resume_all (Susp n) s1;
     s3 \<leftarrow> ipc_list_resume_all (SendSusp n) s2;
     s4 \<leftarrow> rt_exit_critical s3;
     rt_schedule s4
   }"

text \<open>The array goes back to the heap.\<close>

definition rt_data_queue_deinit :: "nat \<Rightarrow> 'a dipc_state_scheme \<Rightarrow> (rt_err_t \<times> 'a dipc_state_scheme) option" where
  "rt_data_queue_deinit n s = do {
     _ \<leftarrow> RT_ASSERT (dq_valid n s);
     s1 \<leftarrow> rt_data_queue_reset n s;
     Some (RT_EOK, upd_dq n (\<lambda>q. q\<lparr>dq_magic := 0\<rparr>) s1)
   }"

section \<open>Wait queues\<close>

definition RT_WQ_FLAG_CLEAN :: u32 where "RT_WQ_FLAG_CLEAN = 0"
definition RT_WQ_FLAG_WAKEUP :: u32 where "RT_WQ_FLAG_WAKEUP = 1"

definition upd_wq :: "nat \<Rightarrow> (rt_wqueue \<Rightarrow> rt_wqueue) \<Rightarrow> 'a dipc_state_scheme \<Rightarrow> 'a dipc_state_scheme" where
  "upd_wq n f s = s\<lparr>wqueues := (wqueues s)(n := f (wqueues s n))\<rparr>"

definition rt_wqueue_init :: "nat \<Rightarrow> 'a dipc_state_scheme \<Rightarrow> 'a dipc_state_scheme" where
  "rt_wqueue_init n s = upd_wq n (\<lambda>q. q\<lparr>wq_flag := RT_WQ_FLAG_CLEAN, waiting_list := []\<rparr>) s"

definition rt_wqueue_add :: "nat \<Rightarrow> nat \<Rightarrow> 'a dipc_state_scheme \<Rightarrow> 'a dipc_state_scheme" where
  "rt_wqueue_add n x s = upd_wq n (\<lambda>q. q\<lparr>waiting_list := waiting_list q @ [x]\<rparr>) s"

text \<open>Unlinking a node takes it out of whichever list it is in.\<close>

definition rt_wqueue_remove :: "nat \<Rightarrow> 'a dipc_state_scheme \<Rightarrow> 'a dipc_state_scheme" where
  "rt_wqueue_remove x s = s\<lparr>wqueues := (\<lambda>n. (wqueues s n)\<lparr>waiting_list := removeAll x (waiting_list (wqueues s n))\<rparr>)\<rparr>"

definition wqueue_default_wake :: "nat \<Rightarrow> u32 \<Rightarrow> int" where
  "wqueue_default_wake x key = 0"

text \<open>\<open>wake\<close> gives the result of a node's function \<^verbatim>\<open>wakeup\<close>.\<close>

definition rt_wqueue_wakeup :: "(nat \<Rightarrow> u32 \<Rightarrow> int) \<Rightarrow> nat \<Rightarrow> u32 \<Rightarrow> 'a dipc_state_scheme \<Rightarrow> 'a dipc_state_scheme option" where
  "rt_wqueue_wakeup wake n key s =
     (let s1 = upd_wq n (\<lambda>q. q\<lparr>wq_flag := RT_WQ_FLAG_WAKEUP\<rparr>) s
      in case List.find (\<lambda>x. wake x key = 0) (waiting_list (wqueues s1 n)) of
           None \<Rightarrow> Some s1
         | Some x \<Rightarrow> do {
             (_, s2) \<leftarrow> rt_thread_resume (polling_thread (wq_nodes s1 x)) s1;
             rt_schedule (rt_wqueue_remove x s2)
           })"

text \<open>\<open>x\<close> is the node on the stack of the caller. \<open>Return\<close> is 0.\<close>

definition rt_wqueue_wait :: "nat \<Rightarrow> nat \<Rightarrow> int \<Rightarrow> int \<Rightarrow> 'a dipc_state_scheme \<Rightarrow> (unit outcome \<times> 'a dipc_state_scheme) option" where
  "rt_wqueue_wait n x condition msec s = do {
     t \<leftarrow> rt_thread_self s;
     _ \<leftarrow> RT_ASSERT (interrupt_nest s = 0);
     let tick = sint (rt_tick_from_millisecond msec);
     if condition \<noteq> 0 \<or> tick = 0 then Some (Return 0 (), s)
     else do {
       let s1 = s\<lparr>wq_nodes := (wq_nodes s)(x := \<lparr>polling_thread = t, wq_key = 0\<rparr>)\<rparr>;
       if wq_flag (wqueues s1 n) = RT_WQ_FLAG_WAKEUP
       then Some (Return 0 (), rt_wqueue_remove x (upd_wq n (\<lambda>q. q\<lparr>wq_flag := RT_WQ_FLAG_CLEAN\<rparr>) s1))
       else do {
         (_, s2) \<leftarrow> rt_thread_suspend t (rt_wqueue_add n x s1);
         s3 \<leftarrow> (if tick \<noteq> RT_WAITING_FOREVER then thread_timer_arm t (of_int tick) s2 else Some s2);
         s4 \<leftarrow> rt_schedule s3;
         Some (Wait (rt_tick s), s4)
       }
     }
   }"

definition wqueue_wait_resumed :: "nat \<Rightarrow> nat \<Rightarrow> 'a dipc_state_scheme \<Rightarrow> rt_err_t \<times> 'a dipc_state_scheme" where
  "wqueue_wait_resumed n x s = (0, rt_wqueue_remove x (upd_wq n (\<lambda>q. q\<lparr>wq_flag := RT_WQ_FLAG_CLEAN\<rparr>) s))"

section \<open>Waiting and waking are those of the kernel\<close>

lemma wait_on_block: "wait_on h t timeout s = ipc_block h t RT_IPC_FLAG_FIFO timeout s"
  by (cases "rt_thread_suspend t s") (auto simp: wait_on_def ipc_block_def ipc_list_suspend_def Let_def)

lemma wake_first_wake_one: "wake_first h s = ipc_wake_one h s"
  by (cases "klists s h") (simp_all add: wake_first_def ipc_wake_one_def ipc_list_resume_def split_beta map_option_case split: option.splits)

lemma kframe_dipc:
  fixes s s' :: "'a dipc_state_scheme"
  assumes "kframe s s'"
  shows "completions s' = completions s" "dqueues s' = dqueues s" "wqueues s' = wqueues s" "wq_nodes s' = wq_nodes s"
  using assms by (cases s; cases s'; simp add: kframe_def)+

lemma dipc_kernel_inv [simp]:
  "kernel_inv (completion_set n v s) = kernel_inv s" "kernel_inv (upd_dq n f s) = kernel_inv s"
  by (rule kernel_inv_cong; simp add: completion_set_def upd_dq_def)+

lemma dipc_sel [simp]:
  "current_thread (completion_set n v s) = current_thread s"
  "klists (completion_set n v s) = klists s" "threads (completion_set n v s) = threads s"
  "completions (completion_set n v s) = (completions s)(n := v)"
  "current_thread (upd_dq n f s) = current_thread s" "klists (upd_dq n f s) = klists s"
  "threads (upd_dq n f s) = threads s" "dqueues (upd_dq n f s) = (dqueues s)(n := f (dqueues s n))" "completions (upd_dq n f s) = completions s"
  by (simp_all add: completion_set_def upd_dq_def)

section \<open>Completions\<close>

text \<open>Without a waiter the completion is remembered, with one it is handed over.\<close>

lemma rt_completion_done_spec:
  assumes inv: "kernel_inv s" and c: "current_thread s = Some c" and f: "completions s n \<noteq> RT_COMPLETED"
  shows "\<exists>s' c'. rt_completion_done n s = Some s' \<and> kernel_inv s' \<and> current_thread s' = Some c' \<and> completions s' n = RT_COMPLETED \<and>
    klists s' (Susp n) = tl (klists s (Susp n)) \<and> (\<forall>t ts. klists s (Susp n) = t # ts \<longrightarrow> runnable (threads s' t) \<and>
      t_error (threads s' t) = t_error (threads s t)) \<and> (klists s (Susp n) = [] \<longrightarrow> s' = completion_set n RT_COMPLETED s)"
proof -
  let ?s1 = "completion_set n RT_COMPLETED s"
  obtain s' c' where s': "ipc_wake_one (Susp n) ?s1 = Some s'" "kernel_inv s'" "kframe ?s1 s'" "current_thread s' = Some c'"
    "klists s' (Susp n) = tl (klists s (Susp n))" "klists s (Susp n) \<noteq> [] \<longrightarrow> runnable (threads s' (hd (klists s (Susp n)))) \<and>
       t_error (threads s' (hd (klists s (Susp n)))) = t_error (threads s (hd (klists s (Susp n))))"
    using ipc_wake_one_spec [of ?s1 c "Susp n" n] inv c by auto
  moreover have "completions s' n = RT_COMPLETED" using kframe_dipc(1) [OF s'(3)] by simp
  moreover have "rt_completion_done n s = Some s'" using f s'(1) by (simp add: rt_completion_done_def wake_first_wake_one)
  moreover have "s' = ?s1" if "klists s (Susp n) = []" using s'(1) that by (simp add: ipc_wake_one_def)
  ultimately show ?thesis by auto
qed

lemma rt_completion_wait_spec:
  assumes inv: "kernel_inv s" and c: "current_thread s = Some c" "stat_base (threads s c) = RT_THREAD_RUNNING" "interrupt_nest s = 0"
    and f: "completions s n \<noteq> RT_COMPLETED" "klists s (Susp n) = []" and time: "timeout \<noteq> 0" "timeout < 0x7fffffff"
  shows "\<exists>s' c'. rt_completion_wait n timeout s = Some (Wait (rt_tick s), s') \<and> kernel_inv s' \<and> current_thread s' = Some c' \<and>
    stat_base (threads s' c) = RT_THREAD_SUSPEND \<and> t_error (threads s' c) = RT_EOK \<and> klists s' (Susp n) = [c] \<and> completions s' = completions s \<and>
    (0 < timeout \<longrightarrow> Thread_timer c \<in> set (timer_list s') \<and> expiry s' (Thread_timer c) = Suc (nat timeout))"
proof -
  let ?s1 = "upd_thread c (\<lambda>th. th\<lparr>t_error := RT_EOK\<rparr>) s"
  have "stat_base (threads ?s1 c) = RT_THREAD_RUNNING" using c(2) by simp
  then obtain s' c' where s': "ipc_block (Susp n) c RT_IPC_FLAG_FIFO timeout ?s1 = Some s'" "kernel_inv s'" "kframe ?s1 s'"
    "current_thread s' = Some c'" "stat_base (threads s' c) = RT_THREAD_SUSPEND" "t_error (threads s' c) = RT_EOK"
    "klists s' (Susp n) = [c]" "0 < timeout \<longrightarrow> Thread_timer c \<in> set (timer_list s') \<and> expiry s' (Thread_timer c) = Suc (nat timeout)"
    using ipc_block_spec [of ?s1 c RT_IPC_FLAG_FIFO "Susp n" n timeout] inv c(1) time(2) f(2) by (auto simp: wait_order_def)
  moreover have "completions s' = completions s" using kframe_dipc(1) [OF s'(3)] by (simp add: upd_thread_def)
  moreover have "rt_completion_wait n timeout s = Some (Wait (rt_tick s), s')"
    using f time(1) c s'(1) by (simp add: rt_completion_wait_def rt_thread_self_def wait_on_block)
  ultimately show ?thesis by blast
qed

text \<open>A completion that comes when its waiter has been woken by the timeout, but has not run yet, is gone: the waiter
  clears it and reports the timeout.\<close>

lemma completion_after_timeout_lost:
  assumes "t_error (threads s t) = - RT_ETIMEOUT" "klists s (Susp n) = []" "completions s n = RT_UNCOMPLETED"
  shows "\<exists>s'. rt_completion_done n s = Some s' \<and> completion_wait_resumed n t s' = (- RT_ETIMEOUT, s)"
proof -
  have "completion_set n RT_UNCOMPLETED (completion_set n RT_COMPLETED s) = s"
    using assms(3) by (simp add: completion_set_def fun_upd_idem)
  then show ?thesis using assms
    by (simp add: rt_completion_done_def wake_first_def completion_wait_resumed_def RT_COMPLETED_def RT_UNCOMPLETED_def)
qed

section \<open>Data queues are bounded queues\<close>

definition dq_cap :: "rt_data_queue \<Rightarrow> nat" where
  "dq_cap q = unat (dq_size q)"

definition dq_count :: "rt_data_queue \<Rightarrow> nat" where
  "dq_count q = (if is_empty q then 0 else if unat (put_index q) > unat (get_index q) then unat (put_index q) - unat (get_index q)
     else dq_cap q + unat (put_index q) - unat (get_index q))"

text \<open>Indices have 15 bits, so at most 32768 items can be told apart.\<close>

definition dq_wf :: "rt_data_queue \<Rightarrow> bool" where
  "dq_wf q \<longleftrightarrow> dq_cap q \<le> 2 ^ 15 \<and> unat (get_index q) < dq_cap q \<and> unat (put_index q) < dq_cap q \<and>
     (is_empty q \<longrightarrow> put_index q = get_index q \<and> \<not> is_full q) \<and> (\<not> is_empty q \<longrightarrow> (is_full q \<longleftrightarrow> put_index q = get_index q))"

definition dq_abs :: "rt_data_queue \<Rightarrow> (u32 \<times> u32) list" where
  "dq_abs q = map (\<lambda>i. dq_items q ((unat (get_index q) + i) mod dq_cap q)) [0..<dq_count q]"

lemma length_dq_abs [simp]: "length (dq_abs q) = dq_count q"
  by (simp add: dq_abs_def)

lemma next_index:
  fixes i :: "15 word"
  assumes "unat i < n" "n \<le> 2 ^ 15"
  shows "unat (if unat (i + 1) = n then 0 else i + 1) = Suc (unat i) mod n"
proof (cases "Suc (unat i) = 2 ^ 15")
  case True
  then have "n = 2 ^ 15" "unat (i + 1) = 0" using assms by (simp_all add: unat_word_ariths)
  then show ?thesis using True by simp
next
  case False
  then have "unat (i + 1) = Suc (unat i)" using assms by (simp add: unat_word_ariths)
  then show ?thesis using assms(1) by simp
qed

lemma dq_counts:
  assumes "dq_wf q"
  shows "unat (put_index q) = (unat (get_index q) + dq_count q) mod dq_cap q" "dq_count q \<le> dq_cap q" "is_empty q \<longleftrightarrow> dq_count q = 0"
    "is_full q \<longleftrightarrow> dq_count q = dq_cap q" "0 < dq_cap q"
  using assms by (auto simp: dq_wf_def dq_count_def word_unat_eq_iff)

lemma dq_put_fifo:
  assumes wf: "dq_wf q" and room: "length (dq_abs q) < dq_cap q"
  shows "\<exists>q'. dq_put v q = Some q' \<and> dq_wf q' \<and> dq_abs q' = dq_abs q @ [v] \<and> dq_cap q' = dq_cap q"
proof -
  note C = dq_counts [OF wf]
  let ?i = "if unat (put_index q + 1) = dq_cap q then 0 else put_index q + 1"
  have nf: "\<not> is_full q" using C(4) room by simp
  have b: "unat (put_index q) < dq_cap q" "dq_cap q \<le> 2 ^ 15" "unat (get_index q) < dq_cap q" using wf by (auto simp: dq_wf_def)
  have i: "unat ?i = Suc (unat (put_index q)) mod dq_cap q" using next_index [OF b(1,2)] .
  define q' where "q' = q\<lparr>dq_items := (dq_items q)(unat (put_index q) := v), put_index := ?i, is_empty := False, is_full := (?i = get_index q)\<rparr>"
  have r: "dq_put v q = Some q'" using b(1) nf by (auto simp: dq_put_def q'_def dq_cap_def Let_def)
  have c: "dq_cap q' = dq_cap q" by (simp add: q'_def dq_cap_def)
  have wf': "dq_wf q'" using b i C(5) unfolding dq_wf_def c by (simp add: q'_def)
  have n: "dq_count q' = Suc (dq_count q)"
  proof -
    have "unat (put_index q') = Suc (unat (put_index q)) mod dq_cap q" using i by (simp add: q'_def)
    moreover have "is_empty q \<longrightarrow> put_index q = get_index q" "\<not> is_empty q \<longrightarrow> unat (put_index q) \<noteq> unat (get_index q)"
      using wf nf by (auto simp: dq_wf_def word_unat_eq_iff)
    ultimately show ?thesis using b unfolding dq_count_def c
      by (cases "Suc (unat (put_index q)) = dq_cap q") (auto simp: q'_def)
  qed
  have "dq_items q' ((unat (get_index q) + k) mod dq_cap q) = dq_items q ((unat (get_index q) + k) mod dq_cap q)" if "k < dq_count q" for k
    using offset_differs [OF that, of "dq_cap q" "unat (get_index q)"] room C(1) by (simp add: q'_def)
  moreover have "dq_items q' ((unat (get_index q) + dq_count q) mod dq_cap q) = v" using C(1) by (simp add: q'_def)
  moreover have "get_index q' = get_index q" by (simp add: q'_def)
  ultimately have "dq_abs q' = dq_abs q @ [v]" unfolding dq_abs_def n c by simp
  then show ?thesis using r wf' c by blast
qed

lemma dq_get_fifo:
  assumes wf: "dq_wf q" and l: "dq_abs q = v # vs"
  shows "\<exists>q'. dq_get q = Some (v, q') \<and> dq_wf q' \<and> dq_abs q' = vs \<and> dq_cap q' = dq_cap q"
proof -
  note C = dq_counts [OF wf]
  let ?i = "if unat (get_index q + 1) = dq_cap q then 0 else get_index q + 1"
  have len: "dq_count q = Suc (length vs)" using l length_dq_abs [of q] by simp
  have ne: "\<not> is_empty q" using C(3) len by simp
  have b: "unat (put_index q) < dq_cap q" "dq_cap q \<le> 2 ^ 15" "unat (get_index q) < dq_cap q" using wf by (auto simp: dq_wf_def)
  have i: "unat ?i = Suc (unat (get_index q)) mod dq_cap q" using next_index [OF b(3,2)] .
  define q' where "q' = q\<lparr>get_index := ?i, is_full := False, is_empty := (put_index q = ?i)\<rparr>"
  have v: "v = dq_items q (unat (get_index q))"
    using nth_Cons_0 [of v vs] len b(3) unfolding l [symmetric] by (simp add: dq_abs_def del: upt_Suc)
  have r: "dq_get q = Some (v, q')" using b(3) v ne by (auto simp: dq_get_def q'_def dq_cap_def Let_def)
  have c: "dq_cap q' = dq_cap q" by (simp add: q'_def dq_cap_def)
  have wf': "dq_wf q'" using b i C(5) unfolding dq_wf_def c by (auto simp: q'_def)
  have n: "dq_count q' = length vs"
  proof -
    have "unat (get_index q') = Suc (unat (get_index q)) mod dq_cap q" "put_index q' = put_index q"
      "is_empty q' \<longleftrightarrow> unat (put_index q) = Suc (unat (get_index q)) mod dq_cap q" using i by (auto simp: q'_def word_unat_eq_iff)
    then have "Suc (dq_count q') = dq_count q" using b ne unfolding dq_count_def c
      by (cases "Suc (unat (get_index q)) = dq_cap q") auto
    then show ?thesis using len by simp
  qed
  have shift: "(unat (get_index q') + k) mod dq_cap q = (unat (get_index q) + Suc k) mod dq_cap q" for k
    using i by (simp add: q'_def mod_add_left_eq)
  have "dq_abs q = map (\<lambda>k. dq_items q ((unat (get_index q) + k) mod dq_cap q)) (0 # map Suc [0..<length vs])"
    unfolding dq_abs_def len upt_0_Suc ..
  then have "vs = map (\<lambda>k. dq_items q ((unat (get_index q) + Suc k) mod dq_cap q)) [0..<length vs]" using l by (simp add: comp_def)
  then have "dq_abs q' = vs" unfolding dq_abs_def n c shift by (simp add: q'_def)
  then show ?thesis using r wf' c by blast
qed

interpretation dqq: bounded_fifo dq_wf dq_abs dq_cap dq_put dq_get "\<lambda>_. True"
  by unfold_locales (rule dq_put_fifo dq_get_fifo; assumption)+

definition dq_inv :: "nat \<Rightarrow> 'a dipc_state_scheme \<Rightarrow> bool" where
  "dq_inv n s \<longleftrightarrow> dq_valid n s \<and> dq_wf (dqueues s n)"

lemma dq_ops_frame:
  "dq_put v q = Some q1 \<Longrightarrow> dq_magic q1 = dq_magic q \<and> evt_notify q1 = evt_notify q \<and> dq_lwm q1 = dq_lwm q"
  "dq_get q = Some (w, q2) \<Longrightarrow> dq_magic q2 = dq_magic q \<and> evt_notify q2 = evt_notify q \<and> dq_lwm q2 = dq_lwm q"
  by (auto simp: dq_put_def dq_get_def Let_def split: if_splits)

lemma rt_data_queue_len_spec:
  assumes "dq_inv n s"
  shows "\<exists>l. rt_data_queue_len n s = Some l \<and> unat l = dq_count (dqueues s n)"
proof -
  let ?q = "dqueues s n"
  have wf: "dq_wf ?q" and v: "dq_valid n s" using assms by (simp_all add: dq_inv_def)
  have b: "dq_cap ?q \<le> 2 ^ 15" "unat (put_index ?q) < dq_cap ?q" "unat (get_index ?q) < dq_cap ?q" using wf by (auto simp: dq_wf_def)
  have u: "unat (ucast i :: u16) = unat i" for i :: "15 word"
  proof -
    have "unat i < 2 ^ 15" using unsigned_less [where ?'a = nat, of i] by simp
    then show ?thesis by (simp add: unsigned_ucast_eq take_bit_nat_eq_self)
  qed
  have s1: "unat (ucast (put_index ?q) - ucast (get_index ?q) :: u16) = unat (put_index ?q) - unat (get_index ?q)" if "put_index ?q > get_index ?q"
    using that by (subst unat_sub) (simp_all add: word_le_nat_alt u word_less_nat_alt)
  have a: "unat (dq_size ?q + ucast (put_index ?q)) = dq_cap ?q + unat (put_index ?q)"
    using b by (simp add: unat_word_ariths u dq_cap_def)
  have s2: "unat (dq_size ?q + ucast (put_index ?q) - ucast (get_index ?q)) = dq_cap ?q + unat (put_index ?q) - unat (get_index ?q)"
    using b by (subst unat_sub) (simp_all add: word_le_nat_alt u a)
  show ?thesis using v s1 s2 by (auto simp: rt_data_queue_len_def dq_count_def word_less_nat_alt Let_def)
qed

text \<open>Pushing into a queue with room, and popping from one that is not empty; the queue has no call-back.\<close>

lemma rt_data_queue_push_spec:
  assumes inv: "kernel_inv s" "dq_inv n s" "\<not> evt_notify (dqueues s n)" and c: "current_thread s = Some c"
    and room: "length (dq_abs (dqueues s n)) < dq_cap (dqueues s n)"
  shows "\<exists>s' c'. rt_data_queue_push notify n p l timeout s = Some (Return RT_EOK (), s') \<and> kernel_inv s' \<and> dq_inv n s' \<and>
    current_thread s' = Some c' \<and> dq_abs (dqueues s' n) = dq_abs (dqueues s n) @ [(p, l)] \<and> \<not> evt_notify (dqueues s' n) \<and>
    klists s' (Susp n) = tl (klists s (Susp n)) \<and> (\<forall>t ts. klists s (Susp n) = t # ts \<longrightarrow> runnable (threads s' t))"
proof -
  have v: "dq_valid n s" and wf: "dq_wf (dqueues s n)" using inv(2) by (simp_all add: dq_inv_def)
  obtain q where q: "dq_put (p, l) (dqueues s n) = Some q" "dq_wf q" "dq_abs q = dq_abs (dqueues s n) @ [(p, l)]"
    using dqq.put_ok [OF wf _ room] by blast
  note f = dq_ops_frame(1) [OF q(1)]
  let ?s1 = "upd_dq n (\<lambda>_. q) s"
  obtain s2 c2 where s2: "ipc_wake_one (Susp n) ?s1 = Some s2" "kernel_inv s2" "kframe ?s1 s2" "current_thread s2 = Some c2"
    "klists s2 (Susp n) = tl (klists s (Susp n))" "klists s (Susp n) \<noteq> [] \<longrightarrow> runnable (threads s2 (hd (klists s (Susp n))))"
    using ipc_wake_one_spec [of ?s1 c "Susp n" n] inv(1) c by auto
  have d: "dqueues s2 n = q" using kframe_dipc(2) [OF s2(3)] by simp
  have "\<not> is_full (dqueues s n)" using dq_counts(4) [OF wf] room by simp
  moreover have "dq_notify notify n RT_DATAQUEUE_EVENT_PUSH ?s1 = Some ?s1" using f inv(3) by (simp add: dq_notify_def)
  moreover have "s2 = ?s1" if "klists s (Susp n) = []" using s2(1) that by (simp add: ipc_wake_one_def)
  ultimately have "rt_data_queue_push notify n p l timeout s = Some (Return RT_EOK (), s2)"
    using v q(1) s2(1) by (simp add: rt_data_queue_push_def dq_push_loop_def dq_push_store_def wake_first_wake_one Let_def)
  moreover have "dq_inv n s2" using v f q(2) d by (simp add: dq_inv_def dq_valid_def)
  ultimately show ?thesis using s2 d q(3) f inv(3) by auto
qed

lemma rt_data_queue_pop_spec:
  assumes inv: "kernel_inv s" "dq_inv n s" "\<not> evt_notify (dqueues s n)" and c: "current_thread s = Some c"
    and l: "dq_abs (dqueues s n) = v # vs"
  shows "\<exists>s' c'. rt_data_queue_pop notify n timeout s = Some (Return RT_EOK (Some v), s') \<and> kernel_inv s' \<and> dq_inv n s' \<and>
    current_thread s' = Some c' \<and> dq_abs (dqueues s' n) = vs \<and> \<not> evt_notify (dqueues s' n) \<and>
    (length vs \<le> unat (dq_lwm (dqueues s n)) \<longrightarrow> klists s' (SendSusp n) = tl (klists s (SendSusp n)) \<and>
       (\<forall>t ts. klists s (SendSusp n) = t # ts \<longrightarrow> runnable (threads s' t)))"
proof -
  have v: "dq_valid n s" and wf: "dq_wf (dqueues s n)" using inv(2) by (simp_all add: dq_inv_def)
  obtain q where q: "dq_get (dqueues s n) = Some (v, q)" "dq_wf q" "dq_abs q = vs" using dqq.get_ok [OF wf l] by blast
  note f = dq_ops_frame(2) [OF q(1)]
  let ?s1 = "upd_dq n (\<lambda>_. q) s"
  have i1: "kernel_inv ?s1" "dq_inv n ?s1" "current_thread ?s1 = Some c" using inv(1) v f q(2) c by (simp_all add: dq_inv_def dq_valid_def)
  obtain len where len: "rt_data_queue_len n ?s1 = Some len" "unat len = length vs"
    using rt_data_queue_len_spec [OF i1(2)] q(3) length_dq_abs [of q] by auto
  obtain s2 c2 where s2: "ipc_wake_one (SendSusp n) ?s1 = Some s2" "kernel_inv s2" "kframe ?s1 s2" "current_thread s2 = Some c2"
    "klists s2 (SendSusp n) = tl (klists s (SendSusp n))" "klists s (SendSusp n) \<noteq> [] \<longrightarrow> runnable (threads s2 (hd (klists s (SendSusp n))))"
    using ipc_wake_one_spec [of ?s1 c "SendSusp n" n] i1 by auto
  have d: "dqueues s2 n = q" using kframe_dipc(2) [OF s2(3)] by simp
  have e: "\<not> is_empty (dqueues s n)" using dq_counts(3) [OF wf] l length_dq_abs [of "dqueues s n"] by simp
  have nn: "dq_notify notify n ev ?s1 = Some ?s1" "dq_notify notify n ev s2 = Some s2" for ev using f inv(3) d by (simp_all add: dq_notify_def)
  let ?s' = "if length vs \<le> unat (dq_lwm (dqueues s n)) then s2 else ?s1"
  have "rt_data_queue_pop notify n timeout s = Some (Return RT_EOK (Some v), ?s')"
    using v q(1) s2(1) e len nn f by (simp add: rt_data_queue_pop_def dq_pop_loop_def dq_pop_fetch_def wake_first_wake_one word_le_nat_alt Let_def)
  moreover have "dq_inv n s2" using v f q(2) d by (simp add: dq_inv_def dq_valid_def)
  ultimately show ?thesis using s2 d q(3) f inv(3) i1 by (cases "length vs \<le> unat (dq_lwm (dqueues s n))") auto
qed

section \<open>Wait queues\<close>

lemma wq_kernel_inv [simp]:
  "kernel_inv (upd_wq n f s) = kernel_inv s" "kernel_inv (rt_wqueue_remove x s) = kernel_inv s"
  by (rule kernel_inv_cong; simp add: upd_wq_def rt_wqueue_remove_def)+

text \<open>A wake-up makes the thread of the first node that accepts the key runnable and takes the node off the queue; when no
  node does, it is kept in the flag, and the next wait returns at once.\<close>

lemma rt_wqueue_wakeup_spec:
  assumes inv: "kernel_inv s" and c: "current_thread s = Some c"
    and x: "List.find (\<lambda>y. wake y key = 0) (waiting_list (wqueues s n)) = Some x"
    and t: "t = polling_thread (wq_nodes s x)" "stat_base (threads s t) = RT_THREAD_SUSPEND"
  shows "\<exists>s' c'. rt_wqueue_wakeup wake n key s = Some s' \<and> kernel_inv s' \<and> current_thread s' = Some c' \<and> runnable (threads s' t) \<and>
    waiting_list (wqueues s' n) = removeAll x (waiting_list (wqueues s n)) \<and> wq_flag (wqueues s' n) = RT_WQ_FLAG_WAKEUP"
proof -
  let ?s1 = "upd_wq n (\<lambda>q. q\<lparr>wq_flag := RT_WQ_FLAG_WAKEUP\<rparr>) s"
  have i1: "kernel_inv ?s1" "stat_base (threads ?s1 t) = RT_THREAD_SUSPEND" using inv t(2) by (simp, simp add: upd_wq_def)
  obtain s2 b where s2: "rt_thread_resume t ?s1 = Some (RT_EOK, s2)" "kernel_inv s2" "kframe ?s1 s2" "current_thread s2 = Some c"
    "b \<in> {RT_THREAD_READY, RT_THREAD_RUNNING}" "threads s2 = (threads ?s1)(t := set_stat b (threads ?s1 t))"
    using rt_thread_resume_spec [OF i1] c by (auto simp: upd_wq_def)
  let ?s3 = "rt_wqueue_remove x s2"
  have i3: "kernel_inv ?s3" "current_thread ?s3 = Some c" using s2(2,4) by (simp, simp add: rt_wqueue_remove_def)
  have "runnable (threads ?s3 t)" using s2(5,6) by (auto simp: runnable_def rt_wqueue_remove_def)
  moreover obtain s' c' where s': "rt_schedule ?s3 = Some s'" "kernel_inv s'" "current_thread s' = Some c'" "sched_frame ?s3 s'" "keeps_blocked ?s3 s'"
    using kernel_schedule [OF i3] by blast
  ultimately have "runnable (threads s' t)" by (simp add: keeps_blocked_def)
  moreover have "wqueues s' n = wqueues ?s3 n" using kframe_dipc(3) [OF sched_frame_kframe [OF s'(4)]] by simp
  moreover have "wqueues ?s3 n = (wqueues s n)\<lparr>wq_flag := RT_WQ_FLAG_WAKEUP, waiting_list := removeAll x (waiting_list (wqueues s n))\<rparr>"
    using kframe_dipc(3) [OF s2(3)] by (simp add: rt_wqueue_remove_def upd_wq_def)
  moreover have "rt_wqueue_wakeup wake n key s = Some s'" using x t(1) s2(1) s'(1) by (simp add: rt_wqueue_wakeup_def upd_wq_def Let_def)
  ultimately show ?thesis using s'(2,3) by auto
qed

lemma wqueue_wakeup_kept:
  assumes "current_thread s = Some c" "interrupt_nest s = 0" "waiting_list (wqueues s n) = []" "condition = 0" "rt_tick_from_millisecond msec \<noteq> 0"
  shows "\<exists>s1 s2. rt_wqueue_wakeup wake n key s = Some s1 \<and> rt_wqueue_wait n x condition msec s1 = Some (Return 0 (), s2) \<and>
    wq_flag (wqueues s2 n) = RT_WQ_FLAG_CLEAN \<and> waiting_list (wqueues s2 n) = [] \<and> threads s2 = threads s"
  using assms by (auto simp: rt_wqueue_wakeup_def rt_wqueue_wait_def rt_wqueue_remove_def upd_wq_def rt_thread_self_def Let_def signed_eq_0_iff)

end
