(* ===== verification/Dev_Ipc_Props.thy ===== *)
theory Dev_Ipc_Props
  imports Dev_Ipc Sample_State
begin

text \<open>Properties of completions and data queues, on the waiting lists of the kernel and the interpretation \<open>dqq\<close>.\<close>

definition dipc_sample :: dipc_state where
  "dipc_sample = ipc_state.extend sample (dipc_state.fields (\<lambda>_. RT_UNCOMPLETED)
     (\<lambda>_. \<lparr>dq_magic = DATAQUEUE_MAGIC, dq_size = 4, dq_lwm = 2, get_index = 0, is_empty = True, put_index = 0, is_full = False,
        dq_items = (\<lambda>_. (0, 0)), evt_notify = False\<rparr>)
     (\<lambda>_. \<lparr>wq_flag = RT_WQ_FLAG_CLEAN, waiting_list = []\<rparr>) (\<lambda>_. \<lparr>polling_thread = 0, wq_key = 0\<rparr>))"

lemma dipc_sample_sel [simp]:
  "objects dipc_sample = objects sample" "ready_group dipc_sample = ready_group sample" "rt_tick dipc_sample = rt_tick sample"
  "timers dipc_sample = timers sample" "timer_list dipc_sample = timer_list sample"
  "current_thread dipc_sample = Some 1" "klists dipc_sample = klists sample" "threads dipc_sample = threads sample"
  "interrupt_nest dipc_sample = 0" "completions dipc_sample n = RT_UNCOMPLETED"
  by (simp_all add: dipc_sample_def sample_def ipc_state.defs dipc_state.defs)

lemma dipc_sample_inv: "kernel_inv dipc_sample"
  using sample_kernel_inv kernel_inv_cong [of dipc_sample sample] by (simp add: sample_def)

text \<open>Property C15: a completion reaches its waiter. A thread that waits for one that has not come gives up the processor, alone in the list and
  with its timer armed if it has a timeout. When the completion comes, the thread that waits is made runnable, leaves the
  list and returns without an error; when nobody waits the completion is kept, and the next wait returns at once, without
  giving up the processor, and leaves the object as it was.\<close>

theorem completion_reaches_waiter:
  assumes "kernel_inv s" "current_thread s = Some c" "completions s n = RT_UNCOMPLETED"
  shows "(\<exists>s' c'. rt_completion_done n s = Some s' \<and> kernel_inv s' \<and> current_thread s' = Some c' \<and>
      (case klists s (Susp n) of [] \<Rightarrow> rt_completion_wait n timeout s' = Some (Return RT_EOK (), s)
       | t # ts \<Rightarrow> runnable (threads s' t) \<and> klists s' (Susp n) = ts \<and>
           (t_error (threads s t) = RT_EOK \<longrightarrow> fst (completion_wait_resumed n t s') = RT_EOK))) \<and>
    (klists s (Susp n) = [] \<and> stat_base (threads s c) = RT_THREAD_RUNNING \<and> interrupt_nest s = 0 \<and> timeout \<noteq> 0 \<and> timeout < 0x7fffffff \<longrightarrow>
      (\<exists>s1 c1. rt_completion_wait n timeout s = Some (Wait (rt_tick s), s1) \<and> kernel_inv s1 \<and> current_thread s1 = Some c1 \<and>
         stat_base (threads s1 c) = RT_THREAD_SUSPEND \<and> t_error (threads s1 c) = RT_EOK \<and> klists s1 (Susp n) = [c] \<and>
         (0 < timeout \<longrightarrow> Thread_timer c \<in> set (timer_list s1) \<and> expiry s1 (Thread_timer c) = Suc (nat timeout))))"
proof (intro conjI impI)
  have f: "completions s n \<noteq> RT_COMPLETED" using assms(3) by (simp add: RT_COMPLETED_def RT_UNCOMPLETED_def)
  obtain s' c' where s': "rt_completion_done n s = Some s'" "kernel_inv s'" "current_thread s' = Some c'" "completions s' n = RT_COMPLETED"
    "klists s' (Susp n) = tl (klists s (Susp n))" "\<forall>t ts. klists s (Susp n) = t # ts \<longrightarrow> runnable (threads s' t) \<and>
      t_error (threads s' t) = t_error (threads s t)" "klists s (Susp n) = [] \<longrightarrow> s' = completion_set n RT_COMPLETED s"
    using rt_completion_done_spec [OF assms(1,2) f] by (elim exE conjE) (rule that; assumption)
  have "completion_set n RT_UNCOMPLETED (completion_set n RT_COMPLETED s) = s"
    using assms(3) by (simp add: completion_set_def fun_upd_idem)
  then show "\<exists>s' c'. rt_completion_done n s = Some s' \<and> kernel_inv s' \<and> current_thread s' = Some c' \<and>
      (case klists s (Susp n) of [] \<Rightarrow> rt_completion_wait n timeout s' = Some (Return RT_EOK (), s)
       | t # ts \<Rightarrow> runnable (threads s' t) \<and> klists s' (Susp n) = ts \<and>
           (t_error (threads s t) = RT_EOK \<longrightarrow> fst (completion_wait_resumed n t s') = RT_EOK))"
    using s' by (cases "klists s (Susp n)") (auto simp: rt_completion_wait_def completion_wait_resumed_def)
  assume w: "klists s (Susp n) = [] \<and> stat_base (threads s c) = RT_THREAD_RUNNING \<and> interrupt_nest s = 0 \<and> timeout \<noteq> 0 \<and> timeout < 0x7fffffff"
  then show "\<exists>s1 c1. rt_completion_wait n timeout s = Some (Wait (rt_tick s), s1) \<and> kernel_inv s1 \<and> current_thread s1 = Some c1 \<and>
         stat_base (threads s1 c) = RT_THREAD_SUSPEND \<and> t_error (threads s1 c) = RT_EOK \<and> klists s1 (Susp n) = [c] \<and>
         (0 < timeout \<longrightarrow> Thread_timer c \<in> set (timer_list s1) \<and> expiry s1 (Thread_timer c) = Suc (nat timeout))"
    using rt_completion_wait_spec [OF assms(1,2) _ _ f, of timeout] by blast
qed

theorem completion_reaches_waiter_witness:
  "(\<exists>s'. rt_completion_done 20 dipc_sample = Some s' \<and> runnable (threads s' 2) \<and> klists s' (Susp 20) = []) \<and>
   (\<exists>s1. rt_completion_wait 30 7 dipc_sample = Some (Wait (rt_tick dipc_sample), s1) \<and> klists s1 (Susp 30) = [1])"
proof -
  have k: "klists dipc_sample (Susp 20) = [2]" "klists dipc_sample (Susp 30) = []" "stat_base (threads dipc_sample 1) = RT_THREAD_RUNNING"
    by (simp_all add: sample_def)
  show ?thesis
    using completion_reaches_waiter [OF dipc_sample_inv, of 1 20 7] completion_reaches_waiter [OF dipc_sample_inv, of 1 30 7] k by auto
qed




end
