(* ===== verification/Thread_New.thy ===== *)
theory Thread_New
  imports Ipc
begin

text \<open>
  New threads: initialising, creating and starting one keep the invariant of the kernel, both before the scheduler has
  been started, when no thread has the processor, and while threads run; and starting the scheduler gives the processor
  to a thread of the highest priority.
\<close>

lemma unat_ucast_le: "unat (ucast x) \<le> unat x"
  by (simp add: unsigned_ucast_eq)

section \<open>States that differ in a thread that is not alive\<close>

lemma kernel_inv_fresh:
  assumes inv: "kernel_inv s"
    and eq: "klists s' = klists s" "ready_group s' = ready_group s" "current_thread s' = current_thread s"
      "timer_list s' = timer_list s" "rt_tick s' = rt_tick s"
    and th: "\<And>u. u \<noteq> t \<Longrightarrow> threads s' u = threads s u" "\<not> live (threads s' t)"
    and ob: "\<And>r. r \<noteq> Kobj t \<Longrightarrow> r \<noteq> Thread_timer t \<Longrightarrow> objects s' r = objects s r \<and> timers s' r = timers s r"
    and un: "\<And>h. t \<notin> set (klists s h)" "Kobj t \<notin> set (timer_list s)" "Thread_timer t \<notin> set (timer_list s)"
  shows "kernel_inv s'"
proof -
  note D = kernel_invD [OF inv]
  have nr: "\<not> ready s t" using D(2) un(1) by (auto simp: queue_inv_def ready_ok_def)
  have nr': "\<not> ready s' t" "stat_base (threads s' t) \<noteq> RT_THREAD_RUNNING" using th(2) by (auto simp: live_def)
  have st: "ready s' u \<longleftrightarrow> ready s u" for u using th(1) [of u] nr nr' by (cases "u = t") auto
  have tl: "objects s' r = objects s r \<and> timers s' r = timers s r" if "r \<in> set (timer_list s)" for r
    using that un(2,3) by (intro ob) auto
  have li: "threads s' u = threads s u" if "u \<in> set (klists s h)" for u h using that un(1) [of h] by (intro th(1)) auto
  have "ready_ok {} s'" unfolding ready_ok_def eq
  proof (intro allI)
    fix p u
    show "u \<in> set (klists s (Prio p)) \<longleftrightarrow> u \<notin> {} \<and> ready s' u \<and> prio_of s' u = p"
      using D(2) th(1) [of u] nr'(1) un(1) by (cases "u = t") (auto simp: queue_inv_def ready_ok_def)
  qed
  moreover have "wait_ok {} s'" using D(2) li unfolding queue_inv_def wait_ok_def eq by auto
  moreover have "thread_wf (threads s' u)" if "live (threads s' u)" for u
    using D(2) th that by (cases "u = t") (auto simp: queue_inv_def)
  ultimately have "queue_inv {} s'" using D(2) by (simp add: queue_inv_def bitmap_ok_def linked_once_def eq)
  moreover have "current_ok s'" using D(3) th(1) nr' st unfolding current_ok_def eq by metis
  moreover have "timer_ok s'"
  proof -
    have "expiry s' r = expiry s r" if "r \<in> set (timer_list s)" for r using tl [OF that] by (simp add: expiry_def eq)
    then show ?thesis using D(4) tl
      by (auto simp: timer_ok_def timer_sorted_def startable_def rt_object_get_type_def is_periodic_def eq cong: map_cong)
  qed
  moreover have "thread_objs s'" unfolding thread_objs_def
  proof (intro allI impI)
    fix u assume l: "live (threads s' u)"
    then have u: "u \<noteq> t" using th(2) by auto
    then have "objects s' (Kobj u) = objects s (Kobj u)" "objects s' (Thread_timer u) = objects s (Thread_timer u)"
      "timers s' (Thread_timer u) = timers s (Thread_timer u)" using ob by simp_all
    then show "rt_object_get_type (Kobj u) s' = RT_Object_Class_Thread \<and> rt_object_get_type (Thread_timer u) s' = RT_Object_Class_Timer \<and>
        rt_object_is_systemobject (Thread_timer u) s' \<and> \<not> is_periodic (Thread_timer u) s' \<and>
        timeout_func (timers s' (Thread_timer u)) = Rt_thread_timeout u"
      using D(5) l th(1) [OF u] by (simp add: thread_objs_def rt_object_get_type_def rt_object_is_systemobject_def is_periodic_def)
  qed
  moreover have "timer_links s'" unfolding timer_links_def eq
    using D(6) tl th(1) un(3) unfolding timer_links_def is_activated_def by metis
  ultimately show ?thesis by (simp add: kernel_inv_def sched_inv_def)
qed

section \<open>The stack of a new thread\<close>

lemma and_not_7: "unat (x AND NOT 7 :: u32) = 8 * (unat x div 8)"
  using unat_and_mask(2) [of 3 x] by (simp add: mask_eq_exp_minus_1)

lemma new_stack_ok:
  assumes "unat a + unat n < 2 ^ 32" "76 \<le> unat n"
  shows "a < rt_hw_stack_init (a + n - 4)" "rt_hw_stack_init (a + n - 4) \<le> a + n"
proof -
  have an: "unat (a + n) = unat a + unat n" using assms(1) by (simp add: unat_word_ariths)
  let ?t = "(a + n) AND NOT 7"
  have t: "unat ?t = 8 * (unat (a + n) div 8)" by (rule and_not_7)
  then have l: "unat a + 68 < unat ?t" "unat ?t \<le> unat a + unat n" using an assms(2) by linarith+
  have e: "rt_hw_stack_init (a + n - 4) = ?t - 68" by (simp add: rt_hw_stack_init_def stack_frame_size_def)
  have "unat (?t - 68) = unat ?t - 68" using l by (subst unat_sub) (simp_all add: word_le_nat_alt)
  then show "a < rt_hw_stack_init (a + n - 4)" "rt_hw_stack_init (a + n - 4) \<le> a + n"
    using l an unfolding e by (simp_all add: word_less_nat_alt word_le_nat_alt)
qed

section \<open>Initialising\<close>

text \<open>A thread structure that is not in use: not alive, in no list, its timer not linked and not registered.\<close>

definition unused_thread :: "nat \<Rightarrow> 'a kstate_scheme \<Rightarrow> bool" where
  "unused_thread t s \<longleftrightarrow> \<not> live (threads s t) \<and> (\<forall>h. t \<notin> set (klists s h)) \<and> Kobj t \<notin> set (timer_list s) \<and>
     Thread_timer t \<notin> set (timer_list s) \<and> Thread_timer t \<notin> set (containers s RT_Object_Class_Timer)"

text \<open>What the critical section of \<^verbatim>\<open>rt_object_init\<close> leaves: the scheduler may have given the processor to another thread.\<close>

definition passed :: "'a kstate_scheme \<Rightarrow> 'a kstate_scheme \<Rightarrow> bool" where
  "passed s s' \<longleftrightarrow> objects s' = objects s \<and> containers s' = containers s \<and> timers s' = timers s \<and> timer_list s' = timer_list s \<and>
     interrupt_nest s' = interrupt_nest s \<and> siginfo_free s' = siginfo_free s \<and> kstate.more s' = kstate.more s \<and>
     keeps_blocked s s' \<and> (\<forall>t. threads s' t = (threads s t)\<lparr>t_stat := t_stat (threads s' t)\<rparr>) \<and>
     (\<forall>h. wait_head h \<longrightarrow> klists s' h = klists s h) \<and> (current_thread s = None \<and> scheduler_lock_nest s = 0 \<longrightarrow> s' = s) \<and> (current_thread s' = None \<longleftrightarrow> current_thread s = None)"

lemma critical_kernel:
  assumes inv: "kernel_inv s"
  shows "\<exists>s'. rt_exit_critical (rt_enter_critical s) = Some s' \<and> kernel_inv s' \<and> passed s s'"
proof -
  let ?s0 = "s\<lparr>scheduler_lock_nest := 0\<rparr>"
  have i0: "kernel_inv ?s0" using inv kernel_inv_cong [of ?s0 s] by simp
  have p0: "passed s s" "passed s ?s0" by (simp_all add: passed_def keeps_blocked_def)
  consider "sint (scheduler_lock_nest s) \<le> 0" "current_thread s = None" | c where "sint (scheduler_lock_nest s) \<le> 0" "current_thread s = Some c"
    | "\<not> sint (scheduler_lock_nest s) \<le> 0" by fastforce
  then show ?thesis
  proof cases
    case 1
    then show ?thesis using i0 p0 by (simp add: rt_exit_critical_def rt_enter_critical_def Let_def)
  next
    case 2
    obtain s' c' where s': "rt_schedule ?s0 = Some s'" "kernel_inv s'" "current_thread s' = Some c'" "sched_frame ?s0 s'" "keeps_blocked ?s0 s'"
      "\<forall>h. wait_head h \<longrightarrow> klists s' h = klists ?s0 h" using kernel_schedule [OF i0, of c] 2 by auto
    then have "passed s s'" using 2(2) by (simp add: passed_def sched_frame_def keeps_blocked_def)
    then show ?thesis using s'(1,2) 2 by (simp add: rt_exit_critical_def rt_enter_critical_def Let_def)
  next
    case 3
    then show ?thesis using inv p0 by (simp add: rt_exit_critical_def rt_enter_critical_def Let_def)
  qed
qed

lemma passed_unused:
  assumes "passed s s'" "kernel_inv s'" "unused_thread t s"
  shows "unused_thread t s'"
proof -
  have p: "keeps_blocked s s'" "\<forall>h. wait_head h \<longrightarrow> klists s' h = klists s h" using assms(1) by (simp_all add: passed_def)
  have "\<not> runnable (threads s t)" using assms(3) by (auto simp: unused_thread_def live_def runnable_def)
  then have "stat_base (threads s' t) = stat_base (threads s t)" using p(1) by (simp add: keeps_blocked_def)
  then have nl: "\<not> live (threads s' t)" using assms(3) by (simp add: unused_thread_def live_def)
  then have "t \<notin> set (klists s' (Prio q))" for q
    using kernel_invD(2) [OF assms(2)] by (auto simp: queue_inv_def ready_ok_def live_def)
  then have "t \<notin> set (klists s' h)" for h
    using p(2) assms(3) by (cases h) (simp_all add: unused_thread_def wait_head_def)
  then show ?thesis using nl assms(1,3) by (simp add: unused_thread_def passed_def)
qed

text \<open>A thread that can be started.\<close>

definition initialised :: "nat \<Rightarrow> u8 \<Rightarrow> 'a kstate_scheme \<Rightarrow> bool" where
  "initialised t p s \<longleftrightarrow> stat_base (threads s t) = RT_THREAD_INIT \<and> init_priority (threads s t) = p \<and> unat p < RT_THREAD_PRIORITY_MAX \<and>
     stack_ok (threads s t) \<and> (\<forall>h. t \<notin> set (klists s h)) \<and> rt_object_get_type (Kobj t) s = RT_Object_Class_Thread \<and>
     rt_object_get_type (Thread_timer t) s = RT_Object_Class_Timer \<and> rt_object_is_systemobject (Thread_timer t) s \<and>
     \<not> is_periodic (Thread_timer t) s \<and> timeout_func (timers s (Thread_timer t)) = Rt_thread_timeout t"

text \<open>Before the scheduler is started nothing else changes.\<close>

definition quiet_new :: "nat \<Rightarrow> 'a kstate_scheme \<Rightarrow> 'a kstate_scheme \<Rightarrow> bool" where
  "quiet_new t s s' \<longleftrightarrow> current_thread s' = None \<and> scheduler_lock_nest s' = 0 \<and> interrupt_nest s' = interrupt_nest s \<and>
     siginfo_free s' = siginfo_free s \<and> timer_list s' = timer_list s \<and> kstate.more s' = kstate.more s \<and>
     (\<forall>u. u \<noteq> t \<longrightarrow> threads s' u = threads s u \<and> (\<forall>h. u \<in> set (klists s' h) \<longrightarrow> u \<in> set (klists s h))) \<and>
     (\<forall>c r. r \<in> set (containers s' c) \<longrightarrow> r \<in> set (containers s c) \<or> r = Kobj t \<or> r = Thread_timer t)"

definition thread_new :: "nat \<Rightarrow> u8 \<Rightarrow> 'a kstate_scheme \<Rightarrow> 'a kstate_scheme \<Rightarrow> bool" where
  "thread_new t p s s' \<longleftrightarrow> kernel_inv s' \<and> initialised t p s' \<and> (current_thread s = None \<and> scheduler_lock_nest s = 0 \<longrightarrow> quiet_new t s s') \<and>
     (current_thread s' = None \<longleftrightarrow> current_thread s = None)"

lemma quiet_new_trans: "quiet_new t s1 s2 \<Longrightarrow> quiet_new t s2 s3 \<Longrightarrow> quiet_new t s1 s3"
  unfolding quiet_new_def by metis

lemma object_init_kernel:
  assumes "kernel_inv s" "c \<in> set object_container" "r \<notin> set (containers s c)"
  shows "\<exists>s1. passed s s1 \<and> kernel_inv s1 \<and> rt_object_init r c name s =
    Some (object_link c r (upd_object r (\<lambda>ob. ob\<lparr>o_type := c OR RT_Object_Class_Static, o_name := take RT_NAME_MAX name\<rparr>) s1))"
proof -
  obtain s1 where s1: "rt_exit_critical (rt_enter_critical s) = Some s1" "kernel_inv s1" "passed s s1" using critical_kernel [OF assms(1)] by blast
  then show ?thesis using assms(2,3)
    by (intro exI [of _ s1]) (simp add: rt_object_init_def get_information_iff [THEN iffD2] rt_enter_critical_def Let_def)
qed

lemma thread_init_spec:
  assumes inv: "kernel_inv s" and un: "unused_thread t s" and ty: "rt_object_get_type (Kobj t) s = RT_Object_Class_Thread"
    and pr: "unat pr < RT_THREAD_PRIORITY_MAX" and stk: "unat a + unat n < 2 ^ 32" "76 \<le> unat n"
  shows "\<exists>s'. thread_init t entry a n pr tick s = Some (RT_EOK, s') \<and> thread_new t (ucast pr) s s'"
proof -
  define s1 where "s1 = upd_thread t (\<lambda>th. th\<lparr>t_entry := entry, stack_addr := a, stack_size := n,
                  stack_guard := (if n = 0 then stack_guard th else 0x23),
                  t_sp := rt_hw_stack_init (a + n - 4),
                  init_priority := ucast pr, current_priority := ucast pr,
                  number_mask := 0, init_tick := tick, remaining_tick := tick,
                  t_error := RT_EOK, t_stat := RT_THREAD_INIT\<rparr>) s"
  have n0: "n \<noteq> 0" using stk(2) by auto
  have st: "stat_base (threads s1 t) = RT_THREAD_INIT" by (simp add: s1_def stat_base_def stat_defs)
  then have l1: "\<not> live (threads s1 t)" by (simp add: live_def)
  have "kernel_inv s1" using un l1 by (intro kernel_inv_fresh [OF inv, of s1 t]) (auto simp: s1_def unused_thread_def)
  moreover have u1: "unused_thread t s1" using un l1 by (simp add: unused_thread_def s1_def)
  moreover have "Thread_timer t \<notin> set (containers s1 RT_Object_Class_Timer)" using u1 by (simp add: unused_thread_def)
  moreover have c: "RT_Object_Class_Timer \<in> set object_container" by (simp add: object_container_def)
  ultimately obtain s2 where s2: "passed s1 s2" "kernel_inv s2" "unused_thread t s2"
    "rt_object_init (Thread_timer t) RT_Object_Class_Timer (o_name (objects s1 (Kobj t))) s1 =
     Some (object_link RT_Object_Class_Timer (Thread_timer t) (upd_object (Thread_timer t)
       (\<lambda>ob. ob\<lparr>o_type := RT_Object_Class_Timer OR RT_Object_Class_Static, o_name := take RT_NAME_MAX (o_name (objects s1 (Kobj t)))\<rparr>) s2))"
    using object_init_kernel [of s1] passed_unused [of s1] by blast
  let ?f = "\<lambda>th :: rt_thread. th\<lparr>sig_mask := 0, sig_pending := 0, sig_ret := 0, sig_vectors := None, si_list := [], end_flag := 0,
                  tick_count := 0, preemptableFlag := 0\<rparr>"
  define s' where "s' = upd_thread t ?f (timer_init (Thread_timer t) (Rt_thread_timeout t) 0 RT_TIMER_FLAG_ONE_SHOT
     (object_link RT_Object_Class_Timer (Thread_timer t) (upd_object (Thread_timer t)
       (\<lambda>ob. ob\<lparr>o_type := RT_Object_Class_Timer OR RT_Object_Class_Static, o_name := take RT_NAME_MAX (o_name (objects s1 (Kobj t)))\<rparr>) s2)))"
  have r: "thread_init t entry a n pr tick s = Some (RT_EOK, s')"
    using pr s2(4) by (simp add: thread_init_def s1_def [symmetric] rt_timer_init_def s'_def Let_def)
  have e: "klists s' = klists s2" "ready_group s' = ready_group s2" "current_thread s' = current_thread s2" "timer_list s' = timer_list s2"
    "rt_tick s' = rt_tick s2" "threads s' = (threads s2)(t := ?f (threads s2 t))" "scheduler_lock_nest s' = scheduler_lock_nest s2"
    "interrupt_nest s' = interrupt_nest s2" "siginfo_free s' = siginfo_free s2" "kstate.more s' = kstate.more s2"
    "containers s' = (containers s2)(RT_Object_Class_Timer := Thread_timer t # containers s2 RT_Object_Class_Timer)"
    "timers s' = (timers s2)(Thread_timer t := \<lparr>timeout_func = Rt_thread_timeout t, timer_init_tick = 0, timeout_tick = 0\<rparr>)"
    "\<And>x. x \<noteq> Thread_timer t \<Longrightarrow> objects s' x = objects s2 x"
    "o_type (objects s' (Thread_timer t)) = RT_Object_Class_Timer OR RT_Object_Class_Static"
    "o_flag (objects s' (Thread_timer t)) = RT_TIMER_FLAG_ONE_SHOT AND NOT RT_TIMER_FLAG_ACTIVATED"
    by (simp_all add: s'_def timer_init_def clear_activated_def object_link_def)
  have k: "keeps_blocked s1 s2" "threads s2 t = (threads s1 t)\<lparr>t_stat := t_stat (threads s2 t)\<rparr>" "objects s2 = objects s1"
    using s2(1) unfolding passed_def by blast+
  have "\<not> runnable (threads s1 t)" using st by (simp add: runnable_def)
  then have st2: "stat_base (threads s2 t) = RT_THREAD_INIT" using k(1) st unfolding keeps_blocked_def by metis
  then have st': "stat_base (threads s' t) = RT_THREAD_INIT" by (simp add: e stat_base_def)
  have "kernel_inv s'"
    using s2(3) st' e(13) by (intro kernel_inv_fresh [OF s2(2), of s' t]) (auto simp: e(1-12) unused_thread_def live_def)
  moreover have "initialised t (ucast pr) s'"
  proof -
    have k2: "init_priority (threads s2 t) = init_priority (threads s1 t)" "stack_ok (threads s2 t) = stack_ok (threads s1 t)"
      by (subst k(2), simp add: stack_ok_def)+
    then have "stack_ok (threads s' t)" using new_stack_ok [OF stk] n0 by (simp add: stack_ok_def s1_def e(6))
    moreover have "init_priority (threads s' t) = ucast pr" using k2 by (simp add: s1_def e(6))
    moreover have "unat (ucast pr :: u8) < RT_THREAD_PRIORITY_MAX" using pr unat_ucast_le [of pr] by (rule le_less_trans [rotated])
    moreover have "rt_object_get_type (Kobj t) s' = RT_Object_Class_Thread" using ty e(13) k(3) by (simp add: rt_object_get_type_def s1_def)
    ultimately show ?thesis using st' s2(3) e(14,15) class_and_not_static(1) [OF c] static_or [of RT_Object_Class_Timer]
      by (simp add: initialised_def e(1,12) unused_thread_def rt_object_get_type_def rt_object_is_systemobject_def is_periodic_def timer_flag_defs)
  qed
  moreover have "quiet_new t s s'" if "current_thread s = None" "scheduler_lock_nest s = 0"
  proof -
    have "s2 = s1" using s2(1) that by (simp add: passed_def s1_def)
    then show ?thesis using that unfolding quiet_new_def e(1,3,4,6-11) by (auto simp: s1_def)
  qed
  moreover have "current_thread s' = None \<longleftrightarrow> current_thread s = None" using s2(1) by (simp add: passed_def e(3) s1_def)
  ultimately show ?thesis using r by (simp add: thread_new_def)
qed

lemma rt_thread_init_spec:
  assumes inv: "kernel_inv s" and un: "unused_thread t s" and new: "Kobj t \<notin> set (containers s RT_Object_Class_Thread)"
    and pr: "unat pr < RT_THREAD_PRIORITY_MAX" and stk: "a \<noteq> 0" "unat a + unat n < 2 ^ 32" "76 \<le> unat n"
  shows "\<exists>s'. rt_thread_init t name entry a n pr tick s = Some (RT_EOK, s') \<and> thread_new t (ucast pr) s s'"
proof -
  have c: "RT_Object_Class_Thread \<in> set object_container" by (simp add: object_container_def)
  obtain s1 where s1: "passed s s1" "kernel_inv s1" "rt_object_init (Kobj t) RT_Object_Class_Thread name s =
      Some (object_link RT_Object_Class_Thread (Kobj t) (upd_object (Kobj t)
        (\<lambda>ob. ob\<lparr>o_type := RT_Object_Class_Thread OR RT_Object_Class_Static, o_name := take RT_NAME_MAX name\<rparr>) s1))"
    using object_init_kernel [OF inv c new] by blast
  define s2 where "s2 = object_link RT_Object_Class_Thread (Kobj t) (upd_object (Kobj t)
        (\<lambda>ob. ob\<lparr>o_type := RT_Object_Class_Thread OR RT_Object_Class_Static, o_name := take RT_NAME_MAX name\<rparr>) s1)"
  have u1: "unused_thread t s1" using passed_unused [OF s1(1,2) un] .
  have "kernel_inv s2"
    using u1 by (intro kernel_inv_fresh [OF s1(2), of s2 t]) (auto simp: unused_thread_def object_link_def s2_def)
  moreover have "unused_thread t s2" using u1 by (simp add: unused_thread_def object_link_def class_defs s2_def)
  moreover have "rt_object_get_type (Kobj t) s2 = RT_Object_Class_Thread"
    using class_and_not_static(1) [OF c] by (simp add: rt_object_get_type_def s2_def)
  ultimately obtain s' where s': "thread_init t entry a n pr tick s2 = Some (RT_EOK, s')" "thread_new t (ucast pr) s2 s'"
    using thread_init_spec [OF _ _ _ pr stk(2,3), of s2 t entry tick] by blast
  have "quiet_new t s s'" if z: "current_thread s = None" "scheduler_lock_nest s = 0"
  proof -
    have e: "s1 = s" using s1(1) z by (simp add: passed_def)
    then have "quiet_new t s s2" using z by (auto simp: quiet_new_def object_link_def s2_def split: if_splits)
    moreover have "quiet_new t s2 s'" using s'(2) z e by (simp add: thread_new_def object_link_def s2_def)
    ultimately show ?thesis by (rule quiet_new_trans)
  qed
  moreover have "current_thread s1 = None \<longleftrightarrow> current_thread s = None" using s1(1) by (simp add: passed_def)
  ultimately show ?thesis using s' s1(3) stk(1) by (intro exI [of _ s']) (simp add: rt_thread_init_def thread_new_def s2_def)
qed

lemma rt_thread_create_spec:
  assumes inv: "kernel_inv s" and un: "unused_thread t s" and nest: "interrupt_nest s = 0"
    and pr: "unat pr < RT_THREAD_PRIORITY_MAX" and stk: "unat a + unat n < 2 ^ 32" "76 \<le> unat n"
  shows "\<exists>s'. rt_thread_create (Some t) (Some a) name entry n pr tick s = Some (Some t, s') \<and> thread_new t pr s s'"
proof -
  have c: "RT_Object_Class_Thread \<in> set object_container" by (simp add: object_container_def)
  define s2 where "s2 = object_link RT_Object_Class_Thread (Kobj t) (upd_object (Kobj t)
        (\<lambda>ob. ob\<lparr>o_type := RT_Object_Class_Thread, o_flag := 0, o_name := take RT_NAME_MAX name\<rparr>) s)"
  have a: "rt_object_allocate (Some (Kobj t)) RT_Object_Class_Thread name s = Some (Some (Kobj t), s2)"
    using nest c by (simp add: rt_object_allocate_def get_information_iff [THEN iffD2] Let_def s2_def)
  have "kernel_inv s2" using un by (intro kernel_inv_fresh [OF inv, of s2 t]) (auto simp: unused_thread_def object_link_def s2_def)
  moreover have "unused_thread t s2" using un by (simp add: unused_thread_def object_link_def class_defs s2_def)
  moreover have "rt_object_get_type (Kobj t) s2 = RT_Object_Class_Thread"
    using class_and_not_static(2) [OF c] by (simp add: rt_object_get_type_def s2_def)
  moreover have p: "unat (ucast pr :: u16) < RT_THREAD_PRIORITY_MAX" "ucast (ucast pr :: u16) = pr"
    using pr unat_ucast_le [of pr] by (auto intro: le_less_trans simp: bit_eq_iff bit_simps dest: bit_imp_le_length)
  ultimately obtain s' where s': "thread_init t entry a n (ucast pr) tick s2 = Some (RT_EOK, s')" "thread_new t pr s2 s'"
    using thread_init_spec [OF _ _ _ p(1) stk, of s2 t entry tick] by auto
  have "quiet_new t s s'" if z: "current_thread s = None" "scheduler_lock_nest s = 0"
  proof -
    have "quiet_new t s s2" using z by (auto simp: quiet_new_def object_link_def s2_def split: if_splits)
    moreover have "quiet_new t s2 s'" using s'(2) z by (simp add: thread_new_def object_link_def s2_def)
    ultimately show ?thesis by (rule quiet_new_trans)
  qed
  then show ?thesis using s' a by (intro exI [of _ s']) (simp add: rt_thread_create_def thread_new_def s2_def)
qed

text \<open>Without memory for the structure nothing happens; without memory for the stack the structure is released again.\<close>

lemma rt_thread_create_no_memory:
  assumes inv: "kernel_inv s" and un: "unused_thread t s" and nest: "interrupt_nest s = 0"
  shows "rt_thread_create None stk name entry n pr tick s = Some (None, s)"
    "\<exists>s'. rt_thread_create (Some t) None name entry n pr tick s = Some (None, s') \<and> kernel_inv s' \<and> unused_thread t s' \<and>
      (\<forall>c. Kobj t \<notin> set (containers s' c)) \<and> threads s' = threads s"
proof -
  have c: "RT_Object_Class_Thread \<in> set object_container" by (simp add: object_container_def)
  show "rt_thread_create None stk name entry n pr tick s = Some (None, s)"
    using nest c by (simp add: rt_thread_create_def rt_object_allocate_def get_information_iff [THEN iffD2])
  define s2 where "s2 = object_link RT_Object_Class_Thread (Kobj t) (upd_object (Kobj t)
        (\<lambda>ob. ob\<lparr>o_type := RT_Object_Class_Thread, o_flag := 0, o_name := take RT_NAME_MAX name\<rparr>) s)"
  define s3 where "s3 = object_unlink (Kobj t) (upd_object (Kobj t) (\<lambda>ob. ob\<lparr>o_type := RT_Object_Class_Null\<rparr>) s2)"
  have "rt_object_allocate (Some (Kobj t)) RT_Object_Class_Thread name s = Some (Some (Kobj t), s2)"
    using nest c by (simp add: rt_object_allocate_def get_information_iff [THEN iffD2] Let_def s2_def)
  moreover have "rt_object_delete (Kobj t) s2 = Some s3"
    by (simp add: rt_object_delete_def s2_def s3_def RT_Object_Class_Thread_def RT_Object_Class_Static_def)
  ultimately have "rt_thread_create (Some t) None name entry n pr tick s = Some (None, s3)" by (simp add: rt_thread_create_def)
  moreover have "kernel_inv s3"
    using un by (intro kernel_inv_fresh [OF inv, of s3 t]) (auto simp: unused_thread_def s2_def s3_def object_link_def object_unlink_def)
  moreover have "unused_thread t s3" "threads s3 = threads s" "\<forall>c. Kobj t \<notin> set (containers s3 c)"
    using un by (auto simp: unused_thread_def s2_def s3_def split: if_splits)
  ultimately show "\<exists>s'. rt_thread_create (Some t) None name entry n pr tick s = Some (None, s') \<and> kernel_inv s' \<and> unused_thread t s' \<and>
      (\<forall>c. Kobj t \<notin> set (containers s' c)) \<and> threads s' = threads s" by blast
qed

section \<open>Starting\<close>

text \<open>Before the scheduler runs, a thread that is started becomes ready and nothing else changes.\<close>

lemma rt_thread_startup_quiet:
  assumes inv: "kernel_inv s" and ini: "initialised t p s" and z: "current_thread s = None" "scheduler_lock_nest s = 0"
  shows "\<exists>s'. rt_thread_startup t s = Some (RT_EOK, s') \<and> kernel_inv s' \<and> ready s' t \<and> current_priority (threads s' t) = p \<and> quiet_new t s s'"
proof -
  let ?f = "\<lambda>th :: rt_thread. th\<lparr>current_priority := init_priority th,
      number_mask := push_bit (unat (init_priority th)) 1, t_stat := RT_THREAD_SUSPEND\<rparr>"
  let ?s1 = "upd_thread t ?f s"
  have i: "stat_base (threads s t) = RT_THREAD_INIT" "rt_object_get_type (Kobj t) s = RT_Object_Class_Thread" "init_priority (threads s t) = p"
    using ini by (simp_all add: initialised_def)
  have i1: "kernel_inv ?s1" "stat_base (threads ?s1 t) = RT_THREAD_SUSPEND"
    using startup_suspended [OF inv, of t ?f] ini by (simp_all add: initialised_def)
  obtain s2 b where s2: "rt_thread_resume t ?s1 = Some (RT_EOK, s2)" "kernel_inv s2" "kframe ?s1 s2" "current_thread s2 = None"
    "b \<in> {RT_THREAD_READY, RT_THREAD_RUNNING}" "threads s2 = (threads ?s1)(t := set_stat b (threads ?s1 t))"
    "timer_list s2 = removeAll (Thread_timer t) (timer_list s)" "\<forall>h. wait_head h \<longrightarrow> klists s2 h = removeAll t (klists s h)"
    using rt_thread_resume_spec [OF i1] z(1) by auto
  have "b \<noteq> RT_THREAD_RUNNING"
  proof
    assume "b = RT_THREAD_RUNNING"
    then have "stat_base (threads s2 t) = RT_THREAD_RUNNING" using s2(6) by simp
    then show False using kernel_invD(3) [OF s2(2)] s2(4) unfolding current_ok_def by auto
  qed
  then have rd: "ready s2 t" using s2(5,6) by simp
  moreover have "current_priority (threads s2 t) = p" using s2(6) i(3) by simp
  moreover have "quiet_new t s s2"
  proof -
    have tl: "timer_list s2 = timer_list s" using s2(7) kernel_invD(6) [OF inv] i(1) by (auto simp: timer_links_def intro!: removeAll_id)
    have th: "threads s2 u = threads s u" if "u \<noteq> t" for u using s2(6) that by simp
    have "u \<in> set (klists s h)" if "u \<noteq> t" "u \<in> set (klists s2 h)" for u h
    proof (cases h)
      case (Prio q)
      then show ?thesis using that th [OF that(1)] kernel_invD(2) [OF inv] kernel_invD(2) [OF s2(2)] by (simp add: queue_inv_def ready_ok_def)
    qed (use that s2(8) in \<open>auto simp: wait_head_def\<close>)
    then show ?thesis using s2(3,4) tl th z by (auto simp: quiet_new_def kframe_def)
  qed
  moreover have "rt_thread_startup t s = Some (RT_EOK, s2)"
    using i s2(1,4) by (simp add: rt_thread_startup_def rt_thread_self_def Let_def)
  ultimately show ?thesis using s2(2) by blast
qed

text \<open>The first thread that runs.\<close>

lemma rt_system_scheduler_start_spec:
  assumes inv: "kernel_inv s" and z: "current_thread s = None" and rd: "ready s t"
  shows "\<exists>c s'. rt_system_scheduler_start s = Some s' \<and> kernel_inv s' \<and> current_thread s' = Some c \<and> ready s c \<and>
    stat_base (threads s' c) = RT_THREAD_RUNNING \<and> (\<forall>u. ready s u \<longrightarrow> prio_of s c \<le> prio_of s u) \<and>
    (\<forall>u. u \<noteq> c \<longrightarrow> threads s' u = threads s u) \<and> timer_list s' = timer_list s \<and> siginfo_free s' = siginfo_free s"
proof -
  note D = kernel_invD [OF inv]
  have "t \<in> set (klists s (Prio (prio_of s t)))" using D(2) rd by (simp add: queue_inv_def ready_ok_def)
  then have "klists s (Prio (prio_of s t)) \<noteq> []" by auto
  then have "ready_group s \<noteq> 0" using D(2) unfolding queue_inv_def bitmap_ok_def by (metis bit_0_eq bot_apply bot_bool_def)
  from highest_spec [OF D(2) this] obtain c p where c: "scheduler_get_highest_priority_thread s = Some (c, p)" "ready s c" "prio_of s c = p"
    and low: "\<And>u. ready s u \<Longrightarrow> p \<le> prio_of s u" by metis
  let ?s1 = "s\<lparr>current_thread := Some c\<rparr>"
  have q1: "queue_inv {} ?s1" using D(2) queue_inv_cong [of ?s1 s] by simp
  have lv: "live (threads ?s1 c)" using c(2) by (simp add: live_def)
  obtain s2 where s2: "rt_schedule_remove_thread c ?s1 = Some s2" "queue_inv {} (upd_thread c (set_stat RT_THREAD_RUNNING) s2)"
    "threads s2 = threads s" "current_thread s2 = Some c" "sched_frame ?s1 s2"
    using remove_set_running [OF q1 lv] by auto
  let ?s3 = "upd_thread c (\<lambda>th. th\<lparr>t_stat := RT_THREAD_RUNNING\<rparr>) s2"
  have b: "stat_base (th\<lparr>t_stat := RT_THREAD_RUNNING\<rparr>) = RT_THREAD_RUNNING" for th by (simp add: stat_base_def)
  have "queue_inv {} ?s3 = queue_inv {} (upd_thread c (set_stat RT_THREAD_RUNNING) s2)"
    by (rule queue_inv_cong) (auto simp: same_sched_def b stack_ok_def)
  moreover have "current_ok ?s3" using D(3) z s2(3,4) b unfolding current_ok_def by auto
  ultimately have q3: "sched_inv ?s3" using s2(2) by (simp add: sched_inv_def)
  have f: "timers ?s3 = timers s" "timer_list ?s3 = timer_list s" "objects ?s3 = objects s" "kframe s ?s3" "siginfo_free ?s3 = siginfo_free s"
    using s2(3,5) by (auto simp: sched_frame_def kframe_def same_tcb_def)
  have "kernel_inv ?s3"
    by (rule kernel_inv_transfer [OF inv q3 f(4,1,2,3)]) (use s2(3) c(2) in \<open>auto simp: live_def b split: if_splits\<close>)
  moreover have "rt_system_scheduler_start s = Some ?s3" using c(1) s2(1) by (simp add: rt_system_scheduler_start_def Let_def)
  ultimately show ?thesis using c low f(2,5) s2(3,4) b by (intro exI [of _ c] exI [of _ ?s3]) auto
qed

end
