(* ===== verification/Startup.thy ===== *)
theory Startup
  imports Rvc_System Thread_New
begin

text \<open>
  The start of the system (\<^verbatim>\<open>rt-thread/src/components.c\<close>): the table of initialisation functions, the main thread and
  \<^verbatim>\<open>rtthread_startup\<close>, which calls the initialisation of every part in turn and gives the processor to the first thread.

  The set-up of the hardware (\<^verbatim>\<open>rt_hw_board_init\<close>) is what comes before the state the model starts in, and the banner is
  console output. What the allocations return is in \<open>boot_env\<close>.
\<close>

section \<open>The table of initialisation functions\<close>

text \<open>The linker puts the functions into one table, ordered by their level; \<open>i\<close> and \<open>j\<close> are the places of two marks.\<close>

function init_loop :: "('s \<Rightarrow> (int \<times> 's) option) list \<Rightarrow> nat \<Rightarrow> nat \<Rightarrow> 's \<Rightarrow> 's option" where
  "init_loop tab i j s =
     (if i < j then do {
        _ \<leftarrow> in_bounds (i < length tab);
        (_, s1) \<leftarrow> (tab ! i) s;
        init_loop tab (i + 1) j s1
      } else Some s)"
  by auto
termination by (relation "measure (\<lambda>(_, i, j, _). j - i)") auto

definition rt_components_board_init :: "('s \<Rightarrow> (int \<times> 's) option) list \<Rightarrow> nat \<Rightarrow> nat \<Rightarrow> 's \<Rightarrow> 's option" where
  "rt_components_board_init tab rti_board_start rti_board_end s = init_loop tab rti_board_start rti_board_end s"

definition rt_components_init :: "('s \<Rightarrow> (int \<times> 's) option) list \<Rightarrow> nat \<Rightarrow> nat \<Rightarrow> 's \<Rightarrow> 's option" where
  "rt_components_init tab rti_board_end rti_end s = init_loop tab rti_board_end rti_end s"

text \<open>The main thread up to the first point at which \<^verbatim>\<open>main\<close> may lose the processor.\<close>

definition main_thread_entry :: "(rvc_state \<Rightarrow> (int \<times> rvc_state) option) list \<Rightarrow> nat \<Rightarrow> nat \<Rightarrow> env \<Rightarrow> rvc_state \<Rightarrow> rvc_state option" where
  "main_thread_entry tab rti_board_end rti_end e s = do {
     s1 \<leftarrow> rt_components_init tab rti_board_end rti_end s;
     main_entry e s1
   }"

section \<open>Starting the kernel\<close>

definition RT_MAIN_THREAD_STACK_SIZE :: u32 where "RT_MAIN_THREAD_STACK_SIZE = 2048"
definition RT_MAIN_THREAD_PRIORITY :: u8 where "RT_MAIN_THREAD_PRIORITY = 10"

record boot_env =
  proximity_ptr :: "nat option"
  engine_ptr :: "nat option"
  bag_ptr :: "nat option"
  speaker_ptr :: "nat option"
  siginfo_pool :: bool
  main_ptr :: "nat option"
  main_stack :: "u32 option"
  idle_stack :: u32

definition rt_application_init :: "boot_env \<Rightarrow> 'a kstate_scheme \<Rightarrow> 'a kstate_scheme option" where
  "rt_application_init b s = do {
     (tid, s1) \<leftarrow> rt_thread_create (main_ptr b) (main_stack b) ''main'' main_thread
                    RT_MAIN_THREAD_STACK_SIZE RT_MAIN_THREAD_PRIORITY 20 s;
     _ \<leftarrow> RT_ASSERT (tid \<noteq> None);
     t \<leftarrow> tid;
     (_, s2) \<leftarrow> rt_thread_startup t s1;
     Some (set_end_flag t s2)
   }"

text \<open>The list of hooks of the idle thread is kept beside the state. Soft timers are off, so there is no timer thread.\<close>

definition rtthread_startup ::
  "boot_env \<Rightarrow> idle_hook option list \<Rightarrow> 'a dev_state_scheme \<Rightarrow> (idle_hook option list \<times> 'a dev_state_scheme) option" where
  "rtthread_startup b hooks s = do {
     s1 \<leftarrow> rt_mock_devices_init (proximity_ptr b) (engine_ptr b) (bag_ptr b) (speaker_ptr b) s;
     let s2 = rt_system_timer_init s1;
     let s3 = rt_system_scheduler_init s2;
     s4 \<leftarrow> rt_system_signal_init (siginfo_pool b) s3;
     s5 \<leftarrow> rt_application_init b s4;
     let hooks1 = cpu_usage_init hooks;
     s6 \<leftarrow> rt_thread_idle_init idle_thread (idle_stack b) idle_thread s5;
     s7 \<leftarrow> rt_system_scheduler_start s6;
     Some (hooks1, s7)
   }"

declare init_loop.simps [simp del]

text \<open>Both passes together run every function between the outer marks once and in order.\<close>

lemma init_loop_split: "i \<le> j \<Longrightarrow> j \<le> k \<Longrightarrow> init_loop tab i k s = do { s1 \<leftarrow> init_loop tab i j s; init_loop tab j k s1 }"
proof (induction tab i j s rule: init_loop.induct)
  case (1 tab i j s)
  show ?case
  proof (cases "i < j")
    case True
    then have "i < k" using 1 by simp
    then show ?thesis using 1 True unfolding init_loop.simps [of tab i k] init_loop.simps [of tab i j]
      by (cases "in_bounds (i < length tab)"; cases "(tab ! i) s") auto
  next
    case False
    then show ?thesis using 1 by (simp add: init_loop.simps [of tab j j])
  qed
qed

section \<open>The state at the start\<close>

text \<open>The kernel's memory is zero but for what the board's devices left: no thread, no timer, nobody waits. The blocks that
  are handed out are apart and new.\<close>

definition boot_state :: "'a dev_state_scheme \<Rightarrow> bool" where
  "boot_state s \<longleftrightarrow> (\<forall>t. stat_base (threads s t) = RT_THREAD_INIT) \<and> (\<forall>h. klists s h = []) \<and>
     current_thread s = None \<and> scheduler_lock_nest s = 0 \<and> interrupt_nest s = 0 \<and>
     containers s RT_Object_Class_Thread = [] \<and> containers s RT_Object_Class_Timer = []"

definition boot_blocks :: "boot_env \<Rightarrow> nat list option" where
  "boot_blocks b = (case (proximity_ptr b, engine_ptr b, bag_ptr b, speaker_ptr b) of
     (Some d1, Some d2, Some d3, Some d4) \<Rightarrow> Some [d1, d2, d3, d4] | _ \<Rightarrow> None)"

definition boot_ok :: "boot_env \<Rightarrow> 'a dev_state_scheme \<Rightarrow> bool" where
  "boot_ok b s \<longleftrightarrow> boot_state s \<and> siginfo_pool b \<and> main_ptr b = Some main_thread \<and>
     (case main_stack b of None \<Rightarrow> False | Some a \<Rightarrow> unat a + 2048 < 2 ^ 32) \<and>
     idle_stack b \<noteq> 0 \<and> unat (idle_stack b) + 1024 < 2 ^ 32 \<and>
     (case boot_blocks b of None \<Rightarrow> False
      | Some ds \<Rightarrow> distinct ds \<and> main_thread \<notin> set ds \<and> idle_thread \<notin> set ds \<and>
          (\<forall>d \<in> set ds. Kobj d \<notin> set (containers s RT_Object_Class_Device)))"

text \<open>What creating a device changes of the kernel.\<close>

definition boot_frame :: "nat \<Rightarrow> 'a dev_state_scheme \<Rightarrow> 'a dev_state_scheme \<Rightarrow> bool" where
  "boot_frame d s s' \<longleftrightarrow> threads s' = threads s \<and> klists s' = klists s \<and> current_thread s' = None \<and> scheduler_lock_nest s' = 0 \<and>
     interrupt_nest s' = 0 \<and> (\<forall>c. c \<noteq> RT_Object_Class_Device \<longrightarrow> containers s' c = containers s c) \<and>
     set (containers s' RT_Object_Class_Device) \<subseteq> insert (Kobj d) (set (containers s RT_Object_Class_Device))"

lemma critical_boot:
  assumes "current_thread s = None" "scheduler_lock_nest s = 0"
  shows "rt_exit_critical (rt_enter_critical s) = Some s"
  using assms by (simp add: rt_exit_critical_def rt_enter_critical_def Let_def)

lemma mock_device_boot:
  assumes "boot_state s" "Kobj d \<notin> set (containers s RT_Object_Class_Device)"
  shows "\<exists>s'. mock_device (Some d) ops name s = Some s' \<and> boot_state s' \<and> boot_frame d s s'"
proof -
  let ?s1 = "snd (rt_device_create (Some d) RT_Device_Class_Mock ops s)"
  have c: "RT_Object_Class_Device \<in> set object_container" by (simp add: object_container_def)
  have b: "current_thread ?s1 = None" "scheduler_lock_nest ?s1 = 0" "interrupt_nest ?s1 = 0" "containers ?s1 = containers s"
    "threads ?s1 = threads s" "klists ?s1 = klists s"
    using assms(1) by (simp_all add: boot_state_def rt_device_create_def upd_device_def)
  note e = critical_boot [OF b(1,2)]
  obtain found where f: "rt_device_find name ?s1 = Some (found, ?s1)"
    using b(3) e c by (simp add: rt_device_find_def rt_object_find_def get_information_iff [THEN iffD2] Let_def)
  have fr: "boot_state s' \<and> boot_frame d s s'" if "threads s' = threads s" "klists s' = klists s" "current_thread s' = None"
    "scheduler_lock_nest s' = 0" "interrupt_nest s' = 0" "containers s' = containers s \<or>
      containers s' = (containers s)(RT_Object_Class_Device := Kobj d # containers s RT_Object_Class_Device)" for s' :: "'a dev_state_scheme"
    using assms(1) that by (auto simp: boot_state_def boot_frame_def class_defs)
  show ?thesis
  proof (cases "found = None")
    case True
    let ?ob = "\<lambda>ob. ob\<lparr>o_type := RT_Object_Class_Device OR RT_Object_Class_Static, o_name := take RT_NAME_MAX name\<rparr>"
    have "rt_object_init (Kobj d) RT_Object_Class_Device name ?s1 =
        Some (object_link RT_Object_Class_Device (Kobj d) (upd_object (Kobj d) ?ob ?s1))"
      using assms(2) b e c by (simp add: rt_object_init_def get_information_iff [THEN iffD2] rt_enter_critical_def Let_def)
    then show ?thesis using f True b fr
      by (simp add: mock_device_def rt_device_register_def rt_device_create_def Let_def upd_device_def object_link_def)
  next
    case False
    then show ?thesis using f b fr by (auto simp: mock_device_def rt_device_register_def rt_device_create_def Let_def)
  qed
qed

lemma mock_devices_boot:
  assumes "boot_state s" "distinct [d1, d2, d3, d4]" "\<forall>d \<in> {d1, d2, d3, d4}. Kobj d \<notin> set (containers s RT_Object_Class_Device)"
  shows "\<exists>s'. rt_mock_devices_init (Some d1) (Some d2) (Some d3) (Some d4) s = Some s' \<and> boot_state s' \<and> threads s' = threads s"
proof -
  obtain s1 where s1: "mock_device (Some d1) Proximity_sensor_ops ''proximity_sensor'' s = Some s1" "boot_state s1" "boot_frame d1 s s1"
    using mock_device_boot [OF assms(1)] assms(3) by blast
  moreover have "Kobj d2 \<notin> set (containers s1 RT_Object_Class_Device)" using s1(3) assms(2,3) by (auto simp: boot_frame_def)
  ultimately obtain s2 where s2: "mock_device (Some d2) Engine_ops ''engine'' s1 = Some s2" "boot_state s2" "boot_frame d2 s1 s2"
    using mock_device_boot [of s1] by blast
  moreover have "Kobj d3 \<notin> set (containers s2 RT_Object_Class_Device)" using s1(3) s2(3) assms(2,3) by (auto simp: boot_frame_def)
  ultimately obtain s3 where s3: "mock_device (Some d3) Garbage_bag_ops ''garbage_bag'' s2 = Some s3" "boot_state s3" "boot_frame d3 s2 s3"
    using mock_device_boot [of s2] by blast
  moreover have "Kobj d4 \<notin> set (containers s3 RT_Object_Class_Device)" using s1(3) s2(3) s3(3) assms(2,3) by (auto simp: boot_frame_def)
  ultimately obtain s4 where s4: "mock_device (Some d4) Speaker_ops ''speaker'' s3 = Some s4" "boot_state s4" "boot_frame d4 s3 s4"
    using mock_device_boot [of s3] by blast
  then show ?thesis using s1 s2 s3 by (simp add: rt_mock_devices_init_def boot_frame_def)
qed

section \<open>The first threads\<close>

lemma kernel_empty:
  assumes "boot_state s"
  shows "kernel_inv (rt_system_scheduler_init (rt_system_timer_init s))" (is "kernel_inv ?s")
proof -
  have e: "klists ?s h = []" "ready_group ?s = 0" "threads ?s = threads s" "current_thread ?s = None" "timer_list ?s = []" for h
    using assms by (auto simp: boot_state_def rt_system_scheduler_init_def rt_system_timer_init_def split: lhead.splits)
  have st: "stat_base (threads s t) = RT_THREAD_INIT" for t using assms by (simp add: boot_state_def)
  have "queue_inv {} ?s" by (simp add: queue_inv_def bitmap_ok_def linked_once_def ready_ok_def wait_ok_def e st live_def)
  then show ?thesis
    by (simp add: kernel_inv_def sched_inv_def current_ok_def timer_ok_def timer_sorted_def thread_objs_def timer_links_def e st live_def)
qed

text \<open>The threads that are ready, when no thread has the processor yet.\<close>

definition waiting :: "nat set \<Rightarrow> 'a kstate_scheme \<Rightarrow> bool" where
  "waiting R s \<longleftrightarrow> kernel_inv s \<and> current_thread s = None \<and> scheduler_lock_nest s = 0 \<and> interrupt_nest s = 0 \<and> timer_list s = [] \<and>
     (\<forall>t. if t \<in> R then ready s t else stat_base (threads s t) = RT_THREAD_INIT) \<and>
     set (containers s RT_Object_Class_Thread) \<union> set (containers s RT_Object_Class_Timer) \<subseteq> Kobj ` R \<union> Thread_timer ` R"

lemma waiting_unused:
  assumes "waiting R s" "t \<notin> R"
  shows "unused_thread t s" "Kobj t \<notin> set (containers s RT_Object_Class_Thread)"
proof -
  have st: "stat_base (threads s t) = RT_THREAD_INIT" and inv: "kernel_inv s" using assms by (auto simp: waiting_def split: if_splits)
  have "t \<notin> set (klists s h)" for h
    using kernel_invD(2) [OF inv] st by (cases h) (auto simp: queue_inv_def ready_ok_def wait_ok_def)
  then show "unused_thread t s" "Kobj t \<notin> set (containers s RT_Object_Class_Thread)"
    using assms st by (auto simp: unused_thread_def waiting_def live_def)
qed

lemma end_flag_waiting:
  "kernel_inv (set_end_flag t s) = kernel_inv s" "waiting R (set_end_flag t s) = waiting R s"
proof -
  show k: "kernel_inv (set_end_flag t s) = kernel_inv s"
    unfolding set_end_flag_def by (rule kernel_inv_upd_same) (simp add: same_sched_def stat_base_def stack_ok_def)
  have "stat_base (threads (set_end_flag t s) u) = stat_base (threads s u)" for u by (simp add: set_end_flag_def stat_base_def)
  then show "waiting R (set_end_flag t s) = waiting R s" unfolding waiting_def k by (simp add: set_end_flag_def)
qed

lemma start_waiting:
  assumes w: "waiting R s" and t: "t \<notin> R" and n: "thread_new t p s s1"
  shows "\<exists>s2. rt_thread_startup t s1 = Some (RT_EOK, s2) \<and> waiting (insert t R) s2 \<and> current_priority (threads s2 t) = p \<and>
    (\<forall>u. u \<noteq> t \<longrightarrow> threads s2 u = threads s u) \<and> siginfo_free s2 = siginfo_free s"
proof -
  have q1: "quiet_new t s s1" using n w by (simp add: thread_new_def waiting_def)
  obtain s2 where s2: "rt_thread_startup t s1 = Some (RT_EOK, s2)" "kernel_inv s2" "ready s2 t" "current_priority (threads s2 t) = p" "quiet_new t s1 s2"
    using rt_thread_startup_quiet [of s1 t p] n q1 by (auto simp: thread_new_def quiet_new_def)
  have q: "quiet_new t s s2" using quiet_new_trans [OF q1 s2(5)] .
  then have "threads s2 u = threads s u" if "u \<noteq> t" for u using that by (simp add: quiet_new_def)
  moreover have "waiting (insert t R) s2"
  proof -
    have c: "set (containers s2 c) \<subseteq> set (containers s c) \<union> {Kobj t, Thread_timer t}" for c using q unfolding quiet_new_def by blast
    have "set (containers s2 RT_Object_Class_Thread) \<union> set (containers s2 RT_Object_Class_Timer)
        \<subseteq> Kobj ` insert t R \<union> Thread_timer ` insert t R"
      using c [of RT_Object_Class_Thread] c [of RT_Object_Class_Timer] w unfolding waiting_def by blast
    moreover have "if u \<in> insert t R then ready s2 u else stat_base (threads s2 u) = RT_THREAD_INIT" for u
      using w s2(3) q by (cases "u = t") (simp_all add: waiting_def quiet_new_def)
    ultimately show ?thesis using w q s2(2) by (simp add: waiting_def quiet_new_def)
  qed
  ultimately show ?thesis using s2 q by (auto simp: quiet_new_def)
qed

lemma rt_application_init_boot:
  assumes w: "waiting {} s" and b: "main_ptr b = Some main_thread" "main_stack b = Some a" "unat a + 2048 < 2 ^ 32"
  shows "\<exists>s'. rt_application_init b s = Some s' \<and> waiting {main_thread} s' \<and> prio_of s' main_thread = 10 \<and> siginfo_free s' = siginfo_free s"
proof -
  have i: "kernel_inv s" "interrupt_nest s = 0" using w by (simp_all add: waiting_def)
  obtain s1 where s1: "rt_thread_create (Some main_thread) (Some a) ''main'' main_thread RT_MAIN_THREAD_STACK_SIZE RT_MAIN_THREAD_PRIORITY 20 s =
      Some (Some main_thread, s1)" "thread_new main_thread RT_MAIN_THREAD_PRIORITY s s1"
    using rt_thread_create_spec [OF i(1) waiting_unused(1) [OF w] i(2), of main_thread RT_MAIN_THREAD_PRIORITY a RT_MAIN_THREAD_STACK_SIZE "''main''" main_thread 20] b(3)
    by (auto simp: RT_MAIN_THREAD_PRIORITY_def RT_MAIN_THREAD_STACK_SIZE_def RT_THREAD_PRIORITY_MAX_def)
  obtain s2 where s2: "rt_thread_startup main_thread s1 = Some (RT_EOK, s2)" "waiting {main_thread} s2"
    "current_priority (threads s2 main_thread) = RT_MAIN_THREAD_PRIORITY" "siginfo_free s2 = siginfo_free s"
    using start_waiting [OF w _ s1(2)] by auto
  then show ?thesis using s1(1) b by (simp add: rt_application_init_def end_flag_waiting RT_MAIN_THREAD_PRIORITY_def) (simp add: set_end_flag_def)
qed

lemma rt_thread_idle_init_boot:
  assumes w: "waiting {main_thread} s" and a: "a \<noteq> 0" "unat a + 1024 < 2 ^ 32"
  shows "\<exists>s'. rt_thread_idle_init idle_thread a e s = Some s' \<and> waiting {main_thread, idle_thread} s' \<and> prio_of s' idle_thread = 31 \<and>
    threads s' main_thread = threads s main_thread \<and> siginfo_free s' = siginfo_free s"
proof -
  have ne: "idle_thread \<notin> {main_thread}" by (simp add: idle_thread_def main_thread_def)
  have i: "kernel_inv s" using w by (simp add: waiting_def)
  have p: "(of_nat RT_THREAD_PRIORITY_MAX - 1 :: u16) = 31" "unat (31 :: u16) < RT_THREAD_PRIORITY_MAX" by (simp_all add: RT_THREAD_PRIORITY_MAX_def)
  obtain s1 where s1: "rt_thread_init idle_thread ''tidle0'' e a 1024 31 32 s = Some (RT_EOK, s1)" "thread_new idle_thread 31 s s1"
    using rt_thread_init_spec [OF i waiting_unused [OF w ne] p(2) a(1), of 1024 "''tidle0''" e 32] a(2) by auto
  obtain s2 where s2: "rt_thread_startup idle_thread s1 = Some (RT_EOK, s2)" "waiting {main_thread, idle_thread} s2"
    "current_priority (threads s2 idle_thread) = 31" "threads s2 main_thread = threads s main_thread" "siginfo_free s2 = siginfo_free s"
    using start_waiting [OF w ne s1(2)] ne by (auto simp: insert_commute)
  then show ?thesis using s1(1) p(1) ne
    by (simp add: rt_thread_idle_init_def end_flag_waiting) (simp add: set_end_flag_def)
qed

lemma waiting_stat:
  assumes "waiting R s"
  shows "ready s u \<longleftrightarrow> u \<in> R" "stat_base (threads s u) \<noteq> RT_THREAD_SUSPEND" "stat_base (threads s u) \<noteq> RT_THREAD_CLOSE"
proof -
  have "if u \<in> R then ready s u else stat_base (threads s u) = RT_THREAD_INIT" using assms by (simp add: waiting_def)
  then show "ready s u \<longleftrightarrow> u \<in> R" "stat_base (threads s u) \<noteq> RT_THREAD_SUSPEND" "stat_base (threads s u) \<noteq> RT_THREAD_CLOSE"
    by (cases "u \<in> R"; simp)+
qed

text \<open>With one thread ready and nobody waiting, the lists are known.\<close>

lemma one_ready:
  assumes q: "queue_inv {} s" and r: "\<And>u. ready s u \<longleftrightarrow> u = i" and p: "prio_of s i = p" "p < 32"
    and w: "\<And>u. stat_base (threads s u) \<noteq> RT_THREAD_SUSPEND \<and> stat_base (threads s u) \<noteq> RT_THREAD_CLOSE"
  shows "klists s h = (if h = Prio p then [i] else [])" "ready_group s = 2 ^ p"
proof -
  have "x \<in> set (klists s h) \<longleftrightarrow> h = Prio p \<and> x = i" for x h
    using q r p(1) w by (cases h) (auto simp: queue_inv_def ready_ok_def wait_ok_def)
  then have st: "set (klists s h) = (if h = Prio p then {i} else {})" for h by auto
  have "distinct (klists s (Prio p))" using q by (simp add: queue_inv_def linked_once_def)
  then have "klists s (Prio p) = [i]" using st [of "Prio p"] by (cases "klists s (Prio p)") (auto simp: insert_eq_iff)
  then show l: "klists s h = (if h = Prio p then [i] else [])" for h using st [of h] by auto
  show "ready_group s = 2 ^ p"
  proof (rule bit_word_eqI)
    fix n assume "n < LENGTH(32)"
    moreover have "(n < 32 \<and> bit (ready_group s) n) \<longleftrightarrow> klists s (Prio n) \<noteq> []" using q by (simp add: queue_inv_def bitmap_ok_def)
    ultimately have "bit (ready_group s) n \<longleftrightarrow> n = p" using l [of "Prio n"] by simp
    then show "bit (ready_group s) n = bit (2 ^ p :: u32) n" using p(2) by (auto simp: bit_exp_iff)
  qed
qed

lemma start_first:
  assumes w: "waiting {main_thread, idle_thread} s" and p: "prio_of s main_thread = 10" "prio_of s idle_thread = 31"
  shows "\<exists>s'. rt_system_scheduler_start s = Some s' \<and> kernel_inv s' \<and> current_thread s' = Some main_thread \<and>
    stat_base (threads s' main_thread) = RT_THREAD_RUNNING \<and> (\<forall>h. klists s' h = (if h = Prio 31 then [idle_thread] else [])) \<and>
    ready_group s' = 2 ^ 31 \<and> timer_list s' = [] \<and> siginfo_free s' = siginfo_free s"
proof -
  note S = waiting_stat [OF w]
  have k: "kernel_inv s" "current_thread s = None" "timer_list s = []" using w by (simp_all add: waiting_def)
  have rd: "ready s main_thread" using S(1) by simp
  obtain c s' where s': "rt_system_scheduler_start s = Some s'" "kernel_inv s'" "current_thread s' = Some c" "ready s c"
    "stat_base (threads s' c) = RT_THREAD_RUNNING" "\<forall>u. ready s u \<longrightarrow> prio_of s c \<le> prio_of s u"
    "\<forall>u. u \<noteq> c \<longrightarrow> threads s' u = threads s u" "timer_list s' = timer_list s" "siginfo_free s' = siginfo_free s"
    using rt_system_scheduler_start_spec [OF k(1,2) rd] by (elim exE conjE) (rule that; assumption)
  have ne: "idle_thread \<noteq> main_thread" by (simp add: idle_thread_def main_thread_def)
  have "c = main_thread \<or> c = idle_thread" using s'(4) S(1) [of c] by simp
  moreover have "prio_of s c \<le> 10" using s'(6) rd p(1) by metis
  ultimately have c: "c = main_thread" using p(2) by auto
  have "ready s' u \<longleftrightarrow> u = idle_thread" for u using s'(5,7) S(1) [of u] c ne by (cases "u = c") auto
  moreover have "prio_of s' idle_thread = 31" using s'(7) c ne p(2) by simp
  moreover have "stat_base (threads s' u) \<noteq> RT_THREAD_SUSPEND \<and> stat_base (threads s' u) \<noteq> RT_THREAD_CLOSE" for u
    using s'(5,7) S(2,3) [of u] by (cases "u = c") auto
  ultimately have "klists s' h = (if h = Prio 31 then [idle_thread] else [])" "ready_group s' = 2 ^ 31" for h
    using one_ready [OF kernel_invD(2) [OF s'(2)], of idle_thread 31] by auto
  then show ?thesis using s' c k(3) by auto
qed

section \<open>The system comes up\<close>

lemma cpu_usage_init_first: "cpu_usage_init (None # hs) = Some Cpu_usage_idle_hook # hs"
  by (simp add: cpu_usage_init_def rt_thread_idle_sethook_def)

end
