(* ===== verification/Startup_Props.thy ===== *)
theory Startup_Props
  imports Startup App_Props
begin

text \<open>The property of the start of the system, and a state after a reset to which it applies.\<close>

definition reset_state :: rvc_state where
  "reset_state = rvc_sample\<lparr>threads := (\<lambda>t. (threads rvc_sample t)\<lparr>t_stat := RT_THREAD_INIT\<rparr>), klists := (\<lambda>_. []), current_thread := None,
     scheduler_lock_nest := 0, interrupt_nest := 0, containers := (\<lambda>_. [])\<rparr>"

definition reset_env :: boot_env where
  "reset_env = \<lparr>proximity_ptr = Some 40, engine_ptr = Some 41, bag_ptr = Some 42, speaker_ptr = Some 43, siginfo_pool = True,
     main_ptr = Some main_thread, main_stack = Some 0x20002000, idle_stack = 0x20001000\<rparr>"

lemma reset_ok: "boot_ok reset_env reset_state"
  by (simp add: boot_ok_def boot_state_def boot_blocks_def reset_env_def reset_state_def main_thread_def idle_thread_def stat_base_def stat_defs)

text \<open>Property C7: the system comes up. When the board is set up, the kernel's memory is zero otherwise and every allocation of
  the start gets its memory, the start-up fails no assertion and leaves a state in which the invariant of
  the kernel holds, the main thread has the processor, the idle thread is the only other thread that is ready and alone in
  the lowest queue, no timer runs, all signal nodes are free, and the idle thread calls the hook of the processor load.\<close>

theorem system_starts:
  assumes "boot_ok b s"
  shows "\<exists>s'. rtthread_startup b (None # hs) s = Some (Some Cpu_usage_idle_hook # hs, s') \<and> kernel_inv s' \<and>
    current_thread s' = Some main_thread \<and> stat_base (threads s' main_thread) = RT_THREAD_RUNNING \<and>
    (\<forall>h. klists s' h = (if h = Prio 31 then [idle_thread] else [])) \<and> ready_group s' = 2 ^ 31 \<and>
    timer_list s' = [] \<and> siginfo_free s' = RT_SIG_INFO_MAX"
proof -
  obtain a where a: "main_ptr b = Some main_thread" "main_stack b = Some a" "unat a + 2048 < 2 ^ 32" "siginfo_pool b"
    "idle_stack b \<noteq> 0" "unat (idle_stack b) + 1024 < 2 ^ 32" "boot_state s"
    using assms by (auto simp: boot_ok_def split: option.splits)
  obtain d1 d2 d3 d4 where d: "proximity_ptr b = Some d1" "engine_ptr b = Some d2" "bag_ptr b = Some d3" "speaker_ptr b = Some d4"
    "distinct [d1, d2, d3, d4]" "\<forall>d \<in> {d1, d2, d3, d4}. Kobj d \<notin> set (containers s RT_Object_Class_Device)"
    using assms by (auto simp: boot_ok_def boot_blocks_def split: option.splits)
  obtain s1 where s1: "rt_mock_devices_init (Some d1) (Some d2) (Some d3) (Some d4) s = Some s1" "boot_state s1"
    using mock_devices_boot [OF a(7) d(5,6)] by blast
  let ?s3 = "rt_system_scheduler_init (rt_system_timer_init s1)"
  let ?s4 = "?s3\<lparr>siginfo_free := RT_SIG_INFO_MAX\<rparr>"
  have "kernel_inv ?s4" using kernel_empty [OF s1(2)] kernel_inv_cong [of ?s4 ?s3] by simp
  then have w4: "waiting {} ?s4"
    using s1(2) by (simp add: waiting_def boot_state_def rt_system_scheduler_init_def rt_system_timer_init_def)
  obtain s5 where s5: "rt_application_init b ?s4 = Some s5" "waiting {main_thread} s5" "prio_of s5 main_thread = 10" "siginfo_free s5 = RT_SIG_INFO_MAX"
    using rt_application_init_boot [OF w4 a(1-3)] by auto
  obtain s6 where s6: "rt_thread_idle_init idle_thread (idle_stack b) idle_thread s5 = Some s6" "waiting {main_thread, idle_thread} s6"
    "prio_of s6 idle_thread = 31" "threads s6 main_thread = threads s5 main_thread" "siginfo_free s6 = siginfo_free s5"
    using rt_thread_idle_init_boot [OF s5(2) a(5,6)] by blast
  obtain s' where s': "rt_system_scheduler_start s6 = Some s'" "kernel_inv s'" "current_thread s' = Some main_thread"
    "stat_base (threads s' main_thread) = RT_THREAD_RUNNING" "\<forall>h. klists s' h = (if h = Prio 31 then [idle_thread] else [])"
    "ready_group s' = 2 ^ 31" "timer_list s' = []" "siginfo_free s' = siginfo_free s6"
    using start_first [OF s6(2)] s5(3) s6(3,4) by auto
  moreover have "rtthread_startup b (None # hs) s = Some (Some Cpu_usage_idle_hook # hs, s')"
    using s1(1) d(1-4) a(4) s5(1) s6(1) s'(1) by (simp add: rtthread_startup_def rt_system_signal_init_def cpu_usage_init_first Let_def)
  ultimately show ?thesis using s6(5) s5(4) by simp
qed

theorem system_starts_witness:
  "\<exists>s'. rtthread_startup reset_env [None, None, None, None] reset_state = Some ([Some Cpu_usage_idle_hook, None, None, None], s') \<and>
     kernel_inv s' \<and> current_thread s' = Some main_thread \<and> klists s' (Prio 31) = [idle_thread]"
  using system_starts [OF reset_ok, of "[None, None, None]"] by auto

text \<open>Property C8: threads are created whole or not at all. While threads run, creating one from memory that is not in use and
  starting it succeeds, keeps the invariant of the kernel, and makes it runnable at the priority asked for; when there is no memory for
  its structure nothing changes; when there is none for its stack the structure is released again and no thread has changed.\<close>

theorem thread_create_then_start:
  assumes "kernel_inv s" "current_thread s = Some c" "interrupt_nest s = 0" "unused_thread t s"
    "unat pr < RT_THREAD_PRIORITY_MAX" "unat a + unat n < 2 ^ 32" "76 \<le> unat n"
  shows "(\<exists>s1 s2 c2. rt_thread_create (Some t) (Some a) name entry n pr tick s = Some (Some t, s1) \<and> kernel_inv s1 \<and>
      stat_base (threads s1 t) = RT_THREAD_INIT \<and> rt_thread_startup t s1 = Some (RT_EOK, s2) \<and> kernel_inv s2 \<and>
      current_thread s2 = Some c2 \<and> runnable (threads s2 t) \<and> prio_of s2 t = unat pr) \<and>
    rt_thread_create None (Some a) name entry n pr tick s = Some (None, s) \<and>
    (\<exists>s'. rt_thread_create (Some t) None name entry n pr tick s = Some (None, s') \<and> kernel_inv s' \<and> unused_thread t s' \<and>
      (\<forall>c. Kobj t \<notin> set (containers s' c)) \<and> threads s' = threads s)"
proof -
  obtain s1 where s1: "rt_thread_create (Some t) (Some a) name entry n pr tick s = Some (Some t, s1)" "thread_new t pr s s1"
    using rt_thread_create_spec [OF assms(1,4,3,5,6,7)] by blast
  have i: "kernel_inv s1" "initialised t pr s1" using s1(2) by (simp_all add: thread_new_def)
  obtain c1 where c1: "current_thread s1 = Some c1" using s1(2) assms(2) by (cases "current_thread s1") (simp_all add: thread_new_def)
  obtain s2 c2 where "rt_thread_startup t s1 = Some (RT_EOK, s2)" "kernel_inv s2" "current_thread s2 = Some c2" "runnable (threads s2 t)"
    "prio_of s2 t = unat pr"
    using rt_thread_startup_spec [OF i(1) c1, of t] i(2) by (auto simp: initialised_def)
  then show ?thesis using s1(1) i rt_thread_create_no_memory [OF assms(1,4,3)] by (auto simp: initialised_def)
qed

lemma rvc_sample_unused: "unused_thread 5 rvc_sample"
  by (simp add: unused_thread_def live_def rvc_sample_def) (simp add: rvc_sample_def sample_def sample_threads_def sample_thread_def ipc_state.defs dev_state.defs rvc_state.defs stat_base_def stat_defs)

theorem thread_create_then_start_witness:
  "\<exists>s1 s2. rt_thread_create (Some 5) (Some 0x20003000) ''work'' 5 512 7 10 rvc_sample = Some (Some 5, s1) \<and>
     rt_thread_startup 5 s1 = Some (RT_EOK, s2) \<and> kernel_inv s2 \<and> prio_of s2 5 = 7"
  using thread_create_then_start [OF rvc_sample_inv _ _ rvc_sample_unused, of 1 7 "0x20003000" 512 "''work''" 5 10]
  by (auto simp: RT_THREAD_PRIORITY_MAX_def)

end
