(* ===== verification/Spec2Isabelle.thy ===== *)
theory Spec2Isabelle
  imports Kernel_Props Machine_Props Service_Props Mq_Props Mempool_Props Memheap_Props Ringbuffer_Props Kformat_Props Dev_Ipc_Props
    Startup_Props
begin

text \<open>
  A verification development for the robot vacuum cleaner of this repository: the operating system kernel it runs on
  (RT-Thread 4.1.0, changed for the project) and the tasks that drive the robot. File names are relative to
  \<^verbatim>\<open>src/RVC_Oses\<close>.

  \<^bold>\<open>The program and its parts.\<close> The board has one Cortex-M4 processor. The kernel (\<^verbatim>\<open>rt-thread/src\<close>) keeps the threads in
  32 ready queues with a bitmap, switches between them by priority, counts a clock of 100 ticks a second, runs timers
  from the clock interrupt, and offers semaphores, mutexes, event sets, mailboxes, message queues, memory pools, a memory
  heap, signals and devices. The application (\<^verbatim>\<open>applications\<close>) starts five tasks and the system task: obstacle control, movement control,
  check of the resources, acoustic signals, brush speed, and the simulation of the battery. Periodic timers set flags of
  an event that the tasks wait for; an obstacle is a signal to movement control; low battery and full bag go by mailbox
  and event; an empty battery is a signal to the system task, which closes all others. The configuration is that of
  \<^verbatim>\<open>rtconfig.h\<close>: one processor, hard timers only, hooks null except the idle hook, assertions on.

  \<^bold>\<open>How code becomes definitions.\<close> A C function is a function on the state: a record with a field per structure or
  variable. The records are extended along the layers, \<open>kstate\<close> by \<open>ipc_state\<close>, \<open>dev_state\<close>, \<open>rvc_state\<close> (and
  \<open>mp_state\<close> for the pools, \<open>heap_state\<close> for the memory heap, \<open>dipc_state\<close> for the objects of the drivers), and the operations are polymorphic in what a later layer adds. Integers have their width
  (\<open>u8\<close>, \<open>u16\<close>, \<open>u32\<close>), so the tick counter and the counts of the objects wrap around as on the board; error codes and
  timeouts are \<open>int\<close>. \<open>None\<close> is a failed assertion (the code then hangs), an access outside an array, or a loop that
  does not end. A thread that gives up the processor in a call returns \<open>Wait\<close>; what the call does when the thread runs
  again is the definition with the suffix \<open>_resumed\<close>. A section with interrupts disabled is one step.

  \<^bold>\<open>The theories.\<close>
  \<^item> \<open>Kernel_Prelude\<close>: integer types, error codes, assertions, \<^verbatim>\<open>__rt_ffs\<close>, shared lemmas and collections of facts.
  \<^item> \<open>Kernel_State\<close>: threads, objects, timers and the lists of threads, as one record.
  \<^item> \<open>Scheduler\<close> (\<^verbatim>\<open>scheduler.c\<close>): ready queues, bitmap, choice of the thread, critical sections. Locale \<open>ready_queue\<close>.
  \<^item> \<open>Kobject\<close> (\<^verbatim>\<open>object.c\<close>), \<open>Timer\<close> (\<^verbatim>\<open>timer.c\<close>, locale \<open>timer_callbacks\<close>), \<open>Clock\<close> (\<^verbatim>\<open>clock.c\<close>, \<^verbatim>\<open>irq.c\<close>),
    \<open>Thread\<close> (\<^verbatim>\<open>thread.c\<close>, and the stack frame of \<^verbatim>\<open>cpuport.c\<close>).
  \<^item> \<open>Kernel_Inv\<close>: the invariant of scheduler, timers and threads together, kept by every thread operation.
  \<^item> \<open>Ipc\<close> (waiting lists and semaphores, locale \<open>wait_queue\<close>), \<open>Mutex\<close>, \<open>Event\<close>, \<open>Mailbox\<close> (locale \<open>bounded_fifo\<close>),
    \<open>Mq\<close>: the objects of \<^verbatim>\<open>ipc.c\<close>. \<open>Mempool\<close>: \<^verbatim>\<open>mempool.c\<close>.
  \<^item> \<open>Signal\<close> (\<^verbatim>\<open>signal.c\<close>, locale \<open>signal_handlers\<close>), \<open>Device\<close> (\<^verbatim>\<open>device.c\<close>, \<^verbatim>\<open>pin.c\<close> and the robot's mock devices),
    \<open>Idle\<close> (\<^verbatim>\<open>idle.c\<close>, \<^verbatim>\<open>cpu_usage.c\<close>).
  \<^item> \<open>Robot\<close> (map and movement of \<^verbatim>\<open>tasks.c\<close>), \<open>Activation\<close> (\<^verbatim>\<open>structures.h\<close>, the timer functions), \<open>Tasks\<close> (the entry functions
    of the tasks and of \<^verbatim>\<open>system.c\<close>, each as steps between its calls that may block), \<open>Rvc_System\<close> (\<^verbatim>\<open>main.c\<close>, the clock
    interrupt, and the step relation \<open>rvc_step\<close> of the whole machine).
  \<^item> \<open>Klist\<close> (\<^verbatim>\<open>rtservice.h\<close>) and \<open>Kservice\<close> (\<^verbatim>\<open>kservice.c\<close>): the pointer lists and the memory and string functions below
    the kernel. \<open>Ring\<close>: the pointer lists as chains, shared with the heap. \<open>Kformat\<close>: formatted output into a buffer
    (\<^verbatim>\<open>rt_vsnprintf\<close>), and the text of a format as the reference it is compared with.
  \<^item> The memory heap (\<^verbatim>\<open>memheap.c\<close>): \<open>Heap_Blocks\<close> (items, the two rings, what each operation does to the blocks),
    \<open>Heap_Inv\<close> (the invariant \<open>memheap_ok\<close>), \<open>Heap_Ops\<close> and \<open>Heap_Resize\<close> (it is kept by allocating, releasing, growing
    and shrinking), \<open>Memheap\<close> (the operations with lock and assertions, and the calls of the system), \<open>Memheap_Spec\<close>,
    \<open>Memheap_Realloc\<close>, \<open>Memheap_System\<close> (what each returns and leaves), \<open>Kservice_Alloc\<close> (\<^verbatim>\<open>rt_strdup\<close>, aligned
    allocation). \<open>Allocator\<close>: the interface of an allocator as a locale, and that its clients' blocks never overlap.
  \<^item> \<open>Thread_New\<close>: creating, initialising and starting threads, before and after the scheduler runs. \<open>Startup\<close>
    (\<^verbatim>\<open>components.c\<close>): from the reset to the first thread.
  \<^item> \<open>Dev_Ipc\<close> (\<^verbatim>\<open>completion.c\<close>, \<^verbatim>\<open>dataqueue.c\<close>, \<^verbatim>\<open>waitqueue.c\<close>): the objects through which drivers hand over work.
  \<^item> \<open>Ringbuffer\<close> (\<^verbatim>\<open>ringbuffer.c\<close>) and \<open>Ringbuffer_Alloc\<close> (creating and destroying one on the heap): the byte queue of the drivers.
  \<^item> \<open>App_Frame\<close>, \<open>Machine\<close>: what no kernel operation touches, and the refinement of the machine to an abstract robot.
  \<^item> \<open>Sample_State\<close>: a configuration on which the properties are shown to apply. \<open>Kernel_Props\<close>, \<open>Mq_Props\<close>,
    \<open>Mempool_Props\<close>, \<open>Memheap_Props\<close>, \<open>Service_Props\<close>, \<open>Ringbuffer_Props\<close>, \<open>Kformat_Props\<close>, \<open>Dev_Ipc_Props\<close>, \<open>Startup_Props\<close>, \<open>App_Props\<close>, \<open>Machine_Props\<close>: the properties with their witnesses.

  \<^bold>\<open>What is shown.\<close> The kernel invariant (every thread in at most the one list its state says, bitmap and queues in
  accord, timers ordered, timer and waiting list of a suspended thread in order) is established by the start-up from a reset
  and kept by every operation, and on
  top of it each operation is described on all its branches: the scheduler gives the processor to a thread of the
  highest priority; timers are ordered across the wrap-around of the counter and the clock interrupt always returns;
  a timeout or a signal makes a suspended thread runnable; a flag sent to an event is never lost; mailboxes and message
  queues refine a first-in-first-out queue, the latter under any interleaving of their sections; a mutex has one owner;
  a memory pool hands out each block once and takes it back exactly. The memory heap keeps
  its blocks apart under every sequence of requests, joins free neighbours when a block comes back, returns the first free
  block that is large enough, and keeps the contents of a block whose size changes. The lists of the kernel state are implemented by the
  pointer lists. The ring buffer refines a bounded queue of bytes for blocks of any length and takes its two blocks from
  the heap and gives them back; a data queue is a bounded queue that wakes its readers and writers, and a completion is handed
  to its waiter or kept; formatted output stays in its buffer and is the text of the format. For the application: every step of the machine refines a move of an abstract robot, from which the
  robot's type invariant, the return to the charging station and the count of the bag follow; signal handling ends;
  the alarms, the battery thresholds and the closing of the tasks are described as they are coded, including the cases
  in which the code does not do what the documentation says.

  \<^bold>\<open>Interfaces.\<close> Each locale states what a client relies on and is interpreted on the model: \<open>rq\<close> (ready queue on the
  scheduler), \<open>wq\<close> (waiting lists), \<open>mbq\<close>, \<open>mqq\<close>, \<open>rbq\<close> and \<open>dqq\<close> (bounded queues on mailbox, message queue, ring buffer and data queue), \<open>tc\<close> (timer functions on
  the application's), \<open>rh\<close> (signal handlers on the application's), \<open>mh\<close> (allocator on the memory heap).

  \<^bold>\<open>Bounds and loops.\<close> No fuel is used. Loops over lists are structural; loops that need an argument to end (timer
  check, signal handling, resuming all waiters, draining a queue, string scans, the length of a list, the search of
  the free blocks) are
  \<open>partial_function\<close>s, and that they return is proved where the code relies on it. Timeouts below the largest
  positive value are assumed where a timer is armed, as the timer asserts.

  \<^bold>\<open>Parameters.\<close> Whether the heap has memory, the numbers of the random generator, the levels of the input pins and the
  addresses of string literals and stacks come from the environment \<open>env\<close> or are arguments.

  \<^bold>\<open>Not modelled.\<close> The context switch itself (assembly), the printed overviews of the memory heap (\<^verbatim>\<open>mem.c\<close> and \<^verbatim>\<open>slab.c\<close>
  are not compiled), output to the console, the set-up of the board that precedes the start-up, multicore variants, soft
  timers, the shell, file system and C library, the rest of the driver framework (pipes, work queues, block ring buffer,
  buses and device classes), the board support and the vendor's library.
\<close>

end
